(* ===== verification/Prelude.thy ===== *)
theory Prelude
  imports Main "HOL-Library.Word" "HOL-Library.Product_Lexorder" "HOL-Library.Monad_Syntax" "HOL-Library.List_Lexorder"
begin

text \<open>
  Shared vocabulary of the development: machine integers with Rust's saturating operations,
  Rust strings as lists of Unicode scalar values, JSON values, the iterator functions
  \<open>min_by_key\<close> and \<open>max_by_key\<close>, and reachability in a transition system together with the
  locale \<open>inductive_system\<close> in which every state machine of the development is proved
  correct.
\<close>

section \<open>Collections of facts\<close>

named_theorems rust_word
  \<comment> \<open>\<open>unat\<close> of Rust's saturating word operations\<close>

section \<open>Machine integers\<close>

type_synonym u8 = "8 word"
type_synonym u16 = "16 word"
type_synonym u32 = "32 word"
type_synonym u64 = "64 word"

definition saturating_sub :: "'a::len word \<Rightarrow> 'a word \<Rightarrow> 'a word" where
  "saturating_sub a b = (if a < b then 0 else a - b)"

definition saturating_add :: "'a::len word \<Rightarrow> 'a word \<Rightarrow> 'a word" where
  "saturating_add a b = (if unat a + unat b < 2 ^ LENGTH('a) then a + b else - 1)"

definition saturating_mul :: "'a::len word \<Rightarrow> 'a word \<Rightarrow> 'a word" where
  "saturating_mul a b = (if unat a * unat b < 2 ^ LENGTH('a) then a * b else - 1)"

definition checked_add :: "'a::len word \<Rightarrow> 'a word \<Rightarrow> 'a word option" where
  "checked_add a b = (if unat a + unat b < 2 ^ LENGTH('a) then Some (a + b) else None)"

definition abs_diff :: "'a::len word \<Rightarrow> 'a word \<Rightarrow> 'a word" where
  "abs_diff a b = (if a \<le> b then b - a else a - b)"

lemma unat_saturating_sub [rust_word]: "unat (saturating_sub a b) = unat a - unat b"
  by (auto simp: saturating_sub_def word_less_nat_alt unat_sub word_le_nat_alt not_less)

lemma unat_plus_in_range:
  fixes a b :: "'a::len word"
  shows "unat a + unat b < 2 ^ LENGTH('a) \<Longrightarrow> unat (a + b) = unat a + unat b"
  by (simp add: unat_word_ariths)

lemma unat_plus_u16 [rust_word]:
  fixes a b :: u16
  shows "unat a + unat b \<le> 65535 \<Longrightarrow> unat (a + b) = unat a + unat b"
  using unat_plus_in_range [of a b] by simp

lemma unat_u16_le: "unat (w :: u16) \<le> 65535"
proof -
  have "unat w < 2 ^ LENGTH(16)" by (rule unsigned_less)
  then show ?thesis by simp
qed

lemma unat_saturating_add_u16 [rust_word]:
  fixes a b :: u16
  shows "unat (saturating_add a b) = min 65535 (unat a + unat b)"
  by (auto simp: saturating_add_def unat_word_ariths min_def unsigned_minus_1_eq_mask
      mask_eq_exp_minus_1)

lemma saturating_sub_0 [simp]: "saturating_sub 0 a = 0" "saturating_sub a 0 = a"
  by (simp_all add: saturating_sub_def word_less_nat_alt unat_eq_zero)

section \<open>Strings\<close>

text \<open>
  A Rust \<open>String\<close> is a list of Unicode scalar values; \<open>U ''abc''\<close> is the literal.
  \<open>is_whitespace\<close> is the Unicode property \<open>White_Space\<close> that \<open>str::trim\<close> uses and
  \<open>is_control\<close> the general category \<open>Cc\<close>.
\<close>

type_synonym ustr = "nat list"

definition U :: "string \<Rightarrow> ustr" where
  "U s = map of_char s"

definition is_whitespace :: "nat \<Rightarrow> bool" where
  "is_whitespace c \<longleftrightarrow> (9 \<le> c \<and> c \<le> 13) \<or> c = 32 \<or> c = 133 \<or> c = 160 \<or> c = 5760 \<or>
     (8192 \<le> c \<and> c \<le> 8202) \<or> c = 8232 \<or> c = 8233 \<or> c = 8239 \<or> c = 8287 \<or> c = 12288"

definition is_control :: "nat \<Rightarrow> bool" where
  "is_control c \<longleftrightarrow> c < 32 \<or> (127 \<le> c \<and> c < 160)"

definition trim :: "ustr \<Rightarrow> ustr" where
  "trim s = rev (dropWhile is_whitespace (rev (dropWhile is_whitespace s)))"

lemma set_trim: "set (trim s) \<subseteq> set s"
  unfolding trim_def by (auto dest!: set_dropWhileD)

definition prefixed :: "ustr \<Rightarrow> ustr \<Rightarrow> bool" where
  "prefixed p s \<longleftrightarrow> take (length p) s = p"

definition strip_prefix :: "ustr \<Rightarrow> ustr \<Rightarrow> ustr option" where
  "strip_prefix p s = (if prefixed p s then Some (drop (length p) s) else None)"

lemma strip_prefix_iff: "strip_prefix p s = Some r \<longleftrightarrow> s = p @ r"
  unfolding strip_prefix_def prefixed_def by (auto) (metis append_take_drop_id)

fun join :: "ustr \<Rightarrow> ustr list \<Rightarrow> ustr" where
  "join sep [] = []"
| "join sep [x] = x"
| "join sep (x # y # xs) = x @ sep @ join sep (y # xs)"

section \<open>Numbers and bytes as text\<close>

text \<open>
  Decimal and hexadecimal formatting of \<open>format!\<close>, zero padding to a minimal width, the UTF-8
  encoding of a string and the little-endian bytes of an integer.
\<close>

definition digit_char :: "nat \<Rightarrow> nat" where
  "digit_char d = (if d < 10 then 48 + d else 87 + d)"

fun digits_acc :: "nat \<Rightarrow> nat \<Rightarrow> nat \<Rightarrow> ustr \<Rightarrow> ustr" where
  "digits_acc 0 b n acc = acc"
| "digits_acc (Suc fuel) b n acc =
     (if n < b then digit_char n # acc
      else digits_acc fuel b (n div b) (digit_char (n mod b) # acc))"

text \<open>A number has at most \<open>n + 1\<close> digits in a base of at least two, so the fuel \<open>n + 1\<close> is enough.\<close>

definition radix :: "nat \<Rightarrow> nat \<Rightarrow> ustr" where
  "radix b n = digits_acc (n + 1) b n []"

definition dec :: "nat \<Rightarrow> ustr" where
  "dec n = radix 10 n"

definition dec_int :: "int \<Rightarrow> ustr" where
  "dec_int i = (if i < 0 then 45 # dec (nat (- i)) else dec (nat i))"

definition pad0 :: "nat \<Rightarrow> ustr \<Rightarrow> ustr" where
  "pad0 w s = replicate (w - length s) 48 @ s"

definition upper_hex :: "nat \<Rightarrow> ustr" where
  "upper_hex n = map (\<lambda>c. if 97 \<le> c then c - 32 else c) (radix 16 n)"

definition hex_byte :: "u8 \<Rightarrow> ustr" where
  "hex_byte b = pad0 2 (radix 16 (unat b))"

definition utf8_char :: "nat \<Rightarrow> u8 list" where
  "utf8_char c =
     (if c < 128 then [of_nat c]
      else if c < 2048 then [of_nat (192 + c div 64), of_nat (128 + c mod 64)]
      else if c < 65536 then
        [of_nat (224 + c div 4096), of_nat (128 + c div 64 mod 64), of_nat (128 + c mod 64)]
      else [of_nat (240 + c div 262144), of_nat (128 + c div 4096 mod 64),
            of_nat (128 + c div 64 mod 64), of_nat (128 + c mod 64)])"

definition as_bytes :: "ustr \<Rightarrow> u8 list" where
  "as_bytes s = concat (map utf8_char s)"

fun le_bytes :: "nat \<Rightarrow> nat \<Rightarrow> u8 list" where
  "le_bytes 0 n = []"
| "le_bytes (Suc k) n = of_nat (n mod 256) # le_bytes k (n div 256)"

lemma digits_acc_enough:
  "2 \<le> b \<Longrightarrow> n < f \<Longrightarrow> n < g \<Longrightarrow> digits_acc f b n acc = digits_acc g b n acc"
proof (induction f arbitrary: g n acc)
  case 0
  then show ?case by simp
next
  case (Suc f)
  then obtain g' where g: "g = Suc g'" by (cases g) auto
  show ?case
  proof (cases "n < b")
    case False
    with Suc.prems have "n div b < n" by (intro div_less_dividend) auto
    with Suc g have "n div b < f" "n div b < g'" by auto
    with Suc.IH [OF Suc.prems(1) this] False g show ?thesis by simp
  qed (simp add: g)
qed

lemma digits_acc_append: "digits_acc f b n (acc @ xs) = digits_acc f b n acc @ xs"
  by (induction f b n acc rule: digits_acc.induct) auto

lemma radix_rec:
  assumes "2 \<le> b"
  shows "radix b n = (if n < b then [digit_char n] else radix b (n div b) @ [digit_char (n mod b)])"
proof (cases "n < b")
  case False
  with assms have "n div b < n" by (intro div_less_dividend) auto
  then have "digits_acc n b (n div b) [digit_char (n mod b)]
      = digits_acc (n div b + 1) b (n div b) [digit_char (n mod b)]"
    by (intro digits_acc_enough) (use assms in auto)
  also have "\<dots> = radix b (n div b) @ [digit_char (n mod b)]"
    unfolding radix_def by (subst digits_acc_append [symmetric]) (simp only: append_Nil)
  finally show ?thesis using False by (simp add: radix_def)
qed (simp add: radix_def)

lemma length_le_bytes [simp]: "length (le_bytes k n) = k"
  by (induction k arbitrary: n) auto

lemma le_bytes_inj: "le_bytes k m = le_bytes k n \<Longrightarrow> m < 256 ^ k \<Longrightarrow> n < 256 ^ k \<Longrightarrow> m = n"
proof (induction k arbitrary: m n)
  case (Suc k)
  have "(of_nat (m mod 256) :: u8) = of_nat (n mod 256)" using Suc.prems(1) by simp
  then have "unat (of_nat (m mod 256) :: u8) = unat (of_nat (n mod 256) :: u8)" by simp
  then have "m mod 256 = n mod 256" by (simp add: unat_of_nat)
  moreover have "m div 256 = n div 256"
  proof (rule Suc.IH)
    show "le_bytes k (m div 256) = le_bytes k (n div 256)" using Suc.prems(1) by simp
    show "m div 256 < 256 ^ k" "n div 256 < 256 ^ k"
      using Suc.prems(2,3) by (simp_all add: less_mult_imp_div_less mult.commute)
  qed
  ultimately show ?case by (metis div_mult_mod_eq)
qed simp

section \<open>Numbers and fields read from text\<close>

text \<open>\<open>str::parse\<close> for an unsigned integer type with largest value \<open>mx\<close>.\<close>

definition is_ascii_digit :: "nat \<Rightarrow> bool" where
  "is_ascii_digit c \<longleftrightarrow> 48 \<le> c \<and> c \<le> 57"

definition digits_value :: "ustr \<Rightarrow> nat" where
  "digits_value s = foldl (\<lambda>acc c. acc * 10 + (c - 48)) 0 s"

definition parse_uint :: "nat \<Rightarrow> ustr \<Rightarrow> nat option" where
  "parse_uint mx s =
     (let body = (case s of [] \<Rightarrow> [] | c # r \<Rightarrow> if c = 43 then r else s)
      in if body = [] \<or> \<not> list_all is_ascii_digit body then None
         else if digits_value body \<le> mx then Some (digits_value body) else None)"

definition strip_suffix_char :: "nat \<Rightarrow> ustr \<Rightarrow> ustr option" where
  "strip_suffix_char c s = (if s \<noteq> [] \<and> last s = c then Some (butlast s) else None)"

text \<open>\<open>str::split\<close> at the characters that satisfy a predicate; the last argument is the field being read, reversed.\<close>

fun split_by :: "(nat \<Rightarrow> bool) \<Rightarrow> ustr \<Rightarrow> ustr \<Rightarrow> ustr list" where
  "split_by P [] acc = [rev acc]"
| "split_by P (c # cs) acc = (if P c then rev acc # split_by P cs [] else split_by P cs (c # acc))"

lemma digits_value_snoc: "digits_value (s @ [c]) = digits_value s * 10 + (c - 48)"
  by (simp add: digits_value_def)

lemma dec_rec: "dec n = (if n < 10 then [48 + n] else dec (n div 10) @ [48 + n mod 10])"
  using radix_rec [of 10 n] by (auto simp: dec_def digit_char_def)

lemma dec_facts: "dec n \<noteq> [] \<and> list_all is_ascii_digit (dec n) \<and> digits_value (dec n) = n \<and> (0 < n \<longrightarrow> hd (dec n) \<noteq> 48)"
proof (induction n rule: less_induct)
  case (less n)
  show ?case
  proof (cases "n < 10")
    case True
    then show ?thesis by (subst (1 2 3 4) dec_rec) (simp add: is_ascii_digit_def digits_value_def)
  next
    case False
    then have d: "n div 10 < n" "0 < n div 10" by auto
    have n10: "n div 10 * 10 + n mod 10 = n" by simp
    from less.IH [OF d(1)] d(2) have IH: "dec (n div 10) \<noteq> []" "list_all is_ascii_digit (dec (n div 10))"
      "digits_value (dec (n div 10)) = n div 10" "hd (dec (n div 10)) \<noteq> 48" by auto
    have "n mod 10 < 10" by simp
    then have m: "is_ascii_digit (48 + n mod 10)" unfolding is_ascii_digit_def by linarith
    have e: "dec n = dec (n div 10) @ [48 + n mod 10]" using False by (subst dec_rec) simp
    show ?thesis unfolding e digits_value_snoc using IH m n10 by simp
  qed
qed

lemma parse_uint_dec: "n \<le> mx \<Longrightarrow> parse_uint mx (dec n) = Some n"
  using dec_facts [of n]
  by (cases "dec n") (auto simp: parse_uint_def is_ascii_digit_def)

section \<open>JSON values\<close>

datatype json = JNull | JBool bool | JNum int | JStr ustr | JArr "json list"
  | JObj "(ustr \<times> json) list"

fun json_get :: "json \<Rightarrow> ustr \<Rightarrow> json option" where
  "json_get (JObj kvs) k = map_of kvs k"
| "json_get _ _ = None"

definition json_index :: "json \<Rightarrow> ustr \<Rightarrow> json" where
  "json_index j k = (case json_get j k of Some v \<Rightarrow> v | None \<Rightarrow> JNull)"

definition opt_str :: "ustr option \<Rightarrow> json" where
  "opt_str v = (case v of Some s \<Rightarrow> JStr s | None \<Rightarrow> JNull)"

fun json_str :: "json \<Rightarrow> ustr option" where
  "json_str (JStr s) = Some s"
| "json_str _ = None"

section \<open>Iterators\<close>

text \<open>
  \<open>Iterator::min_by_key\<close> returns the first minimal element and \<open>max_by_key\<close> the last
  maximal one. \<open>Reverse\<close> is \<open>std::cmp::Reverse\<close>.
\<close>

fun min_by_key :: "('a \<Rightarrow> 'k::linorder) \<Rightarrow> 'a list \<Rightarrow> 'a option" where
  "min_by_key f [] = None"
| "min_by_key f (x # xs) =
     (case min_by_key f xs of None \<Rightarrow> Some x | Some y \<Rightarrow> Some (if f x \<le> f y then x else y))"

fun max_by_key :: "('a \<Rightarrow> 'k::linorder) \<Rightarrow> 'a list \<Rightarrow> 'a option" where
  "max_by_key f [] = None"
| "max_by_key f (x # xs) =
     (case max_by_key f xs of None \<Rightarrow> Some x | Some y \<Rightarrow> Some (if f x \<le> f y then y else x))"

lemma min_by_key_None [simp]: "min_by_key f xs = None \<longleftrightarrow> xs = []"
  by (cases xs) (auto split: option.splits)

lemma max_by_key_None [simp]: "max_by_key f xs = None \<longleftrightarrow> xs = []"
  by (cases xs) (auto split: option.splits)

lemma min_by_key_Some:
  "min_by_key f xs = Some x \<Longrightarrow> x \<in> set xs \<and> (\<forall>y \<in> set xs. f x \<le> f y)"
proof (induction xs arbitrary: x)
  case Nil
  then show ?case by simp
next
  case (Cons a xs)
  then show ?case
    by (cases "min_by_key f xs") (auto split: if_splits intro: order.trans)
qed

lemma max_by_key_Some:
  "max_by_key f xs = Some x \<Longrightarrow> x \<in> set xs \<and> (\<forall>y \<in> set xs. f y \<le> f x)"
proof (induction xs arbitrary: x)
  case Nil
  then show ?case by simp
next
  case (Cons a xs)
  then show ?case
    by (cases "max_by_key f xs") (auto split: if_splits intro: order.trans)
qed

lemma max_by_key_sorted: "sorted (map f xs) \<Longrightarrow> xs \<noteq> [] \<Longrightarrow> max_by_key f xs = Some (last xs)"
  by (induction xs) auto

datatype 'a reverse = Reverse (unreverse: 'a)

instantiation reverse :: (linorder) linorder
begin

definition less_eq_reverse :: "'a reverse \<Rightarrow> 'a reverse \<Rightarrow> bool" where
  "less_eq_reverse a b \<longleftrightarrow> unreverse b \<le> unreverse a"

definition less_reverse :: "'a reverse \<Rightarrow> 'a reverse \<Rightarrow> bool" where
  "less_reverse a b \<longleftrightarrow> unreverse b < unreverse a"

instance
  by standard
    (auto simp: less_eq_reverse_def less_reverse_def intro: reverse.expand dest: antisym)

end

text \<open>Lists searched by position, as \<open>Iterator::position\<close> does.\<close>

fun position :: "('a \<Rightarrow> bool) \<Rightarrow> 'a list \<Rightarrow> nat option" where
  "position P [] = None"
| "position P (x # xs) = (if P x then Some 0 else map_option Suc (position P xs))"

lemma position_Some:
  "position P xs = Some i \<Longrightarrow> i < length xs \<and> P (xs ! i) \<and> (\<forall>j < i. \<not> P (xs ! j))"
proof (induction xs arbitrary: i)
  case Nil
  then show ?case by simp
next
  case (Cons x xs)
  then show ?case
    by (auto split: if_splits simp: less_Suc_eq_0_disj)
qed

lemma position_None: "position P xs = None \<longleftrightarrow> (\<forall>x \<in> set xs. \<not> P x)"
  by (induction xs) auto

lemma position_ex: "x \<in> set xs \<Longrightarrow> P x \<Longrightarrow> \<exists>i. position P xs = Some i"
  using position_None [of P xs] by (cases "position P xs") auto

lemma find_SomeD: "find P xs = Some x \<Longrightarrow> x \<in> set xs \<and> P x"
  by (induction xs) (auto split: if_splits)

lemma find_NoneD: "find P xs = None \<Longrightarrow> x \<in> set xs \<Longrightarrow> \<not> P x"
  by (induction xs) (auto split: if_splits)

section \<open>Transition systems\<close>

text \<open>
  Reachability, and the locale in which each state machine of the development proves its
  safety property: an invariant that the initial states satisfy and every step keeps holds in
  every reachable state.
\<close>

inductive reachable :: "('s \<Rightarrow> bool) \<Rightarrow> ('s \<Rightarrow> 's \<Rightarrow> bool) \<Rightarrow> 's \<Rightarrow> bool"
  for init :: "'s \<Rightarrow> bool" and step :: "'s \<Rightarrow> 's \<Rightarrow> bool" where
  start: "init s \<Longrightarrow> reachable init step s"
| step: "reachable init step s \<Longrightarrow> step s t \<Longrightarrow> reachable init step t"

locale inductive_system =
  fixes init :: "'s \<Rightarrow> bool" and step :: "'s \<Rightarrow> 's \<Rightarrow> bool" and inv :: "'s \<Rightarrow> bool"
  assumes init_inv: "init s \<Longrightarrow> inv s"
    and step_inv: "step s t \<Longrightarrow> inv s \<Longrightarrow> inv t"
begin

lemma reachable_inv: "reachable init step s \<Longrightarrow> inv s"
  by (induction rule: reachable.induct) (auto intro: init_inv step_inv)

lemma steps_inv: "step\<^sup>*\<^sup>* s t \<Longrightarrow> inv s \<Longrightarrow> inv t"
  by (induction rule: rtranclp_induct) (auto intro: step_inv)

end

end
