(* ===== verification/Float32.thy ===== *)
theory Float32
  imports Prelude
begin

text \<open>
  IEEE 754 binary32, the type \<open>f32\<close> of the split ratios in \<open>src/layout.rs\<close>. A finite value is
  \<open>Fin m e\<close>, the number \<open>m * 2 ^ e\<close>; several pairs denote one number, so the comparison
  operators and not HOL equality compare values, and the sign of zero is not kept.
  Arithmetic is exact on the pairs and then rounded to nearest, ties to even, to 24
  significant bits with least exponent -149 and overflow to infinity, as the hardware does.
\<close>

section \<open>The type and its operations\<close>

datatype f32 = NaN | Inf bool \<comment> \<open>true for the negative infinity\<close> | Fin int int

fun bit_len :: "nat \<Rightarrow> nat" where
  "bit_len n = (if n = 0 then 0 else Suc (bit_len (n div 2)))"

declare bit_len.simps [simp del]

definition rne_div :: "int \<Rightarrow> int \<Rightarrow> int" where
  "rne_div p q =
     (let d = p div q; r = p mod q
      in if 2 * r < q then d else if 2 * r > q then d + 1 else if even d then d else d + 1)"

definition f32_round :: "int \<Rightarrow> int \<Rightarrow> f32" where
  "f32_round m e =
     (let s = max (int (bit_len (nat \<bar>m\<bar>)) - 24) (- 149 - e);
          m' = (if s \<le> 0 then m else rne_div m (2 ^ nat s));
          e' = (if s \<le> 0 then e else e + s)
      in if int (bit_len (nat \<bar>m'\<bar>)) + e' > 128 then Inf (m' < 0) else Fin m' e')"

fun f32_mul :: "f32 \<Rightarrow> f32 \<Rightarrow> f32" where
  "f32_mul (Fin m1 e1) (Fin m2 e2) = f32_round (m1 * m2) (e1 + e2)"
| "f32_mul (Inf s) (Fin m e) = (if m = 0 then NaN else Inf (s \<noteq> (m < 0)))"
| "f32_mul (Fin m e) (Inf s) = (if m = 0 then NaN else Inf (s \<noteq> (m < 0)))"
| "f32_mul (Inf s) (Inf t) = Inf (s \<noteq> t)"
| "f32_mul _ _ = NaN"

fun f32_add :: "f32 \<Rightarrow> f32 \<Rightarrow> f32" where
  "f32_add (Fin m1 e1) (Fin m2 e2) =
     (let e = min e1 e2 in f32_round (m1 * 2 ^ nat (e1 - e) + m2 * 2 ^ nat (e2 - e)) e)"
| "f32_add (Inf s) (Fin _ _) = Inf s"
| "f32_add (Fin _ _) (Inf s) = Inf s"
| "f32_add (Inf s) (Inf t) = (if s = t then Inf s else NaN)"
| "f32_add _ _ = NaN"

fun f32_neg :: "f32 \<Rightarrow> f32" where
  "f32_neg (Fin m e) = Fin (- m) e"
| "f32_neg (Inf s) = Inf (\<not> s)"
| "f32_neg NaN = NaN"

fun f32_less :: "f32 \<Rightarrow> f32 \<Rightarrow> bool" where
  "f32_less (Fin m1 e1) (Fin m2 e2) =
     (let e = min e1 e2 in m1 * 2 ^ nat (e1 - e) < m2 * 2 ^ nat (e2 - e))"
| "f32_less (Inf s) (Fin _ _) = s"
| "f32_less (Fin _ _) (Inf s) = (\<not> s)"
| "f32_less (Inf s) (Inf t) = (s \<and> \<not> t)"
| "f32_less _ _ = False"

fun f32_eq :: "f32 \<Rightarrow> f32 \<Rightarrow> bool" where
  "f32_eq (Fin m1 e1) (Fin m2 e2) =
     (let e = min e1 e2 in m1 * 2 ^ nat (e1 - e) = m2 * 2 ^ nat (e2 - e))"
| "f32_eq (Inf s) (Inf t) = (s = t)"
| "f32_eq _ _ = False"

definition f32_le :: "f32 \<Rightarrow> f32 \<Rightarrow> bool" where
  "f32_le a b \<longleftrightarrow> f32_less a b \<or> f32_eq a b"

fun is_finite :: "f32 \<Rightarrow> bool" where
  "is_finite (Fin _ _) = True"
| "is_finite _ = False"

text \<open>\<open>f32::clamp\<close>: a NaN stays a NaN.\<close>

definition f32_clamp :: "f32 \<Rightarrow> f32 \<Rightarrow> f32 \<Rightarrow> f32" where
  "f32_clamp x lo hi = (if f32_less x lo then lo else if f32_less hi x then hi else x)"

text \<open>\<open>f32::round\<close> (half away from zero) followed by the saturating cast \<open>as u16\<close>.\<close>

definition round_int :: "int \<Rightarrow> int \<Rightarrow> int" where
  "round_int m e =
     (if 0 \<le> e then m * 2 ^ nat e
      else sgn m * ((2 * \<bar>m\<bar> + 2 ^ nat (- e)) div (2 * 2 ^ nat (- e))))"

fun round_as_u16 :: "f32 \<Rightarrow> u16" where
  "round_as_u16 NaN = 0"
| "round_as_u16 (Inf s) = (if s then 0 else 65535)"
| "round_as_u16 (Fin m e) = word_of_int (max 0 (min 65535 (round_int m e)))"

definition u16_as_f32 :: "u16 \<Rightarrow> f32" where
  "u16_as_f32 w = Fin (uint w) 0"

text \<open>The literals 0.1, 0.5 and 0.9 as the nearest binary32 numbers.\<close>

definition f32_0_1 :: f32 where "f32_0_1 = Fin 13421773 (- 27)"
definition f32_0_5 :: f32 where "f32_0_5 = Fin 1 (- 1)"
definition f32_0_9 :: f32 where "f32_0_9 = Fin 15099494 (- 24)"

section \<open>Rounding stays below an integer bound\<close>

lemma bit_len_le: "n < 2 ^ k \<Longrightarrow> bit_len n \<le> k"
proof (induction k arbitrary: n)
  case 0
  then show ?case by (simp add: bit_len.simps)
next
  case (Suc k)
  then have "n div 2 < 2 ^ k" by auto
  then show ?case using Suc.IH by (subst bit_len.simps) auto
qed

lemma rne_div_le:
  assumes "0 < q" and "p \<le> n * q"
  shows "rne_div p q \<le> n"
proof -
  have eq: "p = (p div q) * q + p mod q" by simp
  have r: "0 \<le> p mod q" "p mod q < q" using assms by simp_all
  have d: "p div q \<le> n"
    using assms zdiv_mono1 [of p "n * q" q] by simp
  show ?thesis
  proof (cases "p div q = n")
    case True
    with eq assms have "p mod q \<le> 0" by (simp add: mult.commute)
    with r assms True show ?thesis by (simp add: rne_div_def)
  next
    case False
    with d show ?thesis by (simp add: rne_div_def Let_def)
  qed
qed

lemma rne_div_nonneg: "0 < q \<Longrightarrow> 0 \<le> p \<Longrightarrow> 0 \<le> rne_div p q"
  by (simp add: rne_div_def Let_def pos_imp_zdiv_nonneg_iff)

text \<open>A finite value between 0 and 1, as the ratios of a well-formed layout are.\<close>

fun unit_ratio :: "f32 \<Rightarrow> bool" where
  "unit_ratio (Fin m e) = (0 \<le> m \<and> e < 0 \<and> m \<le> 2 ^ nat (- e))"
| "unit_ratio _ = False"

definition valid_ratio :: "f32 \<Rightarrow> bool" where
  "valid_ratio r \<longleftrightarrow> is_finite r \<and> \<not> f32_less r f32_0_1 \<and> \<not> f32_less f32_0_9 r"

text \<open>Half away from zero on a nonnegative dyadic that is at most the integer \<open>n\<close>.\<close>

lemma round_int_le:
  assumes "0 \<le> m" and "0 \<le> k" and "m \<le> n * 2 ^ nat k"
  shows "0 \<le> round_int m (- k) \<and> round_int m (- k) \<le> n"
proof (cases "k = 0")
  case True
  with assms show ?thesis by (simp add: round_int_def)
next
  case False
  define P :: int where "P = 2 ^ nat k"
  have P: "0 < P" by (simp add: P_def)
  have "(2 * m + P) div (2 * P) \<le> (n * (2 * P) + P) div (2 * P)"
    using assms P by (intro zdiv_mono1) (auto simp: P_def)
  also have "\<dots> = n" using P by simp
  finally have "(2 * m + P) div (2 * P) \<le> n" .
  moreover have "0 \<le> (2 * m + P) div (2 * P)"
    using assms P by (simp add: pos_imp_zdiv_nonneg_iff)
  moreover have "0 \<le> n" 
  proof (rule ccontr)
    assume "\<not> 0 \<le> n"
    with P have "n * P < 0" by (simp add: mult_neg_pos)
    with assms show False by (simp add: P_def)
  qed
  ultimately show ?thesis
    using assms False by (auto simp: round_int_def P_def sgn_if)
qed

lemma round_as_u16_le:
  assumes "0 \<le> m" and "0 \<le> k" and "m \<le> uint w * 2 ^ nat k"
  shows "unat (round_as_u16 (Fin m (- k))) \<le> unat (w :: u16)"
proof -
  note b = round_int_le [OF assms]
  have w: "uint w \<le> 65535" using uint_lt2p [of w] by simp
  have "uint (word_of_int (max 0 (min 65535 (round_int m (- k)))) :: u16) \<le> uint w"
    using b w by (simp add: uint_word_of_int take_bit_eq_mod max_def min_def)
  then show ?thesis by (simp add: word_le_def [symmetric] word_le_nat_alt [symmetric])
qed

lemma f32_mul_unit:
  assumes "unit_ratio r"
  obtains m k where "f32_mul (u16_as_f32 w) r = Fin m (- k)" "0 \<le> m" "0 \<le> k"
    "m \<le> uint w * 2 ^ nat k"
proof -
  obtain m0 k0 where r: "r = Fin m0 (- k0)" "0 \<le> m0" "0 < k0" "m0 \<le> 2 ^ nat k0"
  proof (cases r)
    case (Fin m e)
    with assms show ?thesis using that [of m "- e"] by simp
  qed (use assms in simp_all)
  define p where "p = uint w * m0"
  have wb: "uint w < 2 ^ 16" using uint_lt2p [of w] by simp
  have p: "0 \<le> p" "p \<le> uint w * 2 ^ nat k0"
    using r by (auto simp: p_def mult_left_mono)
  define s where "s = max (int (bit_len (nat p)) - 24) (k0 - 149)"
  have "p \<le> uint w * 2 ^ nat k0" by (rule p)
  also have "\<dots> < 2 ^ 16 * 2 ^ nat k0" using wb by simp
  finally have "nat p < 2 ^ (16 + nat k0)" using p by (simp add: power_add nat_less_iff)
  from bit_len_le [OF this] have bl: "int (bit_len (nat p)) \<le> 16 + k0" using r(3) by simp
  then have sk: "s < k0" using r(3) by (simp add: s_def)
  define m1 where "m1 = (if s \<le> 0 then p else rne_div p (2 ^ nat s))"
  define k1 where "k1 = (if s \<le> 0 then k0 else k0 - s)"
  have k1: "0 < k1" using sk r(3) by (simp add: k1_def)
  have m1: "0 \<le> m1 \<and> m1 \<le> uint w * 2 ^ nat k1"
  proof (cases "s \<le> 0")
    case True
    with p show ?thesis by (simp add: m1_def k1_def)
  next
    case False
    with sk have "nat k0 = nat (k0 - s) + nat s" by simp
    then have "p \<le> (uint w * 2 ^ nat (k0 - s)) * 2 ^ nat s"
      using p by (simp add: power_add mult.assoc)
    with False p show ?thesis by (simp add: m1_def k1_def rne_div_le rne_div_nonneg)
  qed
  have "m1 \<le> uint w * 2 ^ nat k1" using m1 by simp
  also have "\<dots> < 2 ^ 16 * 2 ^ nat k1" using wb by simp
  finally have "nat m1 < 2 ^ (16 + nat k1)" using m1 by (simp add: power_add nat_less_iff)
  from bit_len_le [OF this] have "int (bit_len (nat m1)) \<le> 16 + k1" using k1 by simp
  then have fin: "\<not> int (bit_len (nat \<bar>m1\<bar>)) + - k1 > 128" using m1 by simp
  have "f32_mul (u16_as_f32 w) r = f32_round p (- k0)"
    by (simp add: r u16_as_f32_def p_def)
  also have "\<dots> = Fin m1 (- k1)"
  proof -
    have s': "max (int (bit_len (nat \<bar>p\<bar>)) - 24) (- 149 - - k0) = s"
      using p by (simp add: s_def)
    have m1': "(if s \<le> 0 then p else rne_div p (2 ^ nat s)) = m1" by (simp add: m1_def)
    have k1': "(if s \<le> 0 then - k0 else - k0 + s) = - k1" by (simp add: k1_def)
    show ?thesis unfolding f32_round_def Let_def s' m1' k1' using fin by (simp only: if_False)
  qed
  finally show ?thesis using that m1 k1 by simp
qed

theorem scaled_u16_le:
  "unit_ratio r \<Longrightarrow> unat (round_as_u16 (f32_mul (u16_as_f32 w) r)) \<le> unat w"
  by (rule f32_mul_unit [of r w]) (simp_all add: round_as_u16_le del: round_as_u16.simps)

lemma valid_ratio_unit:
  assumes "valid_ratio r"
  shows "unit_ratio r"
proof -
  from assms obtain m e where r: "r = Fin m e"
    by (cases r) (auto simp: valid_ratio_def)
  show ?thesis
  proof (cases "- 24 \<le> e")
    case True
    define P :: int where "P = 2 ^ nat (e + 24)"
    have P: "0 < P" by (simp add: P_def)
    have "min (- 24) e = - 24" "min e (- 24) = - 24" using True by simp_all
    then have up: "m * P \<le> 15099494"
      using assms by (simp add: valid_ratio_def r f32_0_9_def P_def Let_def)
    have lo: "0 < m"
    proof (rule ccontr)
      assume "\<not> 0 < m"
      then have "m * 2 ^ nat (e - min e (- 27)) \<le> 0" by (simp add: mult_nonpos_nonneg)
      moreover have "(0::int) < 13421773 * 2 ^ nat (- 27 - min e (- 27))" by simp
      ultimately show False
        using assms unfolding valid_ratio_def r f32_0_1_def f32_less.simps Let_def by linarith
    qed
    have e: "e < 0"
    proof (rule ccontr)
      assume "\<not> e < 0"
      then have "(2::int) ^ 24 \<le> P" unfolding P_def by (intro power_increasing) auto
      then have "2 ^ 24 * 1 \<le> P * m" using lo P by (intro mult_mono) auto
      then show False using up by (simp add: mult.commute)
    qed
    have "2 ^ nat (- e) * P = (2::int) ^ 24"
      using True e by (simp add: P_def power_add [symmetric] nat_add_distrib [symmetric])
    then have "m * P \<le> 2 ^ nat (- e) * P" using up by simp
    then have "m \<le> 2 ^ nat (- e)" using P by simp
    with r e lo show ?thesis by simp
  next
    case False
    define P :: int where "P = 2 ^ nat (- 24 - e)"
    have P: "0 < P" by (simp add: P_def)
    have mn: "min (- 24) e = e" "min e (- 24) = e" using False by simp_all
    then have up: "m \<le> 15099494 * P"
      using assms by (simp add: valid_ratio_def r f32_0_9_def P_def Let_def)
    have "nat (- e) = 24 + nat (- 24 - e)" using False by simp
    then have "(2::int) ^ nat (- e) = 2 ^ 24 * P" by (simp add: P_def power_add)
    with up P have hi: "m \<le> 2 ^ nat (- e)" by simp
    have lo: "0 \<le> m"
    proof (rule ccontr)
      assume "\<not> 0 \<le> m"
      then have "m * 2 ^ nat (e - min e (- 27)) < 0" by (simp add: mult_neg_pos)
      moreover have "(0::int) < 13421773 * 2 ^ nat (- 27 - min e (- 27))" by simp
      ultimately show False
        using assms unfolding valid_ratio_def r f32_0_1_def f32_less.simps Let_def by linarith
    qed
    from hi lo r False show ?thesis by simp
  qed
qed

lemma valid_ratio_clamp:
  assumes "x \<noteq> NaN"
  shows "valid_ratio (f32_clamp x f32_0_1 f32_0_9)"
proof (cases x)
  case (Fin m e)
  then show ?thesis
    by (auto simp: f32_clamp_def valid_ratio_def) (auto simp: f32_0_1_def f32_0_9_def)
qed (use assms in \<open>auto simp: f32_clamp_def valid_ratio_def f32_0_1_def f32_0_9_def\<close>)

lemma valid_ratio_0_5: "valid_ratio f32_0_5"
  by (simp add: valid_ratio_def f32_0_5_def f32_0_1_def f32_0_9_def)

end
