(* ===== verification/Layout.thy ===== *)
theory Layout
  imports Float32
begin

text \<open>
  The BSP tiling layout of \<open>src/layout.rs\<close>: the tree of splits, the focused pane with its
  one-step focus history, splitting, closing, swapping and resizing, the geometry of panes and
  split borders, and directional navigation. Pane identifiers are drawn from the global counter
  \<open>NEXT_PANE_ID\<close>, which is passed and returned. Plain \<open>u16\<close> additions wrap, as a release build
  does; \<open>rn\<close> stands for \<open>ratatui::layout::Rect::new\<close>, which is not part of the repository.
\<close>

section \<open>Data\<close>

type_synonym pane_id = u32

record rect =
  rx :: u16
  ry :: u16
  rwidth :: u16
  rheight :: u16

type_synonym rect_new = "u16 \<Rightarrow> u16 \<Rightarrow> u16 \<Rightarrow> u16 \<Rightarrow> rect"

datatype direction = Horizontal | Vertical

datatype nav_direction = NavLeft | NavRight | NavUp | NavDown

record pane_info =
  pi_id :: pane_id
  pi_rect :: rect
  inner_rect :: rect
  scrollbar_rect :: "rect option"
  borders :: u8 \<comment> \<open>the bit set \<open>ratatui::widgets::Borders\<close>; \<open>NONE\<close> is 0\<close>
  is_focused :: bool

record split_border =
  sb_pos :: u16
  sb_direction :: direction
  sb_ratio :: f32
  sb_area :: rect
  sb_path :: "bool list"

datatype node = Pane pane_id | Split direction f32 node node

record tile_layout =
  root :: node
  focus :: pane_id
  prev_focus :: "pane_id option"

text \<open>\<open>PaneId::alloc\<close>: \<open>fetch_add\<close> on the counter.\<close>

definition pane_id_alloc :: "u32 \<Rightarrow> pane_id \<times> u32" where
  "pane_id_alloc next = (next, next + 1)"

section \<open>Tree operations\<close>

fun count_panes :: "node \<Rightarrow> nat" where
  "count_panes (Pane _) = 1"
| "count_panes (Split _ _ f s) = count_panes f + count_panes s"

fun collect_ids :: "node \<Rightarrow> pane_id list" where
  "collect_ids (Pane i) = [i]"
| "collect_ids (Split _ _ f s) = collect_ids f @ collect_ids s"

fun split_ratios_at :: "bool list \<Rightarrow> node \<Rightarrow> (bool list \<times> f32) list" where
  "split_ratios_at path (Pane _) = []"
| "split_ratios_at path (Split _ r f s) =
     (path, r) # split_ratios_at (path @ [False]) f @ split_ratios_at (path @ [True]) s"

definition split_ratios :: "node \<Rightarrow> (bool list \<times> f32) list" where
  "split_ratios n = split_ratios_at [] n"

fun swap_pane_ids :: "node \<Rightarrow> pane_id \<Rightarrow> pane_id \<Rightarrow> node" where
  "swap_pane_ids (Pane i) a b = (if i = a then Pane b else if i = b then Pane a else Pane i)"
| "swap_pane_ids (Split d r f s) a b = Split d r (swap_pane_ids f a b) (swap_pane_ids s a b)"

fun split_at :: "node \<Rightarrow> pane_id \<Rightarrow> direction \<Rightarrow> pane_id \<Rightarrow> f32 \<Rightarrow> node" where
  "split_at (Pane i) target d new r =
     (if i = target then Split d r (Pane i) (Pane new) else Pane i)"
| "split_at (Split d' r' f s) target d new r =
     Split d' r' (split_at f target d new r) (split_at s target d new r)"

definition valid_split_ratio :: "f32 \<Rightarrow> f32" where
  "valid_split_ratio r = (if is_finite r then f32_clamp r f32_0_1 f32_0_9 else f32_0_5)"

fun remove_pane :: "node \<Rightarrow> pane_id \<Rightarrow> node option" where
  "remove_pane (Pane i) target = (if i = target then None else Some (Pane i))"
| "remove_pane (Split d r f s) target =
     (case (remove_pane f target, remove_pane s target) of
        (None, Some s') \<Rightarrow> Some s'
      | (Some f', None) \<Rightarrow> Some f'
      | (Some f', Some s') \<Rightarrow> Some (Split d r f' s')
      | (None, None) \<Rightarrow> None)"

fun set_ratio_node :: "node \<Rightarrow> bool list \<Rightarrow> f32 \<Rightarrow> node \<times> bool" where
  "set_ratio_node (Split d r f s) [] new = (Split d new f s, True)"
| "set_ratio_node (Split d r f s) (b # path) new =
     (if b then (let (s', ok) = set_ratio_node s path new in (Split d r f s', ok))
      else (let (f', ok) = set_ratio_node f path new in (Split d r f' s, ok)))"
| "set_ratio_node (Pane i) path new = (Pane i, False)"

fun get_ratio_node :: "node \<Rightarrow> bool list \<Rightarrow> f32 option" where
  "get_ratio_node (Split d r f s) [] = Some r"
| "get_ratio_node (Split d r f s) (b # path) =
     (if b then get_ratio_node s path else get_ratio_node f path)"
| "get_ratio_node (Pane i) path = None"

definition split_rect :: "rect_new \<Rightarrow> rect \<Rightarrow> direction \<Rightarrow> f32 \<Rightarrow> rect \<times> rect" where
  "split_rect rn area d ratio =
     (case d of
        Horizontal \<Rightarrow>
          (let first_w = round_as_u16 (f32_mul (u16_as_f32 (rwidth area)) ratio);
               second_w = saturating_sub (rwidth area) first_w
           in (rn (rx area) (ry area) first_w (rheight area),
               rn (rx area + first_w) (ry area) second_w (rheight area)))
      | Vertical \<Rightarrow>
          (let first_h = round_as_u16 (f32_mul (u16_as_f32 (rheight area)) ratio);
               second_h = saturating_sub (rheight area) first_h
           in (rn (rx area) (ry area) (rwidth area) first_h,
               rn (rx area) (ry area + first_h) (rwidth area) second_h)))"

fun collect_panes :: "rect_new \<Rightarrow> node \<Rightarrow> rect \<Rightarrow> pane_id \<Rightarrow> pane_info list" where
  "collect_panes rn (Pane i) area foc =
     [\<lparr>pi_id = i, pi_rect = area, inner_rect = area, scrollbar_rect = None, borders = 0,
       is_focused = (i = foc)\<rparr>]"
| "collect_panes rn (Split d r f s) area foc =
     (let (a, b) = split_rect rn area d r
      in collect_panes rn f a foc @ collect_panes rn s b foc)"

fun collect_splits :: "rect_new \<Rightarrow> node \<Rightarrow> rect \<Rightarrow> bool list \<Rightarrow> split_border list" where
  "collect_splits rn (Pane i) area path = []"
| "collect_splits rn (Split d r f s) area path =
     (let (a, b) = split_rect rn area d r;
          pos = (case d of Horizontal \<Rightarrow> rx a + rwidth a | Vertical \<Rightarrow> ry a + rheight a)
      in \<lparr>sb_pos = pos, sb_direction = d, sb_ratio = r, sb_area = area, sb_path = path\<rparr>
         # collect_splits rn f a (path @ [False]) @ collect_splits rn s b (path @ [True]))"

section \<open>Ranges and navigation\<close>

definition ranges_overlap :: "u16 \<Rightarrow> u16 \<Rightarrow> u16 \<Rightarrow> u16 \<Rightarrow> bool" where
  "ranges_overlap a_start a_len b_start b_len \<longleftrightarrow>
     a_start < b_start + b_len \<and> a_start + a_len > b_start"

definition range_overlap_amount :: "u16 \<Rightarrow> u16 \<Rightarrow> u16 \<Rightarrow> u16 \<Rightarrow> u16" where
  "range_overlap_amount a_start a_len b_start b_len =
     (let a_end = saturating_add a_start a_len; b_end = saturating_add b_start b_len
      in saturating_sub (min a_end b_end) (max a_start b_start))"

definition range_center_distance :: "u16 \<Rightarrow> u16 \<Rightarrow> u16 \<Rightarrow> u16 \<Rightarrow> u16" where
  "range_center_distance a_start a_len b_start b_len =
     (let a_center = saturating_add (saturating_mul a_start 2) a_len;
          b_center = saturating_add (saturating_mul b_start 2) b_len
      in abs_diff a_center b_center)"

definition in_direction :: "nav_direction \<Rightarrow> rect \<Rightarrow> rect \<Rightarrow> bool" where
  "in_direction nav fr r \<longleftrightarrow>
     (case nav of
        NavLeft \<Rightarrow> rx r + rwidth r \<le> rx fr \<and> ranges_overlap (ry r) (rheight r) (ry fr) (rheight fr)
      | NavRight \<Rightarrow> rx r \<ge> rx fr + rwidth fr \<and> ranges_overlap (ry r) (rheight r) (ry fr) (rheight fr)
      | NavUp \<Rightarrow> ry r + rheight r \<le> ry fr \<and> ranges_overlap (rx r) (rwidth r) (rx fr) (rwidth fr)
      | NavDown \<Rightarrow> ry r \<ge> ry fr + rheight fr \<and> ranges_overlap (rx r) (rwidth r) (rx fr) (rwidth fr))"

definition nav_key ::
  "nav_direction \<Rightarrow> rect \<Rightarrow> nat \<times> pane_info \<Rightarrow> u16 \<times> u16 reverse \<times> u16 \<times> nat" where
  "nav_key nav fr ip =
     (let r = pi_rect (snd ip);
          edge = (case nav of
              NavLeft \<Rightarrow> saturating_sub (rx fr) (rx r + rwidth r)
            | NavRight \<Rightarrow> saturating_sub (rx r) (rx fr + rwidth fr)
            | NavUp \<Rightarrow> saturating_sub (ry fr) (ry r + rheight r)
            | NavDown \<Rightarrow> saturating_sub (ry r) (ry fr + rheight fr));
          vertical = (nav = NavLeft \<or> nav = NavRight);
          overlap = (if vertical
            then range_overlap_amount (ry r) (rheight r) (ry fr) (rheight fr)
            else range_overlap_amount (rx r) (rwidth r) (rx fr) (rwidth fr));
          center = (if vertical
            then range_center_distance (ry r) (rheight r) (ry fr) (rheight fr)
            else range_center_distance (rx r) (rwidth r) (rx fr) (rwidth fr))
      in (edge, Reverse overlap, center, fst ip))"

definition find_in_direction ::
  "pane_info \<Rightarrow> nav_direction \<Rightarrow> pane_info list \<Rightarrow> pane_id option" where
  "find_in_direction focused nav ps =
     (let fr = pi_rect focused
      in map_option (\<lambda>ip. pi_id (snd ip))
           (min_by_key (nav_key nav fr)
             (filter (\<lambda>ip. in_direction nav fr (pi_rect (snd ip)))
               (filter (\<lambda>ip. pi_id (snd ip) \<noteq> pi_id focused) (List.enumerate 0 ps)))))"

section \<open>Split borders\<close>

definition opposite_direction :: "nav_direction \<Rightarrow> nav_direction" where
  "opposite_direction nav =
     (case nav of NavLeft \<Rightarrow> NavRight | NavRight \<Rightarrow> NavLeft | NavUp \<Rightarrow> NavDown | NavDown \<Rightarrow> NavUp)"

text \<open>\<open>i32\<close> differences of \<open>u16\<close> values cannot overflow, so the distance is a natural number.\<close>

definition split_edge_distance :: "split_border \<Rightarrow> rect \<Rightarrow> nav_direction \<Rightarrow> nat" where
  "split_edge_distance s foc nav =
     (let pos = int (unat (sb_pos s));
          edge = (case nav of
              NavLeft \<Rightarrow> int (unat (rx foc))
            | NavRight \<Rightarrow> int (unat (rx foc + rwidth foc))
            | NavUp \<Rightarrow> int (unat (ry foc))
            | NavDown \<Rightarrow> int (unat (ry foc + rheight foc)))
      in nat \<bar>pos - edge\<bar>)"

definition split_on_requested_edge :: "split_border \<Rightarrow> rect \<Rightarrow> nav_direction \<Rightarrow> bool" where
  "split_on_requested_edge s foc nav \<longleftrightarrow> split_edge_distance s foc nav \<le> 1"

definition split_area_overlaps_focused_pane :: "split_border \<Rightarrow> rect \<Rightarrow> nav_direction \<Rightarrow> bool" where
  "split_area_overlaps_focused_pane s foc nav \<longleftrightarrow>
     (if nav = NavLeft \<or> nav = NavRight
      then ranges_overlap (ry (sb_area s)) (rheight (sb_area s)) (ry foc) (rheight foc)
      else ranges_overlap (rx (sb_area s)) (rwidth (sb_area s)) (rx foc) (rwidth foc))"

definition nearest_resize_split ::
  "split_border list \<Rightarrow> direction \<Rightarrow> rect \<Rightarrow> nav_direction \<Rightarrow> split_border option" where
  "nearest_resize_split splits d foc nav =
     min_by_key (\<lambda>s. split_edge_distance s foc nav)
       (filter (\<lambda>s. split_on_requested_edge s foc nav)
         (filter (\<lambda>s. split_area_overlaps_focused_pane s foc nav)
           (filter (\<lambda>s. sb_direction s = d) splits)))"

section \<open>The layout object\<close>

text \<open>
  Operations of \<open>TileLayout\<close>. \<open>close_focused\<close> indexes the pane list with the position of the
  focused pane and panics when it is absent; \<open>None\<close> is that panic. While a tree edit runs the
  root is replaced by a placeholder pane 0, which stays when the edit yields no tree.
\<close>

definition layout_new :: "u32 \<Rightarrow> (tile_layout \<times> pane_id) \<times> u32" where
  "layout_new next =
     (let (i, next') = pane_id_alloc next
      in ((\<lparr>root = Pane i, focus = i, prev_focus = None\<rparr>, i), next'))"

definition from_saved :: "node \<Rightarrow> pane_id \<Rightarrow> tile_layout" where
  "from_saved n foc = \<lparr>root = n, focus = foc, prev_focus = None\<rparr>"

definition focused :: "tile_layout \<Rightarrow> pane_id" where
  "focused l = focus l"

definition set_focus :: "tile_layout \<Rightarrow> pane_id \<Rightarrow> tile_layout" where
  "set_focus l i = (if i \<noteq> focus l then l\<lparr>prev_focus := Some (focus l), focus := i\<rparr> else l)"

definition pane_count :: "tile_layout \<Rightarrow> nat" where
  "pane_count l = count_panes (root l)"

definition panes :: "rect_new \<Rightarrow> tile_layout \<Rightarrow> rect \<Rightarrow> pane_info list" where
  "panes rn l area = collect_panes rn (root l) area (focus l)"

definition splits :: "rect_new \<Rightarrow> tile_layout \<Rightarrow> rect \<Rightarrow> split_border list" where
  "splits rn l area = collect_splits rn (root l) area []"

definition pane_ids :: "tile_layout \<Rightarrow> pane_id list" where
  "pane_ids l = collect_ids (root l)"

definition split_pane ::
  "tile_layout \<Rightarrow> u32 \<Rightarrow> pane_id \<Rightarrow> direction \<Rightarrow> f32 \<Rightarrow> pane_id option \<times> tile_layout \<times> u32" where
  "split_pane l next target d ratio =
     (if target \<notin> set (pane_ids l) then (None, l, next)
      else let (new, next') = pane_id_alloc next
           in (Some new,
               l\<lparr>root := split_at (root l) target d new (valid_split_ratio ratio)\<rparr>, next'))"

definition insert_pane_near ::
  "tile_layout \<Rightarrow> pane_id \<Rightarrow> pane_id \<Rightarrow> direction \<Rightarrow> f32 \<Rightarrow> bool \<Rightarrow> bool \<times> tile_layout" where
  "insert_pane_near l target moved d ratio foc =
     (if target = moved then (False, l)
      else if target \<notin> set (pane_ids l) \<or> moved \<in> set (pane_ids l) then (False, l)
      else let l' = l\<lparr>root := split_at (root l) target d moved (valid_split_ratio ratio)\<rparr>
           in (True, if foc then set_focus l' moved else l'))"

definition close_focused :: "tile_layout \<Rightarrow> (bool \<times> tile_layout) option" where
  "close_focused l =
     (if pane_count l \<le> 1 then Some (False, l)
      else let target = focus l; ids = pane_ids l
           in case position (\<lambda>i. i = target) ids of
                None \<Rightarrow> None
              | Some pos \<Rightarrow>
                  (if pos + 1 \<ge> length ids \<and> pos = 0 then None
                   else let ordered = (if pos + 1 < length ids then ids ! (pos + 1) else ids ! (pos - 1));
                            new_focus = (case prev_focus l of
                                Some prev \<Rightarrow> if prev \<noteq> target \<and> prev \<in> set ids then prev else ordered
                              | None \<Rightarrow> ordered)
                        in case remove_pane (root l) target of
                             Some new_root \<Rightarrow>
                               Some (True, l\<lparr>root := new_root, focus := new_focus, prev_focus := None\<rparr>)
                           | None \<Rightarrow> Some (False, l\<lparr>root := Pane 0\<rparr>)))"

definition close_pane :: "tile_layout \<Rightarrow> pane_id \<Rightarrow> (bool \<times> tile_layout) option" where
  "close_pane l i =
     (if focus l = i then close_focused l
      else if pane_count l \<le> 1 \<or> i \<notin> set (pane_ids l) then Some (False, l)
      else case remove_pane (root l) i of
             None \<Rightarrow> Some (False, l\<lparr>root := Pane 0\<rparr>)
           | Some new_root \<Rightarrow>
               Some (True, l\<lparr>root := new_root,
                             prev_focus := (if prev_focus l = Some i then None else prev_focus l)\<rparr>))"

definition focus_pane :: "tile_layout \<Rightarrow> pane_id \<Rightarrow> tile_layout" where
  "focus_pane l i = (if i \<in> set (pane_ids l) then set_focus l i else l)"

definition swap_panes :: "tile_layout \<Rightarrow> pane_id \<Rightarrow> pane_id \<Rightarrow> bool \<times> tile_layout" where
  "swap_panes l a b =
     (if a = b then (False, l)
      else if a \<notin> set (pane_ids l) \<or> b \<notin> set (pane_ids l) then (False, l)
      else (True, l\<lparr>root := swap_pane_ids (root l) a b\<rparr>))"

definition set_ratio_at :: "tile_layout \<Rightarrow> bool list \<Rightarrow> f32 \<Rightarrow> bool \<times> tile_layout" where
  "set_ratio_at l path ratio =
     (let (n, ok) = set_ratio_node (root l) path (f32_clamp ratio f32_0_1 f32_0_9)
      in (ok, l\<lparr>root := n\<rparr>))"

definition resize_focused :: "rect_new \<Rightarrow> tile_layout \<Rightarrow> nav_direction \<Rightarrow> f32 \<Rightarrow> rect \<Rightarrow> tile_layout" where
  "resize_focused rn l nav delta area =
     (case find is_focused (panes rn l area) of
        None \<Rightarrow> l
      | Some p \<Rightarrow>
          (let focused_rect = pi_rect p;
               ss = splits rn l area;
               target_dir = (if nav = NavLeft \<or> nav = NavRight then Horizontal else Vertical);
               grows = (nav = NavRight \<or> nav = NavDown);
               best = (case nearest_resize_split ss target_dir focused_rect nav of
                   Some sp \<Rightarrow> Some sp
                 | None \<Rightarrow> nearest_resize_split ss target_dir focused_rect (opposite_direction nav))
           in case best of
                None \<Rightarrow> l
              | Some sp \<Rightarrow>
                  (let current = (case get_ratio_node (root l) (sb_path sp) of
                                    Some r \<Rightarrow> r | None \<Rightarrow> f32_0_5);
                       adj = (if grows then delta else f32_neg delta)
                   in snd (set_ratio_at l (sb_path sp) (f32_add current adj)))))"

definition ratios_eq :: "(bool list \<times> f32) list \<Rightarrow> (bool list \<times> f32) list \<Rightarrow> bool" where
  "ratios_eq xs ys \<longleftrightarrow>
     list_all2 (\<lambda>x y. fst x = fst y \<and> f32_eq (snd x) (snd y)) xs ys"

definition resize_pane ::
  "rect_new \<Rightarrow> tile_layout \<Rightarrow> pane_id \<Rightarrow> nav_direction \<Rightarrow> f32 \<Rightarrow> rect \<Rightarrow> bool \<times> tile_layout" where
  "resize_pane rn l i nav delta area =
     (if i \<notin> set (pane_ids l) then (False, l)
      else let before = split_ratios (root l);
               l1 = resize_focused rn (l\<lparr>focus := i\<rparr>) nav delta area;
               l2 = l1\<lparr>focus := focus l\<rparr>
           in (\<not> ratios_eq (split_ratios (root l2)) before, l2))"

end
