(* ===== verification/Layout_Invariants.thy ===== *)
theory Layout_Invariants
  imports Layout
begin

text \<open>
  Correctness of the layout tree and of the layout object: what every tree edit does to the
  sequence of panes, the invariant of \<open>TileLayout\<close>, its preservation by every operation, and
  the step relation of a layout that shares the pane counter with the rest of the server.
\<close>

section \<open>Tree edits and the pane sequence\<close>

named_theorems tree_simps \<comment> \<open>effect of the tree edits on \<open>collect_ids\<close>\<close>

lemma count_panes_length: "count_panes n = length (collect_ids n)"
  by (induction n) auto

lemma collect_ids_nonempty [simp]: "collect_ids n \<noteq> []"
  by (induction n) auto

lemma collect_ids_split_at [tree_simps]:
  "collect_ids (split_at n t d new r) =
     concat (map (\<lambda>i. if i = t then [i, new] else [i]) (collect_ids n))"
  by (induction n) auto

lemma set_split_at:
  "set (collect_ids (split_at n t d new r)) =
     set (collect_ids n) \<union> (if t \<in> set (collect_ids n) then {new} else {})"
  by (induction n) auto

lemma distinct_split_at:
  "distinct (collect_ids n) \<Longrightarrow> new \<notin> set (collect_ids n) \<Longrightarrow>
   distinct (collect_ids (split_at n t d new r))"
  by (induction n) (auto simp: set_split_at)

lemma split_at_absent [simp]: "t \<notin> set (collect_ids n) \<Longrightarrow> split_at n t d new r = n"
  by (induction n) auto

text \<open>Removing a pane drops exactly its identifier; nothing is left only when it was alone.\<close>

lemma remove_pane_ids:
  "(case remove_pane n t of None \<Rightarrow> [] | Some n' \<Rightarrow> collect_ids n') =
     filter (\<lambda>i. i \<noteq> t) (collect_ids n)"
  by (induction n) (auto split: option.splits)

lemma remove_pane_Some [tree_simps]:
  "remove_pane n t = Some n' \<Longrightarrow> collect_ids n' = filter (\<lambda>i. i \<noteq> t) (collect_ids n)"
  using remove_pane_ids [of n t] by simp

lemma remove_pane_None: "remove_pane n t = None \<longleftrightarrow> (\<forall>i \<in> set (collect_ids n). i = t)"
proof -
  have "remove_pane n t = None \<longleftrightarrow> filter (\<lambda>i. i \<noteq> t) (collect_ids n) = []"
    using remove_pane_ids [of n t] by (cases "remove_pane n t") auto
  then show ?thesis by (simp add: filter_empty_conv)
qed

lemma remove_pane_absent: "t \<notin> set (collect_ids n) \<Longrightarrow> remove_pane n t = Some n"
  by (induction n) auto

lemma remove_pane_split_at:
  "new \<notin> set (collect_ids n) \<Longrightarrow> remove_pane (split_at n t d new r) new = Some n"
  by (induction n) auto

lemma swap_pane_ids_ids [tree_simps]:
  "collect_ids (swap_pane_ids n a b) =
     map (\<lambda>i. if i = a then b else if i = b then a else i) (collect_ids n)"
  by (induction n) auto

lemma swap_pane_ids_twice [simp]: "swap_pane_ids (swap_pane_ids n a b) a b = n"
  by (induction n) auto

lemma set_ratio_node_ids [tree_simps]:
  "collect_ids (fst (set_ratio_node n path r)) = collect_ids n"
  by (induction n path r rule: set_ratio_node.induct) (auto split: prod.splits)

lemma get_set_ratio_node:
  "get_ratio_node (fst (set_ratio_node n path r)) path =
     (if snd (set_ratio_node n path r) then Some r else None)"
  by (induction n path r rule: set_ratio_node.induct) (auto split: prod.splits)

lemma get_set_ratio_node_other:
  "path' \<noteq> path \<Longrightarrow>
     get_ratio_node (fst (set_ratio_node n path r)) path' = get_ratio_node n path'"
proof (induction n path r arbitrary: path' rule: set_ratio_node.induct)
  case (2 d r f s b path new)
  then show ?case by (cases path') (auto split: prod.splits)
next
  case (1 d r f s new)
  then show ?case by (cases path') auto
qed simp

lemma set_ratio_node_ok: "snd (set_ratio_node n path r) \<longleftrightarrow> get_ratio_node n path \<noteq> None"
  by (induction n path r rule: set_ratio_node.induct) (auto split: prod.splits)

section \<open>Ratios\<close>

fun ratios_ok :: "node \<Rightarrow> bool" where
  "ratios_ok (Pane _) = True"
| "ratios_ok (Split _ r f s) = (valid_ratio r \<and> ratios_ok f \<and> ratios_ok s)"

lemma valid_split_ratio_valid: "valid_ratio (valid_split_ratio r)"
proof (cases "is_finite r")
  case True
  then have "r \<noteq> NaN" by auto
  with True show ?thesis by (simp add: valid_split_ratio_def valid_ratio_clamp)
next
  case False
  then show ?thesis by (simp add: valid_split_ratio_def valid_ratio_0_5)
qed

lemma ratios_ok_split_at: "ratios_ok n \<Longrightarrow> valid_ratio r \<Longrightarrow> ratios_ok (split_at n t d new r)"
  by (induction n) auto

lemma ratios_ok_remove_pane: "ratios_ok n \<Longrightarrow> remove_pane n t = Some n' \<Longrightarrow> ratios_ok n'"
proof (induction n arbitrary: n')
  case (Pane i)
  then show ?case by (auto split: if_splits)
next
  case (Split d r f s)
  from Split.prems(1) have ok: "valid_ratio r" "ratios_ok f" "ratios_ok s" by simp_all
  note IH = Split.IH(1) [OF ok(2)] Split.IH(2) [OF ok(3)]
  show ?case
    using Split.prems(2) ok IH
    by (cases "remove_pane f t"; cases "remove_pane s t") (simp_all, metis ratios_ok.simps(2))
qed

lemma ratios_ok_swap: "ratios_ok (swap_pane_ids n a b) = ratios_ok n"
  by (induction n) auto

lemma ratios_ok_set_ratio:
  "ratios_ok n \<Longrightarrow> valid_ratio r \<Longrightarrow> ratios_ok (fst (set_ratio_node n path r))"
  by (induction n path r rule: set_ratio_node.induct) (auto split: prod.splits)

lemma get_ratio_valid: "ratios_ok n \<Longrightarrow> get_ratio_node n path = Some r \<Longrightarrow> valid_ratio r"
  by (induction n path rule: get_ratio_node.induct) (auto split: if_splits)

lemma f32_round_not_NaN [simp]: "f32_round m e \<noteq> NaN"
  by (simp add: f32_round_def Let_def)

lemma f32_add_not_NaN: "is_finite a \<Longrightarrow> b \<noteq> NaN \<Longrightarrow> f32_add a b \<noteq> NaN"
  by (cases a; cases b) (auto simp: Let_def)

lemma f32_neg_NaN [simp]: "f32_neg x = NaN \<longleftrightarrow> x = NaN"
  by (cases x) auto

section \<open>The invariant and its preservation\<close>

definition layout_inv :: "tile_layout \<Rightarrow> bool" where
  "layout_inv l \<longleftrightarrow>
     distinct (pane_ids l) \<and> focus l \<in> set (pane_ids l) \<and>
     (\<forall>p. prev_focus l = Some p \<longrightarrow> p \<noteq> focus l \<and> p \<in> set (pane_ids l)) \<and>
     ratios_ok (root l)"

lemma layout_inv_new: "layout_new next = ((l, i), next') \<Longrightarrow> layout_inv l"
  by (auto simp: layout_new_def pane_id_alloc_def layout_inv_def pane_ids_def)

lemma layout_inv_set_focus: "layout_inv l \<Longrightarrow> i \<in> set (pane_ids l) \<Longrightarrow> layout_inv (set_focus l i)"
  by (auto simp: layout_inv_def set_focus_def pane_ids_def)

lemma layout_inv_focus_pane: "layout_inv l \<Longrightarrow> layout_inv (focus_pane l i)"
  by (simp add: focus_pane_def layout_inv_set_focus)

lemma layout_inv_split_root:
  "layout_inv l \<Longrightarrow> new \<notin> set (pane_ids l) \<Longrightarrow>
   layout_inv (l\<lparr>root := split_at (root l) t d new (valid_split_ratio r)\<rparr>)"
  by (auto simp: layout_inv_def pane_ids_def set_split_at distinct_split_at ratios_ok_split_at
      valid_split_ratio_valid)

lemma layout_inv_split_pane:
  "layout_inv l \<Longrightarrow> next \<notin> set (pane_ids l) \<Longrightarrow>
   layout_inv (fst (snd (split_pane l next t d r)))"
  by (simp add: split_pane_def pane_id_alloc_def layout_inv_split_root)

lemma layout_inv_insert_pane_near:
  "layout_inv l \<Longrightarrow> layout_inv (snd (insert_pane_near l t m d r foc))"
proof -
  assume inv: "layout_inv l"
  let ?l' = "l\<lparr>root := split_at (root l) t d m (valid_split_ratio r)\<rparr>"
  show ?thesis
  proof (cases "t = m \<or> t \<notin> set (pane_ids l) \<or> m \<in> set (pane_ids l)")
    case True
    with inv show ?thesis by (auto simp: insert_pane_near_def)
  next
    case False
    then have l': "layout_inv ?l'" using inv by (intro layout_inv_split_root) auto
    moreover have "m \<in> set (pane_ids ?l')" using False by (simp add: pane_ids_def set_split_at)
    ultimately show ?thesis using False layout_inv_set_focus
      by (simp add: insert_pane_near_def Let_def)
  qed
qed

lemma layout_inv_swap:
  assumes "layout_inv l"
  shows "layout_inv (snd (swap_panes l a b))"
proof (cases "a = b \<or> a \<notin> set (pane_ids l) \<or> b \<notin> set (pane_ids l)")
  case True
  with assms show ?thesis by (auto simp: swap_panes_def)
next
  case False
  let ?f = "\<lambda>i. if i = a then b else if i = b then a else i"
  have "distinct (map ?f (collect_ids (root l)))"
    using assms by (simp add: layout_inv_def pane_ids_def distinct_map inj_on_def)
  moreover have "?f ` set (collect_ids (root l)) = set (collect_ids (root l))"
    using False by (auto simp: pane_ids_def image_def)
  ultimately show ?thesis
    using assms False by (simp add: swap_panes_def layout_inv_def pane_ids_def tree_simps
        ratios_ok_swap)
qed

lemma layout_inv_set_ratio_at:
  "layout_inv l \<Longrightarrow> r \<noteq> NaN \<Longrightarrow> layout_inv (snd (set_ratio_at l path r))"
  using valid_ratio_clamp [of r] set_ratio_node_ids [of "root l" path "f32_clamp r f32_0_1 f32_0_9"]
    ratios_ok_set_ratio [of "root l" "f32_clamp r f32_0_1 f32_0_9" path]
  by (auto simp: set_ratio_at_def layout_inv_def pane_ids_def split: prod.splits)

text \<open>Resizing changes one ratio and nothing else of the layout.\<close>

lemma set_ratio_at_frame:
  "focus (snd (set_ratio_at l path r)) = focus l"
  "prev_focus (snd (set_ratio_at l path r)) = prev_focus l"
  "pane_ids (snd (set_ratio_at l path r)) = pane_ids l"
  using set_ratio_node_ids [of "root l" path "f32_clamp r f32_0_1 f32_0_9"]
  by (auto simp: set_ratio_at_def pane_ids_def split: prod.splits)

lemma resize_focused_cases:
  assumes "ratios_ok (root l)" and "delta \<noteq> NaN"
  obtains "resize_focused rn l nav delta area = l"
  | path r where "resize_focused rn l nav delta area = snd (set_ratio_at l path r)" "r \<noteq> NaN"
proof -
  { fix path
    let ?cur = "case get_ratio_node (root l) path of Some r \<Rightarrow> r | None \<Rightarrow> f32_0_5"
    let ?adj = "if nav = NavRight \<or> nav = NavDown then delta else f32_neg delta"
    have "valid_ratio ?cur"
      using assms(1) get_ratio_valid valid_ratio_0_5 by (auto split: option.splits)
    then have "f32_add ?cur ?adj \<noteq> NaN"
      using assms(2) by (intro f32_add_not_NaN) (auto simp: valid_ratio_def) }
  note ne = this
  show ?thesis
  proof (cases "find is_focused (panes rn l area)")
    case None
    then show ?thesis using that(1) by (simp add: resize_focused_def)
  next
    case (Some p)
    define best where "best =
      (let ss = splits rn l area;
           d = (if nav = NavLeft \<or> nav = NavRight then Horizontal else Vertical)
       in case nearest_resize_split ss d (pi_rect p) nav of
            Some sp \<Rightarrow> Some sp
          | None \<Rightarrow> nearest_resize_split ss d (pi_rect p) (opposite_direction nav))"
    have eq: "resize_focused rn l nav delta area =
      (case best of None \<Rightarrow> l | Some sp \<Rightarrow> snd (set_ratio_at l (sb_path sp)
         (f32_add (case get_ratio_node (root l) (sb_path sp) of Some r \<Rightarrow> r | None \<Rightarrow> f32_0_5)
            (if nav = NavRight \<or> nav = NavDown then delta else f32_neg delta))))"
      unfolding resize_focused_def best_def Let_def Some option.case ..
    show ?thesis
    proof (cases best)
      case None
      with eq show ?thesis using that(1) by simp
    next
      case (Some sp)
      show ?thesis by (rule that(2) [OF _ ne [of "sb_path sp"]]) (simp only: eq Some option.case)
    qed
  qed
qed

lemma layout_inv_resize_focused:
  "layout_inv l \<Longrightarrow> delta \<noteq> NaN \<Longrightarrow> layout_inv (resize_focused rn l nav delta area)"
  by (rule resize_focused_cases [of l delta rn nav area])
    (auto simp: layout_inv_set_ratio_at, simp add: layout_inv_def)

lemma resize_pane_root:
  assumes "layout_inv l" and "delta \<noteq> NaN" and "i \<in> set (pane_ids l)"
  obtains "snd (resize_pane rn l i nav delta area) = l"
  | path r where "snd (resize_pane rn l i nav delta area) = snd (set_ratio_at l path r)" "r \<noteq> NaN"
proof -
  let ?l = "l\<lparr>focus := i\<rparr>"
  have ok: "ratios_ok (root ?l)" using assms(1) by (simp add: layout_inv_def)
  show ?thesis
  proof (rule resize_focused_cases [OF ok assms(2), of rn nav area])
    assume "resize_focused rn ?l nav delta area = ?l"
    then show ?thesis using assms(3) that(1) by (simp add: resize_pane_def Let_def)
  next
    fix path r
    assume "resize_focused rn ?l nav delta area = snd (set_ratio_at ?l path r)" "r \<noteq> NaN"
    then show ?thesis using assms(3) that(2) [of path r]
      by (simp add: resize_pane_def Let_def set_ratio_at_def split: prod.splits)
  qed
qed

lemma layout_inv_resize_pane:
  assumes "layout_inv l" and "delta \<noteq> NaN"
  shows "layout_inv (snd (resize_pane rn l i nav delta area))"
proof (cases "i \<in> set (pane_ids l)")
  case True
  then show ?thesis
    using assms by (rule_tac resize_pane_root [OF assms True, of rn nav area])
      (simp_all add: layout_inv_set_ratio_at)
next
  case False
  with assms show ?thesis by (simp add: resize_pane_def)
qed

section \<open>Closing\<close>

text \<open>
  The pane that receives the focus when the focused pane closes: the pane the focus came from,
  else the next pane in tree order, else the previous one.
\<close>

definition close_successor :: "tile_layout \<Rightarrow> pane_id" where
  "close_successor l =
     (case prev_focus l of
        Some p \<Rightarrow> p
      | None \<Rightarrow>
          (case position (\<lambda>i. i = focus l) (pane_ids l) of
             Some pos \<Rightarrow> if pos + 1 < length (pane_ids l) then pane_ids l ! (pos + 1)
                         else pane_ids l ! (pos - 1)
           | None \<Rightarrow> focus l))"

lemma close_successor_in:
  assumes "layout_inv l" and "pane_count l > 1"
  shows "close_successor l \<in> set (pane_ids l) \<and> close_successor l \<noteq> focus l"
proof (cases "prev_focus l")
  case (Some p)
  with assms show ?thesis by (auto simp: close_successor_def layout_inv_def)
next
  case None
  let ?ids = "pane_ids l"
  obtain pos where pos: "position (\<lambda>i. i = focus l) ?ids = Some pos"
    using assms position_ex [of "focus l" ?ids "\<lambda>i. i = focus l"] by (auto simp: layout_inv_def)
  then have p: "pos < length ?ids" "?ids ! pos = focus l" by (auto dest: position_Some)
  have len: "length ?ids > 1" using assms by (simp add: pane_count_def count_panes_length pane_ids_def)
  have d: "distinct ?ids" using assms by (simp add: layout_inv_def)
  show ?thesis
  proof (cases "pos + 1 < length ?ids")
    case True
    with d p have "?ids ! (pos + 1) \<noteq> focus l" by (metis Suc_eq_plus1 n_not_Suc_n nth_eq_iff_index_eq)
    with True pos None show ?thesis by (simp add: close_successor_def)
  next
    case False
    with p len have "0 < pos" by simp
    with d p have "?ids ! (pos - 1) \<noteq> focus l"
      by (metis One_nat_def Suc_pred less_imp_diff_less n_not_Suc_n nth_eq_iff_index_eq)
    with False pos None p show ?thesis by (simp add: close_successor_def)
  qed
qed

lemma close_focused_eq:
  assumes "layout_inv l" and "pane_count l > 1"
  obtains n where "remove_pane (root l) (focus l) = Some n"
    "close_focused l = Some (True, l\<lparr>root := n, focus := close_successor l, prev_focus := None\<rparr>)"
proof -
  let ?ids = "pane_ids l"
  obtain pos where pos: "position (\<lambda>i. i = focus l) ?ids = Some pos"
    using assms position_ex [of "focus l" ?ids "\<lambda>i. i = focus l"] by (auto simp: layout_inv_def)
  have len: "length ?ids > 1" using assms by (simp add: pane_count_def count_panes_length pane_ids_def)
  have "remove_pane (root l) (focus l) \<noteq> None"
    using close_successor_in [OF assms] by (auto simp: remove_pane_None pane_ids_def)
  then obtain n where n: "remove_pane (root l) (focus l) = Some n" by auto
  let ?ord = "if pos + 1 < length ?ids then ?ids ! (pos + 1) else ?ids ! (pos - 1)"
  have nf: "(case prev_focus l of
      None \<Rightarrow> ?ord
    | Some prev \<Rightarrow> if prev \<noteq> focus l \<and> prev \<in> set ?ids then prev else ?ord) = close_successor l"
    using assms(1) by (cases "prev_focus l") (simp_all add: close_successor_def layout_inv_def pos)
  have c: "(pane_count l \<le> 1) = False" "(pos + 1 \<ge> length ?ids \<and> pos = 0) = False"
    using len assms(2) by auto
  have "close_focused l =
      Some (True, l\<lparr>root := n, focus := close_successor l, prev_focus := None\<rparr>)"
    unfolding close_focused_def Let_def pos option.case c if_False nf n ..
  with n show ?thesis by (rule that)
qed

lemma close_pane_other_eq:
  assumes "layout_inv l" and "i \<noteq> focus l" and "i \<in> set (pane_ids l)"
  obtains n where "remove_pane (root l) i = Some n"
    "close_pane l i = Some (True, l\<lparr>root := n,
       prev_focus := (if prev_focus l = Some i then None else prev_focus l)\<rparr>)"
proof -
  have "focus l \<in> set (pane_ids l)" using assms(1) by (simp add: layout_inv_def)
  then have "\<not> (\<forall>j \<in> set (collect_ids (root l)). j = i)" using assms(2) by (auto simp: pane_ids_def)
  then have "remove_pane (root l) i \<noteq> None" by (simp add: remove_pane_None)
  then obtain n where n: "remove_pane (root l) i = Some n" by auto
  have "set [focus l, i] \<subseteq> set (pane_ids l)"
    using assms \<open>focus l \<in> _\<close> by simp
  then have "card (set [focus l, i]) \<le> card (set (pane_ids l))" by (intro card_mono) auto
  then have "pane_count l > 1"
    using assms(2) card_length [of "pane_ids l"]
    by (simp add: pane_count_def count_panes_length pane_ids_def)
  with n assms have "close_pane l i = Some (True, l\<lparr>root := n,
       prev_focus := (if prev_focus l = Some i then None else prev_focus l)\<rparr>)"
    by (simp add: close_pane_def)
  with n show ?thesis by (rule that)
qed

lemma layout_inv_close_focused:
  assumes "layout_inv l" and "close_focused l = Some (b, l')"
  shows "layout_inv l'"
proof (cases "pane_count l > 1")
  case True
  from close_focused_eq [OF assms(1) True] assms(2) obtain n where
    n: "remove_pane (root l) (focus l) = Some n"
    and l': "l' = l\<lparr>root := n, focus := close_successor l, prev_focus := None\<rparr>"
    by (metis option.inject prod.inject)
  have ids: "collect_ids n = filter (\<lambda>i. i \<noteq> focus l) (pane_ids l)"
    using remove_pane_Some [OF n] by (simp add: pane_ids_def)
  show ?thesis
    using assms(1) close_successor_in [OF assms(1) True] ratios_ok_remove_pane [OF _ n]
    by (simp add: l' layout_inv_def pane_ids_def ids)
next
  case False
  with assms show ?thesis by (simp add: close_focused_def)
qed

lemma layout_inv_close_pane:
  assumes "layout_inv l" and "close_pane l i = Some (b, l')"
  shows "layout_inv l'"
proof (cases "focus l = i \<or> i \<notin> set (pane_ids l)")
  case True
  with assms layout_inv_close_focused show ?thesis by (auto simp: close_pane_def split: if_splits)
next
  case False
  then have "i \<noteq> focus l" "i \<in> set (pane_ids l)" by auto
  from close_pane_other_eq [OF assms(1) this] assms(2) obtain n where
    n: "remove_pane (root l) i = Some n"
    and l': "l' = l\<lparr>root := n, prev_focus := (if prev_focus l = Some i then None else prev_focus l)\<rparr>"
    by (metis option.inject prod.inject)
  have ids: "pane_ids l' = filter (\<lambda>j. j \<noteq> i) (pane_ids l)"
    using n by (simp add: tree_simps pane_ids_def l')
  show ?thesis
    using assms(1) False ratios_ok_remove_pane [OF _ n]
    by (simp add: layout_inv_def ids) (auto simp: l')
qed

lemma close_pane_never_panics:
  assumes "layout_inv l"
  shows "\<exists>b l'. close_pane l i = Some (b, l')"
proof (cases "focus l = i")
  case True
  show ?thesis
  proof (cases "pane_count l > 1")
    case True
    from close_focused_eq [OF assms True] \<open>focus l = i\<close> show ?thesis
      by (metis close_pane_def)
  next
    case False
    with \<open>focus l = i\<close> show ?thesis by (auto simp: close_pane_def close_focused_def)
  qed
next
  case False
  then show ?thesis by (auto simp: close_pane_def split: option.splits)
qed

section \<open>A layout in the running server\<close>

text \<open>
  One layout and the shared pane counter. \<open>other_alloc\<close> is an allocation by another tab; a pane
  moved in by \<open>insert_pane_near\<close> was allocated before. The counter is assumed not to wrap, which
  takes 4294967295 panes.
\<close>

inductive layout_step :: "tile_layout \<times> u32 \<Rightarrow> tile_layout \<times> u32 \<Rightarrow> bool" where
  split: "n \<noteq> - 1 \<Longrightarrow> split_pane l n t d r = (res, l', n') \<Longrightarrow> layout_step (l, n) (l', n')"
| other_alloc: "n \<noteq> - 1 \<Longrightarrow> pane_id_alloc n = (i, n') \<Longrightarrow> layout_step (l, n) (l, n')"
| insert: "m < n \<Longrightarrow> insert_pane_near l t m d r foc = (ok, l') \<Longrightarrow> layout_step (l, n) (l', n)"
| close_focused: "close_focused l = Some (ok, l') \<Longrightarrow> layout_step (l, n) (l', n)"
| close: "close_pane l i = Some (ok, l') \<Longrightarrow> layout_step (l, n) (l', n)"
| focus: "focus_pane l i = l' \<Longrightarrow> layout_step (l, n) (l', n)"
| swap: "swap_panes l a b = (ok, l') \<Longrightarrow> layout_step (l, n) (l', n)"
| set_ratio: "r \<noteq> NaN \<Longrightarrow> set_ratio_at l path r = (ok, l') \<Longrightarrow> layout_step (l, n) (l', n)"
| resize_focused: "delta \<noteq> NaN \<Longrightarrow> resize_focused rn l nav delta area = l' \<Longrightarrow> layout_step (l, n) (l', n)"
| resize: "delta \<noteq> NaN \<Longrightarrow> resize_pane rn l i nav delta area = (ok, l') \<Longrightarrow> layout_step (l, n) (l', n)"

definition layout_init :: "tile_layout \<times> u32 \<Rightarrow> bool" where
  "layout_init s \<longleftrightarrow> (\<exists>n i. n \<noteq> - 1 \<and> layout_new n = ((fst s, i), snd s))"

definition layout_sys_inv :: "tile_layout \<times> u32 \<Rightarrow> bool" where
  "layout_sys_inv s \<longleftrightarrow> layout_inv (fst s) \<and> (\<forall>i \<in> set (pane_ids (fst s)). i < snd s)"

lemma less_succ_u32: "(n::u32) \<noteq> - 1 \<Longrightarrow> i \<le> n \<Longrightarrow> i < n + 1"
  using unatSuc [of n] by (auto simp: word_less_nat_alt word_le_nat_alt add.commute
      eq_neg_iff_add_eq_0)

lemma pane_ids_set_focus [simp]: "pane_ids (set_focus l i) = pane_ids l"
  by (simp add: set_focus_def pane_ids_def)

lemma pane_ids_focus_pane [simp]: "pane_ids (focus_pane l i) = pane_ids l"
  by (simp add: focus_pane_def)

lemma pane_ids_split_pane:
  "split_pane l n t d r = (res, l', n') \<Longrightarrow> set (pane_ids l') \<subseteq> insert n (set (pane_ids l))"
  by (auto simp: split_pane_def pane_id_alloc_def pane_ids_def set_split_at split: if_splits)

lemma pane_ids_insert_pane_near:
  "insert_pane_near l t m d r foc = (ok, l') \<Longrightarrow> set (pane_ids l') \<subseteq> insert m (set (pane_ids l))"
proof -
  assume "insert_pane_near l t m d r foc = (ok, l')"
  moreover have "set (pane_ids (snd (insert_pane_near l t m d r foc))) \<subseteq> insert m (set (pane_ids l))"
    by (auto simp: insert_pane_near_def Let_def set_focus_def pane_ids_def set_split_at split: if_splits)
  ultimately show ?thesis by simp
qed

lemma pane_ids_close_pane:
  assumes "layout_inv l" and "close_pane l i = Some (True, l')"
  shows "pane_ids l' = filter (\<lambda>j. j \<noteq> i) (pane_ids l)"
proof (cases "focus l = i")
  case True
  with assms have "close_focused l = Some (True, l')" "pane_count l > 1"
    by (auto simp: close_pane_def close_focused_def split: if_splits)
  note cl = this
  show ?thesis
  proof (rule close_focused_eq [OF assms(1) cl(2)])
    fix n
    assume n: "remove_pane (root l) (focus l) = Some n"
      and "close_focused l = Some (True, l\<lparr>root := n, focus := close_successor l, prev_focus := None\<rparr>)"
    with cl(1) have "root l' = n" by auto
    with remove_pane_Some [OF n] True show ?thesis by (simp add: pane_ids_def)
  qed
next
  case False
  then have f: "i \<noteq> focus l" by simp
  have i: "i \<in> set (pane_ids l)"
    using assms(2) False by (auto simp: close_pane_def split: if_splits)
  show ?thesis
  proof (rule close_pane_other_eq [OF assms(1) f i])
    fix n
    assume n: "remove_pane (root l) i = Some n"
      and "close_pane l i = Some (True, l\<lparr>root := n,
        prev_focus := (if prev_focus l = Some i then None else prev_focus l)\<rparr>)"
    with assms(2) have "root l' = n" by auto
    with remove_pane_Some [OF n] show ?thesis by (simp add: pane_ids_def)
  qed
qed

lemma close_pane_False:
  assumes "layout_inv l" and "close_pane l i = Some (False, l')"
  shows "l' = l"
proof (cases "focus l = i")
  case True
  show ?thesis
  proof (cases "pane_count l > 1")
    case True
    from close_focused_eq [OF assms(1) True] assms(2) \<open>focus l = i\<close> show ?thesis
      by (metis Pair_inject close_pane_def option.inject)
  next
    case False
    with assms(2) \<open>focus l = i\<close> show ?thesis by (auto simp: close_pane_def close_focused_def)
  qed
next
  case False
  show ?thesis
  proof (cases "i \<in> set (pane_ids l)")
    case True
    have "i \<noteq> focus l" using False by simp
    from close_pane_other_eq [OF assms(1) this True] assms(2) show ?thesis
      by (metis Pair_inject option.inject)
  next
    case absent: False
    with assms(2) False show ?thesis by (auto simp: close_pane_def)
  qed
qed

lemma pane_ids_close_subset:
  "layout_inv l \<Longrightarrow> close_pane l i = Some (b, l') \<Longrightarrow> set (pane_ids l') \<subseteq> set (pane_ids l)"
  using pane_ids_close_pane [of l i l'] close_pane_False [of l i l'] by (cases b) auto

lemma close_focused_as_close_pane: "close_focused l = close_pane l (focus l)"
  by (simp add: close_pane_def)

lemma pane_ids_swap_panes: "set (pane_ids (snd (swap_panes l a b))) = set (pane_ids l)"
  by (auto simp: swap_panes_def pane_ids_def tree_simps)

lemma pane_ids_resize_focused:
  "ratios_ok (root l) \<Longrightarrow> delta \<noteq> NaN \<Longrightarrow> pane_ids (resize_focused rn l nav delta area) = pane_ids l"
  by (rule resize_focused_cases [of l delta rn nav area]) (simp_all add: set_ratio_at_frame)

lemma pane_ids_resize_pane:
  assumes "layout_inv l" and "delta \<noteq> NaN"
  shows "pane_ids (snd (resize_pane rn l i nav delta area)) = pane_ids l"
proof (cases "i \<in> set (pane_ids l)")
  case True
  show ?thesis
    by (rule resize_pane_root [OF assms True, of rn nav area]) (simp_all add: set_ratio_at_frame)
next
  case False
  then show ?thesis by (simp add: resize_pane_def)
qed

lemma layout_step_inv: "layout_step s t \<Longrightarrow> layout_sys_inv s \<Longrightarrow> layout_sys_inv t"
proof (induction rule: layout_step.induct)
  case (split n l t d r res l' n')
  then have "n \<notin> set (pane_ids l)" by (auto simp: layout_sys_inv_def)
  moreover have "n' = n \<or> n' = n + 1"
    using split(2) by (auto simp: split_pane_def pane_id_alloc_def split: if_splits)
  ultimately show ?case
    using split layout_inv_split_pane [of l n t d r] pane_ids_split_pane [OF split(2)]
      less_succ_u32 [OF split(1)]
    by (force simp: layout_sys_inv_def split_pane_def pane_id_alloc_def less_imp_le split: if_splits)
next
  case (other_alloc n i n' l)
  then show ?case using less_succ_u32 [of n]
    by (auto simp: layout_sys_inv_def pane_id_alloc_def less_imp_le)
next
  case (insert m n l t d r foc ok l')
  then show ?case
    using layout_inv_insert_pane_near [of l t m d r foc] pane_ids_insert_pane_near [OF insert(2)]
    by (auto simp: layout_sys_inv_def)
next
  case (close_focused l ok l' n)
  then show ?case
    using layout_inv_close_pane [of l "focus l" ok l'] pane_ids_close_subset [of l "focus l" ok l']
    by (auto simp: layout_sys_inv_def close_focused_as_close_pane)
next
  case (close l i ok l' n)
  then show ?case
    using layout_inv_close_pane [of l i ok l'] pane_ids_close_subset [of l i ok l']
    by (auto simp: layout_sys_inv_def)
next
  case (focus l i l' n)
  then show ?case by (auto simp: layout_sys_inv_def layout_inv_focus_pane)
next
  case (swap l a b ok l' n)
  then show ?case using layout_inv_swap [of l a b] pane_ids_swap_panes [of l a b]
    by (auto simp: layout_sys_inv_def)
next
  case (set_ratio r l path ok l' n)
  then show ?case using layout_inv_set_ratio_at [of l r path] set_ratio_at_frame(3) [of l path r]
    by (auto simp: layout_sys_inv_def)
next
  case (resize_focused delta rn l nav area l' n)
  then show ?case
    using layout_inv_resize_focused [of l delta rn nav area] pane_ids_resize_focused [of l delta rn nav area]
    by (auto simp: layout_sys_inv_def) (auto simp: layout_inv_def)
next
  case (resize delta rn l i nav area ok l' n)
  then show ?case
    using layout_inv_resize_pane [of l delta rn i nav area] pane_ids_resize_pane [of l delta rn i nav area]
    by (auto simp: layout_sys_inv_def)
qed

lemma layout_init_inv: "layout_init s \<Longrightarrow> layout_sys_inv s"
  by (cases s) (auto simp: layout_init_def layout_sys_inv_def layout_new_def pane_id_alloc_def
      layout_inv_def pane_ids_def less_succ_u32)

interpretation layout_system: inductive_system layout_init layout_step layout_sys_inv
  by unfold_locales (fact layout_init_inv, fact layout_step_inv)

end
