(* ===== verification/Layout_Geometry.thy ===== *)
theory Layout_Geometry
  imports Layout_Invariants
begin

text \<open>
  Geometry of the layout: a rectangle denotes its set of terminal cells, the panes of a layout
  partition the cells of the available area, and directional navigation moves to a pane that
  touches the focused one.
\<close>

section \<open>Cells\<close>

definition cells :: "rect \<Rightarrow> (nat \<times> nat) set" where
  "cells r = {(x, y). unat (rx r) \<le> x \<and> x < unat (rx r) + unat (rwidth r) \<and>
                      unat (ry r) \<le> y \<and> y < unat (ry r) + unat (rheight r)}"

definition in_bounds :: "rect \<Rightarrow> bool" where
  "in_bounds r \<longleftrightarrow> unat (rx r) + unat (rwidth r) \<le> 65535 \<and> unat (ry r) + unat (rheight r) \<le> 65535"

text \<open>
  What \<open>ratatui\<close> documents of \<open>Rect::new\<close>: a rectangle whose right and bottom edges fit in
  \<open>u16\<close> is built with the given size.
\<close>

definition rect_new_ok :: "rect_new \<Rightarrow> bool" where
  "rect_new_ok rn \<longleftrightarrow>
     (\<forall>x y w h. unat x + unat w \<le> 65535 \<and> unat y + unat h \<le> 65535 \<longrightarrow>
        rn x y w h = \<lparr>rx = x, ry = y, rwidth = w, rheight = h\<rparr>)"

lemma split_rect_cells:
  assumes "rect_new_ok rn" and "in_bounds area" and "unit_ratio r"
    and "split_rect rn area d r = (a, b)"
  shows "in_bounds a" and "in_bounds b" and "cells area = cells a \<union> cells b"
    and "cells a \<inter> cells b = {}"
proof -
  let ?w = "round_as_u16 (f32_mul (u16_as_f32 (rwidth area)) r)"
  let ?h = "round_as_u16 (f32_mul (u16_as_f32 (rheight area)) r)"
  note w = scaled_u16_le [OF assms(3), of "rwidth area"]
  note h = scaled_u16_le [OF assms(3), of "rheight area"]
  have bnd: "unat (rx area) + unat (rwidth area) \<le> 65535" "unat (ry area) + unat (rheight area) \<le> 65535"
    using assms(2) by (auto simp: in_bounds_def)
  have xw: "unat (rx area + ?w) = unat (rx area) + unat ?w"
    using w bnd by (intro unat_plus_u16) simp
  have yh: "unat (ry area + ?h) = unat (ry area) + unat ?h"
    using h bnd by (intro unat_plus_u16) simp
  have rn: "rn x y u v = \<lparr>rx = x, ry = y, rwidth = u, rheight = v\<rparr>"
    if "unat x + unat u \<le> 65535" "unat y + unat v \<le> 65535" for x y u v
    using assms(1) that by (simp add: rect_new_ok_def)
  have "in_bounds a \<and> in_bounds b \<and> cells area = cells a \<union> cells b \<and> cells a \<inter> cells b = {}"
  proof (cases d)
    case Horizontal
    have "a = \<lparr>rx = rx area, ry = ry area, rwidth = ?w, rheight = rheight area\<rparr>"
      "b = \<lparr>rx = rx area + ?w, ry = ry area, rwidth = saturating_sub (rwidth area) ?w,
            rheight = rheight area\<rparr>"
      using assms(4) Horizontal w bnd
      by (auto simp: split_rect_def Let_def rn xw unat_saturating_sub)
    then show ?thesis using w bnd by (auto simp: in_bounds_def cells_def xw unat_saturating_sub)
  next
    case Vertical
    have "a = \<lparr>rx = rx area, ry = ry area, rwidth = rwidth area, rheight = ?h\<rparr>"
      "b = \<lparr>rx = rx area, ry = ry area + ?h, rwidth = rwidth area,
            rheight = saturating_sub (rheight area) ?h\<rparr>"
      using assms(4) Vertical h bnd
      by (auto simp: split_rect_def Let_def rn yh unat_saturating_sub)
    then show ?thesis using h bnd by (auto simp: in_bounds_def cells_def yh unat_saturating_sub)
  qed
  then show "in_bounds a" "in_bounds b" "cells area = cells a \<union> cells b" "cells a \<inter> cells b = {}"
    by blast+
qed

section \<open>The panes tile the area\<close>

definition disjoint_panes :: "pane_info list \<Rightarrow> bool" where
  "disjoint_panes ps \<longleftrightarrow> sorted_wrt (\<lambda>p q. cells (pi_rect p) \<inter> cells (pi_rect q) = {}) ps"

definition covered :: "pane_info list \<Rightarrow> (nat \<times> nat) set" where
  "covered ps = (\<Union>p \<in> set ps. cells (pi_rect p))"

lemma collect_panes_tile:
  assumes "rect_new_ok rn"
  shows "ratios_ok n \<Longrightarrow> in_bounds area \<Longrightarrow>
    covered (collect_panes rn n area foc) = cells area \<and>
    disjoint_panes (collect_panes rn n area foc) \<and>
    (\<forall>p \<in> set (collect_panes rn n area foc). in_bounds (pi_rect p))"
proof (induction n arbitrary: area)
  case (Pane i)
  then show ?case by (simp add: covered_def disjoint_panes_def)
next
  case (Split d r f s)
  obtain a b where ab: "split_rect rn area d r = (a, b)" by (cases "split_rect rn area d r")
  have u: "unit_ratio r" using Split.prems by (simp add: valid_ratio_unit)
  note c = split_rect_cells [OF assms Split.prems(2) u ab]
  have f: "covered (collect_panes rn f a foc) = cells a" "disjoint_panes (collect_panes rn f a foc)"
      "\<forall>p \<in> set (collect_panes rn f a foc). in_bounds (pi_rect p)"
    using Split.IH(1) [OF _ c(1)] Split.prems by auto
  have s: "covered (collect_panes rn s b foc) = cells b" "disjoint_panes (collect_panes rn s b foc)"
      "\<forall>p \<in> set (collect_panes rn s b foc). in_bounds (pi_rect p)"
    using Split.IH(2) [OF _ c(2)] Split.prems by auto
  have "cells (pi_rect p) \<inter> cells (pi_rect q) = {}"
    if "p \<in> set (collect_panes rn f a foc)" "q \<in> set (collect_panes rn s b foc)" for p q
    using that f(1) s(1) c(4) by (auto simp: covered_def)
  then have "disjoint_panes (collect_panes rn f a foc @ collect_panes rn s b foc)"
    using f(2) s(2) by (auto simp: disjoint_panes_def sorted_wrt_append)
  moreover have "covered (collect_panes rn f a foc @ collect_panes rn s b foc) = cells area"
    using f(1) s(1) c(3) by (auto simp: covered_def)
  ultimately show ?case using f(3) s(3) by (auto simp: ab)
qed

lemma collect_panes_ids: "map pi_id (collect_panes rn n area foc) = collect_ids n"
  by (induction n arbitrary: area) (auto split: prod.splits)

lemma panes_in_bounds:
  "rect_new_ok rn \<Longrightarrow> layout_inv l \<Longrightarrow> in_bounds area \<Longrightarrow> p \<in> set (panes rn l area) \<Longrightarrow> in_bounds (pi_rect p)"
  using collect_panes_tile [of rn "root l" area "focus l"] by (simp add: layout_inv_def panes_def)

lemma panes_covered:
  "rect_new_ok rn \<Longrightarrow> layout_inv l \<Longrightarrow> in_bounds area \<Longrightarrow> covered (panes rn l area) = cells area"
  using collect_panes_tile [of rn "root l" area "focus l"] by (simp add: layout_inv_def panes_def)

lemma panes_disjoint:
  "rect_new_ok rn \<Longrightarrow> layout_inv l \<Longrightarrow> in_bounds area \<Longrightarrow> disjoint_panes (panes rn l area)"
  using collect_panes_tile [of rn "root l" area "focus l"] by (simp add: layout_inv_def panes_def)

lemma disjoint_panes_inter:
  assumes "disjoint_panes ps" and "p \<in> set ps" and "q \<in> set ps" and "p \<noteq> q"
  shows "cells (pi_rect p) \<inter> cells (pi_rect q) = {}"
proof -
  obtain i j where ij: "i < length ps" "j < length ps" "ps ! i = p" "ps ! j = q"
    using assms(2,3) by (auto simp: in_set_conv_nth)
  with assms(4) consider "i < j" | "j < i" by (metis linorder_less_linear)
  then show ?thesis
    using assms(1) ij by cases (auto simp: disjoint_panes_def sorted_wrt_iff_nth_less dest: spec)
qed

section \<open>Navigation\<close>

lemma enumerate_mem: "ip \<in> set (List.enumerate 0 ps) \<Longrightarrow> snd ip \<in> set ps"
  by (auto simp: in_set_enumerate_eq) (metis nth_mem)

lemma enumerate_ex:
  assumes "q \<in> set ps"
  obtains k where "(k, q) \<in> set (List.enumerate 0 ps)"
proof -
  from assms obtain k where "k < length ps" "ps ! k = q" by (auto simp: in_set_conv_nth)
  then have "(k, q) \<in> set (List.enumerate 0 ps)" by (simp add: in_set_enumerate_eq)
  then show ?thesis by (rule that)
qed

lemma find_in_direction_Some:
  assumes "find_in_direction f nav ps = Some i"
  obtains k p where "(k, p) \<in> set (List.enumerate 0 ps)" "pi_id p = i" "i \<noteq> pi_id f"
    "in_direction nav (pi_rect f) (pi_rect p)"
    "\<And>k' q. (k', q) \<in> set (List.enumerate 0 ps) \<Longrightarrow> pi_id q \<noteq> pi_id f \<Longrightarrow>
       in_direction nav (pi_rect f) (pi_rect q) \<Longrightarrow>
       nav_key nav (pi_rect f) (k, p) \<le> nav_key nav (pi_rect f) (k', q)"
proof -
  from assms obtain ip where ip: "min_by_key (nav_key nav (pi_rect f))
      (filter (\<lambda>ip. in_direction nav (pi_rect f) (pi_rect (snd ip)))
        (filter (\<lambda>ip. pi_id (snd ip) \<noteq> pi_id f) (List.enumerate 0 ps))) = Some ip" "pi_id (snd ip) = i"
    by (auto simp: find_in_direction_def Let_def)
  show ?thesis using min_by_key_Some [OF ip(1)] ip(2) that [of "fst ip" "snd ip"] by fastforce
qed

lemma find_in_direction_ex:
  assumes "q \<in> set ps" and "pi_id q \<noteq> pi_id f" and "in_direction nav (pi_rect f) (pi_rect q)"
  shows "find_in_direction f nav ps \<noteq> None"
proof -
  from assms(1) obtain k where "(k, q) \<in> set (List.enumerate 0 ps)" by (rule enumerate_ex)
  with assms(2,3) have "(k, q) \<in> set (filter (\<lambda>ip. in_direction nav (pi_rect f) (pi_rect (snd ip)))
      (filter (\<lambda>ip. pi_id (snd ip) \<noteq> pi_id f) (List.enumerate 0 ps)))" (is "_ \<in> set ?xs")
    by simp
  then have "?xs \<noteq> []" by (metis list.set(1) empty_iff)
  then show ?thesis by (simp only: find_in_direction_def Let_def option.map_disc_iff min_by_key_None not_False_eq_True)
qed

text \<open>
  Two rectangles touch in a direction when the second one starts on the row or column where the
  first one ends and they share a row or column.
\<close>

definition touches :: "nav_direction \<Rightarrow> rect \<Rightarrow> rect \<Rightarrow> bool" where
  "touches nav fr r \<longleftrightarrow>
     (let share = (if nav = NavLeft \<or> nav = NavRight
        then unat (ry r) < unat (ry fr) + unat (rheight fr) \<and> unat (ry fr) < unat (ry r) + unat (rheight r)
        else unat (rx r) < unat (rx fr) + unat (rwidth fr) \<and> unat (rx fr) < unat (rx r) + unat (rwidth r))
      in share \<and>
         (case nav of
            NavLeft \<Rightarrow> unat (rx r) + unat (rwidth r) = unat (rx fr)
          | NavRight \<Rightarrow> unat (rx r) = unat (rx fr) + unat (rwidth fr)
          | NavUp \<Rightarrow> unat (ry r) + unat (rheight r) = unat (ry fr)
          | NavDown \<Rightarrow> unat (ry r) = unat (ry fr) + unat (rheight fr)))"

definition at_edge :: "nav_direction \<Rightarrow> rect \<Rightarrow> rect \<Rightarrow> bool" where
  "at_edge nav area r \<longleftrightarrow>
     (case nav of
        NavLeft \<Rightarrow> unat (rx r) = unat (rx area)
      | NavRight \<Rightarrow> unat (rx r) + unat (rwidth r) = unat (rx area) + unat (rwidth area)
      | NavUp \<Rightarrow> unat (ry r) = unat (ry area)
      | NavDown \<Rightarrow> unat (ry r) + unat (rheight r) = unat (ry area) + unat (rheight area))"

lemma ranges_overlap_nat:
  "unat a + unat al \<le> 65535 \<Longrightarrow> unat b + unat bl \<le> 65535 \<Longrightarrow>
   ranges_overlap a al b bl \<longleftrightarrow> unat a < unat b + unat bl \<and> unat b < unat a + unat al"
  by (simp add: ranges_overlap_def word_less_nat_alt unat_plus_u16)

lemma touches_in_direction:
  "in_bounds fr \<Longrightarrow> in_bounds r \<Longrightarrow> touches nav fr r \<Longrightarrow> in_direction nav fr r"
  by (cases nav) (auto simp: touches_def in_direction_def in_bounds_def ranges_overlap_nat
      word_le_nat_alt unat_plus_u16)

lemma in_direction_edge0_touches:
  assumes "in_bounds fr" and "in_bounds (pi_rect (snd ip))" and "in_direction nav fr (pi_rect (snd ip))"
    and "fst (nav_key nav fr ip) = 0"
  shows "touches nav fr (pi_rect (snd ip))"
proof -
  have e: "unat (fst (nav_key nav fr ip)) = 0" using assms(4) by simp
  show ?thesis
    using assms(1-3) e
    by (cases nav) (auto simp: touches_def in_direction_def in_bounds_def ranges_overlap_nat nav_key_def
        Let_def word_le_nat_alt unat_plus_u16 unat_saturating_sub)
qed

lemma touches_edge0:
  assumes "in_bounds fr" and "in_bounds (pi_rect (snd ip))" and "touches nav fr (pi_rect (snd ip))"
  shows "fst (nav_key nav fr ip) = 0"
proof -
  have "unat (fst (nav_key nav fr ip)) = 0"
    using assms
    by (cases nav) (auto simp: touches_def in_bounds_def nav_key_def Let_def unat_plus_u16
        unat_saturating_sub)
  then show ?thesis by (simp add: unat_eq_zero)
qed

text \<open>A cell just beyond the focused pane belongs to a pane that touches it.\<close>

lemma mem_cells:
  "(x, y) \<in> cells r \<longleftrightarrow> unat (rx r) \<le> x \<and> x < unat (rx r) + unat (rwidth r) \<and>
     unat (ry r) \<le> y \<and> y < unat (ry r) + unat (rheight r)"
  by (simp add: cells_def)

lemma beyond_cell_touches:
  assumes cov: "covered ps = cells area" and dis: "disjoint_panes ps"
    and f: "f \<in> set ps" and ne: "cells (pi_rect f) \<noteq> {}"
    and edge: "\<not> at_edge nav area (pi_rect f)"
  obtains q where "q \<in> set ps" "q \<noteq> f" "touches nav (pi_rect f) (pi_rect q)"
proof -
  let ?F = "pi_rect f"
  have pos: "0 < unat (rwidth ?F)" "0 < unat (rheight ?F)" using ne by (auto simp: cells_def)
  have sub: "cells ?F \<subseteq> cells area" using cov f by (auto simp: covered_def)
  have c1: "(unat (rx ?F), unat (ry ?F)) \<in> cells ?F" using pos by (simp add: mem_cells)
  have c2: "(unat (rx ?F) + unat (rwidth ?F) - 1, unat (ry ?F) + unat (rheight ?F) - 1) \<in> cells ?F"
    using pos by (auto simp: mem_cells)
  define c where "c = (case nav of
      NavLeft \<Rightarrow> (unat (rx ?F) - 1, unat (ry ?F))
    | NavRight \<Rightarrow> (unat (rx ?F) + unat (rwidth ?F), unat (ry ?F))
    | NavUp \<Rightarrow> (unat (rx ?F), unat (ry ?F) - 1)
    | NavDown \<Rightarrow> (unat (rx ?F), unat (ry ?F) + unat (rheight ?F)))"
  define c' where "c' = (case nav of
      NavLeft \<Rightarrow> (unat (rx ?F), unat (ry ?F))
    | NavRight \<Rightarrow> (unat (rx ?F) + unat (rwidth ?F) - 1, unat (ry ?F))
    | NavUp \<Rightarrow> (unat (rx ?F), unat (ry ?F))
    | NavDown \<Rightarrow> (unat (rx ?F), unat (ry ?F) + unat (rheight ?F) - 1))"
  have c'F: "c' \<in> cells ?F" using pos by (cases nav) (auto simp: c'_def mem_cells)
  have "c \<in> cells area"
    using subsetD [OF sub c1] subsetD [OF sub c2] edge pos
    by (cases nav) (auto simp: c_def mem_cells at_edge_def)
  with cov obtain q where q: "q \<in> set ps" "c \<in> cells (pi_rect q)" by (auto simp: covered_def)
  have "c \<notin> cells ?F"
    using pos subsetD [OF sub c1] edge by (cases nav) (auto simp: c_def mem_cells at_edge_def)
  with q have "q \<noteq> f" by auto
  with dis f q have "c' \<notin> cells (pi_rect q)"
    using disjoint_panes_inter [of ps q f] c'F by auto
  with q(2) have "touches nav ?F (pi_rect q)"
    using pos edge subsetD [OF sub c1]
    by (cases nav) (auto simp: c_def c'_def mem_cells touches_def at_edge_def)
  with q \<open>q \<noteq> f\<close> show ?thesis by (rule_tac that)
qed

text \<open>Panes of a layout with distinct identifiers are determined by them.\<close>

lemma panes_id_inj:
  assumes "layout_inv l" and "p \<in> set (panes rn l area)" and "q \<in> set (panes rn l area)"
    and "pi_id p = pi_id q"
  shows "p = q"
proof -
  have "distinct (map pi_id (panes rn l area))"
    using assms(1) by (simp add: panes_def collect_panes_ids layout_inv_def pane_ids_def)
  then show ?thesis using assms(2-4) by (auto simp: distinct_map inj_on_def)
qed

section \<open>Properties of the layout\<close>

text \<open>
  C13. In every reachable state of a layout (any interleaving of splits, inserts, closes, focus
  moves, swaps and resizes, with the pane counter shared with other tabs) the pane identifiers
  are distinct, the focused pane is in the tree, the remembered previous pane is in the tree and
  is not the focused one, every split ratio lies between 0.1 and 0.9, and closing any pane does
  not panic.
\<close>

theorem layout_reachable_ok:
  assumes "reachable layout_init layout_step (l, n)"
  shows "distinct (pane_ids l) \<and> focus l \<in> set (pane_ids l) \<and>
    (\<forall>p. prev_focus l = Some p \<longrightarrow> p \<noteq> focus l \<and> p \<in> set (pane_ids l)) \<and>
    (\<forall>path r. get_ratio_node (root l) path = Some r \<longrightarrow> valid_ratio r) \<and>
    (\<forall>i. close_pane l i \<noteq> None)"
proof -
  from layout_system.reachable_inv [OF assms] have inv: "layout_inv l"
    by (simp add: layout_sys_inv_def)
  then have "\<forall>path r. get_ratio_node (root l) path = Some r \<longrightarrow> valid_ratio r"
    using get_ratio_valid by (auto simp: layout_inv_def)
  moreover have "\<forall>i. close_pane l i \<noteq> None" using close_pane_never_panics [OF inv] by fastforce
  ultimately show ?thesis using inv by (simp add: layout_inv_def)
qed

theorem layout_reachable_ok_witness:
  "distinct (pane_ids \<lparr>root = Split Vertical f32_0_5 (Pane 1) (Pane 2), focus = 2, prev_focus = Some 1\<rparr>)"
proof -
  let ?l0 = "\<lparr>root = Pane 1, focus = 1, prev_focus = None\<rparr>"
  let ?l1 = "\<lparr>root = Split Vertical f32_0_5 (Pane 1) (Pane 2), focus = 1, prev_focus = None\<rparr>"
  let ?l2 = "\<lparr>root = Split Vertical f32_0_5 (Pane 1) (Pane 2), focus = 2, prev_focus = Some 1\<rparr>"
  have r: "valid_split_ratio f32_0_5 = f32_0_5"
    by (simp add: valid_split_ratio_def f32_clamp_def f32_0_5_def f32_0_1_def f32_0_9_def)
  have "layout_init (?l0, 2)"
    by (auto simp: layout_init_def layout_new_def pane_id_alloc_def intro!: exI [of _ 1])
  then have "reachable layout_init layout_step (?l0, 2)" by (rule reachable.start)
  moreover have "layout_step (?l0, 2) (?l1, 3)"
    by (rule layout_step.split [where t = 1 and d = Vertical and r = f32_0_5 and res = "Some 2"])
      (simp_all add: split_pane_def pane_id_alloc_def pane_ids_def r)
  ultimately have "reachable layout_init layout_step (?l1, 3)" by (rule reachable.step)
  moreover have "layout_step (?l1, 3) (?l2, 3)"
    by (rule layout_step.focus [where i = 2]) (simp add: focus_pane_def set_focus_def pane_ids_def)
  ultimately have "reachable layout_init layout_step (?l2, 3)" by (rule reachable.step)
  from layout_reachable_ok [OF this] show ?thesis by blast
qed

text \<open>
  C14. The panes of a layout tile the available area: they are listed in tree order, their
  rectangles are pairwise disjoint and together cover exactly the cells of the area, for every
  area whose edges fit in 16 bits.
\<close>

theorem panes_tile_area:
  assumes "rect_new_ok rn" and "layout_inv l" and "in_bounds area"
  shows "map pi_id (panes rn l area) = pane_ids l \<and> covered (panes rn l area) = cells area \<and>
    disjoint_panes (panes rn l area)"
  using panes_covered [OF assms] panes_disjoint [OF assms]
  by (simp add: panes_def collect_panes_ids pane_ids_def)

definition sample_layout :: tile_layout where
  "sample_layout = \<lparr>root = Split Horizontal f32_0_5 (Pane 1) (Split Vertical f32_0_5 (Pane 2) (Pane 3)),
     focus = 2, prev_focus = None\<rparr>"

definition sample_area :: rect where
  "sample_area = \<lparr>rx = 0, ry = 0, rwidth = 80, rheight = 24\<rparr>"

definition rect_exact :: rect_new where
  "rect_exact x y w h = \<lparr>rx = x, ry = y, rwidth = w, rheight = h\<rparr>"

lemma rect_exact_ok: "rect_new_ok rect_exact"
  by (simp add: rect_new_ok_def rect_exact_def)

lemma sample_layout_inv: "layout_inv sample_layout"
  by (simp add: layout_inv_def sample_layout_def pane_ids_def valid_ratio_0_5)

lemma sample_area_in_bounds: "in_bounds sample_area"
  by (simp add: in_bounds_def sample_area_def)

theorem panes_tile_area_witness:
  "covered (panes rect_exact sample_layout sample_area) = cells sample_area"
  using panes_tile_area [OF rect_exact_ok sample_layout_inv sample_area_in_bounds] by simp

text \<open>
  C27. Directional navigation moves to a neighbour: from a pane with at least one cell that does
  not already lie on the area's edge in that direction, \<open>find_in_direction\<close> finds a pane, and the
  pane it finds is another pane of the layout that touches the focused one in that direction.
\<close>

theorem navigation_finds_touching_pane:
  assumes rn: "rect_new_ok rn" and inv: "layout_inv l" and area: "in_bounds area"
    and f: "f \<in> set (panes rn l area)" and ne: "cells (pi_rect f) \<noteq> {}"
    and edge: "\<not> at_edge nav area (pi_rect f)"
  shows "\<exists>p \<in> set (panes rn l area). find_in_direction f nav (panes rn l area) = Some (pi_id p) \<and>
    pi_id p \<noteq> pi_id f \<and> touches nav (pi_rect f) (pi_rect p)"
proof -
  let ?ps = "panes rn l area"
  note bnd = panes_in_bounds [OF rn inv area]
  obtain q where q: "q \<in> set ?ps" "q \<noteq> f" "touches nav (pi_rect f) (pi_rect q)"
    using beyond_cell_touches [OF panes_covered [OF rn inv area] panes_disjoint [OF rn inv area] f ne edge]
    by blast
  have qid: "pi_id q \<noteq> pi_id f" using panes_id_inj [OF inv q(1) f] q(2) by blast
  have qdir: "in_direction nav (pi_rect f) (pi_rect q)"
    using touches_in_direction [OF bnd [OF f] bnd [OF q(1)] q(3)] .
  obtain j where j: "find_in_direction f nav ?ps = Some j"
    using find_in_direction_ex [OF q(1) qid qdir] by auto
  obtain k' where k': "(k', q) \<in> set (List.enumerate 0 ?ps)"
    using q(1) by (rule enumerate_ex)
  show ?thesis
  proof (rule find_in_direction_Some [OF j])
    fix k p
    assume p: "(k, p) \<in> set (List.enumerate 0 ?ps)" "pi_id p = j" "j \<noteq> pi_id f"
      "in_direction nav (pi_rect f) (pi_rect p)"
      and least: "\<And>k' q. (k', q) \<in> set (List.enumerate 0 ?ps) \<Longrightarrow> pi_id q \<noteq> pi_id f \<Longrightarrow>
        in_direction nav (pi_rect f) (pi_rect q) \<Longrightarrow>
        nav_key nav (pi_rect f) (k, p) \<le> nav_key nav (pi_rect f) (k', q)"
    have pin: "p \<in> set ?ps" using enumerate_mem [OF p(1)] by simp
    have "fst (nav_key nav (pi_rect f) (k, p)) \<le> fst (nav_key nav (pi_rect f) (k', q))"
      using least [OF k' qid qdir] by (auto simp: less_eq_prod_def)
    also have "\<dots> = 0"
      using touches_edge0 [of "pi_rect f" "(k', q)" nav] bnd [OF f] bnd [OF q(1)] q(3) by simp
    finally have "fst (nav_key nav (pi_rect f) (k, p)) = 0" by simp
    then have "touches nav (pi_rect f) (pi_rect p)"
      using in_direction_edge0_touches [of "pi_rect f" "(k, p)" nav] bnd [OF f] bnd [OF pin] p(4) by simp
    with pin p(2,3) j show ?thesis by auto
  qed
qed

lemma sample_panes:
  "map pi_rect (panes rect_exact sample_layout sample_area) =
     [\<lparr>rx = 0, ry = 0, rwidth = 40, rheight = 24\<rparr>, \<lparr>rx = 40, ry = 0, rwidth = 40, rheight = 12\<rparr>,
      \<lparr>rx = 40, ry = 12, rwidth = 40, rheight = 12\<rparr>]"
  by code_simp

theorem navigation_finds_touching_pane_witness:
  "\<exists>p \<in> set (panes rect_exact sample_layout sample_area).
     touches NavDown (pi_rect (panes rect_exact sample_layout sample_area ! 1)) (pi_rect p)"
proof -
  let ?ps = "panes rect_exact sample_layout sample_area"
  have len: "length ?ps = 3" using arg_cong [OF sample_panes, of length] by simp
  then have r: "pi_rect (?ps ! 1) = \<lparr>rx = 40, ry = 0, rwidth = 40, rheight = 12\<rparr>"
    using arg_cong [OF sample_panes, of "\<lambda>xs. xs ! 1"] by simp
  have f: "?ps ! 1 \<in> set ?ps" using len by simp
  have "(40, 0) \<in> cells (pi_rect (?ps ! 1))" unfolding r mem_cells by simp
  then have ne: "cells (pi_rect (?ps ! 1)) \<noteq> {}" by blast
  have edge: "\<not> at_edge NavDown sample_area (pi_rect (?ps ! 1))"
    unfolding at_edge_def r by (simp add: sample_area_def)
  show ?thesis
    using navigation_finds_touching_pane [OF rect_exact_ok sample_layout_inv sample_area_in_bounds f ne edge]
    by blast
qed

text \<open>
  Closing undoes splitting: splitting a pane, focusing the new pane and closing it restores
  the tree and the focus, whatever the ratio.
\<close>

theorem split_focus_close_restores:
  assumes "layout_inv l" and "focus l = t" and "n \<notin> set (pane_ids l)"
    and "split_pane l n t d r = (Some i, l1, n')"
  shows "close_focused (focus_pane l1 i) = Some (True, l\<lparr>prev_focus := None\<rparr>)"
proof -
  have t: "t \<in> set (pane_ids l)" using assms(1,2) by (simp add: layout_inv_def)
  have i: "i = n" and l1: "l1 = l\<lparr>root := split_at (root l) t d n (valid_split_ratio r)\<rparr>"
    using assms(4) t by (auto simp: split_pane_def pane_id_alloc_def)
  have inv1: "layout_inv l1" using layout_inv_split_root [OF assms(1,3)] l1 by simp
  have in1: "n \<in> set (pane_ids l1)" using t by (simp add: l1 pane_ids_def set_split_at)
  have nt: "n \<noteq> t" using t assms(3) by auto
  let ?l2 = "focus_pane l1 i"
  have l2: "?l2 = l1\<lparr>prev_focus := Some t, focus := n\<rparr>"
    using in1 nt assms(2) by (simp add: focus_pane_def set_focus_def i l1)
  have inv2: "layout_inv ?l2" using inv1 by (rule layout_inv_focus_pane)
  have "t \<in> set (pane_ids l1)" using t by (simp add: l1 pane_ids_def set_split_at)
  then have "t \<in> set (pane_ids ?l2)" by simp
  with in1 nt i have "card {t, n} \<le> card (set (pane_ids ?l2))" by (intro card_mono) auto
  then have cnt: "pane_count ?l2 > 1"
    using nt card_length [of "pane_ids ?l2"] by (simp add: pane_count_def count_panes_length pane_ids_def)
  have rm: "remove_pane (root ?l2) (focus ?l2) = Some (root l)"
    using remove_pane_split_at [of n "root l"] assms(3) unfolding l2 by (simp add: l1 pane_ids_def)
  have sc: "close_successor ?l2 = t" unfolding l2 by (simp add: close_successor_def)
  show ?thesis
  proof (rule close_focused_eq [OF inv2 cnt])
    fix m
    assume "remove_pane (root ?l2) (focus ?l2) = Some m" and eq: "close_focused ?l2 =
      Some (True, ?l2\<lparr>root := m, focus := close_successor ?l2, prev_focus := None\<rparr>)"
    with rm have "m = root l" by simp
    with assms(2) show ?thesis unfolding eq sc unfolding l2 l1 by simp
  qed
qed

theorem split_focus_close_restores_witness:
  "\<exists>l1 n'. split_pane sample_layout 9 2 Horizontal NaN = (Some 9, l1, n') \<and>
     close_focused (focus_pane l1 9) = Some (True, sample_layout\<lparr>prev_focus := None\<rparr>)"
proof -
  obtain i l1 n' where s: "split_pane sample_layout 9 2 Horizontal NaN = (Some i, l1, n')" and i: "i = 9"
    by (simp add: split_pane_def pane_ids_def sample_layout_def pane_id_alloc_def)
  have "(9::u32) \<notin> set (pane_ids sample_layout)" "focus sample_layout = 2"
    by (simp_all add: pane_ids_def sample_layout_def)
  with split_focus_close_restores [OF sample_layout_inv _ _ s] s i show ?thesis by auto
qed

end
