(* ===== verification/Timestamp.thy ===== *)
theory Timestamp
  imports Prelude
begin

text \<open>
  The clock strings of \<open>src/zynk/message.rs\<close>: \<open>rfc3339_utc\<close> and the civil calendar conversion
  \<open>civil_from_days\<close>. A Unix time is an \<open>int\<close>: every intermediate value of the two functions is
  below \<open>2 ^ 63\<close> in absolute value for every \<open>i64\<close> argument, so no \<open>i64\<close> operation wraps. The
  store compares these strings with \<open>ORDER BY\<close> and \<open><\<close>, so besides the calendar itself the
  theory proves that their lexicographic order is the order of time.
\<close>

section \<open>Conversion\<close>

definition civil_from_days :: "int \<Rightarrow> int \<times> int \<times> int" where
  "civil_from_days days =
     (let z = days + 719468;
          era = z div 146097;
          doe = z mod 146097;
          yoe = (doe - doe div 1460 + doe div 36524 - doe div 146096) div 365;
          y = yoe + era * 400;
          doy = doe - (365 * yoe + yoe div 4 - yoe div 100);
          mp = (5 * doy + 2) div 153;
          d = doy - (153 * mp + 2) div 5 + 1;
          m = (if mp < 10 then mp + 3 else mp - 9)
      in (if m \<le> 2 then y + 1 else y, m, d))"

definition rfc3339_utc :: "int \<Rightarrow> ustr" where
  "rfc3339_utc unix_secs =
     (let secs = max unix_secs 0;
          days = secs div 86400;
          rem = secs mod 86400;
          hour = rem div 3600;
          minute = rem mod 3600 div 60;
          second = rem mod 60;
          (year, month, day) = civil_from_days days
      in pad0 4 (dec (nat year)) @ U ''-'' @ pad0 2 (dec (nat month)) @ U ''-'' @
         pad0 2 (dec (nat day)) @ U ''T'' @ pad0 2 (dec (nat hour)) @ U '':'' @
         pad0 2 (dec (nat minute)) @ U '':'' @ pad0 2 (dec (nat second)) @ U ''Z'')"

section \<open>The Gregorian calendar\<close>

definition leap_year :: "int \<Rightarrow> bool" where
  "leap_year y \<longleftrightarrow> y mod 4 = 0 \<and> (y mod 100 \<noteq> 0 \<or> y mod 400 = 0)"

definition month_days :: "int \<Rightarrow> int \<Rightarrow> int" where
  "month_days y m =
     (if m = 2 then (if leap_year y then 29 else 28)
      else if m = 4 \<or> m = 6 \<or> m = 9 \<or> m = 11 then 30 else 31)"

fun next_day :: "int \<times> int \<times> int \<Rightarrow> int \<times> int \<times> int" where
  "next_day (y, m, d) =
     (if d < month_days y m then (y, m, d + 1)
      else if m < 12 then (y, m + 1, 1) else (y + 1, 1, 1))"

section \<open>Years of an era\<close>

text \<open>
  \<open>year_start y\<close> is the day of the era on which its year \<open>y\<close> (counted from March) begins, and
  \<open>year_num\<close> the number the code divides by 365. The latter is monotone, so comparing it with
  \<open>365 * y\<close> on the first and the last day of each of the 400 years fixes the quotient.
\<close>

definition year_start :: "int \<Rightarrow> int" where
  "year_start y = 365 * y + y div 4 - y div 100 + y div 400"

definition year_num :: "int \<Rightarrow> int" where
  "year_num doe = doe - doe div 1460 + doe div 36524 - doe div 146096"

lemma year_num_step: "year_num d \<le> year_num (d + 1)"
proof -
  have a: "(d + 1) div 1460 \<le> d div 1460 + 1"
    using zdiv_mono1 [of "d + 1" "d + 1460" 1460] by simp
  have mono: "d div 36524 \<le> (d + 1) div 36524" by (rule zdiv_mono1) simp_all
  have b: "(d + 1) div 146096 - d div 146096 \<le> (d + 1) div 36524 - d div 36524" 
  proof -
    have "(d+1) div 146096 = (d + 1) div 36524 div 4" "d div 146096 = d div 36524 div 4"
      by (simp_all add: zdiv_zmult2_eq [symmetric])
    moreover have "y div 4 - x div 4 \<le> y - x" if "x \<le> y" for x y :: int
      using that by presburger
    ultimately show ?thesis using mono by simp
  qed
  show ?thesis using a mono b unfolding year_num_def by linarith
qed

lemma year_num_mono:
  assumes "a \<le> b" shows "year_num a \<le> year_num b"
proof -
  have "year_num a \<le> year_num (a + int n)" for n
  proof (induction n)
    case (Suc n)
    then show ?case using year_num_step [of "a + int n"] by (simp add: ac_simps)
  qed simp
  from this [of "nat (b - a)"] assms show ?thesis by simp
qed

lemma year_bounds_all:
  "list_all (\<lambda>y. 365 * y \<le> year_num (year_start y) \<and> year_num (year_start (y + 1) - 1) < 365 * (y + 1))
     [0..399]"
  by code_simp

lemma year_quotient:
  assumes "0 \<le> y" "y < 400" "year_start y \<le> doe" "doe < year_start (y + 1)"
  shows "year_num doe div 365 = y"
proof -
  have "y \<in> set [0..399]" using assms by simp
  with year_bounds_all have y: "365 * y \<le> year_num (year_start y)"
    "year_num (year_start (y + 1) - 1) < 365 * (y + 1)"
    by (simp_all only: list_all_iff)
  have "365 * y \<le> year_num doe" using y(1) year_num_mono [OF assms(3)] by simp
  moreover have "year_num doe < 365 * (y + 1)"
    using y(2) year_num_mono [of doe "year_start (y + 1) - 1"] assms(4) by simp
  ultimately show ?thesis by simp
qed

definition year_len :: "int \<Rightarrow> int" where
  "year_len y = (if leap_year (y + 1) then 366 else 365)"

lemma div_succ:
  assumes "0 < (k::int)"
  shows "(y + 1) div k = y div k + (if (y + 1) mod k = 0 then 1 else 0)"
proof -
  define q r where "q = y div k" and "r = y mod k"
  have r: "0 \<le> r" "r < k" using assms by (simp_all add: r_def)
  have y: "y + 1 = (r + 1) + k * q" by (simp add: q_def r_def)
  have "(y + 1) div k = (r + 1) div k + q" "(y + 1) mod k = (r + 1) mod k"
    unfolding y using assms by simp_all
  moreover have "(r + 1) div k = (if (r + 1) mod k = 0 then 1 else 0)"
  proof (cases "r + 1 = k")
    case True
    then show ?thesis using assms by simp
  next
    case False
    with r have "0 \<le> r + 1" "r + 1 < k" by auto
    with r show ?thesis by (simp add: div_pos_pos_trivial mod_pos_pos_trivial)
  qed
  ultimately show ?thesis by (simp add: q_def)
qed

lemma year_start_Suc: "year_start (y + 1) = year_start y + year_len y"
proof -
  have "4 dvd y + 1" if "100 dvd y + 1" using that by (rule dvd_trans [rotated]) simp
  moreover have "100 dvd y + 1" if "400 dvd y + 1" using that by (rule dvd_trans [rotated]) simp
  ultimately show ?thesis
    unfolding year_start_def year_len_def leap_year_def mod_eq_0_iff_dvd
      div_succ [of 4, OF zero_less_numeral] div_succ [of 100, OF zero_less_numeral]
      div_succ [of 400, OF zero_less_numeral]
    by (cases "4 dvd y + 1"; cases "100 dvd y + 1"; cases "400 dvd y + 1") (simp_all only: algebra_simps, simp_all)
qed

lemma year_start_era: "year_start (y + 400 * e) = year_start y + 146097 * e"
  unfolding year_start_def
proof -
  have e: "400 * e = 4 * (100 * e)" "400 * e = 100 * (4 * e)" by simp_all
  have "(y + 400 * e) div 4 = y div 4 + 100 * e" unfolding e(1) by (subst div_mult_self2) simp_all
  moreover have "(y + 400 * e) div 100 = y div 100 + 4 * e" unfolding e(2) by (subst div_mult_self2) simp_all
  moreover have "(y + 400 * e) div 400 = y div 400 + e" by (subst div_mult_self2) simp_all
  moreover have "365 * (y + 400 * e) + (a + 100 * e) - (b + 4 * e) + (c + e) = 365 * y + a - b + c + 146097 * e"
    for a b c by simp
  ultimately show "365 * (y + 400 * e) + (y + 400 * e) div 4 - (y + 400 * e) div 100 + (y + 400 * e) div 400
    = 365 * y + y div 4 - y div 100 + y div 400 + 146097 * e" by (simp only:)
qed

section \<open>Months of a year\<close>

definition month_day :: "int \<Rightarrow> int \<times> int" where
  "month_day doy =
     (let mp = (5 * doy + 2) div 153
      in (if mp < 10 then mp + 3 else mp - 9, doy - (153 * mp + 2) div 5 + 1))"

definition civil_of :: "int \<Rightarrow> int \<Rightarrow> int \<times> int \<times> int" where
  "civil_of y doy = (if fst (month_day doy) \<le> 2 then y + 1 else y, month_day doy)"

definition day_ok :: "int \<Rightarrow> bool" where
  "day_ok doy \<longleftrightarrow>
     (let (m, d) = month_day doy;
          last = (m = 2 \<and> d = 29 \<or> (m = 4 \<or> m = 6 \<or> m = 9 \<or> m = 11) \<and> d = 30 \<or> d = 31);
          sameyear = ((fst (month_day (doy + 1)) \<le> 2) = (m \<le> 2))
      in month_day (doy + 1) = (if last then if m < 12 then (m + 1, 1) else (1, 1) else (m, d + 1)) \<and>
         sameyear = (m \<noteq> 12 \<or> \<not> last) \<and> (m = 2 \<longrightarrow> d < 29) \<and> 1 \<le> m \<and> m \<le> 12 \<and> 1 \<le> d \<and> d \<le> 31 \<and>
         (m = 2 \<and> 28 \<le> d \<longleftrightarrow> doy = 364))"

lemma day_ok_all: "list_all day_ok [0..364]"
  by code_simp

lemma day_ok: "0 \<le> doy \<Longrightarrow> doy < 365 \<Longrightarrow> day_ok doy"
  using day_ok_all by (simp only: list_all_iff) simp

lemma month_day_365: "month_day 365 = (2, 29)" and month_day_0: "month_day 0 = (3, 1)"
  and month_day_364: "month_day 364 = (2, 28)"
  by (simp_all add: month_day_def)

section \<open>Every day is the successor of the day before\<close>

lemma year_len_bounds: "365 \<le> year_len y" "year_len y \<le> 366"
  by (simp_all add: year_len_def)

lemma year_start_0: "year_start 0 = 0" and year_start_400: "year_start 400 = 146097"
  by (simp_all add: year_start_def)

lemma year_start_mono:
  assumes "a \<le> b"
  shows "year_start a \<le> year_start b"
proof -
  have "year_start a \<le> year_start (a + int n)" for n
  proof (induction n)
    case (Suc n)
    have "year_start (a + int n) \<le> year_start (a + int n + 1)"
      using year_len_bounds [of "a + int n"] by (simp add: year_start_Suc)
    with Suc show ?case by (simp add: ac_simps)
  qed simp
  from this [of "nat (b - a)"] assms show ?thesis by simp
qed

lemma year_of_era:
  assumes "0 \<le> doe" "doe < 146097"
  shows "\<exists>y. 0 \<le> y \<and> y < 400 \<and> year_start y \<le> doe \<and> doe < year_start (y + 1)"
proof -
  have "doe < year_start (int n) \<Longrightarrow> \<exists>y. 0 \<le> y \<and> y < int n \<and> year_start y \<le> doe \<and> doe < year_start (y + 1)" for n
  proof (induction n)
    case 0
    then show ?case using assms by (simp add: year_start_def)
  next
    case (Suc n)
    show ?case
    proof (cases "doe < year_start (int n)")
      case True
      from Suc.IH [OF this] show ?thesis by auto
    next
      case False
      with Suc.prems have "year_start (int n) \<le> doe" "doe < year_start (int n + 1)" by (simp_all add: ac_simps)
      then show ?thesis by (intro exI [of _ "int n"]) simp
    qed
  qed
  from this [of 400] assms show ?thesis by (simp add: year_start_def)
qed

lemma civil_from_days_era:
  assumes "0 \<le> y" "y < 400" "0 \<le> doy" "doy < year_len y"
  shows "civil_from_days (year_start (y + 400 * e) + doy - 719468) = civil_of (y + 400 * e) doy"
proof -
  let ?doe = "year_start y + doy"
  have bounds: "year_start y \<le> ?doe" "?doe < year_start (y + 1)"
    using assms by (simp_all add: year_start_Suc)
  have z: "year_start (y + 400 * e) + doy - 719468 + 719468 = ?doe + 146097 * e"
    by (simp add: year_start_era)
  have ys: "year_start y = 365 * y + y div 4 - y div 100" using assms by (simp add: year_start_def)
  have doe: "0 \<le> ?doe" "?doe < 146097"
    using year_start_mono [of 0 y] year_start_mono [of "y + 1" 400] assms bounds
    by (simp_all add: year_start_0 year_start_400)
  have div: "(?doe + 146097 * e) div 146097 = e" "(?doe + 146097 * e) mod 146097 = ?doe"
    using doe by simp_all
  have q: "(?doe - ?doe div 1460 + ?doe div 36524 - ?doe div 146096) div 365 = y"
    using year_quotient [OF assms(1,2) bounds] by (simp add: year_num_def)
  have doy: "?doe - (365 * y + y div 4 - y div 100) = doy" using ys by simp
  show ?thesis
    unfolding civil_from_days_def z div Let_def q doy civil_of_def month_day_def
    by (simp add: ac_simps)
qed

lemma civil_from_days_eq:
  assumes "0 \<le> doy" "doy < year_len y"
  shows "civil_from_days (year_start y + doy - 719468) = civil_of y doy"
proof -
  have y: "y = y mod 400 + 400 * (y div 400)" by simp
  have "year_len (y mod 400) = year_len y"
    using year_start_Suc [of y] year_start_Suc [of "y mod 400"]
      year_start_era [of "y mod 400" "y div 400"] year_start_era [of "y mod 400 + 1" "y div 400"]
    by (simp add: ac_simps)
  with civil_from_days_era [of "y mod 400" doy "y div 400"] assms show ?thesis by simp
qed

lemma day_of_year_ex: "\<exists>y doy. z = year_start y + doy \<and> 0 \<le> doy \<and> doy < year_len y"
proof -
  define r e where "r = z mod 146097" and "e = z div 146097"
  have r: "0 \<le> r" "r < 146097" and z: "z = r + 146097 * e" by (simp_all add: r_def e_def)
  from year_of_era [OF r] obtain y where y: "year_start y \<le> r" "r < year_start (y + 1)" by blast
  have s: "year_start (y + 400 * e) \<le> z" "z < year_start (y + 1 + 400 * e)"
    unfolding z year_start_era using y by simp_all
  have c: "y + 1 + 400 * e = y + 400 * e + 1" by simp
  show ?thesis
    using s unfolding c year_start_Suc
    by (intro exI [of _ "y + 400 * e"] exI [of _ "z - year_start (y + 400 * e)"]) simp
qed

lemma civil_of_next:
  assumes "0 \<le> doy" "doy < year_len y"
  shows "next_day (civil_of y doy) = (if doy + 1 < year_len y then civil_of y (doy + 1) else civil_of (y + 1) 0)"
proof (cases "doy < 364")
  case True
  obtain m d where md: "month_day doy = (m, d)" by fastforce
  have "day_ok doy" using True assms(1) by (intro day_ok) simp_all
  then have nx: "month_day (doy + 1) =
      (if m = 2 \<and> d = 29 \<or> (m = 4 \<or> m = 6 \<or> m = 9 \<or> m = 11) \<and> d = 30 \<or> d = 31
       then if m < 12 then (m + 1, 1) else (1, 1) else (m, d + 1))"
    and "m = 2 \<longrightarrow> d < 28" and "1 \<le> m" "m \<le> 12" "d \<le> 31"
    using True md by (auto simp: day_ok_def Let_def not_le split: if_splits)
  moreover have "doy + 1 < year_len y" using True by (simp add: year_len_def)
  ultimately show ?thesis
    by (auto simp: civil_of_def md month_days_def split: if_splits)
next
  case False
  with assms year_len_bounds [of y] consider "doy = 364" | "doy = 365" by fastforce
  then show ?thesis
    using assms by cases (auto simp: civil_of_def month_day_0 month_day_364 month_day_365 year_len_def
        month_days_def split: if_splits)
qed

lemma civil_from_days_Suc: "civil_from_days (days + 1) = next_day (civil_from_days days)"
proof -
  obtain y doy where z: "days + 719468 = year_start y + doy" "0 \<le> doy" "doy < year_len y"
    using day_of_year_ex by blast
  then have days: "days = year_start y + doy - 719468" by simp
  show ?thesis
  proof (cases "doy + 1 < year_len y")
    case True
    with z civil_from_days_eq [of "doy + 1" y] civil_from_days_eq [of doy y] civil_of_next [OF z(2,3)]
    show ?thesis by (simp add: days algebra_simps)
  next
    case False
    with z have "year_start (y + 1) = year_start y + doy + 1" by (simp add: year_start_Suc)
    with False z civil_from_days_eq [of 0 "y + 1"] civil_from_days_eq [of doy y] civil_of_next [OF z(2,3)]
      year_len_bounds [of "y + 1"]
    show ?thesis by (simp add: days algebra_simps)
  qed
qed

lemma civil_from_days_calendar: "civil_from_days (int n) = (next_day ^^ n) (1970, 1, 1)"
proof (induction n)
  case 0
  show ?case by code_simp
next
  case (Suc n)
  then show ?case using civil_from_days_Suc [of "int n"] by (simp add: ac_simps)
qed

section \<open>Order\<close>

lemma next_day_less: "date < next_day date"
  by (cases date) (auto simp: less_prod_def less_eq_prod_def)

lemma civil_from_days_strict_mono:
  assumes "a < b"
  shows "civil_from_days a < civil_from_days b"
proof -
  have "civil_from_days a < civil_from_days (a + 1 + int n)" for n
  proof (induction n)
    case 0
    show ?case using next_day_less [of "civil_from_days a"] by (simp add: civil_from_days_Suc)
  next
    case (Suc n)
    then show ?case
      using next_day_less [of "civil_from_days (a + 1 + int n)"] civil_from_days_Suc [of "a + 1 + int n"]
      by (simp add: ac_simps)
  qed
  from this [of "nat (b - a - 1)"] assms show ?thesis by simp
qed

lemma civil_range:
  assumes "civil_from_days days = (y, m, d)"
  shows "1 \<le> m" "m \<le> 12" "1 \<le> d" "d \<le> 31"
proof -
  obtain y' doy where z: "days + 719468 = year_start y' + doy" "0 \<le> doy" "doy < year_len y'"
    using day_of_year_ex by blast
  then have "days = year_start y' + doy - 719468" by simp
  with civil_from_days_eq [OF z(2,3)] assms have md: "month_day doy = (m, d)" by (simp add: civil_of_def)
  have "1 \<le> m \<and> m \<le> 12 \<and> 1 \<le> d \<and> d \<le> 31"
  proof (cases "doy < 365")
    case True
    from day_ok [OF z(2) this] md show ?thesis by (simp add: day_ok_def Let_def)
  next
    case False
    with z(3) year_len_bounds [of y'] have "doy = 365" by simp
    with md month_day_365 show ?thesis by simp
  qed
  then show "1 \<le> m" "m \<le> 12" "1 \<le> d" "d \<le> 31" by simp_all
qed

lemma civil_year_range:
  assumes "civil_from_days days = (y, m, d)" "0 \<le> days" "days \<le> 2932896"
  shows "1970 \<le> y" "y \<le> 9999"
proof -
  have mono: "civil_from_days a \<le> civil_from_days b" if "a \<le> b" for a b
    using that civil_from_days_strict_mono [of a b] by (cases "a = b") auto
  have "civil_from_days 0 = (1970, 1, 1)" "civil_from_days 2932896 = (9999, 12, 31)" by code_simp+
  with mono [OF assms(2)] mono [OF assms(3)] assms(1) show "1970 \<le> y" "y \<le> 9999" by auto
qed

definition two :: "nat \<Rightarrow> ustr" where
  "two n = [48 + n div 10, 48 + n mod 10]"

definition four :: "nat \<Rightarrow> ustr" where
  "four n = two (n div 100) @ two (n mod 100)"

lemma less_by_div_mod:
  fixes m n k :: nat
  assumes "0 < k"
  shows "m < n \<longleftrightarrow> m div k < n div k \<or> m div k = n div k \<and> m mod k < n mod k"
proof -
  have lt: "x < y" if "x div k < y div k" for x y
    using that div_le_mono [of y x k] by (cases "x < y") auto
  have "m = k * (m div k) + m mod k" "n = k * (n div k) + n mod k" by simp_all
  then have "m div k = n div k \<Longrightarrow> m < n \<longleftrightarrow> m mod k < n mod k" by (metis nat_add_left_cancel_less)
  with lt [of m n] lt [of n m] show ?thesis by (meson linorder_neqE_nat order.asym)
qed

lemma eq_by_div_mod: "(m::nat) = n \<longleftrightarrow> m div k = n div k \<and> m mod k = n mod k"
  by (metis div_mult_mod_eq)

lemma pad0_two: "n < 100 \<Longrightarrow> pad0 2 (dec n) = two n"
  by (simp add: dec_def radix_rec [of 10 n] radix_rec [of 10 "n div 10"] pad0_def two_def
      digit_char_def less_mult_imp_div_less)

lemma pad0_four:
  assumes "1000 \<le> n" "n \<le> 9999"
  shows "pad0 4 (dec n) = four n"
proof -
  have a: "n mod 100 div 10 = n div 10 mod 10" "n mod 100 mod 10 = n mod 10"
    using mod_mult2_eq [of n 10 10] by (simp_all add: mod_mod_cancel)
  have b: "n div 10 div 10 = n div 100" "n div 100 div 10 = n div 1000"
    by (simp_all add: div_mult2_eq [symmetric])
  have c: "n div 1000 < 10" "\<not> n < 10" "\<not> n div 10 < 10" "\<not> n div 100 < 10" using assms by simp_all
  have r: "radix 10 n = [48 + n div 1000, 48 + n div 100 mod 10, 48 + n div 10 mod 10, 48 + n mod 10]"
    using c by (subst radix_rec, simp, subst radix_rec, simp, subst radix_rec, simp, subst radix_rec, simp)
      (simp add: b digit_char_def)
  show ?thesis by (simp add: dec_def r pad0_def four_def two_def a b)
qed

lemma append_less_iff:
  fixes x x' :: "'a::linorder list"
  shows "length x = length x' \<Longrightarrow> x @ s < x' @ s' \<longleftrightarrow> x < x' \<or> x = x' \<and> s < s'"
proof (induction x x' rule: list_induct2)
  case (Cons a x b y)
  then show ?case by auto
qed simp

lemma two_less: "two m < two n \<longleftrightarrow> m < n" and two_eq: "two m = two n \<longleftrightarrow> m = n"
  using less_by_div_mod [of 10 m n] eq_by_div_mod [of m n 10] by (simp_all add: two_def)

lemma length_two [simp]: "length (two n) = 2" "length (four n) = 4"
  by (simp_all add: two_def four_def)

lemma four_less: "four m < four n \<longleftrightarrow> m < n" and four_eq: "four m = four n \<longleftrightarrow> m = n"
  using less_by_div_mod [of 100 m n] eq_by_div_mod [of m n 100]
  by (simp_all add: four_def append_less_iff two_less two_eq)

definition clock :: "nat \<Rightarrow> ustr" where
  "clock r = two (r div 3600) @ U '':'' @ two (r mod 3600 div 60) @ U '':'' @ two (r mod 60) @ U ''Z''"

lemma clock_less: "clock r < clock r' \<longleftrightarrow> r < r'"
proof -
  have m: "r mod 3600 mod 60 = r mod 60" "r' mod 3600 mod 60 = r' mod 60"
    by (simp_all add: mod_mod_cancel)
  show ?thesis
    unfolding clock_def less_by_div_mod [of 3600 r r', OF zero_less_numeral]
      less_by_div_mod [of 60 "r mod 3600" "r' mod 3600", OF zero_less_numeral] m
    by (simp add: append_less_iff two_less two_eq)
qed

lemma rfc3339_utc_shape:
  assumes "t < 253402300800" and "civil_from_days (int (t div 86400)) = (y, m, d)"
  shows "rfc3339_utc (int t) =
    four (nat y) @ U ''-'' @ two (nat m) @ U ''-'' @ two (nat d) @ U ''T'' @ clock (t mod 86400)"
proof -
  have "t div 86400 \<le> 2932896" using assms(1) by simp
  then have y: "1970 \<le> y" "y \<le> 9999" using civil_year_range [OF assms(2)] by simp_all
  note r = civil_range [OF assms(2)]
  let ?r = "t mod 86400"
  have i: "max (int t) 0 = int t" "int t div 86400 = int (t div 86400)" "int t mod 86400 = int ?r"
    by (simp_all add: zdiv_int zmod_int)
  have n: "nat (int ?r div 3600) = ?r div 3600" "nat (int ?r mod 3600 div 60) = ?r mod 3600 div 60"
    "nat (int ?r mod 60) = ?r mod 60"
    by (simp_all only: nat_div_distrib nat_mod_distrib of_nat_0_le_iff zero_le_numeral
        nat_int nat_numeral pos_mod_sign zero_less_numeral)
  have "?r < 86400" "?r mod 3600 < 3600" "?r mod 60 < 60" by simp_all
  then have b: "?r div 3600 < 100" "?r mod 3600 div 60 < 100" "?r mod 60 < 100"
    by (auto intro: less_mult_imp_div_less)
  have c: "1000 \<le> nat y" "nat y \<le> 9999" "nat m < 100" "nat d < 100" using y r by simp_all
  show ?thesis
    unfolding rfc3339_utc_def clock_def Let_def i n assms(2) prod.case
    unfolding pad0_two [OF b(1)] pad0_two [OF b(2)] pad0_two [OF b(3)] pad0_two [OF c(3)] pad0_two [OF c(4)]
      pad0_four [OF c(1,2)] ..
qed

lemma rfc3339_utc_less:
  assumes "a < 253402300800" and "b < 253402300800"
  shows "rfc3339_utc (int a) < rfc3339_utc (int b) \<longleftrightarrow> a < b"
proof -
  let ?da = "int (a div 86400)" and ?db = "int (b div 86400)"
  obtain y m d where ca: "civil_from_days ?da = (y, m, d)" by (cases "civil_from_days ?da") auto
  obtain y' m' d' where cb: "civil_from_days ?db = (y', m', d')" by (cases "civil_from_days ?db") auto
  have pos: "0 \<le> y" "0 \<le> m" "0 \<le> d" "0 \<le> y'" "0 \<le> m'" "0 \<le> d'"
    using civil_year_range(1) [OF ca] civil_year_range(1) [OF cb] civil_range [OF ca] civil_range [OF cb]
      div_le_mono [of a 253402300799 86400] div_le_mono [of b 253402300799 86400] assms
    by simp_all
  have eq: "?da = ?db \<longleftrightarrow> (y, m, d) = (y', m', d')"
    using civil_from_days_strict_mono [of ?da ?db] civil_from_days_strict_mono [of ?db ?da] ca cb
    by (metis linorder_neqE_linordered_idom order.strict_implies_not_eq)
  have less: "?da < ?db \<longleftrightarrow> (y, m, d) < (y', m', d')"
    using civil_from_days_strict_mono [of ?da ?db] civil_from_days_strict_mono [of ?db ?da] ca cb
    by (metis linorder_neqE_linordered_idom order.asym order.irrefl)
  have "rfc3339_utc (int a) < rfc3339_utc (int b) \<longleftrightarrow>
      (y, m, d) < (y', m', d') \<or> (y, m, d) = (y', m', d') \<and> a mod 86400 < b mod 86400"
    unfolding rfc3339_utc_shape [OF assms(1) ca] rfc3339_utc_shape [OF assms(2) cb]
    using pos by (auto simp: append_less_iff two_less two_eq four_less four_eq clock_less)
  with eq less show ?thesis using less_by_div_mod [of 86400 a b] by simp
qed

text \<open>
  The date that \<open>rfc3339_utc\<close> prints is the Gregorian date: \<open>civil_from_days n\<close> is the day
  reached from 1 January 1970 by \<open>n\<close> successive calendar days, leap years included.
\<close>

theorem civil_from_days_is_calendar:
  "civil_from_days (int n) = (next_day ^^ n) (1970, 1, 1)"
  by (rule civil_from_days_calendar)

text \<open>
  The timestamp strings sort like time: up to the end of the year 9999 the order of two
  timestamp strings, by which the store orders and compares rows, is the order of the Unix times.
\<close>

theorem rfc3339_utc_order:
  assumes "a < 253402300800" and "b < 253402300800"
  shows "rfc3339_utc (int a) < rfc3339_utc (int b) \<longleftrightarrow> a < b"
  using assms by (rule rfc3339_utc_less)

theorem rfc3339_utc_order_witness:
  "rfc3339_utc (int 1709164799) < rfc3339_utc (int 1709164800) \<and>
   rfc3339_utc (int 1709164800) = U ''2024-02-29T00:00:00Z''"
proof
  have "(1709164799::nat) < 253402300800" "(1709164800::nat) < 253402300800"
    "(1709164799::nat) < 1709164800" by simp_all
  with rfc3339_utc_order [of 1709164799 1709164800]
  show "rfc3339_utc (int 1709164799) < rfc3339_utc (int 1709164800)" by blast
  have i: "int (1709164800 div 86400) = 19782" "1709164800 mod 86400 = (0::nat)" by simp_all
  have c: "civil_from_days (int (1709164800 div 86400)) = (2024, 2, 29)"
    unfolding i by code_simp
  have "rfc3339_utc (int 1709164800) = four (nat 2024) @ U ''-'' @ two (nat 2) @ U ''-'' @ two (nat 29) @
      U ''T'' @ clock (1709164800 mod 86400)"
    by (rule rfc3339_utc_shape [OF _ c]) simp
  also have "\<dots> = U ''2024-02-29T00:00:00Z''"
    unfolding i by (simp add: four_def two_def clock_def U_def)
  finally show "rfc3339_utc (int 1709164800) = U ''2024-02-29T00:00:00Z''" .
qed

end
