(* ===== verification/Message.thy ===== *)
theory Message
  imports Timestamp
begin

text \<open>
  The message layer of \<open>src/zynk/message.rs\<close> and the caller identity of \<open>src/zynk/identity.rs\<close>:
  send commands and their delivery status, the response object of a send, identifiers and hashes,
  the leading options of a send, trace identifiers, and the resolution of the source and the
  target of a send through a server request. Parameters: \<open>sha256\<close> is the digest of the \<open>sha2\<close>
  package, \<open>run_git\<close> the outcome of running a \<open>git\<close> process (\<open>None\<close> when it cannot be
  started, otherwise its success and its output when that is UTF-8), \<open>send\<close> the server
  transport, whose \<open>None\<close> is an I/O error.
\<close>

section \<open>Send commands\<close>

datatype send_command = AgentSend | AgentPrompt | PaneRun | PaneSendText | ZynkSend | ZynkReply

fun send_command_str :: "send_command \<Rightarrow> ustr" where
  "send_command_str AgentSend = U ''agent send''"
| "send_command_str AgentPrompt = U ''agent prompt''"
| "send_command_str PaneRun = U ''pane run''"
| "send_command_str PaneSendText = U ''pane send-text''"
| "send_command_str ZynkSend = U ''zynk send''"
| "send_command_str ZynkReply = U ''zynk reply''"

datatype delivery_status = DsSubmitted | DsDrafted

fun delivery_status_for :: "send_command \<Rightarrow> delivery_status" where
  "delivery_status_for PaneSendText = DsDrafted"
| "delivery_status_for AgentSend = DsSubmitted"
| "delivery_status_for AgentPrompt = DsSubmitted"
| "delivery_status_for PaneRun = DsSubmitted"
| "delivery_status_for ZynkSend = DsSubmitted"
| "delivery_status_for ZynkReply = DsSubmitted"

section \<open>Caller identity\<close>

record caller_identity_conflict =
  cic_code :: ustr
  cic_message :: ustr

record codex_session_hints =
  hint_value :: "ustr option"

datatype codex_hint_verification = NotPresent | Verified | Unverified

definition caller_identity_conflict_code :: ustr where
  "caller_identity_conflict_code = U ''caller_identity_conflict''"

definition nonempty :: "ustr option \<Rightarrow> ustr option" where
  "nonempty v = (case v of Some s \<Rightarrow> if s = [] then None else Some s | None \<Rightarrow> None)"

definition option_or :: "'a option \<Rightarrow> 'a option \<Rightarrow> 'a option" where
  "option_or a b = (case a of Some _ \<Rightarrow> a | None \<Rightarrow> b)"

definition hints_from_values ::
  "ustr option \<Rightarrow> ustr option \<Rightarrow> caller_identity_conflict + codex_session_hints" where
  "hints_from_values thread_id session_id =
     (let thread_id = nonempty thread_id; session_id = nonempty session_id
      in case (thread_id, session_id) of
           (Some thread, Some session) \<Rightarrow>
             if thread \<noteq> session then
               Inl \<lparr>cic_code = caller_identity_conflict_code,
                 cic_message = U ''CODEX_THREAD_ID ('' @ thread @ U '') contradicts CODEX_SESSION_ID (''
                   @ session @ U '')''\<rparr>
             else Inr \<lparr>hint_value = Some thread\<rparr>
         | _ \<Rightarrow> Inr \<lparr>hint_value = option_or thread_id session_id\<rparr>)"

definition hints_is_present :: "codex_session_hints \<Rightarrow> bool" where
  "hints_is_present h \<longleftrightarrow> hint_value h \<noteq> None"

definition hints_validate ::
  "codex_session_hints \<Rightarrow> ustr option \<Rightarrow> caller_identity_conflict + codex_hint_verification" where
  "hints_validate h authoritative =
     (case hint_value h of
        None \<Rightarrow> Inr NotPresent
      | Some hint \<Rightarrow>
          (case authoritative of
             None \<Rightarrow> Inr Unverified
           | Some a \<Rightarrow>
               if hint = a then Inr Verified
               else Inl \<lparr>cic_code = caller_identity_conflict_code,
                 cic_message = U ''Codex session hint '' @ hint
                   @ U '' contradicts the hook-authoritative session '' @ a
                   @ U '' on ZYNK_PANE_ID''\<rparr>))"

definition authoritative_codex_session_from_value :: "json option \<Rightarrow> ustr option" where
  "authoritative_codex_session_from_value session =
     do { s \<leftarrow> session;
          source \<leftarrow> json_get s (U ''source'') \<bind> json_str;
          if source \<noteq> U ''zynk:codex'' then None else do {
            agent \<leftarrow> json_get s (U ''agent'') \<bind> json_str;
            if agent \<noteq> U ''codex'' then None else do {
              kind \<leftarrow> json_get s (U ''kind'') \<bind> json_str;
              if kind \<noteq> U ''id'' then None else json_get s (U ''value'') \<bind> json_str } } }"

definition validate_agent_session ::
  "codex_session_hints \<Rightarrow> json option \<Rightarrow> caller_identity_conflict + codex_hint_verification" where
  "validate_agent_session h session =
     hints_validate h (authoritative_codex_session_from_value session)"

definition validate_pane_info ::
  "codex_session_hints \<Rightarrow> json \<Rightarrow> caller_identity_conflict + codex_hint_verification" where
  "validate_pane_info h pane = validate_agent_session h (json_get pane (U ''agent_session''))"

section \<open>Parties and the response of a send\<close>

record party =
  p_agent :: "ustr option"
  p_pane :: "ustr option"
  p_terminal_id :: "ustr option"
  p_agent_session :: "json option"
  p_workspace :: "ustr option"
  p_tab :: "ustr option"
  p_cwd :: "ustr option"
  p_branch :: "ustr option"
  p_git_sha :: "ustr option"
  p_identity_verification :: "codex_hint_verification option"

definition party_default :: party where
  "party_default = \<lparr>p_agent = None, p_pane = None, p_terminal_id = None, p_agent_session = None,
     p_workspace = None, p_tab = None, p_cwd = None, p_branch = None, p_git_sha = None,
     p_identity_verification = None\<rparr>"

datatype send_result = SrOk | SrFailed

datatype target_resolution = Resolved | NotFound | Ambiguous | Unknown

record send_error =
  se_code :: ustr
  se_message :: ustr
  se_context :: "json option"

record send_outcome =
  so_result :: send_result
  so_command :: send_command
  so_message_id :: ustr
  so_conversation_id :: "ustr option"
  so_conversation_seq :: "int option"
  so_body_hash :: "ustr option"
  so_runtime_session_id :: "ustr option"
  so_socket_namespace :: "ustr option"
  so_from :: party
  so_to :: party
  so_target_resolution :: target_resolution
  so_message_type :: "ustr option"
  so_delivery_status :: "delivery_status option"
  so_proof :: "ustr option" \<comment> \<open>\<open>Proof\<close> has the one field \<open>proof_source\<close>\<close>
  so_submitted_at :: "ustr option"
  so_error :: "send_error option"
  so_next :: ustr

definition send_outcome_ok ::
  "send_command \<Rightarrow> ustr \<Rightarrow> party \<Rightarrow> party \<Rightarrow> target_resolution \<Rightarrow> ustr option \<Rightarrow> ustr \<Rightarrow> ustr
   \<Rightarrow> send_outcome" where
  "send_outcome_ok command message_id from to target_resolution message_type proof submitted_at =
     (let ds = delivery_status_for command
      in \<lparr>so_result = SrOk, so_command = command, so_message_id = message_id,
          so_conversation_id = None, so_conversation_seq = None, so_body_hash = None,
          so_runtime_session_id = None, so_socket_namespace = None, so_from = from, so_to = to,
          so_target_resolution = target_resolution, so_message_type = message_type,
          so_delivery_status = Some ds, so_proof = Some proof, so_submitted_at = Some submitted_at,
          so_error = None,
          so_next = (case ds of
              DsSubmitted \<Rightarrow> U ''delivered (submitted); agent targets receive a visible Zynk header and can reply via `zynk reply`''
            | DsDrafted \<Rightarrow> U ''draft persisted; pane submit is deferred'')\<rparr>)"

definition send_outcome_failed ::
  "send_command \<Rightarrow> ustr \<Rightarrow> party \<Rightarrow> party \<Rightarrow> target_resolution \<Rightarrow> ustr option \<Rightarrow> send_error
   \<Rightarrow> send_outcome" where
  "send_outcome_failed command message_id from to target_resolution message_type error =
     \<lparr>so_result = SrFailed, so_command = command, so_message_id = message_id,
      so_conversation_id = None, so_conversation_seq = None, so_body_hash = None,
      so_runtime_session_id = None, so_socket_namespace = None, so_from = from, so_to = to,
      so_target_resolution = target_resolution, so_message_type = message_type,
      so_delivery_status = None, so_proof = None, so_submitted_at = None,
      so_error = Some error, so_next = U ''inspect the error and resend''\<rparr>"

definition with_persistence ::
  "send_outcome \<Rightarrow> ustr \<Rightarrow> int \<Rightarrow> ustr \<Rightarrow> ustr \<Rightarrow> ustr \<Rightarrow> send_outcome" where
  "with_persistence self conversation_id conversation_seq body_hash runtime_session_id socket_namespace =
     self\<lparr>so_conversation_id := Some conversation_id, so_conversation_seq := Some conversation_seq,
          so_body_hash := Some body_hash, so_runtime_session_id := Some runtime_session_id,
          so_socket_namespace := Some socket_namespace\<rparr>"

fun delivery_status_str :: "delivery_status \<Rightarrow> ustr" where
  "delivery_status_str DsSubmitted = U ''submitted''"
| "delivery_status_str DsDrafted = U ''drafted''"

fun send_result_str :: "send_result \<Rightarrow> ustr" where
  "send_result_str SrOk = U ''ok''"
| "send_result_str SrFailed = U ''failed''"

definition unwrap_or :: "'a option \<Rightarrow> 'a \<Rightarrow> 'a" where
  "unwrap_or v d = (case v of Some x \<Rightarrow> x | None \<Rightarrow> d)"

definition human :: "send_outcome \<Rightarrow> ustr" where
  "human self =
     (let status = unwrap_or (option_or (map_option delivery_status_str (so_delivery_status self))
            (map_option (\<lambda>e. U ''failed:'' @ se_code e) (so_error self))) []
      in send_result_str (so_result self) @ U '' ['' @ send_command_str (so_command self) @ U ''] ''
         @ unwrap_or (p_agent (so_from self)) (U ''?'') @ U '' -> ''
         @ unwrap_or (p_agent (so_to self)) (U ''?'') @ U '' ('' @ status @ U '') id=''
         @ so_message_id self)"

section \<open>Hashes and identifiers\<close>

type_synonym digest = "u8 list \<Rightarrow> u8 list"

definition lowercase_hex_sha256 :: "digest \<Rightarrow> u8 list \<Rightarrow> ustr" where
  "lowercase_hex_sha256 sha256 bytes = concat (map hex_byte (sha256 bytes))"

definition body_hash :: "digest \<Rightarrow> ustr \<Rightarrow> ustr" where
  "body_hash sha256 body = lowercase_hex_sha256 sha256 (as_bytes body)"

text \<open>
  \<open>new_prefixed_id\<close>: \<open>nanos\<close> is the clock reading (a \<open>u128\<close>), \<open>pid\<close> the process and \<open>seq\<close> the
  value of the process-wide counter \<open>SEQ\<close>, which is returned incremented. Slicing the digest to
  eight bytes panics when it is shorter, which a SHA-256 digest never is.
\<close>

definition new_prefixed_id :: "digest \<Rightarrow> nat \<Rightarrow> u32 \<Rightarrow> ustr \<Rightarrow> u64 \<Rightarrow> ustr \<times> u64" where
  "new_prefixed_id sha256 nanos pid prefix seq =
     (let d = sha256 (as_bytes prefix @ le_bytes 16 nanos @ le_bytes 4 (unat pid) @ le_bytes 8 (unat seq));
          hex = concat (map hex_byte (take 8 d))
      in (prefix @ U ''_'' @ hex, seq + 1))"

section \<open>Leading options\<close>

text \<open>
  The scan of \<open>parse_type_and_text\<close> and \<open>parse_type_trace_and_text\<close> over the remaining arguments.
\<close>

fun parse_type_and_text_from :: "ustr option \<Rightarrow> ustr list \<Rightarrow> ustr option \<times> ustr" where
  "parse_type_and_text_from ty [] = (ty, [])"
| "parse_type_and_text_from ty (a # rest) =
     (if a = U ''--type'' then
        (case rest of
           value # rest' \<Rightarrow> parse_type_and_text_from (Some value) rest'
         | [] \<Rightarrow> (ty, join (U '' '') (a # rest)))
      else if a = U ''--'' then (ty, join (U '' '') rest)
      else (ty, join (U '' '') (a # rest)))"

definition parse_type_and_text :: "ustr list \<Rightarrow> ustr option \<times> ustr" where
  "parse_type_and_text args = parse_type_and_text_from None args"

datatype trace_spec = Explicit ustr | Inherit

fun parse_type_trace_and_text_from ::
  "ustr option \<Rightarrow> trace_spec option \<Rightarrow> ustr list \<Rightarrow> ustr option \<times> trace_spec option \<times> ustr" where
  "parse_type_trace_and_text_from ty tr [] = (ty, tr, [])"
| "parse_type_trace_and_text_from ty tr (a # rest) =
     (if a = U ''--type'' then
        (case rest of
           value # rest' \<Rightarrow> parse_type_trace_and_text_from (Some value) tr rest'
         | [] \<Rightarrow> (ty, tr, join (U '' '') (a # rest)))
      else if a = U ''--trace'' then
        (case rest of
           value # rest' \<Rightarrow>
             parse_type_trace_and_text_from ty
               (Some (if value = U ''inherit'' then Inherit else Explicit value)) rest'
         | [] \<Rightarrow> (ty, tr, join (U '' '') (a # rest)))
      else if a = U ''--'' then (ty, tr, join (U '' '') rest)
      else (ty, tr, join (U '' '') (a # rest)))"

definition parse_type_trace_and_text ::
  "ustr list \<Rightarrow> ustr option \<times> trace_spec option \<times> ustr" where
  "parse_type_trace_and_text args = parse_type_trace_and_text_from None None args"

definition max_trace_id_len :: nat where
  "max_trace_id_len = 128"

definition validate_trace_id :: "ustr \<Rightarrow> (ustr \<times> ustr) + ustr" where
  "validate_trace_id raw =
     (let trimmed = trim raw; char_count = length trimmed
      in if trimmed = [] then
           Inl (U ''invalid_trace_id'',
                U ''--trace was given an empty value; provide a printable trace id or omit --trace'')
         else if max_trace_id_len < char_count then
           Inl (U ''invalid_trace_id'',
                U ''--trace id is '' @ dec char_count @ U '' chars; the maximum is '' @ dec max_trace_id_len)
         else case find is_control trimmed of
                Some bad \<Rightarrow>
                  Inl (U ''invalid_trace_id'',
                       U ''--trace id contains a disallowed control character (U+'' @ pad0 4 (upper_hex bad)
                       @ U ''); use printable chars only'')
              | None \<Rightarrow> Inr trimmed)"

section \<open>Resolution of source and target\<close>

definition info_str :: "json \<Rightarrow> ustr \<Rightarrow> ustr option" where
  "info_str info key = json_get info key \<bind> json_str"

definition party_from_pane_info :: "json \<Rightarrow> party" where
  "party_from_pane_info info =
     \<lparr>p_agent = info_str info (U ''agent''), p_pane = info_str info (U ''pane_id''),
      p_terminal_id = info_str info (U ''terminal_id''),
      p_agent_session = (case json_get info (U ''agent_session'') of
          Some v \<Rightarrow> if v = JNull then None else Some v | None \<Rightarrow> None),
      p_workspace = info_str info (U ''workspace_id''), p_tab = info_str info (U ''tab_id''),
      p_cwd = info_str info (U ''cwd''), p_branch = None, p_git_sha = None,
      p_identity_verification = None\<rparr>"

type_synonym git_runner = "ustr \<Rightarrow> ustr list \<Rightarrow> (bool \<times> ustr option) option"

definition git_capture :: "git_runner \<Rightarrow> ustr \<Rightarrow> ustr list \<Rightarrow> ustr option" where
  "git_capture run_git cwd args =
     do { (ok, stdout) \<leftarrow> run_git cwd args;
          if \<not> ok then None
          else do { s \<leftarrow> map_option trim stdout; if s = [] then None else Some s } }"

definition git_meta :: "git_runner \<Rightarrow> ustr \<Rightarrow> ustr option \<times> ustr option" where
  "git_meta run_git cwd =
     (let branch = (case git_capture run_git cwd [U ''rev-parse'', U ''--abbrev-ref'', U ''HEAD''] of
            Some b \<Rightarrow> if b \<noteq> U ''HEAD'' then Some b else None | None \<Rightarrow> None);
          sha = git_capture run_git cwd [U ''rev-parse'', U ''HEAD'']
      in (branch, sha))"

datatype api_method = PaneGet ustr | AgentGet ustr

record request =
  req_id :: ustr
  req_method :: api_method

type_synonym transport = "request \<Rightarrow> json option"

definition resolve_source :: "git_runner \<Rightarrow> transport \<Rightarrow> ustr option \<Rightarrow> party" where
  "resolve_source run_git send zynk_pane_id =
     (case zynk_pane_id of
        None \<Rightarrow> party_default
      | Some pane_id \<Rightarrow>
          (let party = (case send \<lparr>req_id = U ''zynk:resolve:source'', req_method = PaneGet pane_id\<rparr> of
                 Some value \<Rightarrow>
                   if json_get value (U ''error'') = None
                   then party_from_pane_info (json_index (json_index value (U ''result'')) (U ''pane''))
                   else party_default
               | None \<Rightarrow> party_default)
           in case p_cwd party of
                Some cwd \<Rightarrow>
                  (let (branch, sha) = git_meta run_git cwd
                   in party\<lparr>p_branch := branch, p_git_sha := sha\<rparr>)
              | None \<Rightarrow> party))"

definition resolve_source_with_hints ::
  "git_runner \<Rightarrow> transport \<Rightarrow> ustr option \<Rightarrow> codex_session_hints \<Rightarrow> caller_identity_conflict + party" where
  "resolve_source_with_hints run_git send zynk_pane_id hints =
     (let party = resolve_source run_git send zynk_pane_id
      in case validate_agent_session hints (p_agent_session party) of
           Inl e \<Rightarrow> Inl e
         | Inr verification \<Rightarrow>
             Inr (party\<lparr>p_identity_verification :=
               (case verification of NotPresent \<Rightarrow> None | _ \<Rightarrow> Some verification)\<rparr>))"

definition resolve_source_checked ::
  "git_runner \<Rightarrow> transport \<Rightarrow> ustr option \<Rightarrow> ustr option \<Rightarrow> ustr option
   \<Rightarrow> caller_identity_conflict + party" where
  "resolve_source_checked run_git send env_thread env_session zynk_pane_id =
     (case hints_from_values env_thread env_session of
        Inl e \<Rightarrow> Inl e
      | Inr hints \<Rightarrow> resolve_source_with_hints run_git send zynk_pane_id hints)"

definition resolve_target :: "transport \<Rightarrow> ustr \<Rightarrow> party \<times> target_resolution" where
  "resolve_target send target =
     (case send \<lparr>req_id = U ''zynk:resolve:target'', req_method = AgentGet target\<rparr> of
        Some value \<Rightarrow>
          (case json_get value (U ''error'') of
             Some error \<Rightarrow>
               (let code = unwrap_or (json_get error (U ''code'') \<bind> json_str) []
                in (party_default,
                    if code = U ''agent_target_ambiguous'' then Ambiguous else NotFound))
           | None \<Rightarrow>
               (party_from_pane_info (json_index (json_index value (U ''result'')) (U ''agent'')),
                Resolved))
      | None \<Rightarrow> (party_default, Unknown))"

section \<open>Correctness\<close>

lemma find_None_iff_list_all: "find P xs = None \<longleftrightarrow> list_all (\<lambda>x. \<not> P x) xs"
  unfolding find_None_iff list_all_iff by blast

text \<open>
  A trace identifier is accepted exactly when, trimmed, it is a non-empty string of at most
  128 characters without control characters, and then it is stored trimmed; everything else is
  refused with the code \<open>invalid_trace_id\<close>.
\<close>

theorem validate_trace_id_spec:
  "(validate_trace_id raw = Inr t \<longleftrightarrow>
      t = trim raw \<and> t \<noteq> [] \<and> length t \<le> 128 \<and> list_all (\<lambda>c. \<not> is_control c) t) \<and>
   (\<forall>e. validate_trace_id raw = Inl e \<longrightarrow> fst e = U ''invalid_trace_id'')"
proof (cases "find is_control (trim raw)")
  case None
  then have "list_all (\<lambda>c. \<not> is_control c) (trim raw)"
    using find_None_iff_list_all [of is_control "trim raw"] by simp
  with None show ?thesis
    by (auto simp: validate_trace_id_def Let_def max_trace_id_len_def)
next
  case (Some bad)
  then have "\<not> list_all (\<lambda>c. \<not> is_control c) (trim raw)"
    using find_None_iff_list_all [of is_control "trim raw"] by simp
  with Some show ?thesis
    by (auto simp: validate_trace_id_def Let_def max_trace_id_len_def)
qed

theorem validate_trace_id_spec_witness:
  "validate_trace_id (U '' t-1 '') = Inr (U ''t-1'') \<and>
   fst (U ''invalid_trace_id'', U ''--trace was given an empty value; provide a printable trace id or omit --trace'')
     = U ''invalid_trace_id''"
proof
  have "U ''t-1'' = trim (U '' t-1 '')" "U ''t-1'' \<noteq> []" "length (U ''t-1'') \<le> 128"
    "list_all (\<lambda>c. \<not> is_control c) (U ''t-1'')" by code_simp+
  with validate_trace_id_spec [of "U '' t-1 ''" "U ''t-1''"]
  show "validate_trace_id (U '' t-1 '') = Inr (U ''t-1'')" by blast
  have "validate_trace_id [] = Inl (U ''invalid_trace_id'',
    U ''--trace was given an empty value; provide a printable trace id or omit --trace'')" by code_simp
  with validate_trace_id_spec [of "[]" "[]"]
  show "fst (U ''invalid_trace_id'', U ''--trace was given an empty value; provide a printable trace id or omit --trace'')
     = U ''invalid_trace_id''" by blast
qed

text \<open>The command line a caller writes: options in any order and number, then \<open>--\<close> and the body.\<close>

datatype send_option = OptType ustr | OptTrace ustr

fun option_args :: "send_option \<Rightarrow> ustr list" where
  "option_args (OptType t) = [U ''--type'', t]"
| "option_args (OptTrace v) = [U ''--trace'', v]"

definition trace_value :: "ustr \<Rightarrow> trace_spec" where
  "trace_value v = (if v = U ''inherit'' then Inherit else Explicit v)"

definition last_type :: "ustr option \<Rightarrow> send_option list \<Rightarrow> ustr option" where
  "last_type d os = fold (\<lambda>o' acc. case o' of OptType t \<Rightarrow> Some t | OptTrace _ \<Rightarrow> acc) os d"

definition last_trace :: "trace_spec option \<Rightarrow> send_option list \<Rightarrow> trace_spec option" where
  "last_trace d os = fold (\<lambda>o' acc. case o' of OptTrace v \<Rightarrow> Some (trace_value v) | OptType _ \<Rightarrow> acc) os d"

lemma option_tokens_distinct:
  "U ''--type'' \<noteq> U ''--trace''" "U ''--trace'' \<noteq> U ''--type''" "U ''--'' \<noteq> U ''--type''"
  "U ''--'' \<noteq> U ''--trace''"
  by code_simp+

lemma parse_options_from:
  "parse_type_trace_and_text_from ty tr (concat (map option_args os) @ U ''--'' # body) =
     (last_type ty os, last_trace tr os, join (U '' '') body)"
proof (induction os arbitrary: ty tr)
  case Nil
  show ?case by (simp add: option_tokens_distinct last_type_def last_trace_def)
next
  case (Cons a os)
  then show ?case
    by (cases a) (simp_all add: option_tokens_distinct last_type_def last_trace_def trace_value_def)
qed

text \<open>
  C40. The leading options of a send are recovered from the command line: for any sequence of
  \<open>--type\<close> and \<open>--trace\<close> options followed by \<open>--\<close> and a body, the parser returns the last type,
  the last trace and the body words joined by spaces, even when the body itself contains
  \<open>--type\<close>, \<open>--trace\<close> or \<open>--\<close>.
\<close>

theorem parse_type_trace_and_text_roundtrip:
  "parse_type_trace_and_text (concat (map option_args os) @ U ''--'' # body) =
     (last_type None os, last_trace None os, join (U '' '') body)"
  unfolding parse_type_trace_and_text_def by (rule parse_options_from)

lemma parse_type_from_no_trace:
  "U ''--trace'' \<notin> set args \<Longrightarrow>
   parse_type_trace_and_text_from ty tr args =
     (let (t, b) = parse_type_and_text_from ty args in (t, tr, b))"
  by (induction ty args rule: parse_type_and_text_from.induct)
    (auto simp: option_tokens_distinct split: list.splits prod.splits)

text \<open>
  \<open>parse_type_trace_and_text\<close> generalises \<open>parse_type_and_text\<close>: on arguments without a
  \<open>--trace\<close> token both read the same type and the same body, and no trace.
\<close>

theorem parse_type_trace_generalises:
  assumes "U ''--trace'' \<notin> set args"
  shows "parse_type_trace_and_text args = (let (t, b) = parse_type_and_text args in (t, None, b))"
  unfolding parse_type_trace_and_text_def parse_type_and_text_def
  using assms by (rule parse_type_from_no_trace)

theorem parse_type_trace_generalises_witness:
  "parse_type_trace_and_text [U ''--type'', U ''task'', U ''go'', U ''--type''] =
     (Some (U ''task''), None, U ''go --type'')"
proof -
  have "U ''--trace'' \<notin> set [U ''--type'', U ''task'', U ''go'', U ''--type'']"
    "parse_type_and_text [U ''--type'', U ''task'', U ''go'', U ''--type''] = (Some (U ''task''), U ''go --type'')"
    by code_simp+
  with parse_type_trace_generalises show ?thesis by simp
qed

text \<open>
  Session hints constrain the caller and never select it: when the checked resolution
  succeeds, the party is the one the caller's pane resolves to, apart from the verification mark;
  it is marked verified exactly when a hint is present and equals the authoritative Codex session
  of that pane; and a hint that contradicts that session is refused.
\<close>

theorem hints_never_select_a_pane:
  "case resolve_source_checked run_git send env_thread env_session pane of
     Inr p \<Rightarrow>
       p\<lparr>p_identity_verification := None\<rparr> =
         (resolve_source run_git send pane)\<lparr>p_identity_verification := None\<rparr> \<and>
       (p_identity_verification p = Some Verified \<longleftrightarrow>
          option_or (nonempty env_thread) (nonempty env_session) \<noteq> None \<and>
          option_or (nonempty env_thread) (nonempty env_session) =
            authoritative_codex_session_from_value (p_agent_session p))
   | Inl e \<Rightarrow> cic_code e = caller_identity_conflict_code"
proof (cases "hints_from_values env_thread env_session")
  case (Inl e)
  then have "cic_code e = caller_identity_conflict_code"
    by (auto simp: hints_from_values_def Let_def split: option.splits if_splits)
  with Inl show ?thesis by (simp add: resolve_source_checked_def)
next
  case (Inr h)
  then have h: "hint_value h = option_or (nonempty env_thread) (nonempty env_session)"
    by (auto simp: hints_from_values_def Let_def option_or_def split: option.splits if_splits)
  let ?p = "resolve_source run_git send pane"
  have checked: "resolve_source_checked run_git send env_thread env_session pane =
      resolve_source_with_hints run_git send pane h"
    using Inr by (simp add: resolve_source_checked_def)
  show ?thesis
  proof (cases "hint_value h")
    case None
    then show ?thesis
      using h unfolding checked
      by (simp add: resolve_source_with_hints_def validate_agent_session_def hints_validate_def Let_def)
  next
    case (Some hint)
    then show ?thesis
      using h [symmetric] unfolding checked
      by (cases "authoritative_codex_session_from_value (p_agent_session ?p)")
        (simp_all add: resolve_source_with_hints_def validate_agent_session_def hints_validate_def Let_def)
  qed
qed

end
