(* ===== verification/Sqlite.thy ===== *)
theory Sqlite
  imports Message Float32
begin

text \<open>
  The database the message store runs on. The tables are those of \<open>migrations/zynk/*.sql\<close> with
  their keys, unique indexes, foreign keys and CHECK constraints, as lists of rows in insertion
  order. SQLite itself is not part of the repository: \<open>exec\<close> runs one statement, a pure function
  of the visible tables, on a connection; the environment decides which statements fail, with
  which error, and whether SQLite rolled the transaction back on that failure. A statement that
  fails changes no table. Inside a transaction the statements work on a private copy which
  \<open>COMMIT\<close> publishes; outside, a statement commits by itself. \<open>BEGIN IMMEDIATE\<close> holds the write
  lock, so no other connection changes the tables during a transaction.
\<close>

section \<open>Tables\<close>

record db_error =
  de_code :: ustr
  de_message :: ustr

record conversation_row =
  c_id :: ustr
  c_runtime :: ustr
  c_socket :: ustr
  c_workspace :: ustr
  c_tab :: ustr
  c_created_at :: ustr
  c_last_message_at :: ustr
  c_status :: ustr
  c_seq :: int
  c_meta :: ustr

record participant_row =
  pt_id :: ustr
  pt_conversation :: ustr
  pt_label :: ustr
  pt_pane :: "ustr option"
  pt_terminal :: "ustr option"
  pt_terminal_instance :: "ustr option"
  pt_source :: "ustr option"
  pt_kind :: "ustr option"
  pt_value :: "ustr option"
  pt_key :: ustr
  pt_joined_at :: ustr

record message_row =
  m_rowid :: nat
  m_id :: ustr
  m_conversation :: ustr
  m_seq :: int
  m_delivery_seq :: int
  m_parent :: "ustr option"
  m_runtime :: ustr
  m_socket :: ustr
  m_created_at :: ustr
  m_target_arg :: ustr
  m_from :: ustr
  m_to :: ustr
  m_type :: "ustr option"
  m_body :: ustr
  m_body_hash :: ustr
  m_workspace :: ustr
  m_tab :: ustr
  m_cwd :: "ustr option"
  m_foreground_cwd :: "ustr option"
  m_branch :: "ustr option"
  m_git_sha :: "ustr option"
  m_protocol :: ustr
  m_meta :: ustr

record event_row =
  e_id :: ustr
  e_message :: ustr
  e_type :: ustr
  e_proof :: ustr
  e_seq :: int
  e_timestamp :: ustr
  e_payload :: ustr

record fts_row =
  f_rowid :: nat
  f_body :: ustr
  f_type :: "ustr option"
  f_branch :: "ustr option"
  f_cwd :: "ustr option"
  f_target_arg :: ustr

record job_row =
  j_id :: ustr
  j_message :: ustr
  j_model :: ustr
  j_status :: ustr
  j_attempts :: int
  j_last_error :: "ustr option"
  j_enqueued_at :: ustr
  j_started_at :: "ustr option"
  j_finished_at :: "ustr option"

record embedding_row =
  em_message :: ustr
  em_model :: ustr
  em_rowid :: nat
  em_text_hash :: "ustr option"
  em_created_at :: ustr

record model_row =
  mo_id :: ustr
  mo_provider :: ustr
  mo_name :: ustr
  mo_dim :: nat
  mo_vec_table :: ustr
  mo_created_at :: ustr

record db =
  conversations :: "conversation_row list"
  participants :: "participant_row list"
  messages :: "message_row list"
  delivery_events :: "event_row list"
  messages_fts :: "fts_row list"
  embedding_jobs :: "job_row list"
  message_embeddings :: "embedding_row list"
  embedding_models :: "model_row list"
  vec_tables :: "(ustr \<times> nat) list" \<comment> \<open>name and dimension\<close>
  vec_rows :: "(ustr \<times> nat \<times> f32 list) list" \<comment> \<open>table, rowid, vector\<close>

definition empty_db :: db where
  "empty_db = \<lparr>conversations = [], participants = [], messages = [], delivery_events = [],
     messages_fts = [], embedding_jobs = [], message_embeddings = [], embedding_models = [],
     vec_tables = [], vec_rows = []\<rparr>"

section \<open>Connections\<close>

text \<open>
  What the process environment supplies: the digest, the clock reading of the \<open>n\<close>-th drawn
  identifier and the process id (for \<open>new_prefixed_id\<close>), the JSON writer of \<open>serde_json\<close>
  (\<open>json_encode\<close> may fail with a message, \<open>json_text\<close> is \<open>Display\<close> and cannot), SQLite's \<open>json_extract\<close>,
  which statements fail, the system clock, and whether the \<open>vec0\<close> extension replaces a row or
  reports a unique violation.
\<close>

record env =
  sha256 :: digest
  nanos :: "nat \<Rightarrow> nat"
  pid :: u32
  json_encode :: "json \<Rightarrow> ustr + ustr"
  json_text :: "json \<Rightarrow> ustr"
  json_extract :: "ustr \<Rightarrow> ustr \<Rightarrow> ustr option"
  fault :: "nat \<Rightarrow> (db_error \<times> bool) option"
  unix_secs :: "nat \<Rightarrow> int" \<comment> \<open>the clock, read before the \<open>n\<close>-th statement\<close>
  vec_replace :: bool \<comment> \<open>does \<open>vec0\<close> honour \<open>OR REPLACE\<close>\<close>
  debug_str :: "ustr \<Rightarrow> ustr" \<comment> \<open>\<open>Debug\<close> of \<open>str\<close>, for one error message\<close>

record conn =
  disk :: db
  txn :: "db option"
  stmts :: nat \<comment> \<open>statements run so far\<close>
  id_seq :: u64 \<comment> \<open>the process-wide counter \<open>SEQ\<close>\<close>

type_synonym 'a dbm = "conn \<Rightarrow> (db_error + 'a) \<times> conn"

definition dreturn :: "'a \<Rightarrow> 'a dbm" where
  "dreturn x c = (Inr x, c)"

definition dfail :: "ustr \<Rightarrow> ustr \<Rightarrow> 'a dbm" where
  "dfail code message c = (Inl \<lparr>de_code = code, de_message = message\<rparr>, c)"

definition dbind :: "'a dbm \<Rightarrow> ('a \<Rightarrow> 'b dbm) \<Rightarrow> 'b dbm" where
  "dbind m f c = (case m c of (Inr x, c') \<Rightarrow> f x c' | (Inl e, c') \<Rightarrow> (Inl e, c'))"

definition visible :: "conn \<Rightarrow> db" where
  "visible c = (case txn c of Some d \<Rightarrow> d | None \<Rightarrow> disk c)"

definition store :: "db \<Rightarrow> conn \<Rightarrow> conn" where
  "store d c = (case txn c of Some _ \<Rightarrow> c\<lparr>txn := Some d\<rparr> | None \<Rightarrow> c\<lparr>disk := d\<rparr>)"

type_synonym 'a stmt = "db \<Rightarrow> db_error + (db \<times> 'a)"

definition attempt :: "env \<Rightarrow> conn \<Rightarrow> (db_error option) \<times> conn" where
  "attempt E c =
     (let c1 = c\<lparr>stmts := stmts c + 1\<rparr>
      in case fault E (stmts c) of
           Some (e, rolled_back) \<Rightarrow> (Some e, if rolled_back then c1\<lparr>txn := None\<rparr> else c1)
         | None \<Rightarrow> (None, c1))"

definition exec :: "env \<Rightarrow> 'a stmt \<Rightarrow> 'a dbm" where
  "exec E f c =
     (case attempt E c of
        (Some e, c1) \<Rightarrow> (Inl e, c1)
      | (None, c1) \<Rightarrow>
          (case f (visible c1) of Inl e \<Rightarrow> (Inl e, c1) | Inr (d, x) \<Rightarrow> (Inr x, store d c1)))"

definition sql_error :: "ustr \<Rightarrow> db_error" where
  "sql_error msg = \<lparr>de_code = U ''db_error'', de_message = msg\<rparr>"

definition begin_immediate :: "env \<Rightarrow> unit dbm" where
  "begin_immediate E c =
     (case attempt E c of
        (Some e, c1) \<Rightarrow> (Inl e, c1)
      | (None, c1) \<Rightarrow>
          (case txn c1 of
             Some _ \<Rightarrow> (Inl (sql_error (U ''cannot start a transaction within a transaction'')), c1)
           | None \<Rightarrow> (Inr (), c1\<lparr>txn := Some (disk c1)\<rparr>)))"

definition commit :: "env \<Rightarrow> unit dbm" where
  "commit E c =
     (case attempt E c of
        (Some e, c1) \<Rightarrow> (Inl e, c1)
      | (None, c1) \<Rightarrow>
          (case txn c1 of
             Some d \<Rightarrow> (Inr (), c1\<lparr>disk := d, txn := None\<rparr>)
           | None \<Rightarrow> (Inl (sql_error (U ''cannot commit - no transaction is active'')), c1)))"

definition rollback :: "env \<Rightarrow> unit dbm" where
  "rollback E c =
     (case attempt E c of
        (Some e, c1) \<Rightarrow> (Inl e, c1)
      | (None, c1) \<Rightarrow>
          (case txn c1 of
             Some _ \<Rightarrow> (Inr (), c1\<lparr>txn := None\<rparr>)
           | None \<Rightarrow> (Inl (sql_error (U ''cannot rollback - no transaction is active'')), c1)))"

text \<open>Closing a connection abandons an open transaction; the close itself may report an error.\<close>

definition close :: "env \<Rightarrow> unit dbm" where
  "close E c =
     (case attempt E c of
        (Some e, c1) \<Rightarrow> (Inl e, c1\<lparr>txn := None\<rparr>)
      | (None, c1) \<Rightarrow> (Inr (), c1\<lparr>txn := None\<rparr>))"

text \<open>
  \<open>conn.execute("BEGIN IMMEDIATE")\<close>, the body, then \<open>COMMIT\<close> after success and a best-effort
  \<open>ROLLBACK\<close> after an error: the shape of the three transactional operations of
  \<open>persistence.rs\<close> and \<open>receipt.rs\<close>. A failing \<open>COMMIT\<close> is returned as it is.
\<close>

definition with_transaction :: "env \<Rightarrow> 'a dbm \<Rightarrow> 'a dbm" where
  "with_transaction E body =
     dbind (begin_immediate E) (\<lambda>_ c.
       (case body c of
          (Inr x, c1) \<Rightarrow> dbind (commit E) (\<lambda>_. dreturn x) c1
        | (Inl e, c1) \<Rightarrow> (Inl e, snd (rollback E c1))))"

definition now_rfc3339 :: "env \<Rightarrow> conn \<Rightarrow> ustr" where
  "now_rfc3339 E c = rfc3339_utc (max 0 (unix_secs E (stmts c)))"

text \<open>A statement whose parameters include the current time.\<close>

definition with_now :: "env \<Rightarrow> (ustr \<Rightarrow> 'a dbm) \<Rightarrow> 'a dbm" where
  "with_now E f c = f (now_rfc3339 E c) c"

definition draw_id :: "env \<Rightarrow> ustr \<Rightarrow> ustr dbm" where
  "draw_id E prefix c =
     (let (i, s) = new_prefixed_id (sha256 E) (nanos E (unat (id_seq c))) (pid E) prefix (id_seq c)
      in (Inr i, c\<lparr>id_seq := s\<rparr>))"

section \<open>Reasoning about transaction bodies\<close>

text \<open>
  \<open>triple P m Q\<close>: started in a transaction whose private tables satisfy \<open>P\<close>, the body \<open>m\<close> never
  touches the published tables; if it succeeds the transaction is still open and its tables
  satisfy \<open>Q\<close> of the result.
\<close>

definition triple :: "(db \<Rightarrow> bool) \<Rightarrow> 'a dbm \<Rightarrow> ('a \<Rightarrow> db \<Rightarrow> bool) \<Rightarrow> bool" where
  "triple P m Q \<longleftrightarrow>
     (\<forall>c d. txn c = Some d \<longrightarrow> P d \<longrightarrow>
        disk (snd (m c)) = disk c \<and>
        (\<forall>x. fst (m c) = Inr x \<longrightarrow> (\<exists>d'. txn (snd (m c)) = Some d' \<and> Q x d')))"

named_theorems hoare \<comment> \<open>rules for \<open>triple\<close>\<close>

lemma tripleI:
  "(\<And>c d. txn c = Some d \<Longrightarrow> P d \<Longrightarrow>
      disk (snd (m c)) = disk c \<and>
      (\<forall>x. fst (m c) = Inr x \<longrightarrow> (\<exists>d'. txn (snd (m c)) = Some d' \<and> Q x d'))) \<Longrightarrow> triple P m Q"
  by (simp add: triple_def)

lemma tripleD:
  assumes "triple P m Q" and "txn c = Some d" and "P d" and "m c = (r, c')"
  shows "disk c' = disk c \<and> (\<forall>x. r = Inr x \<longrightarrow> (\<exists>d'. txn c' = Some d' \<and> Q x d'))"
proof -
  have "disk (snd (m c)) = disk c \<and>
      (\<forall>x. fst (m c) = Inr x \<longrightarrow> (\<exists>d'. txn (snd (m c)) = Some d' \<and> Q x d'))"
    using assms(1-3) unfolding triple_def by blast
  with assms(4) show ?thesis by simp
qed

lemma triple_return [hoare]: "(\<And>d. P d \<Longrightarrow> Q x d) \<Longrightarrow> triple P (dreturn x) Q"
  by (auto simp: triple_def dreturn_def)

lemma triple_fail [hoare]: "triple P (dfail code msg) Q"
  by (auto simp: triple_def dfail_def)

lemma triple_bind [hoare]:
  assumes "triple P m R" and "\<And>x. triple (R x) (f x) Q"
  shows "triple P (dbind m f) Q"
proof (rule tripleI)
  fix c :: conn and d
  assume c: "txn c = Some d" "P d"
  obtain r c1 where m: "m c = (r, c1)" by fastforce
  note 1 = tripleD [OF assms(1) c m]
  show "disk (snd (dbind m f c)) = disk c \<and>
      (\<forall>x. fst (dbind m f c) = Inr x \<longrightarrow> (\<exists>d'. txn (snd (dbind m f c)) = Some d' \<and> Q x d'))"
  proof (cases r)
    case (Inl e)
    with 1 m show ?thesis by (simp add: dbind_def)
  next
    case (Inr x)
    with 1 obtain d' where d': "txn c1 = Some d'" "R x d'" by blast
    have "dbind m f c = f x c1" using Inr m by (simp add: dbind_def)
    with tripleD [OF assms(2) d', of "fst (f x c1)" "snd (f x c1)"] 1 show ?thesis by simp
  qed
qed

lemma triple_exec [hoare]:
  assumes "\<And>d d' x. P d \<Longrightarrow> f d = Inr (d', x) \<Longrightarrow> Q x d'"
  shows "triple P (exec E f) Q"
  using assms
  by (auto simp: triple_def exec_def attempt_def Let_def visible_def store_def
      split: option.splits sum.splits prod.splits if_splits)

lemma triple_draw_id [hoare]:
  assumes "\<And>d i. P d \<Longrightarrow> Q i d"
  shows "triple P (draw_id E prefix) Q"
  using assms by (auto simp: triple_def draw_id_def split: prod.splits)

lemma triple_with_now [hoare]: "(\<And>t. triple P (f t) Q) \<Longrightarrow> triple P (with_now E f) Q"
  unfolding triple_def with_now_def by blast

lemma triple_if [hoare]:
  "(b \<Longrightarrow> triple P m Q) \<Longrightarrow> (\<not> b \<Longrightarrow> triple P m' Q) \<Longrightarrow> triple P (if b then m else m') Q"
  by simp

lemma triple_option [hoare]:
  "(v = None \<Longrightarrow> triple P m Q) \<Longrightarrow> (\<And>x. v = Some x \<Longrightarrow> triple P (f x) Q) \<Longrightarrow>
   triple P (case v of None \<Rightarrow> m | Some x \<Rightarrow> f x) Q"
  by (cases v) auto

lemma triple_weaken: "triple P m R \<Longrightarrow> (\<And>x d. R x d \<Longrightarrow> Q x d) \<Longrightarrow> triple P m Q"
  unfolding triple_def by blast

lemma triple_pre: "triple P' m Q \<Longrightarrow> (\<And>d. P d \<Longrightarrow> P' d) \<Longrightarrow> triple P m Q"
  unfolding triple_def by blast

lemma triple_conj:
  "triple P m Q \<Longrightarrow> triple P' m Q' \<Longrightarrow> triple (\<lambda>d. P d \<and> P' d) m (\<lambda>x d. Q x d \<and> Q' x d)"
  unfolding triple_def by fastforce

lemma triple_sum [hoare]:
  "(\<And>e. v = Inl e \<Longrightarrow> triple P (f e) Q) \<Longrightarrow> (\<And>x. v = Inr x \<Longrightarrow> triple P (g x) Q) \<Longrightarrow>
   triple P (case v of Inl e \<Rightarrow> f e | Inr x \<Rightarrow> g x) Q"
  by (cases v) auto

text \<open>A triple holds when it holds from each state of its precondition.\<close>

lemma triple_at: "(\<And>d0. P d0 \<Longrightarrow> triple (\<lambda>d. d = d0) m Q) \<Longrightarrow> triple P m Q"
  unfolding triple_def by blast

lemma triple_exec_at: "(\<And>d' x. f d0 = Inr (d', x) \<Longrightarrow> Q x d') \<Longrightarrow> triple (\<lambda>d. d = d0) (exec E f) Q"
  by (rule triple_exec) simp

text \<open>A pure precondition can be assumed.\<close>

lemma triple_pure: "(b \<Longrightarrow> triple P m Q) \<Longrightarrow> triple (\<lambda>d. b \<and> P d) m Q"
  unfolding triple_def by blast

section \<open>Transactions\<close>

text \<open>
  The interface between a transaction and its body: \<open>transaction\<close> takes a body that respects a
  triple and promises atomicity. An operation that reports an error has published nothing; an
  operation that reports success has published tables that satisfy the postcondition; and in both
  cases an invariant of the published tables is kept.
\<close>

locale transaction =
  fixes body :: "env \<Rightarrow> 'a dbm" and pre :: "db \<Rightarrow> bool" and post :: "env \<Rightarrow> 'a \<Rightarrow> db \<Rightarrow> bool"
  assumes body_triple: "triple pre (body E) (post E)"
begin

lemma atomic:
  assumes "txn c = None" and "pre (disk c)"
  shows "case with_transaction E (body E) c of
    (Inl e, c') \<Rightarrow> disk c' = disk c
  | (Inr x, c') \<Rightarrow> txn c' = None \<and> post E x (disk c')"
proof (cases "begin_immediate E c")
  case (Pair r c0)
  show ?thesis
  proof (cases r)
    case (Inl e)
    with Pair have "disk c0 = disk c"
      by (auto simp: begin_immediate_def attempt_def Let_def split: option.splits if_splits prod.splits)
    with Pair Inl show ?thesis by (simp add: with_transaction_def dbind_def)
  next
    case (Inr u)
    with Pair assms have c0: "txn c0 = Some (disk c)" "disk c0 = disk c"
      by (auto simp: begin_immediate_def attempt_def Let_def split: option.splits if_splits prod.splits)
    obtain rb c1 where b: "body E c0 = (rb, c1)" by fastforce
    note fin = tripleD [OF body_triple c0(1) assms(2) b]
    have frame: "disk c1 = disk c" using fin c0(2) by simp
    show ?thesis
    proof (cases rb)
      case (Inl e)
      have "disk (snd (rollback E c1)) = disk c"
        using frame by (auto simp: rollback_def attempt_def Let_def split: option.splits)
      with Pair Inr b Inl show ?thesis by (simp add: with_transaction_def dbind_def)
    next
      case x: (Inr x)
      from fin x obtain d where d: "txn c1 = Some d" "post E x d" by auto
      show ?thesis
        using Pair Inr b x d frame
        by (auto simp: with_transaction_def dbind_def commit_def attempt_def dreturn_def Let_def
            split: option.splits)
    qed
  qed
qed

lemma keeps:
  assumes "txn c = None" and "pre (disk c)" and "\<And>x d. post E x d \<Longrightarrow> ok d" and "ok (disk c)"
  shows "ok (disk (snd (with_transaction E (body E) c)))"
  using atomic [OF assms(1,2), of E] assms(3,4)
  by (cases "with_transaction E (body E) c") (auto split: sum.splits)

end

section \<open>Runs without failures\<close>

text \<open>
  \<open>runs E m (d, k) x (d', k')\<close>: inside a transaction over the tables \<open>d\<close>, with the identifier
  counter at \<open>k\<close>, the body succeeds with \<open>x\<close>, leaving \<open>d'\<close> and \<open>k'\<close>.
\<close>

definition no_faults :: "env \<Rightarrow> bool" where
  "no_faults E \<longleftrightarrow> fault E = (\<lambda>_. None)"

definition runs :: "env \<Rightarrow> 'a dbm \<Rightarrow> db \<times> u64 \<Rightarrow> 'a \<Rightarrow> db \<times> u64 \<Rightarrow> bool" where
  "runs E m s x s' \<longleftrightarrow>
     (\<forall>c. txn c = Some (fst s) \<longrightarrow> id_seq c = snd s \<longrightarrow>
        (\<exists>c'. m c = (Inr x, c') \<and> txn c' = Some (fst s') \<and> id_seq c' = snd s' \<and> disk c' = disk c))"

lemma attempt_no_fault: "no_faults E \<Longrightarrow> attempt E c = (None, c\<lparr>stmts := stmts c + 1\<rparr>)"
  by (simp add: no_faults_def attempt_def)

lemma runs_return: "runs E (dreturn x) s x s"
  by (simp add: runs_def dreturn_def)

lemma runs_bind: "runs E m s x s1 \<Longrightarrow> runs E (f x) s1 y s2 \<Longrightarrow> runs E (dbind m f) s y s2"
  unfolding runs_def dbind_def by fastforce

lemma runs_exec: "no_faults E \<Longrightarrow> f d = Inr (d', x) \<Longrightarrow> runs E (exec E f) (d, k) x (d', k)"
  by (auto simp: runs_def exec_def attempt_no_fault visible_def store_def)

lemma runs_draw_id:
  "new_prefixed_id (sha256 E) (nanos E (unat k)) (pid E) prefix k = (i, k') \<Longrightarrow>
   runs E (draw_id E prefix) (d, k) i (d, k')"
  by (auto simp: runs_def draw_id_def)

lemma runs_transaction:
  assumes "no_faults E" and "txn c = None" and "runs E body (disk c, id_seq c) x (d', k')"
  shows "\<exists>c'. with_transaction E body c = (Inr x, c') \<and> disk c' = d' \<and> txn c' = None \<and> id_seq c' = k'"
proof -
  let ?c1 = "c\<lparr>stmts := stmts c + 1, txn := Some (disk c)\<rparr>"
  have b: "begin_immediate E c = (Inr (), ?c1)"
    using assms(1,2) by (simp add: begin_immediate_def attempt_no_fault)
  have "txn ?c1 = Some (disk c)" "id_seq ?c1 = id_seq c" by simp_all
  with assms(3) obtain c2 where c2: "body ?c1 = (Inr x, c2)" "txn c2 = Some d'" "id_seq c2 = k'"
    unfolding runs_def fst_conv snd_conv by blast
  then show ?thesis
    using b assms(1)
    by (simp add: with_transaction_def dbind_def commit_def attempt_no_fault dreturn_def)
qed

text \<open>A connection whose transaction was left open refuses every further transaction.\<close>

lemma open_transaction_refuses:
  assumes "txn c = Some d"
  shows "\<exists>e c'. with_transaction E body c = (Inl e, c') \<and> disk c' = disk c \<and> (no_faults E \<longrightarrow> txn c' = Some d)"
  using assms
  by (auto simp: with_transaction_def dbind_def begin_immediate_def attempt_def no_faults_def Let_def
      split: option.splits)

text \<open>A concrete environment for examples: constant digest and clock, chosen failures.\<close>

definition sample_env :: "(nat \<Rightarrow> (db_error \<times> bool) option) \<Rightarrow> env" where
  "sample_env f = \<lparr>sha256 = (\<lambda>_. replicate 32 0), nanos = (\<lambda>_. 0), pid = 1, json_encode = (\<lambda>_. Inr []),
     json_text = (\<lambda>_. []), json_extract = (\<lambda>_ _. None), fault = f,
     unix_secs = (\<lambda>_. 0), vec_replace = False, debug_str = id\<rparr>"

end
