(* ===== verification/Store.thy ===== *)
theory Store
  imports Sqlite
begin

text \<open>
  The persistence transactions of \<open>src/zynk/persistence.rs\<close>: a send attempt writes the
  conversation, its participants, the message, its full-text row and its embedding job; a
  delivery event advances the delivery history of a message. Every SQL statement of the source is
  one \<open>sql_\<close> definition, and each operation runs them in the order of the source. Sequence
  numbers are \<open>int\<close>: the \<open>i64\<close> columns count sends and events.
\<close>

section \<open>Records\<close>

record persisted_send =
  ps_message_id :: ustr
  ps_conversation_id :: ustr
  ps_conversation_seq :: int
  ps_body_hash :: ustr
  ps_runtime_session_id :: ustr
  ps_socket_namespace :: ustr
  ps_trace_id :: "ustr option"

record send_attempt =
  sa_command :: send_command
  sa_message_id :: ustr
  sa_target_arg :: ustr
  sa_from :: party
  sa_to :: party
  sa_message_type :: "ustr option"
  sa_body :: ustr
  sa_created_at :: ustr
  sa_trace_id :: "ustr option"

datatype delivery_event_type = Drafted | Submitted | Received | Failed

fun event_type_str :: "delivery_event_type \<Rightarrow> ustr" where
  "event_type_str Drafted = U ''drafted''"
| "event_type_str Submitted = U ''submitted''"
| "event_type_str Received = U ''received''"
| "event_type_str Failed = U ''failed''"

record delivery_event_input =
  de_message_id :: ustr
  de_event_type :: delivery_event_type
  de_proof_source :: ustr
  de_timestamp :: ustr
  de_payload :: json

record participant_fields_rec =
  pf_agent_label :: ustr
  pf_pane_id :: "ustr option"
  pf_terminal_id :: "ustr option"
  pf_terminal_instance_id :: "ustr option"
  pf_agent_session_source :: "ustr option"
  pf_agent_session_kind :: "ustr option"
  pf_agent_session_value :: "ustr option"
  pf_participant_key :: ustr

section \<open>Fields derived from a party\<close>

definition present :: "ustr option \<Rightarrow> bool" where
  "present v \<longleftrightarrow> (case v of Some s \<Rightarrow> trim s \<noteq> [] | None \<Rightarrow> False)"

definition scoped_field :: "ustr option \<Rightarrow> ustr" where
  "scoped_field v = (if present v then the v else U ''unknown'')"

definition session_fields :: "party \<Rightarrow> ustr option \<times> ustr option \<times> ustr option" where
  "session_fields p =
     (case p_agent_session p of
        None \<Rightarrow> (None, None, None)
      | Some v \<Rightarrow>
          (let owner = json_get v (U ''agent'') \<bind> json_str
           in if owner \<noteq> None \<and> p_agent p \<noteq> None \<and> owner \<noteq> p_agent p then (None, None, None)
              else let source = json_get v (U ''source'') \<bind> json_str;
                       kind = json_get v (U ''kind'') \<bind> json_str;
                       session_value = json_get v (U ''value'') \<bind> json_str
                   in if present source \<and> present kind \<and> present session_value
                      then (source, kind, session_value) else (None, None, None)))"

definition participant_fields :: "digest \<Rightarrow> party \<Rightarrow> participant_fields_rec" where
  "participant_fields sha p =
     (let (source, kind, session_value) = session_fields p;
          agent_label = (if present (p_agent p) then the (p_agent p)
            else case p_pane p of Some pane \<Rightarrow> U ''pane:'' @ pane | None \<Rightarrow> U ''unknown'');
          key = lowercase_hex_sha256 sha (as_bytes
            (U ''agent='' @ agent_label @ [0] @ U ''terminal='' @ unwrap_or (p_terminal_id p) [] @ [0]
             @ U ''source='' @ unwrap_or source [] @ [0] @ U ''kind='' @ unwrap_or kind [] @ [0]
             @ U ''session='' @ unwrap_or session_value []))
      in \<lparr>pf_agent_label = agent_label, pf_pane_id = p_pane p, pf_terminal_id = p_terminal_id p,
          pf_terminal_instance_id = None, pf_agent_session_source = source,
          pf_agent_session_kind = kind, pf_agent_session_value = session_value,
          pf_participant_key = key\<rparr>)"

definition protocol_id_fields ::
  "ustr \<Rightarrow> ustr \<Rightarrow> int \<Rightarrow> ustr \<Rightarrow> ustr \<Rightarrow> ustr \<Rightarrow> ustr option \<Rightarrow> (ustr \<times> json) list" where
  "protocol_id_fields message_id conversation_id seq runtime socket hash message_type =
     [(U ''v'', JNum 1), (U ''message_id'', JStr message_id),
      (U ''conversation_id'', JStr conversation_id), (U ''conversation_seq'', JNum seq),
      (U ''runtime_session_id'', JStr runtime), (U ''socket_namespace'', JStr socket),
      (U ''body_hash'', JStr hash)]
     @ (case message_type of Some t \<Rightarrow> [(U ''type'', JStr t)] | None \<Rightarrow> [])"

section \<open>Statements\<close>

definition in_scope :: "ustr \<Rightarrow> ustr \<Rightarrow> ustr \<Rightarrow> conversation_row \<Rightarrow> bool" where
  "in_scope socket workspace tab c \<longleftrightarrow>
     c_socket c = socket \<and> c_workspace c = workspace \<and> c_tab c = tab"

definition close_if_stale :: "ustr \<Rightarrow> ustr \<Rightarrow> ustr \<Rightarrow> ustr \<Rightarrow> ustr \<Rightarrow> conversation_row \<Rightarrow> conversation_row" where
  "close_if_stale at runtime socket workspace tab c =
     (if c_status c = U ''active'' \<and> in_scope socket workspace tab c \<and> c_runtime c \<noteq> runtime
      then c\<lparr>c_status := U ''closed'', c_last_message_at := at\<rparr> else c)"

definition sql_close_stale :: "ustr \<Rightarrow> ustr \<Rightarrow> ustr \<Rightarrow> ustr \<Rightarrow> ustr \<Rightarrow> unit stmt" where
  "sql_close_stale at runtime socket workspace tab d =
     Inr (d\<lparr>conversations := map (close_if_stale at runtime socket workspace tab) (conversations d)\<rparr>, ())"

definition sql_select_active :: "ustr \<Rightarrow> ustr \<Rightarrow> ustr \<Rightarrow> ustr \<Rightarrow> ustr option stmt" where
  "sql_select_active runtime socket workspace tab d =
     Inr (d, map_option c_id (find (\<lambda>c. c_status c = U ''active'' \<and> c_runtime c = runtime
        \<and> in_scope socket workspace tab c) (conversations d)))"

definition sql_insert_conversation :: "conversation_row \<Rightarrow> unit stmt" where
  "sql_insert_conversation row d =
     (if c_id row \<in> set (map c_id (conversations d))
         \<or> (c_status row = U ''active''
            \<and> (\<exists>c \<in> set (conversations d). c_status c = U ''active'' \<and> c_runtime c = c_runtime row
                 \<and> in_scope (c_socket row) (c_workspace row) (c_tab row) c))
      then Inl (sql_error (U ''UNIQUE constraint failed: conversations''))
      else Inr (d\<lparr>conversations := conversations d @ [row]\<rparr>, ()))"

definition sql_insert_or_ignore_participant :: "participant_row \<Rightarrow> unit stmt" where
  "sql_insert_or_ignore_participant row d =
     (if pt_id row \<in> set (map pt_id (participants d))
         \<or> (\<exists>p \<in> set (participants d). pt_conversation p = pt_conversation row \<and> pt_key p = pt_key row)
      then Inr (d, ())
      else if pt_conversation row \<notin> set (map c_id (conversations d))
      then Inl (sql_error (U ''FOREIGN KEY constraint failed''))
      else Inr (d\<lparr>participants := participants d @ [row]\<rparr>, ()))"

definition sql_select_participant :: "ustr \<Rightarrow> ustr \<Rightarrow> ustr stmt" where
  "sql_select_participant conversation key d =
     (case find (\<lambda>p. pt_conversation p = conversation \<and> pt_key p = key) (participants d) of
        Some p \<Rightarrow> Inr (d, pt_id p)
      | None \<Rightarrow> Inl (sql_error (U ''no rows returned by a query that expected to return at least one row'')))"

definition messages_from :: "db \<Rightarrow> ustr \<Rightarrow> ustr \<Rightarrow> message_row list" where
  "messages_from d conversation label =
     filter (\<lambda>m. m_conversation m = conversation
       \<and> (\<exists>p \<in> set (participants d). pt_id p = m_from m \<and> pt_label p = label)) (messages d)"

definition sql_latest_message_from_agent :: "ustr \<Rightarrow> ustr \<Rightarrow> ustr option stmt" where
  "sql_latest_message_from_agent conversation label d =
     Inr (d, map_option m_id (max_by_key m_seq (messages_from d conversation label)))"

definition sql_increment_seq :: "ustr \<Rightarrow> ustr \<Rightarrow> int stmt" where
  "sql_increment_seq conversation at d =
     (case find (\<lambda>c. c_id c = conversation) (conversations d) of
        None \<Rightarrow> Inl (sql_error (U ''no rows returned by a query that expected to return at least one row''))
      | Some c \<Rightarrow>
          Inr (d\<lparr>conversations := map (\<lambda>c. if c_id c = conversation
                  then c\<lparr>c_seq := c_seq c + 1, c_last_message_at := at\<rparr> else c) (conversations d)\<rparr>,
               c_seq c + 1))"

definition next_rowid :: "db \<Rightarrow> nat" where
  "next_rowid d = fold max (map m_rowid (messages d)) 0 + 1"

definition sql_insert_message :: "message_row \<Rightarrow> unit stmt" where
  "sql_insert_message row d =
     (if m_id row \<in> set (map m_id (messages d))
         \<or> (\<exists>m \<in> set (messages d). m_conversation m = m_conversation row \<and> m_seq m = m_seq row)
      then Inl (sql_error (U ''UNIQUE constraint failed: messages''))
      else if m_conversation row \<notin> set (map c_id (conversations d))
         \<or> m_from row \<notin> set (map pt_id (participants d)) \<or> m_to row \<notin> set (map pt_id (participants d))
         \<or> (case m_parent row of Some p \<Rightarrow> p \<notin> set (map m_id (messages d)) | None \<Rightarrow> False)
      then Inl (sql_error (U ''FOREIGN KEY constraint failed''))
      else Inr (d\<lparr>messages := messages d @ [row\<lparr>m_rowid := next_rowid d\<rparr>]\<rparr>, ()))"

definition sql_select_rowid :: "ustr \<Rightarrow> nat stmt" where
  "sql_select_rowid mid d =
     (case find (\<lambda>m. m_id m = mid) (messages d) of
        Some m \<Rightarrow> Inr (d, m_rowid m)
      | None \<Rightarrow> Inl (sql_error (U ''no rows returned by a query that expected to return at least one row'')))"

definition sql_insert_fts :: "fts_row \<Rightarrow> unit stmt" where
  "sql_insert_fts row d = Inr (d\<lparr>messages_fts := messages_fts d @ [row]\<rparr>, ())"

definition sql_insert_job :: "job_row \<Rightarrow> unit stmt" where
  "sql_insert_job row d =
     (if j_id row \<in> set (map j_id (embedding_jobs d))
         \<or> (\<exists>j \<in> set (embedding_jobs d). j_message j = j_message row \<and> j_model j = j_model row)
      then Inl (sql_error (U ''UNIQUE constraint failed: embedding_jobs''))
      else if j_message row \<notin> set (map m_id (messages d))
      then Inl (sql_error (U ''FOREIGN KEY constraint failed''))
      else Inr (d\<lparr>embedding_jobs := embedding_jobs d @ [row]\<rparr>, ()))"

definition events_of :: "db \<Rightarrow> ustr \<Rightarrow> event_row list" where
  "events_of d mid = filter (\<lambda>e. e_message e = mid) (delivery_events d)"

definition sql_latest_event_type :: "ustr \<Rightarrow> ustr option stmt" where
  "sql_latest_event_type mid d =
     Inr (d, map_option e_type (max_by_key e_seq (events_of d mid)))"

definition sql_bump_delivery_seq :: "ustr \<Rightarrow> int option stmt" where
  "sql_bump_delivery_seq mid d =
     (case find (\<lambda>m. m_id m = mid) (messages d) of
        None \<Rightarrow> Inr (d, None)
      | Some m \<Rightarrow>
          Inr (d\<lparr>messages := map (\<lambda>m. if m_id m = mid
                  then m\<lparr>m_delivery_seq := m_delivery_seq m + 1\<rparr> else m) (messages d)\<rparr>,
               Some (m_delivery_seq m + 1)))"

definition event_types :: "ustr list" where
  "event_types = map U [''drafted'', ''submitted'', ''received'', ''processed'', ''failed'']"

definition proof_sources :: "ustr list" where
  "proof_sources = map U [''pane.send_text'', ''pane.send_input'', ''pane.submit'', ''integration'',
     ''pane_tree'', ''operator'', ''system.recovery'', ''agent.prompt'']"

definition sql_insert_event :: "event_row \<Rightarrow> unit stmt" where
  "sql_insert_event row d =
     (if e_type row \<notin> set event_types \<or> e_proof row \<notin> set proof_sources
      then Inl (sql_error (U ''CHECK constraint failed''))
      else if e_id row \<in> set (map e_id (delivery_events d))
         \<or> (\<exists>e \<in> set (delivery_events d). e_message e = e_message row \<and> e_seq e = e_seq row)
      then Inl (sql_error (U ''UNIQUE constraint failed: delivery_events''))
      else if e_message row \<notin> set (map m_id (messages d))
      then Inl (sql_error (U ''FOREIGN KEY constraint failed''))
      else Inr (d\<lparr>delivery_events := delivery_events d @ [row]\<rparr>, ()))"

section \<open>Sending\<close>

definition ensure_active_conversation ::
  "env \<Rightarrow> ustr \<Rightarrow> ustr \<Rightarrow> ustr \<Rightarrow> ustr \<Rightarrow> ustr \<Rightarrow> ustr dbm" where
  "ensure_active_conversation E runtime socket workspace tab at =
     dbind (exec E (sql_close_stale at runtime socket workspace tab)) (\<lambda>_.
     dbind (exec E (sql_select_active runtime socket workspace tab)) (\<lambda>row.
       case row of
         Some i \<Rightarrow> dreturn i
       | None \<Rightarrow>
           dbind (draw_id E (U ''conv'')) (\<lambda>i.
           dbind (exec E (sql_insert_conversation
             \<lparr>c_id = i, c_runtime = runtime, c_socket = socket, c_workspace = workspace, c_tab = tab,
              c_created_at = at, c_last_message_at = at, c_status = U ''active'', c_seq = 0,
              c_meta = U ''{}''\<rparr>)) (\<lambda>_. dreturn i))))"

definition ensure_participant ::
  "env \<Rightarrow> ustr \<Rightarrow> participant_fields_rec \<Rightarrow> ustr \<Rightarrow> ustr dbm" where
  "ensure_participant E conversation pf joined_at =
     dbind (draw_id E (U ''part'')) (\<lambda>i.
     dbind (exec E (sql_insert_or_ignore_participant
       \<lparr>pt_id = i, pt_conversation = conversation, pt_label = pf_agent_label pf,
        pt_pane = pf_pane_id pf, pt_terminal = pf_terminal_id pf,
        pt_terminal_instance = pf_terminal_instance_id pf,
        pt_source = pf_agent_session_source pf, pt_kind = pf_agent_session_kind pf,
        pt_value = pf_agent_session_value pf, pt_key = pf_participant_key pf,
        pt_joined_at = joined_at\<rparr>)) (\<lambda>_.
     exec E (sql_select_participant conversation (pf_participant_key pf))))"

definition latest_message_from_agent :: "env \<Rightarrow> ustr \<Rightarrow> ustr \<Rightarrow> ustr option dbm" where
  "latest_message_from_agent E conversation label =
     exec E (sql_latest_message_from_agent conversation label)"

definition increment_conversation_seq :: "env \<Rightarrow> ustr \<Rightarrow> ustr \<Rightarrow> int dbm" where
  "increment_conversation_seq E conversation at = exec E (sql_increment_seq conversation at)"

text \<open>\<open>model\<close> is \<open>embed::active_model_id()\<close>, read from the process environment.\<close>

definition begin_send_attempt_in_transaction ::
  "env \<Rightarrow> ustr \<Rightarrow> send_attempt \<Rightarrow> ustr \<Rightarrow> ustr \<Rightarrow> persisted_send dbm" where
  "begin_send_attempt_in_transaction E model inp runtime socket =
     (let workspace = scoped_field (option_or (p_workspace (sa_to inp)) (p_workspace (sa_from inp)));
          tab = scoped_field (option_or (p_tab (sa_to inp)) (p_tab (sa_from inp)));
          from_fields = participant_fields (sha256 E) (sa_from inp);
          to_fields = participant_fields (sha256 E) (sa_to inp);
          at = sa_created_at inp
      in dbind (ensure_active_conversation E runtime socket workspace tab at) (\<lambda>conversation.
         dbind (ensure_participant E conversation from_fields at) (\<lambda>from_id.
         dbind (ensure_participant E conversation to_fields at) (\<lambda>to_id.
         dbind (latest_message_from_agent E conversation (pf_agent_label to_fields)) (\<lambda>parent.
         dbind (increment_conversation_seq E conversation at) (\<lambda>seq.
           let hash = body_hash (sha256 E) (sa_body inp);
               protocol = JObj (protocol_id_fields (sa_message_id inp) conversation seq runtime socket hash
                   (sa_message_type inp) @ [(U ''command'', JStr (send_command_str (sa_command inp)))])
           in case json_encode E protocol of
                Inl err \<Rightarrow> dfail (U ''json_encode_failed'') err
              | Inr protocol_json \<Rightarrow>
                 (let meta = (case sa_trace_id inp of
                        Some t \<Rightarrow> json_text E (JObj [(U ''trace_id'', JStr t)]) | None \<Rightarrow> U ''{}'')
                  in dbind (exec E (sql_insert_message
                       \<lparr>m_rowid = 0, m_id = sa_message_id inp, m_conversation = conversation, m_seq = seq,
                        m_delivery_seq = 0, m_parent = parent, m_runtime = runtime, m_socket = socket,
                        m_created_at = at, m_target_arg = sa_target_arg inp, m_from = from_id,
                        m_to = to_id, m_type = sa_message_type inp, m_body = sa_body inp,
                        m_body_hash = hash, m_workspace = workspace, m_tab = tab,
                        m_cwd = p_cwd (sa_from inp), m_foreground_cwd = p_cwd (sa_to inp),
                        m_branch = p_branch (sa_from inp), m_git_sha = p_git_sha (sa_from inp),
                        m_protocol = protocol_json, m_meta = meta\<rparr>)) (\<lambda>_.
                     dbind (exec E (sql_select_rowid (sa_message_id inp))) (\<lambda>rowid.
                     dbind (exec E (sql_insert_fts
                       \<lparr>f_rowid = rowid, f_body = sa_body inp, f_type = sa_message_type inp,
                        f_branch = p_branch (sa_from inp), f_cwd = p_cwd (sa_from inp),
                        f_target_arg = sa_target_arg inp\<rparr>)) (\<lambda>_.
                     dbind (draw_id E (U ''ejob'')) (\<lambda>job.
                     dbind (exec E (sql_insert_job
                       \<lparr>j_id = job, j_message = sa_message_id inp, j_model = model,
                        j_status = U ''pending'', j_attempts = 0, j_last_error = None,
                        j_enqueued_at = at, j_started_at = None, j_finished_at = None\<rparr>)) (\<lambda>_.
                     dreturn \<lparr>ps_message_id = sa_message_id inp, ps_conversation_id = conversation,
                       ps_conversation_seq = seq, ps_body_hash = hash, ps_runtime_session_id = runtime,
                       ps_socket_namespace = socket, ps_trace_id = sa_trace_id inp\<rparr>))))))))))))"

definition begin_send_attempt_async ::
  "env \<Rightarrow> ustr \<Rightarrow> send_attempt \<Rightarrow> ustr \<Rightarrow> ustr \<Rightarrow> persisted_send dbm" where
  "begin_send_attempt_async E model inp runtime socket =
     with_transaction E (begin_send_attempt_in_transaction E model inp runtime socket)"

definition attach_to_outcome :: "send_outcome \<Rightarrow> persisted_send \<Rightarrow> send_outcome" where
  "attach_to_outcome outcome rec =
     with_persistence outcome (ps_conversation_id rec) (ps_conversation_seq rec) (ps_body_hash rec)
       (ps_runtime_session_id rec) (ps_socket_namespace rec)"

section \<open>Delivery events\<close>

definition legacy_receipt_proof_source :: ustr where
  "legacy_receipt_proof_source = U ''integration''"

definition validate_delivery_transition :: "env \<Rightarrow> ustr \<Rightarrow> delivery_event_type \<Rightarrow> unit dbm" where
  "validate_delivery_transition E mid next =
     dbind (exec E (sql_latest_event_type mid)) (\<lambda>latest.
       case latest of
         None \<Rightarrow>
           (case next of
              Received \<Rightarrow> dfail (U ''invalid_delivery_transition'')
                (U ''cannot append received as the first delivery event; message was never submitted'')
            | _ \<Rightarrow> dreturn ())
       | Some current \<Rightarrow>
           (if (current = U ''drafted'' \<and> next = Failed) \<or> (current = U ''submitted'' \<and> next = Received)
            then dreturn ()
            else dfail (U ''invalid_delivery_transition'')
              (U ''cannot append '' @ event_type_str next @ U '' after '' @ current)))"

definition append_delivery_event_in_transaction :: "env \<Rightarrow> delivery_event_input \<Rightarrow> unit dbm" where
  "append_delivery_event_in_transaction E inp =
     (if de_proof_source inp = legacy_receipt_proof_source
      then dfail (U ''legacy_proof_source'') (U ''`'' @ legacy_receipt_proof_source
             @ U ''` is the pre-ADR-0014 receipt provenance and is never recorded by this build'')
      else dbind (validate_delivery_transition E (de_message_id inp) (de_event_type inp)) (\<lambda>_.
           dbind (exec E (sql_bump_delivery_seq (de_message_id inp))) (\<lambda>seq_row.
             case seq_row of
               None \<Rightarrow> dfail (U ''message_not_found'')
                 (U ''message '' @ de_message_id inp @ U '' not found for delivery event'')
             | Some seq \<Rightarrow>
                 (case json_encode E (de_payload inp) of
                    Inl err \<Rightarrow> dfail (U ''json_encode_failed'') err
                  | Inr payload \<Rightarrow>
                      dbind (draw_id E (U ''evt'')) (\<lambda>i.
                      exec E (sql_insert_event
                        \<lparr>e_id = i, e_message = de_message_id inp,
                         e_type = event_type_str (de_event_type inp), e_proof = de_proof_source inp,
                         e_seq = seq, e_timestamp = de_timestamp inp, e_payload = payload\<rparr>))))))"

definition append_delivery_event_async :: "env \<Rightarrow> delivery_event_input \<Rightarrow> unit dbm" where
  "append_delivery_event_async E inp =
     with_transaction E (append_delivery_event_in_transaction E inp)"

section \<open>Connections of the command line\<close>

definition close_connection :: "env \<Rightarrow> (db_error + 'a) \<times> conn \<Rightarrow> (db_error + 'a) \<times> conn" where
  "close_connection E rc =
     (let (closed, c') = close E (snd rc)
      in case fst rc of
           Inr v \<Rightarrow> (case closed of Inl e \<Rightarrow> (Inl e, c') | Inr _ \<Rightarrow> (Inr v, c'))
         | Inl e \<Rightarrow> (Inl e, c'))"

definition begin_send_attempt_with_connection ::
  "env \<Rightarrow> ustr \<Rightarrow> send_attempt \<Rightarrow> ustr \<Rightarrow> ustr \<Rightarrow> persisted_send dbm" where
  "begin_send_attempt_with_connection E model inp runtime socket c =
     close_connection E (begin_send_attempt_async E model inp runtime socket c)"

definition append_delivery_event_with_connection :: "env \<Rightarrow> delivery_event_input \<Rightarrow> unit dbm" where
  "append_delivery_event_with_connection E inp c =
     close_connection E (append_delivery_event_async E inp c)"

section \<open>Inherited traces\<close>

definition sql_latest_trace :: "env \<Rightarrow> ustr \<Rightarrow> ustr \<Rightarrow> ustr option stmt" where
  "sql_latest_trace E conversation label d =
     Inr (d, max_by_key m_seq (messages_from d conversation label)
             \<bind> (\<lambda>m. json_extract E (m_meta m) (U ''$.trace_id'')))"

definition parent_trace_id_async ::
  "env \<Rightarrow> ustr \<Rightarrow> ustr \<Rightarrow> ustr \<Rightarrow> ustr \<Rightarrow> ustr \<Rightarrow> ustr option dbm" where
  "parent_trace_id_async E runtime socket workspace tab to_label =
     dbind (exec E (sql_select_active runtime socket workspace tab)) (\<lambda>row.
       case row of
         None \<Rightarrow> dreturn None
       | Some conversation \<Rightarrow> exec E (sql_latest_trace E conversation to_label))"

definition resolve_parent_trace_id_with_connection ::
  "env \<Rightarrow> ustr \<Rightarrow> ustr \<Rightarrow> party \<Rightarrow> party \<Rightarrow> ustr option dbm" where
  "resolve_parent_trace_id_with_connection E runtime socket from to c =
     (let workspace = scoped_field (option_or (p_workspace to) (p_workspace from));
          tab = scoped_field (option_or (p_tab to) (p_tab from));
          to_label = pf_agent_label (participant_fields (sha256 E) to)
      in close_connection E (parent_trace_id_async E runtime socket workspace tab to_label c))"

section \<open>Payloads\<close>

definition failed_event_payload :: "ustr \<Rightarrow> json" where
  "failed_event_payload message = JObj [(U ''error'', JStr message)]"

definition empty_event_payload :: json where
  "empty_event_payload = JObj []"

definition transport_effect_context :: "ustr \<Rightarrow> ustr \<Rightarrow> json" where
  "transport_effect_context effect detail =
     JObj [(U ''transport_effect'', JStr effect), (U ''detail'', JStr detail)]"

end
