(* ===== verification/Store_Invariants.thy ===== *)
theory Store_Invariants
  imports Store
begin

text \<open>
  Correctness of the store: the invariant of the tables, the triples of the transaction bodies,
  atomicity of every operation under arbitrary statement failures, and the system of all clients
  that share the database.
\<close>

section \<open>Invariant\<close>

definition seqs_of :: "db \<Rightarrow> ustr \<Rightarrow> int list" where
  "seqs_of d i = map m_seq (filter (\<lambda>m. m_conversation m = i) (messages d))"

definition conv_seqs :: "db \<Rightarrow> (ustr \<times> int) list" where
  "conv_seqs d = map (\<lambda>c. (c_id c, c_seq c)) (conversations d)"

definition delivery_seqs :: "db \<Rightarrow> (ustr \<times> int) list" where
  "delivery_seqs d = map (\<lambda>m. (m_id m, m_delivery_seq m)) (messages d)"

definition history :: "db \<Rightarrow> ustr \<Rightarrow> ustr list" where
  "history d mid = map e_type (events_of d mid)"

definition legal_histories :: "ustr list set" where
  "legal_histories = {[], [U ''drafted''], [U ''submitted''], [U ''failed''],
     [U ''drafted'', U ''failed''], [U ''submitted'', U ''received'']}"

text \<open>Conversations: distinct ids and at most one active conversation per socket, workspace and tab.\<close>

definition conv_inv :: "db \<Rightarrow> bool" where
  "conv_inv d \<longleftrightarrow> distinct (map c_id (conversations d)) \<and>
     (\<forall>c \<in> set (conversations d). \<forall>c' \<in> set (conversations d).
        c_status c = U ''active'' \<longrightarrow> c_status c' = U ''active'' \<longrightarrow>
        in_scope (c_socket c) (c_workspace c) (c_tab c) c' \<longrightarrow> c_id c = c_id c')"

definition part_inv :: "db \<Rightarrow> bool" where
  "part_inv d \<longleftrightarrow> distinct (map pt_id (participants d)) \<and>
     (\<forall>p \<in> set (participants d). pt_conversation p \<in> fst ` set (conv_seqs d)) \<and>
     distinct (map (\<lambda>p. (pt_conversation p, pt_key p)) (participants d))"

text \<open>Messages: distinct ids, a conversation and two of its participants, and gapless sequence numbers.\<close>

definition msg_refs :: "db \<Rightarrow> bool" where
  "msg_refs d \<longleftrightarrow> distinct (map m_id (messages d)) \<and>
     (\<forall>m \<in> set (messages d). m_conversation m \<in> fst ` set (conv_seqs d) \<and>
        m_from m \<in> pt_id ` set (participants d) \<and> m_to m \<in> pt_id ` set (participants d))"

definition seq_inv :: "db \<Rightarrow> bool" where
  "seq_inv d \<longleftrightarrow> (\<forall>(i, n) \<in> set (conv_seqs d). 0 \<le> n \<and> seqs_of d i = [1..n])"

text \<open>Delivery events: gapless per message, and a legal history.\<close>

definition evt_inv :: "db \<Rightarrow> bool" where
  "evt_inv d \<longleftrightarrow> distinct (map e_id (delivery_events d)) \<and>
     (\<forall>e \<in> set (delivery_events d). e_message e \<in> fst ` set (delivery_seqs d)) \<and>
     (\<forall>(i, n) \<in> set (delivery_seqs d).
        0 \<le> n \<and> map e_seq (events_of d i) = [1..n] \<and> history d i \<in> legal_histories) \<and>
     (\<forall>e \<in> set (delivery_events d). e_proof e \<noteq> legacy_receipt_proof_source)"

text \<open>Every message is indexed for text search and has an embedding job.\<close>

definition idx_inv :: "db \<Rightarrow> bool" where
  "idx_inv d \<longleftrightarrow> distinct (map m_rowid (messages d)) \<and>
     (\<forall>m \<in> set (messages d).
        (\<exists>f \<in> set (messages_fts d). f_rowid f = m_rowid m \<and> f_body f = m_body m) \<and>
        (\<exists>j \<in> set (embedding_jobs d). j_message j = m_id m))"

definition store_inv :: "db \<Rightarrow> bool" where
  "store_inv d \<longleftrightarrow> conv_inv d \<and> part_inv d \<and> msg_refs d \<and> seq_inv d \<and> evt_inv d \<and> idx_inv d"

lemmas store_inv_defs = conv_inv_def part_inv_def msg_refs_def seq_inv_def evt_inv_def idx_inv_def

lemma store_inv_empty: "store_inv empty_db"
  by (simp add: store_inv_def store_inv_defs empty_db_def conv_seqs_def delivery_seqs_def)

text \<open>The tables a statement leaves alone.\<close>

definition same_messages :: "db \<Rightarrow> db \<Rightarrow> bool" where
  "same_messages d d' \<longleftrightarrow> messages d' = messages d \<and> delivery_events d' = delivery_events d \<and>
     messages_fts d' = messages_fts d \<and> embedding_jobs d' = embedding_jobs d"

lemma same_messages_refl [simp]: "same_messages d d"
  by (simp add: same_messages_def)

lemma same_messages_trans: "same_messages a b \<Longrightarrow> same_messages b c \<Longrightarrow> same_messages a c"
  by (simp add: same_messages_def)

lemma same_messages_views:
  assumes "same_messages d d'"
  shows "seqs_of d' i = seqs_of d i" "delivery_seqs d' = delivery_seqs d" "evt_inv d' = evt_inv d"
    "idx_inv d' = idx_inv d" "events_of d' i = events_of d i" "history d' i = history d i"
  using assms by (simp_all add: same_messages_def seqs_of_def delivery_seqs_def evt_inv_def idx_inv_def
      events_of_def history_def)

lemma conv_seqs_ids [simp]: "fst ` set (conv_seqs d) = c_id ` set (conversations d)"
  by (auto simp: conv_seqs_def image_iff)

lemma delivery_seqs_ids [simp]: "fst ` set (delivery_seqs d) = m_id ` set (messages d)"
  by (auto simp: delivery_seqs_def image_iff)

section \<open>The conversation of a send\<close>

definition active_in :: "ustr \<Rightarrow> ustr \<Rightarrow> ustr \<Rightarrow> ustr \<Rightarrow> conversation_row \<Rightarrow> bool" where
  "active_in runtime socket workspace tab c \<longleftrightarrow>
     c_status c = U ''active'' \<and> c_runtime c = runtime \<and> in_scope socket workspace tab c"

definition none_stale :: "ustr \<Rightarrow> ustr \<Rightarrow> ustr \<Rightarrow> ustr \<Rightarrow> db \<Rightarrow> bool" where
  "none_stale runtime socket workspace tab d \<longleftrightarrow>
     (\<forall>c \<in> set (conversations d).
        c_status c = U ''active'' \<longrightarrow> in_scope socket workspace tab c \<longrightarrow> c_runtime c = runtime)"

lemma active_neq_closed: "U ''closed'' \<noteq> U ''active''"
  by code_simp

lemma close_if_stale_frame [simp]:
  "c_id (close_if_stale at r s w t c) = c_id c" "c_seq (close_if_stale at r s w t c) = c_seq c"
  "c_socket (close_if_stale at r s w t c) = c_socket c"
  "c_workspace (close_if_stale at r s w t c) = c_workspace c"
  "c_tab (close_if_stale at r s w t c) = c_tab c"
  "c_runtime (close_if_stale at r s w t c) = c_runtime c"
  "in_scope s' w' t' (close_if_stale at r s w t c) = in_scope s' w' t' c"
  by (simp_all add: close_if_stale_def in_scope_def)

lemma close_if_stale_active [simp]:
  "c_status (close_if_stale at r s w t c) = U ''active'' \<longleftrightarrow>
     c_status c = U ''active'' \<and> \<not> (in_scope s w t c \<and> c_runtime c \<noteq> r)"
  using active_neq_closed by (auto simp: close_if_stale_def)

lemma close_stale_ids:
  assumes "sql_close_stale at runtime socket workspace tab d = Inr (d', x)"
  shows "same_messages d d' \<and> participants d' = participants d \<and> conv_seqs d' = conv_seqs d"
  using assms by (auto simp: sql_close_stale_def same_messages_def conv_seqs_def)

lemma close_stale_conv:
  assumes "sql_close_stale at runtime socket workspace tab d = Inr (d', x)" and "conv_inv d"
  shows "conv_inv d' \<and> none_stale runtime socket workspace tab d'"
proof -
  have d': "conversations d' = map (close_if_stale at runtime socket workspace tab) (conversations d)"
    using assms(1) by (auto simp: sql_close_stale_def)
  have ids: "map c_id (map (close_if_stale at runtime socket workspace tab) cs) = map c_id cs" for cs
    by simp
  show ?thesis using assms(2) unfolding conv_inv_def none_stale_def d' ids by auto
qed

lemma insert_conversation:
  assumes "sql_insert_conversation row d = Inr (d', x)" and "store_inv d"
    and "none_stale (c_runtime row) (c_socket row) (c_workspace row) (c_tab row) d"
    and "c_status row = U ''active''" and "c_seq row = 0"
  shows "store_inv d' \<and> same_messages d d' \<and> participants d' = participants d \<and>
    conversations d' = conversations d @ [row] \<and> c_id row \<notin> c_id ` set (conversations d)"
proof -
  have d': "d' = d\<lparr>conversations := conversations d @ [row]\<rparr>"
    and fresh: "c_id row \<notin> c_id ` set (conversations d)"
    and none: "\<And>c. c \<in> set (conversations d) \<Longrightarrow> c_status c = U ''active'' \<Longrightarrow>
        in_scope (c_socket row) (c_workspace row) (c_tab row) c \<Longrightarrow> c_runtime c \<noteq> c_runtime row"
    using assms(1,4) by (auto simp: sql_insert_conversation_def split: if_splits)
  have same: "same_messages d d'" by (simp add: d' same_messages_def)
  have alone: "\<not> in_scope (c_socket row) (c_workspace row) (c_tab row) c"
    if "c \<in> set (conversations d)" "c_status c = U ''active''" for c
    using that none assms(3) unfolding none_stale_def by blast
  have sym: "in_scope (c_socket row) (c_workspace row) (c_tab row) c"
    if "in_scope (c_socket c) (c_workspace c) (c_tab c) row" for c
    using that by (simp add: in_scope_def)
  have "c_id c = c_id c'"
    if "c \<in> set (conversations d')" "c' \<in> set (conversations d')" "c_status c = U ''active''"
      "c_status c' = U ''active''" "in_scope (c_socket c) (c_workspace c) (c_tab c) c'" for c c'
  proof (cases "c = row \<or> c' = row")
    case True
    with that alone [of c] alone [of c'] sym [of c] show ?thesis by (auto simp: d')
  next
    case False
    with that have "c \<in> set (conversations d)" "c' \<in> set (conversations d)" by (auto simp: d')
    with that assms(2) show ?thesis by (simp add: store_inv_def conv_inv_def)
  qed
  moreover have "distinct (map c_id (conversations d'))"
    using assms(2) fresh by (simp add: d' store_inv_def conv_inv_def)
  ultimately have "conv_inv d'" unfolding conv_inv_def by blast
  moreover have "seq_inv d'"
  proof -
    have "seqs_of d (c_id row) = []"
      using assms(2) fresh by (auto simp: store_inv_def msg_refs_def seqs_of_def filter_empty_conv) metis
    moreover have "conv_seqs d' = conv_seqs d @ [(c_id row, 0)]"
      using assms(5) by (simp add: d' conv_seqs_def)
    ultimately show ?thesis
      using assms(2) same_messages_views(1) [OF same] by (auto simp: store_inv_def seq_inv_def)
  qed
  moreover have "part_inv d'" "msg_refs d'"
    using assms(2) by (auto simp: store_inv_def part_inv_def msg_refs_def d')
  ultimately show ?thesis
    using assms(2) same same_messages_views(3,4) [OF same] fresh by (simp add: store_inv_def d')
qed

lemma store_inv_close_stale:
  assumes "sql_close_stale at runtime socket workspace tab d = Inr (d', x)" and "store_inv d"
  shows "store_inv d' \<and> none_stale runtime socket workspace tab d'"
proof -
  note ids = close_stale_ids [OF assms(1)]
  then have ids': "c_id ` set (conversations d') = c_id ` set (conversations d)"
    by (metis conv_seqs_ids)
  note views = same_messages_views [OF conjunct1 [OF ids]]
  have "part_inv d'" "msg_refs d'" "seq_inv d'"
    using assms(2) ids ids' views by (auto simp: store_inv_def part_inv_def msg_refs_def seq_inv_def same_messages_def)
  with close_stale_conv [OF assms(1)] assms(2) views show ?thesis by (simp add: store_inv_def)
qed

text \<open>The tables after the conversation of a send has been found or created.\<close>

definition conv_ready :: "ustr \<Rightarrow> ustr \<Rightarrow> ustr \<Rightarrow> ustr \<Rightarrow> db \<Rightarrow> ustr \<Rightarrow> db \<Rightarrow> bool" where
  "conv_ready runtime socket workspace tab d0 i d \<longleftrightarrow>
     store_inv d \<and> same_messages d0 d \<and> participants d = participants d0 \<and>
     (\<exists>c \<in> set (conversations d). c_id c = i \<and> active_in runtime socket workspace tab c) \<and>
     (conv_seqs d = conv_seqs d0 \<or> conv_seqs d = conv_seqs d0 @ [(i, 0)] \<and> i \<notin> c_id ` set (conversations d0))"

lemma triple_ensure_active_conversation:
  "triple (\<lambda>d. d = d0 \<and> store_inv d) (ensure_active_conversation E runtime socket workspace tab at)
     (conv_ready runtime socket workspace tab d0)"
proof -
  let ?stale = "\<lambda>d. store_inv d \<and> none_stale runtime socket workspace tab d \<and>
    same_messages d0 d \<and> participants d = participants d0 \<and> conv_seqs d = conv_seqs d0"
  have 1: "triple (\<lambda>d. d = d0 \<and> store_inv d) (exec E (sql_close_stale at runtime socket workspace tab)) (\<lambda>_. ?stale)"
    using store_inv_close_stale close_stale_ids by (intro triple_exec) blast
  have 2: "triple ?stale (exec E (sql_select_active runtime socket workspace tab))
      (\<lambda>row d. ?stale d \<and> (\<forall>i. row = Some i \<longrightarrow> conv_ready runtime socket workspace tab d0 i d))"
    by (intro triple_exec) (auto simp: sql_select_active_def conv_ready_def active_in_def dest!: find_SomeD)
  have 3: "triple ?stale (exec E (sql_insert_conversation
             \<lparr>c_id = i, c_runtime = runtime, c_socket = socket, c_workspace = workspace, c_tab = tab,
              c_created_at = at, c_last_message_at = at, c_status = U ''active'', c_seq = 0,
              c_meta = U ''{}''\<rparr>)) (\<lambda>_. conv_ready runtime socket workspace tab d0 i)" for i
  proof (rule triple_exec)
    fix d d' x
    let ?row = "\<lparr>c_id = i, c_runtime = runtime, c_socket = socket, c_workspace = workspace, c_tab = tab,
              c_created_at = at, c_last_message_at = at, c_status = U ''active'', c_seq = 0,
              c_meta = U ''{}''\<rparr>"
    assume s: "?stale d" and ins: "sql_insert_conversation ?row d = Inr (d', x)"
    from insert_conversation [OF ins] s have i: "store_inv d'" "same_messages d d'"
      "participants d' = participants d" "conversations d' = conversations d @ [?row]"
      "i \<notin> c_id ` set (conversations d)" by auto
    have "active_in runtime socket workspace tab ?row" by (simp add: active_in_def in_scope_def)
    moreover have "c_id ` set (conversations d) = c_id ` set (conversations d0)"
      using s by (metis conv_seqs_ids)
    moreover have "conv_seqs d' = conv_seqs d @ [(i, 0)]" using i(4) by (simp add: conv_seqs_def)
    ultimately show "conv_ready runtime socket workspace tab d0 i d'"
      using s i same_messages_trans by (auto simp: conv_ready_def)
  qed
  show ?thesis
    unfolding ensure_active_conversation_def
    apply (rule triple_bind [OF 1])
    apply (rule triple_bind [OF 2])
    apply (rule triple_option)
     apply (rule triple_pre [where P' = ?stale])
      apply (rule triple_bind [OF triple_draw_id [where Q = "\<lambda>_. ?stale"]], assumption)
      apply (rule triple_bind [OF 3])
      apply (rule triple_return, assumption)
     apply blast
    apply (rule triple_return, blast)
    done
qed

section \<open>The participants of a send\<close>

definition part_ready :: "db \<Rightarrow> ustr \<Rightarrow> ustr \<Rightarrow> ustr \<Rightarrow> db \<Rightarrow> bool" where
  "part_ready d0 conversation key i d \<longleftrightarrow>
     store_inv d \<and> same_messages d0 d \<and> conversations d = conversations d0 \<and>
     (\<exists>ps. participants d = participants d0 @ ps) \<and>
     (\<exists>p \<in> set (participants d). pt_id p = i \<and> pt_conversation p = conversation \<and> pt_key p = key)"

lemma insert_participant:
  assumes "sql_insert_or_ignore_participant row d = Inr (d', x)" and "store_inv d"
  shows "store_inv d' \<and> same_messages d d' \<and> conversations d' = conversations d \<and>
    (\<exists>ps. participants d' = participants d @ ps)"
proof (cases "d' = d")
  case True
  with assms show ?thesis by simp
next
  case False
  with assms(1) have d': "d' = d\<lparr>participants := participants d @ [row]\<rparr>"
    and fresh: "pt_id row \<notin> pt_id ` set (participants d)"
      "\<And>p. p \<in> set (participants d) \<Longrightarrow> \<not> (pt_conversation p = pt_conversation row \<and> pt_key p = pt_key row)"
      "pt_conversation row \<in> c_id ` set (conversations d)"
    by (auto simp: sql_insert_or_ignore_participant_def split: if_splits)
  have same: "same_messages d d'" by (simp add: d' same_messages_def)
  have "part_inv d'"
    using assms(2) fresh by (auto simp: store_inv_def part_inv_def d') blast
  moreover have "msg_refs d'" using assms(2) by (auto simp: store_inv_def msg_refs_def d')
  moreover have "conv_inv d'" "seq_inv d'"
    using assms(2) by (auto simp: store_inv_def conv_inv_def seq_inv_def seqs_of_def conv_seqs_def d')
  ultimately show ?thesis
    using assms(2) same same_messages_views(3,4) [OF same] by (simp add: store_inv_def d')
qed

lemma triple_ensure_participant:
  "triple (\<lambda>d. d = d0 \<and> store_inv d) (ensure_participant E conversation pf at)
     (part_ready d0 conversation (pf_participant_key pf))"
proof -
  let ?mid = "\<lambda>d. store_inv d \<and> same_messages d0 d \<and> conversations d = conversations d0 \<and>
     (\<exists>ps. participants d = participants d0 @ ps)"
  have 1: "triple (\<lambda>d. d = d0 \<and> store_inv d) (exec E (sql_insert_or_ignore_participant row)) (\<lambda>_. ?mid)" for row
    using insert_participant by (intro triple_exec) blast
  have 2: "triple ?mid (exec E (sql_select_participant conversation key)) (part_ready d0 conversation key)" for key
    by (intro triple_exec)
      (auto simp: sql_select_participant_def part_ready_def split: option.splits dest!: find_SomeD)
  show ?thesis
    unfolding ensure_participant_def
    by (rule triple_bind [OF triple_draw_id [where Q = "\<lambda>_ d. d = d0 \<and> store_inv d"]], assumption,
        rule triple_bind [OF 1], rule 2)
qed

section \<open>The message of a send\<close>

text \<open>
  Between taking the next number of the conversation and inserting the message, the conversation
  is one ahead of its messages.
\<close>

definition one_ahead :: "ustr \<Rightarrow> int \<Rightarrow> db \<Rightarrow> bool" where
  "one_ahead i n d \<longleftrightarrow> conv_inv d \<and> part_inv d \<and> msg_refs d \<and> evt_inv d \<and> idx_inv d \<and>
     1 \<le> n \<and> seqs_of d i = [1..n - 1] \<and> (i, n) \<in> set (conv_seqs d) \<and>
     (\<forall>(j, k) \<in> set (conv_seqs d). j \<noteq> i \<longrightarrow> 0 \<le> k \<and> seqs_of d j = [1..k])"

lemma conv_seqs_unique: "conv_inv d \<Longrightarrow> (i, n) \<in> set (conv_seqs d) \<Longrightarrow> (i, k) \<in> set (conv_seqs d) \<Longrightarrow> n = k"
  unfolding conv_inv_def conv_seqs_def by (auto dest: eq_key_imp_eq_value simp: distinct_map inj_on_def)

definition bump_conversation :: "ustr \<Rightarrow> ustr \<Rightarrow> conversation_row \<Rightarrow> conversation_row" where
  "bump_conversation i at c = (if c_id c = i then c\<lparr>c_seq := c_seq c + 1, c_last_message_at := at\<rparr> else c)"

lemma bump_conversation_frame [simp]:
  "c_id (bump_conversation i at c) = c_id c" "c_status (bump_conversation i at c) = c_status c"
  "c_socket (bump_conversation i at c) = c_socket c" "c_workspace (bump_conversation i at c) = c_workspace c"
  "c_tab (bump_conversation i at c) = c_tab c" "c_runtime (bump_conversation i at c) = c_runtime c"
  "in_scope s w t (bump_conversation i at c) = in_scope s w t c"
  "c_seq (bump_conversation i at c) = (if c_id c = i then c_seq c + 1 else c_seq c)"
  by (simp_all add: bump_conversation_def in_scope_def)

lemma increment_seq:
  assumes "sql_increment_seq i at d = Inr (d', n)" and "store_inv d"
  shows "one_ahead i n d' \<and> same_messages d d' \<and> participants d' = participants d \<and>
    conversations d' = map (bump_conversation i at) (conversations d) \<and> (i, n - 1) \<in> set (conv_seqs d)"
proof -
  from assms(1) obtain c where c: "c \<in> set (conversations d)" "c_id c = i" "n = c_seq c + 1"
    and convs: "conversations d' = map (bump_conversation i at) (conversations d)"
    and same: "same_messages d d'" "participants d' = participants d"
    by (auto simp: sql_increment_seq_def same_messages_def bump_conversation_def fun_eq_iff
        split: option.splits dest!: find_SomeD)
  have ids: "map c_id (map (bump_conversation i at) cs) = map c_id cs" for cs by simp
  have in_old: "(i, n - 1) \<in> set (conv_seqs d)" using c by (force simp: conv_seqs_def)
  have seqs: "conv_seqs d' = map (\<lambda>(j, k). (j, if j = i then k + 1 else k)) (conv_seqs d)"
    by (simp add: conv_seqs_def convs o_def)
  note views = same_messages_views [OF same(1)]
  have inv: "conv_inv d" "part_inv d" "msg_refs d" "seq_inv d" using assms(2) by (auto simp: store_inv_def)
  have "conv_inv d'" using inv(1) unfolding conv_inv_def convs ids by auto
  moreover have ids': "c_id ` set (conversations d') = c_id ` set (conversations d)"
    unfolding convs by (auto simp: image_iff)
  then have "part_inv d'" "msg_refs d'"
    using inv(2,3) same by (auto simp: part_inv_def msg_refs_def same_messages_def)
  moreover have "(i, n) \<in> set (conv_seqs d')" using in_old by (force simp: seqs)
  moreover have "1 \<le> n \<and> seqs_of d' i = [1..n - 1]"
    using inv(4) in_old views(1) by (auto simp: seq_inv_def)
  moreover have "\<forall>(j, k) \<in> set (conv_seqs d'). j \<noteq> i \<longrightarrow> 0 \<le> k \<and> seqs_of d' j = [1..k]"
    using inv(4) views(1) by (auto simp: seq_inv_def seqs)
  ultimately show ?thesis
    using assms(2) same views convs in_old by (simp add: one_ahead_def store_inv_def)
qed

lemma fold_max_ge: "(x::nat) \<in> set xs \<Longrightarrow> x \<le> fold max xs a"
proof (induction xs arbitrary: a)
  case (Cons y xs)
  have "b \<le> fold max xs b" for b
    by (induction xs arbitrary: b) (auto intro: order.trans [OF max.cobounded2])
  from this [of "max y a"] Cons show ?case by (auto intro: order.trans)
qed simp

lemma next_rowid_fresh: "next_rowid d \<notin> m_rowid ` set (messages d)"
  using fold_max_ge [of _ "map m_rowid (messages d)" 0] by (force simp: next_rowid_def)

definition add_message :: "message_row \<Rightarrow> fts_row \<Rightarrow> job_row \<Rightarrow> db \<Rightarrow> db" where
  "add_message row f j d =
     d\<lparr>messages := messages d @ [row\<lparr>m_rowid := next_rowid d\<rparr>],
       messages_fts := messages_fts d @ [f], embedding_jobs := embedding_jobs d @ [j]\<rparr>"

lemma add_message_inv:
  assumes ahead: "one_ahead (m_conversation row) (m_seq row) d"
    and fresh: "m_id row \<notin> m_id ` set (messages d)"
    and refs: "m_from row \<in> pt_id ` set (participants d)" "m_to row \<in> pt_id ` set (participants d)"
    and new: "m_delivery_seq row = 0" "f_rowid f = next_rowid d" "f_body f = m_body row" "j_message j = m_id row"
  shows "store_inv (add_message row f j d)"
proof -
  let ?d = "add_message row f j d" and ?i = "m_conversation row" and ?n = "m_seq row"
  have inv: "conv_inv d" "part_inv d" "msg_refs d" "evt_inv d" "idx_inv d"
    and n: "1 \<le> ?n" "seqs_of d ?i = [1..?n - 1]" "(?i, ?n) \<in> set (conv_seqs d)"
    and others: "\<And>j k. (j, k) \<in> set (conv_seqs d) \<Longrightarrow> j \<noteq> ?i \<Longrightarrow> 0 \<le> k \<and> seqs_of d j = [1..k]"
    using ahead by (auto simp: one_ahead_def)
  have cs: "conv_seqs ?d = conv_seqs d" by (simp add: add_message_def conv_seqs_def)
  have ids: "c_id ` set (conversations ?d) = c_id ` set (conversations d)" by (simp add: add_message_def)
  have "conv_inv ?d" "part_inv ?d"
    using inv(1,2) by (simp_all add: conv_inv_def part_inv_def add_message_def)
  moreover have "msg_refs ?d"
  proof -
    have "?i \<in> c_id ` set (conversations d)" using n(3) by (metis conv_seqs_ids fst_conv image_eqI)
    with inv(3) fresh refs show ?thesis by (auto simp: msg_refs_def add_message_def)
  qed
  moreover have "seq_inv ?d"
  proof -
    have "seqs_of ?d ?i = [1..?n - 1] @ [?n]" using n(2) by (simp add: add_message_def seqs_of_def)
    also have "\<dots> = [1..?n]" using n(1) by (simp add: upto_rec2)
    finally have "seqs_of ?d ?i = [1..?n]" .
    moreover have "seqs_of ?d j = seqs_of d j" if "j \<noteq> ?i" for j
      using that by (simp add: add_message_def seqs_of_def)
    moreover have "k = ?n" if "(?i, k) \<in> set (conv_seqs d)" for k
      using conv_seqs_unique [OF inv(1) n(3) that] by simp
    ultimately have "0 \<le> b \<and> seqs_of ?d a = [1..b]" if "(a, b) \<in> set (conv_seqs d)" for a b
      using that others [of a b] n(1) by (cases "a = ?i") auto
    then show ?thesis unfolding seq_inv_def cs by auto
  qed
  moreover have "evt_inv ?d"
  proof -
    have ev: "events_of ?d i = events_of d i" "history ?d i = history d i" for i
      by (simp_all add: add_message_def events_of_def history_def)
    have "events_of d (m_id row) = []"
      using inv(4) fresh by (auto simp: evt_inv_def events_of_def filter_empty_conv) metis
    then have "events_of ?d (m_id row) = []" "history ?d (m_id row) \<in> legal_histories"
      by (simp_all add: ev history_def legal_histories_def)
    moreover have "delivery_seqs ?d = delivery_seqs d @ [(m_id row, 0)]"
      using new(1) by (simp add: add_message_def delivery_seqs_def)
    moreover have "delivery_events ?d = delivery_events d" by (simp add: add_message_def)
    ultimately show ?thesis using inv(4) ev by (auto simp: evt_inv_def)
  qed
  moreover have "idx_inv ?d"
    using inv(5) next_rowid_fresh [of d] new by (auto simp: idx_inv_def add_message_def)
  ultimately show ?thesis by (simp add: store_inv_def)
qed

text \<open>What a successful send has written, seen from the tables \<open>d0\<close> before it.\<close>

definition sent :: "env \<Rightarrow> ustr \<Rightarrow> send_attempt \<Rightarrow> ustr \<Rightarrow> ustr \<Rightarrow> db \<Rightarrow> persisted_send \<Rightarrow> db \<Rightarrow> bool" where
  "sent E model inp runtime socket d0 r d \<longleftrightarrow>
     store_inv d \<and> delivery_events d = delivery_events d0 \<and>
     ps_message_id r = sa_message_id inp \<and> ps_body_hash r = body_hash (sha256 E) (sa_body inp) \<and>
     ps_runtime_session_id r = runtime \<and> ps_socket_namespace r = socket \<and> ps_trace_id r = sa_trace_id inp \<and>
     seqs_of d0 (ps_conversation_id r) = [1..ps_conversation_seq r - 1] \<and>
     (\<exists>c \<in> set (conversations d). c_id c = ps_conversation_id r \<and> c_seq c = ps_conversation_seq r \<and>
        active_in runtime socket
          (scoped_field (option_or (p_workspace (sa_to inp)) (p_workspace (sa_from inp))))
          (scoped_field (option_or (p_tab (sa_to inp)) (p_tab (sa_from inp)))) c) \<and>
     (\<exists>m. messages d = messages d0 @ [m] \<and> m_id m = sa_message_id inp \<and> m_body m = sa_body inp \<and>
        m_body_hash m = body_hash (sha256 E) (sa_body inp) \<and> m_type m = sa_message_type inp \<and>
        m_conversation m = ps_conversation_id r \<and> m_seq m = ps_conversation_seq r \<and>
        m_runtime m = runtime \<and> m_socket m = socket \<and> m_delivery_seq m = 0 \<and>
        m_meta m = (case sa_trace_id inp of
            Some t \<Rightarrow> json_text E (JObj [(U ''trace_id'', JStr t)]) | None \<Rightarrow> U ''{}'') \<and>
        (\<exists>p \<in> set (participants d). pt_id p = m_from m \<and> pt_conversation p = m_conversation m \<and>
           pt_key p = pf_participant_key (participant_fields (sha256 E) (sa_from inp))) \<and>
        (\<exists>p \<in> set (participants d). pt_id p = m_to m \<and> pt_conversation p = m_conversation m \<and>
           pt_key p = pf_participant_key (participant_fields (sha256 E) (sa_to inp))) \<and>
        (\<exists>f. messages_fts d = messages_fts d0 @ [f] \<and> f_rowid f = m_rowid m \<and> f_body f = sa_body inp) \<and>
        (\<exists>j. embedding_jobs d = embedding_jobs d0 @ [j] \<and> j_message j = sa_message_id inp \<and>
           j_model j = model \<and> j_status j = U ''pending'' \<and> j_attempts j = 0))"

text \<open>The statements after the sequence number has been taken.\<close>

lemma insert_message:
  assumes "sql_insert_message row d = Inr (d', x)"
  shows "d' = d\<lparr>messages := messages d @ [row\<lparr>m_rowid := next_rowid d\<rparr>]\<rparr>"
    "m_id row \<notin> m_id ` set (messages d)"
    "m_from row \<in> pt_id ` set (participants d)" "m_to row \<in> pt_id ` set (participants d)"
  using assms by (auto simp: sql_insert_message_def split: if_splits option.splits)

lemma find_last: "(\<And>x. x \<in> set xs \<Longrightarrow> \<not> P x) \<Longrightarrow> P y \<Longrightarrow> find P (xs @ [y]) = Some y"
  by (induction xs) auto

lemma select_rowid_new:
  assumes "m_id row \<notin> m_id ` set (messages d)"
    and "sql_select_rowid (m_id row) (d\<lparr>messages := messages d @ [row\<lparr>m_rowid := k\<rparr>]\<rparr>) = Inr (d', r)"
  shows "d' = d\<lparr>messages := messages d @ [row\<lparr>m_rowid := k\<rparr>]\<rparr> \<and> r = k"
proof -
  have "find (\<lambda>m. m_id m = m_id row) (messages d @ [row\<lparr>m_rowid := k\<rparr>]) = Some (row\<lparr>m_rowid := k\<rparr>)"
    using assms(1) by (intro find_last) (simp_all, metis image_eqI)
  with assms(2) show ?thesis by (auto simp: sql_select_rowid_def)
qed

lemma triple_write_message:
  assumes "\<And>f j. f_rowid f = next_rowid d \<Longrightarrow> f_body f = body \<Longrightarrow> j_message j = m_id row \<Longrightarrow>
      j_model j = model \<Longrightarrow> j_status j = U ''pending'' \<Longrightarrow> j_attempts j = 0 \<Longrightarrow>
      m_id row \<notin> m_id ` set (messages d) \<Longrightarrow> m_from row \<in> pt_id ` set (participants d) \<Longrightarrow>
      m_to row \<in> pt_id ` set (participants d) \<Longrightarrow> Q r (add_message row f j d)"
  shows "triple (\<lambda>d'. d' = d) (dbind (exec E (sql_insert_message row)) (\<lambda>_.
      dbind (exec E (sql_select_rowid (m_id row))) (\<lambda>rowid.
      dbind (exec E (sql_insert_fts \<lparr>f_rowid = rowid, f_body = body, f_type = ty, f_branch = br,
        f_cwd = cwd, f_target_arg = ta\<rparr>)) (\<lambda>_.
      dbind (draw_id E (U ''ejob'')) (\<lambda>job.
      dbind (exec E (sql_insert_job \<lparr>j_id = job, j_message = m_id row, j_model = model,
        j_status = U ''pending'', j_attempts = 0, j_last_error = None, j_enqueued_at = at,
        j_started_at = None, j_finished_at = None\<rparr>)) (\<lambda>_. dreturn r)))))) Q"
proof -
  let ?row = "row\<lparr>m_rowid := next_rowid d\<rparr>"
  let ?d1 = "d\<lparr>messages := messages d @ [?row]\<rparr>"
  let ?f = "\<lparr>f_rowid = next_rowid d, f_body = body, f_type = ty, f_branch = br, f_cwd = cwd, f_target_arg = ta\<rparr>"
  let ?ok = "m_id row \<notin> m_id ` set (messages d) \<and> m_from row \<in> pt_id ` set (participants d) \<and>
      m_to row \<in> pt_id ` set (participants d)"
  let ?d2 = "?d1\<lparr>messages_fts := messages_fts d @ [?f]\<rparr>"
  have 1: "triple (\<lambda>d'. d' = d) (exec E (sql_insert_message row)) (\<lambda>_ d'. ?ok \<and> d' = ?d1)"
    using insert_message [of row d] by (intro triple_exec_at) blast
  have 2: "triple (\<lambda>d'. ?ok \<and> d' = ?d1) (exec E (sql_select_rowid (m_id row)))
      (\<lambda>rowid d'. rowid = next_rowid d \<and> ?ok \<and> d' = ?d1)"
    using select_rowid_new [of row d "next_rowid d"] by (intro triple_exec) blast
  have 3: "triple (\<lambda>d'. rowid = next_rowid d \<and> ?ok \<and> d' = ?d1)
      (exec E (sql_insert_fts \<lparr>f_rowid = rowid, f_body = body, f_type = ty, f_branch = br,
        f_cwd = cwd, f_target_arg = ta\<rparr>)) (\<lambda>_ d'. ?ok \<and> d' = ?d2)" for rowid
    by (intro triple_exec) (auto simp: sql_insert_fts_def)
  have 4: "triple (\<lambda>d'. ?ok \<and> d' = ?d2) (exec E (sql_insert_job \<lparr>j_id = job, j_message = m_id row, j_model = model,
        j_status = U ''pending'', j_attempts = 0, j_last_error = None, j_enqueued_at = at,
        j_started_at = None, j_finished_at = None\<rparr>)) (\<lambda>_. Q r)" for job
    using assms [of ?f "\<lparr>j_id = job, j_message = m_id row, j_model = model,
        j_status = U ''pending'', j_attempts = 0, j_last_error = None, j_enqueued_at = at,
        j_started_at = None, j_finished_at = None\<rparr>"]
    by (intro triple_exec) (auto simp: sql_insert_job_def add_message_def split: if_splits)
  show ?thesis
    by (rule triple_bind [OF 1], rule triple_bind [OF 2], rule triple_bind [OF 3],
        rule triple_bind [OF triple_draw_id [where Q = "\<lambda>_ d'. ?ok \<and> d' = ?d2"]], assumption,
        rule triple_bind [OF 4], rule triple_return, assumption)
qed

lemma conv_seq_of: "conv_inv d \<Longrightarrow> c \<in> set (conversations d) \<Longrightarrow> (c_id c, n) \<in> set (conv_seqs d) \<Longrightarrow> c_seq c = n"
  using conv_seqs_unique [of d "c_id c" "c_seq c" n] by (auto simp: conv_seqs_def)

lemma seqs_of_absent: "msg_refs d \<Longrightarrow> i \<notin> c_id ` set (conversations d) \<Longrightarrow> seqs_of d i = []"
  by (auto simp: msg_refs_def seqs_of_def filter_empty_conv)

lemma triple_begin_send:
  "triple (\<lambda>d. d = d0 \<and> store_inv d) (begin_send_attempt_in_transaction E model inp runtime socket)
     (sent E model inp runtime socket d0)"
proof -
  let ?ws = "scoped_field (option_or (p_workspace (sa_to inp)) (p_workspace (sa_from inp)))"
  let ?tab = "scoped_field (option_or (p_tab (sa_to inp)) (p_tab (sa_from inp)))"
  let ?ff = "participant_fields (sha256 E) (sa_from inp)" and ?tf = "participant_fields (sha256 E) (sa_to inp)"
  let ?ready = "\<lambda>i d. conv_ready runtime socket ?ws ?tab d0 i d"
  let ?parts = "\<lambda>i f t d. store_inv d \<and> same_messages d0 d \<and>
     (\<exists>c \<in> set (conversations d). c_id c = i \<and> active_in runtime socket ?ws ?tab c) \<and>
     (\<exists>p \<in> set (participants d). pt_id p = f \<and> pt_conversation p = i \<and> pt_key p = pf_participant_key ?ff) \<and>
     (\<exists>p \<in> set (participants d). pt_id p = t \<and> pt_conversation p = i \<and> pt_key p = pf_participant_key ?tf)"
  have from_part: "triple (?ready i) (ensure_participant E i ?ff at)
      (\<lambda>f d. store_inv d \<and> same_messages d0 d \<and>
        (\<exists>c \<in> set (conversations d). c_id c = i \<and> active_in runtime socket ?ws ?tab c) \<and>
        (\<exists>p \<in> set (participants d). pt_id p = f \<and> pt_conversation p = i \<and> pt_key p = pf_participant_key ?ff))"
    (is "triple _ _ (?from i)") for i at
  proof (rule triple_at)
    fix d1
    assume "?ready i d1"
    then show "triple (\<lambda>d. d = d1) (ensure_participant E i ?ff at) (?from i)"
      using same_messages_trans
      by (intro triple_weaken [OF triple_pre [OF triple_ensure_participant [of d1]]])
        (auto simp: conv_ready_def part_ready_def)
  qed
  have to_part: "triple (?from i f) (ensure_participant E i ?tf at) (?parts i f)" for i f at
  proof (rule triple_at)
    fix d1
    assume "?from i f d1"
    then show "triple (\<lambda>d. d = d1) (ensure_participant E i ?tf at) (?parts i f)"
      using same_messages_trans
      by (intro triple_weaken [OF triple_pre [OF triple_ensure_participant [of d1]]])
        (auto simp: part_ready_def)
  qed
  have parent: "triple (?parts i f t) (latest_message_from_agent E i l) (\<lambda>_. ?parts i f t)" for i f t l
    unfolding latest_message_from_agent_def
    by (intro triple_exec) (auto simp: sql_latest_message_from_agent_def)
  let ?taken = "\<lambda>i f t n d. one_ahead i n d \<and> same_messages d0 d \<and>
     (\<exists>c \<in> set (conversations d). c_id c = i \<and> active_in runtime socket ?ws ?tab c) \<and>
     (\<exists>p \<in> set (participants d). pt_id p = f \<and> pt_conversation p = i \<and> pt_key p = pf_participant_key ?ff) \<and>
     (\<exists>p \<in> set (participants d). pt_id p = t \<and> pt_conversation p = i \<and> pt_key p = pf_participant_key ?tf)"
  have taken: "triple (?parts i f t) (increment_conversation_seq E i at) (?taken i f t)" for i f t at
    unfolding increment_conversation_seq_def
  proof (rule triple_exec)
    fix d d' n
    assume p: "?parts i f t d" and s: "sql_increment_seq i at d = Inr (d', n)"
    note inc = increment_seq [OF s conjunct1 [OF p]]
    from p obtain c where "c \<in> set (conversations d)" "c_id c = i" "active_in runtime socket ?ws ?tab c" by blast
    then have "bump_conversation i at c \<in> set (conversations d')" "c_id (bump_conversation i at c) = i"
      "active_in runtime socket ?ws ?tab (bump_conversation i at c)"
      using inc by (simp_all add: active_in_def)
    with p inc same_messages_trans [of d0 d d'] show "?taken i f t n d'" by metis
  qed
  let ?meta = "case sa_trace_id inp of
      Some t \<Rightarrow> json_text E (JObj [(U ''trace_id'', JStr t)]) | None \<Rightarrow> U ''{}''"
  let ?row = "\<lambda>i f t parent n pj. \<lparr>m_rowid = 0, m_id = sa_message_id inp, m_conversation = i, m_seq = n,
      m_delivery_seq = 0, m_parent = parent, m_runtime = runtime, m_socket = socket,
      m_created_at = sa_created_at inp, m_target_arg = sa_target_arg inp, m_from = f,
      m_to = t, m_type = sa_message_type inp, m_body = sa_body inp,
      m_body_hash = body_hash (sha256 E) (sa_body inp), m_workspace = ?ws, m_tab = ?tab,
      m_cwd = p_cwd (sa_from inp), m_foreground_cwd = p_cwd (sa_to inp),
      m_branch = p_branch (sa_from inp), m_git_sha = p_git_sha (sa_from inp),
      m_protocol = pj, m_meta = ?meta\<rparr>"
  let ?res = "\<lambda>i n. \<lparr>ps_message_id = sa_message_id inp, ps_conversation_id = i,
      ps_conversation_seq = n, ps_body_hash = body_hash (sha256 E) (sa_body inp),
      ps_runtime_session_id = runtime, ps_socket_namespace = socket, ps_trace_id = sa_trace_id inp\<rparr>"
  have written: "sent E model inp runtime socket d0 (?res i n) (add_message (?row i f t parent n pj) fr j d)"
    if "?taken i f t n d" and "sa_message_id inp \<notin> m_id ` set (messages d)"
      and "f \<in> pt_id ` set (participants d)" "t \<in> pt_id ` set (participants d)"
      and "f_rowid fr = next_rowid d" "f_body fr = sa_body inp" "j_message j = sa_message_id inp"
      "j_model j = model" "j_status j = U ''pending''" "j_attempts j = 0" for i f t parent n pj fr j d
  proof -
    have ahead: "one_ahead i n d" and same: "same_messages d0 d" using that(1) by auto
    have inv: "store_inv (add_message (?row i f t parent n pj) fr j d)"
      using that ahead by (intro add_message_inv) simp_all
    have "seqs_of d0 i = [1..n - 1]" using ahead same_messages_views(1) [OF same] by (simp add: one_ahead_def)
    moreover from that(1) obtain c where c: "c \<in> set (conversations d)" "c_id c = i" "active_in runtime socket ?ws ?tab c"
      by blast
    moreover have "c_seq c = n" using conv_seq_of [of d c n] c ahead by (simp add: one_ahead_def)
    ultimately show ?thesis
      using that(1,5-10) inv same unfolding sent_def
      by (simp add: add_message_def same_messages_def) blast
  qed
  have finish: "triple (?taken i f t n)
      (dbind (exec E (sql_insert_message (?row i f t parent n pj))) (\<lambda>_.
       dbind (exec E (sql_select_rowid (sa_message_id inp))) (\<lambda>rowid.
       dbind (exec E (sql_insert_fts \<lparr>f_rowid = rowid, f_body = sa_body inp, f_type = sa_message_type inp,
         f_branch = p_branch (sa_from inp), f_cwd = p_cwd (sa_from inp), f_target_arg = sa_target_arg inp\<rparr>)) (\<lambda>_.
       dbind (draw_id E (U ''ejob'')) (\<lambda>job.
       dbind (exec E (sql_insert_job \<lparr>j_id = job, j_message = sa_message_id inp, j_model = model,
         j_status = U ''pending'', j_attempts = 0, j_last_error = None, j_enqueued_at = sa_created_at inp,
         j_started_at = None, j_finished_at = None\<rparr>)) (\<lambda>_. dreturn (?res i n)))))))
      (sent E model inp runtime socket d0)" for i f t parent n pj
  proof (rule triple_at)
    fix d
    assume "?taken i f t n d"
    from triple_write_message [of d "sa_body inp" "?row i f t parent n pj" model
        "sent E model inp runtime socket d0" "?res i n" E] written [OF this]
    show "triple (\<lambda>d'. d' = d) (dbind (exec E (sql_insert_message (?row i f t parent n pj))) (\<lambda>_.
       dbind (exec E (sql_select_rowid (sa_message_id inp))) (\<lambda>rowid.
       dbind (exec E (sql_insert_fts \<lparr>f_rowid = rowid, f_body = sa_body inp, f_type = sa_message_type inp,
         f_branch = p_branch (sa_from inp), f_cwd = p_cwd (sa_from inp), f_target_arg = sa_target_arg inp\<rparr>)) (\<lambda>_.
       dbind (draw_id E (U ''ejob'')) (\<lambda>job.
       dbind (exec E (sql_insert_job \<lparr>j_id = job, j_message = sa_message_id inp, j_model = model,
         j_status = U ''pending'', j_attempts = 0, j_last_error = None, j_enqueued_at = sa_created_at inp,
         j_started_at = None, j_finished_at = None\<rparr>)) (\<lambda>_. dreturn (?res i n)))))))
      (sent E model inp runtime socket d0)" by simp
  qed
  show ?thesis
    unfolding begin_send_attempt_in_transaction_def Let_def
    by (rule triple_bind [OF triple_ensure_active_conversation], rule triple_bind [OF from_part],
        rule triple_bind [OF to_part], rule triple_bind [OF parent], rule triple_bind [OF taken],
        rule triple_sum, rule triple_fail, rule finish)
qed

section \<open>Delivery events\<close>

text \<open>The transitions the source allows, as a relation on histories.\<close>

definition may_append :: "ustr list \<Rightarrow> delivery_event_type \<Rightarrow> bool" where
  "may_append h t \<longleftrightarrow> (h = [] \<and> t \<noteq> Received) \<or>
     (h \<noteq> [] \<and> (last h = U ''drafted'' \<and> t = Failed \<or> last h = U ''submitted'' \<and> t = Received))"

lemma event_strings:
  "U ''drafted'' \<noteq> U ''submitted''" "U ''drafted'' \<noteq> U ''failed''" "U ''drafted'' \<noteq> U ''received''"
  "U ''submitted'' \<noteq> U ''failed''" "U ''submitted'' \<noteq> U ''received''" "U ''failed'' \<noteq> U ''received''"
  by code_simp+

lemma may_append_legal:
  "h \<in> legal_histories \<Longrightarrow> may_append h t \<Longrightarrow> h @ [event_type_str t] \<in> legal_histories"
  by (cases t) (auto simp: legal_histories_def may_append_def event_strings event_strings [symmetric])

lemma latest_event_type:
  assumes "evt_inv d"
  shows "map_option e_type (max_by_key e_seq (events_of d mid)) =
    (if history d mid = [] then None else Some (last (history d mid)))"
proof (cases "events_of d mid = []")
  case True
  then show ?thesis by (simp add: history_def)
next
  case False
  then obtain e where "e \<in> set (delivery_events d)" "e_message e = mid"
    by (auto simp: events_of_def filter_empty_conv)
  with assms have "mid \<in> fst ` set (delivery_seqs d)" by (auto simp: evt_inv_def)
  with assms obtain n where "map e_seq (events_of d mid) = [1..n]" by (fastforce simp: evt_inv_def)
  then have "sorted (map e_seq (events_of d mid))" by simp
  with False max_by_key_sorted [of e_seq "events_of d mid"] show ?thesis
    by (simp add: history_def last_map)
qed

lemma triple_validate:
  "triple (\<lambda>d. d = d0 \<and> store_inv d) (validate_delivery_transition E mid t)
     (\<lambda>_ d. d = d0 \<and> store_inv d \<and> may_append (history d0 mid) t)"
proof -
  have 1: "triple (\<lambda>d. d = d0 \<and> store_inv d) (exec E (sql_latest_event_type mid))
      (\<lambda>latest d. d = d0 \<and> store_inv d \<and>
        latest = (if history d0 mid = [] then None else Some (last (history d0 mid))))"
    by (intro triple_exec) (auto simp: sql_latest_event_type_def store_inv_def latest_event_type)
  show ?thesis
    unfolding validate_delivery_transition_def
  proof (rule triple_bind [OF 1], rule triple_option)
    fix latest :: "ustr option"
    assume "latest = None"
    then show "triple (\<lambda>d. d = d0 \<and> store_inv d \<and>
        latest = (if history d0 mid = [] then None else Some (last (history d0 mid))))
      (case t of Received \<Rightarrow> dfail (U ''invalid_delivery_transition'')
                (U ''cannot append received as the first delivery event; message was never submitted'')
            | _ \<Rightarrow> dreturn ()) (\<lambda>_ d. d = d0 \<and> store_inv d \<and> may_append (history d0 mid) t)"
      by (cases t) (auto intro!: triple_return triple_fail simp: may_append_def split: if_splits)
  next
    fix latest :: "ustr option" and current
    assume "latest = Some current"
    then show "triple (\<lambda>d. d = d0 \<and> store_inv d \<and>
        latest = (if history d0 mid = [] then None else Some (last (history d0 mid))))
      (if (current = U ''drafted'' \<and> t = Failed) \<or> (current = U ''submitted'' \<and> t = Received)
            then dreturn ()
            else dfail (U ''invalid_delivery_transition'')
              (U ''cannot append '' @ event_type_str t @ U '' after '' @ current))
      (\<lambda>_ d. d = d0 \<and> store_inv d \<and> may_append (history d0 mid) t)"
      by (auto intro!: triple_return triple_fail triple_if simp: may_append_def split: if_splits)
  qed
qed

definition bump_delivery :: "ustr \<Rightarrow> message_row \<Rightarrow> message_row" where
  "bump_delivery mid m = (if m_id m = mid then m\<lparr>m_delivery_seq := m_delivery_seq m + 1\<rparr> else m)"

lemma bump_delivery_frame [simp]:
  "m_id (bump_delivery i m) = m_id m" "m_conversation (bump_delivery i m) = m_conversation m"
  "m_seq (bump_delivery i m) = m_seq m" "m_from (bump_delivery i m) = m_from m"
  "m_to (bump_delivery i m) = m_to m" "m_rowid (bump_delivery i m) = m_rowid m"
  "m_body (bump_delivery i m) = m_body m" "m_meta (bump_delivery i m) = m_meta m"
  "m_body_hash (bump_delivery i m) = m_body_hash m" "m_runtime (bump_delivery i m) = m_runtime m"
  "m_socket (bump_delivery i m) = m_socket m"
  "m_delivery_seq (bump_delivery i m) = (if m_id m = i then m_delivery_seq m + 1 else m_delivery_seq m)"
  by (simp_all add: bump_delivery_def)

definition add_event :: "event_row \<Rightarrow> db \<Rightarrow> db" where
  "add_event e d = d\<lparr>messages := map (bump_delivery (e_message e)) (messages d),
     delivery_events := delivery_events d @ [e]\<rparr>"

lemma history_add_event:
  "history (add_event e d) i = history d i @ (if e_message e = i then [e_type e] else [])"
  by (simp add: history_def events_of_def add_event_def)

lemma add_event_frame [simp]:
  "delivery_events (add_event e d) = delivery_events d @ [e]" "conversations (add_event e d) = conversations d"
  "participants (add_event e d) = participants d"
  by (simp_all add: add_event_def)

lemma add_event_inv:
  assumes inv: "store_inv d" and m: "m \<in> set (messages d)" "m_id m = e_message e"
    and seq: "e_seq e = m_delivery_seq m + 1" and fresh: "e_id e \<notin> e_id ` set (delivery_events d)"
    and may: "may_append (history d (e_message e)) t" "e_type e = event_type_str t"
    and proof_src: "e_proof e \<noteq> legacy_receipt_proof_source"
  shows "store_inv (add_event e d)"
proof -
  let ?d = "add_event e d" and ?i = "e_message e"
  have parts: "conv_inv d" "part_inv d" "msg_refs d" "seq_inv d" "evt_inv d" "idx_inv d"
    using inv by (auto simp: store_inv_def)
  have ids: "map m_id (map (bump_delivery k) ms) = map m_id ms" for k ms by simp
  have rowids: "map m_rowid (map (bump_delivery k) ms) = map m_rowid ms" for k ms by simp
  have cs: "conv_seqs ?d = conv_seqs d" by (simp add: add_event_def conv_seqs_def)
  have seqs: "seqs_of ?d i = seqs_of d i" for i
    by (simp add: add_event_def seqs_of_def filter_map o_def)
  have "conv_inv ?d" "part_inv ?d"
    using parts(1,2) by (simp_all add: conv_inv_def part_inv_def add_event_def)
  moreover have "seq_inv ?d" using parts(4) unfolding seq_inv_def cs seqs .
  moreover have "msg_refs ?d"
    using parts(3) unfolding msg_refs_def add_event_def by (simp add: o_def)
  moreover have "idx_inv ?d"
    using parts(6) unfolding idx_inv_def add_event_def by (simp add: o_def)
  moreover have "evt_inv ?d"
  proof -
    have old: "(m_id m, m_delivery_seq m) \<in> set (delivery_seqs d)" using m(1) by (auto simp: delivery_seqs_def)
    have ds: "delivery_seqs ?d = map (\<lambda>(i, n). (i, if i = ?i then n + 1 else n)) (delivery_seqs d)"
      by (simp add: delivery_seqs_def add_event_def o_def)
    have uniq: "n = m_delivery_seq m" if "(?i, n) \<in> set (delivery_seqs d)" for n
    proof -
      from that obtain m' where "m' \<in> set (messages d)" "m_id m' = ?i" "n = m_delivery_seq m'"
        by (auto simp: delivery_seqs_def)
      moreover have "inj_on m_id (set (messages d))" using parts(3) by (simp add: msg_refs_def distinct_map)
      ultimately have "m' = m" using m by (metis inj_onD)
      with \<open>n = m_delivery_seq m'\<close> show ?thesis by simp
    qed
    have ok: "0 \<le> n \<and> map e_seq (events_of d i) = [1..n] \<and> history d i \<in> legal_histories"
      if "(i, n) \<in> set (delivery_seqs d)" for i n
      using that parts(5) by (auto simp: evt_inv_def)
    have new: "0 \<le> n' \<and> map e_seq (events_of ?d i) = [1..n'] \<and> history ?d i \<in> legal_histories"
      if "(i, n') \<in> set (delivery_seqs ?d)" for i n'
    proof (cases "i = ?i")
      case True
      with that ds uniq have n': "n' = m_delivery_seq m + 1" by auto
      have o: "0 \<le> m_delivery_seq m" "map e_seq (events_of d i) = [1..m_delivery_seq m]"
        "history d i \<in> legal_histories"
        using ok [OF old] m(2) True by auto
      have "map e_seq (events_of ?d i) = [1..m_delivery_seq m] @ [m_delivery_seq m + 1]"
        using o(2) True seq by (simp add: events_of_def add_event_def)
      also have "\<dots> = [1..n']" using o(1) n' upto_rec2 [of 1 "m_delivery_seq m + 1"] by simp
      finally show ?thesis
        using o n' True may_append_legal [of "history d i" t] may by (simp add: history_add_event)
    next
      case False
      with that ds have "(i, n') \<in> set (delivery_seqs d)" by auto
      moreover have "events_of ?d i = events_of d i" using False by (simp add: events_of_def add_event_def)
      ultimately show ?thesis using ok False by (simp add: history_add_event)
    qed
    have "?i \<in> m_id ` set (messages d)" using m by (metis image_eqI)
    then have "\<forall>x \<in> set (delivery_events ?d). e_message x \<in> fst ` set (delivery_seqs ?d)"
      using parts(5) by (auto simp: evt_inv_def add_event_def image_image)
    moreover have "distinct (map e_id (delivery_events ?d))"
      "\<forall>x \<in> set (delivery_events ?d). e_proof x \<noteq> legacy_receipt_proof_source"
      using parts(5) fresh proof_src by (auto simp: evt_inv_def add_event_def)
    ultimately show ?thesis using new unfolding evt_inv_def by blast
  qed
  ultimately show ?thesis by (simp add: store_inv_def)
qed

lemma history_legal: "store_inv d \<Longrightarrow> mid \<in> m_id ` set (messages d) \<Longrightarrow> history d mid \<in> legal_histories"
proof -
  assume inv: "store_inv d" and "mid \<in> m_id ` set (messages d)"
  then have "mid \<in> fst ` set (delivery_seqs d)" by simp
  then obtain n where "(mid, n) \<in> set (delivery_seqs d)" by (metis fst_conv imageE surj_pair)
  with inv show ?thesis by (auto simp: store_inv_def evt_inv_def)
qed

text \<open>What a successful append has written.\<close>

definition appended :: "delivery_event_input \<Rightarrow> db \<Rightarrow> db \<Rightarrow> bool" where
  "appended inp d0 d \<longleftrightarrow> store_inv d \<and> may_append (history d0 (de_message_id inp)) (de_event_type inp) \<and>
     de_proof_source inp \<noteq> legacy_receipt_proof_source \<and>
     (\<exists>e. d = add_event e d0 \<and> e_message e = de_message_id inp \<and>
        e_type e = event_type_str (de_event_type inp) \<and> e_proof e = de_proof_source inp \<and>
        e_timestamp e = de_timestamp inp \<and> e_message e \<in> m_id ` set (messages d0))"

lemma bump_delivery_seq:
  assumes "sql_bump_delivery_seq mid d = Inr (d', Some n)"
  shows "d' = d\<lparr>messages := map (bump_delivery mid) (messages d)\<rparr> \<and>
    (\<exists>m \<in> set (messages d). m_id m = mid \<and> n = m_delivery_seq m + 1)"
  using assms by (auto simp: sql_bump_delivery_seq_def bump_delivery_def fun_eq_iff
      split: option.splits dest!: find_SomeD)

lemma insert_event_appends:
  assumes ins: "sql_insert_event e (d\<lparr>messages := map (bump_delivery mid) (messages d)\<rparr>) = Inr (d', x)"
    and "e_message e = mid" and m: "m \<in> set (messages d)" "m_id m = mid" "e_seq e = m_delivery_seq m + 1"
    and "store_inv d" and "may_append (history d mid) t" and "e_type e = event_type_str t"
    and "e_proof e \<noteq> legacy_receipt_proof_source"
  shows "d' = add_event e d \<and> store_inv d'"
proof -
  have d': "d' = add_event e d" and fresh: "e_id e \<notin> e_id ` set (delivery_events d)"
    using ins assms(2) by (auto simp: sql_insert_event_def add_event_def split: if_splits)
  have "store_inv (add_event e d)"
    using assms fresh by (intro add_event_inv [of d m e t]) simp_all
  with d' show ?thesis by simp
qed

lemma triple_append_event:
  "triple (\<lambda>d. d = d0 \<and> store_inv d) (append_delivery_event_in_transaction E inp) (\<lambda>_. appended inp d0)"
proof -
  let ?mid = "de_message_id inp" and ?t = "de_event_type inp"
  let ?ok = "\<lambda>d. store_inv d0 \<and> may_append (history d0 ?mid) ?t \<and> d = d0"
  let ?bumped = "\<lambda>n d. store_inv d0 \<and> may_append (history d0 ?mid) ?t \<and>
      (\<forall>k. n = Some k \<longrightarrow> d = d0\<lparr>messages := map (bump_delivery ?mid) (messages d0)\<rparr> \<and>
        (\<exists>m \<in> set (messages d0). m_id m = ?mid \<and> k = m_delivery_seq m + 1))"
  have val: "triple (\<lambda>d. d = d0 \<and> store_inv d) (validate_delivery_transition E ?mid ?t) (\<lambda>_. ?ok)"
    by (rule triple_weaken [OF triple_validate]) blast
  have bump: "triple ?ok (exec E (sql_bump_delivery_seq ?mid)) ?bumped"
    using bump_delivery_seq [of ?mid d0] by (intro triple_exec) blast
  have ins: "triple (?bumped (Some k)) (exec E (sql_insert_event e)) (\<lambda>_. appended inp d0)"
    if "de_proof_source inp \<noteq> legacy_receipt_proof_source" and "e_message e = ?mid"
      "e_type e = event_type_str ?t" "e_proof e = de_proof_source inp" "e_seq e = k"
      "e_timestamp e = de_timestamp inp" for k e
  proof (rule triple_exec)
    fix d d' x
    assume b: "?bumped (Some k) d" and i: "sql_insert_event e d = Inr (d', x)"
    from b obtain m where m: "m \<in> set (messages d0)" "m_id m = ?mid" "k = m_delivery_seq m + 1" by blast
    have "d' = add_event e d0 \<and> store_inv d'"
    proof (rule insert_event_appends [OF _ that(2) m(1,2)])
      show "sql_insert_event e (d0\<lparr>messages := map (bump_delivery ?mid) (messages d0)\<rparr>) = Inr (d', x)"
        using b i by auto
      show "may_append (history d0 ?mid) ?t" "store_inv d0" using b by auto
    qed (use that m in simp_all)
    with b that m show "appended inp d0 d'" unfolding appended_def by (metis image_eqI)
  qed
  show ?thesis
    unfolding append_delivery_event_in_transaction_def
  proof (rule triple_if)
    assume src: "de_proof_source inp \<noteq> legacy_receipt_proof_source"
    have drawn: "triple (?bumped (Some k)) (draw_id E (U ''evt'')) (\<lambda>_. ?bumped (Some k))" for k
      by (rule triple_draw_id)
    have "triple (?bumped n) (case n of
        None \<Rightarrow> dfail (U ''message_not_found'') (U ''message '' @ ?mid @ U '' not found for delivery event'')
      | Some seq \<Rightarrow>
          (case json_encode E (de_payload inp) of
             Inl err \<Rightarrow> dfail (U ''json_encode_failed'') err
           | Inr payload \<Rightarrow>
               dbind (draw_id E (U ''evt'')) (\<lambda>i. exec E (sql_insert_event
                 \<lparr>e_id = i, e_message = ?mid, e_type = event_type_str ?t, e_proof = de_proof_source inp,
                  e_seq = seq, e_timestamp = de_timestamp inp, e_payload = payload\<rparr>)))) (\<lambda>_. appended inp d0)" for n
    proof (cases n)
      case None
      then show ?thesis by (simp add: triple_fail)
    next
      case (Some k)
      show ?thesis
        unfolding Some option.case
        by (rule triple_sum, rule triple_fail, rule triple_bind [OF drawn], rule ins)
          (simp_all add: src)
    qed
    then show "triple (\<lambda>d. d = d0 \<and> store_inv d)
       (dbind (validate_delivery_transition E ?mid ?t) (\<lambda>_.
        dbind (exec E (sql_bump_delivery_seq ?mid)) (\<lambda>n. case n of
        None \<Rightarrow> dfail (U ''message_not_found'') (U ''message '' @ ?mid @ U '' not found for delivery event'')
      | Some seq \<Rightarrow>
          (case json_encode E (de_payload inp) of
             Inl err \<Rightarrow> dfail (U ''json_encode_failed'') err
           | Inr payload \<Rightarrow>
               dbind (draw_id E (U ''evt'')) (\<lambda>i. exec E (sql_insert_event
                 \<lparr>e_id = i, e_message = ?mid, e_type = event_type_str ?t, e_proof = de_proof_source inp,
                  e_seq = seq, e_timestamp = de_timestamp inp, e_payload = payload\<rparr>)))))) (\<lambda>_. appended inp d0)"
      by (intro triple_bind [OF val] triple_bind [OF bump])
  qed (rule triple_fail)
qed

section \<open>Transactions of the store\<close>

interpretation send_tx: transaction
  "\<lambda>E. begin_send_attempt_in_transaction E model inp runtime socket"
  "\<lambda>d. d = d0 \<and> store_inv d" "\<lambda>E. sent E model inp runtime socket d0"
  for model inp runtime socket d0
  by unfold_locales (rule triple_begin_send)

interpretation event_tx: transaction
  "\<lambda>E. append_delivery_event_in_transaction E inp" "\<lambda>d. d = d0 \<and> store_inv d" "\<lambda>_ _. appended inp d0"
  for inp d0
  by unfold_locales (rule triple_append_event)

section \<open>Properties of the store\<close>

text \<open>
  C3. A send attempt is atomic and body-pure. Whatever statements fail, an attempt that reports an
  error has changed no table; one that reports success has added exactly one message, with the
  body as given, the hash of that body, the next sequence number of its conversation, the trace
  only in its metadata, its full-text row and one pending embedding job, in the one active
  conversation of its scope, and has touched no delivery event.
\<close>

theorem send_attempt_atomic:
  assumes "txn c = None" and "store_inv (disk c)"
  shows "case begin_send_attempt_async E model inp runtime socket c of
    (Inl e, c') \<Rightarrow> disk c' = disk c
  | (Inr r, c') \<Rightarrow> txn c' = None \<and> sent E model inp runtime socket (disk c) r (disk c')"
  unfolding begin_send_attempt_async_def
  by (rule send_tx.atomic [OF assms(1) conjI [OF refl assms(2)]])

definition fresh_conn :: conn where
  "fresh_conn = \<lparr>disk = empty_db, txn = None, stmts = 0, id_seq = 0\<rparr>"

definition sample_send :: send_attempt where
  "sample_send = \<lparr>sa_command = ZynkSend, sa_message_id = U ''m'', sa_target_arg = U ''codex'',
     sa_from = party_default\<lparr>p_agent := Some (U ''pi'')\<rparr>, sa_to = party_default\<lparr>p_agent := Some (U ''codex'')\<rparr>,
     sa_message_type = None, sa_body = U ''hi'', sa_created_at = U ''t'', sa_trace_id = Some (U ''x'')\<rparr>"

theorem send_attempt_atomic_witness:
  "\<exists>r. fst (begin_send_attempt_async (sample_env (\<lambda>n. if n = 3 then Some (sql_error [], True) else None))
       (U ''fake'') sample_send (U ''rt'') (U ''s'') fresh_conn) = Inl r \<and>
   disk (snd (begin_send_attempt_async (sample_env (\<lambda>n. if n = 3 then Some (sql_error [], True) else None))
       (U ''fake'') sample_send (U ''rt'') (U ''s'') fresh_conn)) = empty_db"
proof -
  let ?E = "sample_env (\<lambda>n. if n = 3 then Some (sql_error [], True) else None)"
  let ?run = "begin_send_attempt_async ?E (U ''fake'') sample_send (U ''rt'') (U ''s'') fresh_conn"
  have c: "txn fresh_conn = None" "store_inv (disk fresh_conn)"
    by (simp_all add: fresh_conn_def store_inv_empty)
  have "(case fst ?run of Inl e \<Rightarrow> True | Inr _ \<Rightarrow> False)" by code_simp
  then obtain e c' where run: "?run = (Inl e, c')" by (cases ?run) (auto split: sum.splits)
  have "disk c' = disk fresh_conn"
    using send_attempt_atomic [OF c, where E = ?E and model = "U ''fake''" and inp = sample_send
      and runtime = "U ''rt''" and socket = "U ''s''"]
    unfolding run prod.case sum.case .
  then show ?thesis unfolding run by (simp add: fresh_conn_def)
qed

text \<open>
  C4. A delivery event is appended only as a legal step. Whatever statements fail, an append that
  reports an error has changed no table; one that reports success was allowed by the history of
  an existing message, which is now longer by exactly that event while the history of every other
  message is unchanged, and the history stays one of the six legal ones.
\<close>

theorem delivery_event_append:
  assumes "txn c = None" and "store_inv (disk c)"
  shows "case append_delivery_event_async E inp c of
    (Inl e, c') \<Rightarrow> disk c' = disk c
  | (Inr _, c') \<Rightarrow> txn c' = None \<and> store_inv (disk c') \<and>
      de_message_id inp \<in> m_id ` set (messages (disk c)) \<and>
      may_append (history (disk c) (de_message_id inp)) (de_event_type inp) \<and>
      (\<forall>i. history (disk c') i = history (disk c) i @
         (if i = de_message_id inp then [event_type_str (de_event_type inp)] else [])) \<and>
      history (disk c') (de_message_id inp) \<in> legal_histories"
proof -
  obtain res c' where run: "append_delivery_event_async E inp c = (res, c')" by fastforce
  note at = event_tx.atomic [OF assms(1) conjI [OF refl assms(2)], where E = E and inp = inp,
      folded append_delivery_event_async_def, unfolded run prod.case]
  show ?thesis
  proof (cases res)
    case (Inl e)
    with at run show ?thesis by simp
  next
    case (Inr u)
    with at have t: "txn c' = None" and a: "appended inp (disk c) (disk c')" by simp_all
    from a obtain e where e: "disk c' = add_event e (disk c)" "e_message e = de_message_id inp"
      "e_type e = event_type_str (de_event_type inp)" "e_message e \<in> m_id ` set (messages (disk c))"
      unfolding appended_def by blast
    have "de_message_id inp \<in> m_id ` set (messages (disk c'))"
      using e(2,4) by (simp add: e(1) add_event_def image_image)
    moreover have "store_inv (disk c')" using a by (simp add: appended_def)
    ultimately have "history (disk c') (de_message_id inp) \<in> legal_histories" by (intro history_legal)
    with run Inr t a e show ?thesis by (simp add: appended_def history_add_event)
  qed
qed

theorem delivery_event_append_witness:
  "disk (snd (append_delivery_event_async (sample_env (\<lambda>_. None))
     \<lparr>de_message_id = U ''m'', de_event_type = Received, de_proof_source = U ''pane_tree'',
      de_timestamp = U ''t'', de_payload = JNull\<rparr> fresh_conn)) = empty_db"
proof -
  let ?in = "\<lparr>de_message_id = U ''m'', de_event_type = Received, de_proof_source = U ''pane_tree'',
      de_timestamp = U ''t'', de_payload = JNull\<rparr>"
  let ?run = "append_delivery_event_async (sample_env (\<lambda>_. None)) ?in fresh_conn"
  have c: "txn fresh_conn = None" "store_inv (disk fresh_conn)"
    by (simp_all add: fresh_conn_def store_inv_empty)
  have "(case fst ?run of Inl e \<Rightarrow> True | Inr _ \<Rightarrow> False)" by code_simp
  then obtain e c' where run: "?run = (Inl e, c')" by (cases ?run) (auto split: sum.splits)
  have "disk c' = disk fresh_conn"
    using delivery_event_append [OF c, where E = "sample_env (\<lambda>_. None)" and inp = ?in]
    unfolding run prod.case sum.case .
  then show ?thesis unfolding run by (simp add: fresh_conn_def)
qed

end
