(* ===== verification/Embedding.thy ===== *)
theory Embedding
  imports Store_Invariants
begin

text \<open>
  The embedding worker, \<open>src/zynk/embedding_worker.rs\<close>, with the table creation of
  \<open>src/zynk/embed/vec.rs\<close> and the provider selection of \<open>src/zynk/embed/mod.rs\<close>. A job is
  claimed by an atomic update that increments \<open>attempts\<close>; the new value is the token of the claim,
  and every later update of the job is fenced by it. Several workers may share the database, so
  beside the operations as the code composes them the theory has the step relation of claims,
  fenced writes, failures, crashes and recoveries in any interleaving. The embedding model is a
  parameter \<open>emb\<close>; vectors are lists of \<open>f32\<close>, whose JSON text the code writes and \<open>vec0\<close> reads.
\<close>

section \<open>Providers\<close>

datatype embed_error = Provider ustr | ModelUnavailable ustr

fun embed_error_str :: "embed_error \<Rightarrow> ustr" where
  "embed_error_str (Provider msg) = U ''embed_provider: '' @ msg"
| "embed_error_str (ModelUnavailable msg) = U ''model_unavailable: '' @ msg"

type_synonym embedder = "ustr \<Rightarrow> embed_error + f32 list list"

definition active_model_id :: "ustr option \<Rightarrow> ustr" where
  "active_model_id provider_env =
     (if trim (unwrap_or provider_env []) = U ''fastembed'' then U ''multilingual-e5-small@1''
      else U ''fake@1'')"

definition to_ascii_lowercase :: "nat \<Rightarrow> nat" where
  "to_ascii_lowercase c = (if 65 \<le> c \<and> c \<le> 90 then c + 32 else c)"

definition is_ascii_alphanumeric :: "nat \<Rightarrow> bool" where
  "is_ascii_alphanumeric c \<longleftrightarrow> 48 \<le> c \<and> c \<le> 57 \<or> 65 \<le> c \<and> c \<le> 90 \<or> 97 \<le> c \<and> c \<le> 122"

definition vec_table_for :: "ustr \<Rightarrow> ustr" where
  "vec_table_for model_id =
     U ''message_vec_'' @ map (\<lambda>ch.
       let lowered = to_ascii_lowercase ch in if is_ascii_alphanumeric lowered then lowered else 95) model_id"

definition provider_for :: "ustr \<Rightarrow> ustr" where
  "provider_for model_id = (if prefixed (U ''fake'') model_id then U ''fake'' else U ''fastembed'')"

definition is_safe_identifier :: "ustr \<Rightarrow> bool" where
  "is_safe_identifier name \<longleftrightarrow> name \<noteq> [] \<and> list_all (\<lambda>c. is_ascii_alphanumeric c \<or> c = 95) name"

section \<open>Tables of a model\<close>

definition sql_create_vec0 :: "ustr \<Rightarrow> nat \<Rightarrow> unit stmt" where
  "sql_create_vec0 vec_table dim d =
     Inr (if vec_table \<in> set (map fst (vec_tables d)) then d
          else d\<lparr>vec_tables := vec_tables d @ [(vec_table, dim)]\<rparr>, ())"

definition ensure_vec0_table :: "env \<Rightarrow> ustr \<Rightarrow> nat \<Rightarrow> unit dbm" where
  "ensure_vec0_table E vec_table dim =
     (if \<not> is_safe_identifier vec_table
      then dfail (U ''vec_table_invalid'') (U ''unsafe vec0 table identifier: '' @ debug_str E vec_table)
      else exec E (sql_create_vec0 vec_table dim))"

definition sql_insert_or_ignore_model :: "model_row \<Rightarrow> unit stmt" where
  "sql_insert_or_ignore_model row d =
     Inr (if mo_id row \<in> set (map mo_id (embedding_models d)) then d
          else d\<lparr>embedding_models := embedding_models d @ [row]\<rparr>, ())"

definition ensure_model_and_vec0 :: "env \<Rightarrow> ustr \<Rightarrow> nat \<Rightarrow> (ustr \<times> ustr \<times> nat) dbm" where
  "ensure_model_and_vec0 E model_id dim =
     (let vec_table = vec_table_for model_id
      in dbind (with_now E (\<lambda>now. exec E (sql_insert_or_ignore_model
           \<lparr>mo_id = model_id, mo_provider = provider_for model_id, mo_name = model_id, mo_dim = dim,
            mo_vec_table = vec_table, mo_created_at = now\<rparr>))) (\<lambda>_.
         dbind (ensure_vec0_table E vec_table dim) (\<lambda>_. dreturn (model_id, vec_table, dim))))"

section \<open>Job statements\<close>

definition max_attempts :: int where
  "max_attempts = 5"

definition running_lease_secs :: int where
  "running_lease_secs = 600"

definition update_jobs :: "(job_row \<Rightarrow> job_row) \<Rightarrow> db \<Rightarrow> db" where
  "update_jobs f d = d\<lparr>embedding_jobs := map f (embedding_jobs d)\<rparr>"

definition stale_running :: "ustr \<Rightarrow> ustr \<Rightarrow> job_row \<Rightarrow> bool" where
  "stale_running model_id cutoff j \<longleftrightarrow> j_model j = model_id \<and> j_status j = U ''running'' \<and>
     (case j_started_at j of None \<Rightarrow> True | Some t \<Rightarrow> t < cutoff)"

definition sql_recover :: "ustr \<Rightarrow> ustr \<Rightarrow> nat stmt" where
  "sql_recover model_id cutoff d =
     Inr (update_jobs (\<lambda>j. if stale_running model_id cutoff j
            then j\<lparr>j_status := U ''pending'', j_started_at := None\<rparr> else j) d,
          length (filter (stale_running model_id cutoff) (embedding_jobs d)))"

definition recover_running_jobs_older_than :: "env \<Rightarrow> ustr \<Rightarrow> int \<Rightarrow> nat dbm" where
  "recover_running_jobs_older_than E model_id lease c =
     exec E (sql_recover model_id (rfc3339_utc (max 0 (unix_secs E (stmts c)) - lease))) c"

definition recover_running_jobs :: "env \<Rightarrow> ustr \<Rightarrow> nat dbm" where
  "recover_running_jobs E model_id = recover_running_jobs_older_than E model_id running_lease_secs"

definition sql_select_missing :: "ustr \<Rightarrow> nat \<Rightarrow> ustr list stmt" where
  "sql_select_missing model_id limit d =
     Inr (d, take limit (map m_id (sort_key m_created_at
       (filter (\<lambda>m. \<not> (\<exists>j \<in> set (embedding_jobs d). j_message j = m_id m \<and> j_model j = model_id))
          (messages d)))))"

definition sql_insert_or_ignore_job :: "job_row \<Rightarrow> nat stmt" where
  "sql_insert_or_ignore_job row d =
     (if j_id row \<in> set (map j_id (embedding_jobs d))
         \<or> (\<exists>j \<in> set (embedding_jobs d). j_message j = j_message row \<and> j_model j = j_model row)
      then Inr (d, 0)
      else if j_message row \<notin> set (map m_id (messages d))
      then Inl (sql_error (U ''FOREIGN KEY constraint failed''))
      else Inr (d\<lparr>embedding_jobs := embedding_jobs d @ [row]\<rparr>, 1))"

fun backfill_rows :: "env \<Rightarrow> ustr \<Rightarrow> ustr \<Rightarrow> nat \<Rightarrow> ustr list \<Rightarrow> nat dbm" where
  "backfill_rows E model_id now enqueued [] = dreturn enqueued"
| "backfill_rows E model_id now enqueued (mid # rest) =
     dbind (draw_id E (U ''ejob'')) (\<lambda>i.
     dbind (exec E (sql_insert_or_ignore_job
       \<lparr>j_id = i, j_message = mid, j_model = model_id, j_status = U ''pending'', j_attempts = 0,
        j_last_error = None, j_enqueued_at = now, j_started_at = None, j_finished_at = None\<rparr>)) (\<lambda>n.
     backfill_rows E model_id now (enqueued + n) rest))"

definition backfill_missing :: "env \<Rightarrow> ustr \<Rightarrow> nat \<Rightarrow> nat dbm" where
  "backfill_missing E model_id limit =
     dbind (exec E (sql_select_missing model_id limit)) (\<lambda>rows.
     with_now E (\<lambda>now. backfill_rows E model_id now 0 rows))"

section \<open>Processing a job\<close>

definition runnable :: "job_row \<Rightarrow> bool" where
  "runnable j \<longleftrightarrow> j_status j = U ''pending'' \<or> (j_status j = U ''failed'' \<and> j_attempts j < max_attempts)"

definition sql_claim :: "ustr \<Rightarrow> ustr \<Rightarrow> int option stmt" where
  "sql_claim now job_id d =
     (case find (\<lambda>j. j_id j = job_id \<and> runnable j) (embedding_jobs d) of
        None \<Rightarrow> Inr (d, None)
      | Some j \<Rightarrow>
          Inr (update_jobs (\<lambda>j. if j_id j = job_id \<and> runnable j
                 then j\<lparr>j_status := U ''running'', j_started_at := Some now, j_attempts := j_attempts j + 1\<rparr>
                 else j) d, Some (j_attempts j + 1)))"

record job_claim =
  cl_job :: ustr
  cl_attempt :: int

definition owned :: "job_claim \<Rightarrow> job_row \<Rightarrow> bool" where
  "owned claim j \<longleftrightarrow> j_id j = cl_job claim \<and> j_status j = U ''running'' \<and> j_attempts j = cl_attempt claim"

definition sql_mark_done :: "ustr \<Rightarrow> job_claim \<Rightarrow> nat stmt" where
  "sql_mark_done now claim d =
     Inr (update_jobs (\<lambda>j. if owned claim j
            then j\<lparr>j_status := U ''done'', j_last_error := None, j_finished_at := Some now\<rparr> else j) d,
          length (filter (owned claim) (embedding_jobs d)))"

definition sql_mark_failed :: "ustr \<Rightarrow> job_claim \<Rightarrow> ustr \<Rightarrow> unit stmt" where
  "sql_mark_failed now claim last_error d =
     Inr (update_jobs (\<lambda>j. if owned claim j
            then j\<lparr>j_status := U ''failed'', j_last_error := Some last_error, j_finished_at := Some now\<rparr> else j) d, ())"

definition sql_insert_vec :: "bool \<Rightarrow> ustr \<Rightarrow> nat \<Rightarrow> f32 list \<Rightarrow> unit stmt" where
  "sql_insert_vec replaces vec_table rowid v d =
     (if vec_table \<notin> set (map fst (vec_tables d))
      then Inl (sql_error (U ''no such table''))
      else if \<not> replaces \<and> (vec_table, rowid) \<in> (\<lambda>(t, r, _). (t, r)) ` set (vec_rows d)
      then Inl (sql_error (U ''UNIQUE constraint failed on vec0 primary key''))
      else Inr (d\<lparr>vec_rows := filter (\<lambda>(t, r, x). \<not> (t = vec_table \<and> r = rowid)) (vec_rows d)
             @ [(vec_table, rowid, v)]\<rparr>, ()))"

definition sql_insert_embedding :: "embedding_row \<Rightarrow> unit stmt" where
  "sql_insert_embedding row d =
     (if em_message row \<notin> set (map m_id (messages d))
      then Inl (sql_error (U ''FOREIGN KEY constraint failed''))
      else Inr (d\<lparr>message_embeddings := filter (\<lambda>e. \<not> (em_message e = em_message row \<and> em_model e = em_model row))
             (message_embeddings d) @ [row]\<rparr>, ()))"

datatype write_outcome = Written | Stale

definition write_embedding_in_transaction ::
  "env \<Rightarrow> ustr \<Rightarrow> nat \<Rightarrow> f32 list \<Rightarrow> ustr \<Rightarrow> ustr \<Rightarrow> ustr \<Rightarrow> job_claim \<Rightarrow> write_outcome dbm" where
  "write_embedding_in_transaction E vec_table rowid embedded mid model_id body claim =
     with_now E (\<lambda>now.
     dbind (exec E (sql_mark_done now claim)) (\<lambda>fenced.
       if fenced = 0 then dreturn Stale
       else dbind (exec E (sql_insert_vec (vec_replace E) vec_table rowid embedded)) (\<lambda>_.
            dbind (exec E (sql_insert_embedding
              \<lparr>em_message = mid, em_model = model_id, em_rowid = rowid,
               em_text_hash = Some (body_hash (sha256 E) body), em_created_at = now\<rparr>)) (\<lambda>_.
            dreturn Written))))"

text \<open>Unlike the send path, a failing \<open>COMMIT\<close> is followed by a \<open>ROLLBACK\<close> here.\<close>

definition write_embedding_txn ::
  "env \<Rightarrow> ustr \<Rightarrow> nat \<Rightarrow> f32 list \<Rightarrow> ustr \<Rightarrow> ustr \<Rightarrow> ustr \<Rightarrow> job_claim \<Rightarrow> write_outcome dbm" where
  "write_embedding_txn E vec_table rowid embedded mid model_id body claim =
     dbind (begin_immediate E) (\<lambda>_ c.
       (case write_embedding_in_transaction E vec_table rowid embedded mid model_id body claim c of
          (Inr Stale, c1) \<Rightarrow> (Inr Stale, snd (rollback E c1))
        | (Inr Written, c1) \<Rightarrow>
            (case commit E c1 of
               (Inr _, c2) \<Rightarrow> (Inr Written, c2)
             | (Inl e, c2) \<Rightarrow> (Inl e, snd (rollback E c2)))
        | (Inl e, c1) \<Rightarrow> (Inl e, snd (rollback E c1))))"

definition sql_select_body :: "ustr \<Rightarrow> (nat \<times> ustr) option stmt" where
  "sql_select_body mid d =
     Inr (d, map_option (\<lambda>m. (m_rowid m, m_body m)) (find (\<lambda>m. m_id m = mid) (messages d)))"

text \<open>The checks between the provider call and the write: a reason, or the vector to store.\<close>

definition checked_vector :: "nat \<Rightarrow> embed_error + f32 list list \<Rightarrow> ustr + f32 list" where
  "checked_vector dim result =
     (case result of
        Inl err \<Rightarrow> Inl (embed_error_str err)
      | Inr [] \<Rightarrow> Inl (U ''embedder_returned_no_vector'')
      | Inr (v # _) \<Rightarrow>
          if length v \<noteq> dim then Inl (U ''embedding_wrong_dim'')
          else if \<not> list_all is_finite v then Inl (U ''embedding_non_finite'')
          else Inr v)"

datatype job_error = Recorded ustr | JobDb db_error

definition job_db :: "'a dbm \<Rightarrow> conn \<Rightarrow> (job_error + 'a) \<times> conn" where
  "job_db m c = (case m c of (Inl e, c') \<Rightarrow> (Inl (JobDb e), c') | (Inr x, c') \<Rightarrow> (Inr x, c'))"

definition run_job_inner ::
  "env \<Rightarrow> embedder \<Rightarrow> ustr \<Rightarrow> ustr \<Rightarrow> ustr \<Rightarrow> nat \<Rightarrow> job_claim \<Rightarrow> conn \<Rightarrow> (job_error + unit) \<times> conn" where
  "run_job_inner E emb mid model_id vec_table dim claim c =
     (case job_db (exec E (sql_select_body mid)) c of
        (Inl e, c1) \<Rightarrow> (Inl e, c1)
      | (Inr None, c1) \<Rightarrow> (Inl (Recorded (U ''message_missing'')), c1)
      | (Inr (Some (rowid, body)), c1) \<Rightarrow>
          (case checked_vector dim (emb body) of
             Inl reason \<Rightarrow> (Inl (Recorded reason), c1)
           | Inr embedded \<Rightarrow>
               (case job_db (write_embedding_txn E vec_table rowid embedded mid model_id body claim) c1 of
                  (Inl e, c2) \<Rightarrow> (Inl e, c2)
                | (Inr _, c2) \<Rightarrow> (Inr (), c2))))"

definition mark_job_failed :: "env \<Rightarrow> job_claim \<Rightarrow> ustr \<Rightarrow> conn \<Rightarrow> conn" where
  "mark_job_failed E claim last_error c = snd (with_now E (\<lambda>now. exec E (sql_mark_failed now claim last_error)) c)"

definition db_error_str :: "db_error \<Rightarrow> ustr" where
  "db_error_str e = de_code e @ U '': '' @ de_message e"

definition process_one_job ::
  "env \<Rightarrow> embedder \<Rightarrow> ustr \<Rightarrow> ustr \<Rightarrow> ustr \<Rightarrow> ustr \<Rightarrow> nat \<Rightarrow> unit dbm" where
  "process_one_job E emb job_id mid model_id vec_table dim =
     dbind (with_now E (\<lambda>now. exec E (sql_claim now job_id))) (\<lambda>claimed.
       case claimed of
         None \<Rightarrow> dreturn ()
       | Some token \<Rightarrow> (\<lambda>c.
           let claim = \<lparr>cl_job = job_id, cl_attempt = token\<rparr>
           in case run_job_inner E emb mid model_id vec_table dim claim c of
                (Inr _, c1) \<Rightarrow> (Inr (), c1)
              | (Inl (Recorded reason), c1) \<Rightarrow> (Inr (), mark_job_failed E claim reason c1)
              | (Inl (JobDb err), c1) \<Rightarrow> (Inr (), mark_job_failed E claim (db_error_str err) c1)))"

definition sql_select_runnable :: "ustr \<Rightarrow> nat \<Rightarrow> (ustr \<times> ustr) list stmt" where
  "sql_select_runnable model_id limit d =
     Inr (d, take limit (map (\<lambda>j. (j_id j, j_message j))
       (sort_key j_enqueued_at (filter (\<lambda>j. j_model j = model_id \<and> runnable j) (embedding_jobs d)))))"

fun process_rows ::
  "env \<Rightarrow> embedder \<Rightarrow> ustr \<Rightarrow> ustr \<Rightarrow> nat \<Rightarrow> nat \<Rightarrow> (ustr \<times> ustr) list \<Rightarrow> nat dbm" where
  "process_rows E emb model_id vec_table dim processed [] = dreturn processed"
| "process_rows E emb model_id vec_table dim processed ((job_id, mid) # rest) =
     dbind (process_one_job E emb job_id mid model_id vec_table dim) (\<lambda>_.
     process_rows E emb model_id vec_table dim (processed + 1) rest)"

definition process_pending_batch ::
  "env \<Rightarrow> embedder \<Rightarrow> ustr \<Rightarrow> ustr \<Rightarrow> nat \<Rightarrow> nat \<Rightarrow> nat dbm" where
  "process_pending_batch E emb model_id vec_table dim limit =
     dbind (exec E (sql_select_runnable model_id limit)) (\<lambda>rows.
     process_rows E emb model_id vec_table dim 0 rows)"

section \<open>Frames\<close>

text \<open>The tables of the message store that the worker never writes.\<close>

definition message_view :: "db \<Rightarrow> conversation_row list \<times> participant_row list \<times> message_row list
    \<times> event_row list \<times> fts_row list" where
  "message_view d = (conversations d, participants d, messages d, delivery_events d, messages_fts d)"

lemma store_inv_jobs:
  assumes "message_view d' = message_view d"
    and "j_message ` set (embedding_jobs d) \<subseteq> j_message ` set (embedding_jobs d')" and "store_inv d"
  shows "store_inv d'"
proof -
  have v: "conversations d' = conversations d" "participants d' = participants d" "messages d' = messages d"
    "delivery_events d' = delivery_events d" "messages_fts d' = messages_fts d"
    using assms(1) by (simp_all add: message_view_def)
  have views: "conv_seqs d' = conv_seqs d" "delivery_seqs d' = delivery_seqs d" "seqs_of d' i = seqs_of d i"
    "events_of d' i = events_of d i" "history d' i = history d i" for i
    by (simp_all add: v conv_seqs_def delivery_seqs_def seqs_of_def events_of_def history_def)
  have "idx_inv d'"
    using assms(2,3) by (force simp: store_inv_def idx_inv_def v image_iff subset_iff)
  then show ?thesis
    using assms(3) unfolding store_inv_def conv_inv_def part_inv_def msg_refs_def seq_inv_def evt_inv_def
    by (simp add: v views)
qed

lemma update_jobs_frame [simp]:
  "message_view (update_jobs f d) = message_view d" "embedding_jobs (update_jobs f d) = map f (embedding_jobs d)"
  "message_embeddings (update_jobs f d) = message_embeddings d" "messages (update_jobs f d) = messages d"
  "vec_rows (update_jobs f d) = vec_rows d" "vec_tables (update_jobs f d) = vec_tables d"
  by (simp_all add: update_jobs_def message_view_def)

lemma update_jobs_same: "(\<And>j. j \<in> set (embedding_jobs d) \<Longrightarrow> f j = j) \<Longrightarrow> update_jobs f d = d"
  by (simp add: update_jobs_def map_idI)

section \<open>The fenced write\<close>

definition mark_done :: "ustr \<Rightarrow> job_claim \<Rightarrow> job_row \<Rightarrow> job_row" where
  "mark_done now claim j =
     (if owned claim j then j\<lparr>j_status := U ''done'', j_last_error := None, j_finished_at := Some now\<rparr> else j)"

text \<open>What a write that reports \<open>Written\<close> has done to the tables \<open>d0\<close>.\<close>

definition embedding_written ::
  "env \<Rightarrow> ustr \<Rightarrow> nat \<Rightarrow> f32 list \<Rightarrow> ustr \<Rightarrow> ustr \<Rightarrow> ustr \<Rightarrow> job_claim \<Rightarrow> db \<Rightarrow> db \<Rightarrow> bool" where
  "embedding_written E vec_table rowid v mid model_id body claim d0 d \<longleftrightarrow>
     message_view d = message_view d0 \<and> (\<exists>j \<in> set (embedding_jobs d0). owned claim j) \<and>
     (\<exists>now. embedding_jobs d = map (mark_done now claim) (embedding_jobs d0) \<and>
        message_embeddings d = filter (\<lambda>e. \<not> (em_message e = mid \<and> em_model e = model_id)) (message_embeddings d0)
          @ [\<lparr>em_message = mid, em_model = model_id, em_rowid = rowid,
              em_text_hash = Some (body_hash (sha256 E) body), em_created_at = now\<rparr>]) \<and>
     (vec_table, rowid, v) \<in> set (vec_rows d)"

lemma triple_write_embedding:
  "triple (\<lambda>d. d = d0) (write_embedding_in_transaction E vec_table rowid v mid model_id body claim)
     (\<lambda>r d. (r = Stale \<longrightarrow> d = d0 \<and> \<not> (\<exists>j \<in> set (embedding_jobs d0). owned claim j)) \<and>
        (r = Written \<longrightarrow> embedding_written E vec_table rowid v mid model_id body claim d0 d))"
    (is "triple _ _ ?Q")
proof -
  let ?own = "\<exists>j \<in> set (embedding_jobs d0). owned claim j"
  let ?done = "\<lambda>now n d. d = update_jobs (mark_done now claim) d0 \<and> (n = 0 \<longleftrightarrow> \<not> ?own)"
  have 1: "triple (\<lambda>d. d = d0) (exec E (sql_mark_done now claim)) (?done now)" for now
    by (intro triple_exec_at)
      (auto simp: sql_mark_done_def mark_done_def [abs_def] filter_empty_conv)
  have stale: "?Q Stale d" if "?done now 0 d" for now d
  proof -
    have "mark_done now claim j = j" if "j \<in> set (embedding_jobs d0)" for j
      using that \<open>?done now 0 d\<close> by (auto simp: mark_done_def)
    with that update_jobs_same [of d0 "mark_done now claim"] show ?thesis by simp
  qed
  let ?vec = "\<lambda>now d. ?own \<and> message_view d = message_view d0 \<and>
      embedding_jobs d = map (mark_done now claim) (embedding_jobs d0) \<and>
      message_embeddings d = message_embeddings d0 \<and> (vec_table, rowid, v) \<in> set (vec_rows d)"
  have 2: "triple (\<lambda>d. ?own \<and> d = update_jobs (mark_done now claim) d0)
      (exec E (sql_insert_vec (vec_replace E) vec_table rowid v)) (\<lambda>_. ?vec now)" for now
    by (intro triple_exec)
      (auto simp: sql_insert_vec_def message_view_def update_jobs_def split: if_splits)
  have 3: "triple (?vec now) (exec E (sql_insert_embedding
        \<lparr>em_message = mid, em_model = model_id, em_rowid = rowid,
         em_text_hash = Some (body_hash (sha256 E) body), em_created_at = now\<rparr>))
      (\<lambda>_. embedding_written E vec_table rowid v mid model_id body claim d0)" for now
    by (intro triple_exec)
      (auto simp: sql_insert_embedding_def embedding_written_def message_view_def split: if_splits)
  show ?thesis
    unfolding write_embedding_in_transaction_def
  proof (rule triple_with_now, rule triple_bind [OF 1], rule triple_if)
    fix now and fenced :: nat
    assume "fenced = 0"
    then show "triple (?done now fenced) (dreturn Stale) ?Q" using stale by (intro triple_return) blast
  next
    fix now and fenced :: nat
    assume "fenced \<noteq> 0"
    then show "triple (?done now fenced) (dbind (exec E (sql_insert_vec (vec_replace E) vec_table rowid v)) (\<lambda>_.
        dbind (exec E (sql_insert_embedding \<lparr>em_message = mid, em_model = model_id, em_rowid = rowid,
         em_text_hash = Some (body_hash (sha256 E) body), em_created_at = now\<rparr>)) (\<lambda>_. dreturn Written))) ?Q"
      by (intro triple_pre [OF triple_bind [OF 2 triple_bind [OF 3 triple_return]]]) auto
  qed
qed

lemma rollback_frame: "disk (snd (rollback E c)) = disk c"
  by (auto simp: rollback_def attempt_def Let_def split: option.splits)

lemma commit_cases:
  assumes "commit E c = (r, c')" and "txn c = Some d"
  shows "(\<exists>e. r = Inl e) \<and> disk c' = disk c \<or> r = Inr () \<and> disk c' = d \<and> txn c' = None"
  using assms by (auto simp: commit_def attempt_def Let_def split: option.splits if_splits)

lemma begin_cases:
  assumes "begin_immediate E c = (r, c')" and "txn c = None"
  shows "disk c' = disk c \<and> (r = Inr () \<longrightarrow> txn c' = Some (disk c))"
  using assms by (auto simp: begin_immediate_def attempt_def Let_def split: option.splits if_splits)

lemma write_embedding_txn_cases:
  assumes "txn c = None"
    and run: "write_embedding_txn E vec_table rowid v mid model_id body claim c = (r, c')"
  shows "if r = Inr Written
    then txn c' = None \<and> embedding_written E vec_table rowid v mid model_id body claim (disk c) (disk c')
    else disk c' = disk c \<and> (r = Inr Stale \<longrightarrow> \<not> (\<exists>j \<in> set (embedding_jobs (disk c)). owned claim j))"
proof -
  obtain rb c0 where b: "begin_immediate E c = (rb, c0)" by fastforce
  note bc = begin_cases [OF b assms(1)]
  show ?thesis
  proof (cases rb)
    case (Inl e)
    with run b bc show ?thesis by (auto simp: write_embedding_txn_def dbind_def)
  next
    case (Inr u)
    then have c0: "txn c0 = Some (disk c)" "disk c0 = disk c" using bc by auto
    obtain rw c1 where w: "write_embedding_in_transaction E vec_table rowid v mid model_id body claim c0 = (rw, c1)"
      by fastforce
    note wt = tripleD [OF triple_write_embedding c0(1) refl w]
    consider e where "rw = Inl e" | "rw = Inr Stale" | "rw = Inr Written"
      by (cases rw) (auto intro: write_outcome.exhaust)
    then show ?thesis
    proof cases
      case 3
      with wt obtain d where d: "txn c1 = Some d"
        "embedding_written E vec_table rowid v mid model_id body claim (disk c) d" "disk c1 = disk c"
        using c0(2) by auto
      obtain rc c2 where cm: "commit E c1 = (rc, c2)" by fastforce
      from run have "(r, c') = (case rc of Inr _ \<Rightarrow> (Inr Written, c2) | Inl e \<Rightarrow> (Inl e, snd (rollback E c2)))"
        using b Inr w 3 cm by (auto simp: write_embedding_txn_def dbind_def split: sum.splits)
      with commit_cases [OF cm d(1)] d show ?thesis
        by (cases rc) (auto simp: rollback_frame)
    qed (use run b Inr w wt c0(2) in \<open>auto simp: write_embedding_txn_def dbind_def rollback_frame\<close>)
  qed
qed

end
