(* ===== verification/Receipt.thy ===== *)
theory Receipt
  imports Store_Invariants
begin

text \<open>
  Receipt acceptance, \<open>src/zynk/receipt.rs\<close>: a receipt advances a message from \<open>submitted\<close> to
  \<open>received\<close> in one transaction, after the message triple, the runtime and the socket namespace
  have been compared with the stored row, the receiver has been matched with the durable anchor
  of the stored target, and the sender has been excluded. The theory proves which receipts can be
  recorded, that a refused receipt writes nothing, and that recording is idempotent.
\<close>

section \<open>Requests\<close>

record authoritative_receiver =
  rv_pane_id :: ustr
  rv_terminal_id :: ustr
  rv_agent_label :: ustr
  rv_agent_session :: "json option"

record receipt_request =
  rq_message_id :: ustr
  rq_conversation_id :: ustr
  rq_conversation_seq :: int
  rq_runtime_session_id :: ustr
  rq_socket_namespace :: ustr
  rq_receiver_seq :: "int option"
  rq_timestamp :: "ustr option"
  rq_status :: "ustr option"
  rq_receiver_agent_session_hint :: "json option"

definition receipt_proof_source :: ustr where
  "receipt_proof_source = U ''pane_tree''"

datatype receipt_status = RsReceived | RsAlreadyReceived

fun receipt_status_str :: "receipt_status \<Rightarrow> ustr" where
  "receipt_status_str RsReceived = U ''received''"
| "receipt_status_str RsAlreadyReceived = U ''already_received''"

record receipt_accepted =
  ra_status :: receipt_status
  ra_message_id :: ustr
  ra_conversation_id :: ustr
  ra_conversation_seq :: int
  ra_receiver_pane_id :: ustr
  ra_receiver_agent_label :: ustr

section \<open>Anchors\<close>

datatype stored_anchor = AnchorSession ustr ustr ustr | AnchorPartial | AnchorTerminal ustr | AnchorNone

definition nonempty_field :: "ustr option \<Rightarrow> ustr option" where
  "nonempty_field f = (case f of Some s \<Rightarrow> if s = [] then None else Some s | None \<Rightarrow> None)"

definition canonical_anchor ::
  "ustr option \<Rightarrow> ustr option \<Rightarrow> ustr option \<Rightarrow> ustr option \<Rightarrow> stored_anchor" where
  "canonical_anchor source kind val terminal =
     (case (nonempty_field source, nonempty_field kind, nonempty_field val) of
        (Some s, Some k, Some v) \<Rightarrow> AnchorSession s k v
      | (None, None, None) \<Rightarrow>
          (case nonempty_field terminal of Some t \<Rightarrow> AnchorTerminal t | None \<Rightarrow> AnchorNone)
      | _ \<Rightarrow> AnchorPartial)"

definition live_component :: "authoritative_receiver \<Rightarrow> ustr \<Rightarrow> ustr option" where
  "live_component r key = do { s \<leftarrow> rv_agent_session r; v \<leftarrow> json_get s key; json_str v }"

definition receiver_matches_session ::
  "authoritative_receiver \<Rightarrow> ustr \<Rightarrow> ustr \<Rightarrow> ustr \<Rightarrow> bool" where
  "receiver_matches_session r s k v \<longleftrightarrow>
     live_component r (U ''source'') = Some s \<and> live_component r (U ''kind'') = Some k \<and>
     live_component r (U ''value'') = Some v"

text \<open>The join of a message with its two participants.\<close>

record receipt_row =
  rr_message :: message_row
  rr_from :: participant_row
  rr_to :: participant_row

definition sql_select_receipt :: "ustr \<Rightarrow> receipt_row option stmt" where
  "sql_select_receipt mid d =
     Inr (d, do { m \<leftarrow> find (\<lambda>m. m_id m = mid) (messages d);
                  fp \<leftarrow> find (\<lambda>p. pt_id p = m_from m) (participants d);
                  tp \<leftarrow> find (\<lambda>p. pt_id p = m_to m) (participants d);
                  Some \<lparr>rr_message = m, rr_from = fp, rr_to = tp\<rparr> })"

text \<open>
  The target binding: \<open>None\<close> when the receiver is the stored target, otherwise the message of the
  \<open>receiver_identity_mismatch\<close> error.
\<close>

definition target_mismatch :: "authoritative_receiver \<Rightarrow> participant_row \<Rightarrow> ustr option" where
  "target_mismatch r tp =
     (case canonical_anchor (pt_source tp) (pt_kind tp) (pt_value tp) (pt_terminal tp) of
        AnchorSession s k v \<Rightarrow>
          if \<not> receiver_matches_session r s k v
          then Some (U ''receiver agent session (source, kind, value) is not the session the message was addressed to'')
          else None
      | AnchorTerminal stored \<Rightarrow>
          if rv_terminal_id r \<noteq> stored
          then Some (U ''receiver terminal '' @ rv_terminal_id r
                 @ U '' is not the terminal the message was addressed to ('' @ stored @ U '')'')
          else None
      | AnchorPartial \<Rightarrow>
          Some (U ''the stored target's hook session is incomplete (source, kind or value missing), so no receipt can be attributed to it'')
      | AnchorNone \<Rightarrow>
          Some (U ''the stored target carries no durable identity (no complete hook session and no terminal), so no receipt can be attributed to it''))"

definition receiver_is_sender ::
  "authoritative_receiver \<Rightarrow> message_row \<Rightarrow> participant_row \<Rightarrow> bool" where
  "receiver_is_sender r m fp \<longleftrightarrow>
     m_from m = m_to m \<or>
     (pt_label fp = rv_agent_label r \<and>
      (case canonical_anchor (pt_source fp) (pt_kind fp) (pt_value fp) (pt_terminal fp) of
         AnchorSession s k v \<Rightarrow> receiver_matches_session r s k v
       | AnchorTerminal stored \<Rightarrow> rv_terminal_id r = stored
       | AnchorPartial \<Rightarrow>
           (case nonempty_field (pt_terminal fp) of
              Some stored \<Rightarrow> rv_terminal_id r = stored
            | None \<Rightarrow> pt_pane fp = Some (rv_pane_id r))
       | AnchorNone \<Rightarrow> pt_pane fp = Some (rv_pane_id r)))"

definition receipt_payload ::
  "receipt_request \<Rightarrow> authoritative_receiver \<Rightarrow> ustr \<Rightarrow> ustr \<Rightarrow> json" where
  "receipt_payload rq r effective_timestamp current_runtime =
     JObj [(U ''receiver_pane_id'', JStr (rv_pane_id r)),
           (U ''receiver_agent_label'', JStr (rv_agent_label r)),
           (U ''receiver_agent_session'', unwrap_or (rv_agent_session r) JNull),
           (U ''receiver_agent_session_hint'', unwrap_or (rq_receiver_agent_session_hint rq) JNull),
           (U ''receiver_seq'', case rq_receiver_seq rq of Some n \<Rightarrow> JNum n | None \<Rightarrow> JNull),
           (U ''supplied_timestamp'', opt_str (rq_timestamp rq)),
           (U ''effective_timestamp'', JStr effective_timestamp),
           (U ''status'', opt_str (rq_status rq)),
           (U ''message_runtime_session_id'', JStr (rq_runtime_session_id rq)),
           (U ''recording_runtime_session_id'', JStr current_runtime),
           (U ''socket_namespace'', JStr (rq_socket_namespace rq))]"

section \<open>Acceptance\<close>

definition accepted ::
  "receipt_status \<Rightarrow> receipt_request \<Rightarrow> authoritative_receiver \<Rightarrow> message_row \<Rightarrow> receipt_accepted" where
  "accepted status rq r m =
     \<lparr>ra_status = status, ra_message_id = rq_message_id rq, ra_conversation_id = m_conversation m,
      ra_conversation_seq = m_seq m, ra_receiver_pane_id = rv_pane_id r,
      ra_receiver_agent_label = rv_agent_label r\<rparr>"

text \<open>The comparisons between the request, the receiver and the stored rows, in their order.\<close>

definition receipt_refusal ::
  "receipt_request \<Rightarrow> authoritative_receiver \<Rightarrow> receipt_row \<Rightarrow> (ustr \<times> ustr) option" where
  "receipt_refusal rq r row =
     (let m = rr_message row
      in if m_conversation m \<noteq> rq_conversation_id rq \<or> m_seq m \<noteq> rq_conversation_seq rq
         then Some (U ''conversation_mismatch'', U ''receipt conversation id/seq do not match the stored message'')
         else if m_runtime m \<noteq> rq_runtime_session_id rq
         then Some (U ''runtime_mismatch'', U ''receipt runtime_session_id does not match the stored message runtime'')
         else if m_socket m \<noteq> rq_socket_namespace rq
         then Some (U ''socket_namespace_mismatch'', U ''receipt socket namespace does not match the stored message socket namespace'')
         else if rv_agent_label r \<noteq> pt_label (rr_to row)
         then Some (U ''receiver_identity_mismatch'', U ''receiver '' @ rv_agent_label r
                @ U '' is not the message target '' @ pt_label (rr_to row))
         else case target_mismatch r (rr_to row) of
                Some msg \<Rightarrow> Some (U ''receiver_identity_mismatch'', msg)
              | None \<Rightarrow>
                  if receiver_is_sender r m (rr_from row)
                  then Some (U ''self_receipt_rejected'', U ''the sender is the addressee of its own message and cannot report its receipt'')
                  else None)"

definition append_received_event_in_tx ::
  "env \<Rightarrow> receipt_request \<Rightarrow> authoritative_receiver \<Rightarrow> ustr \<Rightarrow> ustr \<Rightarrow> receipt_accepted dbm" where
  "append_received_event_in_tx E rq r current_runtime now =
     dbind (exec E (sql_select_receipt (rq_message_id rq))) (\<lambda>found.
       case found of
         None \<Rightarrow> dfail (U ''message_not_found'')
           (U ''no message '' @ rq_message_id rq @ U '' in the native store'')
       | Some row \<Rightarrow>
           (case receipt_refusal rq r row of
              Some (code, msg) \<Rightarrow> dfail code msg
            | None \<Rightarrow>
                dbind (exec E (sql_latest_event_type (rq_message_id rq))) (\<lambda>latest.
                  case latest of
                    None \<Rightarrow> dfail (U ''invalid_delivery_transition'') (U ''message has no submission to receive'')
                  | Some s \<Rightarrow>
                      if s = U ''received'' then dreturn (accepted RsAlreadyReceived rq r (rr_message row))
                      else if s = U ''submitted'' then
                        (let effective_timestamp =
                               (if present (rq_timestamp rq) then the (rq_timestamp rq) else now)
                         in dbind (append_delivery_event_in_transaction E
                              \<lparr>de_message_id = rq_message_id rq, de_event_type = Received,
                               de_proof_source = receipt_proof_source,
                               de_timestamp = effective_timestamp,
                               de_payload = receipt_payload rq r effective_timestamp current_runtime\<rparr>) (\<lambda>_.
                            dreturn (accepted RsReceived rq r (rr_message row))))
                      else if s = U ''drafted'' then
                        dfail (U ''draft_not_submitted'') (U ''message is drafted, not submitted; it cannot be received'')
                      else if s = U ''failed'' then
                        dfail (U ''already_failed'') (U ''message delivery already failed; retry creates a new message'')
                      else dfail (U ''invalid_delivery_transition'') (U ''message has no submission to receive''))))"

definition append_received_event ::
  "env \<Rightarrow> receipt_request \<Rightarrow> authoritative_receiver \<Rightarrow> ustr \<Rightarrow> ustr \<Rightarrow> ustr \<Rightarrow> receipt_accepted dbm" where
  "append_received_event E rq r current_socket current_runtime now =
     (if rq_socket_namespace rq \<noteq> current_socket
      then dfail (U ''socket_namespace_mismatch'')
        (U ''receipt socket namespace '' @ rq_socket_namespace rq
         @ U '' does not match the current server socket '' @ current_socket)
      else with_transaction E (append_received_event_in_tx E rq r current_runtime now))"

section \<open>Transaction body\<close>

text \<open>Who may acknowledge a message: the addressee by its durable anchor, and not the sender.\<close>

definition entitled :: "receipt_request \<Rightarrow> authoritative_receiver \<Rightarrow> db \<Rightarrow> message_row \<Rightarrow> bool" where
  "entitled rq r d m \<longleftrightarrow> m \<in> set (messages d) \<and> m_id m = rq_message_id rq \<and>
     m_conversation m = rq_conversation_id rq \<and> m_seq m = rq_conversation_seq rq \<and>
     m_runtime m = rq_runtime_session_id rq \<and> m_socket m = rq_socket_namespace rq \<and>
     (\<exists>tp \<in> set (participants d). pt_id tp = m_to m \<and> pt_label tp = rv_agent_label r \<and>
        target_mismatch r tp = None) \<and>
     (\<exists>fp \<in> set (participants d). pt_id fp = m_from m \<and> \<not> receiver_is_sender r m fp)"

text \<open>
  The identity of a live receiver against a stored participant, stated on the stored fields
  alone and independently of the anchors the code computes. A stored hook session is complete
  when its source, kind and value are all there and not empty, and absent when none is; the
  live session is the stored one when all three components of its JSON value are those strings.
\<close>

definition filled :: "ustr option \<Rightarrow> bool" where
  "filled f \<longleftrightarrow> f \<noteq> None \<and> f \<noteq> Some []"

definition session_complete :: "participant_row \<Rightarrow> bool" where
  "session_complete p \<longleftrightarrow> filled (pt_source p) \<and> filled (pt_kind p) \<and> filled (pt_value p)"

definition session_absent :: "participant_row \<Rightarrow> bool" where
  "session_absent p \<longleftrightarrow> \<not> filled (pt_source p) \<and> \<not> filled (pt_kind p) \<and> \<not> filled (pt_value p)"

definition runs_session_of :: "authoritative_receiver \<Rightarrow> participant_row \<Rightarrow> bool" where
  "runs_session_of r p \<longleftrightarrow>
     (\<exists>j s k v. rv_agent_session r = Some j \<and>
        json_get j (U ''source'') = Some (JStr s) \<and> pt_source p = Some s \<and>
        json_get j (U ''kind'') = Some (JStr k) \<and> pt_kind p = Some k \<and>
        json_get j (U ''value'') = Some (JStr v) \<and> pt_value p = Some v)"

text \<open>
  The receiver is the addressee \<open>p\<close>: same label, and the same complete session or, for a target
  stored without any session, the same terminal. It is the sender \<open>p\<close>: same label, and the same
  session where one is completely stored, else the same terminal where one is stored, else the
  same pane.
\<close>

definition is_addressee :: "authoritative_receiver \<Rightarrow> participant_row \<Rightarrow> bool" where
  "is_addressee r p \<longleftrightarrow> pt_label p = rv_agent_label r \<and>
     (session_complete p \<and> runs_session_of r p \<or>
      session_absent p \<and> filled (pt_terminal p) \<and> pt_terminal p = Some (rv_terminal_id r))"

definition is_sender :: "authoritative_receiver \<Rightarrow> participant_row \<Rightarrow> bool" where
  "is_sender r p \<longleftrightarrow> pt_label p = rv_agent_label r \<and>
     (if session_complete p then runs_session_of r p
      else if filled (pt_terminal p) then pt_terminal p = Some (rv_terminal_id r)
      else pt_pane p = Some (rv_pane_id r))"

lemma nonempty_field_filled:
  "nonempty_field f = None \<longleftrightarrow> \<not> filled f" "nonempty_field f = Some s \<longleftrightarrow> f = Some s \<and> filled f"
  by (auto simp: nonempty_field_def filled_def split: option.splits if_splits)

lemma json_str_JStr: "json_str v = Some s \<longleftrightarrow> v = JStr s"
  by (cases v) auto

lemma live_component_JStr:
  "live_component r k = Some s \<longleftrightarrow> (\<exists>j. rv_agent_session r = Some j \<and> json_get j k = Some (JStr s))"
  by (auto simp: live_component_def bind_eq_Some_conv json_str_JStr)

lemma runs_session_of_matches:
  assumes "pt_source p = Some s" and "pt_kind p = Some k" and "pt_value p = Some v"
  shows "receiver_matches_session r s k v = runs_session_of r p"
  using assms by (auto simp: receiver_matches_session_def runs_session_of_def live_component_JStr)

lemma canonical_anchor_cases:
  "canonical_anchor (pt_source p) (pt_kind p) (pt_value p) (pt_terminal p) = AnchorSession s k v \<longleftrightarrow>
     session_complete p \<and> pt_source p = Some s \<and> pt_kind p = Some k \<and> pt_value p = Some v"
  "canonical_anchor (pt_source p) (pt_kind p) (pt_value p) (pt_terminal p) = AnchorTerminal t \<longleftrightarrow>
     session_absent p \<and> filled (pt_terminal p) \<and> pt_terminal p = Some t"
  "canonical_anchor (pt_source p) (pt_kind p) (pt_value p) (pt_terminal p) = AnchorNone \<longleftrightarrow>
     session_absent p \<and> \<not> filled (pt_terminal p)"
  "canonical_anchor (pt_source p) (pt_kind p) (pt_value p) (pt_terminal p) = AnchorPartial \<longleftrightarrow>
     \<not> session_complete p \<and> \<not> session_absent p"
  by (auto simp: canonical_anchor_def session_complete_def session_absent_def nonempty_field_filled
      split: option.splits)

lemma session_not_both: "session_absent p \<Longrightarrow> \<not> session_complete p"
  by (simp add: session_absent_def session_complete_def)

lemma target_mismatch_is_addressee:
  assumes "pt_label tp = rv_agent_label r" and "target_mismatch r tp = None"
  shows "is_addressee r tp"
proof (cases "canonical_anchor (pt_source tp) (pt_kind tp) (pt_value tp) (pt_terminal tp)")
  case a: (AnchorSession s k v)
  note c = canonical_anchor_cases(1) [THEN iffD1, OF a]
  then show ?thesis
    using assms runs_session_of_matches [of tp s k v r] unfolding target_mismatch_def a stored_anchor.case is_addressee_def
    by (simp split: if_splits)
next
  case a: (AnchorTerminal t)
  note c = canonical_anchor_cases(2) [THEN iffD1, OF a]
  then show ?thesis
    using assms unfolding target_mismatch_def a stored_anchor.case is_addressee_def
    by (simp split: if_splits)
qed (use assms in \<open>simp_all add: target_mismatch_def\<close>)

lemma receiver_is_sender_iff:
  "receiver_is_sender r m fp \<longleftrightarrow> m_from m = m_to m \<or> is_sender r fp"
proof (cases "canonical_anchor (pt_source fp) (pt_kind fp) (pt_value fp) (pt_terminal fp)")
  case a: (AnchorSession s k v)
  note c = canonical_anchor_cases(1) [THEN iffD1, OF a]
  then show ?thesis
    unfolding receiver_is_sender_def a stored_anchor.case is_sender_def
    using runs_session_of_matches [of fp s k v r] by simp
next
  case a: (AnchorTerminal t)
  note c = canonical_anchor_cases(2) [THEN iffD1, OF a]
  then show ?thesis
    unfolding receiver_is_sender_def a stored_anchor.case is_sender_def
    using session_not_both [of fp] by auto
next
  case a: AnchorPartial
  note c = canonical_anchor_cases(4) [THEN iffD1, OF a]
  then show ?thesis
    unfolding receiver_is_sender_def a stored_anchor.case is_sender_def
    by (auto simp: nonempty_field_def filled_def split: option.splits)
next
  case a: AnchorNone
  note c = canonical_anchor_cases(3) [THEN iffD1, OF a]
  then show ?thesis
    unfolding receiver_is_sender_def a stored_anchor.case is_sender_def
    using session_not_both [of fp] by auto
qed

lemma entitled_identity:
  assumes "entitled rq r d m"
  obtains tp fp where "tp \<in> set (participants d)" "pt_id tp = m_to m" "is_addressee r tp"
    "fp \<in> set (participants d)" "pt_id fp = m_from m" "\<not> is_sender r fp" "m_from m \<noteq> m_to m"
  using assms target_mismatch_is_addressee receiver_is_sender_iff unfolding entitled_def by blast

definition receipt_done ::
  "receipt_request \<Rightarrow> authoritative_receiver \<Rightarrow> db \<Rightarrow> receipt_accepted \<Rightarrow> db \<Rightarrow> bool" where
  "receipt_done rq r d0 a d \<longleftrightarrow> store_inv d \<and>
     (\<exists>m. entitled rq r d0 m \<and> a = accepted (ra_status a) rq r m) \<and>
     (case ra_status a of
        RsAlreadyReceived \<Rightarrow> d = d0 \<and> history d0 (rq_message_id rq) = [U ''submitted'', U ''received'']
      | RsReceived \<Rightarrow>
          history d0 (rq_message_id rq) = [U ''submitted''] \<and>
          (\<exists>e. d = add_event e d0 \<and> e_message e = rq_message_id rq \<and> e_type e = U ''received'' \<and>
             e_proof e = receipt_proof_source))"

lemma receipt_refusal_None:
  assumes "receipt_refusal rq r row = None"
  shows "m_conversation (rr_message row) = rq_conversation_id rq" "m_seq (rr_message row) = rq_conversation_seq rq"
    "m_runtime (rr_message row) = rq_runtime_session_id rq" "m_socket (rr_message row) = rq_socket_namespace rq"
    "pt_label (rr_to row) = rv_agent_label r" "target_mismatch r (rr_to row) = None"
    "\<not> receiver_is_sender r (rr_message row) (rr_from row)"
  using assms by (auto simp: receipt_refusal_def Let_def split: if_splits option.splits)

lemma select_receipt_Some:
  assumes "sql_select_receipt mid d = Inr (d', Some row)"
  shows "d' = d" "rr_message row \<in> set (messages d)" "m_id (rr_message row) = mid"
    "rr_from row \<in> set (participants d)" "pt_id (rr_from row) = m_from (rr_message row)"
    "rr_to row \<in> set (participants d)" "pt_id (rr_to row) = m_to (rr_message row)"
  using assms
  by (auto simp: sql_select_receipt_def bind_eq_Some_conv dest!: find_SomeD)

lemma legal_last:
  assumes "h \<in> legal_histories" "h \<noteq> []"
  shows "last h = U ''received'' \<longleftrightarrow> h = [U ''submitted'', U ''received'']"
    "last h = U ''submitted'' \<longleftrightarrow> h = [U ''submitted'']"
  using assms by (auto simp: legal_histories_def event_strings event_strings [symmetric])

lemma triple_received:
  "triple (\<lambda>d. d = d0 \<and> store_inv d) (append_received_event_in_tx E rq r current_runtime now)
     (receipt_done rq r d0)"
proof -
  let ?mid = "rq_message_id rq"
  let ?found = "\<lambda>row d. d = d0 \<and> store_inv d \<and>
    (\<forall>x. row = Some x \<longrightarrow> receipt_refusal rq r x = None \<longrightarrow> entitled rq r d0 (rr_message x))"
  have 1: "triple (\<lambda>d. d = d0 \<and> store_inv d) (exec E (sql_select_receipt ?mid)) ?found"
  proof (rule triple_exec)
    fix d d' row
    assume d: "d = d0 \<and> store_inv d" and sel: "sql_select_receipt ?mid d = Inr (d', row)"
    have "d' = d" using sel by (auto simp: sql_select_receipt_def)
    moreover have "entitled rq r d0 (rr_message x)" if "row = Some x" "receipt_refusal rq r x = None" for x
      using select_receipt_Some [of ?mid d d' x] receipt_refusal_None [OF that(2)] sel that(1) d
      unfolding entitled_def by blast
    ultimately show "?found row d'" using d by blast
  qed
  let ?latest = "\<lambda>x l d. d = d0 \<and> store_inv d \<and> entitled rq r d0 (rr_message x) \<and>
    l = (if history d0 ?mid = [] then None else Some (last (history d0 ?mid))) \<and>
    history d0 ?mid \<in> legal_histories"
  have 2: "triple (?found (Some x)) (exec E (sql_latest_event_type ?mid)) (?latest x)"
    if "receipt_refusal rq r x = None" for x
  proof (rule triple_exec)
    fix d d' l
    assume d: "?found (Some x) d" and sel: "sql_latest_event_type ?mid d = Inr (d', l)"
    have e: "entitled rq r d0 (rr_message x)" using d that by blast
    then have "?mid \<in> m_id ` set (messages d0)" unfolding entitled_def by (metis image_eqI)
    with d have "history d0 ?mid \<in> legal_histories" using history_legal [of d0 ?mid] by blast
    moreover have "evt_inv d0" using d by (auto simp: store_inv_def)
    ultimately show "?latest x l d'"
      using d e sel latest_event_type [of d0 ?mid] by (auto simp: sql_latest_event_type_def)
  qed
  let ?in = "\<lambda>ts. \<lparr>de_message_id = ?mid, de_event_type = Received, de_proof_source = receipt_proof_source,
      de_timestamp = ts, de_payload = receipt_payload rq r ts current_runtime\<rparr>"
  have app: "triple (?latest x (Some (U ''submitted''))) (append_delivery_event_in_transaction E (?in ts))
      (\<lambda>_. receipt_done rq r d0 (accepted RsReceived rq r (rr_message x)))" for x ts
  proof (rule triple_at)
    fix d1
    assume l: "?latest x (Some (U ''submitted'')) d1"
    then have h: "history d0 ?mid = [U ''submitted'']"
      using legal_last(2) [of "history d0 ?mid"] by (auto split: if_splits)
    show "triple (\<lambda>d. d = d1) (append_delivery_event_in_transaction E (?in ts))
        (\<lambda>_. receipt_done rq r d0 (accepted RsReceived rq r (rr_message x)))"
      using l h
      by (intro triple_weaken [OF triple_pre [OF triple_append_event [of d0]]])
        (auto simp: appended_def receipt_done_def accepted_def)
  qed
  have already: "receipt_done rq r d0 (accepted RsAlreadyReceived rq r (rr_message x)) d"
    if "?latest x (Some (U ''received'')) d" for x d
  proof -
    have "history d0 ?mid = [U ''submitted'', U ''received'']"
      using that legal_last(1) [of "history d0 ?mid"] by (auto split: if_splits)
    with that show ?thesis by (auto simp: receipt_done_def accepted_def)
  qed
  have tail: "triple (?latest x l) (case l of
        None \<Rightarrow> dfail (U ''invalid_delivery_transition'') (U ''message has no submission to receive'')
      | Some s \<Rightarrow>
          if s = U ''received'' then dreturn (accepted RsAlreadyReceived rq r (rr_message x))
          else if s = U ''submitted'' then
            dbind (append_delivery_event_in_transaction E (?in ts)) (\<lambda>_.
              dreturn (accepted RsReceived rq r (rr_message x)))
          else if s = U ''drafted'' then
            dfail (U ''draft_not_submitted'') (U ''message is drafted, not submitted; it cannot be received'')
          else if s = U ''failed'' then
            dfail (U ''already_failed'') (U ''message delivery already failed; retry creates a new message'')
          else dfail (U ''invalid_delivery_transition'') (U ''message has no submission to receive''))
      (receipt_done rq r d0)" for x l ts
  proof (rule triple_option, rule triple_fail)
    fix s
    assume l: "l = Some s"
    have ret: "triple (?latest x l) (dreturn (accepted RsAlreadyReceived rq r (rr_message x))) (receipt_done rq r d0)"
      if "s = U ''received''"
      using already that l by (intro triple_return) blast
    have sub: "triple (?latest x l) (dbind (append_delivery_event_in_transaction E (?in ts)) (\<lambda>_.
              dreturn (accepted RsReceived rq r (rr_message x)))) (receipt_done rq r d0)"
      if "s = U ''submitted''"
      using app [of x ts] l that by (intro triple_bind [OF _ triple_return]) simp_all
    show "triple (?latest x l)
        (if s = U ''received'' then dreturn (accepted RsAlreadyReceived rq r (rr_message x))
          else if s = U ''submitted'' then
            dbind (append_delivery_event_in_transaction E (?in ts)) (\<lambda>_.
              dreturn (accepted RsReceived rq r (rr_message x)))
          else if s = U ''drafted'' then
            dfail (U ''draft_not_submitted'') (U ''message is drafted, not submitted; it cannot be received'')
          else if s = U ''failed'' then
            dfail (U ''already_failed'') (U ''message delivery already failed; retry creates a new message'')
          else dfail (U ''invalid_delivery_transition'') (U ''message has no submission to receive''))
        (receipt_done rq r d0)"
      by (intro triple_if ret sub triple_fail)
  qed
  show ?thesis
    unfolding append_received_event_in_tx_def Let_def
  proof (rule triple_bind [OF 1], rule triple_option, rule triple_fail)
    fix found :: "receipt_row option" and x
    assume f: "found = Some x"
    show "triple (?found found) (case receipt_refusal rq r x of
              Some (code, msg) \<Rightarrow> dfail code msg
            | None \<Rightarrow> dbind (exec E (sql_latest_event_type ?mid)) (\<lambda>l. case l of
        None \<Rightarrow> dfail (U ''invalid_delivery_transition'') (U ''message has no submission to receive'')
      | Some s \<Rightarrow>
          if s = U ''received'' then dreturn (accepted RsAlreadyReceived rq r (rr_message x))
          else if s = U ''submitted'' then
            dbind (append_delivery_event_in_transaction E
                (?in (if present (rq_timestamp rq) then the (rq_timestamp rq) else now))) (\<lambda>_.
              dreturn (accepted RsReceived rq r (rr_message x)))
          else if s = U ''drafted'' then
            dfail (U ''draft_not_submitted'') (U ''message is drafted, not submitted; it cannot be received'')
          else if s = U ''failed'' then
            dfail (U ''already_failed'') (U ''message delivery already failed; retry creates a new message'')
          else dfail (U ''invalid_delivery_transition'') (U ''message has no submission to receive'')))
        (receipt_done rq r d0)"
    proof (cases "receipt_refusal rq r x")
      case None
      show ?thesis unfolding None option.case f by (rule triple_bind [OF 2 [OF None] tail])
    next
      case (Some cm)
      then show ?thesis by (cases cm) (simp add: triple_fail)
    qed
  qed
qed

interpretation receipt_tx: transaction
  "\<lambda>E. append_received_event_in_tx E rq r current_runtime now"
  "\<lambda>d. d = d0 \<and> store_inv d" "\<lambda>_. receipt_done rq r d0"
  for rq r current_runtime now d0
  by unfold_locales (rule triple_received)

section \<open>Properties of receipts\<close>

text \<open>
  C2. A receipt is recorded only for its addressee and never for the sender. Whatever statements
  fail, a receipt that reports an error has changed no table. One that reports success was quoted
  for the server's own socket; the stored message has the quoted id, conversation, sequence
  number, runtime and socket; the receiver has the label of the stored target and either runs
  exactly its complete stored hook session or, when no session was stored, sits in its stored
  terminal; the message is not addressed to its own sender, and the receiver does not carry the
  stored sender's label together with the sender's session (its terminal where no complete
  session is stored, its pane where no terminal is stored either). Either the message had already been
  received and nothing changed, or its history was exactly \<open>submitted\<close> and is now extended by one
  \<open>received\<close> event with the proof source \<open>pane_tree\<close>.
\<close>

theorem receipt_only_for_addressee:
  assumes "txn c = None" and "store_inv (disk c)"
  shows "case append_received_event E rq r socket runtime now c of
    (Inl e, c') \<Rightarrow> disk c' = disk c
  | (Inr a, c') \<Rightarrow> rq_socket_namespace rq = socket \<and> txn c' = None \<and> store_inv (disk c') \<and>
      (\<exists>m \<in> set (messages (disk c)). \<exists>tp \<in> set (participants (disk c)). \<exists>fp \<in> set (participants (disk c)).
         m_id m = rq_message_id rq \<and> m_conversation m = rq_conversation_id rq \<and>
         m_seq m = rq_conversation_seq rq \<and> m_runtime m = rq_runtime_session_id rq \<and>
         m_socket m = socket \<and> ra_message_id a = m_id m \<and> ra_conversation_id a = m_conversation m \<and>
         pt_id tp = m_to m \<and> is_addressee r tp \<and>
         pt_id fp = m_from m \<and> \<not> is_sender r fp \<and> m_from m \<noteq> m_to m) \<and>
      (if ra_status a = RsAlreadyReceived
       then disk c' = disk c \<and> history (disk c) (rq_message_id rq) = [U ''submitted'', U ''received'']
       else history (disk c) (rq_message_id rq) = [U ''submitted''] \<and>
            history (disk c') (rq_message_id rq) = [U ''submitted'', U ''received''] \<and>
            (\<exists>e. delivery_events (disk c') = delivery_events (disk c) @ [e] \<and> e_proof e = receipt_proof_source))"
proof (cases "rq_socket_namespace rq = socket")
  case False
  then show ?thesis by (simp add: append_received_event_def dfail_def)
next
  case True
  obtain res c' where run: "append_received_event E rq r socket runtime now c = (res, c')" by fastforce
  with True have tx: "with_transaction E (append_received_event_in_tx E rq r runtime now) c = (res, c')"
    by (simp add: append_received_event_def)
  note at = receipt_tx.atomic [OF assms(1) conjI [OF refl assms(2)], where E = E and rq = rq and r = r and
      current_runtime = runtime and now = now, unfolded tx prod.case]
  show ?thesis
  proof (cases res)
    case (Inl e)
    with at run show ?thesis by simp
  next
    case (Inr a)
    with at have d: "receipt_done rq r (disk c) a (disk c')" "txn c' = None" by simp_all
    then obtain m where m: "entitled rq r (disk c) m" "a = accepted (ra_status a) rq r m"
      by (auto simp: receipt_done_def)
    have "ra_message_id (accepted x rq r m) = m_id m" "ra_conversation_id (accepted x rq r m) = m_conversation m" for x
      using m(1) by (simp_all add: accepted_def entitled_def)
    then have ids: "ra_message_id a = m_id m" "ra_conversation_id a = m_conversation m"
      by (metis m(2))+
    have who: "\<exists>m \<in> set (messages (disk c)). \<exists>tp \<in> set (participants (disk c)). \<exists>fp \<in> set (participants (disk c)).
         m_id m = rq_message_id rq \<and> m_conversation m = rq_conversation_id rq \<and>
         m_seq m = rq_conversation_seq rq \<and> m_runtime m = rq_runtime_session_id rq \<and>
         m_socket m = socket \<and> ra_message_id a = m_id m \<and> ra_conversation_id a = m_conversation m \<and>
         pt_id tp = m_to m \<and> is_addressee r tp \<and>
         pt_id fp = m_from m \<and> \<not> is_sender r fp \<and> m_from m \<noteq> m_to m"
    proof (rule entitled_identity [OF m(1)])
      fix tp fp
      assume p: "tp \<in> set (participants (disk c))" "pt_id tp = m_to m" "is_addressee r tp"
        "fp \<in> set (participants (disk c))" "pt_id fp = m_from m" "\<not> is_sender r fp" "m_from m \<noteq> m_to m"
      show ?thesis
        by (rule bexI [of _ m], rule bexI [of _ tp], rule bexI [of _ fp])
          (use p m(1) True ids in \<open>simp_all add: entitled_def\<close>)
    qed
    show ?thesis
      unfolding run prod.case Inr sum.case
      using d True who by (cases "ra_status a") (auto simp: receipt_done_def history_add_event)
  qed
qed

text \<open>A run without failures.\<close>

lemma find_by_key:
  assumes "distinct (map f xs)" and "x \<in> set xs" and "f x = k"
  shows "find (\<lambda>y. f y = k) xs = Some x"
  using assms by (induction xs) (auto simp: image_iff)

lemma select_receipt_entitled:
  assumes "store_inv d" and e: "entitled rq r d m"
  obtains row where "sql_select_receipt (rq_message_id rq) d = Inr (d, Some row)" "rr_message row = m"
    "receipt_refusal rq r row = None"
proof -
  have dist: "distinct (map m_id (messages d))" "distinct (map pt_id (participants d))"
    using assms(1) by (simp_all add: store_inv_def msg_refs_def part_inv_def)
  from e obtain tp fp where tp: "tp \<in> set (participants d)" "pt_id tp = m_to m" "pt_label tp = rv_agent_label r"
      "target_mismatch r tp = None"
    and fp: "fp \<in> set (participants d)" "pt_id fp = m_from m" "\<not> receiver_is_sender r m fp"
    by (auto simp: entitled_def)
  let ?row = "\<lparr>rr_message = m, rr_from = fp, rr_to = tp\<rparr>"
  have "sql_select_receipt (rq_message_id rq) d = Inr (d, Some ?row)"
    using find_by_key [OF dist(1), of m "rq_message_id rq"] find_by_key [OF dist(2) tp(1,2)]
      find_by_key [OF dist(2) fp(1,2)] e
    by (simp add: sql_select_receipt_def entitled_def)
  moreover have "receipt_refusal rq r ?row = None"
    using e tp fp by (simp add: receipt_refusal_def Let_def entitled_def)
  ultimately show ?thesis by (intro that) simp_all
qed

lemma runs_already_received:
  assumes "no_faults E" and "store_inv d" and "entitled rq r d m"
    and "history d (rq_message_id rq) = [U ''submitted'', U ''received'']"
  shows "runs E (append_received_event_in_tx E rq r runtime now) (d, k) (accepted RsAlreadyReceived rq r m) (d, k)"
proof (rule select_receipt_entitled [OF assms(2,3)])
  fix row
  assume row: "sql_select_receipt (rq_message_id rq) d = Inr (d, Some row)" "rr_message row = m"
    "receipt_refusal rq r row = None"
  have latest: "sql_latest_event_type (rq_message_id rq) d = Inr (d, Some (U ''received''))"
    using latest_event_type [of d "rq_message_id rq"] assms(2,4) by (simp add: sql_latest_event_type_def store_inv_def)
  have sel: "runs E (exec E (sql_select_receipt (rq_message_id rq))) (d, k) (Some row) (d, k)"
    using assms(1) row(1) by (rule runs_exec)
  have lat: "runs E (exec E (sql_latest_event_type (rq_message_id rq))) (d, k) (Some (U ''received'')) (d, k)"
    using assms(1) latest by (rule runs_exec)
  show ?thesis
    unfolding append_received_event_in_tx_def
    apply (rule runs_bind [OF sel])
    apply (simp only: option.case row(3))
    apply (rule runs_bind [OF lat])
    apply (simp only: option.case simp_thms if_True row(2))
    apply (rule runs_return)
    done
qed

lemma runs_received:
  assumes nf: "no_faults E" and "store_inv d" and e: "entitled rq r d m"
    and h: "history d (rq_message_id rq) = [U ''submitted'']"
    and enc: "\<And>j. \<exists>t. json_encode E j = Inr t"
    and fresh: "new_prefixed_id (sha256 E) (nanos E (unat k)) (pid E) (U ''evt'') k = (i, k')"
      "i \<notin> e_id ` set (delivery_events d)"
  shows "\<exists>ev. runs E (append_received_event_in_tx E rq r runtime now) (d, k)
    (accepted RsReceived rq r m) (add_event ev d, k') \<and> e_message ev = rq_message_id rq \<and> e_type ev = U ''received''"
proof (rule select_receipt_entitled [OF assms(2) e])
  fix row
  assume row: "sql_select_receipt (rq_message_id rq) d = Inr (d, Some row)" "rr_message row = m"
    "receipt_refusal rq r row = None"
  let ?mid = "rq_message_id rq"
  let ?ts = "if present (rq_timestamp rq) then the (rq_timestamp rq) else now"
  have dist: "distinct (map m_id (messages d))" and evt: "evt_inv d"
    using assms(2) by (simp_all add: store_inv_def msg_refs_def)
  have m: "m \<in> set (messages d)" "m_id m = ?mid" using e by (auto simp: entitled_def)
  have latest: "sql_latest_event_type ?mid d = Inr (d, Some (U ''submitted''))"
    using latest_event_type [OF evt, of ?mid] h by (simp add: sql_latest_event_type_def)
  obtain payload where payload: "json_encode E (receipt_payload rq r ?ts runtime) = Inr payload" using enc by blast
  let ?ev = "\<lparr>e_id = i, e_message = ?mid, e_type = U ''received'', e_proof = receipt_proof_source,
      e_seq = m_delivery_seq m + 1, e_timestamp = ?ts, e_payload = payload\<rparr>"
  let ?d1 = "d\<lparr>messages := map (bump_delivery ?mid) (messages d)\<rparr>"
  have bump: "sql_bump_delivery_seq ?mid d = Inr (?d1, Some (m_delivery_seq m + 1))"
    using find_by_key [OF dist m] by (simp add: sql_bump_delivery_seq_def bump_delivery_def [abs_def])
  have seqs: "map e_seq (events_of d ?mid) = [1..m_delivery_seq m]"
    using evt m by (force simp: evt_inv_def delivery_seqs_def)
  have "m_delivery_seq m + 1 \<notin> e_seq ` set (events_of d ?mid)"
    unfolding set_map [symmetric] seqs by simp
  then have free: "\<not> (\<exists>x \<in> set (delivery_events d). e_message x = ?mid \<and> e_seq x = m_delivery_seq m + 1)"
    by (auto simp: events_of_def image_iff)
  have here: "?mid \<in> m_id ` set (messages d)" using m by (metis image_eqI)
  have checks: "U ''received'' \<in> set event_types" "receipt_proof_source \<in> set proof_sources"
    "receipt_proof_source \<noteq> legacy_receipt_proof_source"
    by code_simp+
  have ins: "sql_insert_event ?ev ?d1 = Inr (add_event ?ev d, ())"
    using checks fresh(2) free here by (simp add: sql_insert_event_def add_event_def o_def)
  have may: "may_append (history d ?mid) Received" by (simp add: may_append_def h)
  have neq: "U ''submitted'' \<noteq> U ''received''" by code_simp
  have sel: "runs E (exec E (sql_select_receipt ?mid)) (d, k) (Some row) (d, k)"
    using nf row(1) by (rule runs_exec)
  have lat: "runs E (exec E (sql_latest_event_type ?mid)) (d, k) (Some (U ''submitted'')) (d, k)"
    using nf latest by (rule runs_exec)
  have bmp: "runs E (exec E (sql_bump_delivery_seq ?mid)) (d, k) (Some (m_delivery_seq m + 1)) (?d1, k)"
    using nf bump by (rule runs_exec)
  have drw: "runs E (draw_id E (U ''evt'')) (?d1, k) i (?d1, k')"
    using fresh(1) by (rule runs_draw_id)
  have insr: "runs E (exec E (sql_insert_event ?ev)) (?d1, k') () (add_event ?ev d, k')"
    using nf ins by (rule runs_exec)
  have val: "runs E (validate_delivery_transition E ?mid Received) (d, k) () (d, k)"
    unfolding validate_delivery_transition_def
    by (rule runs_bind [OF lat]) (simp add: runs_return)
  let ?in = "\<lparr>de_message_id = ?mid, de_event_type = Received, de_proof_source = receipt_proof_source,
      de_timestamp = ?ts, de_payload = receipt_payload rq r ?ts runtime\<rparr>"
  have app: "runs E (append_delivery_event_in_transaction E ?in) (d, k) () (add_event ?ev d, k')"
    unfolding append_delivery_event_in_transaction_def
    apply (simp only: delivery_event_input.select_convs checks(3) if_False)
    apply (rule runs_bind [OF val])
    apply (rule runs_bind [OF bmp])
    apply (simp only: option.case payload sum.case event_type_str.simps)
    apply (rule runs_bind [OF drw])
    apply (rule insr)
    done
  have "runs E (append_received_event_in_tx E rq r runtime now) (d, k) (accepted RsReceived rq r m) (add_event ?ev d, k')"
    unfolding append_received_event_in_tx_def Let_def
    apply (rule runs_bind [OF sel])
    apply (simp only: option.case row(3))
    apply (rule runs_bind [OF lat])
    apply (simp only: option.case neq simp_thms if_True if_False row(2))
    apply (rule runs_bind [OF app])
    apply (rule runs_return)
    done
  then show ?thesis by (intro exI [of _ ?ev]) simp
qed

lemma entitled_add_event:
  assumes "entitled rq r d m"
  shows "entitled rq r (add_event e d) (bump_delivery (e_message e) m)"
proof -
  have "bump_delivery (e_message e) m \<in> set (messages (add_event e d))"
    using assms by (auto simp: entitled_def add_event_def)
  moreover have "receiver_is_sender r (bump_delivery k m) fp = receiver_is_sender r m fp" for k fp
    by (simp add: receiver_is_sender_def)
  ultimately show ?thesis using assms unfolding entitled_def by simp
qed

text \<open>
  C33. Recording a receipt is total and idempotent: when no statement fails, the new event
  identifier is fresh and the receiver is entitled, a receipt for a submitted message is
  recorded, and repeating it reports \<open>already_received\<close> and changes nothing.
\<close>

theorem receipt_idempotent:
  assumes nf: "no_faults E" and "txn c = None" and "store_inv (disk c)"
    and ent: "entitled rq r (disk c) m" and "rq_socket_namespace rq = socket"
    and h: "history (disk c) (rq_message_id rq) = [U ''submitted'']"
    and enc: "\<And>j. \<exists>t. json_encode E j = Inr t"
    and fresh: "fst (new_prefixed_id (sha256 E) (nanos E (unat (id_seq c))) (pid E) (U ''evt'') (id_seq c))
      \<notin> e_id ` set (delivery_events (disk c))"
  shows "\<exists>c1 c2. append_received_event E rq r socket runtime now c = (Inr (accepted RsReceived rq r m), c1) \<and>
    history (disk c1) (rq_message_id rq) = [U ''submitted'', U ''received''] \<and>
    append_received_event E rq r socket runtime' now' c1 = (Inr (accepted RsAlreadyReceived rq r m), c2) \<and>
    disk c2 = disk c1"
proof -
  let ?mid = "rq_message_id rq"
  obtain i k' where id: "new_prefixed_id (sha256 E) (nanos E (unat (id_seq c))) (pid E) (U ''evt'') (id_seq c) = (i, k')"
    by fastforce
  with fresh have "i \<notin> e_id ` set (delivery_events (disk c))" by simp
  from runs_received [OF nf assms(3) ent h enc id this, of runtime now] obtain ev where
    ev: "runs E (append_received_event_in_tx E rq r runtime now) (disk c, id_seq c)
      (accepted RsReceived rq r m) (add_event ev (disk c), k')" "e_message ev = ?mid" "e_type ev = U ''received''"
    by blast
  from runs_transaction [OF nf assms(2) ev(1)] obtain c1 where
    c1: "with_transaction E (append_received_event_in_tx E rq r runtime now) c = (Inr (accepted RsReceived rq r m), c1)"
      "disk c1 = add_event ev (disk c)" "txn c1 = None"
    by blast
  have run1: "append_received_event E rq r socket runtime now c = (Inr (accepted RsReceived rq r m), c1)"
    using c1(1) assms(5) by (simp add: append_received_event_def)
  have inv1: "store_inv (disk c1)"
    using receipt_tx.atomic [OF assms(2) conjI [OF refl assms(3)], where E = E and rq = rq and r = r and
        current_runtime = runtime and now = now] c1(1)
    by (simp add: receipt_done_def)
  have h1: "history (disk c1) ?mid = [U ''submitted'', U ''received'']"
    using h ev(2,3) by (simp add: c1(2) history_add_event)
  let ?m1 = "bump_delivery ?mid m"
  have ent1: "entitled rq r (disk c1) ?m1"
    using entitled_add_event [OF ent, of ev] ev(2) c1(2) by simp
  have acc: "accepted RsAlreadyReceived rq r ?m1 = accepted RsAlreadyReceived rq r m"
    by (simp add: accepted_def)
  from runs_transaction [OF nf c1(3) runs_already_received [OF nf inv1 ent1 h1, of runtime' now' "id_seq c1"]]
  obtain c2 where "with_transaction E (append_received_event_in_tx E rq r runtime' now') c1 =
      (Inr (accepted RsAlreadyReceived rq r m), c2)" "disk c2 = disk c1"
    unfolding acc by blast
  then have "append_received_event E rq r socket runtime' now' c1 = (Inr (accepted RsAlreadyReceived rq r m), c2)"
    using assms(5) by (simp add: append_received_event_def)
  with run1 h1 \<open>disk c2 = disk c1\<close> show ?thesis by blast
qed

section \<open>An example store\<close>

text \<open>One submitted message from \<open>pi\<close> to \<open>codex\<close>, with the rows that a send writes.\<close>

definition sample_part :: "string \<Rightarrow> string \<Rightarrow> participant_row" where
  "sample_part i label = \<lparr>pt_id = U i, pt_conversation = U ''c'', pt_label = U label, pt_pane = Some (U i),
     pt_terminal = Some (U label), pt_terminal_instance = None, pt_source = None, pt_kind = None,
     pt_value = None, pt_key = U label, pt_joined_at = U ''t''\<rparr>"

definition sample_message :: message_row where
  "sample_message = \<lparr>m_rowid = 1, m_id = U ''m'', m_conversation = U ''c'', m_seq = 1, m_delivery_seq = 1,
     m_parent = None, m_runtime = U ''rt'', m_socket = U ''s'', m_created_at = U ''t'',
     m_target_arg = U ''codex'', m_from = U ''p1'', m_to = U ''p2'', m_type = None, m_body = U ''hi'',
     m_body_hash = U ''h'', m_workspace = U ''w'', m_tab = U ''1'', m_cwd = None, m_foreground_cwd = None,
     m_branch = None, m_git_sha = None, m_protocol = U ''{}'', m_meta = U ''{}''\<rparr>"

definition sample_db :: db where
  "sample_db = empty_db\<lparr>
     conversations := [\<lparr>c_id = U ''c'', c_runtime = U ''rt'', c_socket = U ''s'', c_workspace = U ''w'',
       c_tab = U ''1'', c_created_at = U ''t'', c_last_message_at = U ''t'', c_status = U ''active'',
       c_seq = 1, c_meta = U ''{}''\<rparr>],
     participants := [sample_part ''p1'' ''pi'', sample_part ''p2'' ''codex''],
     messages := [sample_message],
     delivery_events := [\<lparr>e_id = U ''e1'', e_message = U ''m'', e_type = U ''submitted'',
       e_proof = U ''pane.send_input'', e_seq = 1, e_timestamp = U ''t'', e_payload = U ''{}''\<rparr>],
     messages_fts := [\<lparr>f_rowid = 1, f_body = U ''hi'', f_type = None, f_branch = None, f_cwd = None,
       f_target_arg = U ''codex''\<rparr>],
     embedding_jobs := [\<lparr>j_id = U ''j1'', j_message = U ''m'', j_model = U ''fake'', j_status = U ''pending'',
       j_attempts = 0, j_last_error = None, j_enqueued_at = U ''t'', j_started_at = None, j_finished_at = None\<rparr>]\<rparr>"

definition sample_conn :: conn where
  "sample_conn = \<lparr>disk = sample_db, txn = None, stmts = 0, id_seq = 0\<rparr>"

definition sample_receipt :: receipt_request where
  "sample_receipt = \<lparr>rq_message_id = U ''m'', rq_conversation_id = U ''c'', rq_conversation_seq = 1,
     rq_runtime_session_id = U ''rt'', rq_socket_namespace = U ''s'', rq_receiver_seq = None,
     rq_timestamp = None, rq_status = None, rq_receiver_agent_session_hint = None\<rparr>"

definition sample_receiver :: authoritative_receiver where
  "sample_receiver = \<lparr>rv_pane_id = U ''p9'', rv_terminal_id = U ''codex'', rv_agent_label = U ''codex'',
     rv_agent_session = None\<rparr>"

lemma sample_store_inv: "store_inv sample_db"
  unfolding store_inv_def by (intro conjI) (code_simp+)

lemma sample_entitled: "entitled sample_receipt sample_receiver (disk sample_conn) sample_message"
  by code_simp

lemma sample_history: "history (disk sample_conn) (rq_message_id sample_receipt) = [U ''submitted'']"
  by code_simp

theorem receipt_only_for_addressee_witness:
  "store_inv (disk sample_conn) \<and> txn sample_conn = None \<and>
   \<not> isl (fst (append_received_event (sample_env (\<lambda>_. None)) sample_receipt sample_receiver
     (U ''s'') (U ''rt'') (U ''t'') sample_conn)) \<and>
   (\<exists>tp \<in> set (participants (disk sample_conn)). is_addressee sample_receiver tp) \<and>
   disk (snd (append_received_event (sample_env (\<lambda>_. None)) sample_receipt
     (sample_receiver\<lparr>rv_agent_label := U ''pi''\<rparr>) (U ''s'') (U ''rt'') (U ''t'') sample_conn)) = disk sample_conn"
proof (intro conjI)
  show inv: "store_inv (disk sample_conn)" using sample_store_inv by (simp add: sample_conn_def)
  show none: "txn sample_conn = None" by (simp add: sample_conn_def)
  let ?run = "\<lambda>r. append_received_event (sample_env (\<lambda>_. None)) sample_receipt r (U ''s'') (U ''rt'') (U ''t'') sample_conn"
  note main = receipt_only_for_addressee [OF none inv, where E = "sample_env (\<lambda>_. None)" and rq = sample_receipt
      and socket = "U ''s''" and runtime = "U ''rt''" and now = "U ''t''"]
  show ok: "\<not> isl (fst (?run sample_receiver))" by code_simp
  then obtain a c' where run: "?run sample_receiver = (Inr a, c')"
    by (metis isl_def old.sum.exhaust prod.collapse)
  show "\<exists>tp \<in> set (participants (disk sample_conn)). is_addressee sample_receiver tp"
    using main [of sample_receiver, unfolded run prod.case sum.case] by blast
  let ?pi = "sample_receiver\<lparr>rv_agent_label := U ''pi''\<rparr>"
  have "isl (fst (?run ?pi))" by code_simp
  then obtain e c'' where bad: "?run ?pi = (Inl e, c'')"
    by (metis isl_def prod.collapse)
  show "disk (snd (?run ?pi)) = disk sample_conn"
    using main [of ?pi, unfolded bad prod.case sum.case] by (simp only: bad snd_conv)
qed

theorem receipt_idempotent_witness:
  "\<exists>c1 c2. append_received_event (sample_env (\<lambda>_. None)) sample_receipt sample_receiver (U ''s'') (U ''rt'') (U ''t'') sample_conn
      = (Inr (accepted RsReceived sample_receipt sample_receiver sample_message), c1) \<and>
    history (disk c1) (rq_message_id sample_receipt) = [U ''submitted'', U ''received''] \<and>
    append_received_event (sample_env (\<lambda>_. None)) sample_receipt sample_receiver (U ''s'') (U ''rt'') (U ''t'') c1
      = (Inr (accepted RsAlreadyReceived sample_receipt sample_receiver sample_message), c2) \<and>
    disk c2 = disk c1"
proof (rule receipt_idempotent [OF _ _ _ sample_entitled _ sample_history])
  show "no_faults (sample_env (\<lambda>_. None))" by (simp add: no_faults_def sample_env_def)
  show "txn sample_conn = None" by (simp add: sample_conn_def)
  show "store_inv (disk sample_conn)" using sample_store_inv by (simp add: sample_conn_def)
  show "rq_socket_namespace sample_receipt = U ''s''" by (simp add: sample_receipt_def)
  show "\<exists>t. json_encode (sample_env (\<lambda>_. None)) j = Inr t" for j by (simp add: sample_env_def)
  show "fst (new_prefixed_id (sha256 (sample_env (\<lambda>_. None))) (nanos (sample_env (\<lambda>_. None)) (unat (id_seq sample_conn)))
      (pid (sample_env (\<lambda>_. None))) (U ''evt'') (id_seq sample_conn)) \<notin> e_id ` set (delivery_events (disk sample_conn))"
    by code_simp
qed

section \<open>The connection of the receipt worker\<close>

text \<open>The jobs the worker serves one after the other on its one open connection.\<close>

record receipt_job =
  rj_request :: receipt_request
  rj_receiver :: authoritative_receiver
  rj_socket :: ustr
  rj_runtime :: ustr
  rj_now :: ustr

fun serve_receipts ::
  "env \<Rightarrow> receipt_job list \<Rightarrow> conn \<Rightarrow> (db_error + receipt_accepted) list \<times> conn" where
  "serve_receipts E [] c = ([], c)"
| "serve_receipts E (job # jobs) c =
     (case append_received_event E (rj_request job) (rj_receiver job) (rj_socket job) (rj_runtime job) (rj_now job) c of
        (res, c1) \<Rightarrow> (case serve_receipts E jobs c1 of (rest, c2) \<Rightarrow> (res # rest, c2)))"

lemma append_refused_in_open_transaction:
  assumes "txn c = Some d" and "\<And>n. stmts c \<le> n \<Longrightarrow> fault E n = None"
  obtains e c' where "append_received_event E rq r socket runtime now c = (Inl e, c')"
    "disk c' = disk c" "txn c' = Some d" "stmts c \<le> stmts c'"
  using assms
  by (cases "rq_socket_namespace rq = socket")
    (auto simp: append_received_event_def dfail_def with_transaction_def dbind_def begin_immediate_def
      attempt_def Let_def)

lemma serve_refused_in_open_transaction:
  assumes "txn c = Some d" and "\<And>n. stmts c \<le> n \<Longrightarrow> fault E n = None"
  shows "length (fst (serve_receipts E jobs c)) = length jobs \<and>
    list_all isl (fst (serve_receipts E jobs c)) \<and>
    disk (snd (serve_receipts E jobs c)) = disk c \<and> txn (snd (serve_receipts E jobs c)) = Some d"
  using assms
proof (induction jobs arbitrary: c)
  case (Cons job jobs)
  obtain e c1 where one: "append_received_event E (rj_request job) (rj_receiver job) (rj_socket job)
      (rj_runtime job) (rj_now job) c = (Inl e, c1)" "disk c1 = disk c" "txn c1 = Some d" "stmts c \<le> stmts c1"
    by (rule append_refused_in_open_transaction [OF Cons.prems])
  have "fault E n = None" if "stmts c1 \<le> n" for n using Cons.prems(2) one(4) that by simp
  from Cons.IH [OF one(3) this] one show ?case by (simp add: split_beta)
qed simp

text \<open>
  C34. A receipt whose \<open>COMMIT\<close> reports an error while SQLite keeps the transaction (as
  \<open>SQLITE_BUSY\<close> does) wedges the receipt worker's connection: the error is returned without a
  \<open>ROLLBACK\<close>, the transaction stays open with the receipt in it, and although no later statement
  fails, every receipt the worker then serves on that connection is refused, whatever it asks,
  and nothing more reaches the disk.
\<close>

theorem receipt_connection_stuck:
  assumes "txn c = None" and "store_inv (disk c)" and "rq_socket_namespace rq = socket"
    and begun: "begin_immediate E c = (Inr (), cb)"
    and body: "append_received_event_in_tx E rq r runtime now cb = (Inr a, cc)"
    and failed: "fault E (stmts cc) = Some (e, False)"
    and quiet: "\<And>n. stmts cc < n \<Longrightarrow> fault E n = None"
  shows "\<exists>c1 d. append_received_event E rq r socket runtime now c = (Inl e, c1) \<and>
    disk c1 = disk c \<and> txn c1 = Some d \<and> receipt_done rq r (disk c) a d \<and>
    (\<forall>jobs. length (fst (serve_receipts E jobs c1)) = length jobs \<and>
       list_all isl (fst (serve_receipts E jobs c1)) \<and>
       disk (snd (serve_receipts E jobs c1)) = disk c)"
proof -
  have cb: "txn cb = Some (disk c)" "disk cb = disk c"
    using begun assms(1) by (auto simp: begin_immediate_def attempt_def Let_def split: option.splits if_splits prod.splits)
  from tripleD [OF triple_received cb(1) conjI [OF refl assms(2)] body] obtain d where
    cc: "txn cc = Some d" "receipt_done rq r (disk c) a d" "disk cc = disk c"
    using cb(2) by auto
  let ?c1 = "cc\<lparr>stmts := stmts cc + 1\<rparr>"
  have "append_received_event E rq r socket runtime now c = (Inl e, ?c1)"
    using assms(3) begun body failed
    by (simp add: append_received_event_def with_transaction_def dbind_def commit_def attempt_def)
  moreover have "fault E n = None" if "stmts ?c1 \<le> n" for n using quiet [of n] that by simp
  with serve_refused_in_open_transaction [of ?c1 d E] cc
  have "\<forall>jobs. length (fst (serve_receipts E jobs ?c1)) = length jobs \<and>
       list_all isl (fst (serve_receipts E jobs ?c1)) \<and>
       disk (snd (serve_receipts E jobs ?c1)) = disk c"
    by simp
  ultimately show ?thesis using cc by (intro exI [of _ ?c1] exI [of _ d]) simp
qed

definition busy_commit :: "nat \<Rightarrow> (db_error \<times> bool) option" where
  "busy_commit n = (if n = 6 then Some (\<lparr>de_code = U ''persistence_busy'', de_message = []\<rparr>, False) else None)"

text \<open>The first receipt reaches its \<open>COMMIT\<close>, the seventh statement, which reports busy.\<close>

definition stuck_begun :: conn where
  "stuck_begun = snd (begin_immediate (sample_env busy_commit) sample_conn)"

definition stuck_body :: "(db_error + receipt_accepted) \<times> conn" where
  "stuck_body = append_received_event_in_tx (sample_env busy_commit) sample_receipt sample_receiver
     (U ''rt'') (U ''t'') stuck_begun"

theorem receipt_connection_stuck_witness:
  "\<exists>e c1. append_received_event (sample_env busy_commit) sample_receipt sample_receiver (U ''s'') (U ''rt'') (U ''t'') sample_conn
     = (Inl e, c1) \<and>
   (\<forall>jobs. list_all isl (fst (serve_receipts (sample_env busy_commit) jobs c1)))"
proof -
  have "\<not> isl (fst stuck_body)" by code_simp
  then obtain a cc where body: "stuck_body = (Inr a, cc)" by (metis isl_def old.sum.exhaust prod.collapse)
  have "stmts (snd stuck_body) = 6" by code_simp
  then have six: "stmts cc = 6" unfolding body snd_conv .
  have begun: "begin_immediate (sample_env busy_commit) sample_conn = (Inr (), stuck_begun)"
    by (simp add: stuck_begun_def begin_immediate_def attempt_def sample_env_def busy_commit_def sample_conn_def Let_def)
  have "\<exists>c1 d. append_received_event (sample_env busy_commit) sample_receipt sample_receiver (U ''s'') (U ''rt'') (U ''t'') sample_conn
      = (Inl \<lparr>de_code = U ''persistence_busy'', de_message = []\<rparr>, c1) \<and>
    disk c1 = disk sample_conn \<and> txn c1 = Some d \<and> receipt_done sample_receipt sample_receiver (disk sample_conn) a d \<and>
    (\<forall>jobs. length (fst (serve_receipts (sample_env busy_commit) jobs c1)) = length jobs \<and>
       list_all isl (fst (serve_receipts (sample_env busy_commit) jobs c1)) \<and>
       disk (snd (serve_receipts (sample_env busy_commit) jobs c1)) = disk sample_conn)"
    by (rule receipt_connection_stuck [OF _ _ _ begun, where cc = cc])
      (use body six sample_store_inv in \<open>simp_all add: stuck_body_def sample_conn_def sample_receipt_def
        sample_env_def busy_commit_def\<close>)
  then show ?thesis by blast
qed

end
