(* ===== verification/Embedding_Workers.thy ===== *)
theory Embedding_Workers
  imports Embedding Receipt
begin

text \<open>
  Several embedding workers on one database. Each worker has its own connection; SQLite
  serialises writers, so an interleaving is a sequence of statements and transactions. The theory
  gives the step relation of that system (claims, fenced writes, failures, lease recovery,
  backfill, in any order, under any pattern of statement failures, a worker that dies being one
  that takes no further step) and proves what the attempt counter is for: no two claims are the
  same, a job is owned by at most one of them, and a job is completed at most once.
\<close>

section \<open>Statements outside a transaction\<close>

lemma exec_auto:
  assumes "exec E f c = (r, c')" and "txn c = None"
  shows "txn c' = None \<and>
    ((\<exists>x. r = Inr x \<and> f (disk c) = Inr (disk c', x)) \<or> (\<exists>e. r = Inl e) \<and> disk c' = disk c)"
  using assms
  by (auto simp: exec_def attempt_def Let_def visible_def store_def
      split: option.splits sum.splits prod.splits if_splits)

lemma exec_auto_disk:
  assumes "txn c = None" and "\<And>d d' x. f d = Inr (d', x) \<Longrightarrow> R d d'" and "\<And>d. R d d"
  shows "txn (snd (exec E f c)) = None \<and> R (disk c) (disk (snd (exec E f c)))"
  using exec_auto [of E f c "fst (exec E f c)" "snd (exec E f c)"] assms by auto

section \<open>How job rows evolve\<close>

definition is_done :: "job_row \<Rightarrow> bool" where
  "is_done j \<longleftrightarrow> j_status j = U ''done''"

definition job_evolves :: "job_row \<Rightarrow> job_row \<Rightarrow> bool" where
  "job_evolves j j' \<longleftrightarrow> j_id j' = j_id j \<and> j_message j' = j_message j \<and> j_model j' = j_model j \<and>
     j_attempts j \<le> j_attempts j' \<and> (is_done j' \<longleftrightarrow> is_done j)"

text \<open>
  The effect of every worker statement but the fenced write: rows keep their identity, attempts
  only grow, nothing becomes or stops being done, and new rows are not done.
\<close>

definition evolves :: "db \<Rightarrow> db \<Rightarrow> bool" where
  "evolves d d' \<longleftrightarrow> message_view d' = message_view d \<and> message_embeddings d' = message_embeddings d \<and>
     (\<exists>f new. embedding_jobs d' = map f (embedding_jobs d) @ new \<and>
        (\<forall>j \<in> set (embedding_jobs d). job_evolves j (f j)) \<and>
        distinct (map j_id new) \<and> (\<forall>j \<in> set new. \<not> is_done j) \<and>
        j_id ` set new \<inter> j_id ` set (embedding_jobs d) = {})"

lemma job_evolves_refl [simp]: "job_evolves j j"
  by (simp add: job_evolves_def)

lemma job_evolves_trans: "job_evolves i j \<Longrightarrow> job_evolves j k \<Longrightarrow> job_evolves i k"
  by (auto simp: job_evolves_def)

lemma job_evolves_ids: "\<forall>j \<in> set js. job_evolves j (f j) \<Longrightarrow> map j_id (map f js) = map j_id js"
  by (auto simp: job_evolves_def)

lemma image_ids: "map j_id xs = map j_id ys \<Longrightarrow> j_id ` set xs = j_id ` set ys"
  by (drule arg_cong [of _ _ set]) simp

lemma evolvesD: "evolves d d' \<Longrightarrow> message_view d' = message_view d \<and> message_embeddings d' = message_embeddings d"
  unfolding evolves_def by (elim conjE) (rule conjI)

lemma evolvesI:
  assumes "message_view d' = message_view d" and "message_embeddings d' = message_embeddings d"
    and "embedding_jobs d' = map f (embedding_jobs d)" and "\<And>j. j \<in> set (embedding_jobs d) \<Longrightarrow> job_evolves j (f j)"
  shows "evolves d d'"
  unfolding evolves_def using assms by (intro conjI exI [of _ f] exI [of _ "[]"]) auto

lemma evolves_refl [simp]: "evolves d d"
  by (rule evolvesI [of _ _ id]) simp_all

lemma evolves_trans:
  assumes "evolves a b" and "evolves b c"
  shows "evolves a c"
proof -
  from assms(1) obtain f new where 1: "embedding_jobs b = map f (embedding_jobs a) @ new"
    "\<forall>j \<in> set (embedding_jobs a). job_evolves j (f j)" "distinct (map j_id new)" "\<forall>j \<in> set new. \<not> is_done j"
    "j_id ` set new \<inter> j_id ` set (embedding_jobs a) = {}"
    unfolding evolves_def by blast
  from assms(2) obtain g new' where 2: "embedding_jobs c = map g (embedding_jobs b) @ new'"
    "\<forall>j \<in> set (embedding_jobs b). job_evolves j (g j)" "distinct (map j_id new')" "\<forall>j \<in> set new'. \<not> is_done j"
    "j_id ` set new' \<inter> j_id ` set (embedding_jobs b) = {}"
    unfolding evolves_def by blast
  have ids: "j_id ` set (embedding_jobs b) = j_id ` set (embedding_jobs a) \<union> j_id ` set new"
    using 1(1,2) by (force simp: job_evolves_def image_Un image_image)
  have g: "map j_id (map g new) = map j_id new" "\<forall>j \<in> set (map g new). \<not> is_done j"
    using 1(1,4) 2(2) by (auto simp: job_evolves_def)
  note gi = image_ids [OF g(1)]
  have "\<forall>j \<in> set (embedding_jobs a). job_evolves j ((g \<circ> f) j)"
  proof
    fix j assume "j \<in> set (embedding_jobs a)"
    then have "job_evolves j (f j)" "f j \<in> set (embedding_jobs b)" using 1(1,2) by auto
    with 2(2) show "job_evolves j ((g \<circ> f) j)" by (simp add: job_evolves_trans [of j "f j"])
  qed
  moreover have "embedding_jobs c = map (g \<circ> f) (embedding_jobs a) @ (map g new @ new')"
    using 1(1) 2(1) by simp
  moreover have "distinct (map j_id (map g new @ new'))"
  proof -
    have "j_id ` set new \<inter> j_id ` set new' = {}" using ids 2(5) by blast
    with 1(3) 2(3) show ?thesis unfolding map_append g(1) distinct_append by simp
  qed
  moreover have "\<forall>j \<in> set (map g new @ new'). \<not> is_done j" using g(2) 2(4) by auto
  moreover have "j_id ` set (map g new @ new') \<inter> j_id ` set (embedding_jobs a) = {}"
    using 1(5) 2(5) unfolding set_append image_Un gi ids by blast
  moreover have "message_view c = message_view a" "message_embeddings c = message_embeddings a"
    using evolvesD [OF assms(1)] evolvesD [OF assms(2)] by simp_all
  ultimately show ?thesis
    unfolding evolves_def by (intro conjI exI [of _ "g \<circ> f"] exI [of _ "map g new @ new'"])
qed

lemma evolves_distinct:
  assumes "evolves d d'" and "distinct (map j_id (embedding_jobs d))"
  shows "distinct (map j_id (embedding_jobs d'))"
proof -
  from assms(1) obtain f new where 1: "embedding_jobs d' = map f (embedding_jobs d) @ new"
    "\<forall>j \<in> set (embedding_jobs d). job_evolves j (f j)" "distinct (map j_id new)"
    "j_id ` set new \<inter> j_id ` set (embedding_jobs d) = {}"
    unfolding evolves_def by blast
  note ids = job_evolves_ids [OF 1(2)]
  show ?thesis using 1(3,4) assms(2) unfolding 1(1) map_append ids distinct_append by auto
qed

lemma evolves_old:
  assumes "evolves d d'" and "j \<in> set (embedding_jobs d)"
  shows "\<exists>j' \<in> set (embedding_jobs d'). job_evolves j j'"
  using assms by (auto simp: evolves_def)

lemma evolves_store_inv:
  assumes "evolves d d'" and "store_inv d"
  shows "store_inv d'"
proof (rule store_inv_jobs [OF _ _ assms(2)])
  show "message_view d' = message_view d" using evolvesD [OF assms(1)] by blast
  show "j_message ` set (embedding_jobs d) \<subseteq> j_message ` set (embedding_jobs d')"
    using evolves_old [OF assms(1)] unfolding job_evolves_def image_iff subset_iff by metis
qed

lemma evolves_done:
  assumes "evolves d d'" and "j' \<in> set (embedding_jobs d')" and "is_done j'"
  shows "\<exists>j \<in> set (embedding_jobs d). job_evolves j j'"
proof -
  from assms(1) obtain f new where "embedding_jobs d' = map f (embedding_jobs d) @ new"
    "\<forall>j \<in> set (embedding_jobs d). job_evolves j (f j)" "\<forall>j \<in> set new. \<not> is_done j"
    unfolding evolves_def by blast
  with assms(2,3) show ?thesis by auto
qed

section \<open>The worker statements\<close>

lemma evolves_update:
  assumes "\<And>j. job_evolves j (f j)"
  shows "evolves d (update_jobs f d)"
  by (rule evolvesI [of _ _ f]) (simp_all add: assms)

lemma evolves_claim:
  assumes "sql_claim now job_id d = Inr (d', r)"
  shows "evolves d d'"
  using assms
  by (auto simp: sql_claim_def runnable_def job_evolves_def is_done_def U_def split: option.splits
      intro!: evolves_update)

lemma evolves_recover: "sql_recover model_id cutoff d = Inr (d', n) \<Longrightarrow> evolves d d'"
  by (auto simp: sql_recover_def stale_running_def job_evolves_def is_done_def U_def intro!: evolves_update)

lemma evolves_mark_failed: "sql_mark_failed now claim e d = Inr (d', u) \<Longrightarrow> evolves d d'"
  by (auto simp: sql_mark_failed_def owned_def job_evolves_def is_done_def U_def intro!: evolves_update)

lemma evolves_insert_job:
  assumes "sql_insert_or_ignore_job row d = Inr (d', n)" and "\<not> is_done row"
  shows "evolves d d'"
proof (cases "d' = d")
  case False
  with assms have "d' = d\<lparr>embedding_jobs := embedding_jobs d @ [row]\<rparr>" "j_id row \<notin> j_id ` set (embedding_jobs d)"
    by (auto simp: sql_insert_or_ignore_job_def split: if_splits)
  with assms(2) show ?thesis
    unfolding evolves_def by (intro conjI exI [of _ id] exI [of _ "[row]"]) (auto simp: message_view_def)
qed simp

lemma backfill_rows_evolves:
  assumes "txn c = None"
  shows "txn (snd (backfill_rows E model_id now n rows c)) = None \<and>
    evolves (disk c) (disk (snd (backfill_rows E model_id now n rows c)))"
  using assms
proof (induction rows arbitrary: n c)
  case (Cons mid rest)
  obtain i s where "draw_id E (U ''ejob'') c = (Inr i, c\<lparr>id_seq := s\<rparr>)"
    by (cases "new_prefixed_id (sha256 E) (nanos E (unat (id_seq c))) (pid E) (U ''ejob'') (id_seq c)")
      (auto simp: draw_id_def)
  then obtain c1 where i: "draw_id E (U ''ejob'') c = (Inr i, c1)" "disk c1 = disk c" "txn c1 = txn c"
    by simp
  let ?row = "\<lparr>j_id = i, j_message = mid, j_model = model_id, j_status = U ''pending'', j_attempts = 0,
        j_last_error = None, j_enqueued_at = now, j_started_at = None, j_finished_at = None\<rparr>"
  have "\<not> is_done ?row" by (simp add: is_done_def U_def)
  then have c2: "txn (snd (exec E (sql_insert_or_ignore_job ?row) c1)) = None \<and>
      evolves (disk c1) (disk (snd (exec E (sql_insert_or_ignore_job ?row) c1)))"
    using i Cons.prems by (intro exec_auto_disk) (auto intro: evolves_insert_job)
  show ?case
  proof (cases "exec E (sql_insert_or_ignore_job ?row) c1")
    case (Pair r c3)
    then show ?thesis
      using c2 i Cons.IH [of c3]
      by (cases r) (auto simp: dbind_def intro: evolves_trans)
  qed
qed (simp add: dreturn_def)

lemma backfill_evolves:
  assumes "txn c = None"
  shows "evolves (disk c) (disk (snd (backfill_missing E model_id limit c)))"
proof (cases "exec E (sql_select_missing model_id limit) c")
  case (Pair r c1)
  then have "txn c1 = None \<and> disk c1 = disk c"
    using exec_auto [OF Pair assms] by (auto simp: sql_select_missing_def)
  with Pair backfill_rows_evolves [of c1 E model_id "now_rfc3339 E c1" 0] show ?thesis
    by (cases r) (auto simp: backfill_missing_def dbind_def with_now_def)
qed

lemma recover_evolves: "txn c = None \<Longrightarrow> evolves (disk c) (disk (snd (recover_running_jobs E model_id c)))"
  unfolding recover_running_jobs_def recover_running_jobs_older_than_def
  by (rule conjunct2, erule exec_auto_disk) (erule evolves_recover, simp)

lemma mark_failed_evolves: "txn c = None \<Longrightarrow> evolves (disk c) (disk (mark_job_failed E claim e c))"
  unfolding mark_job_failed_def with_now_def
  by (rule conjunct2, erule exec_auto_disk) (erule evolves_mark_failed, simp)

section \<open>The system of workers\<close>

text \<open>
  The state: the published tables, the claims granted so far in order, and the jobs whose write
  was acknowledged in order. A granted claim may be used at any later time, once, several times
  or never. The body of a message is read before the write, so the write step takes an arbitrary
  row id, body and vector.
\<close>

record workers =
  w_db :: db
  w_grants :: "job_claim list"
  w_log :: "ustr list"

definition done_jobs :: "db \<Rightarrow> ustr list" where
  "done_jobs d = map j_id (filter is_done (embedding_jobs d))"

definition workers_init :: "workers \<Rightarrow> bool" where
  "workers_init s \<longleftrightarrow> distinct (map j_id (embedding_jobs (w_db s))) \<and> w_grants s = [] \<and>
     w_log s = done_jobs (w_db s) \<and>
     (\<forall>j \<in> set (embedding_jobs (w_db s)). is_done j \<longrightarrow>
        (\<exists>e \<in> set (message_embeddings (w_db s)). em_message e = j_message j \<and> em_model e = j_model j))"

inductive wstep :: "workers \<Rightarrow> workers \<Rightarrow> bool" where
  claim: "txn c = None \<Longrightarrow> disk c = w_db s \<Longrightarrow> with_now E (\<lambda>now. exec E (sql_claim now job_id)) c = (r, c') \<Longrightarrow>
    g = (case r of Inr (Some token) \<Rightarrow> [\<lparr>cl_job = job_id, cl_attempt = token\<rparr>] | _ \<Rightarrow> []) \<Longrightarrow>
    wstep s (s\<lparr>w_db := disk c', w_grants := w_grants s @ g\<rparr>)"
| finish: "txn c = None \<Longrightarrow> disk c = w_db s \<Longrightarrow> cl \<in> set (w_grants s) \<Longrightarrow>
    j \<in> set (embedding_jobs (w_db s)) \<Longrightarrow> j_id j = cl_job cl \<Longrightarrow>
    write_embedding_txn E vec_table rowid v (j_message j) (j_model j) body cl c = (r, c') \<Longrightarrow>
    wstep s (s\<lparr>w_db := disk c', w_log := w_log s @ (if r = Inr Written then [cl_job cl] else [])\<rparr>)"
| failed: "txn c = None \<Longrightarrow> disk c = w_db s \<Longrightarrow> cl \<in> set (w_grants s) \<Longrightarrow>
    wstep s (s\<lparr>w_db := disk (mark_job_failed E cl e c)\<rparr>)"
| recover: "txn c = None \<Longrightarrow> disk c = w_db s \<Longrightarrow> wstep s (s\<lparr>w_db := disk (snd (recover_running_jobs E model_id c))\<rparr>)"
| backfill: "txn c = None \<Longrightarrow> disk c = w_db s \<Longrightarrow> wstep s (s\<lparr>w_db := disk (snd (backfill_missing E model_id limit c))\<rparr>)"

definition winv :: "workers \<Rightarrow> bool" where
  "winv s \<longleftrightarrow> distinct (map j_id (embedding_jobs (w_db s))) \<and> distinct (w_grants s) \<and>
     (\<forall>cl \<in> set (w_grants s). \<exists>j \<in> set (embedding_jobs (w_db s)). j_id j = cl_job cl \<and> cl_attempt cl \<le> j_attempts j) \<and>
     distinct (w_log s) \<and> set (w_log s) = set (done_jobs (w_db s)) \<and>
     (\<forall>j \<in> set (embedding_jobs (w_db s)). is_done j \<longrightarrow>
        (\<exists>e \<in> set (message_embeddings (w_db s)). em_message e = j_message j \<and> em_model e = j_model j))"

lemma same_job:
  "distinct (map j_id js) \<Longrightarrow> i \<in> set js \<Longrightarrow> j \<in> set js \<Longrightarrow> j_id i = j_id j \<Longrightarrow> i = j"
  by (simp add: distinct_map inj_on_def)

lemma done_jobs_iff: "i \<in> set (done_jobs d) \<longleftrightarrow> (\<exists>j \<in> set (embedding_jobs d). is_done j \<and> j_id j = i)"
  by (auto simp: done_jobs_def)

lemma evolves_done_jobs: "evolves d d' \<Longrightarrow> set (done_jobs d') = set (done_jobs d)"
  using evolves_old evolves_done unfolding set_eq_iff done_jobs_iff job_evolves_def by metis

text \<open>A step that only lets rows evolve keeps everything but the list of grants.\<close>

lemma winv_evolves:
  assumes "winv s" and "evolves (w_db s) d'" and "distinct (w_grants s @ g)"
    and "\<And>cl. cl \<in> set g \<Longrightarrow> \<exists>j \<in> set (embedding_jobs d'). j_id j = cl_job cl \<and> cl_attempt cl \<le> j_attempts j"
  shows "winv (s\<lparr>w_db := d', w_grants := w_grants s @ g\<rparr>)"
proof -
  have grants: "\<exists>j \<in> set (embedding_jobs d'). j_id j = cl_job cl \<and> cl_attempt cl \<le> j_attempts j"
    if "cl \<in> set (w_grants s @ g)" for cl
  proof (cases "cl \<in> set g")
    case False
    with that assms(1) obtain j where "j \<in> set (embedding_jobs (w_db s))" "j_id j = cl_job cl" "cl_attempt cl \<le> j_attempts j"
      by (auto simp: winv_def)
    with evolves_old [OF assms(2), of j] show ?thesis by (fastforce simp: job_evolves_def)
  qed (rule assms(4))
  have emb: "\<exists>e \<in> set (message_embeddings d'). em_message e = j_message j' \<and> em_model e = j_model j'"
    if j': "j' \<in> set (embedding_jobs d')" "is_done j'" for j'
    using evolves_done [OF assms(2) j'] evolvesD [OF assms(2)] assms(1) j'(2)
    by (auto simp: winv_def job_evolves_def)
  show ?thesis
    using assms(1,3) grants emb evolves_done_jobs [OF assms(2)] evolves_distinct [OF assms(2)]
    unfolding winv_def by simp
qed

lemma claim_token:
  assumes "sql_claim now job_id d = Inr (d', Some token)" and "distinct (map j_id (embedding_jobs d))"
  shows "\<exists>j \<in> set (embedding_jobs d). j_id j = job_id \<and> token = j_attempts j + 1"
    and "\<exists>j' \<in> set (embedding_jobs d'). j_id j' = job_id \<and> owned \<lparr>cl_job = job_id, cl_attempt = token\<rparr> j'"
proof -
  from assms(1) obtain j where j: "j \<in> set (embedding_jobs d)" "j_id j = job_id" "runnable j" "token = j_attempts j + 1"
    by (auto simp: sql_claim_def dest!: find_SomeD split: option.splits)
  then show "\<exists>j \<in> set (embedding_jobs d). j_id j = job_id \<and> token = j_attempts j + 1" by blast
  have "embedding_jobs d' = map (\<lambda>j. if j_id j = job_id \<and> runnable j
      then j\<lparr>j_status := U ''running'', j_started_at := Some now, j_attempts := j_attempts j + 1\<rparr> else j) (embedding_jobs d)"
    using assms(1) by (auto simp: sql_claim_def split: option.splits)
  with j have "j\<lparr>j_status := U ''running'', j_started_at := Some now, j_attempts := j_attempts j + 1\<rparr> \<in> set (embedding_jobs d')"
    by (auto simp: image_iff intro: bexI [of _ j])
  with j show "\<exists>j' \<in> set (embedding_jobs d'). j_id j' = job_id \<and> owned \<lparr>cl_job = job_id, cl_attempt = token\<rparr> j'"
    by (intro bexI) (auto simp: owned_def)
qed

lemma winv_claim:
  assumes "winv s" and "txn c = None" and "disk c = w_db s"
    and "with_now E (\<lambda>now. exec E (sql_claim now job_id)) c = (r, c')"
  shows "winv (s\<lparr>w_db := disk c', w_grants := w_grants s @
    (case r of Inr (Some token) \<Rightarrow> [\<lparr>cl_job = job_id, cl_attempt = token\<rparr>] | _ \<Rightarrow> [])\<rparr>)" (is "winv (s\<lparr>w_db := _, w_grants := _ @ ?g\<rparr>)")
proof -
  let ?now = "now_rfc3339 E c"
  have ex: "exec E (sql_claim ?now job_id) c = (r, c')" using assms(4) by (simp add: with_now_def)
  note ea = exec_auto [OF ex assms(2)]
  have ev: "evolves (w_db s) (disk c')" using ea assms(3) by (auto intro: evolves_claim)
  have dist: "distinct (map j_id (embedding_jobs (w_db s)))" using assms(1) by (simp add: winv_def)
  have new: "distinct (w_grants s @ ?g) \<and>
      (\<forall>cl \<in> set ?g. \<exists>j \<in> set (embedding_jobs (disk c')). j_id j = cl_job cl \<and> cl_attempt cl \<le> j_attempts j)"
  proof (cases "\<exists>token. r = Inr (Some token)")
    case True
    then obtain token where r: "r = Inr (Some token)" by blast
    with ea assms(3) have q: "sql_claim ?now job_id (w_db s) = Inr (disk c', Some token)" by auto
    from claim_token(1) [OF q dist] obtain j where
      j: "j \<in> set (embedding_jobs (w_db s))" "j_id j = job_id" "token = j_attempts j + 1" by blast
    have "\<lparr>cl_job = job_id, cl_attempt = token\<rparr> \<notin> set (w_grants s)"
    proof
      assume "\<lparr>cl_job = job_id, cl_attempt = token\<rparr> \<in> set (w_grants s)"
      then obtain j' where "j' \<in> set (embedding_jobs (w_db s))" "j_id j' = job_id" "token \<le> j_attempts j'"
        using assms(1) by (force simp: winv_def)
      with same_job [OF dist] j show False by fastforce
    qed
    with claim_token(2) [OF q dist] assms(1) r show ?thesis by (auto simp: winv_def owned_def)
  next
    case False
    then have "?g = []" by (auto split: sum.splits option.splits)
    with assms(1) show ?thesis by (simp add: winv_def)
  qed
  from new show ?thesis by (intro winv_evolves [OF assms(1) ev]) auto
qed

lemma winv_finish:
  assumes "winv s" and "txn c = None" and "disk c = w_db s"
    and "j \<in> set (embedding_jobs (w_db s))" and "j_id j = cl_job cl"
    and "write_embedding_txn E vec_table rowid v (j_message j) (j_model j) body cl c = (r, c')"
  shows "winv (s\<lparr>w_db := disk c', w_log := w_log s @ (if r = Inr Written then [cl_job cl] else [])\<rparr>)"
proof (cases "r = Inr Written")
  case False
  with write_embedding_txn_cases [OF assms(2,6)] assms(3) have "disk c' = w_db s" by simp
  with False assms(1) show ?thesis by simp
next
  case True
  from True write_embedding_txn_cases [OF assms(2,6)] assms(3) obtain now where
    own: "\<exists>j \<in> set (embedding_jobs (w_db s)). owned cl j" and
    jobs: "embedding_jobs (disk c') = map (mark_done now cl) (embedding_jobs (w_db s))" and
    emb: "message_embeddings (disk c') = filter (\<lambda>e. \<not> (em_message e = j_message j \<and> em_model e = j_model j)) (message_embeddings (w_db s))
          @ [\<lparr>em_message = j_message j, em_model = j_model j, em_rowid = rowid,
              em_text_hash = Some (body_hash (sha256 E) body), em_created_at = now\<rparr>]"
    by (auto simp: embedding_written_def)
  have dist: "distinct (map j_id (embedding_jobs (w_db s)))" using assms(1) by (simp add: winv_def)
  have only: "owned cl i \<Longrightarrow> i = j" if "i \<in> set (embedding_jobs (w_db s))" for i
    using that same_job [OF dist] assms(4,5) by (auto simp: owned_def)
  have jo: "owned cl j" using own only by blast
  have md: "mark_done now cl i = i \<or> i = j" if "i \<in> set (embedding_jobs (w_db s))" for i
    using only [OF that] by (auto simp: mark_done_def)
  have mk: "j_id (mark_done now cl i) = j_id i" "j_message (mark_done now cl i) = j_message i"
    "j_model (mark_done now cl i) = j_model i" "j_attempts (mark_done now cl i) = j_attempts i"
    "is_done (mark_done now cl i) \<longleftrightarrow> is_done i \<or> owned cl i" for i
    by (auto simp: mark_done_def is_done_def owned_def U_def)
  have fresh: "cl_job cl \<notin> set (w_log s)"
  proof
    assume "cl_job cl \<in> set (w_log s)"
    with assms(1) obtain i where "i \<in> set (embedding_jobs (w_db s))" "is_done i" "j_id i = cl_job cl"
      by (auto simp: winv_def done_jobs_iff)
    with same_job [OF dist, of i j] assms(4,5) jo show False by (auto simp: is_done_def owned_def U_def)
  qed
  have dj: "set (done_jobs (disk c')) = insert (cl_job cl) (set (done_jobs (w_db s)))"
  proof -
    have "(is_done i \<or> owned cl i) \<and> j_id i = k \<longleftrightarrow> is_done i \<and> j_id i = k \<or> i = j \<and> k = cl_job cl"
      if "i \<in> set (embedding_jobs (w_db s))" for i k
      using only [OF that] jo assms(5) by blast
    then show ?thesis using assms(4) unfolding set_eq_iff insert_iff done_jobs_iff jobs by (simp add: mk) blast
  qed
  have e: "\<exists>e \<in> set (message_embeddings (disk c')). em_message e = j_message i \<and> em_model e = j_model i"
    if i: "i \<in> set (embedding_jobs (w_db s))" "is_done i \<or> owned cl i" for i
  proof (cases "j_message i = j_message j \<and> j_model i = j_model j")
    case False
    with i only have "is_done i" by blast
    with assms(1) i obtain e where "e \<in> set (message_embeddings (w_db s))" "em_message e = j_message i" "em_model e = j_model i"
      unfolding winv_def by blast
    with False emb show ?thesis by auto
  qed (simp add: emb)
  have g: "\<exists>j \<in> set (embedding_jobs (disk c')). j_id j = cl_job k \<and> cl_attempt k \<le> j_attempts j"
    if "k \<in> set (w_grants s)" for k
    using assms(1) that by (auto simp: winv_def jobs mk)
  have ids: "map j_id (embedding_jobs (disk c')) = map j_id (embedding_jobs (w_db s))" by (simp add: jobs mk)
  have es: "\<forall>i \<in> set (embedding_jobs (disk c')). is_done i \<longrightarrow>
      (\<exists>e \<in> set (message_embeddings (disk c')). em_message e = j_message i \<and> em_model e = j_model i)"
    using e by (simp add: jobs mk)
  show ?thesis
    using assms(1) True fresh dj es g dist unfolding winv_def by (simp add: ids)
qed

lemma winv_step: "wstep s t \<Longrightarrow> winv s \<Longrightarrow> winv t"
proof (induction rule: wstep.induct)
  case (claim c s E job_id r c' g)
  then show ?case using winv_claim by blast
next
  case (finish c s cl j E vec_table rowid v body r c')
  show ?case by (rule winv_finish [OF finish(7,1,2,4,5,6)])
next
  case (failed c s cl E e)
  then show ?case using winv_evolves [of s "disk (mark_job_failed E cl e c)" "[]"] mark_failed_evolves [of c E cl e]
    by (simp add: winv_def)
next
  case (recover c s E model_id)
  then show ?case using winv_evolves [of s "disk (snd (recover_running_jobs E model_id c))" "[]"] recover_evolves [of c E model_id]
    by (simp add: winv_def)
next
  case (backfill c s E model_id limit)
  then show ?case using winv_evolves [of s "disk (snd (backfill_missing E model_id limit c))" "[]"] backfill_evolves [of c E model_id limit]
    by (simp add: winv_def)
qed

interpretation worker_system: inductive_system workers_init wstep winv
proof
  show "winv s" if "workers_init s" for s
    using that by (simp add: workers_init_def winv_def done_jobs_def distinct_map_filter)
qed (rule winv_step)

section \<open>A job that is run settles\<close>

text \<open>When no statement fails, a transaction stays open until it is ended.\<close>

definition stays_open :: "'a dbm \<Rightarrow> bool" where
  "stays_open m \<longleftrightarrow> (\<forall>c. txn c \<noteq> None \<longrightarrow> txn (snd (m c)) \<noteq> None)"

lemma stays_open_exec: "no_faults E \<Longrightarrow> stays_open (exec E f)"
  by (auto simp: stays_open_def exec_def attempt_no_fault store_def split: sum.splits prod.splits option.splits)

lemma stays_open_return: "stays_open (dreturn x)"
  by (simp add: stays_open_def dreturn_def)

lemma stays_open_bind: "stays_open m \<Longrightarrow> (\<And>x. stays_open (f x)) \<Longrightarrow> stays_open (dbind m f)"
  unfolding stays_open_def dbind_def by (auto split: prod.splits sum.splits)

lemma stays_open_with_now: "(\<And>t. stays_open (f t)) \<Longrightarrow> stays_open (with_now E f)"
  by (simp add: stays_open_def with_now_def)

lemma write_embedding_stays_open:
  "no_faults E \<Longrightarrow> stays_open (write_embedding_in_transaction E vec_table rowid v mid model_id body claim)"
  unfolding write_embedding_in_transaction_def
  by (intro stays_open_with_now stays_open_bind stays_open_exec)
    (auto intro!: stays_open_bind stays_open_exec stays_open_return)

lemma write_embedding_txn_closes:
  assumes "no_faults E" and "txn c = None"
  shows "txn (snd (write_embedding_txn E vec_table rowid v mid model_id body claim c)) = None"
proof -
  let ?c0 = "c\<lparr>stmts := Suc (stmts c), txn := Some (disk c)\<rparr>"
  obtain r c1 where w: "write_embedding_in_transaction E vec_table rowid v mid model_id body claim ?c0 = (r, c1)"
    by fastforce
  have b: "begin_immediate E c = (Inr (), ?c0)"
    using assms by (simp add: begin_immediate_def attempt_no_fault)
  have "txn c1 \<noteq> None"
    using write_embedding_stays_open [OF assms(1)] w unfolding stays_open_def
    by (metis conn.select_convs(2) conn.surjective conn.update_convs(2) option.distinct(1) snd_conv)
  then have "txn (snd (rollback E c1)) = None" "\<exists>c2. commit E c1 = (Inr (), c2) \<and> txn c2 = None"
    using assms(1) by (auto simp: rollback_def commit_def attempt_no_fault)
  then show ?thesis
    by (cases r) (auto simp: write_embedding_txn_def dbind_def b w split: write_outcome.splits)
qed

lemma run_job_inner_cases:
  assumes "no_faults E" and "txn c = None" and "j \<in> set (embedding_jobs (disk c))" and "owned claim j"
    and "run_job_inner E emb mid model_id vec_table dim claim c = (r, c')"
  shows "txn c' = None \<and> (case r of
      Inr _ \<Rightarrow> \<exists>j' \<in> set (embedding_jobs (disk c')). is_done j' \<and> j_id j' = j_id j \<and> j_attempts j' = j_attempts j
    | Inl _ \<Rightarrow> disk c' = disk c)"
proof -
  let ?c1 = "c\<lparr>stmts := stmts c + 1\<rparr>"
  have sel: "exec E (sql_select_body mid) c =
      (Inr (map_option (\<lambda>m. (m_rowid m, m_body m)) (find (\<lambda>m. m_id m = mid) (messages (disk c)))), ?c1)"
    using assms(1,2) by (simp add: exec_def attempt_no_fault sql_select_body_def visible_def store_def)
  show ?thesis
  proof (cases "\<exists>m v. find (\<lambda>m. m_id m = mid) (messages (disk c)) = Some m \<and> checked_vector dim (emb (m_body m)) = Inr v")
    case False
    with sel assms(2,5) show ?thesis
      by (auto simp: run_job_inner_def job_db_def split: option.splits sum.splits)
  next
    case True
    then obtain m v where m: "find (\<lambda>m. m_id m = mid) (messages (disk c)) = Some m"
      "checked_vector dim (emb (m_body m)) = Inr v" by blast
    obtain rw c2 where w: "write_embedding_txn E vec_table (m_rowid m) v mid model_id (m_body m) claim ?c1 = (rw, c2)"
      by fastforce
    have tc: "txn ?c1 = None" "disk ?c1 = disk c" using assms(2) by simp_all
    have c': "c' = c2 \<and> r = (case rw of Inl e \<Rightarrow> Inl (JobDb e) | Inr _ \<Rightarrow> Inr ())"
      using assms(5) sel m w by (auto simp: run_job_inner_def job_db_def split: sum.splits)
    have closed: "txn c2 = None" using write_embedding_txn_closes [OF assms(1) tc(1)] w by (metis snd_conv)
    note wc = write_embedding_txn_cases [OF tc(1) w]
    show ?thesis
    proof (cases "rw = Inr Written")
      case True
      with wc tc(2) obtain now where "embedding_jobs (disk c2) = map (mark_done now claim) (embedding_jobs (disk c))"
        by (auto simp: embedding_written_def)
      moreover have "is_done (mark_done now claim j)" "j_id (mark_done now claim j) = j_id j"
        "j_attempts (mark_done now claim j) = j_attempts j"
        using assms(4) by (simp_all add: mark_done_def is_done_def)
      ultimately show ?thesis using True c' closed assms(3) by auto
    next
      case False
      with wc tc(2) assms(3,4) obtain e where "rw = Inl e" by (cases rw) (auto intro: write_outcome.exhaust)
      with False wc tc(2) c' closed show ?thesis by simp
    qed
  qed
qed

section \<open>The startup backfill ends\<close>

definition backfill_batch :: nat where
  "backfill_batch = 256"

text \<open>The worker repeats the backfill until a pass enqueues nothing or fails; \<open>None\<close> is a loop that never ends.\<close>

partial_function (option) backfill_loop :: "env \<Rightarrow> ustr \<Rightarrow> conn \<Rightarrow> conn option" where
  "backfill_loop E model_id c =
     (case backfill_missing E model_id backfill_batch c of
        (Inl _, c1) \<Rightarrow> Some c1
      | (Inr n, c1) \<Rightarrow> if n = 0 then Some c1 else backfill_loop E model_id c1)"

definition has_job :: "ustr \<Rightarrow> db \<Rightarrow> message_row \<Rightarrow> bool" where
  "has_job model_id d m \<longleftrightarrow> (\<exists>j \<in> set (embedding_jobs d). j_message j = m_id m \<and> j_model j = model_id)"

definition missing :: "ustr \<Rightarrow> db \<Rightarrow> nat" where
  "missing model_id d = length (filter (\<lambda>m. \<not> has_job model_id d m) (messages d))"

lemma insert_job_missing:
  assumes "sql_insert_or_ignore_job row d = Inr (d', n)" and "j_model row = model_id"
  shows "missing model_id d' + n \<le> missing model_id d \<and> messages d' = messages d"
proof (cases "n = 0")
  case True
  with assms show ?thesis by (auto simp: sql_insert_or_ignore_job_def split: if_splits)
next
  case False
  with assms(1) have d': "d' = d\<lparr>embedding_jobs := embedding_jobs d @ [row]\<rparr>" "n = 1"
    and new: "\<not> (\<exists>j \<in> set (embedding_jobs d). j_message j = j_message row \<and> j_model j = model_id)"
    and fk: "j_message row \<in> set (map m_id (messages d))"
    using assms(2) by (auto simp: sql_insert_or_ignore_job_def split: if_splits)
  from fk obtain m where m: "m \<in> set (messages d)" "m_id m = j_message row" by auto
  have hj: "has_job model_id d' x \<longleftrightarrow> has_job model_id d x \<or> m_id x = j_message row" for x
    using assms(2) by (auto simp: has_job_def d')
  have "\<not> has_job model_id d m" using new m(2) by (auto simp: has_job_def)
  then have "m \<in> set (filter (\<lambda>m. \<not> has_job model_id d m) (messages d))" using m(1) by simp
  moreover have "filter (\<lambda>m. \<not> has_job model_id d' m) (messages d') =
      filter (\<lambda>x. m_id x \<noteq> j_message row) (filter (\<lambda>m. \<not> has_job model_id d m) (messages d))"
  proof -
    have "messages d' = messages d" by (simp add: d')
    then show ?thesis by (simp add: hj)
  qed
  ultimately have "missing model_id d' < missing model_id d"
    unfolding missing_def using m(2) by (metis (mono_tags, lifting) length_filter_less)
  with d' show ?thesis by simp
qed

lemma backfill_rows_missing:
  assumes "txn c = None" and "backfill_rows E model_id now k rows c = (r, c')"
  shows "txn c' = None \<and> messages (disk c') = messages (disk c) \<and> missing model_id (disk c') \<le> missing model_id (disk c) \<and>
    (\<forall>n. r = Inr n \<longrightarrow> missing model_id (disk c') + n \<le> missing model_id (disk c) + k)"
  using assms
proof (induction rows arbitrary: k c)
  case Nil
  then show ?case by (auto simp: dreturn_def)
next
  case (Cons mid rest)
  obtain i s where "draw_id E (U ''ejob'') c = (Inr i, c\<lparr>id_seq := s\<rparr>)"
    by (cases "new_prefixed_id (sha256 E) (nanos E (unat (id_seq c))) (pid E) (U ''ejob'') (id_seq c)")
      (auto simp: draw_id_def)
  then obtain c1 where i: "draw_id E (U ''ejob'') c = (Inr i, c1)" "disk c1 = disk c" "txn c1 = None"
    using Cons.prems(1) by simp
  let ?row = "\<lparr>j_id = i, j_message = mid, j_model = model_id, j_status = U ''pending'', j_attempts = 0,
        j_last_error = None, j_enqueued_at = now, j_started_at = None, j_finished_at = None\<rparr>"
  obtain rx c2 where x: "exec E (sql_insert_or_ignore_job ?row) c1 = (rx, c2)" by fastforce
  note ea = exec_auto [OF x i(3)]
  show ?case
  proof (cases rx)
    case (Inl e)
    then have "r = Inl e" "c' = c2" using Cons.prems(2) i(1) x by (simp_all add: dbind_def)
    with Inl ea i(2) show ?thesis by simp
  next
    case (Inr n)
    with ea have q: "sql_insert_or_ignore_job ?row (disk c) = Inr (disk c2, n)" and t: "txn c2 = None" using i(2) by auto
    note im = insert_job_missing [OF q, of model_id]
    have "backfill_rows E model_id now (k + n) rest c2 = (r, c')"
      using Cons.prems(2) i(1) x Inr by (simp add: dbind_def)
    note IH = Cons.IH [OF t this]
    show ?thesis using IH im by auto
  qed
qed

lemma backfill_missing_measure:
  assumes "txn c = None" and "backfill_missing E model_id limit c = (r, c')"
  shows "txn c' = None \<and> (\<forall>n. r = Inr n \<longrightarrow> missing model_id (disk c') + n \<le> missing model_id (disk c))"
proof -
  obtain rs c1 where s: "exec E (sql_select_missing model_id limit) c = (rs, c1)" by fastforce
  have c1: "txn c1 = None" "disk c1 = disk c"
    using exec_auto [OF s assms(1)] by (auto simp: sql_select_missing_def)
  show ?thesis
  proof (cases rs)
    case (Inr rows)
    then have "backfill_rows E model_id (now_rfc3339 E c1) 0 rows c1 = (r, c')"
      using assms(2) s by (simp add: backfill_missing_def dbind_def with_now_def)
    from backfill_rows_missing [OF c1(1) this] c1(2) show ?thesis by auto
  qed (use assms(2) s c1 in \<open>auto simp: backfill_missing_def dbind_def\<close>)
qed

section \<open>Properties\<close>

text \<open>
  C32. The startup backfill terminates on every database and under every pattern of statement
  failures: each pass that enqueues a job leaves fewer messages without one.
\<close>

theorem backfill_loop_terminates:
  assumes "txn c = None"
  shows "\<exists>c'. backfill_loop E model_id c = Some c' \<and> txn c' = None"
  using assms
proof (induction "missing model_id (disk c)" arbitrary: c rule: less_induct)
  case less
  obtain r c1 where b: "backfill_missing E model_id backfill_batch c = (r, c1)" by fastforce
  note m = backfill_missing_measure [OF less.prems b]
  show ?case
  proof (cases "\<exists>n. r = Inr n \<and> n \<noteq> 0")
    case True
    then obtain n where n: "r = Inr n" "n \<noteq> 0" by blast
    with m have "missing model_id (disk c1) < missing model_id (disk c)" "txn c1 = None" by auto
    from less.hyps [OF this] b n show ?thesis by (subst backfill_loop.simps) simp
  next
    case False
    with b m show ?thesis by (subst backfill_loop.simps) (auto split: sum.splits)
  qed
qed

text \<open>
  C5. In every interleaving of any number of workers, with any statement failures, no claim is
  granted twice, at most one grant owns a job at a time, a job is completed at most once, the
  completed jobs are exactly the rows with status \<open>done\<close>, and each of them has its embedding row.
\<close>

theorem embedding_completed_once:
  assumes "reachable workers_init wstep s"
  shows "distinct (w_grants s) \<and> distinct (w_log s) \<and> set (w_log s) = set (done_jobs (w_db s)) \<and>
    length (filter (\<lambda>cl. owned cl j) (w_grants s)) \<le> 1 \<and>
    (\<forall>j \<in> set (embedding_jobs (w_db s)). is_done j \<longrightarrow>
      (\<exists>e \<in> set (message_embeddings (w_db s)). em_message e = j_message j \<and> em_model e = j_model j))"
proof -
  have i: "winv s" by (rule worker_system.reachable_inv [OF assms])
  have "\<forall>a b. owned a j \<longrightarrow> owned b j \<longrightarrow> a = b" by (auto simp: owned_def)
  then have "length (filter (\<lambda>cl. owned cl j) (w_grants s)) \<le> 1"
    using i distinct_card [OF distinct_filter [of "w_grants s" "\<lambda>cl. owned cl j"]]
      card_le_Suc0_iff_eq [OF finite_set, of "filter (\<lambda>cl. owned cl j) (w_grants s)"]
    by (simp add: winv_def)
  with i show ?thesis unfolding winv_def by blast
qed

text \<open>
  C28. A claim whose job was recovered, claimed again or completed by another worker has lost the
  job: its write publishes nothing and does not report success, and its failure report changes
  nothing.
\<close>

theorem stale_claim_is_inert:
  assumes "txn c = None" and "\<forall>j \<in> set (embedding_jobs (disk c)). \<not> owned claim j"
    and "write_embedding_txn E vec_table rowid v mid model_id body claim c = (r, c')"
  shows "r \<noteq> Inr Written \<and> disk c' = disk c \<and> disk (mark_job_failed E claim e c) = disk c"
proof -
  have "r \<noteq> Inr Written"
    using write_embedding_txn_cases [OF assms(1,3)] assms(2) by (auto simp: embedding_written_def)
  moreover have "sql_mark_failed now claim e (disk c) = Inr (disk c, ())" for now
    using assms(2) by (auto simp: sql_mark_failed_def intro: update_jobs_same)
  then have "disk (mark_job_failed E claim e c) = disk c"
    using exec_auto [of E "sql_mark_failed (now_rfc3339 E c) claim e" c] assms(1)
    by (cases "exec E (sql_mark_failed (now_rfc3339 E c) claim e) c") (auto simp: mark_job_failed_def with_now_def)
  ultimately show ?thesis using write_embedding_txn_cases [OF assms(1,3)] by simp
qed

text \<open>
  C29. A runnable job handed to \<open>process_one_job\<close> settles: when no statement fails the call
  succeeds, whatever the provider returns, and leaves the job with one more attempt and in status
  \<open>done\<close> or \<open>failed\<close>, never \<open>running\<close>.
\<close>

theorem process_one_job_settles:
  assumes "no_faults E" and "txn c = None" and "j \<in> set (embedding_jobs (disk c))" and "runnable j"
    and "distinct (map j_id (embedding_jobs (disk c)))"
  shows "\<exists>c'. process_one_job E emb (j_id j) mid model_id vec_table dim c = (Inr (), c') \<and> txn c' = None \<and>
    (\<exists>j' \<in> set (embedding_jobs (disk c')). j_id j' = j_id j \<and> j_attempts j' = j_attempts j + 1 \<and>
       j_status j' \<in> {U ''done'', U ''failed''})"
proof -
  obtain r c1 where x: "exec E (sql_claim (now_rfc3339 E c) (j_id j)) c = (r, c1)" by fastforce
  have "find (\<lambda>i. j_id i = j_id j \<and> runnable i) (embedding_jobs (disk c)) \<noteq> None"
    using assms(3,4) by (auto simp: find_None_iff)
  then obtain token d1 where q: "sql_claim (now_rfc3339 E c) (j_id j) (disk c) = Inr (d1, Some token)"
    by (auto simp: sql_claim_def)
  with x assms(1,2) have c1: "r = Inr (Some token)" "txn c1 = None" "disk c1 = d1"
    by (auto simp: exec_def attempt_no_fault visible_def store_def)
  obtain i where i: "i \<in> set (embedding_jobs (disk c1))" "j_id i = j_id j"
    and own: "owned \<lparr>cl_job = j_id j, cl_attempt = token\<rparr> i"
    using claim_token(2) [OF q assms(5)] c1(3) by blast
  have tok: "token = j_attempts j + 1"
    using claim_token(1) [OF q assms(5)] same_job [OF assms(5) _ assms(3)] by blast
  let ?claim = "\<lparr>cl_job = j_id j, cl_attempt = token\<rparr>"
  obtain rj c2 where run: "run_job_inner E emb mid model_id vec_table dim ?claim c1 = (rj, c2)" by fastforce
  note rc = run_job_inner_cases [OF assms(1) c1(2) i(1) own run]
  have p: "process_one_job E emb (j_id j) mid model_id vec_table dim c =
      (Inr (), case rj of Inr _ \<Rightarrow> c2 | Inl (Recorded reason) \<Rightarrow> mark_job_failed E ?claim reason c2
        | Inl (JobDb err) \<Rightarrow> mark_job_failed E ?claim (db_error_str err) c2)"
    using x c1(1) run by (simp add: process_one_job_def dbind_def with_now_def split: sum.splits job_error.splits)
  have fl: "txn (mark_job_failed E ?claim e c2) = None \<and>
      (\<exists>j' \<in> set (embedding_jobs (disk (mark_job_failed E ?claim e c2))). j_id j' = j_id j \<and>
        j_attempts j' = token \<and> j_status j' = U ''failed'')" if "disk c2 = disk c1" for e
  proof -
    let ?f = "\<lambda>j. if owned ?claim j then j\<lparr>j_status := U ''failed'', j_last_error := Some e,
        j_finished_at := Some (now_rfc3339 E c2)\<rparr> else j"
    have "mark_job_failed E ?claim e c2 = c2\<lparr>stmts := Suc (stmts c2), disk := update_jobs ?f (disk c2)\<rparr>"
      using assms(1) rc by (simp add: mark_job_failed_def with_now_def exec_def attempt_no_fault visible_def
          store_def sql_mark_failed_def)
    moreover have "?f i \<in> set (map ?f (embedding_jobs (disk c2)))" using i(1) that by simp
    ultimately show ?thesis using rc own i(2) by (intro conjI bexI [of _ "?f i"]) (auto simp: owned_def)
  qed
  show ?thesis
  proof (cases rj)
    case (Inr u)
    with p rc own i tok show ?thesis by (auto simp: is_done_def owned_def)
  next
    case (Inl je)
    with rc have "disk c2 = disk c1" by simp
    with p Inl fl tok show ?thesis by (cases je) auto
  qed
qed

text \<open>
  The table name built from a model id is always accepted by \<open>is_safe_identifier\<close>, so the text
  spliced into the DDL is an identifier whatever the model id is; preparing a model never fails
  with \<open>vec_table_invalid\<close> and, when no statement fails, always succeeds.
\<close>

theorem vec_table_never_invalid:
  "is_safe_identifier (vec_table_for model_id) \<and>
   ensure_vec0_table E (vec_table_for model_id) dim = exec E (sql_create_vec0 (vec_table_for model_id) dim) \<and>
   (no_faults E \<and> txn c = None \<longrightarrow>
      (\<exists>c'. ensure_model_and_vec0 E model_id dim c = (Inr (model_id, vec_table_for model_id, dim), c') \<and>
        vec_table_for model_id \<in> set (map fst (vec_tables (disk c'))) \<and>
        model_id \<in> set (map mo_id (embedding_models (disk c')))))"
proof -
  have s: "is_safe_identifier (vec_table_for m)" for m
    by (auto simp: is_safe_identifier_def vec_table_for_def U_def list_all_iff Let_def is_ascii_alphanumeric_def)
  have "\<exists>c'. ensure_model_and_vec0 E model_id dim c = (Inr (model_id, vec_table_for model_id, dim), c') \<and>
        vec_table_for model_id \<in> set (map fst (vec_tables (disk c'))) \<and>
        model_id \<in> set (map mo_id (embedding_models (disk c')))" if "no_faults E" "txn c = None"
    using that s
    by (simp add: ensure_model_and_vec0_def ensure_vec0_table_def Let_def dbind_def with_now_def exec_def
        attempt_no_fault visible_def store_def sql_insert_or_ignore_model_def sql_create_vec0_def dreturn_def)
  with s show ?thesis by (auto simp: ensure_vec0_table_def)
qed

section \<open>Witnesses\<close>

definition demo_env :: env where
  "demo_env = sample_env (\<lambda>_. None)"

definition demo_db :: db where
  "demo_db = sample_db\<lparr>vec_tables := [(U ''message_vec_fake'', 1)]\<rparr>"

definition demo_conn :: "db \<Rightarrow> conn" where
  "demo_conn d = \<lparr>disk = d, txn = None, stmts = 0, id_seq = 0\<rparr>"

definition demo_start :: workers where
  "demo_start = \<lparr>w_db = demo_db, w_grants = [], w_log = []\<rparr>"

definition demo_claim :: job_claim where
  "demo_claim = \<lparr>cl_job = U ''j1'', cl_attempt = 1\<rparr>"

definition claimed_db :: db where
  "claimed_db = disk (snd (with_now demo_env (\<lambda>now. exec demo_env (sql_claim now (U ''j1''))) (demo_conn demo_db)))"

definition written_db :: db where
  "written_db = disk (snd (write_embedding_txn demo_env (U ''message_vec_fake'') 1 [] (U ''m'') (U ''fake'') (U ''hi'')
     demo_claim (demo_conn claimed_db)))"

lemma no_faults_demo: "no_faults demo_env"
  by (simp add: no_faults_def demo_env_def sample_env_def)

lemma demo_init: "workers_init demo_start"
proof -
  have "distinct (map j_id (embedding_jobs demo_db)) \<and> map j_status (embedding_jobs demo_db) = [U ''pending'']" by code_simp
  then show ?thesis by (auto simp: workers_init_def demo_start_def done_jobs_def is_done_def map_eq_Cons_conv U_def)
qed

lemma demo_claimed: "wstep demo_start (demo_start\<lparr>w_db := claimed_db, w_grants := [demo_claim]\<rparr>)"
proof -
  have "fst (with_now demo_env (\<lambda>now. exec demo_env (sql_claim now (U ''j1''))) (demo_conn demo_db)) = Inr (Some 1)"
    by code_simp
  then show ?thesis
    using wstep.claim [of "demo_conn demo_db" demo_start demo_env "U ''j1''" "Inr (Some 1)"
        "snd (with_now demo_env (\<lambda>now. exec demo_env (sql_claim now (U ''j1''))) (demo_conn demo_db))" "[demo_claim]"]
    by (simp add: demo_conn_def demo_start_def demo_claim_def claimed_db_def prod_eq_iff)
qed

lemma demo_written:
  "wstep (demo_start\<lparr>w_db := claimed_db, w_grants := [demo_claim]\<rparr>)
     \<lparr>w_db = written_db, w_grants = [demo_claim], w_log = [U ''j1'']\<rparr>"
proof -
  let ?run = "write_embedding_txn demo_env (U ''message_vec_fake'') 1 [] (U ''m'') (U ''fake'') (U ''hi'') demo_claim
    (demo_conn claimed_db)"
  have r: "fst ?run = Inr Written" by code_simp
  have "map (\<lambda>j. (j_id j, j_message j, j_model j)) (embedding_jobs claimed_db) = [(U ''j1'', U ''m'', U ''fake'')]"
    by code_simp
  then obtain j where j: "j \<in> set (embedding_jobs claimed_db)" "j_id j = U ''j1''" "j_message j = U ''m''"
    "j_model j = U ''fake''" by (auto simp: map_eq_Cons_conv)
  from r j show ?thesis
    using wstep.finish [of "demo_conn claimed_db" "demo_start\<lparr>w_db := claimed_db, w_grants := [demo_claim]\<rparr>" demo_claim j
        demo_env "U ''message_vec_fake''" 1 "[]" "U ''hi''" "Inr Written" "snd ?run"]
    by (simp add: demo_conn_def demo_start_def demo_claim_def written_db_def prod_eq_iff)
qed

theorem embedding_completed_once_witness:
  "distinct [U ''j1''] \<and> {U ''j1''} = set (done_jobs written_db)"
proof -
  have 0: "reachable workers_init wstep demo_start" using demo_init by (rule reachable.start)
  have 1: "reachable workers_init wstep (demo_start\<lparr>w_db := claimed_db, w_grants := [demo_claim]\<rparr>)"
    using 0 demo_claimed by (rule reachable.step)
  have "reachable workers_init wstep \<lparr>w_db = written_db, w_grants = [demo_claim], w_log = [U ''j1'']\<rparr>"
    using 1 demo_written by (rule reachable.step)
  from embedding_completed_once [OF this] show ?thesis by simp
qed

theorem stale_claim_is_inert_witness:
  "\<exists>r c'. write_embedding_txn demo_env (U ''message_vec_fake'') 1 [] (U ''m'') (U ''fake'') (U ''hi'') demo_claim
      (demo_conn demo_db) = (r, c') \<and> r \<noteq> Inr Written \<and> disk c' = demo_db"
proof -
  have "map j_attempts (embedding_jobs demo_db) = [0]" by code_simp
  then have "\<forall>j \<in> set (embedding_jobs (disk (demo_conn demo_db))). \<not> owned demo_claim j"
    by (auto simp: map_eq_Cons_conv demo_conn_def owned_def demo_claim_def)
  from stale_claim_is_inert [OF _ this prod.collapse [symmetric], of demo_env "U ''message_vec_fake''" 1 "[]" "U ''m''"
      "U ''fake''" "U ''hi''"] show ?thesis
    by (intro exI conjI) (rule prod.collapse [symmetric], simp_all add: demo_conn_def)
qed

theorem process_one_job_settles_witness:
  "\<exists>c'. process_one_job demo_env (\<lambda>_. Inr []) (U ''j1'') (U ''m'') (U ''fake'') (U ''message_vec_fake'') 1
      (demo_conn demo_db) = (Inr (), c') \<and> txn c' = None"
proof -
  have "map (\<lambda>j. (j_id j, runnable j)) (embedding_jobs demo_db) = [(U ''j1'', True)]" by code_simp
  then obtain j where j: "embedding_jobs demo_db = [j]" "j_id j = U ''j1''" "runnable j" by (auto simp: map_eq_Cons_conv)
  from process_one_job_settles [OF no_faults_demo, of "demo_conn demo_db" j "\<lambda>_. Inr []" "U ''m''" "U ''fake''"
      "U ''message_vec_fake''" 1] j show ?thesis
    by (auto simp: demo_conn_def)
qed

theorem vec_table_never_invalid_witness:
  "\<exists>c'. ensure_model_and_vec0 demo_env (U ''fake@1'') 8 (demo_conn demo_db) = (Inr (U ''fake@1'', U ''message_vec_fake_1'', 8), c')"
proof -
  have "vec_table_for (U ''fake@1'') = U ''message_vec_fake_1''" by code_simp
  with vec_table_never_invalid [of "U ''fake@1''" demo_env 8 "demo_conn demo_db"] no_faults_demo show ?thesis
    by (auto simp: demo_conn_def)
qed

theorem backfill_loop_terminates_witness:
  "\<exists>c'. backfill_loop demo_env (U ''other'') (demo_conn demo_db) = Some c' \<and> txn c' = None"
  by (rule backfill_loop_terminates) (simp add: demo_conn_def)

end
