(* ===== verification/Worker_Pause.thy ===== *)
theory Worker_Pause
  imports Receipt
begin

text \<open>
  The pause protocol of the database workers: \<open>src/zynk/worker_pause.rs\<close>, the queue and the loop of
  \<open>src/zynk/receipt_worker.rs\<close>, the loop of \<open>src/zynk/embedding_worker.rs\<close> and the owner's side of a
  live handoff in \<open>src/server/headless.rs\<close>. A critical section of the mutex is one step. The locale
  \<open>pausable_worker\<close> is the contract the owner relies on (an acknowledged pause means no work, and
  stays so); the receipt worker and the embedding worker are its two interpretations, and the
  handoff is proved from the contract alone.
\<close>

section \<open>Pause state\<close>

record pause_state =
  paused :: bool
  idle :: bool
  stopping :: bool
  queued :: u64

definition pause_new :: pause_state where
  "pause_new = \<lparr>paused = False, idle = False, stopping = False, queued = 0\<rparr>"

definition set_idle :: "pause_state \<Rightarrow> pause_state" where
  "set_idle s = s\<lparr>idle := True\<rparr>"

definition try_begin_work :: "pause_state \<Rightarrow> bool \<times> pause_state" where
  "try_begin_work s = (if paused s \<or> stopping s then (False, s) else (True, s\<lparr>idle := False\<rparr>))"

definition try_enqueue :: "pause_state \<Rightarrow> bool \<times> pause_state" where
  "try_enqueue s = (if paused s \<or> stopping s then (False, s) else (True, s\<lparr>queued := queued s + 1\<rparr>))"

definition unenqueue :: "pause_state \<Rightarrow> pause_state" where
  "unenqueue s = s\<lparr>queued := saturating_sub (queued s) 1\<rparr>"

definition begin_work :: "pause_state \<Rightarrow> pause_state" where
  "begin_work s = s\<lparr>queued := saturating_sub (queued s) 1, idle := False\<rparr>"

definition end_work :: "pause_state \<Rightarrow> pause_state" where
  "end_work s = set_idle s"

definition resume :: "pause_state \<Rightarrow> pause_state" where
  "resume s = s\<lparr>paused := False\<rparr>"

definition stop :: "pause_state \<Rightarrow> pause_state" where
  "stop s = s\<lparr>stopping := True, paused := False\<rparr>"

text \<open>
  \<open>pause\<close> sets the flag and then holds the lock at a sequence of moments, each with the time
  elapsed and the state it sees; between two of them the other threads run. \<open>None\<close> is a call that
  is still waiting.
\<close>

definition pause_enter :: "pause_state \<Rightarrow> pause_state" where
  "pause_enter s = s\<lparr>paused := True\<rparr>"

definition quiet :: "pause_state \<Rightarrow> bool" where
  "quiet s \<longleftrightarrow> idle s \<and> queued s = 0"

fun pause_wait :: "nat \<Rightarrow> (nat \<times> pause_state) list \<Rightarrow> bool option" where
  "pause_wait deadline [] = None"
| "pause_wait deadline ((elapsed, s) # later) =
     (if quiet s then Some True
      else if deadline - elapsed = 0 then Some False
      else pause_wait deadline later)"

text \<open>The owner acts on a pause only when it returned \<open>true\<close>, and the call returns by its deadline.\<close>

lemma pause_wait_True:
  "pause_wait deadline obs = Some True \<Longrightarrow> \<exists>(t, s) \<in> set obs. quiet s"
  by (induction deadline obs rule: pause_wait.induct) (auto split: if_splits)

lemma pause_wait_returns:
  "(t, s) \<in> set obs \<Longrightarrow> deadline \<le> t \<or> quiet s \<Longrightarrow> pause_wait deadline obs \<noteq> None"
  by (induction deadline obs rule: pause_wait.induct) auto

section \<open>The contract\<close>

text \<open>
  \<open>step\<close> are all steps of the worker, its clients and its owner, \<open>work\<close> those that are neither a
  \<open>resume\<close> nor a \<open>stop\<close>. The provider promises an invariant under which a quiet control means that
  nothing is outstanding, and that no \<open>work\<close> step ends an acknowledged pause.
\<close>

locale pausable_worker = inductive_system init step ok
  for init :: "'s \<Rightarrow> bool" and step :: "'s \<Rightarrow> 's \<Rightarrow> bool" and ok :: "'s \<Rightarrow> bool" +
  fixes work :: "'s \<Rightarrow> 's \<Rightarrow> bool" and ctl :: "'s \<Rightarrow> pause_state" and outstanding :: "'s \<Rightarrow> bool"
  assumes work_step: "work s t \<Longrightarrow> step s t"
    and quiet_done: "ok s \<Longrightarrow> quiet (ctl s) \<Longrightarrow> \<not> outstanding s"
    and work_acked: "ok s \<Longrightarrow> work s t \<Longrightarrow> paused (ctl s) \<Longrightarrow> quiet (ctl s) \<Longrightarrow> paused (ctl t) \<and> quiet (ctl t)"
begin

definition acked :: "'s \<Rightarrow> bool" where
  "acked s \<longleftrightarrow> ok s \<and> paused (ctl s) \<and> quiet (ctl s)"

lemma acked_work: "work s t \<Longrightarrow> acked s \<Longrightarrow> acked t"
  using work_acked work_step step_inv unfolding acked_def by blast

lemma acked_works: "work\<^sup>*\<^sup>* s t \<Longrightarrow> acked s \<Longrightarrow> acked t"
  by (induction rule: rtranclp_induct) (auto intro: acked_work)

lemma acked_idle: "acked s \<Longrightarrow> \<not> outstanding s"
  using quiet_done unfolding acked_def by blast

end

section \<open>The receipt worker\<close>

datatype 'j worker_message = Job 'j | Shutdown

definition channel_capacity :: nat where
  "channel_capacity = 64"

record 'j channel =
  ch_queue :: "'j worker_message list"
  ch_receiver :: bool \<comment> \<open>the receiving end is alive\<close>
  ch_sender :: bool \<comment> \<open>the handle still holds its sender\<close>

datatype try_send_result = SendOk | SendFull | SendDisconnected

definition try_send :: "'j worker_message \<Rightarrow> 'j channel \<Rightarrow> try_send_result \<times> 'j channel" where
  "try_send m ch =
     (if \<not> ch_receiver ch then (SendDisconnected, ch)
      else if channel_capacity \<le> length (ch_queue ch) then (SendFull, ch)
      else (SendOk, ch\<lparr>ch_queue := ch_queue ch @ [m]\<rparr>))"

datatype 'a response = Responded "db_error + 'a" | RecvTimeout | RecvDisconnected

definition worker_error :: "string \<Rightarrow> string \<Rightarrow> db_error" where
  "worker_error code msg = \<lparr>de_code = U code, de_message = U msg\<rparr>"

text \<open>\<open>submit\<close> in its three atomic parts: admission under the mutex, hand-off, and the bounded wait.\<close>

definition submit_admit :: "'j channel \<Rightarrow> pause_state \<Rightarrow> db_error option \<times> pause_state" where
  "submit_admit ch s =
     (if \<not> ch_sender ch then (Some (worker_error ''receipt_worker_unavailable'' ''receipt worker is not running''), s)
      else case try_enqueue s of
        (False, s1) \<Rightarrow> (Some (\<lparr>de_code = U ''receipt_worker_busy'', de_message =
            U ''a live handoff is quiescing the receipt worker; the receipt was not enqueued '' @ [8212] @
            U '' retry to resolve the true state''\<rparr>), s1)
      | (True, s1) \<Rightarrow> (None, s1))"

definition submit_send :: "'j \<Rightarrow> 'j channel \<Rightarrow> pause_state \<Rightarrow> db_error option \<times> 'j channel \<times> pause_state" where
  "submit_send job ch s =
     (case try_send (Job job) ch of
        (SendOk, ch1) \<Rightarrow> (None, ch1, s)
      | (SendFull, ch1) \<Rightarrow> (Some (\<lparr>de_code = U ''receipt_worker_busy'', de_message =
            U ''receipt worker queue is full; the receipt was not enqueued '' @ [8212] @
            U '' retry to resolve the true state''\<rparr>), ch1, unenqueue s)
      | (SendDisconnected, ch1) \<Rightarrow>
          (Some (worker_error ''receipt_worker_unavailable'' ''receipt worker is not running''), ch1, unenqueue s))"

definition submit_wait :: "'a response \<Rightarrow> db_error + 'a" where
  "submit_wait r =
     (case r of
        Responded result \<Rightarrow> result
      | RecvTimeout \<Rightarrow> Inl (\<lparr>de_code = U ''receipt_result_unknown'', de_message =
            U ''receipt worker did not respond within the timeout; the DB write may or may not have landed '' @ [8212] @
            U '' retry to resolve the true state''\<rparr>)
      | RecvDisconnected \<Rightarrow>
          Inl (worker_error ''receipt_worker_unavailable'' ''receipt worker disconnected before responding''))"

datatype phase = Starting | Waiting | Holding | Working | Exited

text \<open>
  The threads around the control: \<open>rw_admitted\<close> submitters are between admission and hand-off, and
  \<open>rw_lost\<close> counts the jobs in the channel when the receiver was dropped.
\<close>

record 'j receipt_worker =
  rw_ctl :: pause_state
  rw_chan :: "'j channel"
  rw_phase :: phase
  rw_admitted :: nat
  rw_lost :: nat

definition spawn_receipt_worker :: "'j receipt_worker" where
  "spawn_receipt_worker = \<lparr>rw_ctl = pause_new,
     rw_chan = \<lparr>ch_queue = [], ch_receiver = True, ch_sender = True\<rparr>, rw_phase = Starting,
     rw_admitted = 0, rw_lost = 0\<rparr>"

text \<open>The loop: what the worker thread does next, if it can move.\<close>

fun is_job :: "'j worker_message \<Rightarrow> bool" where
  "is_job (Job _) = True"
| "is_job Shutdown = False"

definition jobs_queued :: "'j channel \<Rightarrow> nat" where
  "jobs_queued ch = length (filter is_job (ch_queue ch))"

definition exit_loop :: "'j receipt_worker \<Rightarrow> 'j worker_message list \<Rightarrow> 'j receipt_worker" where
  "exit_loop s q = s\<lparr>rw_phase := Exited, rw_lost := length (filter is_job q),
     rw_chan := (rw_chan s)\<lparr>ch_queue := [], ch_receiver := False\<rparr>\<rparr>"

fun receipt_loop :: "'j receipt_worker \<Rightarrow> 'j receipt_worker option" where
  "receipt_loop s =
     (case rw_phase s of
        Starting \<Rightarrow> Some (s\<lparr>rw_ctl := set_idle (rw_ctl s), rw_phase := Waiting\<rparr>)
      | Waiting \<Rightarrow>
          (case ch_queue (rw_chan s) of
             [] \<Rightarrow> if ch_sender (rw_chan s) then None else Some (exit_loop s [])
           | Shutdown # q \<Rightarrow> Some (exit_loop s q)
           | Job j # q \<Rightarrow> Some (s\<lparr>rw_chan := (rw_chan s)\<lparr>ch_queue := q\<rparr>, rw_phase := Holding\<rparr>))
      | Holding \<Rightarrow> Some (s\<lparr>rw_ctl := begin_work (rw_ctl s), rw_phase := Working\<rparr>)
      | Working \<Rightarrow> Some (s\<lparr>rw_ctl := end_work (rw_ctl s), rw_phase := Waiting\<rparr>)
      | Exited \<Rightarrow> None)"

declare receipt_loop.simps [simp del]

text \<open>Dropping the handle: stop, a best-effort \<open>Shutdown\<close>, and the sender is gone.\<close>

definition drop_receipt_handle :: "'j receipt_worker \<Rightarrow> 'j receipt_worker" where
  "drop_receipt_handle s =
     s\<lparr>rw_ctl := stop (rw_ctl s), rw_chan := (snd (try_send Shutdown (rw_chan s)))\<lparr>ch_sender := False\<rparr>\<rparr>"

text \<open>No process has this many threads, so the counter does not wrap.\<close>

definition max_threads :: nat where
  "max_threads = 2 ^ 32"

inductive receipt_work :: "'j receipt_worker \<Rightarrow> 'j receipt_worker \<Rightarrow> bool" where
  loop: "receipt_loop s = Some t \<Longrightarrow> receipt_work s t"
| admit: "rw_admitted s < max_threads \<Longrightarrow> submit_admit (rw_chan s) (rw_ctl s) = (None, c) \<Longrightarrow>
    receipt_work s (s\<lparr>rw_ctl := c, rw_admitted := rw_admitted s + 1\<rparr>)"
| hand_off: "0 < rw_admitted s \<Longrightarrow> submit_send job (rw_chan s) (rw_ctl s) = (e, ch, c) \<Longrightarrow>
    receipt_work s (s\<lparr>rw_ctl := c, rw_chan := ch, rw_admitted := rw_admitted s - 1\<rparr>)"
| pause: "receipt_work s (s\<lparr>rw_ctl := pause_enter (rw_ctl s)\<rparr>)"

inductive receipt_step :: "'j receipt_worker \<Rightarrow> 'j receipt_worker \<Rightarrow> bool" where
  work: "receipt_work s t \<Longrightarrow> receipt_step s t"
| resume: "receipt_step s (s\<lparr>rw_ctl := resume (rw_ctl s)\<rparr>)"
| drop: "ch_sender (rw_chan s) \<Longrightarrow> rw_admitted s = 0 \<Longrightarrow> receipt_step s (drop_receipt_handle s)"

definition receipt_outstanding :: "'j receipt_worker \<Rightarrow> bool" where
  "receipt_outstanding s \<longleftrightarrow> rw_phase s \<in> {Starting, Holding, Working} \<or> rw_admitted s \<noteq> 0 \<or> jobs_queued (rw_chan s) \<noteq> 0"

definition receipt_ok :: "'j receipt_worker \<Rightarrow> bool" where
  "receipt_ok s \<longleftrightarrow>
     unat (queued (rw_ctl s)) = rw_admitted s + jobs_queued (rw_chan s) + (if rw_phase s = Holding then 1 else 0) + rw_lost s \<and>
     (idle (rw_ctl s) \<longleftrightarrow> rw_phase s \<in> {Waiting, Holding, Exited}) \<and>
     rw_admitted s \<le> max_threads \<and> length (ch_queue (rw_chan s)) \<le> channel_capacity \<and> rw_lost s \<le> channel_capacity \<and>
     (rw_phase s \<noteq> Exited \<longrightarrow> rw_lost s = 0)"

lemmas pause_defs = pause_new_def set_idle_def try_begin_work_def try_enqueue_def unenqueue_def begin_work_def
  end_work_def resume_def stop_def pause_enter_def quiet_def

lemma unat_dec: "0 < unat (q :: u64) \<Longrightarrow> unat (saturating_sub q 1) = unat q - 1"
  by (simp add: rust_word)

lemma unat_inc: "unat (q :: u64) < 2 ^ 63 \<Longrightarrow> unat (q + 1) = unat q + 1"
  by (subst unat_add_lem [THEN iffD1]) auto

lemma jobs_queued_le: "jobs_queued ch \<le> length (ch_queue ch)"
  by (simp add: jobs_queued_def)

lemma queued_bound:
  assumes "receipt_ok s"
  shows "unat (queued (rw_ctl s)) < 2 ^ 63"
proof -
  have "unat (queued (rw_ctl s)) \<le> rw_admitted s + jobs_queued (rw_chan s) + 1 + rw_lost s"
    and "rw_admitted s \<le> 2 ^ 32" and "length (ch_queue (rw_chan s)) \<le> 64" and "rw_lost s \<le> 64"
    using assms by (auto simp: receipt_ok_def channel_capacity_def max_threads_def)
  with jobs_queued_le [of "rw_chan s"] show ?thesis by simp
qed

lemma receipt_ok_admit:
  assumes "receipt_ok s" and "rw_admitted s < max_threads" and "submit_admit (rw_chan s) (rw_ctl s) = (None, c)"
  shows "receipt_ok (s\<lparr>rw_ctl := c, rw_admitted := rw_admitted s + 1\<rparr>)"
proof -
  have "c = (rw_ctl s)\<lparr>queued := queued (rw_ctl s) + 1\<rparr>"
    using assms(3) by (auto simp: submit_admit_def try_enqueue_def split: if_splits)
  with assms unat_inc [OF queued_bound [OF assms(1)]] show ?thesis by (auto simp: receipt_ok_def)
qed

lemma receipt_ok_send:
  assumes "receipt_ok s" and "0 < rw_admitted s" and "submit_send job (rw_chan s) (rw_ctl s) = (e, ch, c)"
  shows "receipt_ok (s\<lparr>rw_ctl := c, rw_chan := ch, rw_admitted := rw_admitted s - 1\<rparr>)"
proof -
  have "unat (saturating_sub (queued (rw_ctl s)) 1) = unat (queued (rw_ctl s)) - 1"
    using assms(1,2) by (intro unat_dec) (simp add: receipt_ok_def)
  then show ?thesis
    using assms
    by (auto simp: submit_send_def try_send_def receipt_ok_def unenqueue_def jobs_queued_def split: if_splits)
qed

lemma filter_le_Suc: "Suc (length q) \<le> n \<Longrightarrow> length (filter P q) \<le> n"
  by (rule order_trans [OF length_filter_le]) simp

lemma receipt_ok_loop:
  assumes "receipt_ok s" and "receipt_loop s = Some t"
  shows "receipt_ok t"
proof (cases "rw_phase s")
  case Waiting
  then show ?thesis
    using assms
    by (auto simp: receipt_loop.simps receipt_ok_def exit_loop_def jobs_queued_def
        split: list.splits worker_message.splits if_splits intro: filter_le_Suc)
next
  case Holding
  moreover have "unat (saturating_sub (queued (rw_ctl s)) 1) = unat (queued (rw_ctl s)) - 1"
    using assms(1) Holding by (intro unat_dec) (simp add: receipt_ok_def)
  ultimately show ?thesis using assms by (auto simp: receipt_loop.simps receipt_ok_def begin_work_def)
qed (use assms in \<open>auto simp: receipt_loop.simps receipt_ok_def pause_defs\<close>)

lemma receipt_ok_drop: "receipt_ok s \<Longrightarrow> receipt_ok (drop_receipt_handle s)"
  by (auto simp: drop_receipt_handle_def try_send_def receipt_ok_def stop_def jobs_queued_def)

lemma receipt_ok_work: "receipt_work s t \<Longrightarrow> receipt_ok s \<Longrightarrow> receipt_ok t"
proof (induction rule: receipt_work.induct)
  case (pause s)
  then show ?case by (simp add: receipt_ok_def pause_enter_def)
qed (auto intro: receipt_ok_loop receipt_ok_admit [simplified] receipt_ok_send [simplified])

lemma receipt_quiet: "receipt_ok s \<Longrightarrow> quiet (rw_ctl s) \<Longrightarrow> \<not> receipt_outstanding s"
  by (auto simp: receipt_ok_def quiet_def receipt_outstanding_def split: if_splits)

lemma receipt_work_acked:
  assumes "receipt_ok s" and "receipt_work s t" and "paused (rw_ctl s)" and "quiet (rw_ctl s)"
  shows "paused (rw_ctl t) \<and> quiet (rw_ctl t)"
  using assms(2)
proof cases
  case loop
  with receipt_quiet [OF assms(1,4)] assms(3,4) show ?thesis
    by (auto simp: receipt_loop.simps receipt_outstanding_def jobs_queued_def exit_loop_def
        split: phase.splits list.splits worker_message.splits if_splits)
next
  case (admit c)
  with assms(3) show ?thesis by (auto simp: submit_admit_def try_enqueue_def split: if_splits)
next
  case (hand_off job e ch c)
  with receipt_quiet [OF assms(1,4)] show ?thesis by (simp add: receipt_outstanding_def)
next
  case pause
  with assms(3,4) show ?thesis by (simp add: pause_enter_def quiet_def)
qed

interpretation receipt_worker: pausable_worker "\<lambda>s. s = spawn_receipt_worker" receipt_step receipt_ok
  receipt_work rw_ctl receipt_outstanding
proof
  show "receipt_ok s" if "s = spawn_receipt_worker" for s :: "'j receipt_worker"
    using that by (simp add: spawn_receipt_worker_def receipt_ok_def pause_new_def jobs_queued_def)
  show "receipt_ok t" if "receipt_step s t" "receipt_ok s" for s t :: "'j receipt_worker"
    using that
  proof (induction rule: receipt_step.induct)
    case (resume s)
    then show ?case by (simp add: receipt_ok_def resume_def)
  qed (auto intro: receipt_ok_work receipt_ok_drop)
  show "\<not> receipt_outstanding s" if "receipt_ok s" "quiet (rw_ctl s)" for s :: "'j receipt_worker"
    using that by (rule receipt_quiet)
qed (auto intro: receipt_step.work dest: receipt_work_acked)

section \<open>The embedding worker's loop\<close>

text \<open>
  A poller: it has no queue, and \<open>Holding\<close> does not occur. Startup (opening the database, recovery
  and backfill) counts as work.
\<close>

record poller =
  po_ctl :: pause_state
  po_phase :: phase
  po_shutdown :: bool \<comment> \<open>the handle signalled or dropped the shutdown channel\<close>

definition spawn_poller :: poller where
  "spawn_poller = \<lparr>po_ctl = pause_new, po_phase = Starting, po_shutdown = False\<rparr>"

definition poller_loop :: "poller \<Rightarrow> poller option" where
  "poller_loop s =
     (case po_phase s of
        Starting \<Rightarrow> Some (s\<lparr>po_ctl := set_idle (po_ctl s), po_phase := Waiting\<rparr>)
      | Waiting \<Rightarrow>
          if po_shutdown s then Some (s\<lparr>po_phase := Exited\<rparr>)
          else (case try_begin_work (po_ctl s) of
                  (True, c) \<Rightarrow> Some (s\<lparr>po_ctl := c, po_phase := Working\<rparr>)
                | (False, c) \<Rightarrow> Some (s\<lparr>po_ctl := c\<rparr>))
      | Working \<Rightarrow> Some (s\<lparr>po_ctl := end_work (po_ctl s), po_phase := Waiting\<rparr>)
      | _ \<Rightarrow> None)"

inductive poller_work :: "poller \<Rightarrow> poller \<Rightarrow> bool" where
  loop: "poller_loop s = Some t \<Longrightarrow> poller_work s t"
| pause: "poller_work s (s\<lparr>po_ctl := pause_enter (po_ctl s)\<rparr>)"

inductive poller_step :: "poller \<Rightarrow> poller \<Rightarrow> bool" where
  work: "poller_work s t \<Longrightarrow> poller_step s t"
| resume: "poller_step s (s\<lparr>po_ctl := resume (po_ctl s)\<rparr>)"
| drop: "poller_step s (s\<lparr>po_ctl := stop (po_ctl s), po_shutdown := True\<rparr>)"

definition poller_outstanding :: "poller \<Rightarrow> bool" where
  "poller_outstanding s \<longleftrightarrow> po_phase s \<in> {Starting, Working}"

definition poller_ok :: "poller \<Rightarrow> bool" where
  "poller_ok s \<longleftrightarrow> queued (po_ctl s) = 0 \<and> po_phase s \<noteq> Holding \<and> (idle (po_ctl s) \<longleftrightarrow> po_phase s \<in> {Waiting, Exited})"

lemma poller_ok_work: "poller_work s t \<Longrightarrow> poller_ok s \<Longrightarrow> poller_ok t"
  by (induction rule: poller_work.induct)
    (auto simp: poller_loop_def poller_ok_def pause_defs split: phase.splits if_splits)

lemma poller_work_acked:
  "poller_work s t \<Longrightarrow> poller_ok s \<Longrightarrow> paused (po_ctl s) \<Longrightarrow> quiet (po_ctl s) \<Longrightarrow> paused (po_ctl t) \<and> quiet (po_ctl t)"
  by (induction rule: poller_work.induct)
    (auto simp: poller_loop_def poller_ok_def pause_defs split: phase.splits if_splits)

interpretation embedding_worker: pausable_worker "\<lambda>s. s = spawn_poller" poller_step poller_ok
  poller_work po_ctl poller_outstanding
proof
  show "poller_ok s" if "s = spawn_poller" for s
    using that by (simp add: spawn_poller_def poller_ok_def pause_new_def)
  show "poller_ok t" if "poller_step s t" "poller_ok s" for s t
    using that
  proof (induction rule: poller_step.induct)
    case (work s t)
    then show ?case by (rule poller_ok_work)
  qed (simp_all add: poller_ok_def resume_def stop_def)
  show "\<not> poller_outstanding s" if "poller_ok s" "quiet (po_ctl s)" for s
    using that by (auto simp: poller_ok_def quiet_def poller_outstanding_def)
qed (auto intro: poller_step.work dest: poller_work_acked)

section \<open>Live handoff\<close>

text \<open>
  The owner pauses the embedding worker, then with what is left of the deadline the receipt
  worker; it goes on only if both calls returned \<open>true\<close> and otherwise resumes both. A rollback
  before the commit resumes both.
\<close>

datatype handoff_phase = Serving | PausingEmbedding | PausingReceipt | Quiesced

record 'j server =
  sv_embedding :: poller
  sv_receipt :: "'j receipt_worker"
  sv_handoff :: handoff_phase

definition resume_db_workers :: "'j server \<Rightarrow> 'j server" where
  "resume_db_workers s =
     s\<lparr>sv_embedding := (sv_embedding s)\<lparr>po_ctl := resume (po_ctl (sv_embedding s))\<rparr>,
       sv_receipt := (sv_receipt s)\<lparr>rw_ctl := resume (rw_ctl (sv_receipt s))\<rparr>, sv_handoff := Serving\<rparr>"

inductive handoff_step :: "'j server \<Rightarrow> 'j server \<Rightarrow> bool" where
  embedding: "poller_work (sv_embedding s) e \<Longrightarrow> handoff_step s (s\<lparr>sv_embedding := e\<rparr>)"
| receipt: "receipt_work (sv_receipt s) r \<Longrightarrow> handoff_step s (s\<lparr>sv_receipt := r\<rparr>)"
| start: "sv_handoff s = Serving \<Longrightarrow>
    handoff_step s (s\<lparr>sv_embedding := (sv_embedding s)\<lparr>po_ctl := pause_enter (po_ctl (sv_embedding s))\<rparr>,
      sv_handoff := PausingEmbedding\<rparr>)"
| embedding_idle: "sv_handoff s = PausingEmbedding \<Longrightarrow> pause_wait deadline [(t, po_ctl (sv_embedding s))] = Some True \<Longrightarrow>
    handoff_step s (s\<lparr>sv_receipt := (sv_receipt s)\<lparr>rw_ctl := pause_enter (rw_ctl (sv_receipt s))\<rparr>,
      sv_handoff := PausingReceipt\<rparr>)"
| receipt_idle: "sv_handoff s = PausingReceipt \<Longrightarrow> pause_wait deadline [(t, rw_ctl (sv_receipt s))] = Some True \<Longrightarrow>
    handoff_step s (s\<lparr>sv_handoff := Quiesced\<rparr>)"
| give_up: "sv_handoff s \<in> {PausingEmbedding, PausingReceipt} \<Longrightarrow> handoff_step s (resume_db_workers s)"
| rollback: "sv_handoff s = Quiesced \<Longrightarrow> handoff_step s (resume_db_workers s)"

definition handoff_init :: "'j server \<Rightarrow> bool" where
  "handoff_init s \<longleftrightarrow> s = \<lparr>sv_embedding = spawn_poller, sv_receipt = spawn_receipt_worker, sv_handoff = Serving\<rparr>"

definition handoff_ok :: "'j server \<Rightarrow> bool" where
  "handoff_ok s \<longleftrightarrow> poller_ok (sv_embedding s) \<and> receipt_ok (sv_receipt s) \<and>
     (sv_handoff s = PausingEmbedding \<longrightarrow> paused (po_ctl (sv_embedding s))) \<and>
     (sv_handoff s \<in> {PausingReceipt, Quiesced} \<longrightarrow> embedding_worker.acked (sv_embedding s)) \<and>
     (sv_handoff s = PausingReceipt \<longrightarrow> paused (rw_ctl (sv_receipt s))) \<and>
     (sv_handoff s = Quiesced \<longrightarrow> receipt_worker.acked (sv_receipt s))"

lemma work_keeps_paused:
  "poller_work e e' \<Longrightarrow> paused (po_ctl e) \<Longrightarrow> paused (po_ctl e')"
  "receipt_work r r' \<Longrightarrow> paused (rw_ctl r) \<Longrightarrow> paused (rw_ctl r')"
  by (auto elim!: poller_work.cases receipt_work.cases
      simp: poller_loop_def receipt_loop.simps exit_loop_def submit_admit_def submit_send_def pause_defs
      split: phase.splits if_splits list.splits worker_message.splits prod.splits try_send_result.splits)

lemma handoff_ok_step: "handoff_step s t \<Longrightarrow> handoff_ok s \<Longrightarrow> handoff_ok t"
proof (induction rule: handoff_step.induct)
  case (embedding s e)
  then show ?case
    using embedding_worker.acked_work [of "sv_embedding s" e] work_keeps_paused(1) [of "sv_embedding s" e] poller_ok_work
    by (auto simp: handoff_ok_def)
next
  case (receipt s r)
  then show ?case
    using receipt_worker.acked_work [of "sv_receipt s" r] work_keeps_paused(2) [of "sv_receipt s" r] receipt_ok_work
    by (auto simp: handoff_ok_def)
next
  case (start s)
  then show ?case by (simp add: handoff_ok_def poller_ok_def pause_enter_def)
next
  case (embedding_idle s deadline t)
  then show ?case
    by (auto simp: handoff_ok_def receipt_ok_def pause_enter_def embedding_worker.acked_def split: if_splits)
next
  case (receipt_idle s deadline t)
  then show ?case by (auto simp: handoff_ok_def receipt_worker.acked_def split: if_splits)
qed (simp_all add: handoff_ok_def resume_db_workers_def poller_ok_def receipt_ok_def resume_def)

interpretation handoff: inductive_system handoff_init handoff_step handoff_ok
proof
  show "handoff_ok s" if "handoff_init s" for s :: "'j server"
    using that embedding_worker.init_inv receipt_worker.init_inv by (auto simp: handoff_init_def handoff_ok_def)
qed (rule handoff_ok_step)

section \<open>Properties\<close>

text \<open>
  C8. Once a live handoff has both acknowledgements, and until it resumes the workers, neither
  database worker has a unit of work outstanding, in any interleaving of the server's threads: no
  embedding batch and no startup in progress, no receipt admitted, queued, taken or being written.
\<close>

theorem handoff_quiesced_no_work:
  assumes "reachable handoff_init handoff_step s" and "sv_handoff s = Quiesced"
  shows "\<not> poller_outstanding (sv_embedding s) \<and> \<not> receipt_outstanding (sv_receipt s)"
  using handoff.reachable_inv [OF assms(1)] assms(2) embedding_worker.acked_idle receipt_worker.acked_idle
  by (auto simp: handoff_ok_def)

text \<open>
  The accounting behind it: the counter of the receipt worker equals the number of receipts
  admitted but not handed over, in the channel, or taken and not started, never wraps, and is idle
  exactly between units; a receipt refused by \<open>submit\<close> leaves no trace in the channel, and its
  admission is taken back.
\<close>

theorem receipt_queue_accounting:
  assumes "reachable (\<lambda>s. s = spawn_receipt_worker) receipt_step s" and "rw_phase s \<noteq> Exited"
  shows "unat (queued (rw_ctl s)) = rw_admitted s + jobs_queued (rw_chan s) + (if rw_phase s = Holding then 1 else 0) \<and>
    unat (queued (rw_ctl s)) \<le> max_threads + channel_capacity + 1 \<and>
    (idle (rw_ctl s) \<longleftrightarrow> rw_phase s \<in> {Waiting, Holding}) \<and>
    (\<forall>e ch c. rw_admitted s \<noteq> 0 \<and> submit_send job (rw_chan s) (rw_ctl s) = (Some e, ch, c) \<longrightarrow>
       ch = rw_chan s \<and> unat (queued c) = unat (queued (rw_ctl s)) - 1) \<and>
    (\<forall>e c. submit_admit (rw_chan s) (rw_ctl s) = (Some e, c) \<longrightarrow> c = rw_ctl s)"
proof -
  have ok: "receipt_ok s" by (rule receipt_worker.reachable_inv [OF assms(1)])
  have "unat (queued c) = unat (queued (rw_ctl s)) - 1 \<and> ch = rw_chan s"
    if "rw_admitted s \<noteq> 0" "submit_send job (rw_chan s) (rw_ctl s) = (Some e, ch, c)" for e ch c
    using that ok unat_dec [of "queued (rw_ctl s)"]
    by (auto simp: submit_send_def try_send_def unenqueue_def receipt_ok_def split: if_splits)
  moreover have "c = rw_ctl s" if "submit_admit (rw_chan s) (rw_ctl s) = (Some e, c)" for e c
    using that by (auto simp: submit_admit_def try_enqueue_def split: if_splits)
  moreover have "unat (queued (rw_ctl s)) \<le> max_threads + channel_capacity + 1"
    using ok assms(2) jobs_queued_le [of "rw_chan s"] by (auto simp: receipt_ok_def)
  ultimately show ?thesis using ok assms(2) unfolding receipt_ok_def by auto
qed

section \<open>Witnesses\<close>

definition idle_poller :: poller where
  "idle_poller = \<lparr>po_ctl = set_idle pause_new, po_phase = Waiting, po_shutdown = False\<rparr>"

definition idle_receipt :: "nat receipt_worker" where
  "idle_receipt = spawn_receipt_worker\<lparr>rw_ctl := set_idle pause_new, rw_phase := Waiting\<rparr>"

definition quiesced_server :: "nat server" where
  "quiesced_server = \<lparr>sv_embedding = idle_poller\<lparr>po_ctl := pause_enter (set_idle pause_new)\<rparr>,
     sv_receipt = idle_receipt\<lparr>rw_ctl := pause_enter (set_idle pause_new)\<rparr>, sv_handoff = Quiesced\<rparr>"

lemma reachable_quiesced: "reachable handoff_init handoff_step quiesced_server"
proof -
  let ?R = "reachable handoff_init handoff_step"
  let ?pp = "idle_poller\<lparr>po_ctl := pause_enter (set_idle pause_new)\<rparr>"
  let ?pr = "idle_receipt\<lparr>rw_ctl := pause_enter (set_idle pause_new)\<rparr>"
  have 0: "?R \<lparr>sv_embedding = spawn_poller, sv_receipt = spawn_receipt_worker :: nat receipt_worker, sv_handoff = Serving\<rparr>"
    by (rule reachable.start) (simp add: handoff_init_def)
  have e: "poller_work spawn_poller idle_poller"
    by (rule poller_work.loop) (simp add: poller_loop_def spawn_poller_def idle_poller_def)
  have r: "receipt_work spawn_receipt_worker idle_receipt"
    by (rule receipt_work.loop) (simp add: receipt_loop.simps spawn_receipt_worker_def idle_receipt_def)
  have 1: "?R \<lparr>sv_embedding = idle_poller, sv_receipt = spawn_receipt_worker :: nat receipt_worker, sv_handoff = Serving\<rparr>"
    using reachable.step [OF 0 handoff_step.embedding] e by fastforce
  have 2: "?R \<lparr>sv_embedding = idle_poller, sv_receipt = idle_receipt, sv_handoff = Serving\<rparr>"
    using reachable.step [OF 1 handoff_step.receipt] r by fastforce
  have 3: "?R \<lparr>sv_embedding = ?pp, sv_receipt = idle_receipt, sv_handoff = PausingEmbedding\<rparr>"
    using reachable.step [OF 2 handoff_step.start] by (simp add: idle_poller_def)
  have 4: "?R \<lparr>sv_embedding = ?pp, sv_receipt = ?pr, sv_handoff = PausingReceipt\<rparr>"
    using reachable.step [OF 3 handoff_step.embedding_idle [where deadline = 1 and t = 0]]
    by (simp add: idle_receipt_def pause_defs)
  show ?thesis
    using reachable.step [OF 4 handoff_step.receipt_idle [where deadline = 1 and t = 0]]
    by (simp add: quiesced_server_def pause_defs)
qed

theorem handoff_quiesced_no_work_witness:
  "\<not> poller_outstanding (sv_embedding quiesced_server) \<and> \<not> receipt_outstanding (sv_receipt quiesced_server)"
  by (rule handoff_quiesced_no_work [OF reachable_quiesced]) (simp add: quiesced_server_def)

theorem receipt_queue_accounting_witness:
  "unat (queued (rw_ctl idle_receipt)) = rw_admitted idle_receipt + jobs_queued (rw_chan idle_receipt)"
proof -
  have "reachable (\<lambda>s. s = spawn_receipt_worker) receipt_step (spawn_receipt_worker :: nat receipt_worker)"
    by (rule reachable.start) simp
  moreover have "receipt_step spawn_receipt_worker idle_receipt"
    by (rule receipt_step.work, rule receipt_work.loop)
      (simp add: receipt_loop.simps spawn_receipt_worker_def idle_receipt_def)
  ultimately have "reachable (\<lambda>s. s = spawn_receipt_worker) receipt_step idle_receipt" by (rule reachable.step)
  from receipt_queue_accounting [OF this, of 0] show ?thesis by (simp add: idle_receipt_def)
qed

end
