(* ===== verification/Header.thy ===== *)
theory Header
  imports Store
begin

text \<open>
  The header box in front of a message delivered to an agent, \<open>src/zynk/header.rs\<close>, with its options
  from \<open>src/config/model.rs\<close>. The display width of a text (the crate \<open>unicode-width\<close>) is a parameter
  \<open>w\<close>. The crate documents that the width of a string can differ from the sum of the widths of its
  characters; \<open>additive\<close> names the texts for which it does not, and the alignment theorem assumes it,
  while the last theorem shows what happens without it.
\<close>

section \<open>Options\<close>

record header_options =
  ho_verbose :: bool
  ho_max_width :: nat

definition default_header_max_width :: nat where
  "default_header_max_width = 100"

definition min_header_max_width :: nat where
  "min_header_max_width = 24"

record header_config =
  hc_verbose :: bool
  hc_max_width :: nat

definition header_config_default :: header_config where
  "header_config_default = \<lparr>hc_verbose = False, hc_max_width = default_header_max_width\<rparr>"

definition ascii_lower :: "ustr \<Rightarrow> ustr" where
  "ascii_lower = map (\<lambda>c. if 65 \<le> c \<and> c \<le> 90 then c + 32 else c)"

definition eq_ignore_ascii_case :: "ustr \<Rightarrow> ustr \<Rightarrow> bool" where
  "eq_ignore_ascii_case a b \<longleftrightarrow> ascii_lower a = ascii_lower b"

definition header_resolve :: "header_config \<Rightarrow> ustr option \<Rightarrow> header_options" where
  "header_resolve cfg env_verbose =
     (let env_truthy = (case env_verbose of None \<Rightarrow> False
        | Some raw \<Rightarrow> let v = trim raw in eq_ignore_ascii_case v (U ''1'') \<or> eq_ignore_ascii_case v (U ''true''))
      in \<lparr>ho_verbose = env_truthy \<or> hc_verbose cfg, ho_max_width = max (hc_max_width cfg) min_header_max_width\<rparr>)"

section \<open>Truncation\<close>

definition ellipsis_char :: ustr where
  "ellipsis_char = [8230]"

text \<open>The loop shared by the truncations: characters are taken while the budget holds.\<close>

fun take_cols :: "(ustr \<Rightarrow> nat) \<Rightarrow> nat \<Rightarrow> nat \<Rightarrow> ustr \<Rightarrow> ustr" where
  "take_cols w budget used [] = []"
| "take_cols w budget used (ch # s) =
     (let cw = w [ch] in if used + cw > budget then [] else ch # take_cols w budget (used + cw) s)"

definition truncate_middle :: "(ustr \<Rightarrow> nat) \<Rightarrow> ustr \<Rightarrow> nat \<Rightarrow> ustr" where
  "truncate_middle w s mx =
     (if w s \<le> mx then s
      else if mx \<le> 1 then ellipsis_char
      else let budget = mx - 1; right_budget = budget div 2; left_budget = budget - right_budget
           in take_cols w left_budget 0 s @ ellipsis_char @ rev (take_cols w right_budget 0 (rev s)))"

definition truncate_tail :: "(ustr \<Rightarrow> nat) \<Rightarrow> ustr \<Rightarrow> nat \<Rightarrow> ustr" where
  "truncate_tail w s mx =
     (if w s \<le> mx then s
      else if mx \<le> 1 then ellipsis_char
      else let budget = mx - 1 in take_cols w budget 0 s @ ellipsis_char)"

datatype ellipsis = EMiddle | ETail | ENone

record field =
  fd_text :: ustr
  fd_ellipsis :: ellipsis

definition field_fit :: "(ustr \<Rightarrow> nat) \<Rightarrow> field \<Rightarrow> nat \<Rightarrow> ustr" where
  "field_fit w f inner =
     (if w (fd_text f) \<le> inner then fd_text f
      else case fd_ellipsis f of
        EMiddle \<Rightarrow> truncate_middle w (fd_text f) inner
      | _ \<Rightarrow> truncate_tail w (fd_text f) inner)"

section \<open>Paths\<close>

definition trim_end_slashes :: "ustr \<Rightarrow> ustr" where
  "trim_end_slashes s = rev (dropWhile (\<lambda>c. c = 47) (rev s))"

definition normalize_display_home :: "ustr \<Rightarrow> ustr option" where
  "normalize_display_home home =
     (if \<not> prefixed [47] home then None
      else let trimmed = trim_end_slashes home in if trimmed = [] then None else Some trimmed)"

definition compact_home :: "ustr \<Rightarrow> ustr option \<Rightarrow> ustr" where
  "compact_home path home =
     (case Option.bind home normalize_display_home of
        None \<Rightarrow> path
      | Some home \<Rightarrow>
          if path = home then U ''~''
          else (case Option.bind (strip_prefix home path) (strip_prefix [47]) of
                  Some rel \<Rightarrow> U ''~/'' @ rel
                | None \<Rightarrow> path))"

definition display_home :: "ustr option \<Rightarrow> ustr option" where
  "display_home home_env =
     (case home_env of None \<Rightarrow> None
      | Some home \<Rightarrow> (case normalize_display_home home of None \<Rightarrow> None | Some _ \<Rightarrow> Some home))"

definition cwd_display :: "ustr option \<Rightarrow> ustr option \<Rightarrow> ustr" where
  "cwd_display cwd home = (case cwd of Some path \<Rightarrow> compact_home path home | None \<Rightarrow> U ''-'')"

definition or_dash :: "ustr option \<Rightarrow> ustr" where
  "or_dash v = (case v of Some x \<Rightarrow> x | None \<Rightarrow> U ''-'')"

definition reply_pane :: "party \<Rightarrow> ustr" where
  "reply_pane sender = or_dash (p_pane sender)"

section \<open>The box\<close>

definition header_title :: ustr where
  "header_title = U ''Zynk message''"

definition field_middle :: "ustr \<Rightarrow> field" where
  "field_middle text = \<lparr>fd_text = text, fd_ellipsis = EMiddle\<rparr>"

definition field_tail :: "ustr \<Rightarrow> field" where
  "field_tail text = \<lparr>fd_text = text, fd_ellipsis = ETail\<rparr>"

definition field_plain :: "ustr \<Rightarrow> field" where
  "field_plain text = \<lparr>fd_text = text, fd_ellipsis = ENone\<rparr>"

definition party_field :: "ustr \<Rightarrow> party \<Rightarrow> ustr option \<Rightarrow> field" where
  "party_field label p home =
     field_middle (label @ or_dash (p_agent p) @ [32] @ or_dash (p_pane p) @ U ''  cwd: '' @ cwd_display (p_cwd p) home)"

definition header_fields ::
  "party \<Rightarrow> party \<Rightarrow> persisted_send \<Rightarrow> ustr option \<Rightarrow> header_options \<Rightarrow> ustr option \<Rightarrow> field list" where
  "header_fields sender to record message_type options home =
     [party_field (U ''from: '') sender home, party_field (U ''to:   '') to home]
     @ (case message_type of Some t \<Rightarrow> [field_tail (U ''type: '' @ t)] | None \<Rightarrow> [])
     @ [field_tail (U ''id:   '' @ ps_message_id record),
        field_tail (U ''conv: '' @ ps_conversation_id record @ U ''#'' @ dec_int (ps_conversation_seq record))]
     @ (case ps_trace_id record of Some trace \<Rightarrow> [field_tail (U ''trace: '' @ trace)] | None \<Rightarrow> [])
     @ (if ho_verbose options
        then [field_plain (U ''reply: zynk reply '' @ reply_pane sender @ U '' -- '' @ [34] @ U ''<your response>'' @ [34]),
              field_plain (U ''note: header is for agent awareness; not receipt proof'')]
        else [])"

definition title_prefix :: ustr where
  "title_prefix = [9581, 9472, 32] @ header_title @ [32]"

definition title_consumed :: "(ustr \<Rightarrow> nat) \<Rightarrow> nat" where
  "title_consumed w = w title_prefix - 1"

definition clamp :: "nat \<Rightarrow> nat \<Rightarrow> nat \<Rightarrow> nat" where
  "clamp lo hi x = (if x < lo then lo else if hi < x then hi else x)"

definition header_inner :: "(ustr \<Rightarrow> nat) \<Rightarrow> header_options \<Rightarrow> field list \<Rightarrow> nat" where
  "header_inner w options flds =
     (let budget = max (ho_max_width options - 4) 1;
          widest = Max (insert 0 (set (map (\<lambda>f. w (fd_text f)) flds)));
          title_floor = (title_consumed w + 1) - 2;
          lower = max title_floor 1
      in clamp lower (max budget lower) widest)"

definition header_lines :: "(ustr \<Rightarrow> nat) \<Rightarrow> header_options \<Rightarrow> field list \<Rightarrow> ustr list" where
  "header_lines w options flds =
     (let inner = header_inner w options flds;
          total_dashes = inner + 2;
          title_dashes = total_dashes - title_consumed w
      in [title_prefix @ replicate title_dashes 9472 @ [9582]]
         @ map (\<lambda>f. let content = field_fit w f inner; pad = inner - w content
                    in [9474, 32] @ content @ replicate pad 32 @ [32, 9474]) flds
         @ [[9584] @ replicate total_dashes 9472 @ [9583]])"

definition render_header ::
  "(ustr \<Rightarrow> nat) \<Rightarrow> party \<Rightarrow> party \<Rightarrow> persisted_send \<Rightarrow> ustr option \<Rightarrow> header_options \<Rightarrow> ustr option \<Rightarrow> ustr" where
  "render_header w sender to record message_type options home =
     join [10] (header_lines w options (header_fields sender to record message_type options home))"

definition prepend_header :: "ustr \<Rightarrow> ustr \<Rightarrow> ustr" where
  "prepend_header header body = header @ [10, 10] @ body"

definition resolve_header_options :: "header_config \<Rightarrow> ustr option \<Rightarrow> header_options" where
  "resolve_header_options config env_verbose = header_resolve config env_verbose"

definition is_agent_target :: "party \<Rightarrow> bool" where
  "is_agent_target to \<longleftrightarrow> p_agent_session to \<noteq> None \<or> p_agent to \<noteq> None"

section \<open>Widths\<close>

definition additive :: "(ustr \<Rightarrow> nat) \<Rightarrow> nat set \<Rightarrow> bool" where
  "additive w A \<longleftrightarrow> (\<forall>s. set s \<subseteq> A \<longrightarrow> w s = sum_list (map (\<lambda>c. w [c]) s))"

definition chrome :: "nat set" where
  "chrome = {9581, 9472, 32, 9582, 9474, 9584, 9583, 8230} \<union> set header_title"

text \<open>What is assumed of the width function: on the characters \<open>A\<close> it adds up, and the characters of the frame take one column.\<close>

definition width_model :: "(ustr \<Rightarrow> nat) \<Rightarrow> nat set \<Rightarrow> bool" where
  "width_model w A \<longleftrightarrow> additive w A \<and> chrome \<subseteq> A \<and> (\<forall>c \<in> chrome. w [c] = 1)"

lemma additiveD: "additive w A \<Longrightarrow> set s \<subseteq> A \<Longrightarrow> w s = sum_list (map (\<lambda>c. w [c]) s)"
  unfolding additive_def by blast

lemma width_Nil: "additive w A \<Longrightarrow> w [] = 0"
  by (drule additiveD [where s = "[]"]) simp_all

lemma width_append: "additive w A \<Longrightarrow> set s \<subseteq> A \<Longrightarrow> set t \<subseteq> A \<Longrightarrow> w (s @ t) = w s + w t"
  using additiveD [of w A s] additiveD [of w A t] additiveD [of w A "s @ t"] by simp

lemma width_chrome:
  assumes "width_model w A" and "set s \<subseteq> chrome"
  shows "w s = length s"
proof -
  have "map (\<lambda>c. w [c]) s = map (\<lambda>_. 1) s" using assms by (auto simp: width_model_def)
  then have "sum_list (map (\<lambda>c. w [c]) s) = length s" by (simp only: sum_list_triv) simp
  moreover have "w s = sum_list (map (\<lambda>c. w [c]) s)" using assms by (intro additiveD [of w A]) (auto simp: width_model_def)
  ultimately show ?thesis by simp
qed

lemma set_take_cols: "set (take_cols w budget used s) \<subseteq> set s"
  by (induction w budget used s rule: take_cols.induct) (auto simp: Let_def)

lemma take_cols_width:
  assumes ad: "additive w A"
  shows "set s \<subseteq> A \<Longrightarrow> used \<le> budget \<Longrightarrow> used + w (take_cols w budget used s) \<le> budget"
proof (induction s arbitrary: used)
  case Nil
  then show ?case by (simp add: width_Nil [OF ad])
next
  case (Cons ch s)
  show ?case
  proof (cases "used + w [ch] > budget")
    case True
    with Cons.prems show ?thesis by (simp add: width_Nil [OF ad])
  next
    case False
    let ?t = "take_cols w budget (used + w [ch]) s"
    have "w ([ch] @ ?t) = w [ch] + w ?t"
      using Cons.prems(1) set_take_cols [of w budget "used + w [ch]" s] by (intro width_append [OF ad]) auto
    moreover have "(used + w [ch]) + w ?t \<le> budget" using Cons.IH [of "used + w [ch]"] Cons.prems(1) False by simp
    ultimately show ?thesis using False by (simp add: Let_def)
  qed
qed

lemma set_field_fit: "set (field_fit w f inner) \<subseteq> insert 8230 (set (fd_text f))"
proof -
  have "set (truncate_middle w s n) \<subseteq> insert 8230 (set s)" "set (truncate_tail w s n) \<subseteq> insert 8230 (set s)" for s n
    using set_take_cols [of w _ 0 s] set_take_cols [of w _ 0 "rev s"]
    by (auto simp: truncate_middle_def truncate_tail_def ellipsis_char_def Let_def)
  then show ?thesis by (auto simp: field_fit_def split: ellipsis.splits)
qed

lemma field_fit_width:
  assumes wm: "width_model w A" and A: "set (fd_text f) \<subseteq> A" and "1 \<le> inner"
  shows "w (field_fit w f inner) \<le> inner"
proof -
  let ?s = "fd_text f"
  have ad: "additive w A" and e: "8230 \<in> A" "w [8230] = 1" using wm by (auto simp: width_model_def chrome_def)
  have sub: "set (take_cols w b 0 ?s) \<subseteq> A" "set (rev (take_cols w b 0 (rev ?s))) \<subseteq> A" for b
    using A set_take_cols [of w b 0 ?s] set_take_cols [of w b 0 "rev ?s"] by auto
  have left: "w (take_cols w b 0 ?s) \<le> b" for b using take_cols_width [OF ad A, of 0 b] by simp
  have right: "w (rev (take_cols w b 0 (rev ?s))) \<le> b" for b
  proof -
    have "w (rev (take_cols w b 0 (rev ?s))) = w (take_cols w b 0 (rev ?s))"
      using additiveD [OF ad sub(2) [of b]] additiveD [OF ad, of "take_cols w b 0 (rev ?s)"] sub(2) [of b]
      by (simp add: rev_map [symmetric])
    with take_cols_width [OF ad, of "rev ?s" 0 b] A show ?thesis by simp
  qed
  have "w (truncate_middle w ?s inner) \<le> inner"
  proof (cases "w ?s \<le> inner \<or> inner \<le> 1")
    case False
    let ?r = "(inner - 1) div 2"
    have "w (truncate_middle w ?s inner) = w (take_cols w (inner - 1 - ?r) 0 ?s) + (1 + w (rev (take_cols w ?r 0 (rev ?s))))"
    proof -
      have "truncate_middle w ?s inner = take_cols w (inner - 1 - ?r) 0 ?s @ [8230] @ rev (take_cols w ?r 0 (rev ?s))"
        using False by (simp add: truncate_middle_def ellipsis_char_def Let_def)
      with sub e width_append [OF ad sub(1), of "[8230] @ rev (take_cols w ?r 0 (rev ?s))"] width_append [OF ad _ sub(2), of "[8230]"]
      show ?thesis by simp
    qed
    moreover have "?r \<le> inner - 1" by (rule div_le_dividend)
    ultimately show ?thesis using left [of "inner - 1 - ?r"] right [of ?r] False by linarith
  qed (use assms(3) e in \<open>auto simp: truncate_middle_def ellipsis_char_def\<close>)
  moreover have "w (truncate_tail w ?s inner) \<le> inner"
  proof (cases "w ?s \<le> inner \<or> inner \<le> 1")
    case False
    have "w (truncate_tail w ?s inner) = w (take_cols w (inner - 1) 0 ?s) + 1"
      using False sub e width_append [OF ad] by (simp add: truncate_tail_def ellipsis_char_def Let_def)
    with left [of "inner - 1"] False show ?thesis by linarith
  qed (use assms(3) e in \<open>auto simp: truncate_tail_def ellipsis_char_def\<close>)
  ultimately show ?thesis by (simp add: field_fit_def split: ellipsis.split)
qed

lemma title_width: "width_model w A \<Longrightarrow> w title_prefix = 16"
  by (subst width_chrome) (auto simp: title_prefix_def chrome_def header_title_def U_def)

lemma clamp_bounds: "lo \<le> hi \<Longrightarrow> lo \<le> clamp lo hi x \<and> clamp lo hi x \<le> hi"
  by (simp add: clamp_def)

lemma header_inner_bounds:
  assumes "width_model w A"
  shows "14 \<le> header_inner w options flds" and "header_inner w options flds + 4 \<le> max (ho_max_width options) 18"
proof -
  define widest where "widest = Max (insert 0 (set (map (\<lambda>f. w (fd_text f)) flds)))"
  have "header_inner w options flds = clamp 14 (max (max (ho_max_width options - 4) 1) 14) widest"
    using title_width [OF assms] by (simp add: header_inner_def title_consumed_def Let_def widest_def)
  with clamp_bounds [of 14 "max (max (ho_max_width options - 4) 1) 14" widest]
  show "14 \<le> header_inner w options flds" "header_inner w options flds + 4 \<le> max (ho_max_width options) 18"
    by linarith+
qed

lemma header_lines_width:
  assumes wm: "width_model w A" and A: "\<And>f. f \<in> set flds \<Longrightarrow> set (fd_text f) \<subseteq> A" and l: "l \<in> set (header_lines w options flds)"
  shows "w l = header_inner w options flds + 4"
proof -
  let ?inner = "header_inner w options flds"
  note b = header_inner_bounds(1) [OF wm, of options flds]
  have t: "title_consumed w = 15" using title_width [OF wm] by (simp add: title_consumed_def)
  have ad: "additive w A" and cA: "chrome \<subseteq> A" using wm by (auto simp: width_model_def)
  from l consider "l = title_prefix @ replicate (?inner + 2 - 15) 9472 @ [9582]"
    | f where "f \<in> set flds" "l = [9474, 32] @ field_fit w f ?inner @ replicate (?inner - w (field_fit w f ?inner)) 32 @ [32, 9474]"
    | "l = [9584] @ replicate (?inner + 2) 9472 @ [9583]"
    by (auto simp: header_lines_def Let_def t)
  then show ?thesis
  proof cases
    case 1
    have "w l = length l" unfolding 1
      by (rule width_chrome [OF wm]) (auto simp: title_prefix_def chrome_def header_title_def)
    with 1 b show ?thesis by (simp add: title_prefix_def header_title_def U_def)
  next
    case (2 f)
    let ?c = "field_fit w f ?inner" and ?pad = "replicate (?inner - w (field_fit w f ?inner)) (32 :: nat)"
    have c: "set ?c \<subseteq> A" using set_field_fit [of w f ?inner] A [OF 2(1)] cA by (auto simp: chrome_def)
    have fit: "w ?c \<le> ?inner" using field_fit_width [OF wm A [OF 2(1)]] b by simp
    have "set ([9474, 32] :: ustr) \<subseteq> chrome" "set (?pad @ [32, 9474]) \<subseteq> chrome" by (auto simp: chrome_def)
    note ends = width_chrome [OF wm this(1)] width_chrome [OF wm this(2)]
    have sub: "set ([9474, 32] :: ustr) \<subseteq> A" "set (?pad @ [32, 9474]) \<subseteq> A" using cA by (auto simp: chrome_def)
    have "w l = w [9474, 32] + (w ?c + w (?pad @ [32, 9474]))"
      unfolding 2(2) using width_append [OF ad sub(1), of "?c @ ?pad @ [32, 9474]"] width_append [OF ad c sub(2)] c sub(2)
      by (simp del: append_Cons append_Nil)
    then show ?thesis unfolding ends using fit by simp
  next
    case 3
    have "w l = length l" unfolding 3 by (rule width_chrome [OF wm]) (auto simp: chrome_def)
    with 3 show ?thesis by simp
  qed
qed

section \<open>The body behind the header\<close>

text \<open>A reader that splits a delivery at its first blank line.\<close>

fun split_blank :: "ustr \<Rightarrow> (ustr \<times> ustr) option" where
  "split_blank (a # b # s) =
     (if a = 10 \<and> b = 10 then Some ([], s)
      else map_option (\<lambda>(h, t). (a # h, t)) (split_blank (b # s)))"
| "split_blank s = None"

text \<open>A line that is not empty and holds no newline.\<close>

definition solid :: "ustr \<Rightarrow> bool" where
  "solid l \<longleftrightarrow> l \<noteq> [] \<and> 10 \<notin> set l"

lemma split_blank_solid: "solid l \<Longrightarrow> split_blank (l @ [10, 10] @ t) = Some (l, t)"
proof (induction l)
  case (Cons a l)
  then show ?case by (cases l) (auto simp: solid_def)
qed (simp add: solid_def)

lemma split_blank_line:
  "solid l \<Longrightarrow> r \<noteq> [] \<Longrightarrow> hd r \<noteq> 10 \<Longrightarrow> split_blank (l @ [10] @ r) = map_option (\<lambda>(h, t). (l @ [10] @ h, t)) (split_blank r)"
proof (induction l)
  case (Cons a l)
  then show ?case
  proof (cases l)
    case Nil
    with Cons.prems show ?thesis by (cases r) (auto simp: solid_def option.map_comp comp_def split_def)
  next
    case (Cons b l')
    with \<open>solid (a # l)\<close> have "solid l" "a \<noteq> 10" by (auto simp: solid_def)
    with Cons.IH Cons.prems Cons show ?thesis by (auto simp: option.map_comp comp_def split_def)
  qed
qed (simp add: solid_def)

lemma split_blank_join:
  "ls \<noteq> [] \<Longrightarrow> \<forall>l \<in> set ls. solid l \<Longrightarrow> split_blank (join [10] ls @ [10, 10] @ t) = Some (join [10] ls, t)"
proof (induction "[10] :: ustr" ls rule: join.induct)
  case (2 x)
  then show ?case using split_blank_solid [of x t] by simp
next
  case (3 x y xs)
  have y: "solid y" using 3(3) by simp
  then have "join [10] (y # xs) \<noteq> []" "hd (join [10] (y # xs)) \<noteq> 10"
    by (cases xs; cases y; auto simp: solid_def)+
  then have "split_blank (x @ [10] @ (join [10] (y # xs) @ [10, 10] @ t)) =
      map_option (\<lambda>(h, t). (x @ [10] @ h, t)) (split_blank (join [10] (y # xs) @ [10, 10] @ t))"
    using 3(3) by (intro split_blank_line) auto
  with 3 show ?case by simp
qed simp

lemma header_lines_solid:
  assumes "\<And>f. f \<in> set flds \<Longrightarrow> 10 \<notin> set (fd_text f)"
  shows "\<forall>l \<in> set (header_lines w options flds). solid l"
  using assms set_field_fit [of w _ "header_inner w options flds"]
  by (fastforce simp: header_lines_def Let_def solid_def title_prefix_def header_title_def U_def)

section \<open>Properties\<close>

text \<open>
  C36. Every row of the header box has the same display width, the frame plus the inner width, at
  most \<open>max_width\<close> columns (18 if that is less), and the dashes of the title row never underflow,
  for all parties, ids, types and homes whose text has additive width.
\<close>

theorem header_box_aligned:
  assumes "width_model w A" and "flds = header_fields sender to record message_type options home"
    and "\<forall>f \<in> set flds. set (fd_text f) \<subseteq> A"
  shows "(\<forall>l \<in> set (header_lines w options flds). w l = header_inner w options flds + 4) \<and>
    header_inner w options flds + 4 \<le> max (ho_max_width options) 18 \<and>
    title_consumed w < header_inner w options flds + 2 \<and>
    length (header_lines w options flds) = length flds + 2"
proof (intro conjI ballI)
  show "w l = header_inner w options flds + 4" if "l \<in> set (header_lines w options flds)" for l
    using assms(3) that by (intro header_lines_width [OF assms(1)]) blast+
  show "header_inner w options flds + 4 \<le> max (ho_max_width options) 18"
    by (rule header_inner_bounds(2) [OF assms(1)])
  show "title_consumed w < header_inner w options flds + 2"
    using title_width [OF assms(1)] header_inner_bounds(1) [OF assms(1), of options flds]
    unfolding title_consumed_def by linarith
qed (simp add: header_lines_def Let_def)


lemma prefixed_iff: "prefixed p s \<longleftrightarrow> (\<exists>r. s = p @ r)"
  unfolding prefixed_def by (metis append_eq_conv_conj append_take_drop_id)

text \<open>What \<open>~\<close> stands for.\<close>

definition expand_home :: "ustr \<Rightarrow> ustr \<Rightarrow> ustr" where
  "expand_home home p = (if p = U ''~'' then home else if prefixed (U ''~/'') p then home @ tl p else p)"

text \<open>
  Compaction of the home directory is lossless and boundary-safe: expanding the displayed path
  gives back the path, and \<open>~\<close> appears only for the home itself or a path below it (never for a
  sibling such as \<open>/home/user2\<close>); a relative home or the root compacts nothing.
\<close>

theorem compact_home_lossless:
  assumes "prefixed [47] path"
  shows "(case normalize_display_home home of
      None \<Rightarrow> compact_home path (Some home) = path
    | Some h \<Rightarrow> expand_home h (compact_home path (Some home)) = path \<and> h \<noteq> [] \<and> last h \<noteq> 47 \<and>
        (prefixed (U ''~'') (compact_home path (Some home)) \<longleftrightarrow> path = h \<or> prefixed (h @ [47]) path))"
proof (cases "normalize_display_home home")
  case (Some h)
  have h: "h \<noteq> []" "last h \<noteq> 47"
    using Some hd_dropWhile [of "\<lambda>c. c = 47" "rev home"]
    by (auto simp: normalize_display_home_def trim_end_slashes_def Let_def last_rev split: if_splits)
  obtain r where path: "path = 47 # r" using assms by (cases path) (auto simp: prefixed_def)
  show ?thesis
  proof (cases "\<exists>rel. path = h @ [47] @ rel")
    case True
    then obtain rel where rel: "path = h @ [47] @ rel" by blast
    then have "strip_prefix h path = Some (47 # rel)" "strip_prefix [47] (47 # rel) = Some rel"
      by (simp_all add: strip_prefix_iff)
    with rel Some h show ?thesis by (auto simp: compact_home_def expand_home_def prefixed_def U_def)
  next
    case False
    then have n: "Option.bind (strip_prefix h path) (strip_prefix [47]) = None"
      by (cases "Option.bind (strip_prefix h path) (strip_prefix [47])")
        (auto simp: bind_eq_Some_conv strip_prefix_iff)
    have "\<not> prefixed (h @ [47]) path" using False prefixed_iff [of "h @ [47]" path] by simp
    moreover have "\<not> prefixed [126] path" "\<not> prefixed [126, 47] path" "prefixed [126] [126]" "path \<noteq> [126]"
      by (simp_all add: path prefixed_def)
    ultimately show ?thesis using n Some h by (auto simp: compact_home_def expand_home_def U_def)
  qed
qed (simp add: compact_home_def)

text \<open>
  The width of \<open>unicode-width\<close> on texts of single-column characters and emoji presentation
  sequences: U+FE0F takes no column alone and adds one to an umbrella (U+2602) before it.
\<close>

fun presentation_width :: "ustr \<Rightarrow> nat" where
  "presentation_width [] = 0"
| "presentation_width (c # s) =
     (if c = 65039 then 0 else 1) + (if c = 9730 \<and> s \<noteq> [] \<and> hd s = 65039 then 1 else 0) + presentation_width s"

definition sample_persisted :: persisted_send where
  "sample_persisted = \<lparr>ps_message_id = U ''msg_x'', ps_conversation_id = U ''conv_y'', ps_conversation_seq = 7,
     ps_body_hash = U ''abc123'', ps_runtime_session_id = U ''rt_z'', ps_socket_namespace = U ''/tmp/zynk.sock'',
     ps_trace_id = None\<rparr>"

definition sample_options :: header_options where
  "sample_options = \<lparr>ho_verbose = False, ho_max_width = 24\<rparr>"

definition umbrella_party :: party where
  "umbrella_party = party_default\<lparr>p_agent := Some (U ''abc'' @ [9730, 65039]), p_cwd := Some (U ''/home/user/project'')\<rparr>"

definition umbrella_fields :: "field list" where
  "umbrella_fields = header_fields umbrella_party party_default sample_persisted None sample_options None"

lemmas umbrella_defs = umbrella_fields_def header_fields_def umbrella_party_def party_default_def sample_persisted_def
  sample_options_def party_field_def field_middle_def field_tail_def U_def or_dash_def cwd_display_def compact_home_def
  dec_int_def dec_def radix_def digit_char_def

lemma umbrella_inner: "header_inner presentation_width sample_options umbrella_fields = 20"
  by (simp add: header_inner_def title_consumed_def title_prefix_def header_title_def clamp_def umbrella_defs Let_def)

text \<open>
  Without additive width the rows do not align: an agent label with an emoji presentation
  sequence at the truncation point makes its row one column wider than the frame, although the
  documentation promises rows of equal width.
\<close>

theorem header_misaligned_on_presentation_sequence:
  "presentation_width (header_lines presentation_width sample_options umbrella_fields ! 0) = 24 \<and>
   presentation_width (header_lines presentation_width sample_options umbrella_fields ! 1) = 25"
proof
  have "replicate 7 (9472 :: nat) = [9472, 9472, 9472, 9472, 9472, 9472, 9472]" by (simp add: numeral_eq_Suc)
  then show "presentation_width (header_lines presentation_width sample_options umbrella_fields ! 0) = 24"
    by (simp add: header_lines_def umbrella_inner title_consumed_def title_prefix_def header_title_def U_def Let_def)
  obtain row where f: "field_fit presentation_width (umbrella_fields ! 0) 20 = row"
    and t: "presentation_width ([9474, 32] @ row @ [32, 9474]) = 25" "presentation_width row = 21"
    by (simp add: umbrella_defs field_fit_def truncate_middle_def ellipsis_char_def Let_def)
  have "umbrella_fields \<noteq> []" by (simp add: umbrella_fields_def header_fields_def)
  then have "header_lines presentation_width sample_options umbrella_fields ! 1 = [9474, 32] @ row @ [32, 9474]"
    using f t(2) by (simp add: header_lines_def umbrella_inner Let_def nth_append)
  then show "presentation_width (header_lines presentation_width sample_options umbrella_fields ! 1) = 25"
    using t(1) by simp
qed

section \<open>Witnesses\<close>

definition sample_fields :: "field list" where
  "sample_fields = header_fields party_default party_default sample_persisted (Some (U ''request'')) sample_options None"

theorem header_box_aligned_witness:
  "list_all (\<lambda>l. length l = 21) (header_lines length sample_options sample_fields)"
proof -
  have wm: "width_model length UNIV" by (simp add: width_model_def additive_def sum_list_triv)
  have "header_inner length sample_options sample_fields = 17" by code_simp
  with header_box_aligned [OF wm sample_fields_def] show ?thesis by (simp add: list_all_iff)
qed


text \<open>A type with a blank line in it: the first blank line of the delivery is inside the header.\<close>

lemma split_blank_first:
  "split_blank s = Some (h, t) \<Longrightarrow> h \<noteq> p @ [10, 10] @ q"
proof (induction s arbitrary: h p rule: split_blank.induct)
  case (1 a b s)
  show ?case
  proof (cases "a = 10 \<and> b = 10")
    case False
    then obtain h' where h': "split_blank (b # s) = Some (h', t)" "h = a # h'" using "1.prems" by auto
    have first: "h' = [] \<or> hd h' = b" using h'(1) by (cases s) (auto split: if_splits)
    show ?thesis
    proof
      assume h: "h = p @ [10, 10] @ q"
      show False
      proof (cases p)
        case Nil
        with h h' first False show False by auto
      next
        case (Cons x p')
        with h h'(2) have "h' = p' @ [10, 10] @ q" by simp
        with "1.IH" [OF _ h'(1), of p'] False show False by simp
      qed
    qed
  qed (use 1 in simp)
qed simp_all

lemma join_infix: "l \<in> set ls \<Longrightarrow> \<exists>p q. join [10] ls = p @ l @ q"
proof (induction "[10] :: ustr" ls rule: join.induct)
  case (3 x y xs)
  show ?case
  proof (cases "l = x")
    case False
    with 3 obtain p q where "join [10] (y # xs) = p @ l @ q" by auto
    then have "join [10] (x # y # xs) = (x @ [10] @ p) @ l @ q" by simp
    then show ?thesis by blast
  next
    case True
    then have "join [10] (x # y # xs) = [] @ l @ [10] @ join [10] (y # xs)" by simp
    then show ?thesis by blast
  qed
next
  case (2 x)
  then have "join [10] [x] = [] @ l @ []" by simp
  then show ?case by blast
qed simp

lemma blank_line_in_type_breaks_split:
  "split_blank (prepend_header (render_header length sender to record (Some [97, 10, 10, 98]) options home) body) \<noteq>
   Some (render_header length sender to record (Some [97, 10, 10, 98]) options home, body)"
proof -
  let ?fs = "header_fields sender to record (Some [97, 10, 10, 98]) options home"
  let ?f = "field_tail (U ''type: '' @ [97, 10, 10, 98])"
  have "width_model length UNIV" by (simp add: width_model_def additive_def sum_list_triv)
  from header_inner_bounds(1) [OF this, of options ?fs] have "10 \<le> header_inner length options ?fs" by simp
  then have fit: "field_fit length ?f (header_inner length options ?fs) = U ''type: '' @ [97, 10, 10, 98]"
    by (simp add: field_fit_def field_tail_def U_def)
  have "?f \<in> set ?fs" by (simp add: header_fields_def)
  then have "[9474, 32] @ field_fit length ?f (header_inner length options ?fs) @
      replicate (header_inner length options ?fs - length (field_fit length ?f (header_inner length options ?fs))) 32 @ [32, 9474]
      \<in> set (header_lines length options ?fs)"
    unfolding header_lines_def Let_def by (simp only: set_append set_map) blast
  from join_infix [OF this] obtain p q where
    "render_header length sender to record (Some [97, 10, 10, 98]) options home = p @ [10, 10] @ q"
    unfolding render_header_def fit by (metis append.assoc append_Cons append_Nil)
  then show ?thesis using split_blank_first by blast
qed

theorem compact_home_lossless_witness:
  "compact_home (U ''/home/user2'') (Some (U ''/home/user'')) = U ''/home/user2'' \<and>
   expand_home (U ''/home/user'') (compact_home (U ''/home/user/x'') (Some (U ''/home/user''))) = U ''/home/user/x''"
proof -
  have "normalize_display_home (U ''/home/user'') = Some (U ''/home/user'')"
    "prefixed [47] (U ''/home/user/x'')" by code_simp+
  moreover have "compact_home (U ''/home/user2'') (Some (U ''/home/user'')) = U ''/home/user2''" by code_simp
  ultimately show ?thesis using compact_home_lossless [of "U ''/home/user/x''" "U ''/home/user''"] by simp
qed

end
