(* ===== verification/Keys.thy ===== *)
theory Keys
  imports Prelude
begin

unbundle bit_operations_syntax

text \<open>
  Keys and keyboard protocols: \<open>src/input/model.rs\<close>.
\<close>

section \<open>Keys\<close>

text \<open>
  The key codes, event kinds and modifier flags of crossterm, and the keys of \<open>input/model.rs\<close>.
\<close>

datatype media_key_code = MediaPlay | MediaPause | MediaPlayPause | MediaReverse | MediaStop | MediaFastForward
  | MediaRewind | MediaTrackNext | MediaTrackPrevious | MediaRecord | MediaLowerVolume | MediaRaiseVolume | MediaMuteVolume

datatype modifier_key_code = LeftShift | LeftControl | LeftAlt | LeftSuper | LeftHyper | LeftMeta
  | RightShift | RightControl | RightAlt | RightSuper | RightHyper | RightMeta | IsoLevel3Shift | IsoLevel5Shift

datatype key_code = KeyBackspace | KeyEnter | KeyLeft | KeyRight | KeyUp | KeyDown | KeyHome | KeyEnd
  | KeyPageUp | KeyPageDown | KeyTab | KeyBackTab | KeyDelete | KeyInsert | KeyF nat | KeyChar nat | KeyNull | KeyEsc
  | KeyCapsLock | KeyScrollLock | KeyNumLock | KeyPrintScreen | KeyPause | KeyMenu | KeyKeypadBegin
  | KeyMedia media_key_code | KeyModifier modifier_key_code

datatype key_kind = Press | Repeat | Release

definition mod_shift :: u8 where
  "mod_shift = 1"

definition mod_control :: u8 where
  "mod_control = 2"

definition mod_alt :: u8 where
  "mod_alt = 4"

definition mod_super :: u8 where
  "mod_super = 8"

definition mod_hyper :: u8 where
  "mod_hyper = 16"

definition mod_meta :: u8 where
  "mod_meta = 32"

record windows_key_record =
  wk_key_down :: bool
  wk_repeat_count :: u16
  wk_virtual_key_code :: u16
  wk_virtual_scan_code :: u16
  wk_unicode :: u16
  wk_control_key_state :: u32

datatype key_identity = Physical u32 | Semantic key_code

datatype key_source =
    Synthesized
  | Vt "u8 list"
  | WindowsConsole windows_key_record "u32 option"

definition physical_key_id :: "windows_key_record \<Rightarrow> u32 option" where
  "physical_key_id r =
     (if wk_virtual_scan_code r \<noteq> 0
      then Some (ucast (wk_virtual_scan_code r) OR
        push_bit 16 (if wk_control_key_state r AND 0x100 \<noteq> 0 then 1 else 0))
      else None)"

record terminal_key =
  tk_code :: key_code
  tk_modifiers :: u8
  tk_kind :: key_kind
  tk_repeat_count :: u16
  tk_shifted :: "u32 option"
  tk_text :: "ustr option"
  tk_source :: key_source

definition key_new :: "key_code \<Rightarrow> u8 \<Rightarrow> terminal_key" where
  "key_new code modifiers = \<lparr>tk_code = code, tk_modifiers = modifiers, tk_kind = Press, tk_repeat_count = 1,
     tk_shifted = None, tk_text = None, tk_source = Synthesized\<rparr>"

definition with_kind :: "key_kind \<Rightarrow> terminal_key \<Rightarrow> terminal_key" where
  "with_kind kind k =
     (let k1 = (if kind = Release then k\<lparr>tk_repeat_count := 1, tk_text := None\<rparr> else k) in k1\<lparr>tk_kind := kind\<rparr>)"

definition with_repeat_count :: "u16 \<Rightarrow> terminal_key \<Rightarrow> terminal_key" where
  "with_repeat_count n k = k\<lparr>tk_repeat_count := if tk_kind k = Release then 1 else max n 1\<rparr>"

definition with_shifted_codepoint :: "u32 \<Rightarrow> terminal_key \<Rightarrow> terminal_key" where
  "with_shifted_codepoint c k = k\<lparr>tk_shifted := Some c\<rparr>"

definition with_generated_text :: "ustr option \<Rightarrow> terminal_key \<Rightarrow> terminal_key" where
  "with_generated_text t k = k\<lparr>tk_text := if tk_kind k = Release then None else t\<rparr>"

definition with_vt_bytes :: "u8 list \<Rightarrow> terminal_key \<Rightarrow> terminal_key" where
  "with_vt_bytes bytes k = k\<lparr>tk_source := Vt bytes\<rparr>"

definition has_associated_text :: "terminal_key \<Rightarrow> bool" where
  "has_associated_text k \<longleftrightarrow>
     (case tk_text k of None \<Rightarrow> False
      | Some t \<Rightarrow> (case tk_source k of Vt bytes \<Rightarrow> bytes \<noteq> as_bytes t | _ \<Rightarrow> True))"

definition with_windows_record :: "windows_key_record \<Rightarrow> terminal_key \<Rightarrow> terminal_key" where
  "with_windows_record r k =
     k\<lparr>tk_repeat_count := if tk_kind k = Release then 1 else max (wk_repeat_count r) 1,
       tk_source := WindowsConsole r (physical_key_id r)\<rparr>"

definition identity :: "terminal_key \<Rightarrow> key_identity" where
  "identity k = (case tk_source k of WindowsConsole _ (Some p) \<Rightarrow> Physical p | _ \<Rightarrow> Semantic (tk_code k))"

definition has_physical_identity :: "terminal_key \<Rightarrow> bool" where
  "has_physical_identity k \<longleftrightarrow> (case tk_source k of WindowsConsole _ (Some _) \<Rightarrow> True | _ \<Rightarrow> False)"

definition with_text_commit :: "(nat \<Rightarrow> bool) \<Rightarrow> terminal_key \<Rightarrow> terminal_key" where
  "with_text_commit is_uppercase k =
     (let has_text_only_modifiers =
        (case tk_code k of
           KeyChar ch \<Rightarrow> if is_uppercase ch then tk_modifiers k = mod_shift \<or> tk_modifiers k = 0 else tk_modifiers k = 0
         | _ \<Rightarrow> False)
      in if has_text_only_modifiers \<and> tk_kind k = Press
         then k\<lparr>tk_text := case tk_code k of KeyChar ch \<Rightarrow> Some [ch] | _ \<Rightarrow> None\<rparr> else k)"

section \<open>Protocols\<close>

datatype keyboard_protocol = Legacy | Kitty u16

definition from_kitty_flags :: "u16 \<Rightarrow> keyboard_protocol" where
  "from_kitty_flags flags = (if flags = 0 then Legacy else Kitty flags)"

fun reports_event_types :: "keyboard_protocol \<Rightarrow> bool" where
  "reports_event_types (Kitty flags) \<longleftrightarrow> flags AND 2 \<noteq> 0"
| "reports_event_types Legacy \<longleftrightarrow> False"

fun reports_all_keys :: "keyboard_protocol \<Rightarrow> bool" where
  "reports_all_keys (Kitty flags) \<longleftrightarrow> flags AND 8 \<noteq> 0"
| "reports_all_keys Legacy \<longleftrightarrow> False"

datatype modify_other_keys_mode = Mode1 | Mode2

definition set_sequence :: "modify_other_keys_mode \<Rightarrow> ustr" where
  "set_sequence m = (case m of Mode1 \<Rightarrow> 27 # U ''[>4;1m'' | Mode2 \<Rightarrow> 27 # U ''[>4;2m'')"

definition host_modify_other_keys_mode_for_env ::
  "bool \<Rightarrow> ustr option \<Rightarrow> bool \<Rightarrow> modify_other_keys_mode option" where
  "host_modify_other_keys_mode_for_env in_tmux term_program wezterm_pane =
     (if in_tmux then Some Mode2
      else if wezterm_pane \<or>
        (case term_program of Some p \<Rightarrow> map (\<lambda>c. if 65 \<le> c \<and> c \<le> 90 then c + 32 else c) p = U ''wezterm'' | None \<Rightarrow> False)
      then Some Mode1 else None)"

datatype mouse_protocol_encoding = MouseDefault | MouseUtf8 | MouseSgr | MouseSgrPixels

end
