(* ===== verification/Input_Lease.thy ===== *)
theory Input_Lease
  imports Keys "HOL-Library.AList"
begin

unbundle bit_operations_syntax

text \<open>
  Input leases: \<open>src/app/input/lease.rs\<close> (the lease table)
  and the routing of key events of \<open>src/app/mod.rs\<close> and \<open>src/app/input/terminal.rs\<close>. The table is an
  association list with distinct keys; its order is the iteration order of the hash map and
  nothing depends on it. What the rest of the application answers while an event is routed (which
  context has the input, which terminal took the key, whether a send succeeded, whether a popup is
  open) is part of the event, so that the theorems hold for every behaviour of it.
\<close>

section \<open>The lease table\<close>

type_synonym terminal_id = ustr
type_synonym input_target = terminal_id
type_synonym input_source_id = u64

datatype input_context = Pane | Popup terminal_id

record lease_key =
  lk_source :: input_source_id
  lk_identity :: key_identity

definition lease_key_new :: "input_source_id \<Rightarrow> terminal_key \<Rightarrow> lease_key" where
  "lease_key_new source_id k = \<lparr>lk_source = source_id, lk_identity = identity k\<rparr>"

record forwarded_lease =
  fl_target :: input_target
  fl_key :: terminal_key

datatype consumed_lease = ReprocessRepeats input_context | SuppressRepeats

datatype input_lease = Forwarded forwarded_lease | Consumed consumed_lease

datatype repeat_plan = PlanForwarded input_target | PlanReprocess input_context u16 bool | PlanIgnore

type_synonym leases = "(lease_key \<times> input_lease) list"

definition normalize_press :: "lease_key \<Rightarrow> terminal_key \<Rightarrow> leases \<Rightarrow> terminal_key \<times> leases" where
  "normalize_press lk key ls =
     (if tk_kind key \<noteq> Press \<or> tk_text key \<noteq> None then (key, ls)
      else if has_physical_identity key \<and> map_of ls lk \<noteq> None then (with_kind Repeat key, ls)
      else (key, AList.delete lk ls))"

definition insert_forwarded :: "lease_key \<Rightarrow> input_target \<Rightarrow> terminal_key \<Rightarrow> leases \<Rightarrow> leases" where
  "insert_forwarded lk target original ls = AList.update lk (Forwarded \<lparr>fl_target = target, fl_key = original\<rparr>) ls"

definition insert_consumed :: "lease_key \<Rightarrow> consumed_lease \<Rightarrow> leases \<Rightarrow> leases" where
  "insert_consumed lk disposition ls = AList.update lk (Consumed disposition) ls"

definition complete_press ::
  "lease_key \<Rightarrow> terminal_key \<Rightarrow> input_context option \<Rightarrow> input_context option \<Rightarrow> input_target option \<Rightarrow> leases \<Rightarrow> repeat_plan \<times> leases" where
  "complete_press lk key initial resulting target ls =
     (if tk_text key \<noteq> None then (PlanIgnore, ls)
      else case target of
        Some t \<Rightarrow> (PlanIgnore, insert_forwarded lk t key ls)
      | None \<Rightarrow>
          let ls1 = (if map_of ls lk = None
                     then insert_consumed lk (case (initial, resulting) of
                         (Some i, Some r) \<Rightarrow> if i = r then ReprocessRepeats i else SuppressRepeats
                       | _ \<Rightarrow> SuppressRepeats) ls
                     else ls)
          in (case map_of ls1 lk of
                Some (Consumed (ReprocessRepeats context)) \<Rightarrow>
                  if 1 < tk_repeat_count key then PlanReprocess context (tk_repeat_count key - 1) True else PlanIgnore
              | _ \<Rightarrow> PlanIgnore, ls1))"

definition plan_repeat :: "lease_key \<Rightarrow> terminal_key \<Rightarrow> input_context option \<Rightarrow> leases \<Rightarrow> repeat_plan \<times> leases" where
  "plan_repeat lk key current ls =
     (case map_of ls lk of
        Some (Forwarded l) \<Rightarrow> (PlanForwarded (fl_target l), ls)
      | Some (Consumed (ReprocessRepeats context)) \<Rightarrow>
          if current = Some context then (PlanReprocess context (tk_repeat_count key) True, ls)
          else (PlanIgnore, insert_consumed lk SuppressRepeats ls)
      | Some (Consumed SuppressRepeats) \<Rightarrow> (PlanIgnore, ls)
      | None \<Rightarrow>
          (case current of
             Some context \<Rightarrow> (PlanReprocess context (tk_repeat_count key) False, ls)
           | None \<Rightarrow> (PlanIgnore, ls)))"

definition reprocess_allowed ::
  "lease_key \<Rightarrow> input_context \<Rightarrow> input_context option \<Rightarrow> bool \<Rightarrow> leases \<Rightarrow> bool \<times> leases" where
  "reprocess_allowed lk expected current tracked ls =
     (let allowed = (current = Some expected)
      in (allowed, if tracked \<and> \<not> allowed then insert_consumed lk SuppressRepeats ls else ls))"

definition forwarded_of :: "input_lease option \<Rightarrow> forwarded_lease option" where
  "forwarded_of l = (case l of Some (Forwarded f) \<Rightarrow> Some f | _ \<Rightarrow> None)"

definition remove_forwarded :: "lease_key \<Rightarrow> leases \<Rightarrow> forwarded_lease option \<times> leases" where
  "remove_forwarded lk ls = (forwarded_of (map_of ls lk), AList.delete lk ls)"

fun remove_keys :: "lease_key list \<Rightarrow> leases \<Rightarrow> (lease_key \<times> forwarded_lease) list \<times> leases" where
  "remove_keys [] ls = ([], ls)"
| "remove_keys (k # ks) ls =
     (let (f, ls1) = remove_forwarded k ls; (fs, ls2) = remove_keys ks ls1
      in ((case f of Some l \<Rightarrow> [(k, l)] | None \<Rightarrow> []) @ fs, ls2))"

definition remove_source :: "input_source_id \<Rightarrow> leases \<Rightarrow> (lease_key \<times> forwarded_lease) list \<times> leases" where
  "remove_source source_id ls = remove_keys (filter (\<lambda>k. lk_source k = source_id) (map fst ls)) ls"

definition holds_target :: "input_target \<Rightarrow> input_lease \<Rightarrow> bool" where
  "holds_target target l \<longleftrightarrow> (case l of Forwarded f \<Rightarrow> fl_target f = target | Consumed _ \<Rightarrow> False)"

definition remove_target :: "input_target \<Rightarrow> leases \<Rightarrow> (lease_key \<times> forwarded_lease) list \<times> leases" where
  "remove_target target ls = remove_keys (map fst (filter (\<lambda>(k, l). holds_target target l) ls)) ls"

definition suppress_target :: "input_target \<Rightarrow> leases \<Rightarrow> (lease_key \<times> forwarded_lease) list \<times> leases" where
  "suppress_target target ls =
     (List.map_filter (\<lambda>(k, l). case l of
          Forwarded f \<Rightarrow> if fl_target f = target then Some (k, f) else None | Consumed _ \<Rightarrow> None) ls,
      map (\<lambda>(k, l). (k, if holds_target target l then Consumed SuppressRepeats else l)) ls)"

section \<open>Routing of key events\<close>

text \<open>
  A transmission to a terminal: the key it belongs to, the terminal, and whether it is a release.
  The log collects the presses and repeats that were sent and the releases that were attempted.
\<close>

record sent =
  st_key :: lease_key
  st_target :: input_target
  st_release :: bool

record router =
  ro_leases :: leases
  ro_log :: "sent list"

definition transmit :: "lease_key \<Rightarrow> input_target \<Rightarrow> bool \<Rightarrow> router \<Rightarrow> router" where
  "transmit lk target release s = s\<lparr>ro_log := ro_log s @ [\<lparr>st_key = lk, st_target = target, st_release = release\<rparr>]\<rparr>"

fun release_all :: "(lease_key \<times> forwarded_lease) list \<Rightarrow> router \<Rightarrow> router" where
  "release_all [] s = s"
| "release_all ((k, l) # rest) s = release_all rest (transmit k (fl_target l) True s)"

definition release_input_source :: "input_source_id \<Rightarrow> router \<Rightarrow> router" where
  "release_input_source source_id s =
     (let (pressed, ls) = remove_source source_id (ro_leases s) in release_all pressed (s\<lparr>ro_leases := ls\<rparr>))"

definition release_input_target :: "terminal_id option \<Rightarrow> input_target \<Rightarrow> router \<Rightarrow> router" where
  "release_input_target popup target s =
     (let (pressed, ls) = (if popup = Some target then suppress_target target (ro_leases s)
                           else remove_target target (ro_leases s))
      in release_all pressed (s\<lparr>ro_leases := ls\<rparr>))"

text \<open>
  The key handler of the application: it may close terminals or consume keys of the table itself,
  and finally it may send the key to a terminal, which it then returns.
\<close>

datatype nested = NestedConsume lease_key | NestedReleaseTarget "terminal_id option" input_target

record handled =
  ha_nested :: "nested list"
  ha_target :: "input_target option"

fun apply_nested :: "nested \<Rightarrow> router \<Rightarrow> router" where
  "apply_nested (NestedConsume lk) s = s\<lparr>ro_leases := insert_consumed lk SuppressRepeats (ro_leases s)\<rparr>"
| "apply_nested (NestedReleaseTarget popup target) s = release_input_target popup target s"

definition handle_key :: "lease_key \<Rightarrow> handled \<Rightarrow> router \<Rightarrow> router" where
  "handle_key lk h s =
     (let s1 = fold apply_nested (ha_nested h) s
      in case ha_target h of Some t \<Rightarrow> transmit lk t False s1 | None \<Rightarrow> s1)"

text \<open>The answers during one round of a repeat.\<close>

record answer =
  an_context :: "input_context option"
  an_handled :: handled
  an_sent :: bool
  an_popup :: "terminal_id option"

definition discard_failed_repeat_lease :: "terminal_id option \<Rightarrow> lease_key \<Rightarrow> input_target \<Rightarrow> router \<Rightarrow> router" where
  "discard_failed_repeat_lease popup lk target s =
     (if popup \<noteq> Some target then s\<lparr>ro_leases := AList.delete lk (ro_leases s)\<rparr> else s)"

fun repeat_loop ::
  "nat \<Rightarrow> (nat \<Rightarrow> answer) \<Rightarrow> lease_key \<Rightarrow> terminal_key \<Rightarrow> input_context \<Rightarrow> bool \<Rightarrow> input_target option \<Rightarrow> router \<Rightarrow> router" where
  "repeat_loop 0 an lk key context tracked fwd s = s"
| "repeat_loop (Suc n) an lk key context tracked fwd s =
     (case fwd of
        Some t \<Rightarrow>
          if \<not> an_sent (an n) then discard_failed_repeat_lease (an_popup (an n)) lk t s
          else repeat_loop n an lk key context tracked fwd (transmit lk t False s)
      | None \<Rightarrow>
          let (allowed, ls) = reprocess_allowed lk context (an_context (an n)) tracked (ro_leases s);
              s1 = s\<lparr>ro_leases := ls\<rparr>
          in if \<not> allowed then s1
             else let s2 = handle_key lk (an_handled (an n)) s1
                  in (case ha_target (an_handled (an n)) of
                        Some t \<Rightarrow>
                          if tracked
                          then repeat_loop n an lk key context tracked (Some t)
                                 (s2\<lparr>ro_leases := insert_forwarded lk t key (ro_leases s2)\<rparr>)
                          else repeat_loop n an lk key context tracked None s2
                      | None \<Rightarrow> repeat_loop n an lk key context tracked None s2))"

definition execute_repeat_plan ::
  "(nat \<Rightarrow> answer) \<Rightarrow> lease_key \<Rightarrow> terminal_key \<Rightarrow> repeat_plan \<Rightarrow> router \<Rightarrow> router" where
  "execute_repeat_plan an lk key plan s =
     (case plan of
        PlanForwarded t \<Rightarrow>
          if \<not> an_sent (an 0) then discard_failed_repeat_lease (an_popup (an 0)) lk t s else transmit lk t False s
      | PlanReprocess context repetitions tracked \<Rightarrow>
          repeat_loop (unat repetitions) an lk (with_repeat_count 1 (with_kind Repeat key)) context tracked None s
      | PlanIgnore \<Rightarrow> s)"

record key_event =
  ke_source :: input_source_id
  ke_key :: terminal_key
  ke_initial :: "input_context option"
  ke_handled :: handled
  ke_resulting :: "input_context option"
  ke_answers :: "nat \<Rightarrow> answer"

definition route_key :: "key_event \<Rightarrow> router \<Rightarrow> router" where
  "route_key ev s =
     (let lk = lease_key_new (ke_source ev) (ke_key ev);
          (key, ls) = normalize_press lk (ke_key ev) (ro_leases s);
          s0 = s\<lparr>ro_leases := ls\<rparr>
      in case tk_kind key of
           Press \<Rightarrow>
             let h = (if ke_initial ev \<noteq> None then ke_handled ev else (ke_handled ev)\<lparr>ha_target := None\<rparr>);
                 s1 = handle_key lk h s0;
                 (plan, ls1) = complete_press lk key (ke_initial ev) (ke_resulting ev) (ha_target h) (ro_leases s1)
             in execute_repeat_plan (ke_answers ev) lk key plan (s1\<lparr>ro_leases := ls1\<rparr>)
         | Repeat \<Rightarrow>
             let (plan, ls1) = plan_repeat lk key (ke_initial ev) (ro_leases s0)
             in execute_repeat_plan (ke_answers ev) lk key plan (s0\<lparr>ro_leases := ls1\<rparr>)
         | Release \<Rightarrow>
             let (lease, ls1) = remove_forwarded lk (ro_leases s0); s1 = s0\<lparr>ro_leases := ls1\<rparr>
             in (case lease of Some l \<Rightarrow> transmit lk (fl_target l) True s1 | None \<Rightarrow> s1))"

section \<open>Presses and releases\<close>

text \<open>\<open>paired b xs\<close>: with a press open iff \<open>b\<close>, every release in \<open>xs\<close> closes an open press.\<close>

fun paired :: "bool \<Rightarrow> bool list \<Rightarrow> bool" where
  "paired op [] = True"
| "paired op (release # xs) = (if release then op \<and> paired False xs else paired True xs)"

definition is_open :: "bool list \<Rightarrow> bool" where
  "is_open xs \<longleftrightarrow> xs \<noteq> [] \<and> \<not> last xs"

definition history_of :: "sent list \<Rightarrow> lease_key \<Rightarrow> input_target \<Rightarrow> bool list" where
  "history_of log lk t = map st_release (filter (\<lambda>e. st_key e = lk \<and> st_target e = t) log)"

lemma paired_snoc: "paired op (xs @ [r]) \<longleftrightarrow> paired op xs \<and> (r \<longrightarrow> (if xs = [] then op else \<not> last xs))"
  by (induction op xs rule: paired.induct) auto

lemma paired_release: "paired False (xs @ [True]) \<longleftrightarrow> paired False xs \<and> is_open xs"
  by (auto simp: paired_snoc is_open_def)

lemma history_transmit:
  "history_of (ro_log (transmit lk t r s)) lk' t' =
     history_of (ro_log s) lk' t' @ (if lk' = lk \<and> t' = t then [r] else [])"
  by (auto simp: history_of_def transmit_def)

lemma leases_transmit [simp]: "ro_leases (transmit lk t r s) = ro_leases s"
  by (simp add: transmit_def)

text \<open>
  The invariant, with the leases \<open>pend\<close> that were taken out of the table and are about to be
  released: the log is paired for every key and terminal, and every forwarded lease, in the table
  or pending, has its press open.
\<close>

definition holds :: "(lease_key \<times> forwarded_lease) list \<Rightarrow> router \<Rightarrow> bool" where
  "holds pend s \<longleftrightarrow> distinct (map fst (ro_leases s)) \<and> distinct (map fst pend) \<and>
     (\<forall>lk t. paired False (history_of (ro_log s) lk t)) \<and>
     (\<forall>lk f. map_of (ro_leases s) lk = Some (Forwarded f) \<longrightarrow>
        is_open (history_of (ro_log s) lk (fl_target f)) \<and> lk \<notin> fst ` set pend) \<and>
     (\<forall>(lk, f) \<in> set pend. is_open (history_of (ro_log s) lk (fl_target f)))"

lemma holds_transmit: "holds pend s \<Longrightarrow> holds pend (transmit lk t False s)"
  unfolding holds_def by (auto simp: history_transmit paired_snoc is_open_def split: if_splits)

lemma holds_shrink:
  assumes "holds [] s" and "distinct (map fst ls)"
    and "\<And>lk f. map_of ls lk = Some (Forwarded f) \<Longrightarrow> map_of (ro_leases s) lk = Some (Forwarded f)"
  shows "holds [] (s\<lparr>ro_leases := ls\<rparr>)"
  using assms unfolding holds_def by simp

lemma holds_forward:
  assumes "holds [] s" and "is_open (history_of (ro_log s) lk t)"
  shows "holds [] (s\<lparr>ro_leases := insert_forwarded lk t key (ro_leases s)\<rparr>)"
  using assms unfolding holds_def insert_forwarded_def
  by (auto simp: distinct_update update_conv' split: if_splits)

lemma open_transmit: "is_open (history_of (ro_log (transmit lk t False s)) lk t)"
  by (simp add: history_transmit is_open_def)

lemma holds_release_all: "holds pend s \<Longrightarrow> holds [] (release_all pend s)"
proof (induction pend s rule: release_all.induct)
  case (2 k l rest s)
  have "holds rest (transmit k (fl_target l) True s)"
    using 2(2) unfolding holds_def
    by (auto simp: history_transmit paired_release is_open_def rev_image_eqI split: if_splits)
  with 2(1) show ?case by simp
qed simp

section \<open>The table operations\<close>

lemma remove_forwarded_facts:
  assumes "remove_forwarded lk ls = (f, ls')"
  shows "map_of ls' = (map_of ls)(lk := None)" and "distinct (map fst ls) \<Longrightarrow> distinct (map fst ls')"
    and "f = Some l \<Longrightarrow> map_of ls lk = Some (Forwarded l)"
  using assms
  by (auto simp: remove_forwarded_def delete_conv' distinct_delete forwarded_of_def
      split: option.splits input_lease.splits)

lemma remove_keys_facts:
  "remove_keys ks ls = (fs, ls') \<Longrightarrow> distinct ks \<Longrightarrow> distinct (map fst ls) \<Longrightarrow>
     map_of ls' = (\<lambda>k. if k \<in> set ks then None else map_of ls k) \<and> distinct (map fst ls') \<and>
     distinct (map fst fs) \<and> fst ` set fs \<subseteq> set ks \<and> (\<forall>(k, f) \<in> set fs. map_of ls k = Some (Forwarded f))"
proof (induction ks arbitrary: ls fs ls')
  case (Cons k0 ks)
  obtain f0 ls1 where r: "remove_forwarded k0 ls = (f0, ls1)" by fastforce
  obtain fs1 ls2 where rk: "remove_keys ks ls1 = (fs1, ls2)" by fastforce
  have eq: "fs = (case f0 of Some l \<Rightarrow> [(k0, l)] | None \<Rightarrow> []) @ fs1" "ls' = ls2"
    using Cons.prems(1) r rk by auto
  note rf = remove_forwarded_facts [OF r]
  have IH: "map_of ls2 = (\<lambda>k. if k \<in> set ks then None else map_of ls1 k)" "distinct (map fst ls2)"
    "distinct (map fst fs1)" "fst ` set fs1 \<subseteq> set ks" "\<forall>(k, f) \<in> set fs1. map_of ls1 k = Some (Forwarded f)"
    using Cons.IH [OF rk] Cons.prems(2,3) rf(2) by simp_all
  have k0: "k0 \<notin> fst ` set fs1" using IH(4) Cons.prems(2) by auto
  have new: "map_of ls k = Some (Forwarded f)" if "(k, f) \<in> set fs" for k f
    using that IH(5) rf(1,3) eq(1) k0 by (force split: option.splits if_splits)
  show ?case
    using IH(1-4) rf(1) eq k0 new by (auto simp: fun_eq_iff split: option.splits)
qed simp

lemma holds_removed:
  assumes "holds [] s" and "distinct ks" and "remove_keys ks (ro_leases s) = (pend, ls)"
  shows "holds [] (release_all pend (s\<lparr>ro_leases := ls\<rparr>))"
proof (rule holds_release_all)
  have "distinct (map fst (ro_leases s))" using assms(1) by (simp add: holds_def)
  note rk = remove_keys_facts [OF assms(3,2) this]
  show "holds pend (s\<lparr>ro_leases := ls\<rparr>)"
    using assms(1) rk unfolding holds_def by (auto split: if_splits)
qed

lemma holds_release_source: "holds [] s \<Longrightarrow> holds [] (release_input_source source_id s)"
  using holds_removed [of s "filter (\<lambda>k. lk_source k = source_id) (map fst (ro_leases s))"]
  by (auto simp: release_input_source_def remove_source_def holds_def [of "[]" s] split: prod.split)

lemma suppress_target_Cons:
  "suppress_target t ((k, l) # xs) =
     (let (pend, ls) = suppress_target t xs
      in case l of
           Forwarded f \<Rightarrow> if fl_target f = t then ((k, f) # pend, (k, Consumed SuppressRepeats) # ls) else (pend, (k, l) # ls)
         | Consumed _ \<Rightarrow> (pend, (k, l) # ls))"
  by (cases l) (auto simp: suppress_target_def List.map_filter_simps holds_target_def)

lemma suppress_target_facts:
  "suppress_target t xs = (pend, ls) \<Longrightarrow> distinct (map fst xs) \<Longrightarrow>
     map fst ls = map fst xs \<and> distinct (map fst pend) \<and> fst ` set pend \<subseteq> fst ` set xs \<and>
     (\<forall>(k, f) \<in> set pend. map_of xs k = Some (Forwarded f) \<and> map_of ls k = Some (Consumed SuppressRepeats)) \<and>
     (\<forall>k f. map_of ls k = Some (Forwarded f) \<longrightarrow> map_of xs k = Some (Forwarded f) \<and> fl_target f \<noteq> t)"
proof (induction xs arbitrary: pend ls)
  case Nil
  then show ?case by (simp add: suppress_target_def List.map_filter_simps)
next
  case (Cons p xs)
  obtain k l where p: "p = (k, l)" by fastforce
  obtain pend1 ls1 where r: "suppress_target t xs = (pend1, ls1)" by fastforce
  note IH = Cons.IH [OF r]
  have k: "k \<notin> fst ` set xs" "distinct (map fst xs)" using Cons.prems(2) p by auto
  have k1: "k \<notin> fst ` set pend1" using IH k by blast
  show ?case
  proof (cases "\<exists>f. l = Forwarded f \<and> fl_target f = t")
    case True
    then obtain f where f: "l = Forwarded f" "fl_target f = t" by blast
    then have "pend = (k, f) # pend1" "ls = (k, Consumed SuppressRepeats) # ls1"
      using Cons.prems(1) p r by (simp_all add: suppress_target_Cons)
    moreover have "k \<noteq> k'" if "(k', f') \<in> set pend1" for k' f' using k1 that by force
    ultimately show ?thesis using IH k k1 p f by auto (blast | force)+
  next
    case False
    then have "pend = pend1" "ls = (k, l) # ls1"
      using Cons.prems(1) p r by (auto simp: suppress_target_Cons split: input_lease.splits if_splits)
    moreover have "k \<noteq> k'" if "(k', f') \<in> set pend1" for k' f' using k1 that by force
    ultimately show ?thesis using IH k k1 p False by auto (blast | force)+
  qed
qed

lemma holds_suppress:
  assumes "holds [] s" and "suppress_target t (ro_leases s) = (pend, ls)"
  shows "holds [] (release_all pend (s\<lparr>ro_leases := ls\<rparr>))"
proof (rule holds_release_all)
  have "distinct (map fst (ro_leases s))" using assms(1) by (simp add: holds_def)
  note f = suppress_target_facts [OF assms(2) this]
  have "k \<notin> fst ` set pend" if "map_of ls k = Some (Forwarded g)" for k g
    using f that by force
  with assms(1) f show "holds pend (s\<lparr>ro_leases := ls\<rparr>)"
    unfolding holds_def by auto
qed

lemma holds_release_target: "holds [] s \<Longrightarrow> holds [] (release_input_target popup t s)"
  using holds_removed [of s "map fst (filter (\<lambda>(k, l). holds_target t l) (ro_leases s))"] holds_suppress [of s t]
  by (auto simp: release_input_target_def remove_target_def holds_def [of "[]" s] distinct_map_filter split: prod.split)

section \<open>Routing keeps the invariant\<close>

lemma holds_delete: "holds [] s \<Longrightarrow> holds [] (s\<lparr>ro_leases := AList.delete lk (ro_leases s)\<rparr>)"
  by (rule holds_shrink) (auto simp: holds_def distinct_delete delete_conv' split: if_splits)

lemma holds_consume: "holds [] s \<Longrightarrow> holds [] (s\<lparr>ro_leases := insert_consumed lk c (ro_leases s)\<rparr>)"
  by (rule holds_shrink) (auto simp: holds_def insert_consumed_def distinct_update update_conv' split: if_splits)

lemma holds_discard: "holds [] s \<Longrightarrow> holds [] (discard_failed_repeat_lease popup lk t s)"
  by (simp add: discard_failed_repeat_lease_def holds_delete)

lemma holds_nested: "holds [] s \<Longrightarrow> holds [] (fold apply_nested ns s)"
proof (induction ns arbitrary: s)
  case (Cons n ns)
  then show ?case by (cases n) (simp_all add: holds_consume holds_release_target)
qed simp

lemma holds_handle: "holds [] s \<Longrightarrow> holds [] (handle_key lk h s)"
  using holds_nested [of s "ha_nested h"] holds_transmit by (auto simp: handle_key_def Let_def split: option.split)

lemma open_handle: "ha_target h = Some t \<Longrightarrow> is_open (history_of (ro_log (handle_key lk h s)) lk t)"
  using open_transmit by (simp add: handle_key_def Let_def)

lemma holds_allowed:
  assumes "holds [] s" and "reprocess_allowed lk ctx cur tracked (ro_leases s) = (a, ls)"
  shows "holds [] (s\<lparr>ro_leases := ls\<rparr>)"
  using assms holds_consume [of s] by (auto simp: reprocess_allowed_def Let_def split: if_splits)

lemma holds_repeat_loop: "holds [] s \<Longrightarrow> holds [] (repeat_loop n an lk key ctx tracked fwd s)"
proof (induction n arbitrary: fwd s)
  case (Suc n)
  show ?case
  proof (cases fwd)
    case (Some t)
    with Suc show ?thesis by (simp add: holds_discard holds_transmit)
  next
    case None
    obtain a ls where ra: "reprocess_allowed lk ctx (an_context (an n)) tracked (ro_leases s) = (a, ls)" by fastforce
    let ?s1 = "s\<lparr>ro_leases := ls\<rparr>" and ?h = "an_handled (an n)"
    let ?s2 = "handle_key lk ?h ?s1"
    have s1: "holds [] ?s1" by (rule holds_allowed [OF Suc.prems ra])
    then have s2: "holds [] ?s2" by (rule holds_handle)
    show ?thesis
    proof (cases a)
      case True
      show ?thesis
      proof (cases "ha_target ?h")
        case (Some t)
        have "holds [] (?s2\<lparr>ro_leases := insert_forwarded lk t key (ro_leases ?s2)\<rparr>)"
          by (rule holds_forward [OF s2 open_handle [OF Some]])
        with Suc.IH None ra True Some s2 show ?thesis by (cases tracked) (simp_all add: Let_def)
      next
        case N: None
        with Suc.IH None ra True s2 show ?thesis by (simp add: Let_def)
      qed
    qed (use None ra s1 in \<open>simp\<close>)
  qed
qed simp

lemma holds_execute: "holds [] s \<Longrightarrow> holds [] (execute_repeat_plan an lk key plan s)"
  by (cases plan) (simp_all add: execute_repeat_plan_def holds_discard holds_transmit holds_repeat_loop)

lemma holds_normalize:
  "holds [] s \<Longrightarrow> normalize_press lk key (ro_leases s) = (key', ls) \<Longrightarrow> holds [] (s\<lparr>ro_leases := ls\<rparr>)"
  using holds_delete [of s lk] by (auto simp: normalize_press_def split: if_splits)

lemma holds_complete:
  assumes "holds [] s" and "\<And>t. target = Some t \<Longrightarrow> is_open (history_of (ro_log s) lk t)"
    and "complete_press lk key i r target (ro_leases s) = (plan, ls)"
  shows "holds [] (s\<lparr>ro_leases := ls\<rparr>)"
proof (cases "tk_text key = None")
  case True
  then show ?thesis
    using assms holds_forward [of s lk] holds_consume [of s lk]
    by (cases target) (auto simp: complete_press_def Let_def split: if_splits)
qed (use assms in \<open>auto simp: complete_press_def\<close>)

lemma holds_plan:
  "holds [] s \<Longrightarrow> plan_repeat lk key cur (ro_leases s) = (plan, ls) \<Longrightarrow> holds [] (s\<lparr>ro_leases := ls\<rparr>)"
  using holds_consume [of s lk]
  by (auto simp: plan_repeat_def split: option.splits input_lease.splits consumed_lease.splits if_splits)

lemma holds_release_event:
  assumes "holds [] s" and "remove_forwarded lk (ro_leases s) = (f, ls)"
  shows "holds [] (case f of Some l \<Rightarrow> transmit lk (fl_target l) True (s\<lparr>ro_leases := ls\<rparr>) | None \<Rightarrow> s\<lparr>ro_leases := ls\<rparr>)"
proof -
  have "remove_keys [lk] (ro_leases s) = ((case f of Some l \<Rightarrow> [(lk, l)] | None \<Rightarrow> []), ls)"
    using assms(2) by simp
  from holds_removed [OF assms(1) _ this] show ?thesis by (auto split: option.splits)
qed

lemma holds_route:
  assumes "holds [] s"
  shows "holds [] (route_key ev s)"
proof -
  let ?lk = "lease_key_new (ke_source ev) (ke_key ev)"
  obtain key ls where n: "normalize_press ?lk (ke_key ev) (ro_leases s) = (key, ls)" by fastforce
  let ?s0 = "s\<lparr>ro_leases := ls\<rparr>"
  have s0: "holds [] ?s0" by (rule holds_normalize [OF assms n])
  show ?thesis
  proof (cases "tk_kind key")
    case Press
    let ?h = "if ke_initial ev \<noteq> None then ke_handled ev else (ke_handled ev)\<lparr>ha_target := None\<rparr>"
    let ?s1 = "handle_key ?lk ?h ?s0"
    obtain plan ls1 where c: "complete_press ?lk key (ke_initial ev) (ke_resulting ev) (ha_target ?h) (ro_leases ?s1) = (plan, ls1)"
      by fastforce
    have "holds [] (?s1\<lparr>ro_leases := ls1\<rparr>)"
      by (rule holds_complete [OF holds_handle [OF s0] _ c]) (rule open_handle)
    moreover have "route_key ev s = execute_repeat_plan (ke_answers ev) ?lk key plan (?s1\<lparr>ro_leases := ls1\<rparr>)"
      using n Press c by (simp add: route_key_def Let_def)
    ultimately show ?thesis by (simp add: holds_execute)
  next
    case Repeat
    obtain plan ls1 where c: "plan_repeat ?lk key (ke_initial ev) (ro_leases ?s0) = (plan, ls1)" by fastforce
    show ?thesis
      using holds_execute [OF holds_plan [OF s0 c]] n Repeat c by (simp add: route_key_def Let_def)
  next
    case Release
    obtain f ls1 where c: "remove_forwarded ?lk (ro_leases ?s0) = (f, ls1)" by fastforce
    show ?thesis
      using holds_release_event [OF s0 c] n Release c by (cases f) (simp_all add: route_key_def Let_def)
  qed
qed

text \<open>The events of the router, in any order.\<close>

inductive lease_step :: "router \<Rightarrow> router \<Rightarrow> bool" where
  key: "lease_step s (route_key ev s)"
| source_lost: "lease_step s (release_input_source source_id s)"
| target_closed: "lease_step s (release_input_target popup target s)"
| copied: "lease_step s (s\<lparr>ro_leases := insert_consumed lk SuppressRepeats (ro_leases s)\<rparr>)"

definition lease_init :: "router \<Rightarrow> bool" where
  "lease_init s \<longleftrightarrow> s = \<lparr>ro_leases = [], ro_log = []\<rparr>"

interpretation lease_system: inductive_system lease_init lease_step "holds []"
proof
  show "holds [] s" if "lease_init s" for s
    using that by (simp add: lease_init_def holds_def history_of_def)
  show "holds [] t" if "lease_step s t" "holds [] s" for s t
    using that
    by (induction rule: lease_step.induct) (auto intro: holds_route holds_release_source holds_release_target holds_consume)
qed

section \<open>Properties\<close>

text \<open>
  C15. In every sequence of key events, lost input sources and closed terminals, whatever the
  application answers: every release sent to a terminal for a key closes a press or repeat sent to
  that same terminal for that same key and not yet released, and a lease that forwards a key names
  a terminal where the key is still down.
\<close>

theorem releases_follow_presses:
  assumes "reachable lease_init lease_step s"
  shows "paired False (history_of (ro_log s) lk t) \<and>
    (map_of (ro_leases s) lk = Some (Forwarded f) \<longrightarrow> is_open (history_of (ro_log s) lk (fl_target f)))"
  using lease_system.reachable_inv [OF assms] by (simp add: holds_def)

lemma release_all_leases [simp]: "ro_leases (release_all pend s) = ro_leases s"
  by (induction pend s rule: release_all.induct) simp_all

lemma release_all_log: "ro_log (release_all pend s) =
    ro_log s @ map (\<lambda>(k, l). \<lparr>st_key = k, st_target = fl_target l, st_release = True\<rparr>) pend"
  by (induction pend s rule: release_all.induct) (simp_all add: transmit_def)

text \<open>
  No key stays down: the release of a forwarded key goes to the terminal that holds it, wherever
  the focus is now, and ends the lease; losing an input source leaves no lease of that source;
  closing a terminal leaves no lease forwarding to it, and repeats of keys held in a closing popup
  are suppressed instead of reaching the terminal behind it.
\<close>

theorem leases_end:
  assumes "reachable lease_init lease_step s"
  shows "(tk_kind (ke_key ev) = Release \<and> lk = lease_key_new (ke_source ev) (ke_key ev) \<and>
      map_of (ro_leases s) lk = Some (Forwarded f) \<longrightarrow>
        ro_log (route_key ev s) = ro_log s @ [\<lparr>st_key = lk, st_target = fl_target f, st_release = True\<rparr>] \<and>
        map_of (ro_leases (route_key ev s)) lk = None) \<and>
    (lk_source lk = source_id \<longrightarrow> map_of (ro_leases (release_input_source source_id s)) lk = None) \<and>
    map_of (ro_leases (release_input_target popup (fl_target f) s)) lk \<noteq> Some (Forwarded f) \<and>
    (map_of (ro_leases s) lk = Some (Forwarded f) \<longrightarrow>
       map_of (ro_leases (release_input_target popup (fl_target f) s)) lk =
         (if popup = Some (fl_target f) then Some (Consumed SuppressRepeats) else None))"
proof -
  have h: "holds [] s" by (rule lease_system.reachable_inv [OF assms])
  then have d: "distinct (map fst (ro_leases s))" by (simp add: holds_def)
  have "ro_log (route_key ev s) = ro_log s @ [\<lparr>st_key = lk, st_target = fl_target f, st_release = True\<rparr>] \<and>
      map_of (ro_leases (route_key ev s)) lk = None"
    if "tk_kind (ke_key ev) = Release" "lk = lease_key_new (ke_source ev) (ke_key ev)" "map_of (ro_leases s) lk = Some (Forwarded f)"
    using that
    by (simp add: route_key_def normalize_press_def remove_forwarded_def forwarded_of_def transmit_def delete_conv' Let_def)
  moreover have "map_of (ro_leases (release_input_source source_id s)) lk = None" if "lk_source lk = source_id"
  proof -
    let ?ks = "filter (\<lambda>k. lk_source k = source_id) (map fst (ro_leases s))"
    obtain fs ls where r: "remove_keys ?ks (ro_leases s) = (fs, ls)" by fastforce
    have "map_of ls = (\<lambda>k. if k \<in> set ?ks then None else map_of (ro_leases s) k)"
      using remove_keys_facts [OF r _ d] d by simp
    with r that show ?thesis
      by (auto simp: release_input_source_def remove_source_def map_of_eq_None_iff)
  qed
  moreover have "map_of (ro_leases (release_input_target popup (fl_target f) s)) lk \<noteq> Some (Forwarded f) \<and>
    (map_of (ro_leases s) lk = Some (Forwarded f) \<longrightarrow>
       map_of (ro_leases (release_input_target popup (fl_target f) s)) lk =
         (if popup = Some (fl_target f) then Some (Consumed SuppressRepeats) else None))"
    (is "?A \<and> ?B")
  proof (cases "popup = Some (fl_target f)")
    case True
    obtain fs ls where r: "suppress_target (fl_target f) (ro_leases s) = (fs, ls)" by fastforce
    note sf = suppress_target_facts [OF r d]
    have "map_of ls lk = Some (Consumed SuppressRepeats)" if "map_of (ro_leases s) lk = Some (Forwarded f)"
    proof -
      have "(lk, f) \<in> set fs"
        using r that d by (force simp: suppress_target_def List.map_filter_def dest: map_of_SomeD)
      with sf show ?thesis by auto
    qed
    moreover have "map_of ls lk \<noteq> Some (Forwarded f)" using sf by blast
    moreover have "ro_leases (release_input_target popup (fl_target f) s) = ls"
      using True r by (simp add: release_input_target_def)
    ultimately show ?thesis using True by simp
  next
    case False
    let ?ks = "map fst (filter (\<lambda>(k, l). holds_target (fl_target f) l) (ro_leases s))"
    obtain fs ls where r: "remove_keys ?ks (ro_leases s) = (fs, ls)" by fastforce
    have "distinct ?ks" using d by (simp add: distinct_map_filter)
    note rk = remove_keys_facts [OF r this d]
    have "lk \<in> set ?ks" if "map_of (ro_leases s) lk = Some (Forwarded f)"
      using map_of_SomeD [OF that] by (force simp: holds_target_def)
    with False r rk show ?thesis by (auto simp: release_input_target_def remove_target_def)
  qed
  ultimately show ?thesis by (elim conjE, intro conjI impI) (elim conjE, blast+)
qed

section \<open>Witnesses\<close>

definition sample_press :: key_event where
  "sample_press = \<lparr>ke_source = 7, ke_key = key_new (KeyEnter) 0, ke_initial = Some Pane,
     ke_handled = \<lparr>ha_nested = [], ha_target = Some (U ''t1'')\<rparr>, ke_resulting = Some Pane,
     ke_answers = (\<lambda>_. \<lparr>an_context = None, an_handled = \<lparr>ha_nested = [], ha_target = None\<rparr>, an_sent = True, an_popup = None\<rparr>)\<rparr>"

definition sample_release :: key_event where
  "sample_release = sample_press\<lparr>ke_key := with_kind Release (key_new (KeyEnter) 0)\<rparr>"

definition sample_lease_key :: lease_key where
  "sample_lease_key = lease_key_new 7 (key_new (KeyEnter) 0)"

definition pressed_router :: router where
  "pressed_router = route_key sample_press \<lparr>ro_leases = [], ro_log = []\<rparr>"

lemma reachable_pressed: "reachable lease_init lease_step pressed_router"
proof -
  have "reachable lease_init lease_step \<lparr>ro_leases = [], ro_log = []\<rparr>"
    by (rule reachable.start) (simp add: lease_init_def)
  then show ?thesis unfolding pressed_router_def by (rule reachable.step) (rule lease_step.key)
qed

lemma pressed_lease:
  "map_of (ro_leases pressed_router) sample_lease_key =
     Some (Forwarded \<lparr>fl_target = U ''t1'', fl_key = key_new (KeyEnter) 0\<rparr>)"
  by code_simp

theorem releases_follow_presses_witness:
  "paired False (history_of (ro_log pressed_router) sample_lease_key (U ''t1'')) \<and>
   is_open (history_of (ro_log pressed_router) sample_lease_key (U ''t1''))"
  using releases_follow_presses [OF reachable_pressed, of sample_lease_key "U ''t1''"
      "\<lparr>fl_target = U ''t1'', fl_key = key_new (KeyEnter) 0\<rparr>"] pressed_lease by simp

theorem leases_end_witness:
  "ro_log (route_key sample_release pressed_router) =
     ro_log pressed_router @ [\<lparr>st_key = sample_lease_key, st_target = U ''t1'', st_release = True\<rparr>]"
proof -
  have k: "tk_kind (ke_key sample_release) = Release"
    "sample_lease_key = lease_key_new (ke_source sample_release) (ke_key sample_release)" by code_simp+
  from leases_end [OF reachable_pressed, of sample_release sample_lease_key
      "\<lparr>fl_target = U ''t1'', fl_key = key_new (KeyEnter) 0\<rparr>"] k pressed_lease
  show ?thesis by simp
qed

end
