(* ===== verification/Render_Signal.thy ===== *)
theory Render_Signal
  imports Prelude
begin

text \<open>
  The coalescing render signal of \<open>src/render_signal.rs\<close>. Every method holds the mutex for its whole
  body, so one call is one step. The abstract specification is the list of requests since the last
  \<open>take\<close>; the concrete state is shown to be a faithful summary of it, and no request that the
  consumer has to be woken for is coalesced silently.
\<close>

section \<open>The signal\<close>

type_synonym pane = u32

record render_request =
  rq_generic :: bool
  rq_animation :: bool
  rq_pty :: "pane set"
  rq_title :: "pane set"

definition no_request :: render_request where
  "no_request = \<lparr>rq_generic = False, rq_animation = False, rq_pty = {}, rq_title = {}\<rparr>"

record render_signal =
  sg_pending :: bool
  sg_request :: render_request
  sg_immediate :: "pane set"

definition signal_new :: render_signal where
  "signal_new = \<lparr>sg_pending = False, sg_request = no_request, sg_immediate = {}\<rparr>"

definition request_generic :: "render_signal \<Rightarrow> render_signal" where
  "request_generic s = s\<lparr>sg_request := (sg_request s)\<lparr>rq_generic := True\<rparr>, sg_pending := True\<rparr>"

definition request_animation :: "render_signal \<Rightarrow> bool \<times> render_signal" where
  "request_animation s =
     (let animation_added = \<not> rq_animation (sg_request s); became_pending = \<not> sg_pending s
      in (became_pending \<or> animation_added, s\<lparr>sg_request := (sg_request s)\<lparr>rq_animation := True\<rparr>, sg_pending := True\<rparr>))"

definition request_pty :: "pane \<Rightarrow> render_signal \<Rightarrow> bool \<times> render_signal" where
  "request_pty p s =
     (let source_added = p \<notin> rq_pty (sg_request s); wake_for_source = (source_added \<and> p \<in> sg_immediate s);
          became_pending = \<not> sg_pending s
      in (became_pending \<or> wake_for_source,
          s\<lparr>sg_request := (sg_request s)\<lparr>rq_pty := insert p (rq_pty (sg_request s))\<rparr>, sg_pending := True\<rparr>))"

definition request_terminal_title :: "pane \<Rightarrow> render_signal \<Rightarrow> bool \<times> render_signal" where
  "request_terminal_title p s =
     (let source_added = p \<notin> rq_title (sg_request s); became_pending = \<not> sg_pending s
      in (became_pending \<or> source_added,
          s\<lparr>sg_request := (sg_request s)\<lparr>rq_title := insert p (rq_title (sg_request s))\<rparr>, sg_pending := True\<rparr>))"

definition pending_terminal_title_sources :: "render_signal \<Rightarrow> pane set" where
  "pending_terminal_title_sources s = rq_title (sg_request s)"

definition set_immediate_pty_sources :: "pane set \<Rightarrow> render_signal \<Rightarrow> render_signal" where
  "set_immediate_pty_sources sources s = s\<lparr>sg_immediate := sources\<rparr>"

definition has_immediate_work :: "render_signal \<Rightarrow> bool" where
  "has_immediate_work s \<longleftrightarrow> rq_generic (sg_request s) \<or> rq_animation (sg_request s) \<or> rq_title (sg_request s) \<noteq> {} \<or>
     (\<exists>p \<in> rq_pty (sg_request s). p \<in> sg_immediate s)"

definition signal_take :: "render_signal \<Rightarrow> render_request \<times> render_signal" where
  "signal_take s = (sg_request s, s\<lparr>sg_pending := False, sg_request := no_request\<rparr>)"

section \<open>Specification\<close>

datatype request = Generic | Animation | Pty pane | Title pane

text \<open>Concretely: one call of a producer, with its answer whether to wake the consumer (a generic request always wakes).\<close>

fun produce :: "request \<Rightarrow> render_signal \<Rightarrow> bool \<times> render_signal" where
  "produce Generic s = (True, request_generic s)"
| "produce Animation s = request_animation s"
| "produce (Pty p) s = request_pty p s"
| "produce (Title p) s = request_terminal_title p s"

definition summary :: "request list \<Rightarrow> render_request" where
  "summary rs = \<lparr>rq_generic = Generic \<in> set rs, rq_animation = Animation \<in> set rs,
     rq_pty = {p. Pty p \<in> set rs}, rq_title = {p. Title p \<in> set rs}\<rparr>"

text \<open>The state of the specification: the requests since the last \<open>take\<close>.\<close>

definition refines :: "render_signal \<Rightarrow> request list \<Rightarrow> bool" where
  "refines s rs \<longleftrightarrow> sg_request s = summary rs \<and> (sg_pending s \<longleftrightarrow> rs \<noteq> [])"

lemma refines_produce: "refines s rs \<Longrightarrow> refines (snd (produce r s)) (rs @ [r])"
  by (cases r) (auto simp: refines_def summary_def request_generic_def request_animation_def request_pty_def
      request_terminal_title_def Let_def)

lemma refines_fold: "refines s rs \<Longrightarrow> refines (fold (\<lambda>r s. snd (produce r s)) new s) (rs @ new)"
proof (induction new arbitrary: s rs)
  case (Cons r new)
  from Cons.IH [OF refines_produce [OF Cons.prems, of r]] show ?case by simp
qed simp

section \<open>Properties\<close>

text \<open>
  The signal refines its specification: after any requests, in any order and number, \<open>take\<close>
  returns exactly the summary of the requests since the previous \<open>take\<close> and leaves the signal
  empty, and the signal is pending exactly when there was one.
\<close>

theorem render_signal_refines:
  assumes "refines s []"
  shows "let s' = fold (\<lambda>r s. snd (produce r s)) rs s
    in refines s' rs \<and> fst (signal_take s') = summary rs \<and> refines (snd (signal_take s')) [] \<and>
       (sg_pending s' \<longleftrightarrow> rs \<noteq> [])"
  using refines_fold [OF assms, of rs]
  by (auto simp: Let_def signal_take_def refines_def summary_def no_request_def)

text \<open>
  No wake-up is lost: a request that makes the signal pending, or gives it immediate work, answers
  that the consumer must be woken; and a request that answers no leaves both as they were.
\<close>

theorem no_lost_wakeup:
  "\<not> fst (produce r s) \<longrightarrow>
     sg_pending s \<and> sg_pending (snd (produce r s)) \<and> has_immediate_work (snd (produce r s)) = has_immediate_work s"
  by (cases r) (auto simp: request_animation_def request_pty_def request_terminal_title_def has_immediate_work_def Let_def)

theorem render_signal_refines_witness:
  "fst (signal_take (fold (\<lambda>r s. snd (produce r s)) [Pty 3, Generic, Pty 3] signal_new)) = summary [Pty 3, Generic, Pty 3]"
proof -
  have "refines signal_new []" by (simp add: refines_def signal_new_def no_request_def summary_def)
  from render_signal_refines [OF this, of "[Pty 3, Generic, Pty 3]"] show ?thesis by (simp only: Let_def)
qed

theorem no_lost_wakeup_witness:
  "\<not> fst (produce (Pty 4) (request_generic signal_new)) \<and>
   has_immediate_work (snd (produce (Pty 4) (request_generic signal_new))) = has_immediate_work (request_generic signal_new)"
proof -
  have "\<not> fst (produce (Pty 4) (request_generic signal_new))"
    by (simp add: request_pty_def request_generic_def signal_new_def no_request_def Let_def)
  with no_lost_wakeup [of "Pty 4" "request_generic signal_new"] show ?thesis by blast
qed

end
