(* ===== verification/Selection.thy ===== *)
theory Selection
  imports Layout_Geometry
begin

text \<open>
  Text selection in a pane, \<open>src/selection.rs\<close>: rows are screen-buffer rows, so that a selection
  stays on its text while the pane scrolls. Rectangles are those of the layout.
\<close>

section \<open>Rows and columns\<close>

record scroll_metrics =
  sm_offset_from_bottom :: u64
  sm_max_offset_from_bottom :: u64
  sm_viewport_rows :: u64

definition viewport_top_row :: "scroll_metrics option \<Rightarrow> u32" where
  "viewport_top_row metrics =
     ucast (case metrics of Some m \<Rightarrow> saturating_sub (sm_max_offset_from_bottom m) (sm_offset_from_bottom m) | None \<Rightarrow> 0)"

definition absolute_row_for_viewport_row :: "u16 \<Rightarrow> scroll_metrics option \<Rightarrow> u32" where
  "absolute_row_for_viewport_row viewport_row metrics = viewport_top_row metrics + ucast viewport_row"

definition viewport_row_for_absolute_row :: "u32 \<Rightarrow> scroll_metrics option \<Rightarrow> u16" where
  "viewport_row_for_absolute_row absolute_row metrics =
     (let r = saturating_sub absolute_row (viewport_top_row metrics)
      in if unat r < 2 ^ 16 then ucast r else 0)"

definition word_clamp :: "'a::len word \<Rightarrow> 'a word \<Rightarrow> 'a word \<Rightarrow> 'a word" where
  "word_clamp x lo hi = (if x < lo then lo else if x > hi then hi else x)"

definition clamp_to_pane :: "u16 \<Rightarrow> u16 \<Rightarrow> rect \<Rightarrow> u16 \<times> u16" where
  "clamp_to_pane screen_col screen_row pane_inner =
     (let clamped_col = word_clamp screen_col (rx pane_inner) (rx pane_inner + saturating_sub (rwidth pane_inner) 1);
          clamped_row = word_clamp screen_row (ry pane_inner) (ry pane_inner + saturating_sub (rheight pane_inner) 1)
      in (clamped_row - ry pane_inner, clamped_col - rx pane_inner))"

section \<open>Selections\<close>

datatype sel_phase = Anchored | Dragging | SelDone

type_synonym cell = "u32 \<times> u16"

record selection =
  sl_pane :: u32
  sl_anchor :: cell
  sl_cursor :: cell
  sl_phase :: sel_phase
  sl_owner :: "u64 option"

definition sel_anchor :: "u32 \<Rightarrow> u16 \<Rightarrow> u16 \<Rightarrow> scroll_metrics option \<Rightarrow> selection" where
  "sel_anchor pane viewport_row col metrics =
     (let a = (absolute_row_for_viewport_row viewport_row metrics, col)
      in \<lparr>sl_pane = pane, sl_anchor = a, sl_cursor = a, sl_phase = Anchored, sl_owner = None\<rparr>)"

definition sel_range :: "u32 \<Rightarrow> u16 \<Rightarrow> u16 \<Rightarrow> u16 \<Rightarrow> scroll_metrics option \<Rightarrow> selection" where
  "sel_range pane viewport_row start_col end_col metrics =
     (let row = absolute_row_for_viewport_row viewport_row metrics
      in \<lparr>sl_pane = pane, sl_anchor = (row, start_col), sl_cursor = (row, end_col), sl_phase = Dragging, sl_owner = None\<rparr>)"

definition sel_line_range :: "u32 \<Rightarrow> u32 \<Rightarrow> u32 \<Rightarrow> u16 \<Rightarrow> selection" where
  "sel_line_range pane anchor_row cursor_row end_col =
     (let (anchor_col, cursor_col) = (if anchor_row \<le> cursor_row then (0, end_col) else (end_col, 0))
      in \<lparr>sl_pane = pane, sl_anchor = (anchor_row, anchor_col), sl_cursor = (cursor_row, cursor_col),
          sl_phase = Dragging, sl_owner = None\<rparr>)"

definition with_input_source_owner :: "u64 \<Rightarrow> selection \<Rightarrow> selection" where
  "with_input_source_owner source_id s = s\<lparr>sl_owner := Some source_id\<rparr>"

definition is_owned_by_other_input_source :: "selection \<Rightarrow> u64 \<Rightarrow> bool" where
  "is_owned_by_other_input_source s source_id \<longleftrightarrow> (case sl_owner s of Some owner \<Rightarrow> owner \<noteq> source_id | None \<Rightarrow> False)"

definition is_owned_by_input_source :: "selection \<Rightarrow> u64 \<Rightarrow> bool" where
  "is_owned_by_input_source s source_id \<longleftrightarrow> sl_owner s = Some source_id"

definition anchor_screen_pos :: "selection \<Rightarrow> rect \<Rightarrow> scroll_metrics option \<Rightarrow> u16 \<times> u16" where
  "anchor_screen_pos s pane_inner metrics =
     (let viewport_row = viewport_row_for_absolute_row (fst (sl_anchor s)) metrics;
          row = word_clamp (saturating_add viewport_row (ry pane_inner)) (ry pane_inner)
                  (ry pane_inner + saturating_sub (rheight pane_inner) 1);
          col = word_clamp (saturating_add (snd (sl_anchor s)) (rx pane_inner)) (rx pane_inner)
                  (rx pane_inner + saturating_sub (rwidth pane_inner) 1)
      in (row, col))"

definition sel_drag :: "u16 \<Rightarrow> u16 \<Rightarrow> rect \<Rightarrow> scroll_metrics option \<Rightarrow> selection \<Rightarrow> selection" where
  "sel_drag screen_col screen_row pane_inner metrics s =
     (let (viewport_row, col) = clamp_to_pane screen_col screen_row pane_inner;
          s1 = s\<lparr>sl_cursor := (absolute_row_for_viewport_row viewport_row metrics, col)\<rparr>
      in if sl_cursor s1 \<noteq> sl_anchor s1 then s1\<lparr>sl_phase := Dragging\<rparr> else s1)"

definition sel_finish :: "selection \<Rightarrow> bool \<times> selection" where
  "sel_finish s = (if sl_phase s = Dragging then (True, s\<lparr>sl_phase := SelDone\<rparr>) else (False, s))"

definition is_visible :: "selection \<Rightarrow> bool" where
  "is_visible s \<longleftrightarrow> sl_phase s = Dragging \<or> sl_phase s = SelDone"

definition is_finalized :: "selection \<Rightarrow> bool" where
  "is_finalized s \<longleftrightarrow> sl_phase s = SelDone"

definition was_just_click :: "selection \<Rightarrow> bool" where
  "was_just_click s \<longleftrightarrow> sl_phase s = Anchored"

definition force_dragging :: "selection \<Rightarrow> selection" where
  "force_dragging s = (if sl_phase s = Anchored then s\<lparr>sl_phase := Dragging\<rparr> else s)"

definition is_in_progress :: "selection \<Rightarrow> bool" where
  "is_in_progress s \<longleftrightarrow> (case sl_phase s of Anchored \<Rightarrow> True | Dragging \<Rightarrow> True | SelDone \<Rightarrow> False)"

definition is_dragging :: "selection \<Rightarrow> bool" where
  "is_dragging s \<longleftrightarrow> sl_phase s = Dragging"

definition sel_ordered :: "selection \<Rightarrow> cell \<times> cell" where
  "sel_ordered s =
     (let (ar, ac) = sl_anchor s; (cr, cc) = sl_cursor s
      in if ar < cr \<or> (ar = cr \<and> ac \<le> cc) then ((ar, ac), (cr, cc)) else ((cr, cc), (ar, ac)))"

definition sel_contains :: "selection \<Rightarrow> u16 \<Rightarrow> u16 \<Rightarrow> scroll_metrics option \<Rightarrow> bool" where
  "sel_contains s viewport_row col metrics =
     (if \<not> is_visible s then False
      else let row = absolute_row_for_viewport_row viewport_row metrics; ((sr, sc), (er, ec)) = sel_ordered s
           in if row < sr \<or> row > er then False
              else if sr = er then col \<ge> sc \<and> col \<le> ec
              else if row = sr then col \<ge> sc
              else if row = er then col \<le> ec
              else True)"

section \<open>Facts\<close>

text \<open>Reading order of cells.\<close>

definition before :: "cell \<Rightarrow> cell \<Rightarrow> bool" where
  "before a b \<longleftrightarrow> fst a < fst b \<or> fst a = fst b \<and> snd a \<le> snd b"

lemma before_total: "before a b \<or> before b a"
  unfolding before_def by auto

lemma before_trans: "before a b \<Longrightarrow> before b c \<Longrightarrow> before a c"
  unfolding before_def by auto

lemma sel_ordered_if:
  "sel_ordered s = (if before (sl_anchor s) (sl_cursor s) then (sl_anchor s, sl_cursor s) else (sl_cursor s, sl_anchor s))"
  by (simp add: sel_ordered_def before_def case_prod_beta Let_def)

lemma ordered_before: "sel_ordered s = (a, b) \<Longrightarrow> before a b \<and> {a, b} = {sl_anchor s, sl_cursor s}"
  using before_total [of "sl_anchor s" "sl_cursor s"]
  by (auto simp: sel_ordered_if split: if_splits)

lemma range_in_order:
  fixes r sr er :: "'a::linorder" and c sc ec :: "'b::linorder"
  assumes "sr < er \<or> sr = er \<and> sc \<le> ec"
  shows "(if r < sr \<or> r > er then False else if sr = er then c \<ge> sc \<and> c \<le> ec
      else if r = sr then c \<ge> sc else if r = er then c \<le> ec else True) \<longleftrightarrow>
    (sr < r \<or> sr = r \<and> sc \<le> c) \<and> (r < er \<or> r = er \<and> c \<le> ec)"
  using assms by auto

lemma word_clamp_range:
  "lo \<le> hi \<Longrightarrow> lo \<le> word_clamp x lo hi \<and> word_clamp x lo hi \<le> hi"
  by (auto simp: word_clamp_def)

lemma clamp_axis:
  fixes x o' w :: u16
  assumes "0 < unat w" and "unat o' + unat w \<le> 65535"
  shows "word_clamp x o' (o' + saturating_sub w 1) - o' < w"
proof -
  have hi: "unat (o' + saturating_sub w 1) = unat o' + (unat w - 1)"
    using assms by (subst unat_plus_u16) (simp_all add: rust_word)
  then have "o' \<le> o' + saturating_sub w 1" by (simp add: word_le_nat_alt)
  note r = word_clamp_range [OF this, of x]
  then have "unat (word_clamp x o' (o' + saturating_sub w 1) - o') = unat (word_clamp x o' (o' + saturating_sub w 1)) - unat o'"
    by (intro unat_sub) simp
  moreover have "unat (word_clamp x o' (o' + saturating_sub w 1)) \<le> unat o' + (unat w - 1)"
    using r hi by (simp add: word_le_nat_alt)
  ultimately show ?thesis using assms(1) by (simp add: word_less_nat_alt)
qed

section \<open>Properties\<close>

text \<open>
  A cell is highlighted exactly when the selection is visible and the cell lies between the two
  ends of the gesture in reading order, whichever end was the anchor; in particular both ends are
  highlighted and swapping them changes nothing.
\<close>

theorem selection_contains_reading_order:
  "sel_contains s viewport_row col metrics \<longleftrightarrow>
     is_visible s \<and>
     (let x = (absolute_row_for_viewport_row viewport_row metrics, col)
      in (before (sl_anchor s) x \<and> before x (sl_cursor s)) \<or> (before (sl_cursor s) x \<and> before x (sl_anchor s)))"
proof -
  obtain a b where ab: "sel_ordered s = (a, b)" by (cases "sel_ordered s")
  let ?x = "(absolute_row_for_viewport_row viewport_row metrics, col)"
  have "sel_contains s viewport_row col metrics \<longleftrightarrow> is_visible s \<and> before a ?x \<and> before ?x b"
  proof -
    have le: "fst a < fst b \<or> fst a = fst b \<and> snd a \<le> snd b" using ordered_before [OF ab] by (simp add: before_def)
    have "sel_contains s viewport_row col metrics \<longleftrightarrow> is_visible s \<and>
        (if fst ?x < fst a \<or> fst ?x > fst b then False else if fst a = fst b then snd ?x \<ge> snd a \<and> snd ?x \<le> snd b
         else if fst ?x = fst a then snd ?x \<ge> snd a else if fst ?x = fst b then snd ?x \<le> snd b else True)"
      by (simp add: sel_contains_def ab Let_def case_prod_beta)
    then show ?thesis unfolding range_in_order [OF le] before_def .
  qed
  moreover have "before a ?x \<and> before ?x b \<longleftrightarrow>
      (before (sl_anchor s) ?x \<and> before ?x (sl_cursor s)) \<or> (before (sl_cursor s) ?x \<and> before ?x (sl_anchor s))"
  proof -
    have "(a = sl_anchor s \<and> b = sl_cursor s) \<or> (a = sl_cursor s \<and> b = sl_anchor s)"
      using ordered_before [OF ab] by (auto simp: doubleton_eq_iff)
    moreover have "before b ?x \<Longrightarrow> before ?x a \<Longrightarrow> before a ?x \<and> before ?x b"
      using ordered_before [OF ab] before_trans by blast
    ultimately show ?thesis by blast
  qed
  ultimately show ?thesis by (simp add: Let_def)
qed

text \<open>
  Wherever the mouse is, a drag keeps the cursor inside the pane: the column is below the pane's
  width and the row within its viewport, so nothing outside the pane is ever selected; a viewport
  row is recovered from its buffer row; and a selection becomes visible only by a drag off its
  anchor.
\<close>

theorem selection_drag_bounds:
  assumes "in_bounds pane_inner" and "0 < unat (rwidth pane_inner)" and "0 < unat (rheight pane_inner)"
    and "unat (viewport_top_row metrics) + 65535 < 2 ^ 32"
  shows "let s' = sel_drag screen_col screen_row pane_inner metrics s
    in snd (sl_cursor s') < rwidth pane_inner \<and>
       (\<exists>row. row < rheight pane_inner \<and> fst (sl_cursor s') = absolute_row_for_viewport_row row metrics \<and>
          viewport_row_for_absolute_row (fst (sl_cursor s')) metrics = row) \<and>
       sl_anchor s' = sl_anchor s \<and> (is_visible s' \<longleftrightarrow> is_visible s \<or> sl_cursor s' \<noteq> sl_anchor s)"
proof -
  obtain row col where rc: "clamp_to_pane screen_col screen_row pane_inner = (row, col)" by fastforce
  have b: "col < rwidth pane_inner" "row < rheight pane_inner"
    using rc clamp_axis [of "rwidth pane_inner" "rx pane_inner" screen_col]
      clamp_axis [of "rheight pane_inner" "ry pane_inner" screen_row] assms(1-3)
    by (auto simp: clamp_to_pane_def Let_def in_bounds_def)
  have rows: "unat (ucast row :: u32) = unat row" "unat row < 2 ^ 16"
    using unat_u16_le [of row] by (simp_all add: unsigned_ucast_eq take_bit_nat_eq_self)
  have ab: "unat (absolute_row_for_viewport_row row metrics) = unat (viewport_top_row metrics) + unat row"
    unfolding absolute_row_for_viewport_row_def using assms(4) rows by (subst unat_plus_in_range) simp_all
  have "viewport_row_for_absolute_row (absolute_row_for_viewport_row row metrics) metrics = row"
  proof -
    let ?r = "saturating_sub (absolute_row_for_viewport_row row metrics) (viewport_top_row metrics)"
    have r: "unat ?r = unat row" using ab by (simp add: rust_word)
    then have "unat (ucast ?r :: u16) = unat row" using rows(2) by (simp add: unsigned_ucast_eq take_bit_nat_eq_self)
    then have "(ucast ?r :: u16) = row" by (rule word_unat_eq_iff [THEN iffD2])
    then show ?thesis using r rows(2) by (simp add: viewport_row_for_absolute_row_def Let_def)
  qed
  moreover have "sl_cursor (sel_drag screen_col screen_row pane_inner metrics s) = (absolute_row_for_viewport_row row metrics, col)"
    "sl_anchor (sel_drag screen_col screen_row pane_inner metrics s) = sl_anchor s"
    "is_visible (sel_drag screen_col screen_row pane_inner metrics s) \<longleftrightarrow>
       is_visible s \<or> (absolute_row_for_viewport_row row metrics, col) \<noteq> sl_anchor s"
    using rc by (simp_all add: sel_drag_def is_visible_def Let_def)
  ultimately show ?thesis using b by (simp add: Let_def)
qed

section \<open>Witnesses\<close>

definition sample_pane_rect :: rect where
  "sample_pane_rect = \<lparr>rx = 10, ry = 5, rwidth = 80, rheight = 24\<rparr>"

theorem selection_drag_bounds_witness:
  "snd (sl_cursor (sel_drag 500 500 sample_pane_rect None (sel_anchor 1 0 0 None))) < rwidth sample_pane_rect"
proof -
  have "in_bounds sample_pane_rect" "0 < unat (rwidth sample_pane_rect)" "0 < unat (rheight sample_pane_rect)"
    "unat (viewport_top_row None) + 65535 < 2 ^ 32"
    by (simp_all add: in_bounds_def sample_pane_rect_def viewport_top_row_def)
  from selection_drag_bounds [OF this, of 500 500 "sel_anchor 1 0 0 None"] show ?thesis by (simp add: Let_def)
qed

end
