(* ===== verification/Popup.thy ===== *)
theory Popup
  imports Layout_Geometry
begin

text \<open>
  Popup sizes and geometry, \<open>src/popup_size.rs\<close>: the sizes, their command line and configuration
  syntax, and the placement of a popup in the available area. The constructor of rectangles is the
  parameter of the layout.
\<close>

section \<open>Sizes\<close>

datatype popup_size = Cells u16 | Percent u8

definition popup_resolve :: "popup_size \<Rightarrow> u16 \<Rightarrow> u16" where
  "popup_resolve sz available =
     (case sz of
        Cells ncells \<Rightarrow> ncells
      | Percent percent \<Rightarrow> ucast (((ucast available :: u32) * ucast percent) div 100))"

definition parse_cli :: "ustr \<Rightarrow> ustr + popup_size" where
  "parse_cli value =
     (case strip_suffix_char 37 value of
        Some percent \<Rightarrow>
          if prefixed [48] percent \<or> \<not> list_all is_ascii_digit percent
          then Inl (U ''percentage must use canonical digits from 1% to 100%'')
          else (case parse_uint 255 percent of
                  None \<Rightarrow> Inl (U ''must be a number of cells or a percentage like 80%'')
                | Some n \<Rightarrow>
                    if \<not> (1 \<le> n \<and> n \<le> 100) then Inl (U ''percentage must be between 1% and 100%'')
                    else Inr (Percent (of_nat n)))
      | None \<Rightarrow>
          (case parse_uint 65535 value of
             Some n \<Rightarrow> Inr (Cells (of_nat n))
           | None \<Rightarrow> Inl (U ''must be a number of cells or a percentage like 80%'')))"

definition parse_percent_string :: "ustr \<Rightarrow> ustr + popup_size" where
  "parse_percent_string value =
     (if value \<noteq> [] \<and> last value = 37 then parse_cli value
      else Inl (U ''string sizes must be percentages like 80%; use a number for cells''))"

text \<open>Configuration values: the serializer writes a number or a string, the reader is shown a number or a string.\<close>

datatype config_value = ConfigUInt u64 | ConfigInt int | ConfigStr ustr

definition popup_serialize :: "popup_size \<Rightarrow> config_value" where
  "popup_serialize sz =
     (case sz of
        Cells ncells \<Rightarrow> ConfigUInt (ucast ncells)
      | Percent percent \<Rightarrow> ConfigStr (dec (unat percent) @ U ''%''))"

fun popup_deserialize :: "config_value \<Rightarrow> ustr + popup_size" where
  "popup_deserialize (ConfigUInt v) =
     (if unat v \<le> 65535 then Inr (Cells (ucast v)) else Inl (U ''cell count must fit in u16''))"
| "popup_deserialize (ConfigInt v) =
     (if 0 \<le> v \<and> v \<le> 65535 then Inr (Cells (of_int v)) else Inl (U ''cell count must be between 0 and 65535''))"
| "popup_deserialize (ConfigStr s) = parse_percent_string s"

section \<open>Geometry\<close>

record popup_geometry =
  pg_outer :: rect
  pg_inner :: rect

definition resolve_popup_geometry :: "rect_new \<Rightarrow> popup_size option \<Rightarrow> popup_size option \<Rightarrow> rect \<Rightarrow> popup_geometry option" where
  "resolve_popup_geometry rn width height area =
     (case checked_add (rx area) (rwidth area) of None \<Rightarrow> None | Some _ \<Rightarrow>
      case checked_add (ry area) (rheight area) of None \<Rightarrow> None | Some _ \<Rightarrow>
      let default_width = max (rwidth area div 2) 6;
          default_height = max (rheight area div 2) 4;
          outer_width = min (max (case width of Some w \<Rightarrow> popup_resolve w (rwidth area) | None \<Rightarrow> default_width) 6) (rwidth area);
          outer_height = min (max (case height of Some h \<Rightarrow> popup_resolve h (rheight area) | None \<Rightarrow> default_height) 4) (rheight area)
      in if outer_width < 6 \<or> outer_height < 4 then None
         else let outer_x = rx area + saturating_sub (rwidth area) outer_width div 2;
                  outer_y = ry area + saturating_sub (rheight area) outer_height div 2;
                  pane_inner_width = saturating_sub outer_width 2;
                  pane_inner_height = saturating_sub outer_height 2;
                  terminal_cols = (if pane_inner_width \<le> 4 then pane_inner_width else saturating_sub pane_inner_width 1)
              in Some \<lparr>pg_outer = rn outer_x outer_y outer_width outer_height,
                       pg_inner = rn (saturating_add outer_x 1) (saturating_add outer_y 1) terminal_cols pane_inner_height\<rparr>)"

text \<open>A percentage is meaningful from 1 to 100.\<close>

definition valid_size :: "popup_size \<Rightarrow> bool" where
  "valid_size sz \<longleftrightarrow> (case sz of Cells _ \<Rightarrow> True | Percent p \<Rightarrow> 1 \<le> unat p \<and> unat p \<le> 100)"

section \<open>Properties\<close>

text \<open>
  Sizes survive their syntax: every cell count and every percentage from 1 to 100 is read back
  from its configuration value, its decimal text on the command line gives it too, and no text
  gives a percentage outside that range.
\<close>

theorem popup_size_roundtrip:
  "(valid_size sz \<longrightarrow> popup_deserialize (popup_serialize sz) = Inr sz) \<and>
   parse_cli (dec (unat ncells)) = Inr (Cells ncells) \<and>
   (parse_cli value = Inr sz \<longrightarrow> valid_size sz) \<and> (popup_deserialize v = Inr sz \<longrightarrow> valid_size sz)"
proof -
  have percent: "parse_cli (dec n @ [37]) = Inr (Percent (of_nat n))" if "1 \<le> n" "n \<le> 100" for n
  proof -
    have "\<not> prefixed [48] (dec n)" using dec_facts [of n] that by (cases "dec n") (auto simp: prefixed_def)
    then show ?thesis
      using that dec_facts [of n] parse_uint_dec [of n 255]
      by (simp add: parse_cli_def strip_suffix_char_def)
  qed
  have valid: "valid_size s" if "parse_cli t = Inr s" for t s
    using that
    by (auto simp: parse_cli_def valid_size_def unat_of_nat split: option.splits if_splits)
  have "popup_deserialize (popup_serialize sz) = Inr sz" if "valid_size sz"
  proof (cases sz)
    case (Cells c)
    then show ?thesis
      using unat_u16_le [of c]
      by (simp add: popup_serialize_def unsigned_ucast_eq take_bit_nat_eq_self take_bit_word_eq_self)
  next
    case (Percent p)
    with that have "1 \<le> unat p" "unat p \<le> 100" by (auto simp: valid_size_def)
    from percent [OF this] Percent show ?thesis
      by (simp add: popup_serialize_def parse_percent_string_def U_def)
  qed
  moreover have "parse_cli (dec (unat ncells)) = Inr (Cells ncells)"
  proof -
    have "last (dec (unat ncells)) \<noteq> 37"
    proof -
      have "is_ascii_digit (last (dec (unat ncells)))"
        using dec_facts [of "unat ncells"] last_in_set [of "dec (unat ncells)"] unfolding list_all_iff by blast
      then show ?thesis by (auto simp: is_ascii_digit_def)
    qed
    then show ?thesis
      using parse_uint_dec [OF unat_u16_le [of ncells]]
      by (simp add: parse_cli_def strip_suffix_char_def)
  qed
  moreover have "valid_size sz" if "popup_deserialize v = Inr sz"
    using that valid by (cases v) (auto simp: parse_percent_string_def valid_size_def split: if_splits)
  ultimately show ?thesis using valid by blast
qed

text \<open>What the source calls the popup's minimum: the outer box is at least 6 by 4.\<close>

definition popup_extent :: "nat \<Rightarrow> u16 \<Rightarrow> popup_size option \<Rightarrow> nat" where
  "popup_extent least available sz =
     min (max (case sz of Some s \<Rightarrow> unat (popup_resolve s available) | None \<Rightarrow> max (unat available div 2) least) least) (unat available)"

lemma unat_min_word: "unat (min a b) = min (unat a) (unat (b :: 'a::len word))"
  by (simp add: min_def word_le_nat_alt)

lemma unat_max_word: "unat (max a b) = max (unat a) (unat (b :: 'a::len word))"
  by (simp add: max_def word_le_nat_alt)

lemma rect_newD:
  "rect_new_ok rn \<Longrightarrow> unat x + unat w \<le> 65535 \<Longrightarrow> unat y + unat h \<le> 65535 \<Longrightarrow>
   rn x y w h = \<lparr>rx = x, ry = y, rwidth = w, rheight = h\<rparr>"
  unfolding rect_new_ok_def by blast

lemma cells_subset:
  "unat (rx b) \<le> unat (rx a) \<Longrightarrow> unat (rx a) + unat (rwidth a) \<le> unat (rx b) + unat (rwidth b) \<Longrightarrow>
   unat (ry b) \<le> unat (ry a) \<Longrightarrow> unat (ry a) + unat (rheight a) \<le> unat (ry b) + unat (rheight b) \<Longrightarrow> cells a \<subseteq> cells b"
  by (auto simp: cells_def)

text \<open>One axis: an extent \<open>e\<close> centred in \<open>w\<close> cells from \<open>x\<close>.\<close>

lemma popup_axis:
  fixes x w e :: u16
  assumes "unat x + unat w \<le> 65535" and "unat e \<le> unat w" and "4 \<le> unat e"
  shows "unat (x + saturating_sub w e div 2) = unat x + (unat w - unat e) div 2"
    and "unat (saturating_add (x + saturating_sub w e div 2) 1) = unat x + (unat w - unat e) div 2 + 1"
    and "unat x + (unat w - unat e) div 2 + unat e \<le> unat x + unat w"
proof -
  show le: "unat x + (unat w - unat e) div 2 + unat e \<le> unat x + unat w" using assms(2) by linarith
  have h: "unat (saturating_sub w e div 2) = (unat w - unat e) div 2" by (simp add: unat_div rust_word)
  show s: "unat (x + saturating_sub w e div 2) = unat x + (unat w - unat e) div 2"
    using assms le h by (subst unat_plus_u16) simp_all
  show "unat (saturating_add (x + saturating_sub w e div 2) 1) = unat x + (unat w - unat e) div 2 + 1"
    using assms le s by (subst unat_saturating_add_u16) simp_all
qed

text \<open>
  A popup is placed exactly when the area's edges fit in \<open>u16\<close> and the area is at least 6 by 4.
  Then the outer box has the requested extent, cut to the area and at least 6 by 4, lies inside the
  area and is centred; the terminal lies strictly inside the border and keeps at least one column
  and row; and no coordinate wraps around.
\<close>

theorem popup_geometry_bounds:
  assumes rn: "rect_new_ok rn"
  shows "case resolve_popup_geometry rn width height area of
      None \<Rightarrow> unat (rx area) + unat (rwidth area) > 65535 \<or> unat (ry area) + unat (rheight area) > 65535 \<or>
        unat (rwidth area) < 6 \<or> unat (rheight area) < 4
    | Some g \<Rightarrow> in_bounds area \<and> cells (pg_inner g) \<subseteq> cells (pg_outer g) \<and> cells (pg_outer g) \<subseteq> cells area \<and>
        unat (rwidth (pg_outer g)) = popup_extent 6 (rwidth area) width \<and>
        unat (rheight (pg_outer g)) = popup_extent 4 (rheight area) height \<and>
        unat (rx (pg_outer g)) = unat (rx area) + (unat (rwidth area) - unat (rwidth (pg_outer g))) div 2 \<and>
        unat (ry (pg_outer g)) = unat (ry area) + (unat (rheight area) - unat (rheight (pg_outer g))) div 2 \<and>
        unat (rx (pg_inner g)) = unat (rx (pg_outer g)) + 1 \<and> unat (ry (pg_inner g)) = unat (ry (pg_outer g)) + 1 \<and>
        1 \<le> unat (rwidth (pg_inner g)) \<and> unat (rwidth (pg_inner g)) + 2 \<le> unat (rwidth (pg_outer g)) \<and>
        1 \<le> unat (rheight (pg_inner g)) \<and> unat (rheight (pg_inner g)) + 2 = unat (rheight (pg_outer g))"
proof (cases "in_bounds area")
  case False
  then have "resolve_popup_geometry rn width height area = None"
    by (auto simp: resolve_popup_geometry_def checked_add_def in_bounds_def split: option.splits)
  with False show ?thesis by (auto simp: in_bounds_def)
next
  case True
  let ?ow = "min (max (case width of Some w \<Rightarrow> popup_resolve w (rwidth area) | None \<Rightarrow> max (rwidth area div 2) 6) 6) (rwidth area)"
  let ?oh = "min (max (case height of Some h \<Rightarrow> popup_resolve h (rheight area) | None \<Rightarrow> max (rheight area div 2) 4) 4) (rheight area)"
  have ow: "unat ?ow = popup_extent 6 (rwidth area) width"
    by (simp add: popup_extent_def unat_min_word unat_max_word unat_div split: option.split)
  have oh: "unat ?oh = popup_extent 4 (rheight area) height"
    by (simp add: popup_extent_def unat_min_word unat_max_word unat_div split: option.split)
  have lt: "?ow < 6 \<longleftrightarrow> unat (rwidth area) < 6" "?oh < 4 \<longleftrightarrow> unat (rheight area) < 4"
    unfolding word_less_nat_alt ow oh popup_extent_def by auto
  have fits: "checked_add (rx area) (rwidth area) \<noteq> None" "checked_add (ry area) (rheight area) \<noteq> None"
    using True by (simp_all add: checked_add_def in_bounds_def)
  show ?thesis
  proof (cases "unat (rwidth area) < 6 \<or> unat (rheight area) < 4")
    case True
    then have "resolve_popup_geometry rn width height area = None"
      using lt fits by (auto simp: resolve_popup_geometry_def Let_def split: option.splits)
    with True show ?thesis by auto
  next
    case big: False
    have bnd: "unat (rx area) + unat (rwidth area) \<le> 65535" "unat (ry area) + unat (rheight area) \<le> 65535"
      using True by (simp_all add: in_bounds_def)
    have e: "unat ?ow \<le> unat (rwidth area)" "6 \<le> unat ?ow" "unat ?oh \<le> unat (rheight area)" "4 \<le> unat ?oh"
      using big unfolding ow oh popup_extent_def by auto
    define ow' where "ow' = ?ow"
    define oh' where "oh' = ?oh"
    define cols where "cols = (if saturating_sub ow' 2 \<le> 4 then saturating_sub ow' 2 else saturating_sub (saturating_sub ow' 2) 1)"
    have e': "unat ow' \<le> unat (rwidth area)" "6 \<le> unat ow'" "unat oh' \<le> unat (rheight area)" "4 \<le> unat oh'"
      using e unfolding ow'_def oh'_def by blast+
    note ax = popup_axis [OF bnd(1) e'(1)] and ay = popup_axis [OF bnd(2) e'(3,4)]
    have cols: "1 \<le> unat cols" "unat cols + 2 \<le> unat ow'"
      using e'(2) by (simp_all add: cols_def rust_word) linarith+
    have h: "unat (saturating_sub oh' 2) = unat oh' - 2" by (simp add: rust_word)
    let ?x = "rx area + saturating_sub (rwidth area) ow' div 2" and ?y = "ry area + saturating_sub (rheight area) oh' div 2"
    have outer: "rn ?x ?y ow' oh' = \<lparr>rx = ?x, ry = ?y, rwidth = ow', rheight = oh'\<rparr>"
      by (rule rect_newD [OF rn]) (use ax ay bnd e' in \<open>linarith\<close>)+
    have inner: "rn (saturating_add ?x 1) (saturating_add ?y 1) cols (saturating_sub oh' 2) =
        \<lparr>rx = saturating_add ?x 1, ry = saturating_add ?y 1, rwidth = cols, rheight = saturating_sub oh' 2\<rparr>"
      by (rule rect_newD [OF rn]) (use ax ay bnd e' cols h in \<open>linarith\<close>)+
    let ?O = "\<lparr>rx = ?x, ry = ?y, rwidth = ow', rheight = oh'\<rparr>"
      and ?I = "\<lparr>rx = saturating_add ?x 1, ry = saturating_add ?y 1, rwidth = cols, rheight = saturating_sub oh' 2\<rparr>"
    have "resolve_popup_geometry rn width height area = Some \<lparr>pg_outer = rn ?x ?y ow' oh',
        pg_inner = rn (saturating_add ?x 1) (saturating_add ?y 1) cols (saturating_sub oh' 2)\<rparr>"
      using fits big lt unfolding ow'_def oh'_def cols_def
      by (auto simp: resolve_popup_geometry_def Let_def split: option.splits)
    then have g: "resolve_popup_geometry rn width height area = Some \<lparr>pg_outer = ?O, pg_inner = ?I\<rparr>"
      unfolding outer inner .
    have xs: "unat ?x = unat (rx area) + (unat (rwidth area) - unat ow') div 2"
      "unat (saturating_add ?x 1) = unat ?x + 1" "unat ?x + unat ow' \<le> unat (rx area) + unat (rwidth area)"
      using ax e'(2) by simp_all
    have ys: "unat ?y = unat (ry area) + (unat (rheight area) - unat oh') div 2"
      "unat (saturating_add ?y 1) = unat ?y + 1" "unat ?y + unat oh' \<le> unat (ry area) + unat (rheight area)"
      using ay by simp_all
    define x' where "x' = ?x"
    define y' where "y' = ?y"
    define x1 where "x1 = saturating_add ?x 1"
    define y1 where "y1 = saturating_add ?y 1"
    define h' where "h' = saturating_sub oh' 2"
    note folds = x1_def [symmetric] y1_def [symmetric] x'_def [symmetric] y'_def [symmetric] h'_def [symmetric]
    have oc: "cells ?O \<subseteq> cells area"
      using xs ys unfolding folds by (intro cells_subset) simp_all
    have ic: "cells ?I \<subseteq> cells ?O"
      using xs ys cols h e'(4) unfolding folds by (intro cells_subset) (simp_all, linarith)
    have w: "unat ow' = popup_extent 6 (rwidth area) width" "unat oh' = popup_extent 4 (rheight area) height"
      using ow oh unfolding ow'_def oh'_def by blast+
    have hh: "1 \<le> unat (saturating_sub oh' 2)" "unat (saturating_sub oh' 2) + 2 = unat oh'"
      using h e'(4) by linarith+
    show ?thesis
      unfolding g option.case popup_geometry.simps rect.simps
      using True ic oc w xs(1,2) ys(1,2) cols hh by blast
  qed
qed

section \<open>Witnesses\<close>

theorem popup_size_roundtrip_witness:
  "popup_deserialize (popup_serialize (Percent 80)) = Inr (Percent 80) \<and> parse_cli (dec (unat (40 :: u16))) = Inr (Cells 40)"
  using popup_size_roundtrip [of "Percent 80" 40] by (simp add: valid_size_def)

definition screen_rect :: rect where
  "screen_rect = \<lparr>rx = 0, ry = 0, rwidth = 120, rheight = 40\<rparr>"

theorem popup_geometry_bounds_witness:
  "\<exists>g. resolve_popup_geometry rect_exact (Some (Percent 50)) None screen_rect = Some g \<and> cells (pg_outer g) \<subseteq> cells screen_rect"
proof -
  have rn: "rect_new_ok rect_exact" by (simp add: rect_new_ok_def rect_exact_def)
  have "resolve_popup_geometry rect_exact (Some (Percent 50)) None screen_rect \<noteq> None"
  proof
    assume "resolve_popup_geometry rect_exact (Some (Percent 50)) None screen_rect = None"
    with popup_geometry_bounds [OF rn, where width = "Some (Percent 50)" and height = None and area = screen_rect]
    show False by (simp add: screen_rect_def)
  qed
  then obtain g where "resolve_popup_geometry rect_exact (Some (Percent 50)) None screen_rect = Some g" by blast
  with popup_geometry_bounds [OF rn, where width = "Some (Percent 50)" and height = None and area = screen_rect] show ?thesis by auto
qed

end
