(* ===== verification/Agents.thy ===== *)
theory Agents
  imports Prelude "HOL-Library.AList"
begin

text \<open>
  The agents the program knows (\<open>detect/mod.rs\<close>): their canonical labels, the label and alias table,
  the parsing of reported labels, and the two families of hook integrations. \<open>str::to_lowercase\<close>
  is an argument, since its Unicode tables are not part of the source; what is used of it is that
  it lowers the ASCII letters.
\<close>

section \<open>Options and hash maps\<close>

text \<open>
  \<open>Option::is_some_and\<close> and \<open>Option::is_none_or\<close>. A \<open>HashMap\<close> is an association list in the order in
  which it happens to be iterated; \<open>hput\<close>, \<open>hdel\<close> and \<open>hget\<close> are \<open>insert\<close>, \<open>remove\<close> and \<open>get\<close>.
\<close>

primrec some_and :: "('a \<Rightarrow> bool) \<Rightarrow> 'a option \<Rightarrow> bool" where
  "some_and P None = False"
| "some_and P (Some x) = P x"

primrec none_or :: "('a \<Rightarrow> bool) \<Rightarrow> 'a option \<Rightarrow> bool" where
  "none_or P None = True"
| "none_or P (Some x) = P x"

lemma some_and_iff: "some_and P v \<longleftrightarrow> (\<exists>x. v = Some x \<and> P x)"
  by (cases v) auto

lemma none_or_iff: "none_or P v \<longleftrightarrow> (\<forall>x. v = Some x \<longrightarrow> P x)"
  by (cases v) auto

primrec or_else :: "'a option \<Rightarrow> 'a option \<Rightarrow> 'a option" where
  "or_else None y = y"
| "or_else (Some x) y = Some x"

type_synonym 'v hmap = "(ustr \<times> 'v) list"

abbreviation hget :: "'v hmap \<Rightarrow> ustr \<Rightarrow> 'v option" where
  "hget \<equiv> map_of"

abbreviation hput :: "ustr \<Rightarrow> 'v \<Rightarrow> 'v hmap \<Rightarrow> 'v hmap" where
  "hput \<equiv> AList.update"

abbreviation hdel :: "ustr \<Rightarrow> 'v hmap \<Rightarrow> 'v hmap" where
  "hdel \<equiv> AList.delete"

section \<open>Agents\<close>

datatype agent = Pi | Claude | Codex | Gemini | Cursor | Devin | Antigravity | Cline | Mastracode
  | OpenCode | GithubCopilot | Kimi | Kiro | Droid | Amp | Grok | Hermes | Kilo | Qodercli | Qwen | Maki

datatype agent_state = Idle | Working | Blocked | Unknown

fun agent_label :: "agent \<Rightarrow> ustr" where
  "agent_label Pi = U ''pi''"
| "agent_label Claude = U ''claude''"
| "agent_label Codex = U ''codex''"
| "agent_label Gemini = U ''gemini''"
| "agent_label Cursor = U ''cursor''"
| "agent_label Devin = U ''devin''"
| "agent_label Antigravity = U ''agy''"
| "agent_label Cline = U ''cline''"
| "agent_label Mastracode = U ''mastracode''"
| "agent_label OpenCode = U ''opencode''"
| "agent_label GithubCopilot = U ''copilot''"
| "agent_label Kimi = U ''kimi''"
| "agent_label Kiro = U ''kiro''"
| "agent_label Droid = U ''droid''"
| "agent_label Amp = U ''amp''"
| "agent_label Grok = U ''grok''"
| "agent_label Hermes = U ''hermes''"
| "agent_label Kilo = U ''kilo''"
| "agent_label Qodercli = U ''qodercli''"
| "agent_label Qwen = U ''qwen''"
| "agent_label Maki = U ''maki''"

definition agent_names :: "(ustr \<times> agent) list" where
  "agent_names =
    [(U ''pi'', Pi), (U ''claude'', Claude), (U ''claude-code'', Claude), (U ''codex'', Codex), (U ''gemini'', Gemini),
     (U ''cursor'', Cursor), (U ''cursor-agent'', Cursor), (U ''devin'', Devin), (U ''devin-cli'', Devin),
     (U ''devin cli'', Devin), (U ''agy'', Antigravity), (U ''antigravity'', Antigravity),
     (U ''antigravity-cli'', Antigravity), (U ''cline'', Cline), (U ''mastracode'', Mastracode),
     (U ''mastra-code'', Mastracode), (U ''mastra code'', Mastracode), (U ''opencode'', OpenCode),
     (U ''opencode2'', OpenCode), (U ''open-code'', OpenCode), (U ''copilot'', GithubCopilot),
     (U ''github-copilot'', GithubCopilot), (U ''ghcs'', GithubCopilot), (U ''kimi'', Kimi), (U ''kimi-code'', Kimi),
     (U ''kimi code'', Kimi), (U ''kiro'', Kiro), (U ''kiro-cli'', Kiro), (U ''droid'', Droid), (U ''amp'', Amp),
     (U ''amp-local'', Amp), (U ''grok'', Grok), (U ''grok-build'', Grok), (U ''hermes'', Hermes),
     (U ''hermes-agent'', Hermes), (U ''kilo'', Kilo), (U ''kilo-code'', Kilo), (U ''kilo code'', Kilo),
     (U ''qodercli'', Qodercli), (U ''qoderclicn'', Qodercli), (U ''qoder'', Qodercli), (U ''qodercn'', Qodercli),
     (U ''qwen'', Qwen), (U ''qwen-code'', Qwen), (U ''qwen code'', Qwen), (U ''maki'', Maki)]"

definition lookup_agent :: "ustr \<Rightarrow> agent option" where
  "lookup_agent name = map_of agent_names name"

definition parse_canonical_agent_label :: "ustr \<Rightarrow> agent option" where
  "parse_canonical_agent_label label =
     (case lookup_agent label of None \<Rightarrow> None | Some a \<Rightarrow> if agent_label a = label then Some a else None)"

definition ends_with :: "ustr \<Rightarrow> ustr \<Rightarrow> bool" where
  "ends_with s suffix \<longleftrightarrow> length suffix \<le> length s \<and> drop (length s - length suffix) s = suffix"

fun strip_first_suffix :: "ustr list \<Rightarrow> ustr \<Rightarrow> ustr" where
  "strip_first_suffix [] s = s"
| "strip_first_suffix (x # xs) s =
     (if ends_with s x then take (length s - length x) s else strip_first_suffix xs s)"

definition normalized_agent_lookup_name :: "(ustr \<Rightarrow> ustr) \<Rightarrow> ustr \<Rightarrow> ustr" where
  "normalized_agent_lookup_name to_lowercase name =
     strip_first_suffix [U ''.exe'', U ''.cmd'', U ''.bat'', U ''.ps1'', U ''.js''] (to_lowercase (trim name))"

definition parse_agent_label :: "(ustr \<Rightarrow> ustr) \<Rightarrow> ustr \<Rightarrow> agent option" where
  "parse_agent_label to_lowercase agent =
     (let name = normalized_agent_lookup_name to_lowercase agent
      in case parse_canonical_agent_label name of Some a \<Rightarrow> Some a | None \<Rightarrow> lookup_agent name)"

definition full_lifecycle_hook_authority :: "ustr \<Rightarrow> ustr \<Rightarrow> bool" where
  "full_lifecycle_hook_authority source label \<longleftrightarrow>
     (source, label) \<in> set [(U ''zynk:pi'', U ''pi''), (U ''zynk:omp'', U ''omp''), (U ''zynk:mastracode'', U ''mastracode''),
       (U ''zynk:opencode'', U ''opencode''), (U ''zynk:kilo'', U ''kilo''), (U ''zynk:kimi'', U ''kimi'')]"

definition session_identity_only_integration :: "ustr \<Rightarrow> ustr \<Rightarrow> bool" where
  "session_identity_only_integration source label \<longleftrightarrow>
     (source, label) \<in> set [(U ''zynk:hermes'', U ''hermes''), (U ''zynk:qwen'', U ''qwen''), (U ''zynk:antigravity_cli'', U ''agy'')]"

text \<open>What is used of \<open>to_lowercase\<close>: on ASCII text it lowers the letters and keeps the rest.\<close>

definition lowers_ascii :: "(ustr \<Rightarrow> ustr) \<Rightarrow> bool" where
  "lowers_ascii lc \<longleftrightarrow>
     (\<forall>s. (\<forall>c \<in> set s. c < 128) \<longrightarrow> lc s = map (\<lambda>c. if 65 \<le> c \<and> c \<le> 90 then c + 32 else c) s)"

definition ascii_lowercase :: "ustr \<Rightarrow> ustr" where
  "ascii_lowercase s = map (\<lambda>c. if 65 \<le> c \<and> c \<le> 90 then c + 32 else c) s"

lemma lowers_ascii_ascii_lowercase [simp]: "lowers_ascii ascii_lowercase"
  by (simp add: lowers_ascii_def ascii_lowercase_def)

lemma identity_only_not_full_lifecycle:
  "session_identity_only_integration s l \<Longrightarrow> \<not> full_lifecycle_hook_authority s l"
  by (auto simp: session_identity_only_integration_def full_lifecycle_hook_authority_def U_def)

text \<open>Each official source reports one label, so the source alone identifies a retired owner.\<close>

lemma retired_owner_label_unique:
  "full_lifecycle_hook_authority s l \<or> session_identity_only_integration s l \<Longrightarrow>
   full_lifecycle_hook_authority s l' \<or> session_identity_only_integration s l' \<Longrightarrow> l = l'"
  by (auto simp: session_identity_only_integration_def full_lifecycle_hook_authority_def U_def)

lemma canonical_label_lookup: "lookup_agent (agent_label a) = Some a"
  by (cases a) (simp_all add: lookup_agent_def agent_names_def U_def)

lemma canonical_label_lower:
  "trim (agent_label a) = agent_label a \<and> (\<forall>c \<in> set (agent_label a). 97 \<le> c \<and> c < 123)"
  by (cases a) (simp_all add: U_def trim_def is_whitespace_def)

lemma no_dot_no_suffix:
  assumes "46 \<notin> set s"
  shows "strip_first_suffix [U ''.exe'', U ''.cmd'', U ''.bat'', U ''.ps1'', U ''.js''] s = s"
proof -
  have no: "\<not> ends_with s x" if "46 \<in> set x" for x
    using that assms in_set_dropD [of 46 "length s - length x" s] by (auto simp: ends_with_def)
  have "\<not> ends_with s (U ''.exe'')" "\<not> ends_with s (U ''.cmd'')" "\<not> ends_with s (U ''.bat'')"
    "\<not> ends_with s (U ''.ps1'')" "\<not> ends_with s (U ''.js'')"
    by (rule no, simp add: U_def)+
  then show ?thesis by simp
qed

lemma parse_agent_label_canonical:
  assumes "lowers_ascii to_lowercase"
  shows "parse_agent_label to_lowercase (agent_label a) = Some a"
proof -
  have r: "\<forall>c \<in> set (agent_label a). 97 \<le> c \<and> c < 123" using canonical_label_lower by blast
  then have "to_lowercase (agent_label a) = map (\<lambda>c. if 65 \<le> c \<and> c \<le> 90 then c + 32 else c) (agent_label a)"
    using assms unfolding lowers_ascii_def by fastforce
  also have "\<dots> = agent_label a" using r by (intro map_idI) auto
  finally have "to_lowercase (trim (agent_label a)) = agent_label a" using canonical_label_lower by simp
  moreover have "46 \<notin> set (agent_label a)" using r by auto
  ultimately have "normalized_agent_lookup_name to_lowercase (agent_label a) = agent_label a"
    by (simp only: normalized_agent_lookup_name_def no_dot_no_suffix not_False_eq_True)
  then show ?thesis by (simp add: parse_agent_label_def parse_canonical_agent_label_def canonical_label_lookup)
qed

section \<open>Properties\<close>

text \<open>
  Every agent is recognised from its own label, with either parser, and the canonical parser
  accepts nothing else: it answers an agent exactly on that agent's label.
\<close>

theorem agent_label_roundtrip:
  assumes "lowers_ascii to_lowercase"
  shows "parse_agent_label to_lowercase (agent_label a) = Some a \<and>
    (parse_canonical_agent_label name = Some b \<longleftrightarrow> name = agent_label b)"
  using parse_agent_label_canonical [OF assms] canonical_label_lookup [of b]
  by (auto simp: parse_canonical_agent_label_def split: option.splits if_splits)

theorem agent_label_roundtrip_witness: "parse_agent_label ascii_lowercase (U ''agy'') = Some Antigravity"
  using agent_label_roundtrip [OF lowers_ascii_ascii_lowercase, of Antigravity] by simp

end
