(* ===== verification/Agent_Resume.thy ===== *)
theory Agent_Resume
  imports Agents "HOL-Library.Sublist"
begin

text \<open>
  Resuming agents after a restart (\<open>agent_resume.rs\<close>): session references and their validation,
  the fixed resume command of each agent, and the rewriting of an operator's original command line
  so that its recognised flags survive the restart. Paths are those of Unix.
\<close>

section \<open>Session references\<close>

datatype session_ref_kind = Id | Path

record agent_session_ref =
  sr_kind :: session_ref_kind
  sr_value :: ustr

record agent_resume_plan =
  rp_agent :: ustr
  rp_argv :: "ustr list"
  rp_dedupe_key :: ustr

datatype resume_argv_observation = Flagged ustr "ustr list" | ObservedCanonical ustr

record persisted_agent_session =
  ps_source :: ustr
  ps_agent :: ustr
  ps_session_ref :: agent_session_ref

fun observation_dedupe_key :: "resume_argv_observation \<Rightarrow> ustr" where
  "observation_dedupe_key (Flagged k _) = k"
| "observation_dedupe_key (ObservedCanonical k) = k"

definition max_session_id_len :: nat where "max_session_id_len = 512"
definition max_session_path_len :: nat where "max_session_path_len = 4096"
definition max_argv_tokens :: nat where "max_argv_tokens = 256"

definition no_control :: "ustr \<Rightarrow> bool" where
  "no_control s \<longleftrightarrow> list_all (\<lambda>c. \<not> is_control c) s"

definition is_absolute :: "ustr \<Rightarrow> bool" where
  "is_absolute s \<longleftrightarrow> prefixed [47] s"

definition valid_session_id :: "ustr \<Rightarrow> bool" where
  "valid_session_id v \<longleftrightarrow> v \<noteq> [] \<and> length (as_bytes v) \<le> max_session_id_len \<and> no_control v"

definition valid_session_path :: "ustr \<Rightarrow> bool" where
  "valid_session_path v \<longleftrightarrow> v \<noteq> [] \<and> length (as_bytes v) \<le> max_session_path_len \<and> no_control v \<and> is_absolute v"

definition session_ref_id :: "ustr \<Rightarrow> agent_session_ref option" where
  "session_ref_id v = (if valid_session_id v then Some \<lparr>sr_kind = Id, sr_value = v\<rparr> else None)"

definition session_ref_path :: "ustr \<Rightarrow> agent_session_ref option" where
  "session_ref_path v = (if valid_session_path v then Some \<lparr>sr_kind = Path, sr_value = v\<rparr> else None)"

definition is_official_agent_source :: "ustr \<Rightarrow> ustr \<Rightarrow> bool" where
  "is_official_agent_source source agent \<longleftrightarrow>
     (source, agent) \<in> set
       [(U ''zynk:claude'', U ''claude''), (U ''zynk:codex'', U ''codex''), (U ''zynk:copilot'', U ''copilot''),
        (U ''zynk:devin'', U ''devin''), (U ''zynk:droid'', U ''droid''), (U ''zynk:kimi'', U ''kimi''),
        (U ''zynk:omp'', U ''omp''), (U ''zynk:mastracode'', U ''mastracode''), (U ''zynk:pi'', U ''pi''),
        (U ''zynk:hermes'', U ''hermes''), (U ''zynk:opencode'', U ''opencode''), (U ''zynk:qodercli'', U ''qodercli''),
        (U ''zynk:qwen'', U ''qwen''), (U ''zynk:kilo'', U ''kilo''), (U ''zynk:cursor'', U ''cursor''),
        (U ''zynk:antigravity_cli'', U ''agy''), (U ''zynk:grok'', U ''grok'')]"

definition session_ref_from_report ::
  "ustr \<Rightarrow> ustr \<Rightarrow> ustr option \<Rightarrow> ustr option \<Rightarrow> agent_session_ref option" where
  "session_ref_from_report source agent session_id session_path =
     (if \<not> is_official_agent_source source agent then None
      else if agent = U ''pi'' \<or> agent = U ''omp'' then
        (case Option.bind session_path session_ref_path of
           Some r \<Rightarrow> Some r | None \<Rightarrow> Option.bind session_id session_ref_id)
      else Option.bind session_id session_ref_id)"

definition normalize_session_start_source :: "ustr option \<Rightarrow> ustr option" where
  "normalize_session_start_source value =
     (case map_option trim value of
        Some s \<Rightarrow> (if s \<in> set [U ''startup'', U ''resume'', U ''clear'', U ''compact'', U ''branch'', U ''new'', U ''fork'', U ''select'']
          then Some s else None)
      | None \<Rightarrow> None)"

definition is_reserved_native_state_source :: "ustr \<Rightarrow> ustr \<Rightarrow> bool" where
  "is_reserved_native_state_source source agent \<longleftrightarrow>
     (source, agent) \<in> set
       [(U ''zynk:claude'', U ''claude''), (U ''zynk:codex'', U ''codex''), (U ''zynk:copilot'', U ''copilot''),
        (U ''zynk:devin'', U ''devin''), (U ''zynk:droid'', U ''droid''), (U ''zynk:qodercli'', U ''qodercli''),
        (U ''zynk:cursor'', U ''cursor''), (U ''zynk:grok'', U ''grok'')]"

definition session_ref_from_snapshot ::
  "ustr \<Rightarrow> ustr \<Rightarrow> session_ref_kind \<Rightarrow> ustr \<Rightarrow> persisted_agent_session option" where
  "session_ref_from_snapshot source agent kind value =
     (if \<not> is_official_agent_source source agent then None
      else map_option (\<lambda>r. \<lparr>ps_source = source, ps_agent = agent, ps_session_ref = r\<rparr>)
        (if (agent = U ''pi'' \<or> agent = U ''omp'') \<and> kind = Path then session_ref_path value
         else if kind = Id then session_ref_id value else None))"

section \<open>The canonical resume command\<close>

definition canonical_resume_argv :: "ustr \<Rightarrow> ustr \<Rightarrow> agent_session_ref \<Rightarrow> ustr list option" where
  "canonical_resume_argv source agent r =
     (let v = sr_value r; id = (sr_kind r = Id); is = (\<lambda>s a. source = U s \<and> agent = U a) in
      if is ''zynk:claude'' ''claude'' \<and> id then Some [U ''claude'', U ''--resume'', v]
      else if is ''zynk:codex'' ''codex'' \<and> id then Some [U ''codex'', U ''--no-daemon'', U ''resume'', v]
      else if is ''zynk:copilot'' ''copilot'' \<and> id then Some [U ''copilot'', U ''--resume='' @ v]
      else if is ''zynk:devin'' ''devin'' \<and> id then Some [U ''devin'', U ''--resume'', v]
      else if is ''zynk:droid'' ''droid'' \<and> id then Some [U ''droid'', U ''--resume'', v]
      else if is ''zynk:kimi'' ''kimi'' \<and> id then Some [U ''kimi'', U ''--session'', v]
      else if is ''zynk:mastracode'' ''mastracode'' \<and> id then Some [U ''mastracode'', U ''--thread'', v]
      else if is ''zynk:pi'' ''pi'' then Some [U ''pi'', U ''--session'', v]
      else if is ''zynk:omp'' ''omp'' then Some [U ''omp'', U ''--resume='' @ v]
      else if is ''zynk:hermes'' ''hermes'' \<and> id then Some [U ''hermes'', U ''--resume'', v]
      else if is ''zynk:opencode'' ''opencode'' \<and> id then Some [U ''opencode'', U ''--session'', v]
      else if is ''zynk:qodercli'' ''qodercli'' \<and> id then Some [U ''qodercli'', U ''--resume'', v]
      else if is ''zynk:qwen'' ''qwen'' \<and> id then Some [U ''qwen'', U ''--resume'', v]
      else if is ''zynk:kilo'' ''kilo'' \<and> id then Some [U ''kilo'', U ''--session'', v]
      else if is ''zynk:cursor'' ''cursor'' \<and> id then Some [U ''cursor-agent'', U ''--resume'', v]
      else if is ''zynk:antigravity_cli'' ''agy'' \<and> id then Some [U ''agy'', U ''--conversation'', v]
      else if is ''zynk:grok'' ''grok'' \<and> id then Some [U ''grok'', U ''--resume'', v]
      else None)"

fun debug_kind :: "session_ref_kind \<Rightarrow> ustr" where
  "debug_kind Id = U ''Id''"
| "debug_kind Path = U ''Path''"

definition dedupe_key :: "ustr \<Rightarrow> ustr \<Rightarrow> agent_session_ref \<Rightarrow> ustr" where
  "dedupe_key source agent r = source @ [0] @ agent @ [0] @ debug_kind (sr_kind r) @ [0] @ sr_value r"

section \<open>Rewriting a command line\<close>

definition valid_argv_token :: "ustr \<Rightarrow> bool" where
  "valid_argv_token t \<longleftrightarrow> t \<noteq> [] \<and> length (as_bytes t) \<le> max_session_path_len \<and> no_control t"

definition valid_argv :: "ustr list \<Rightarrow> bool" where
  "valid_argv argv \<longleftrightarrow> argv \<noteq> [] \<and> length argv \<le> max_argv_tokens \<and> list_all valid_argv_token argv"

text \<open>
  \<open>Path::file_name\<close>: the last component that is neither empty nor \<open>.\<close>, unless it is \<open>..\<close>.
\<close>

fun path_components :: "ustr \<Rightarrow> ustr \<Rightarrow> ustr list" where
  "path_components [] acc = [rev acc]"
| "path_components (c # cs) acc = (if c = 47 then rev acc # path_components cs [] else path_components cs (c # acc))"

definition file_name :: "ustr \<Rightarrow> ustr option" where
  "file_name s =
     (case filter (\<lambda>c. c \<noteq> [] \<and> c \<noteq> [46]) (path_components s []) of
        [] \<Rightarrow> None
      | cs \<Rightarrow> if last cs = [46, 46] then None else Some (last cs))"

definition argv0_matches_agent :: "ustr \<Rightarrow> ustr \<Rightarrow> bool" where
  "argv0_matches_agent argv0 agent \<longleftrightarrow> file_name argv0 = Some agent"

record rewrite_spec =
  bool_selectors :: "ustr list"
  value_selectors :: "ustr list"
  canonical_selector :: ustr
  bool_allow :: "ustr list"
  value_allow :: "ustr list"

definition claude_spec :: rewrite_spec where
  "claude_spec = \<lparr>bool_selectors = [U ''--continue'', U ''-c''],
     value_selectors = [U ''--resume'', U ''-r'', U ''--session-id''],
     canonical_selector = U ''--resume'',
     bool_allow = [U ''--dangerously-skip-permissions'', U ''--allow-dangerously-skip-permissions'', U ''--fork-session'', U ''--safe-mode''],
     value_allow = [U ''--model'', U ''--fallback-model'', U ''--permission-mode'', U ''--agent'', U ''--effort'']\<rparr>"

definition pi_spec :: rewrite_spec where
  "pi_spec = \<lparr>bool_selectors = [U ''--continue'', U ''-c'', U ''--resume'', U ''-r''],
     value_selectors = [U ''--session'', U ''--session-id''],
     canonical_selector = U ''--session'',
     bool_allow = [U ''--no-tools'', U ''-nt'', U ''--no-builtin-tools'', U ''-nbt'', U ''--approve'', U ''-a'', U ''--no-approve'',
       U ''-na'', U ''--offline'', U ''--no-extensions'', U ''-ne'', U ''--no-skills'', U ''-ns'', U ''--no-context-files'', U ''-nc''],
     value_allow = [U ''--provider'', U ''--model'', U ''--thinking'', U ''--tools'', U ''-t'', U ''--exclude-tools'', U ''-xt'',
       U ''--models'', U ''--mode'']\<rparr>"

definition codex_bool_allow :: "ustr list" where
  "codex_bool_allow = [U ''--no-daemon'', U ''--dangerously-bypass-approvals-and-sandbox'',
     U ''--dangerously-bypass-hook-trust'', U ''--oss'', U ''--search'', U ''--yolo'']"

definition codex_value_allow :: "ustr list" where
  "codex_value_allow = [U ''-m'', U ''--model'', U ''-s'', U ''--sandbox'', U ''-a'', U ''--ask-for-approval'', U ''-C'', U ''--cd'',
     U ''--add-dir'', U ''-p'', U ''--profile'', U ''--local-provider'', U ''--enable'', U ''--disable'', U ''--remote'']"

definition codex_selector_drop :: "ustr list" where
  "codex_selector_drop = [U ''--last'', U ''--all'', U ''--include-non-interactive'']"

definition flag_eq_form_in :: "ustr \<Rightarrow> ustr list \<Rightarrow> bool" where
  "flag_eq_form_in tok names \<longleftrightarrow>
     prefixed (U ''--'') tok \<and> 61 \<in> set tok \<and> takeWhile (\<lambda>c. c \<noteq> 61) tok \<in> set names"

definition starts_dash :: "ustr \<Rightarrow> bool" where
  "starts_dash s \<longleftrightarrow> prefixed [45] s"

text \<open>Consuming the value after a selector, when the next token does not look like a flag.\<close>

definition skip_value :: "ustr list \<Rightarrow> ustr list" where
  "skip_value rest = (case rest of [] \<Rightarrow> [] | n # rest' \<Rightarrow> if \<not> starts_dash n then rest' else rest)"

lemma length_skip_value [termination_simp]: "length (skip_value rest) \<le> length rest"
  by (auto simp: skip_value_def split: list.splits)

definition get_or_insert :: "'a option \<Rightarrow> 'a \<Rightarrow> 'a option" where
  "get_or_insert o' x = (case o' of Some y \<Rightarrow> Some y | None \<Rightarrow> Some x)"

fun scan_flags :: "rewrite_spec \<Rightarrow> ustr list \<Rightarrow> ustr list \<Rightarrow> nat option \<Rightarrow> (ustr list \<times> nat option) option" where
  "scan_flags spec [] kept pos = Some (kept, pos)"
| "scan_flags spec (tok # rest) kept pos =
     (if tok = U ''--'' then None
      else if tok \<in> set (bool_selectors spec) then scan_flags spec rest kept (get_or_insert pos (length kept))
      else if tok \<in> set (value_selectors spec) then
        scan_flags spec (skip_value rest) kept (get_or_insert pos (length kept))
      else if flag_eq_form_in tok (value_selectors spec) then scan_flags spec rest kept (get_or_insert pos (length kept))
      else if tok \<in> set (bool_allow spec) then scan_flags spec rest (kept @ [tok]) pos
      else if tok \<in> set (value_allow spec) then
        (case rest of
           v # rest' \<Rightarrow> if \<not> starts_dash v then scan_flags spec rest' (kept @ [tok, v]) pos else None
         | [] \<Rightarrow> None)
      else if flag_eq_form_in tok (value_allow spec) then scan_flags spec rest (kept @ [tok]) pos
      else None)"

definition rewrite_flag_selector_agent :: "rewrite_spec \<Rightarrow> ustr \<Rightarrow> ustr list \<Rightarrow> ustr \<Rightarrow> ustr list option" where
  "rewrite_flag_selector_agent spec argv0 rest value =
     (case scan_flags spec rest [] None of
        None \<Rightarrow> None
      | Some (kept, pos) \<Rightarrow>
          (let at = (case pos of Some n \<Rightarrow> n | None \<Rightarrow> length kept)
           in Some ([argv0] @ take at kept @ [canonical_selector spec, value] @ drop at kept)))"

fun scan_codex :: "ustr list \<Rightarrow> ustr list \<Rightarrow> bool \<Rightarrow> ustr list option" where
  "scan_codex [] kept seen = Some kept"
| "scan_codex (tok # rest) kept seen =
     (if tok = U ''--'' then None
      else if tok = U ''--no-daemon'' then scan_codex rest kept seen
      else if tok \<in> set codex_selector_drop then scan_codex rest kept seen
      else if tok = U ''resume'' \<and> \<not> seen then scan_codex (skip_value rest) kept True
      else if tok \<in> set codex_bool_allow then scan_codex rest (kept @ [tok]) seen
      else if tok \<in> set codex_value_allow then
        (case rest of
           v # rest' \<Rightarrow> if \<not> starts_dash v then scan_codex rest' (kept @ [tok, v]) seen else None
         | [] \<Rightarrow> None)
      else if flag_eq_form_in tok codex_value_allow then scan_codex rest (kept @ [tok]) seen
      else None)"

definition rewrite_codex :: "ustr \<Rightarrow> ustr list \<Rightarrow> ustr \<Rightarrow> ustr list option" where
  "rewrite_codex argv0 rest value =
     map_option (\<lambda>kept. [argv0, U ''--no-daemon'', U ''resume'', value] @ kept) (scan_codex rest [] False)"

definition rewrite_preserving_flags :: "ustr \<Rightarrow> ustr list \<Rightarrow> agent_session_ref \<Rightarrow> ustr list option" where
  "rewrite_preserving_flags agent original r =
     (if \<not> valid_argv original \<or> \<not> argv0_matches_agent (hd original) agent then None
      else if agent = U ''claude'' then rewrite_flag_selector_agent claude_spec (hd original) (tl original) (sr_value r)
      else if agent = U ''pi'' then rewrite_flag_selector_agent pi_spec (hd original) (tl original) (sr_value r)
      else if agent = U ''codex'' then rewrite_codex (hd original) (tl original) (sr_value r)
      else None)"

definition plan :: "ustr \<Rightarrow> ustr \<Rightarrow> agent_session_ref \<Rightarrow> ustr list option \<Rightarrow> agent_resume_plan option" where
  "plan source agent r original =
     (if \<not> is_official_agent_source source agent then None
      else case canonical_resume_argv source agent r of
        None \<Rightarrow> None
      | Some canonical \<Rightarrow>
          Some \<lparr>rp_agent = agent,
            rp_argv = (case original of
                Some orig \<Rightarrow> (case rewrite_preserving_flags agent orig r of Some argv \<Rightarrow> argv | None \<Rightarrow> canonical)
              | None \<Rightarrow> canonical),
            rp_dedupe_key = dedupe_key source agent r\<rparr>)"

definition sanitized :: "ustr \<Rightarrow> ustr \<Rightarrow> agent_session_ref \<Rightarrow> ustr list \<Rightarrow> ustr list option \<Rightarrow> bool \<Rightarrow> ustr list option" where
  "sanitized source agent r canonical argv normalize_argv0 =
     (case argv of
        None \<Rightarrow> None
      | Some candidate \<Rightarrow>
          (case plan source agent r (Some candidate) of
             None \<Rightarrow> None
           | Some p \<Rightarrow>
               (if length (rp_argv p) \<le> length canonical then None
                else Some (if normalize_argv0 then (rp_argv p)[0 := agent] else rp_argv p))))"

definition persisted_resume_argv_with_observation ::
  "ustr \<Rightarrow> ustr \<Rightarrow> agent_session_ref \<Rightarrow> ustr list option \<Rightarrow> ustr list option \<Rightarrow> resume_argv_observation option \<Rightarrow>
   ustr list option \<times> resume_argv_observation option" where
  "persisted_resume_argv_with_observation source agent r foreground existing observation =
     (if agent \<noteq> U ''claude'' \<and> agent \<noteq> U ''codex'' \<and> agent \<noteq> U ''pi'' then (None, None)
      else let faithful = (agent \<noteq> U ''pi'') in
      case canonical_resume_argv source agent r of
        None \<Rightarrow> (None, observation)
      | Some canonical \<Rightarrow>
          (let key = dedupe_key source agent r;
               obs = (case observation of
                   Some cached \<Rightarrow> if observation_dedupe_key cached \<noteq> key then None else observation
                 | None \<Rightarrow> None);
               tier_a = sanitized source agent r canonical existing False
           in case sanitized source agent r canonical foreground True of
                Some argv \<Rightarrow> (Some argv, Some (Flagged key argv))
              | None \<Rightarrow>
                  (if faithful \<and> foreground \<noteq> None then (None, Some (ObservedCanonical key))
                   else if faithful \<and> obs \<noteq> None then
                     (case obs of Some (Flagged _ argv) \<Rightarrow> (Some argv, obs) | _ \<Rightarrow> (None, obs))
                   else case tier_a of
                     Some argv \<Rightarrow> (Some argv, Some (Flagged key argv))
                   | None \<Rightarrow>
                       (if \<not> faithful then
                          (case obs of Some (Flagged _ argv) \<Rightarrow> (Some argv, Some (Flagged key argv)) | _ \<Rightarrow> (None, None))
                        else (None, obs)))))"

definition persisted_resume_argv ::
  "ustr \<Rightarrow> ustr \<Rightarrow> agent_session_ref \<Rightarrow> ustr list option \<Rightarrow> ustr list option \<Rightarrow> ustr list option" where
  "persisted_resume_argv source agent r foreground existing =
     fst (persisted_resume_argv_with_observation source agent r foreground existing None)"

definition managed_resume_observation :: "agent_resume_plan \<Rightarrow> resume_argv_observation option" where
  "managed_resume_observation p =
     (if rp_agent p = U ''claude'' \<or> rp_agent p = U ''pi'' then
        (if length (rp_argv p) > 3 then Some (Flagged (rp_dedupe_key p) (rp_argv p)) else None)
      else if rp_agent p = U ''codex'' then
        (if length (rp_argv p) > 4 then Some (Flagged (rp_dedupe_key p) (rp_argv p)) else None)
      else None)"

section \<open>What an adapter promises\<close>

text \<open>
  Only recognised flags, each with its own value, make up the kept part of a command line. An
  adapter is a parser of the operator's flags together with the rendering of a resume command; its
  laws say that what it parses is allowed and taken from the original in order, and that it parses
  its own rendering back.
\<close>

fun allowed_flags :: "ustr list \<Rightarrow> ustr list \<Rightarrow> ustr list \<Rightarrow> bool" where
  "allowed_flags bs vs [] = True"
| "allowed_flags bs vs (t # ts) =
     (if t \<in> set bs then allowed_flags bs vs ts
      else if t \<in> set vs then (case ts of [] \<Rightarrow> False | v # ts' \<Rightarrow> \<not> starts_dash v \<and> allowed_flags bs vs ts')
      else flag_eq_form_in t vs \<and> allowed_flags bs vs ts)"

locale resume_adapter =
  fixes rewrite :: "ustr \<Rightarrow> ustr list \<Rightarrow> ustr \<Rightarrow> ustr list option"
    and scan :: "ustr list \<Rightarrow> 'k option"
    and render :: "'k \<Rightarrow> ustr \<Rightarrow> ustr list"
    and kept :: "'k \<Rightarrow> ustr list"
    and selector bs vs :: "ustr list"
  assumes rewrite_eq: "rewrite a rest v = map_option (\<lambda>k. a # render k v) (scan rest)"
    and scan_kept: "scan rest = Some k \<Longrightarrow> allowed_flags bs vs (kept k) \<and> subseq (kept k) rest"
    and render_kept: "\<exists>pre post. kept k = pre @ post \<and> render k v = pre @ selector @ [v] @ post"
    and rescan: "scan rest = Some k \<Longrightarrow> \<not> starts_dash v \<Longrightarrow> scan (render k v) = Some k"
begin

lemma sanitised:
  assumes "rewrite a rest v = Some out"
  shows "\<exists>pre post. out = a # pre @ selector @ [v] @ post \<and> allowed_flags bs vs (pre @ post) \<and> subseq (pre @ post) rest"
proof -
  from assms obtain k where k: "scan rest = Some k" "out = a # render k v" by (auto simp: rewrite_eq)
  obtain pre post where "kept k = pre @ post" "render k v = pre @ selector @ [v] @ post" using render_kept by blast
  with k scan_kept [OF k(1)] show ?thesis by fastforce
qed

lemma stable:
  assumes "rewrite a rest v = Some out" and "\<not> starts_dash v"
  shows "hd out = a \<and> rewrite b (tl out) v' = rewrite b rest v'"
  using assms by (auto simp: rewrite_eq rescan)

end

section \<open>The flag selector adapter\<close>

text \<open>The two specifications keep selectors and allowed flags apart.\<close>

definition spec_ok :: "rewrite_spec \<Rightarrow> bool" where
  "spec_ok sp \<longleftrightarrow>
     (\<forall>t \<in> set (bool_allow sp) \<union> set (value_allow sp).
        t \<noteq> U ''--'' \<and> 61 \<notin> set t \<and> t \<notin> set (bool_selectors sp) \<and> t \<notin> set (value_selectors sp)) \<and>
     (\<forall>t \<in> set (bool_selectors sp) \<union> set (value_selectors sp). 61 \<notin> set t) \<and>
     canonical_selector sp \<in> set (value_selectors sp) \<and> canonical_selector sp \<notin> set (bool_selectors sp) \<and>
     canonical_selector sp \<noteq> U ''--''"

lemma spec_ok_claude: "spec_ok claude_spec"
  by (simp add: spec_ok_def claude_spec_def U_def)

lemma spec_ok_pi: "spec_ok pi_spec"
  by (simp add: spec_ok_def pi_spec_def U_def)

lemma eq_form_facts:
  assumes "flag_eq_form_in t names"
  shows "61 \<in> set t" "t \<noteq> U ''--''" "takeWhile (\<lambda>c. c \<noteq> 61) t \<in> set names"
  using assms by (auto simp: flag_eq_form_in_def U_def)

lemma allowed_flags_append:
  "allowed_flags bs vs xs \<Longrightarrow> allowed_flags bs vs ys \<Longrightarrow> allowed_flags bs vs (xs @ ys)"
  by (induction bs vs xs rule: allowed_flags.induct) (auto split: list.splits if_splits)

lemma subseq_skip_value: "subseq ks (skip_value rest) \<Longrightarrow> subseq ks rest"
  by (cases rest) (auto simp: skip_value_def split: if_splits)

definition kept_split :: "rewrite_spec \<Rightarrow> nat \<Rightarrow> nat option \<Rightarrow> nat option \<Rightarrow> ustr list \<Rightarrow> bool" where
  "kept_split sp n pos pos' ks \<longleftrightarrow>
     (case pos of
        Some p \<Rightarrow> pos' = Some p
      | None \<Rightarrow> pos' = None \<or>
          (\<exists>m \<le> length ks. pos' = Some (n + m) \<and> allowed_flags (bool_allow sp) (value_allow sp) (take m ks) \<and>
             allowed_flags (bool_allow sp) (value_allow sp) (drop m ks)))"

lemma kept_split_insert:
  assumes "kept_split sp n (get_or_insert pos n) pos' ks" and "allowed_flags (bool_allow sp) (value_allow sp) ks"
  shows "kept_split sp n pos pos' ks"
  using assms by (cases pos) (auto simp: kept_split_def get_or_insert_def intro!: exI [of _ 0])

lemma kept_split_cons:
  assumes "kept_split sp (n + length g) pos pos' ks"
    and "\<And>xs. allowed_flags (bool_allow sp) (value_allow sp) xs \<Longrightarrow> allowed_flags (bool_allow sp) (value_allow sp) (g @ xs)"
  shows "kept_split sp n pos pos' (g @ ks)"
proof (cases pos)
  case None
  show ?thesis
  proof (cases pos')
    case (Some p)
    with None assms(1) obtain m where "m \<le> length ks" "p = n + length g + m"
      "allowed_flags (bool_allow sp) (value_allow sp) (take m ks)" "allowed_flags (bool_allow sp) (value_allow sp) (drop m ks)"
      by (auto simp: kept_split_def)
    with None Some assms(2) [of "take m ks"] show ?thesis
      by (auto simp: kept_split_def intro!: exI [of _ "length g + m"])
  qed (simp add: kept_split_def None)
qed (use assms in \<open>simp add: kept_split_def\<close>)

lemma scan_flags_result:
  "scan_flags sp rest kept pos = Some (kept', pos') \<Longrightarrow>
   \<exists>ks. kept' = kept @ ks \<and> allowed_flags (bool_allow sp) (value_allow sp) ks \<and> subseq ks rest \<and>
     kept_split sp (length kept) pos pos' ks"
proof (induction sp rest kept pos rule: scan_flags.induct)
  case (1 sp kept pos)
  then show ?case by (cases pos) (auto simp: kept_split_def)
next
  case (2 sp tok rest kept pos)
  consider (bsel) "tok \<noteq> U ''--''" "tok \<in> set (bool_selectors sp)"
    | (vsel) "tok \<noteq> U ''--''" "tok \<notin> set (bool_selectors sp)" "tok \<in> set (value_selectors sp)"
    | (esel) "tok \<noteq> U ''--''" "tok \<notin> set (bool_selectors sp)" "tok \<notin> set (value_selectors sp)" "flag_eq_form_in tok (value_selectors sp)"
    | (other) "tok \<noteq> U ''--''" "tok \<notin> set (bool_selectors sp)" "tok \<notin> set (value_selectors sp)" "\<not> flag_eq_form_in tok (value_selectors sp)"
    using "2.prems" by (cases "tok = U ''--''") auto
  then show ?case
  proof cases
    case bsel
    with "2.IH"(1) "2.prems" obtain ks where "kept' = kept @ ks" "allowed_flags (bool_allow sp) (value_allow sp) ks" "subseq ks rest"
      "kept_split sp (length kept) (get_or_insert pos (length kept)) pos' ks" by auto
    then show ?thesis by (intro exI [of _ ks]) (auto intro: kept_split_insert)
  next
    case vsel
    with "2.IH"(2) "2.prems" obtain ks where "kept' = kept @ ks" "allowed_flags (bool_allow sp) (value_allow sp) ks"
      "subseq ks (skip_value rest)" "kept_split sp (length kept) (get_or_insert pos (length kept)) pos' ks" by auto
    then show ?thesis by (intro exI [of _ ks]) (auto intro: kept_split_insert dest: subseq_skip_value)
  next
    case esel
    with "2.IH"(3) "2.prems" obtain ks where "kept' = kept @ ks" "allowed_flags (bool_allow sp) (value_allow sp) ks" "subseq ks rest"
      "kept_split sp (length kept) (get_or_insert pos (length kept)) pos' ks" by auto
    then show ?thesis by (intro exI [of _ ks]) (auto intro: kept_split_insert)
  next
    case other
    show ?thesis
    proof (cases "tok \<notin> set (bool_allow sp) \<and> tok \<in> set (value_allow sp)")
      case True
      with other "2.prems" obtain v rest' where r: "rest = v # rest'" "\<not> starts_dash v"
        by (auto split: list.splits if_splits)
      with True other "2.IH"(5) [of v rest'] "2.prems" obtain ks where ks: "kept' = (kept @ [tok, v]) @ ks"
        "allowed_flags (bool_allow sp) (value_allow sp) ks" "subseq ks rest'" "kept_split sp (length kept + 2) pos pos' ks"
        by auto
      have "kept_split sp (length kept) pos pos' ([tok, v] @ ks)"
        by (rule kept_split_cons) (use ks True r in auto)
      with ks r True show ?thesis by (intro exI [of _ "[tok, v] @ ks"]) auto
    next
      case False
      with other "2.prems" "2.IH"(4,6) obtain ks where ks: "kept' = (kept @ [tok]) @ ks"
        "allowed_flags (bool_allow sp) (value_allow sp) ks" "subseq ks rest" "kept_split sp (length kept + 1) pos pos' ks"
        and tok: "tok \<in> set (bool_allow sp) \<or> tok \<notin> set (value_allow sp) \<and> flag_eq_form_in tok (value_allow sp)"
        by (auto split: if_splits)
      have "kept_split sp (length kept) pos pos' ([tok] @ ks)"
        by (rule kept_split_cons) (use ks tok in auto)
      with ks tok show ?thesis by (intro exI [of _ "[tok] @ ks"]) auto
    qed
  qed
qed

lemma scan_flags_allowed:
  assumes "spec_ok sp"
  shows "allowed_flags (bool_allow sp) (value_allow sp) ks \<Longrightarrow>
    scan_flags sp (ks @ rest) kept pos = scan_flags sp rest (kept @ ks) pos"
proof (induction "bool_allow sp" "value_allow sp" ks arbitrary: kept rule: allowed_flags.induct)
  case (2 t ts)
  have t: "t \<noteq> U ''--'' \<and> t \<notin> set (bool_selectors sp) \<and> t \<notin> set (value_selectors sp) \<and> \<not> flag_eq_form_in t (value_selectors sp)"
  proof (cases "t \<in> set (bool_allow sp) \<or> t \<in> set (value_allow sp)")
    case True
    with assms show ?thesis by (auto simp: spec_ok_def flag_eq_form_in_def)
  next
    case False
    with 2 have eq: "flag_eq_form_in t (value_allow sp)" by auto
    from eq_form_facts [OF eq] assms show ?thesis by (auto simp: spec_ok_def flag_eq_form_in_def)
  qed
  show ?case
  proof (cases "t \<notin> set (bool_allow sp) \<and> t \<in> set (value_allow sp)")
    case True
    with 2 obtain v ts' where "ts = v # ts'" "\<not> starts_dash v" by (auto split: list.splits)
    with True t 2 show ?thesis by auto
  next
    case False
    with 2 t show ?thesis by (auto split: if_splits)
  qed
qed simp

definition scan_selector :: "rewrite_spec \<Rightarrow> ustr list \<Rightarrow> (ustr list \<times> nat) option" where
  "scan_selector sp rest =
     map_option (\<lambda>(kept, pos). (kept, case pos of Some n \<Rightarrow> n | None \<Rightarrow> length kept)) (scan_flags sp rest [] None)"

definition render_selector :: "rewrite_spec \<Rightarrow> ustr list \<times> nat \<Rightarrow> ustr \<Rightarrow> ustr list" where
  "render_selector sp k v = take (snd k) (fst k) @ [canonical_selector sp, v] @ drop (snd k) (fst k)"

lemma scan_selector_split:
  assumes "scan_selector sp rest = Some k"
  shows "allowed_flags (bool_allow sp) (value_allow sp) (fst k)" "subseq (fst k) rest"
    "allowed_flags (bool_allow sp) (value_allow sp) (take (snd k) (fst k))"
    "allowed_flags (bool_allow sp) (value_allow sp) (drop (snd k) (fst k))" "snd k \<le> length (fst k)"
proof -
  from assms obtain kept pos where s: "scan_flags sp rest [] None = Some (kept, pos)"
    and k: "k = (kept, case pos of Some n \<Rightarrow> n | None \<Rightarrow> length kept)" by (auto simp: scan_selector_def)
  from scan_flags_result [OF s] k
  show "allowed_flags (bool_allow sp) (value_allow sp) (fst k)" "subseq (fst k) rest"
    "allowed_flags (bool_allow sp) (value_allow sp) (take (snd k) (fst k))"
    "allowed_flags (bool_allow sp) (value_allow sp) (drop (snd k) (fst k))" "snd k \<le> length (fst k)"
    by (auto simp: kept_split_def split: option.splits)
qed

lemma scan_selector_render:
  assumes "spec_ok sp" and "scan_selector sp rest = Some k" and "\<not> starts_dash v"
  shows "scan_selector sp (render_selector sp k v) = Some k"
proof -
  let ?pre = "take (snd k) (fst k)" and ?post = "drop (snd k) (fst k)"
  have c: "canonical_selector sp \<noteq> U ''--''" "canonical_selector sp \<notin> set (bool_selectors sp)"
    "canonical_selector sp \<in> set (value_selectors sp)" using assms(1) by (simp_all add: spec_ok_def)
  have "scan_flags sp (?pre @ [canonical_selector sp, v] @ ?post) [] None
      = scan_flags sp (canonical_selector sp # v # ?post) ?pre None"
    using scan_flags_allowed [OF assms(1) scan_selector_split(3) [OF assms(2)]] by simp
  also have "\<dots> = scan_flags sp ?post ?pre (Some (length ?pre))"
    using c assms(3) by (simp add: skip_value_def get_or_insert_def)
  also have "\<dots> = Some (fst k, Some (length ?pre))"
    using scan_flags_allowed [OF assms(1) scan_selector_split(4) [OF assms(2)], of "[]"] by simp
  finally show ?thesis
    using scan_selector_split(5) [OF assms(2)] by (simp add: scan_selector_def render_selector_def min_def)
qed

lemma rewrite_flag_selector_eq:
  "rewrite_flag_selector_agent sp a rest v = map_option (\<lambda>k. a # render_selector sp k v) (scan_selector sp rest)"
  by (simp add: rewrite_flag_selector_agent_def scan_selector_def render_selector_def Let_def split: option.splits prod.splits)

lemma flag_selector_adapter:
  assumes "spec_ok sp"
  shows "resume_adapter (rewrite_flag_selector_agent sp) (scan_selector sp) (render_selector sp) fst
    [canonical_selector sp] (bool_allow sp) (value_allow sp)"
proof
  fix k :: "ustr list \<times> nat" and v
  show "\<exists>pre post. fst k = pre @ post \<and> render_selector sp k v = pre @ [canonical_selector sp] @ [v] @ post"
    by (intro exI [of _ "take (snd k) (fst k)"] exI [of _ "drop (snd k) (fst k)"]) (simp add: render_selector_def)
qed (use assms scan_selector_split(1,2) scan_selector_render rewrite_flag_selector_eq in auto)

interpretation claude: resume_adapter "rewrite_flag_selector_agent claude_spec" "scan_selector claude_spec"
  "render_selector claude_spec" fst "[canonical_selector claude_spec]" "bool_allow claude_spec" "value_allow claude_spec"
  by (rule flag_selector_adapter [OF spec_ok_claude])

interpretation pi: resume_adapter "rewrite_flag_selector_agent pi_spec" "scan_selector pi_spec"
  "render_selector pi_spec" fst "[canonical_selector pi_spec]" "bool_allow pi_spec" "value_allow pi_spec"
  by (rule flag_selector_adapter [OF spec_ok_pi])

section \<open>The codex adapter\<close>

text \<open>\<open>--no-daemon\<close> is dropped before the allow list is consulted, so it is never kept.\<close>

definition codex_kept_bools :: "ustr list" where
  "codex_kept_bools = removeAll (U ''--no-daemon'') codex_bool_allow"

lemma codex_tokens:
  "t \<in> set codex_bool_allow \<union> set codex_value_allow \<Longrightarrow>
     t \<noteq> U ''--'' \<and> t \<noteq> U ''resume'' \<and> t \<notin> set codex_selector_drop \<and> 61 \<notin> set t"
  "U ''--no-daemon'' \<notin> set codex_value_allow"
  "t \<in> set codex_selector_drop \<Longrightarrow> 61 \<notin> set t"
  by (auto simp: codex_bool_allow_def codex_value_allow_def codex_selector_drop_def U_def)

lemma eq_form_codex:
  assumes "flag_eq_form_in t vs"
  shows "t \<noteq> U ''--''" "t \<noteq> U ''--no-daemon''" "t \<notin> set codex_selector_drop" "t \<noteq> U ''resume''" "t \<notin> set codex_bool_allow"
    "t \<notin> set codex_value_allow"
  using eq_form_facts(1) [OF assms] by (auto simp: codex_bool_allow_def codex_value_allow_def codex_selector_drop_def U_def)

lemma scan_codex_result:
  "scan_codex rest kept seen = Some kept' \<Longrightarrow>
   \<exists>ks. kept' = kept @ ks \<and> allowed_flags codex_kept_bools codex_value_allow ks \<and> subseq ks rest"
proof (induction rest kept seen rule: scan_codex.induct)
  case (2 tok rest kept seen)
  consider (drop) "tok \<noteq> U ''--''" "tok = U ''--no-daemon'' \<or> tok \<in> set codex_selector_drop"
    | (sub) "tok \<noteq> U ''--''" "tok \<noteq> U ''--no-daemon''" "tok \<notin> set codex_selector_drop" "tok = U ''resume''" "\<not> seen"
    | (other) "tok \<noteq> U ''--''" "tok \<noteq> U ''--no-daemon''" "tok \<notin> set codex_selector_drop" "\<not> (tok = U ''resume'' \<and> \<not> seen)"
    using "2.prems" by (cases "tok = U ''--''") auto
  then show ?case
  proof cases
    case drop
    with "2.IH"(1,2) "2.prems" obtain ks where "kept' = kept @ ks" "allowed_flags codex_kept_bools codex_value_allow ks" "subseq ks rest"
      by (auto split: if_splits)
    then show ?thesis by auto
  next
    case sub
    with "2.IH"(3) "2.prems" obtain ks where "kept' = kept @ ks" "allowed_flags codex_kept_bools codex_value_allow ks"
      "subseq ks (skip_value rest)" by auto
    then show ?thesis by (intro exI [of _ ks]) (auto dest: subseq_skip_value)
  next
    case other
    show ?thesis
    proof (cases "tok \<notin> set codex_bool_allow \<and> tok \<in> set codex_value_allow")
      case True
      with other "2.prems" obtain v rest' where r: "rest = v # rest'" "\<not> starts_dash v"
        by (auto split: list.splits if_splits)
      with True other "2.IH"(5) [of v rest'] "2.prems" obtain ks where ks: "kept' = (kept @ [tok, v]) @ ks"
        "allowed_flags codex_kept_bools codex_value_allow ks" "subseq ks rest'" by auto
      with r True show ?thesis by (intro exI [of _ "[tok, v] @ ks"]) (auto simp: codex_kept_bools_def)
    next
      case False
      have tok: "tok \<in> set codex_bool_allow \<or> tok \<notin> set codex_value_allow \<and> flag_eq_form_in tok codex_value_allow"
        using False other "2.prems" by (auto split: if_splits)
      then have "scan_codex rest (kept @ [tok]) seen = Some kept'"
        using False other "2.prems" by (auto split: if_splits)
      with False other tok "2.IH"(4,6) obtain ks where ks: "kept' = (kept @ [tok]) @ ks"
        "allowed_flags codex_kept_bools codex_value_allow ks" "subseq ks rest" by (cases "tok \<in> set codex_bool_allow") auto
      with tok other show ?thesis by (intro exI [of _ "[tok] @ ks"]) (auto simp: codex_kept_bools_def)
    qed
  qed
qed simp

lemma scan_codex_allowed:
  "allowed_flags codex_kept_bools codex_value_allow ks \<Longrightarrow> scan_codex (ks @ rest) kept seen = scan_codex rest (kept @ ks) seen"
proof (induction codex_kept_bools codex_value_allow ks arbitrary: kept rule: allowed_flags.induct)
  case (2 t ts)
  consider (b) "t \<in> set codex_bool_allow" "t \<noteq> U ''--no-daemon''"
    | (v) "t \<notin> set codex_bool_allow" "t \<in> set codex_value_allow"
    | (e) "flag_eq_form_in t codex_value_allow"
    using 2 codex_tokens(2) by (auto simp: codex_kept_bools_def split: if_splits)
  then show ?case
  proof cases
    case b
    with 2 codex_tokens(1) [of t] show ?thesis by (auto simp: codex_kept_bools_def)
  next
    case v
    then have "t \<notin> set codex_kept_bools" "t \<noteq> U ''--no-daemon''" using codex_tokens(2) by (auto simp: codex_kept_bools_def)
    with v 2 obtain x ts' where "ts = x # ts'" "\<not> starts_dash x" by (auto split: list.splits)
    with v 2 codex_tokens(1) [of t] \<open>t \<notin> set codex_kept_bools\<close> \<open>t \<noteq> U ''--no-daemon''\<close> show ?thesis by auto
  next
    case e
    from 2 e eq_form_codex [OF e] show ?thesis by (auto simp: codex_kept_bools_def)
  qed
qed simp

interpretation codex: resume_adapter rewrite_codex "\<lambda>rest. scan_codex rest [] False"
  "\<lambda>kept v. [U ''--no-daemon'', U ''resume'', v] @ kept" "\<lambda>kept. kept" "[U ''--no-daemon'', U ''resume'']" codex_kept_bools codex_value_allow
proof
  fix rest k and v :: ustr
  assume s: "scan_codex rest [] False = Some k"
  show "allowed_flags codex_kept_bools codex_value_allow k \<and> subseq k rest" using scan_codex_result [OF s] by auto
  assume "\<not> starts_dash v"
  moreover have "U ''--no-daemon'' \<noteq> U ''--''" "U ''resume'' \<noteq> U ''--''" "U ''resume'' \<noteq> U ''--no-daemon''"
    "U ''resume'' \<notin> set codex_selector_drop" by (simp_all add: U_def codex_selector_drop_def)
  ultimately have "scan_codex ([U ''--no-daemon'', U ''resume'', v] @ k) [] False = scan_codex k [] True"
    by (simp add: skip_value_def)
  also have "\<dots> = Some k"
    using scan_codex_allowed [of k "[]" "[]" True] scan_codex_result [OF s] by auto
  finally show "scan_codex ([U ''--no-daemon'', U ''resume'', v] @ k) [] False = Some k" .
next
  fix k :: "ustr list" and v
  show "\<exists>pre post. k = pre @ post \<and> [U ''--no-daemon'', U ''resume'', v] @ k = pre @ [U ''--no-daemon'', U ''resume''] @ [v] @ post"
    by (intro exI [of _ "[]"] exI [of _ k]) simp
qed (simp add: rewrite_codex_def)

section \<open>Properties\<close>

text \<open>The flags that may survive a restart of each agent, and the tokens the program injects itself.\<close>

definition resume_selector :: "ustr \<Rightarrow> ustr list" where
  "resume_selector agent = (if agent = U ''claude'' then [U ''--resume''] else if agent = U ''pi'' then [U ''--session'']
     else [U ''--no-daemon'', U ''resume''])"

definition resume_flags :: "ustr \<Rightarrow> ustr list \<Rightarrow> bool" where
  "resume_flags agent = (if agent = U ''claude'' then allowed_flags (bool_allow claude_spec) (value_allow claude_spec)
     else if agent = U ''pi'' then allowed_flags (bool_allow pi_spec) (value_allow pi_spec)
     else allowed_flags codex_kept_bools codex_value_allow)"

definition sanitised_argv :: "ustr \<Rightarrow> ustr list \<Rightarrow> ustr list \<Rightarrow> ustr \<Rightarrow> bool" where
  "sanitised_argv agent original argv value \<longleftrightarrow>
     (\<exists>pre post. argv = hd original # pre @ resume_selector agent @ [value] @ post \<and>
        resume_flags agent (pre @ post) \<and> subseq (pre @ post) (tl original))"

lemma agent_names_distinct: "U ''pi'' \<noteq> U ''claude''" "U ''codex'' \<noteq> U ''claude''" "U ''codex'' \<noteq> U ''pi''"
  by (simp_all add: U_def)

lemma rewrite_cases:
  assumes "rewrite_preserving_flags agent original r = Some argv"
  obtains "valid_argv original" "argv0_matches_agent (hd original) agent" "agent = U ''claude''"
      "rewrite_flag_selector_agent claude_spec (hd original) (tl original) (sr_value r) = Some argv"
    | "valid_argv original" "argv0_matches_agent (hd original) agent" "agent = U ''pi''"
      "rewrite_flag_selector_agent pi_spec (hd original) (tl original) (sr_value r) = Some argv"
    | "valid_argv original" "argv0_matches_agent (hd original) agent" "agent = U ''codex''"
      "rewrite_codex (hd original) (tl original) (sr_value r) = Some argv"
  using assms by (auto simp: rewrite_preserving_flags_def split: if_splits)

lemma rewrite_sanitised:
  assumes "rewrite_preserving_flags agent original r = Some argv"
  shows "sanitised_argv agent original argv (sr_value r)"
  using assms
proof (cases rule: rewrite_cases)
  case 1
  have "resume_selector agent = [canonical_selector claude_spec]" "resume_flags agent = allowed_flags (bool_allow claude_spec) (value_allow claude_spec)"
    using 1 by (simp_all add: resume_selector_def resume_flags_def claude_spec_def)
  with claude.sanitised [OF 1(4)] show ?thesis by (simp add: sanitised_argv_def)
next
  case 2
  have "resume_selector agent = [canonical_selector pi_spec]" "resume_flags agent = allowed_flags (bool_allow pi_spec) (value_allow pi_spec)"
    using 2 agent_names_distinct by (simp_all add: resume_selector_def resume_flags_def pi_spec_def)
  with pi.sanitised [OF 2(4)] show ?thesis by (simp add: sanitised_argv_def)
next
  case 3
  have "resume_selector agent = [U ''--no-daemon'', U ''resume'']" "resume_flags agent = allowed_flags codex_kept_bools codex_value_allow"
    using 3 agent_names_distinct by (simp_all add: resume_selector_def resume_flags_def)
  with codex.sanitised [OF 3(4)] show ?thesis by (simp add: sanitised_argv_def)
qed


text \<open>
  Restarts do not erode the command line: rewriting an already rewritten command for another
  session gives what rewriting the original would have given, so flags survive any number of
  restarts and no stale session is left behind. It holds when the first session name does not look
  like a flag and the rewritten command is still short enough to be considered.
\<close>

theorem resume_rewrite_stable:
  assumes "rewrite_preserving_flags agent original r1 = Some argv" and "\<not> starts_dash (sr_value r1)" and "valid_argv argv"
  shows "rewrite_preserving_flags agent argv r2 = rewrite_preserving_flags agent original r2"
  using assms(1)
proof (cases rule: rewrite_cases)
  case 1
  from claude.stable [OF 1(4) assms(2)] 1 assms(3) show ?thesis by (simp add: rewrite_preserving_flags_def)
next
  case 2
  from pi.stable [OF 2(4) assms(2)] 2 assms(3) agent_names_distinct show ?thesis by (simp add: rewrite_preserving_flags_def)
next
  case 3
  from codex.stable [OF 3(4) assms(2)] 3 assms(3) agent_names_distinct show ?thesis by (simp add: rewrite_preserving_flags_def)
qed

text \<open>A vetted command and a cached observation that holds one for the session it is cached for.\<close>

definition vetted_argv :: "ustr \<Rightarrow> ustr \<Rightarrow> ustr list \<Rightarrow> bool" where
  "vetted_argv agent value argv \<longleftrightarrow>
     (\<exists>a pre post. argv = a # pre @ resume_selector agent @ [value] @ post \<and> file_name a = Some agent \<and>
        resume_flags agent (pre @ post) \<and> pre @ post \<noteq> [])"

definition vetted_observation :: "ustr \<Rightarrow> ustr \<Rightarrow> agent_session_ref \<Rightarrow> resume_argv_observation option \<Rightarrow> bool" where
  "vetted_observation source agent r obs \<longleftrightarrow>
     (\<forall>argv. obs = Some (Flagged (dedupe_key source agent r) argv) \<longrightarrow> vetted_argv agent (sr_value r) argv)"

lemma canonical_length:
  assumes "canonical_resume_argv source agent r = Some canonical"
    and "agent = U ''claude'' \<or> agent = U ''codex'' \<or> agent = U ''pi''"
  shows "length canonical = length (resume_selector agent) + 2"
  using assms by (auto simp: canonical_resume_argv_def resume_selector_def U_def Let_def split: if_splits)

lemma agent_file_name: "file_name (U ''claude'') = Some (U ''claude'')" "file_name (U ''codex'') = Some (U ''codex'')"
  "file_name (U ''pi'') = Some (U ''pi'')"
  by (simp_all add: file_name_def U_def)

lemma sanitized_vetted:
  assumes "sanitized source agent r canonical cand norm = Some argv"
    and c: "canonical_resume_argv source agent r = Some canonical"
    and agent: "agent = U ''claude'' \<or> agent = U ''codex'' \<or> agent = U ''pi''"
  shows "vetted_argv agent (sr_value r) argv"
proof -
  from assms(1) obtain orig p where p: "cand = Some orig" "plan source agent r (Some orig) = Some p"
    "length canonical < length (rp_argv p)" "argv = (if norm then (rp_argv p)[0 := agent] else rp_argv p)"
    by (auto simp: sanitized_def split: option.splits if_splits)
  then obtain out where "rewrite_preserving_flags agent orig r = Some out" "rp_argv p = out"
    using c by (auto simp: plan_def split: if_splits option.splits)
  then have rw: "rewrite_preserving_flags agent orig r = Some (rp_argv p)" by simp
  then have f: "file_name (hd orig) = Some agent"
    by (auto simp: rewrite_preserving_flags_def argv0_matches_agent_def split: if_splits)
  from rewrite_sanitised [OF rw] obtain pre post where s: "rp_argv p = hd orig # pre @ resume_selector agent @ [sr_value r] @ post"
    "resume_flags agent (pre @ post)" by (auto simp: sanitised_argv_def)
  have "pre @ post \<noteq> []" using s(1) p(3) canonical_length [OF c agent] by auto
  moreover have "\<exists>a. argv = a # pre @ resume_selector agent @ [sr_value r] @ post \<and> file_name a = Some agent"
    using p(4) s(1) f agent agent_file_name by (cases norm) auto
  ultimately show ?thesis using s(2) unfolding vetted_argv_def by blast
qed

text \<open>
  What is written to the session snapshot is vetted too: whatever the foreground process and
  the recorded launch command are, a persisted command for claude, codex or pi keeps at least one
  recognised flag and only recognised flags, other agents persist none, and the cached observation
  only ever holds vetted commands of its own session.
\<close>

theorem persisted_argv_vetted:
  assumes "vetted_observation source agent r obs"
    and "persisted_resume_argv_with_observation source agent r foreground existing obs = (res, obs')"
  shows "(\<forall>argv. res = Some argv \<longrightarrow> vetted_argv agent (sr_value r) argv) \<and> vetted_observation source agent r obs'"
proof (cases "agent = U ''claude'' \<or> agent = U ''codex'' \<or> agent = U ''pi''")
  case agent: True
  show ?thesis
  proof (cases "canonical_resume_argv source agent r")
    case None
    with agent assms show ?thesis by (auto simp: persisted_resume_argv_with_observation_def split: if_splits)
  next
    case (Some canonical)
    note v = sanitized_vetted [OF _ Some agent]
    define key where "key = dedupe_key source agent r"
    have obs: "vetted_argv agent (sr_value r) argv" if "obs = Some (Flagged key argv)" for argv
      using assms(1) that by (simp add: vetted_observation_def key_def)
    show ?thesis
      using assms(2) agent Some v obs
      unfolding persisted_resume_argv_with_observation_def vetted_observation_def Let_def key_def [symmetric]
      by (auto split: if_splits option.splits resume_argv_observation.splits)
  qed
next
  case False
  with assms show ?thesis by (auto simp: persisted_resume_argv_with_observation_def vetted_observation_def)
qed

definition sample_argv :: "ustr list" where
  "sample_argv = [U ''/usr/bin/claude'', U ''--model'', U ''opus'', U ''--resume'', U ''old'', U ''--safe-mode'']"

lemma sample_rewrite:
  "rewrite_preserving_flags (U ''claude'') sample_argv \<lparr>sr_kind = Id, sr_value = U ''new''\<rparr>
    = Some [U ''/usr/bin/claude'', U ''--model'', U ''opus'', U ''--resume'', U ''new'', U ''--safe-mode'']"
  by code_simp


theorem resume_rewrite_stable_witness:
  "rewrite_preserving_flags (U ''claude'') [U ''/usr/bin/claude'', U ''--model'', U ''opus'', U ''--resume'', U ''new'', U ''--safe-mode'']
      \<lparr>sr_kind = Id, sr_value = U ''next''\<rparr>
    = rewrite_preserving_flags (U ''claude'') sample_argv \<lparr>sr_kind = Id, sr_value = U ''next''\<rparr>"
proof (rule resume_rewrite_stable [OF sample_rewrite])
  show "\<not> starts_dash (sr_value \<lparr>sr_kind = Id, sr_value = U ''new''\<rparr>)" by code_simp
  show "valid_argv [U ''/usr/bin/claude'', U ''--model'', U ''opus'', U ''--resume'', U ''new'', U ''--safe-mode'']" by code_simp
qed

theorem persisted_argv_vetted_witness:
  "case persisted_resume_argv_with_observation (U ''zynk:claude'') (U ''claude'') \<lparr>sr_kind = Id, sr_value = U ''new''\<rparr>
      (Some sample_argv) None None of
     (res, obs) \<Rightarrow> res = Some [U ''claude'', U ''--model'', U ''opus'', U ''--resume'', U ''new'', U ''--safe-mode''] \<and>
       vetted_argv (U ''claude'') (U ''new'') [U ''claude'', U ''--model'', U ''opus'', U ''--resume'', U ''new'', U ''--safe-mode'']"
proof -
  let ?argv = "[U ''claude'', U ''--model'', U ''opus'', U ''--resume'', U ''new'', U ''--safe-mode'']"
  let ?r = "\<lparr>sr_kind = Id, sr_value = U ''new''\<rparr>"
  have "fst (persisted_resume_argv_with_observation (U ''zynk:claude'') (U ''claude'') ?r (Some sample_argv) None None) = Some ?argv"
    by code_simp
  then obtain obs' where run: "persisted_resume_argv_with_observation (U ''zynk:claude'') (U ''claude'') ?r (Some sample_argv) None None
      = (Some ?argv, obs')" by (metis prod.collapse)
  have "vetted_observation (U ''zynk:claude'') (U ''claude'') ?r None" by (simp add: vetted_observation_def)
  from persisted_argv_vetted [OF this run] show ?thesis unfolding run by simp
qed

end
