(* ===== verification/Hook_Fence.thy ===== *)
theory Hook_Fence
  imports Agent_Resume "HOL-Library.Multiset"
begin

text \<open>
  The retirement fences of hook owners (\<open>terminal/state.rs\<close>): a suppressed owner and a stale session
  with the evidence that its process is alive again. Observations reach the program out of order,
  so each carries the instant of its capture; a fence only ever keeps the newest of each kind.
  An \<open>Instant\<close> is a number of nanoseconds.
\<close>

type_synonym instant = int
type_synonym duration = nat

datatype hook_suppression_reason = HookClear | ProcessExit

record suppressed_hook_report =
  su_agent_label :: ustr
  su_session_ref :: "agent_session_ref option"
  su_observed_at :: instant
  su_last_loss :: "instant option"
  su_reason :: hook_suppression_reason

definition suppressed_observe_process_loss :: "instant \<Rightarrow> suppressed_hook_report \<Rightarrow> suppressed_hook_report" where
  "suppressed_observe_process_loss observed_at s =
     (if (case su_last_loss s of None \<Rightarrow> True | Some lost_at \<Rightarrow> lost_at < observed_at)
      then s\<lparr>su_last_loss := Some observed_at\<rparr> else s)"

record stale_hook_session =
  st_agent_label :: ustr
  st_session_ref :: agent_session_ref
  st_evidence :: "instant option"
  st_last_loss :: "instant option"
  st_retired_at :: instant

definition evidence_boundary :: "stale_hook_session \<Rightarrow> instant" where
  "evidence_boundary s =
     (case st_last_loss s of None \<Rightarrow> st_retired_at s | Some lost_at \<Rightarrow> max lost_at (st_retired_at s))"

definition observe_retirement :: "instant \<Rightarrow> stale_hook_session \<Rightarrow> stale_hook_session" where
  "observe_retirement observed_at s =
     (let s1 = (if st_retired_at s < observed_at then s\<lparr>st_retired_at := observed_at\<rparr> else s)
      in if (case st_evidence s1 of Some recorded_at \<Rightarrow> recorded_at \<le> evidence_boundary s1 | None \<Rightarrow> False)
         then s1\<lparr>st_evidence := None\<rparr> else s1)"

definition record_fresh_process_evidence :: "instant \<Rightarrow> stale_hook_session \<Rightarrow> stale_hook_session" where
  "record_fresh_process_evidence observed_at s =
     (if observed_at \<le> evidence_boundary s then s
      else if (case st_evidence s of None \<Rightarrow> True | Some recorded_at \<Rightarrow> recorded_at < observed_at)
      then s\<lparr>st_evidence := Some observed_at\<rparr> else s)"

definition observe_process_loss :: "instant \<Rightarrow> stale_hook_session \<Rightarrow> stale_hook_session" where
  "observe_process_loss observed_at s =
     (let s1 = (if (case st_last_loss s of None \<Rightarrow> True | Some lost_at \<Rightarrow> lost_at < observed_at)
           then s\<lparr>st_last_loss := Some observed_at\<rparr> else s)
      in if (case st_evidence s1 of Some recorded_at \<Rightarrow> recorded_at \<le> observed_at | None \<Rightarrow> False)
         then s1\<lparr>st_evidence := None\<rparr> else s1)"

definition has_reclaimable_process_evidence :: "stale_hook_session \<Rightarrow> bool" where
  "has_reclaimable_process_evidence s =
     (case st_evidence s of Some recorded_at \<Rightarrow> evidence_boundary s < recorded_at | None \<Rightarrow> False)"

section \<open>Observations in any order\<close>

datatype observation = Retired instant | Running instant | Lost instant

fun observe :: "observation \<Rightarrow> stale_hook_session \<Rightarrow> stale_hook_session" where
  "observe (Retired t) s = observe_retirement t s"
| "observe (Running t) s = record_fresh_process_evidence t s"
| "observe (Lost t) s = observe_process_loss t s"

text \<open>Evidence is held only while it is newer than every retirement and loss.\<close>

definition stale_ok :: "stale_hook_session \<Rightarrow> bool" where
  "stale_ok s \<longleftrightarrow> (case st_evidence s of Some t \<Rightarrow> evidence_boundary s < t | None \<Rightarrow> True)"

text \<open>
  The reference: collect the newest of each kind, then decide once at the end. \<open>newest\<close> folds a
  maximum over an optional start value.
\<close>

fun newer :: "instant \<Rightarrow> instant option \<Rightarrow> instant option" where
  "newer t None = Some t"
| "newer t (Some u) = Some (max u t)"

definition retirements :: "observation list \<Rightarrow> instant list" where
  "retirements os = List.map_filter (\<lambda>e. case e of Retired t \<Rightarrow> Some t | _ \<Rightarrow> None) os"

definition runs :: "observation list \<Rightarrow> instant list" where
  "runs os = List.map_filter (\<lambda>e. case e of Running t \<Rightarrow> Some t | _ \<Rightarrow> None) os"

definition losses :: "observation list \<Rightarrow> instant list" where
  "losses os = List.map_filter (\<lambda>e. case e of Lost t \<Rightarrow> Some t | _ \<Rightarrow> None) os"

lemma kinds_simps [simp]:
  "retirements [] = []" "retirements (e # os) = (case e of Retired t \<Rightarrow> t # retirements os | _ \<Rightarrow> retirements os)"
  "runs [] = []" "runs (e # os) = (case e of Running t \<Rightarrow> t # runs os | _ \<Rightarrow> runs os)"
  "losses [] = []" "losses (e # os) = (case e of Lost t \<Rightarrow> t # losses os | _ \<Rightarrow> losses os)"
  by (simp_all add: retirements_def runs_def losses_def List.map_filter_simps split: observation.splits)

lemma set_kinds [simp]:
  "set (retirements os) = {t. Retired t \<in> set os}" "set (runs os) = {t. Running t \<in> set os}"
  "set (losses os) = {t. Lost t \<in> set os}"
  by (induction os) (auto split: observation.splits)

lemma mset_kinds:
  assumes "mset os = mset os'"
  shows "mset (retirements os) = mset (retirements os')" "mset (runs os) = mset (runs os')" "mset (losses os) = mset (losses os')"
  using assms by (simp_all add: retirements_def runs_def losses_def List.map_filter_def)

definition newest :: "instant option \<Rightarrow> instant list \<Rightarrow> instant option" where
  "newest m ts = fold newer ts m"

definition beyond :: "instant \<Rightarrow> instant option \<Rightarrow> instant option" where
  "beyond b m = (case m of Some t \<Rightarrow> if b < t then Some t else None | None \<Rightarrow> None)"

definition bound :: "instant option \<Rightarrow> instant \<Rightarrow> instant" where
  "bound l r = (case l of None \<Rightarrow> r | Some lost_at \<Rightarrow> max lost_at r)"

definition settle :: "observation list \<Rightarrow> stale_hook_session \<Rightarrow> stale_hook_session" where
  "settle os s =
     (let r = fold max (retirements os) (st_retired_at s); l = newest (st_last_loss s) (losses os)
      in s\<lparr>st_retired_at := r, st_last_loss := l, st_evidence := beyond (bound l r) (newest (st_evidence s) (runs os))\<rparr>)"

lemma evidence_boundary_bound: "evidence_boundary s = bound (st_last_loss s) (st_retired_at s)"
  by (simp add: evidence_boundary_def bound_def)

lemma newer_newer: "newer t (newer u m) = newer u (newer t m)"
  by (cases m) (auto simp: max_def)

lemma newest_newer: "newest (newer t m) ts = newer t (newest m ts)"
  unfolding newest_def by (induction ts arbitrary: m) (simp_all, metis newer_newer)

lemma beyond_newer: "t \<le> b \<Longrightarrow> beyond b (newer t m) = beyond b m"
  by (cases m) (auto simp: beyond_def max_def)

lemma fold_max: "x \<le> fold max ts (x :: int)" "fold max ts (max x y) = max (fold max ts x) y"
proof -
  show step: "fold max ts (max x y) = max (fold max ts x) (y :: int)" for y
    by (induction ts arbitrary: x) (simp_all add: max.assoc [symmetric])
  show "x \<le> fold max ts x" using step [of x] by (simp add: max_def split: if_splits)
qed

lemma newest_Some: "newest (Some x) ts = Some (fold max ts x)"
  unfolding newest_def by (induction ts arbitrary: x) (auto simp: max.commute)

lemma observe_ok: "stale_ok s \<Longrightarrow> stale_ok (observe e s)"
  by (cases e) (auto simp: stale_ok_def observe_retirement_def record_fresh_process_evidence_def observe_process_loss_def
      evidence_boundary_def Let_def split: option.splits if_splits)

lemma beyond_idem: "b \<le> c \<Longrightarrow> beyond c (newest (beyond b m) ts) = beyond c (newest m ts)"
  using beyond_newer newest_newer [of _ None ts] by (cases m) (auto simp: beyond_def [of b])

lemma bound_mono: "r \<le> r' \<Longrightarrow> bound l r \<le> bound (newest l ts) (r' :: int)"
  using fold_max(1) [of _ ts] by (cases l) (auto simp: bound_def newest_Some max.coboundedI1 max.coboundedI2 split: option.splits)

text \<open>The three operations in the terms of the reference.\<close>

lemma observe_retirement_eq:
  assumes "stale_ok s"
  shows "observe_retirement t s = s\<lparr>st_retired_at := max (st_retired_at s) t,
    st_evidence := beyond (bound (st_last_loss s) (max (st_retired_at s) t)) (st_evidence s)\<rparr>"
  using assms by (auto simp: observe_retirement_def stale_ok_def beyond_def evidence_boundary_bound max_def split: option.splits)

lemma observe_process_loss_eq:
  "observe_process_loss t s = s\<lparr>st_last_loss := newer t (st_last_loss s), st_evidence := beyond t (st_evidence s)\<rparr>"
  by (cases "st_last_loss s"; cases "st_evidence s") (auto simp: observe_process_loss_def beyond_def max_def)

lemma record_fresh_process_evidence_eq:
  "record_fresh_process_evidence t s =
     (if t \<le> evidence_boundary s then s else s\<lparr>st_evidence := newer t (st_evidence s)\<rparr>)"
  by (cases "st_evidence s") (auto simp: record_fresh_process_evidence_def max_def)

text \<open>One observation can be taken before or after the rest.\<close>

lemma settle_observe:
  assumes "stale_ok s"
  shows "settle (e # os) s = settle os (observe e s)"
proof (cases e)
  case (Retired t)
  let ?r = "max (st_retired_at s) t"
  have "bound (st_last_loss s) ?r \<le> bound (newest (st_last_loss s) (losses os)) (fold max (retirements os) ?r)"
    by (rule bound_mono) (rule fold_max(1))
  from beyond_idem [OF this] show ?thesis
    by (simp add: Retired settle_def Let_def observe_retirement_eq [OF assms] max.commute)
next
  case (Running t)
  show ?thesis
  proof (cases "t \<le> evidence_boundary s")
    case True
    have "evidence_boundary s \<le> bound (newest (st_last_loss s) (losses os)) (fold max (retirements os) (st_retired_at s))"
      unfolding evidence_boundary_bound by (rule bound_mono) (rule fold_max(1))
    with True show ?thesis
      by (simp add: Running settle_def Let_def record_fresh_process_evidence_eq newest_def [of _ "t # _"] newest_def [symmetric]
          newest_newer beyond_newer)
  qed (simp add: Running settle_def Let_def record_fresh_process_evidence_eq newest_def)
next
  case (Lost t)
  have "t \<le> bound (newest (newer t (st_last_loss s)) (losses os)) (fold max (retirements os) (st_retired_at s))"
    by (cases "newest (st_last_loss s) (losses os)") (auto simp: bound_def newest_newer)
  from beyond_idem [OF this] show ?thesis
    by (simp add: Lost settle_def Let_def observe_process_loss_eq newest_def [of _ "t # _"] newest_def [symmetric])
qed

lemma settle_Nil: "stale_ok s \<Longrightarrow> settle [] s = s"
  by (auto simp: settle_def newest_def beyond_def stale_ok_def Let_def evidence_boundary_bound split: option.splits)

lemma fold_observe_ok: "stale_ok s \<Longrightarrow> stale_ok (fold observe os s)"
  by (induction os arbitrary: s) (auto simp: observe_ok)

lemma fold_observe: "stale_ok s \<Longrightarrow> fold observe os s = settle os s"
  by (induction os arbitrary: s) (auto simp: settle_Nil settle_observe observe_ok)

lemma settle_permuted:
  assumes "mset os' = mset os"
  shows "settle os' s = settle os s"
proof -
  have max: "fold max xs = fold max (ys :: int list)" if "mset xs = mset ys" for xs ys
    by (rule fold_multiset_equiv [OF _ that]) (auto simp: max.left_commute)
  have newer: "fold newer xs = fold newer ys" if "mset xs = mset ys" for xs ys
    by (rule fold_multiset_equiv [OF _ that]) (auto simp: newer_newer)
  show ?thesis
    unfolding settle_def newest_def max [OF mset_kinds(1) [OF assms]] newer [OF mset_kinds(2) [OF assms]]
      newer [OF mset_kinds(3) [OF assms]] ..
qed

lemma fold_max_less: "fold max ts x < (y :: int) \<longleftrightarrow> x < y \<and> (\<forall>t \<in> set ts. t < y)"
  by (induction ts arbitrary: x) auto

lemma newest_less: "(\<forall>x. newest m ts = Some x \<longrightarrow> x < y) \<longleftrightarrow> (\<forall>x. m = Some x \<longrightarrow> x < y) \<and> (\<forall>t \<in> set ts. t < y)"
proof (induction ts arbitrary: m)
  case (Cons t ts)
  then show ?case by (cases m) (auto simp: newest_def)
qed (auto simp: newest_def)

lemma bound_less: "bound l r < y \<longleftrightarrow> r < y \<and> (\<forall>x. l = Some x \<longrightarrow> x < y)"
  by (auto simp: bound_def split: option.splits)

lemma beyond_newest: "beyond b (newest None ts) \<noteq> None \<longleftrightarrow> (\<exists>t \<in> set ts. b < t)"
proof -
  have "(\<exists>x. newest m ts = Some x \<and> b < x) \<longleftrightarrow> (\<exists>x. m = Some x \<and> b < x) \<or> (\<exists>t \<in> set ts. b < t)" for m
  proof (induction ts arbitrary: m)
    case (Cons t ts)
    then show ?case by (cases m) (auto simp: newest_def)
  qed (auto simp: newest_def)
  from this [of None] show ?thesis by (auto simp: beyond_def split: option.splits)
qed

section \<open>Properties\<close>

text \<open>
  C24. The evidence that a retired session's process is alive again does not depend on the order in
  which observations arrive. Processing them one by one gives what the newest retirement, the
  newest loss and the newest running observation decide together; every permutation gives the same
  session; and the session can be reclaimed exactly when some running observation was captured
  strictly after every retirement and every loss.
\<close>

theorem stale_evidence_order_free:
  assumes "stale_ok s"
  shows "fold observe os s = settle os s \<and>
    (mset os' = mset os \<longrightarrow> fold observe os' s = fold observe os s) \<and>
    (st_evidence s = None \<longrightarrow>
       (has_reclaimable_process_evidence (fold observe os s) \<longleftrightarrow>
        (\<exists>t. Running t \<in> set os \<and> evidence_boundary s < t \<and> (\<forall>u. Retired u \<in> set os \<or> Lost u \<in> set os \<longrightarrow> u < t))))"
proof -
  let ?B = "bound (newest (st_last_loss s) (losses os)) (fold max (retirements os) (st_retired_at s))"
  have re: "has_reclaimable_process_evidence (fold observe os s) \<longleftrightarrow> st_evidence (fold observe os s) \<noteq> None"
    using fold_observe_ok [OF assms, of os] by (auto simp: has_reclaimable_process_evidence_def stale_ok_def split: option.splits)
  have ev: "st_evidence (fold observe os s) = beyond ?B (newest (st_evidence s) (runs os))"
    by (simp add: fold_observe [OF assms] settle_def Let_def)
  have "?B < t \<longleftrightarrow> evidence_boundary s < t \<and> (\<forall>u. Retired u \<in> set os \<or> Lost u \<in> set os \<longrightarrow> u < t)" for t
    unfolding bound_less evidence_boundary_bound fold_max_less newest_less by auto
  then have "(\<exists>t \<in> set (runs os). ?B < t) \<longleftrightarrow>
      (\<exists>t. Running t \<in> set os \<and> evidence_boundary s < t \<and> (\<forall>u. Retired u \<in> set os \<or> Lost u \<in> set os \<longrightarrow> u < t))"
    by (simp only: set_kinds bex_simps mem_Collect_eq Bex_def)
  then have "st_evidence s = None \<longrightarrow>
     (has_reclaimable_process_evidence (fold observe os s) \<longleftrightarrow>
      (\<exists>t. Running t \<in> set os \<and> evidence_boundary s < t \<and> (\<forall>u. Retired u \<in> set os \<or> Lost u \<in> set os \<longrightarrow> u < t)))"
    using beyond_newest [of ?B "runs os"] unfolding re ev by simp
  moreover have "mset os' = mset os \<longrightarrow> fold observe os' s = fold observe os s"
    unfolding fold_observe [OF assms] using settle_permuted by blast
  ultimately show ?thesis using fold_observe [OF assms] by blast
qed

definition sample_stale :: stale_hook_session where
  "sample_stale = \<lparr>st_agent_label = U ''hermes'', st_session_ref = \<lparr>sr_kind = Id, sr_value = U ''a''\<rparr>,
     st_evidence = None, st_last_loss = None, st_retired_at = 5\<rparr>"

theorem stale_evidence_order_free_witness:
  "has_reclaimable_process_evidence (fold observe [Lost 7, Running 9, Running 6] sample_stale) \<and>
   fold observe [Running 6, Running 9, Lost 7] sample_stale = fold observe [Lost 7, Running 9, Running 6] sample_stale"
proof -
  have "stale_ok sample_stale" by (simp add: stale_ok_def sample_stale_def)
  from stale_evidence_order_free [OF this, of "[Lost 7, Running 9, Running 6]" "[Running 6, Running 9, Lost 7]"]
  show ?thesis by (auto simp: sample_stale_def evidence_boundary_def)
qed

end
