(* ===== verification/Metadata_Tokens.thy ===== *)
theory Metadata_Tokens
  imports Hook_Fence "HOL-Library.Option_ord"
begin

text \<open>
  Metadata tokens (\<open>metadata_tokens.rs\<close>) and the admission of sequenced reports, shared by the
  metadata of a workspace and of a terminal. \<open>host\<close> collects what the platform decides: Unicode
  lower case and the range in which an \<open>Instant\<close> can be represented.
\<close>

record host =
  host_lowercase :: "ustr \<Rightarrow> ustr"
  host_instant_min :: instant
  host_instant_max :: instant

definition instant_checked_add :: "host \<Rightarrow> instant \<Rightarrow> duration \<Rightarrow> instant option" where
  "instant_checked_add H t d = (if t + int d \<le> host_instant_max H then Some (t + int d) else None)"

definition instant_checked_sub :: "host \<Rightarrow> instant \<Rightarrow> duration \<Rightarrow> instant option" where
  "instant_checked_sub H t d = (if host_instant_min H \<le> t - int d then Some (t - int d) else None)"

record metadata_token =
  mt_value :: ustr
  mt_expires_at :: "instant option"

type_synonym metadata_tokens = "metadata_token hmap"

definition max_sequence_sources :: nat where "max_sequence_sources = 32"

definition sequence_is_fresh :: "u64 hmap \<Rightarrow> ustr \<Rightarrow> u64 option \<Rightarrow> bool" where
  "sequence_is_fresh sequences source seq =
     none_or (\<lambda>seq. none_or (\<lambda>last. last < seq) (hget sequences source)) seq"

definition accept_sequence :: "u64 hmap \<Rightarrow> ustr \<Rightarrow> u64 option \<Rightarrow> (unit + bool) \<times> u64 hmap" where
  "accept_sequence sequences source seq =
     (case seq of
        None \<Rightarrow> (Inr True, sequences)
      | Some q \<Rightarrow>
          (if \<not> sequence_is_fresh sequences source (Some q) then (Inr False, sequences)
           else if hget sequences source = None \<and> length sequences \<ge> max_sequence_sources then (Inl (), sequences)
           else (Inr True, hput source q sequences)))"

fun patch_entries :: "(ustr \<times> ustr option) list \<Rightarrow> instant option \<Rightarrow> bool \<Rightarrow> metadata_tokens \<Rightarrow> bool \<times> metadata_tokens" where
  "patch_entries [] expires_at changed entries = (changed, entries)"
| "patch_entries ((key, value) # rest) expires_at changed entries =
     (case value of
        Some v \<Rightarrow>
          (let token = \<lparr>mt_value = v, mt_expires_at = expires_at\<rparr>
           in if hget entries key \<noteq> Some token then patch_entries rest expires_at True (hput key token entries)
              else patch_entries rest expires_at changed entries)
      | None \<Rightarrow> patch_entries rest expires_at (changed \<or> hget entries key \<noteq> None) (hdel key entries))"

definition patch_tokens ::
  "host \<Rightarrow> (ustr \<times> ustr option) list \<Rightarrow> duration option \<Rightarrow> instant \<Rightarrow> metadata_tokens \<Rightarrow> bool \<times> metadata_tokens" where
  "patch_tokens H patch ttl now entries =
     patch_entries patch (Option.bind ttl (instant_checked_add H now)) False entries"

definition key_count_after_patch :: "(ustr \<times> ustr option) list \<Rightarrow> metadata_tokens \<Rightarrow> nat" where
  "key_count_after_patch patch entries =
     card (fold (\<lambda>(key, value) keys. if value \<noteq> None then insert key keys else keys - {key}) patch (set (map fst entries)))"

definition token_values :: "metadata_tokens \<Rightarrow> ustr hmap" where
  "token_values entries = map (\<lambda>(k, t). (k, mt_value t)) entries"

definition next_expiry :: "metadata_tokens \<Rightarrow> instant option" where
  "next_expiry entries = min_by_key (\<lambda>t. t) (List.map_filter (\<lambda>(k, t). mt_expires_at t) entries)"

definition expire_at :: "instant \<Rightarrow> metadata_tokens \<Rightarrow> bool \<times> metadata_tokens" where
  "expire_at now entries =
     (let kept = filter (\<lambda>(k, t). none_or (\<lambda>deadline. now < deadline) (mt_expires_at t)) entries
      in (length kept \<noteq> length entries, kept))"

end
