(* ===== verification/Terminal_State.thy ===== *)
theory Terminal_State
  imports Metadata_Tokens
begin

text \<open>
  The state of a terminal (\<open>terminal/state.rs\<close>, \<open>terminal/metadata.rs\<close>, \<open>terminal/title.rs\<close>): which
  agent runs in it, in which state, on whose authority, which session it holds, and the fences that
  keep retired hook owners from coming back. Every method is a function of the state; methods that
  read the clock take the instant as an argument.
\<close>

section \<open>Data\<close>

record foreground_process_observation =
  fp_agent :: "agent option"
  fp_observed_at :: instant

datatype hook_report_admission = Refuse | Accept bool "u64 option"

record hook_authority =
  ha_source :: ustr
  ha_agent_label :: ustr
  ha_state :: agent_state
  ha_message :: "ustr option"
  ha_reported_at :: instant
  ha_session_ref :: "agent_session_ref option"
  ha_unconfirmed_since :: "instant option"

record hook_identity =
  hi_source :: ustr
  hi_agent_label :: ustr
  hi_reported_at :: instant
  hi_unconfirmed_since :: "instant option"

record hook_owner =
  ow_source :: "ustr option"
  ow_agent_label :: ustr

definition owner_new :: "ustr \<Rightarrow> ustr \<Rightarrow> hook_owner" where
  "owner_new source label = \<lparr>ow_source = Some source, ow_agent_label = label\<rparr>"

definition owner_matches :: "hook_owner \<Rightarrow> ustr \<Rightarrow> ustr \<Rightarrow> bool" where
  "owner_matches ow source label \<longleftrightarrow>
     ow_agent_label ow = label \<and> none_or (\<lambda>fenced. fenced = source) (ow_source ow)"

record effective_presentation =
  ep_title :: "ustr option"
  ep_display_agent :: "ustr option"
  ep_state_labels :: "ustr hmap"

record effective_state_change =
  ec_previous_agent_label :: "ustr option"
  ec_previous_known_agent :: "agent option"
  ec_previous_state :: agent_state
  ec_previous_presentation :: effective_presentation
  ec_agent_label :: "ustr option"
  ec_known_agent :: "agent option"
  ec_state :: agent_state
  ec_presentation :: effective_presentation

record terminal_state_mutation =
  tm_effective_state_change :: "effective_state_change option"
  tm_session_ref_changed :: bool
  tm_agent_released :: bool

record terminal_title_change =
  tc_raw_changed :: bool
  tc_stripped_changed :: bool

datatype managed_agent_phase = Pending "instant option" instant | Active

record managed_agent =
  ma_kind :: agent
  ma_observed_expected :: bool
  ma_observation_floor :: instant
  ma_phase :: managed_agent_phase

record agent_metadata =
  am_source :: ustr
  am_agent_label :: "ustr option"
  am_applies_to_source :: "ustr option"
  am_title :: "ustr option"
  am_display_agent :: "ustr option"
  am_state_labels :: "ustr hmap"
  am_reported_at :: instant
  am_title_reported_at :: "instant option"
  am_display_agent_reported_at :: "instant option"
  am_state_label_reported_at :: "instant hmap"
  am_ttl :: "duration option"
  am_expiry_event_pending :: bool

record agent_metadata_report =
  ar_source :: ustr
  ar_agent_label :: "ustr option"
  ar_applies_to_source :: "ustr option"
  ar_title :: "ustr option"
  ar_display_agent :: "ustr option"
  ar_state_labels :: "ustr hmap"
  ar_clear_title :: bool
  ar_clear_display_agent :: bool
  ar_clear_state_labels :: bool
  ar_ttl :: "duration option"
  ar_seq :: "u64 option"

record terminal_state =
  t_id :: ustr
  t_cwd :: ustr
  t_detected_agent :: "agent option"
  t_fallback_state :: agent_state
  t_fallback_visible_blocker :: bool
  t_fallback_observed_at :: "instant option"
  t_hook_authority :: "hook_authority option"
  t_hook_identity :: "hook_identity option"
  t_agent_metadata :: "agent_metadata hmap"
  t_metadata_tokens :: metadata_tokens
  t_persisted_session :: "persisted_agent_session option"
  t_terminal_title :: "ustr option"
  t_session_owner_epoch :: "instant option"
  t_manual_label :: "ustr option"
  t_agent_name :: "ustr option"
  t_managed_agent :: "managed_agent option"
  t_hook_sequences :: "u64 hmap"
  t_unanswered_exit :: "(hook_owner \<times> instant) option"
  t_handoff_confirmation :: "(hook_owner \<times> instant) option"
  t_suppressed :: "suppressed_hook_report hmap"
  t_stale :: "stale_hook_session list hmap"
  t_metadata_sequences :: "u64 hmap"
  t_metadata_token_sources :: "ustr list"
  t_state :: agent_state
  t_last_change_seq :: "u64 option"
  t_revision :: u64
  t_launch_argv :: "ustr list option"
  t_respawn_shell_on_exit :: bool
  t_pending_resume_plan :: "agent_resume_plan option"

definition terminal_new :: "ustr \<Rightarrow> ustr \<Rightarrow> terminal_state" where
  "terminal_new i cwd =
     \<lparr>t_id = i, t_cwd = cwd, t_detected_agent = None, t_fallback_state = Unknown, t_fallback_visible_blocker = False,
      t_fallback_observed_at = None, t_hook_authority = None, t_hook_identity = None, t_agent_metadata = [],
      t_metadata_tokens = [], t_persisted_session = None, t_terminal_title = None, t_session_owner_epoch = None,
      t_manual_label = None, t_agent_name = None, t_managed_agent = None, t_hook_sequences = [],
      t_unanswered_exit = None, t_handoff_confirmation = None, t_suppressed = [], t_stale = [],
      t_metadata_sequences = [], t_metadata_token_sources = [], t_state = Unknown, t_last_change_seq = None,
      t_revision = 0, t_launch_argv = None, t_respawn_shell_on_exit = False, t_pending_resume_plan = None\<rparr>"

section \<open>Titles and labels\<close>

definition activity_glyphs :: "nat list" where
  "activity_glyphs = [183, 10018, 10035, 10038, 10043, 10045, 9680, 9683, 9681, 9682]"

definition stripped_terminal_title :: "ustr \<Rightarrow> ustr option" where
  "stripped_terminal_title title =
     (case trim title of
        [] \<Rightarrow> None
      | first # after_first \<Rightarrow>
          (let recognized = ((10240 \<le> first \<and> first \<le> 10495) \<or> first \<in> set activity_glyphs);
               stripped = (if recognized \<and> (after_first = [] \<or> is_whitespace (hd after_first)) then trim after_first
                           else first # after_first)
           in if stripped \<noteq> [] then Some stripped else None))"

definition terminal_title_stripped :: "terminal_state \<Rightarrow> ustr option" where
  "terminal_title_stripped t = Option.bind (t_terminal_title t) stripped_terminal_title"

definition set_terminal_title :: "ustr option \<Rightarrow> terminal_state \<Rightarrow> terminal_title_change \<times> terminal_state" where
  "set_terminal_title title t =
     (if t_terminal_title t = title then (\<lparr>tc_raw_changed = False, tc_stripped_changed = False\<rparr>, t)
      else let previous = terminal_title_stripped t; t1 = t\<lparr>t_terminal_title := title\<rparr>;
               changed = (previous \<noteq> terminal_title_stripped t1)
           in (\<lparr>tc_raw_changed = True, tc_stripped_changed = changed\<rparr>,
               if changed then t1\<lparr>t_revision := saturating_add (t_revision t1) 1\<rparr> else t1))"

definition set_manual_label :: "ustr \<Rightarrow> terminal_state \<Rightarrow> terminal_state" where
  "set_manual_label label t = t\<lparr>t_manual_label := (if trim label \<noteq> [] then Some (trim label) else None)\<rparr>"

definition clear_manual_label :: "terminal_state \<Rightarrow> terminal_state" where
  "clear_manual_label t = t\<lparr>t_manual_label := None\<rparr>"

definition set_agent_name :: "ustr \<Rightarrow> terminal_state \<Rightarrow> terminal_state" where
  "set_agent_name name t = t\<lparr>t_agent_name := (if trim name \<noteq> [] then Some (trim name) else None)\<rparr>"

definition clear_agent_name :: "terminal_state \<Rightarrow> terminal_state" where
  "clear_agent_name t = t\<lparr>t_agent_name := None, t_managed_agent := None\<rparr>"

definition with_launch_argv :: "ustr list \<Rightarrow> terminal_state \<Rightarrow> terminal_state" where
  "with_launch_argv argv t = t\<lparr>t_launch_argv := Some argv\<rparr>"

definition with_respawn_shell_on_exit :: "terminal_state \<Rightarrow> terminal_state" where
  "with_respawn_shell_on_exit t = t\<lparr>t_respawn_shell_on_exit := True\<rparr>"

definition with_pending_agent_resume_plan :: "agent_resume_plan \<Rightarrow> terminal_state \<Rightarrow> terminal_state" where
  "with_pending_agent_resume_plan p t = t\<lparr>t_pending_resume_plan := Some p\<rparr>"

section \<open>Arbitration\<close>

definition effective_agent_label :: "terminal_state \<Rightarrow> ustr option" where
  "effective_agent_label t =
     or_else (map_option ha_agent_label (t_hook_authority t)) (map_option agent_label (t_detected_agent t))"

definition effective_known_agent :: "host \<Rightarrow> terminal_state \<Rightarrow> agent option" where
  "effective_known_agent H t =
     (case t_hook_authority t of
        Some a \<Rightarrow> parse_agent_label (host_lowercase H) (ha_agent_label a)
      | None \<Rightarrow> t_detected_agent t)"

definition live_full_lifecycle_hook_authority :: "terminal_state \<Rightarrow> bool" where
  "live_full_lifecycle_hook_authority t =
     some_and (\<lambda>a. full_lifecycle_hook_authority (ha_source a) (ha_agent_label a)) (t_hook_authority t)"

definition fallback_not_older_than_hook :: "terminal_state \<Rightarrow> bool" where
  "fallback_not_older_than_hook t =
     none_or (\<lambda>a. some_and (\<lambda>at. ha_reported_at a \<le> at) (t_fallback_observed_at t)) (t_hook_authority t)"

definition visible_blocker_overrides_hook :: "host \<Rightarrow> terminal_state \<Rightarrow> bool" where
  "visible_blocker_overrides_hook H t =
     (if live_full_lifecycle_hook_authority t then False
      else t_fallback_visible_blocker t \<and> fallback_not_older_than_hook t \<and>
        some_and (\<lambda>a. ha_state a \<noteq> Blocked \<and>
            parse_agent_label (host_lowercase H) (ha_agent_label a) = t_detected_agent t) (t_hook_authority t))"

definition arbitrated_state :: "host \<Rightarrow> terminal_state \<Rightarrow> agent_state" where
  "arbitrated_state H t =
     (if visible_blocker_overrides_hook H t then Blocked
      else case t_hook_authority t of Some a \<Rightarrow> ha_state a | None \<Rightarrow> t_fallback_state t)"

section \<open>Agent metadata\<close>

definition agent_metadata_expiry :: "host \<Rightarrow> agent_metadata \<Rightarrow> instant option" where
  "agent_metadata_expiry H m =
     map_option (\<lambda>ttl. case instant_checked_add H (am_reported_at m) ttl of Some d \<Rightarrow> d | None \<Rightarrow> am_reported_at m) (am_ttl m)"

definition agent_metadata_is_expired :: "host \<Rightarrow> agent_metadata \<Rightarrow> instant \<Rightarrow> bool" where
  "agent_metadata_is_expired H m now = some_and (\<lambda>deadline. deadline \<le> now) (agent_metadata_expiry H m)"

definition agent_metadata_matches_guards :: "terminal_state \<Rightarrow> agent_metadata \<Rightarrow> bool" where
  "agent_metadata_matches_guards t m =
     (if some_and (\<lambda>agent. effective_agent_label t \<noteq> Some agent) (am_agent_label m) then False
      else if some_and (\<lambda>source. none_or (\<lambda>a. ha_source a \<noteq> source) (t_hook_authority t)) (am_applies_to_source m) then False
      else True)"

definition metadata_shown :: "agent_metadata \<Rightarrow> bool" where
  "metadata_shown m \<longleftrightarrow> am_title m \<noteq> None \<or> am_display_agent m \<noteq> None \<or> am_state_labels m \<noteq> []"

definition agent_metadata_is_valid :: "host \<Rightarrow> terminal_state \<Rightarrow> agent_metadata \<Rightarrow> instant \<Rightarrow> bool \<Rightarrow> bool" where
  "agent_metadata_is_valid H t m now enforce_ttl =
     (if \<not> metadata_shown m then False
      else if enforce_ttl \<and> agent_metadata_is_expired H m now then False
      else agent_metadata_matches_guards t m)"

definition agent_metadata_is_visible_ignoring_ttl :: "terminal_state \<Rightarrow> agent_metadata \<Rightarrow> bool" where
  "agent_metadata_is_visible_ignoring_ttl t m \<longleftrightarrow> metadata_shown m \<and> agent_metadata_matches_guards t m"

definition valid_agent_metadata :: "host \<Rightarrow> terminal_state \<Rightarrow> instant \<Rightarrow> bool \<Rightarrow> agent_metadata list" where
  "valid_agent_metadata H t now enforce_ttl =
     filter (\<lambda>m. agent_metadata_is_valid H t m now enforce_ttl) (map snd (t_agent_metadata t))"

definition newest_metadata_title :: "host \<Rightarrow> terminal_state \<Rightarrow> instant \<Rightarrow> bool \<Rightarrow> ustr option" where
  "newest_metadata_title H t now enforce_ttl =
     Option.bind (max_by_key am_title_reported_at (filter (\<lambda>m. am_title m \<noteq> None) (valid_agent_metadata H t now enforce_ttl))) am_title"

definition newest_metadata_display_agent :: "host \<Rightarrow> terminal_state \<Rightarrow> instant \<Rightarrow> bool \<Rightarrow> ustr option" where
  "newest_metadata_display_agent H t now enforce_ttl =
     Option.bind (max_by_key am_display_agent_reported_at
       (filter (\<lambda>m. am_display_agent m \<noteq> None) (valid_agent_metadata H t now enforce_ttl))) am_display_agent"

text \<open>Collecting pairs into a map keeps the last value of a key; maps that are compared are kept sorted by key.\<close>

definition collect_map :: "(ustr \<times> 'v) list \<Rightarrow> 'v hmap" where
  "collect_map kvs = sort_key fst (fold (\<lambda>(k, v). hput k v) kvs [])"

definition effective_metadata_state_labels :: "host \<Rightarrow> terminal_state \<Rightarrow> instant \<Rightarrow> bool \<Rightarrow> ustr hmap" where
  "effective_metadata_state_labels H t now enforce_ttl =
     collect_map (map snd (sort_key fst (concat (map (\<lambda>m. List.map_filter
         (\<lambda>(state, label). map_option (\<lambda>at. (at, state, label)) (hget (am_state_label_reported_at m) state)) (am_state_labels m))
       (valid_agent_metadata H t now enforce_ttl)))))"

definition effective_presentation_with_ttl :: "host \<Rightarrow> terminal_state \<Rightarrow> instant \<Rightarrow> bool \<Rightarrow> effective_presentation" where
  "effective_presentation_with_ttl H t now enforce_ttl =
     \<lparr>ep_title = newest_metadata_title H t now enforce_ttl, ep_display_agent = newest_metadata_display_agent H t now enforce_ttl,
      ep_state_labels = effective_metadata_state_labels H t now enforce_ttl\<rparr>"

abbreviation effective_presentation_at :: "host \<Rightarrow> terminal_state \<Rightarrow> instant \<Rightarrow> effective_presentation" where
  "effective_presentation_at H t now \<equiv> effective_presentation_with_ttl H t now True"

definition clear_expiry_pending_for_hidden_metadata :: "terminal_state \<Rightarrow> terminal_state" where
  "clear_expiry_pending_for_hidden_metadata t =
     t\<lparr>t_agent_metadata := map (\<lambda>(source, m).
         (source, if am_expiry_event_pending m \<and> \<not> agent_metadata_is_visible_ignoring_ttl t m
                  then m\<lparr>am_expiry_event_pending := False\<rparr> else m)) (t_agent_metadata t)\<rparr>"

text \<open>What a caller records before it changes a terminal, and the comparison afterwards.\<close>

record effective_view =
  ev_agent_label :: "ustr option"
  ev_known_agent :: "agent option"
  ev_state :: agent_state
  ev_presentation :: effective_presentation

definition effective_view_at :: "host \<Rightarrow> terminal_state \<Rightarrow> instant \<Rightarrow> effective_view" where
  "effective_view_at H t now =
     \<lparr>ev_agent_label = effective_agent_label t, ev_known_agent = effective_known_agent H t, ev_state = t_state t,
      ev_presentation = effective_presentation_at H t now\<rparr>"

definition recompute_effective_state ::
  "host \<Rightarrow> effective_view \<Rightarrow> instant \<Rightarrow> terminal_state \<Rightarrow> effective_state_change option \<times> terminal_state" where
  "recompute_effective_state H previous now t =
     (let state = arbitrated_state H t; label = effective_agent_label t; known = effective_known_agent H t;
          presentation = effective_presentation_at H t now;
          t1 = clear_expiry_pending_for_hidden_metadata t
      in if ev_agent_label previous = label \<and> ev_state previous = state \<and> ev_presentation previous = presentation
         then (None, t1)
         else (Some \<lparr>ec_previous_agent_label = ev_agent_label previous, ec_previous_known_agent = ev_known_agent previous,
                 ec_previous_state = ev_state previous, ec_previous_presentation = ev_presentation previous,
                 ec_agent_label = label, ec_known_agent = known, ec_state = state, ec_presentation = presentation\<rparr>,
               t1\<lparr>t_state := state\<rparr>))"

definition unchanged_effective_state_change_at :: "host \<Rightarrow> terminal_state \<Rightarrow> instant \<Rightarrow> effective_state_change" where
  "unchanged_effective_state_change_at H t now =
     (let v = effective_view_at H t now
      in \<lparr>ec_previous_agent_label = ev_agent_label v, ec_previous_known_agent = ev_known_agent v,
          ec_previous_state = ev_state v, ec_previous_presentation = ev_presentation v,
          ec_agent_label = ev_agent_label v, ec_known_agent = ev_known_agent v, ec_state = ev_state v,
          ec_presentation = ev_presentation v\<rparr>)"

definition border_label :: "host \<Rightarrow> terminal_state \<Rightarrow> instant \<Rightarrow> bool \<Rightarrow> ustr option" where
  "border_label H t now show_agent_labels =
     or_else (ep_title (effective_presentation_at H t now)) (or_else (t_manual_label t)
       (if show_agent_labels then or_else (ep_display_agent (effective_presentation_at H t now)) (effective_agent_label t) else None))"

definition is_agent_terminal :: "terminal_state \<Rightarrow> bool" where
  "is_agent_terminal t \<longleftrightarrow> t_agent_name t \<noteq> None \<or> effective_agent_label t \<noteq> None \<or> t_launch_argv t \<noteq> None"

end
