(* ===== verification/Hook_Arbitration.thy ===== *)
theory Hook_Arbitration
  imports Terminal_State
begin

text \<open>
  The hook side of a terminal (\<open>terminal/state.rs\<close>): which reports of an agent's hook are admitted,
  which owner and session a terminal holds, and how clears, releases, process exits and detector
  observations retire and confirm them.
\<close>

abbreviation parse_label :: "host \<Rightarrow> ustr \<Rightarrow> agent option" where
  "parse_label H \<equiv> parse_agent_label (host_lowercase H)"

section \<open>Owners and sessions\<close>

definition hook_authority_not_newer_than :: "terminal_state \<Rightarrow> instant \<Rightarrow> bool" where
  "hook_authority_not_newer_than t observed_at = none_or (\<lambda>a. ha_reported_at a \<le> observed_at) (t_hook_authority t)"

definition hook_identity_not_newer_than :: "terminal_state \<Rightarrow> instant \<Rightarrow> bool" where
  "hook_identity_not_newer_than t observed_at = none_or (\<lambda>i. hi_reported_at i \<le> observed_at) (t_hook_identity t)"

definition confirmed_hook_owner :: "terminal_state \<Rightarrow> (ustr \<times> ustr) option" where
  "confirmed_hook_owner t =
     (case (case t_hook_authority t of
              Some a \<Rightarrow> Some (ha_source a, ha_agent_label a, ha_unconfirmed_since a)
            | None \<Rightarrow> map_option (\<lambda>i. (hi_source i, hi_agent_label i, hi_unconfirmed_since i)) (t_hook_identity t)) of
        None \<Rightarrow> None
      | Some (source, label, pending_exit) \<Rightarrow>
          (if pending_exit \<noteq> None \<or> some_and (\<lambda>(ow, _). owner_matches ow source label) (t_handoff_confirmation t)
           then None else Some (source, label)))"

definition advance_session_owner_epoch :: "instant \<Rightarrow> terminal_state \<Rightarrow> terminal_state" where
  "advance_session_owner_epoch now t =
     t\<lparr>t_session_owner_epoch := Some (case t_session_owner_epoch t of None \<Rightarrow> now | Some old \<Rightarrow> max old now)\<rparr>"

definition require_imported_hook_identity_confirmation :: "instant \<Rightarrow> terminal_state \<Rightarrow> terminal_state" where
  "require_imported_hook_identity_confirmation imported_at t =
     (let t1 = advance_session_owner_epoch imported_at t
      in t1\<lparr>t_handoff_confirmation := map_option (\<lambda>i. (owner_new (hi_source i) (hi_agent_label i), imported_at)) (t_hook_identity t1)\<rparr>)"

definition unanswered_exit_to_inherit :: "terminal_state \<Rightarrow> ustr \<Rightarrow> ustr \<Rightarrow> instant option" where
  "unanswered_exit_to_inherit t source label =
     min_by_key (\<lambda>x. x) (concat (map (\<lambda>v. case v of Some x \<Rightarrow> [x] | None \<Rightarrow> [])
       [case t_hook_authority t of
          Some a \<Rightarrow> if ha_source a = source \<and> ha_agent_label a = label then ha_unconfirmed_since a else None
        | None \<Rightarrow> None,
        case t_hook_identity t of
          Some i \<Rightarrow> if hi_source i = source \<and> hi_agent_label i = label then hi_unconfirmed_since i else None
        | None \<Rightarrow> None,
        case t_unanswered_exit t of
          Some (ow, at) \<Rightarrow> if owner_matches ow source label then Some at else None
        | None \<Rightarrow> None]))"

definition earliest :: "instant option \<Rightarrow> instant \<Rightarrow> instant" where
  "earliest pending observed_at = (case pending of None \<Rightarrow> observed_at | Some p \<Rightarrow> min p observed_at)"

definition hold_hook_owner_unconfirmed :: "ustr \<Rightarrow> ustr \<Rightarrow> instant \<Rightarrow> terminal_state \<Rightarrow> terminal_state" where
  "hold_hook_owner_unconfirmed source label observed_at t =
     (let pending = (case t_unanswered_exit t of
            Some (ow, at) \<Rightarrow> if owner_matches ow source label then min at observed_at else observed_at
          | None \<Rightarrow> observed_at);
          t1 = t\<lparr>t_unanswered_exit := Some (owner_new source label, pending)\<rparr>;
          t2 = t1\<lparr>t_hook_authority := map_option (\<lambda>a. if ha_source a = source \<and> ha_agent_label a = label
              then a\<lparr>ha_unconfirmed_since := Some (earliest (ha_unconfirmed_since a) observed_at)\<rparr> else a) (t_hook_authority t1)\<rparr>
      in t2\<lparr>t_hook_identity := map_option (\<lambda>i. if hi_source i = source \<and> hi_agent_label i = label
           then i\<lparr>hi_unconfirmed_since := Some (earliest (hi_unconfirmed_since i) observed_at)\<rparr> else i) (t_hook_identity t2)\<rparr>)"

definition hook_owner_has_unanswered_exit_older_than :: "terminal_state \<Rightarrow> ustr \<Rightarrow> ustr \<Rightarrow> instant \<Rightarrow> bool" where
  "hook_owner_has_unanswered_exit_older_than t source label observed_at =
     some_and (\<lambda>pending. pending < observed_at) (unanswered_exit_to_inherit t source label)"

definition confirms :: "host \<Rightarrow> agent \<Rightarrow> instant \<Rightarrow> ustr \<Rightarrow> instant option \<Rightarrow> bool" where
  "confirms H detected observed_at label pending =
     some_and (\<lambda>p. p < observed_at \<and> parse_label H label = Some detected) pending"

definition confirm_pending_hook_owner :: "host \<Rightarrow> agent option \<Rightarrow> instant \<Rightarrow> terminal_state \<Rightarrow> terminal_state" where
  "confirm_pending_hook_owner H detected_agent observed_at t =
     (case detected_agent of
        None \<Rightarrow> t
      | Some d \<Rightarrow>
          (let c = confirms H d observed_at;
               t1 = (if some_and (\<lambda>(ow, at). c (ow_agent_label ow) (Some at)) (t_handoff_confirmation t)
                     then t\<lparr>t_handoff_confirmation := None\<rparr> else t);
               t2 = t1\<lparr>t_hook_authority := map_option (\<lambda>a. if c (ha_agent_label a) (ha_unconfirmed_since a)
                   then a\<lparr>ha_unconfirmed_since := None\<rparr> else a) (t_hook_authority t1)\<rparr>;
               t3 = t2\<lparr>t_hook_identity := map_option (\<lambda>i. if c (hi_agent_label i) (hi_unconfirmed_since i)
                   then i\<lparr>hi_unconfirmed_since := None\<rparr> else i) (t_hook_identity t2)\<rparr>
           in if some_and (\<lambda>(ow, at). c (ow_agent_label ow) (Some at)) (t_unanswered_exit t3)
              then t3\<lparr>t_unanswered_exit := None\<rparr> else t3))"

definition persisted_agent_session_matches :: "terminal_state \<Rightarrow> ustr \<Rightarrow> ustr \<Rightarrow> bool" where
  "persisted_agent_session_matches t source agent =
     some_and (\<lambda>s. ps_source s = source \<and> ps_agent s = agent) (t_persisted_session t)"

definition owned_session_ref :: "terminal_state \<Rightarrow> ustr \<Rightarrow> ustr \<Rightarrow> agent_session_ref option" where
  "owned_session_ref t source label =
     or_else (case t_hook_authority t of
         Some a \<Rightarrow> if ha_source a = source \<and> ha_agent_label a = label then ha_session_ref a else None
       | None \<Rightarrow> None)
      (case t_persisted_session t of
         Some s \<Rightarrow> if ps_source s = source \<and> ps_agent s = label then Some (ps_session_ref s) else None
       | None \<Rightarrow> None)"

definition persisted_session_is_anchored_by_hook_identity :: "terminal_state \<Rightarrow> bool" where
  "persisted_session_is_anchored_by_hook_identity t =
     some_and (\<lambda>i. persisted_agent_session_matches t (hi_source i) (hi_agent_label i)) (t_hook_identity t)"

definition current_session_identity_for_persistence ::
  "terminal_state \<Rightarrow> (ustr \<times> ustr \<times> session_ref_kind \<times> ustr) option" where
  "current_session_identity_for_persistence t =
     (case Option.bind (t_hook_authority t) (\<lambda>a. map_option (\<lambda>r. (ha_source a, ha_agent_label a, sr_kind r, sr_value r)) (ha_session_ref a)) of
        Some s \<Rightarrow> Some s
      | None \<Rightarrow> map_option (\<lambda>s. (ps_source s, ps_agent s, sr_kind (ps_session_ref s), sr_value (ps_session_ref s))) (t_persisted_session t))"

definition current_session_owner_conflicts :: "terminal_state \<Rightarrow> ustr \<Rightarrow> ustr \<Rightarrow> bool" where
  "current_session_owner_conflicts t source label =
     some_and (\<lambda>(s, l). s \<noteq> source \<or> l \<noteq> label)
       (or_else (map_option (\<lambda>a. (ha_source a, ha_agent_label a)) (t_hook_authority t))
         (or_else (map_option (\<lambda>i. (hi_source i, hi_agent_label i)) (t_hook_identity t))
           (map_option (\<lambda>s. (ps_source s, ps_agent s)) (t_persisted_session t))))"

definition session_start_source_allows_session_replacement :: "ustr \<Rightarrow> ustr \<Rightarrow> ustr option \<Rightarrow> bool" where
  "session_start_source_allows_session_replacement source label reason =
     list_ex (\<lambda>(s, l, rs). source = s \<and> label = l \<and> reason \<in> set rs)
      [(U ''zynk:claude'', U ''claude'', [Some (U ''clear''), Some (U ''resume''), Some (U ''compact'')]),
       (U ''zynk:codex'', U ''codex'', [Some (U ''startup''), Some (U ''clear''), Some (U ''resume''), Some (U ''compact'')]),
       (U ''zynk:hermes'', U ''hermes'', [Some (U ''startup''), Some (U ''new''), Some (U ''resume'')]),
       (U ''zynk:antigravity_cli'', U ''agy'', [None]),
       (U ''zynk:opencode'', U ''opencode'', [Some (U ''select'')]),
       (U ''zynk:pi'', U ''pi'', [Some (U ''new''), Some (U ''resume''), Some (U ''fork'')]),
       (U ''zynk:omp'', U ''omp'', [Some (U ''startup''), Some (U ''new''), Some (U ''resume''), Some (U ''fork'')]),
       (U ''zynk:qwen'', U ''qwen'', [Some (U ''startup''), Some (U ''clear''), Some (U ''resume''), Some (U ''compact''), Some (U ''branch'')])]"

definition session_start_allows_different_owner :: "ustr \<Rightarrow> ustr \<Rightarrow> ustr option \<Rightarrow> bool" where
  "session_start_allows_different_owner source label reason =
     list_ex (\<lambda>(s, l, rs). source = s \<and> label = l \<and> reason \<in> set (map Some rs))
      [(U ''zynk:claude'', U ''claude'', [U ''startup'', U ''clear'', U ''resume'', U ''compact'']),
       (U ''zynk:codex'', U ''codex'', [U ''startup'', U ''clear'', U ''resume'', U ''compact'']),
       (U ''zynk:hermes'', U ''hermes'', [U ''startup'', U ''new'', U ''resume'']),
       (U ''zynk:pi'', U ''pi'', [U ''new'', U ''resume'', U ''fork'']),
       (U ''zynk:qwen'', U ''qwen'', [U ''startup'', U ''clear'', U ''resume'', U ''compact'', U ''branch'']),
       (U ''zynk:opencode'', U ''opencode'', [U ''select''])]"

definition is_unsequenced_opencode_selection :: "ustr \<Rightarrow> ustr \<Rightarrow> ustr option \<Rightarrow> u64 option \<Rightarrow> bool" where
  "is_unsequenced_opencode_selection source label reason seq \<longleftrightarrow>
     source = U ''zynk:opencode'' \<and> label = U ''opencode'' \<and> reason = Some (U ''select'') \<and> seq = None"

definition conflicting_same_owner_session_ref ::
  "terminal_state \<Rightarrow> ustr \<Rightarrow> ustr \<Rightarrow> agent_session_ref \<Rightarrow> ustr option \<Rightarrow> agent_session_ref option" where
  "conflicting_same_owner_session_ref t source label r reason =
     (case current_session_identity_for_persistence t of
        None \<Rightarrow> None
      | Some (s, l, kind, value) \<Rightarrow>
          (if s = source \<and> l = label \<and> kind = Id \<and> sr_kind r = Id \<and> value \<noteq> sr_value r \<and>
              \<not> session_start_source_allows_session_replacement source label reason
           then Some \<lparr>sr_kind = kind, sr_value = value\<rparr> else None))"

definition hook_authority_conflicts_with_detected_agent :: "host \<Rightarrow> terminal_state \<Rightarrow> agent option \<Rightarrow> bool" where
  "hook_authority_conflicts_with_detected_agent H t detected =
     some_and (\<lambda>d. some_and (\<lambda>a. some_and (\<lambda>h. h \<noteq> d) (parse_label H (ha_agent_label a))) (t_hook_authority t)) detected"

definition hook_identity_conflicts_with_detected_agent :: "host \<Rightarrow> terminal_state \<Rightarrow> agent option \<Rightarrow> bool" where
  "hook_identity_conflicts_with_detected_agent H t detected =
     some_and (\<lambda>d. some_and (\<lambda>i. some_and (\<lambda>h. h \<noteq> d) (parse_label H (hi_agent_label i))) (t_hook_identity t)) detected"

definition known_agent_label_conflicts_with_detected_agent :: "host \<Rightarrow> terminal_state \<Rightarrow> ustr \<Rightarrow> bool" where
  "known_agent_label_conflicts_with_detected_agent H t label =
     some_and (\<lambda>d. some_and (\<lambda>h. h \<noteq> d) (parse_label H label)) (t_detected_agent t)"

definition should_ignore_detected_state_under_full_lifecycle_hook :: "host \<Rightarrow> terminal_state \<Rightarrow> agent option \<Rightarrow> bool \<Rightarrow> bool" where
  "should_ignore_detected_state_under_full_lifecycle_hook H t detected process_exited \<longleftrightarrow>
     live_full_lifecycle_hook_authority t \<and> \<not> process_exited \<and> \<not> hook_authority_conflicts_with_detected_agent H t detected"

definition live_full_lifecycle_hook_authority_conflicts_with_session ::
  "terminal_state \<Rightarrow> ustr \<Rightarrow> ustr \<Rightarrow> agent_session_ref option \<Rightarrow> bool" where
  "live_full_lifecycle_hook_authority_conflicts_with_session t source label r =
     (case t_hook_authority t of
        None \<Rightarrow> False
      | Some a \<Rightarrow>
          (if \<not> full_lifecycle_hook_authority (ha_source a) (ha_agent_label a) then False
           else if ha_source a \<noteq> source \<or> ha_agent_label a \<noteq> label then False
           else case (ha_session_ref a, r) of (Some current, Some incoming) \<Rightarrow> current \<noteq> incoming | _ \<Rightarrow> False))"

definition opencode_state_report_is_cross_talk :: "host \<Rightarrow> terminal_state \<Rightarrow> ustr \<Rightarrow> ustr \<Rightarrow> agent_session_ref option \<Rightarrow> bool" where
  "opencode_state_report_is_cross_talk H t source label r =
     (if source \<noteq> U ''zynk:opencode'' \<or> label \<noteq> U ''opencode'' then False
      else if \<not> some_and (\<lambda>known. t_detected_agent t = Some known) (parse_label H label) then False
      else case (owned_session_ref t source label, r) of (Some anchored, Some incoming) \<Rightarrow> anchored \<noteq> incoming | _ \<Rightarrow> False)"

definition same_owner_full_lifecycle_hook_authority_session_ref ::
  "terminal_state \<Rightarrow> ustr \<Rightarrow> ustr \<Rightarrow> agent_session_ref \<Rightarrow> agent_session_ref option" where
  "same_owner_full_lifecycle_hook_authority_session_ref t source label r =
     (case t_hook_authority t of
        None \<Rightarrow> None
      | Some a \<Rightarrow>
          (if \<not> full_lifecycle_hook_authority (ha_source a) (ha_agent_label a) \<or> ha_source a \<noteq> source \<or> ha_agent_label a \<noteq> label then None
           else case ha_session_ref a of Some current \<Rightarrow> if current \<noteq> r then Some current else None | None \<Rightarrow> None))"

section \<open>Retirement\<close>

definition hook_report_retirement_applies :: "ustr \<Rightarrow> ustr \<Rightarrow> bool" where
  "hook_report_retirement_applies source label \<longleftrightarrow>
     full_lifecycle_hook_authority source label \<or> session_identity_only_integration source label"

definition remember_stale_hook_session ::
  "ustr \<Rightarrow> ustr \<Rightarrow> agent_session_ref \<Rightarrow> instant \<Rightarrow> instant option \<Rightarrow> instant option \<Rightarrow> terminal_state \<Rightarrow> terminal_state" where
  "remember_stale_hook_session source label r retired_at evidence last_loss t =
     (let sessions = (case hget (t_stale t) source of Some xs \<Rightarrow> xs | None \<Rightarrow> []);
          same = (\<lambda>x. st_agent_label x = label \<and> st_session_ref x = r);
          sessions1 = (if list_ex same sessions then sessions
             else sessions @ [\<lparr>st_agent_label = label, st_session_ref = r, st_evidence = None, st_last_loss = None, st_retired_at = retired_at\<rparr>]);
          upd = (\<lambda>x. let x1 = observe_retirement retired_at x;
                        x2 = (case last_loss of Some lost_at \<Rightarrow> observe_process_loss lost_at x1 | None \<Rightarrow> x1)
                    in case evidence of Some at \<Rightarrow> record_fresh_process_evidence at x2 | None \<Rightarrow> x2)
      in t\<lparr>t_stale := hput source (map (\<lambda>x. if same x then upd x else x) sessions1) (t_stale t)\<rparr>)"

definition forget_stale_hook_session :: "ustr \<Rightarrow> ustr \<Rightarrow> agent_session_ref \<Rightarrow> terminal_state \<Rightarrow> terminal_state" where
  "forget_stale_hook_session source label r t =
     (case hget (t_stale t) source of
        None \<Rightarrow> t
      | Some xs \<Rightarrow>
          (let ys = filter (\<lambda>x. st_agent_label x \<noteq> label \<or> st_session_ref x \<noteq> r) xs
           in t\<lparr>t_stale := (if ys = [] then hdel source (t_stale t) else hput source ys (t_stale t))\<rparr>))"

definition suppress_hook_report_with_session_ref ::
  "ustr \<Rightarrow> ustr \<Rightarrow> agent_session_ref option \<Rightarrow> hook_suppression_reason \<Rightarrow> instant \<Rightarrow> terminal_state \<Rightarrow> terminal_state" where
  "suppress_hook_report_with_session_ref source label r reason observed_at t =
     (let t1 = (case hget (t_stale t) source of
            Some xs \<Rightarrow> t\<lparr>t_stale := hput source (map (\<lambda>x. if st_agent_label x = label then observe_retirement observed_at x else x) xs) (t_stale t)\<rparr>
          | None \<Rightarrow> t)
      in t1\<lparr>t_suppressed := hput source \<lparr>su_agent_label = label, su_session_ref = r, su_observed_at = observed_at,
             su_last_loss = (if reason = ProcessExit then Some observed_at else None), su_reason = reason\<rparr> (t_suppressed t1)\<rparr>)"

definition suppress_hook_report :: "ustr \<Rightarrow> ustr \<Rightarrow> hook_suppression_reason \<Rightarrow> instant \<Rightarrow> terminal_state \<Rightarrow> terminal_state" where
  "suppress_hook_report source label reason observed_at t =
     (if hook_report_retirement_applies source label
      then suppress_hook_report_with_session_ref source label (owned_session_ref t source label) reason observed_at t else t)"

definition suppress_current_hook_authority :: "hook_suppression_reason \<Rightarrow> instant \<Rightarrow> terminal_state \<Rightarrow> terminal_state" where
  "suppress_current_hook_authority reason observed_at t =
     (case t_hook_authority t of
        Some a \<Rightarrow>
          (if full_lifecycle_hook_authority (ha_source a) (ha_agent_label a)
           then suppress_hook_report_with_session_ref (ha_source a) (ha_agent_label a) (ha_session_ref a) reason observed_at t else t)
      | None \<Rightarrow> t)"

definition retire_hook_identity :: "hook_suppression_reason \<Rightarrow> instant \<Rightarrow> terminal_state \<Rightarrow> hook_identity option \<times> terminal_state" where
  "retire_hook_identity reason observed_at t =
     (case t_hook_identity t of
        None \<Rightarrow> (None, t)
      | Some i \<Rightarrow>
          (let t1 = t\<lparr>t_hook_identity := None\<rparr>;
               t2 = (if reason = ProcessExit then t1\<lparr>t_hook_sequences := hdel (hi_source i) (t_hook_sequences t1)\<rparr> else t1)
           in (Some i, suppress_hook_report (hi_source i) (hi_agent_label i) reason observed_at t2)))"

definition retire_suppressed_session_after_accepting ::
  "ustr \<Rightarrow> ustr \<Rightarrow> agent_session_ref option \<Rightarrow> terminal_state \<Rightarrow> terminal_state" where
  "retire_suppressed_session_after_accepting source label accepted t =
     (let t1 = (case hget (t_suppressed t) source of
            None \<Rightarrow> t
          | Some s \<Rightarrow>
              (let t' = t\<lparr>t_suppressed := hdel source (t_suppressed t)\<rparr>
               in case su_session_ref s of
                    Some r \<Rightarrow> remember_stale_hook_session source (su_agent_label s) r (su_observed_at s) None (su_last_loss s) t'
                  | None \<Rightarrow> t'))
      in case accepted of Some r \<Rightarrow> forget_stale_hook_session source label r t1 | None \<Rightarrow> t1)"

definition hook_report_is_suppressed :: "terminal_state \<Rightarrow> ustr \<Rightarrow> ustr \<Rightarrow> agent_session_ref option \<Rightarrow> bool" where
  "hook_report_is_suppressed t source label r =
     (if \<not> hook_report_retirement_applies source label then False
      else some_and (\<lambda>s.
          if su_agent_label s \<noteq> label then False
          else if su_reason s = ProcessExit then True
          else case (su_session_ref s, r) of
              (Some suppressed_ref, Some incoming) \<Rightarrow> incoming = suppressed_ref
            | (Some _, None) \<Rightarrow> True
            | (None, Some _) \<Rightarrow> False
            | (None, None) \<Rightarrow> True) (hget (t_suppressed t) source))"

definition hook_report_has_fresh_session_after_suppression :: "terminal_state \<Rightarrow> ustr \<Rightarrow> ustr \<Rightarrow> agent_session_ref option \<Rightarrow> bool" where
  "hook_report_has_fresh_session_after_suppression t source label r =
     (if \<not> hook_report_retirement_applies source label then False
      else some_and (\<lambda>s. su_agent_label s = label \<and> su_reason s \<noteq> ProcessExit \<and>
          (case (su_session_ref s, r) of (Some suppressed_ref, Some incoming) \<Rightarrow> incoming \<noteq> suppressed_ref | _ \<Rightarrow> False))
        (hget (t_suppressed t) source))"

definition hook_report_matches_stale_session :: "terminal_state \<Rightarrow> ustr \<Rightarrow> ustr \<Rightarrow> agent_session_ref option \<Rightarrow> bool" where
  "hook_report_matches_stale_session t source label r =
     (if \<not> hook_report_retirement_applies source label then False
      else some_and (\<lambda>xs. some_and (\<lambda>incoming. list_ex (\<lambda>x. st_agent_label x = label \<and> incoming = st_session_ref x) xs) r)
        (hget (t_stale t) source))"

definition hook_report_has_fresh_session_after_stale_session :: "terminal_state \<Rightarrow> ustr \<Rightarrow> ustr \<Rightarrow> agent_session_ref option \<Rightarrow> bool" where
  "hook_report_has_fresh_session_after_stale_session t source label r =
     (if \<not> hook_report_retirement_applies source label then False
      else some_and (\<lambda>xs. list_ex (\<lambda>x. st_agent_label x = label) xs \<and>
          some_and (\<lambda>incoming. list_all (\<lambda>x. st_agent_label x \<noteq> label \<or> incoming \<noteq> st_session_ref x) xs) r)
        (hget (t_stale t) source))"

definition explicit_session_start_reclaims_stale_session ::
  "terminal_state \<Rightarrow> ustr \<Rightarrow> ustr \<Rightarrow> agent_session_ref option \<Rightarrow> ustr option \<Rightarrow> bool" where
  "explicit_session_start_reclaims_stale_session t source label r reason =
     (if \<not> session_start_source_allows_session_replacement source label reason then False
      else some_and (\<lambda>incoming. some_and (list_ex (\<lambda>x. st_agent_label x = label \<and> st_session_ref x = incoming \<and>
             has_reclaimable_process_evidence x)) (hget (t_stale t) source)) r)"

definition hook_report_sequence_reset_after_retirement ::
  "terminal_state \<Rightarrow> ustr \<Rightarrow> ustr \<Rightarrow> agent_session_ref option \<Rightarrow> ustr option \<Rightarrow> bool option" where
  "hook_report_sequence_reset_after_retirement t source label r reason =
     (if hook_report_is_suppressed t source label r then None
      else if hook_report_matches_stale_session t source label r then
        (if \<not> explicit_session_start_reclaims_stale_session t source label r reason then None else Some True)
      else Some (hook_report_has_fresh_session_after_suppression t source label r \<or>
                 hook_report_has_fresh_session_after_stale_session t source label r))"

definition hook_report_is_stale :: "terminal_state \<Rightarrow> ustr \<Rightarrow> u64 option \<Rightarrow> bool" where
  "hook_report_is_stale t source seq =
     (case seq of
        None \<Rightarrow> hget (t_hook_sequences t) source \<noteq> None
      | Some q \<Rightarrow> some_and (\<lambda>last. q \<le> last) (hget (t_hook_sequences t) source))"

definition plan_hook_report_admission ::
  "terminal_state \<Rightarrow> ustr \<Rightarrow> ustr \<Rightarrow> agent_session_ref option \<Rightarrow> ustr option \<Rightarrow> u64 option \<Rightarrow> bool \<Rightarrow> bool \<Rightarrow> hook_report_admission" where
  "plan_hook_report_admission t source label r reason seq check_retirement sequence_exempt =
     (case (if check_retirement then hook_report_sequence_reset_after_retirement t source label r reason else Some False) of
        None \<Rightarrow> Refuse
      | Some reset_sequence \<Rightarrow>
          (if \<not> sequence_exempt \<and> \<not> reset_sequence \<and> hook_report_is_stale t source seq then Refuse
           else Accept reset_sequence (if sequence_exempt then None else seq)))"

text \<open>Committing a refused admission is unreachable in the code; the model leaves the state alone there.\<close>

fun commit_hook_report_admission :: "ustr \<Rightarrow> hook_report_admission \<Rightarrow> terminal_state \<Rightarrow> terminal_state" where
  "commit_hook_report_admission source Refuse t = t"
| "commit_hook_report_admission source (Accept reset_sequence sequence_to_store) t =
     (let t1 = (if reset_sequence then t\<lparr>t_hook_sequences := hdel source (t_hook_sequences t)\<rparr> else t)
      in case sequence_to_store of
           Some q \<Rightarrow> t1\<lparr>t_hook_sequences := hput source q (t_hook_sequences t1)\<rparr>
         | None \<Rightarrow> t1)"

definition clear_hook_suppression_for_detected_agent :: "host \<Rightarrow> agent option \<Rightarrow> instant \<Rightarrow> terminal_state \<Rightarrow> terminal_state" where
  "clear_hook_suppression_for_detected_agent H detected observed_at t =
     (case detected of
        None \<Rightarrow> t
      | Some d \<Rightarrow>
          (let should_clear = (\<lambda>s. parse_label H (su_agent_label s) = Some d \<and> su_observed_at s < observed_at \<and>
                 none_or (\<lambda>lost_at. lost_at < observed_at) (su_last_loss s));
               cleared = filter (\<lambda>(_, s). should_clear s) (t_suppressed t);
               t1 = t\<lparr>t_suppressed := filter (\<lambda>(_, s). \<not> should_clear s) (t_suppressed t)\<rparr>;
               t2 = fold (\<lambda>(source, s) u. case su_session_ref s of
                   Some r \<Rightarrow> remember_stale_hook_session source (su_agent_label s) r (su_observed_at s) (Some observed_at) (su_last_loss s) u
                 | None \<Rightarrow> u) cleared t1;
               t3 = t2\<lparr>t_stale := map (\<lambda>(source, xs). (source, map (\<lambda>x.
                   if parse_label H (st_agent_label x) = Some d then record_fresh_process_evidence observed_at x else x) xs)) (t_stale t2)\<rparr>
           in if cleared \<noteq> []
              then t3\<lparr>t_hook_sequences := filter (\<lambda>(source, _). \<not> hook_report_retirement_applies source (agent_label d)) (t_hook_sequences t3)\<rparr>
              else t3))"

definition shows_loss_of :: "host \<Rightarrow> agent option \<Rightarrow> bool \<Rightarrow> ustr \<Rightarrow> bool" where
  "shows_loss_of H detected process_exited label =
     some_and (\<lambda>ow. (process_exited \<and> detected = Some ow) \<or> some_and (\<lambda>d. d \<noteq> ow) detected) (parse_label H label)"

definition observe_process_loss_for_retired_owners :: "host \<Rightarrow> agent option \<Rightarrow> bool \<Rightarrow> instant \<Rightarrow> terminal_state \<Rightarrow> terminal_state" where
  "observe_process_loss_for_retired_owners H detected process_exited observed_at t =
     (let t1 = t\<lparr>t_suppressed := map (\<lambda>(source, s). (source,
            if shows_loss_of H detected process_exited (su_agent_label s) then suppressed_observe_process_loss observed_at s else s)) (t_suppressed t)\<rparr>
      in t1\<lparr>t_stale := map (\<lambda>(source, xs). (source, map (\<lambda>x.
           if shows_loss_of H detected process_exited (st_agent_label x) then observe_process_loss observed_at x else x) xs)) (t_stale t1)\<rparr>)"

definition detected_state_observed_before_release_suppression :: "host \<Rightarrow> terminal_state \<Rightarrow> agent option \<Rightarrow> instant \<Rightarrow> bool" where
  "detected_state_observed_before_release_suppression H t detected observed_at =
     some_and (\<lambda>d. list_ex (\<lambda>(_, s). parse_label H (su_agent_label s) = Some d \<and> observed_at \<le> su_observed_at s) (t_suppressed t)) detected"

end
