(* ===== verification/Terminal_Ops.thy ===== *)
theory Terminal_Ops
  imports Hook_Arbitration
begin

text \<open>
  The operations on a terminal: detector observations, hook reports, session starts, clears and
  releases, metadata, managed agents, the snapshot that survives a live handoff
  (\<open>terminal/state.rs\<close>, \<open>terminal/metadata.rs\<close>), and the dispatch of application events to them
  (\<open>app/actions.rs\<close>).
\<close>

section \<open>Detector observations\<close>

definition finish_mutation ::
  "host \<Rightarrow> effective_view \<Rightarrow> (ustr \<times> ustr \<times> session_ref_kind \<times> ustr) option \<Rightarrow> bool \<Rightarrow> instant \<Rightarrow> terminal_state \<Rightarrow>
   terminal_state_mutation \<times> terminal_state" where
  "finish_mutation H previous previous_session released now t =
     (let (change, t') = recompute_effective_state H previous now t
      in (\<lparr>tm_effective_state_change = change,
           tm_session_ref_changed = (previous_session \<noteq> current_session_identity_for_persistence t'),
           tm_agent_released = released\<rparr>, t'))"

definition exit_authority :: "host \<Rightarrow> agent option \<Rightarrow> bool \<Rightarrow> instant \<Rightarrow> terminal_state \<times> bool \<Rightarrow> terminal_state \<times> bool" where
  "exit_authority H agent process_exited now = (\<lambda>(t, released).
     case (if process_exited then t_hook_authority t else None) of
       None \<Rightarrow> (t, released)
     | Some a \<Rightarrow>
         (if parse_label H (ha_agent_label a) \<noteq> agent then (t, released)
          else if hook_authority_not_newer_than t now \<or>
             hook_owner_has_unanswered_exit_older_than t (ha_source a) (ha_agent_label a) now
          then (let u = suppress_current_hook_authority ProcessExit now t
                in (u\<lparr>t_hook_sequences := hdel (ha_source a) (t_hook_sequences u), t_hook_authority := None\<rparr>, released))
          else (hold_hook_owner_unconfirmed (ha_source a) (ha_agent_label a) now t, False)))"

definition exit_identity :: "host \<Rightarrow> agent option \<Rightarrow> bool \<Rightarrow> instant \<Rightarrow> terminal_state \<times> bool \<Rightarrow> terminal_state \<times> bool" where
  "exit_identity H agent process_exited now = (\<lambda>(t, released).
     case (case (if process_exited then t_hook_identity t else None) of
             Some i \<Rightarrow> if parse_label H (hi_agent_label i) = agent then Some i else None
           | None \<Rightarrow> None) of
       Some i \<Rightarrow>
         (if hook_identity_not_newer_than t now \<or>
             hook_owner_has_unanswered_exit_older_than t (hi_source i) (hi_agent_label i) now
          then (snd (retire_hook_identity ProcessExit now t), released)
          else (hold_hook_owner_unconfirmed (hi_source i) (hi_agent_label i) now t, False))
     | None \<Rightarrow>
         (if hook_identity_not_newer_than t now \<and> hook_identity_conflicts_with_detected_agent H t agent
          then (snd (retire_hook_identity (if process_exited then ProcessExit else HookClear) now t), released)
          else (t, released)))"

definition drop_exited_session :: "host \<Rightarrow> agent option \<Rightarrow> bool \<Rightarrow> terminal_state \<Rightarrow> terminal_state" where
  "drop_exited_session H agent process_exited t =
     (if process_exited \<and> \<not> persisted_session_is_anchored_by_hook_identity t \<and>
         some_and (\<lambda>s. parse_label H (ps_agent s) = agent) (t_persisted_session t)
      then t\<lparr>t_persisted_session := None\<rparr> else t)"

definition drop_conflicting_authority :: "host \<Rightarrow> agent option \<Rightarrow> agent option \<Rightarrow> instant \<Rightarrow> terminal_state \<Rightarrow> terminal_state" where
  "drop_conflicting_authority H agent previous_detected now t =
     (if hook_authority_not_newer_than t now \<and>
         (hook_authority_conflicts_with_detected_agent H t agent \<or>
          (previous_detected \<noteq> None \<and> agent \<noteq> previous_detected \<and>
           some_and (\<lambda>a. parse_label H (ha_agent_label a) = previous_detected) (t_hook_authority t)))
      then (let durable = Option.bind (t_hook_authority t) (\<lambda>a. map_option (\<lambda>r.
              \<lparr>ps_source = ha_source a, ps_agent = ha_agent_label a, ps_session_ref = r\<rparr>) (ha_session_ref a));
                u = suppress_current_hook_authority HookClear now t
            in u\<lparr>t_hook_authority := None, t_persisted_session := durable\<rparr>)
      else t)"

definition set_detected_state_with_screen_signals_at ::
  "host \<Rightarrow> agent option \<Rightarrow> agent_state \<Rightarrow> bool \<Rightarrow> bool \<Rightarrow> instant \<Rightarrow> terminal_state \<Rightarrow> terminal_state_mutation \<times> terminal_state" where
  "set_detected_state_with_screen_signals_at H agent fallback_state visible_blocker process_exited now t =
     (let previous = effective_view_at H t now;
          previous_detected = t_detected_agent t;
          previous_session = current_session_identity_for_persistence t;
          released = (process_exited \<and> none_or (\<lambda>m. ma_observation_floor m \<le> now) (t_managed_agent t) \<and>
            (ev_agent_label previous \<noteq> None \<or> t_agent_name t \<noteq> None));
          t1 = (if \<not> process_exited then confirm_pending_hook_owner H agent now t else t)
      in if should_ignore_detected_state_under_full_lifecycle_hook H t1 agent process_exited then
           finish_mutation H previous previous_session False now
             (if Option.bind (t_hook_authority t1) (\<lambda>a. parse_label H (ha_agent_label a)) = agent
              then t1\<lparr>t_detected_agent := agent\<rparr> else t1)
         else if \<not> process_exited \<and> detected_state_observed_before_release_suppression H t1 agent now then
           finish_mutation H previous previous_session False now t1
         else
           (let t2 = t1\<lparr>t_detected_agent := agent\<rparr>;
                t3 = (if \<not> process_exited then clear_hook_suppression_for_detected_agent H agent now t2 else t2);
                t4 = t3\<lparr>t_fallback_state := fallback_state, t_fallback_visible_blocker := (visible_blocker \<and> fallback_state = Blocked),
                       t_fallback_observed_at := Some now\<rparr>;
                (t5, released5) = exit_authority H agent process_exited now (t4, released);
                (t6, released6) = exit_identity H agent process_exited now (t5, released5);
                t7 = observe_process_loss_for_retired_owners H agent process_exited now t6;
                t8 = drop_exited_session H agent process_exited t7;
                t9 = drop_conflicting_authority H agent previous_detected now t8
            in finish_mutation H previous previous_session released6 now t9))"

section \<open>Hook reports\<close>

definition clamp_session_ref :: "terminal_state \<Rightarrow> ustr \<Rightarrow> ustr \<Rightarrow> agent_session_ref option \<Rightarrow> agent_session_ref option" where
  "clamp_session_ref t source label r =
     map_option (\<lambda>r. case conflicting_same_owner_session_ref t source label r None of Some c \<Rightarrow> c | None \<Rightarrow> r) r"

definition record_identity_only_hook_report_at ::
  "host \<Rightarrow> ustr \<Rightarrow> ustr \<Rightarrow> agent_session_ref option \<Rightarrow> u64 option \<Rightarrow> instant \<Rightarrow> terminal_state \<Rightarrow>
   terminal_state_mutation option \<times> terminal_state" where
  "record_identity_only_hook_report_at H source label r seq now t =
     (if known_agent_label_conflicts_with_detected_agent H t label \<or> current_session_owner_conflicts t source label then (None, t)
      else let admission = plan_hook_report_admission t source label r None seq True False
      in if admission = Refuse then (None, t)
      else let session = clamp_session_ref t source label r;
               previous_session = current_session_identity_for_persistence t;
               t1 = commit_hook_report_admission source admission t;
               t2 = (if session \<noteq> None then retire_suppressed_session_after_accepting source label session t1 else t1);
               identity_changed = none_or (\<lambda>i. hi_source i \<noteq> source \<or> hi_agent_label i \<noteq> label) (t_hook_identity t2);
               t3 = t2\<lparr>t_hook_identity := Some \<lparr>hi_source = source, hi_agent_label = label, hi_reported_at = now,
                     hi_unconfirmed_since = unanswered_exit_to_inherit t2 source label\<rparr>\<rparr>;
               t4 = advance_session_owner_epoch now t3;
               t5 = (case session of
                   Some r \<Rightarrow> t4\<lparr>t_persisted_session := Some \<lparr>ps_source = source, ps_agent = label, ps_session_ref = r\<rparr>\<rparr>
                 | None \<Rightarrow> t4);
               session_changed = (previous_session \<noteq> current_session_identity_for_persistence t5)
           in (if identity_changed \<or> session_changed
               then Some \<lparr>tm_effective_state_change = None, tm_session_ref_changed = session_changed, tm_agent_released = False\<rparr>
               else None, t5))"

definition set_hook_authority_at ::
  "host \<Rightarrow> ustr \<Rightarrow> ustr \<Rightarrow> agent_state \<Rightarrow> ustr option \<Rightarrow> agent_session_ref option \<Rightarrow> u64 option \<Rightarrow> instant \<Rightarrow> terminal_state \<Rightarrow>
   terminal_state_mutation option \<times> terminal_state" where
  "set_hook_authority_at H source label state message r seq now t =
     (if session_identity_only_integration source label then record_identity_only_hook_report_at H source label r seq now t
      else if opencode_state_report_is_cross_talk H t source label r then (None, t)
      else if known_agent_label_conflicts_with_detected_agent H t label \<or> current_session_owner_conflicts t source label then (None, t)
      else let session = clamp_session_ref t source label r
      in if live_full_lifecycle_hook_authority_conflicts_with_session t source label session then (None, t)
      else let admission = plan_hook_report_admission t source label r None seq True False
      in if admission = Refuse then (None, t)
      else let previous = effective_view_at H t now;
               previous_session = current_session_identity_for_persistence t;
               t1 = commit_hook_report_admission source admission t;
               t2 = (if session \<noteq> None then retire_suppressed_session_after_accepting source label session t1 else t1);
               t3 = (if some_and (\<lambda>i. hi_source i \<noteq> source \<or> hi_agent_label i \<noteq> label) (t_hook_identity t2)
                     then t2\<lparr>t_hook_identity := None\<rparr> else t2);
               t4 = t3\<lparr>t_persisted_session := None\<rparr>;
               t5 = t4\<lparr>t_hook_authority := Some \<lparr>ha_source = source, ha_agent_label = label, ha_state = state, ha_message = message,
                     ha_reported_at = now, ha_session_ref = session,
                     ha_unconfirmed_since = unanswered_exit_to_inherit t4 source label\<rparr>\<rparr>;
               t6 = advance_session_owner_epoch now t5;
               (mutation, t7) = finish_mutation H previous previous_session False now t6
           in (Some mutation, t7))"

definition set_persisted_agent_session_at :: "persisted_agent_session \<Rightarrow> instant \<Rightarrow> terminal_state \<Rightarrow> terminal_state" where
  "set_persisted_agent_session_at s now t = advance_session_owner_epoch now (t\<lparr>t_persisted_session := Some s\<rparr>)"

definition process_observation_allows_different_owner ::
  "host \<Rightarrow> terminal_state \<Rightarrow> ustr \<Rightarrow> ustr \<Rightarrow> agent_session_ref \<Rightarrow> ustr option \<Rightarrow> foreground_process_observation option \<Rightarrow> instant \<Rightarrow> bool" where
  "process_observation_allows_different_owner H t source label r reason observation now =
     (case (t_session_owner_epoch t, observation, parse_label H label) of
        (Some epoch, Some obs, Some agent) \<Rightarrow>
          t_hook_authority t = None \<and> t_hook_identity t = None \<and>
          session_start_allows_different_owner source label reason \<and>
          plan source label r None \<noteq> None \<and>
          t_detected_agent t = Some agent \<and> fp_agent obs = Some agent \<and>
          epoch < fp_observed_at obs \<and> fp_observed_at obs \<le> now
      | _ \<Rightarrow> False)"

definition replaces_identity_only_session :: "terminal_state \<Rightarrow> ustr \<Rightarrow> ustr \<Rightarrow> agent_session_ref \<Rightarrow> ustr option \<Rightarrow> bool" where
  "replaces_identity_only_session t source label r reason \<longleftrightarrow>
     session_identity_only_integration source label \<and>
     session_start_source_allows_session_replacement source label reason \<and>
     some_and (\<lambda>(s, l, kind, value). s = source \<and> l = label \<and> kind = Id \<and> sr_kind r = Id \<and> value \<noteq> sr_value r)
       (current_session_identity_for_persistence t)"

definition set_agent_session_ref_for_session_start_at ::
  "host \<Rightarrow> ustr \<Rightarrow> ustr \<Rightarrow> agent_session_ref option \<Rightarrow> u64 option \<Rightarrow> ustr option \<Rightarrow> foreground_process_observation option \<Rightarrow>
   instant \<Rightarrow> terminal_state \<Rightarrow> terminal_state_mutation option \<times> terminal_state" where
  "set_agent_session_ref_for_session_start_at H source label session_ref seq reason observation now t =
     (case session_ref of
        None \<Rightarrow> (None, t)
      | Some r \<Rightarrow>
     (let owner_conflicts = current_session_owner_conflicts t source label
      in if owner_conflicts \<and> \<not> process_observation_allows_different_owner H t source label r reason observation now then (None, t)
      else if known_agent_label_conflicts_with_detected_agent H t label then (None, t)
      else let process_present = some_and (\<lambda>known. t_detected_agent t = Some known) (parse_label H label)
      in if replaces_identity_only_session t source label r reason \<and> \<not> process_present then (None, t)
      else if conflicting_same_owner_session_ref t source label r reason \<noteq> None then (None, t)
      else let replacement_allowed = session_start_source_allows_session_replacement source label reason;
               replaced = same_owner_full_lifecycle_hook_authority_session_ref t source label r
      in if replaced \<noteq> None \<and> \<not> replacement_allowed then (None, t)
      else let admission = plan_hook_report_admission t source label (Some r) reason seq
                 (owner_conflicts \<or> session_identity_only_integration source label)
                 (is_unsequenced_opencode_selection source label reason seq)
      in if admission = Refuse then (None, t)
      else let previous = effective_view_at H t now;
               previous_session = current_session_identity_for_persistence t;
               t1 = commit_hook_report_admission source admission t;
               t2 = (if replacement_allowed then forget_stale_hook_session source label r t1 else t1);
               t3 = (case replaced of
                   Some old \<Rightarrow> (remember_stale_hook_session source label old now None None t2)\<lparr>t_hook_authority := None\<rparr>
                 | None \<Rightarrow> t2);
               t4 = (case (if owner_conflicts then t_persisted_session t3 else None) of
                   Some old \<Rightarrow> remember_stale_hook_session (ps_source old) (ps_agent old) (ps_session_ref old) now None None t3
                 | None \<Rightarrow> t3);
               t5 = (if session_identity_only_integration source label
                     then let u = retire_suppressed_session_after_accepting source label (Some r) t4
                          in u\<lparr>t_hook_identity := Some \<lparr>hi_source = source, hi_agent_label = label, hi_reported_at = now,
                               hi_unconfirmed_since = unanswered_exit_to_inherit u source label\<rparr>\<rparr>
                     else t4);
               t6 = t5\<lparr>t_persisted_session := Some \<lparr>ps_source = source, ps_agent = label, ps_session_ref = r\<rparr>\<rparr>;
               t7 = advance_session_owner_epoch now t6;
               (mutation, t8) = finish_mutation H previous previous_session False now t7
           in (Some mutation, t8)))"

definition set_agent_session_ref ::
  "host \<Rightarrow> ustr \<Rightarrow> ustr \<Rightarrow> agent_session_ref option \<Rightarrow> u64 option \<Rightarrow> instant \<Rightarrow> terminal_state \<Rightarrow> terminal_state_mutation option \<times> terminal_state" where
  "set_agent_session_ref H source label r seq now t =
     set_agent_session_ref_for_session_start_at H source label r seq None None now t"

section \<open>Clear and release\<close>

definition clear_sequence_sources :: "terminal_state \<Rightarrow> ustr option \<Rightarrow> ustr list" where
  "clear_sequence_sources t source =
     (case source of
        Some s \<Rightarrow> [s]
      | None \<Rightarrow>
          (let xs = (case t_hook_authority t of Some a \<Rightarrow> [ha_source a] | None \<Rightarrow> []);
               ys = (case t_hook_identity t of Some i \<Rightarrow> if hi_source i \<in> set xs then xs else xs @ [hi_source i] | None \<Rightarrow> xs)
           in case t_persisted_session t of Some p \<Rightarrow> if ps_source p \<in> set ys then ys else ys @ [ps_source p] | None \<Rightarrow> ys))"

definition clear_hook_authority_with_mutation ::
  "host \<Rightarrow> ustr option \<Rightarrow> u64 option \<Rightarrow> instant \<Rightarrow> terminal_state \<Rightarrow> terminal_state_mutation option \<times> terminal_state" where
  "clear_hook_authority_with_mutation H source seq now t =
     (let sources = clear_sequence_sources t source;
          clear_authority = some_and (\<lambda>a. none_or (\<lambda>s. ha_source a = s) source) (t_hook_authority t);
          clear_identity = some_and (\<lambda>i. none_or (\<lambda>s. hi_source i = s) source) (t_hook_identity t);
          clear_persisted = some_and (\<lambda>p. none_or (\<lambda>s. ps_source p = s) source) (t_persisted_session t)
      in if list_ex (\<lambda>s. hook_report_is_stale t s seq) sources then (None, t)
      else if \<not> clear_authority \<and> \<not> clear_identity \<and> \<not> clear_persisted then (None, t)
      else let t1 = fold (\<lambda>s. commit_hook_report_admission s (Accept False seq)) sources t;
               previous = effective_view_at H t1 now;
               previous_session = current_session_identity_for_persistence t1;
               t2 = (if clear_authority then suppress_current_hook_authority HookClear now t1 else t1);
               (cleared_identity, t3) = (if clear_identity then retire_hook_identity HookClear now t2 else (None, t2));
               t4 = (if clear_authority then t3\<lparr>t_hook_authority := None, t_persisted_session := None\<rparr>
                     else case cleared_identity of
                       Some i \<Rightarrow> if persisted_agent_session_matches t3 (hi_source i) (hi_agent_label i)
                                then t3\<lparr>t_persisted_session := None\<rparr> else t3
                     | None \<Rightarrow> if clear_persisted then t3\<lparr>t_persisted_session := None\<rparr> else t3);
               (mutation, t5) = finish_mutation H previous previous_session False now t4
           in (Some mutation, t5))"

definition release_agent_with_mutation ::
  "host \<Rightarrow> ustr \<Rightarrow> ustr \<Rightarrow> u64 option \<Rightarrow> instant \<Rightarrow> terminal_state \<Rightarrow> terminal_state_mutation option \<times> terminal_state" where
  "release_agent_with_mutation H source label seq now t =
     (if some_and (\<lambda>a. ha_agent_label a \<noteq> label \<or> ha_source a \<noteq> source) (t_hook_authority t) then (None, t)
      else let owns_authority = some_and (\<lambda>a. ha_source a = source \<and> ha_agent_label a = label) (t_hook_authority t);
               foreign_identity = some_and (\<lambda>i. hi_agent_label i \<noteq> label \<or> hi_source i \<noteq> source) (t_hook_identity t)
      in if foreign_identity \<and> \<not> owns_authority then (None, t)
      else if effective_agent_label t \<noteq> Some label \<and> \<not> persisted_agent_session_matches t source label \<and>
          \<not> some_and (\<lambda>i. hi_source i = source \<and> hi_agent_label i = label) (t_hook_identity t) then (None, t)
      else let foreign_session = some_and (\<lambda>s. ps_source s \<noteq> source \<or> ps_agent s \<noteq> label) (t_persisted_session t);
               admission = plan_hook_report_admission t source label None None seq False False
      in if admission = Refuse then (None, t)
      else let previous = effective_view_at H t now;
               previous_session = current_session_identity_for_persistence t;
               t1 = commit_hook_report_admission source admission t;
               t2 = suppress_hook_report source label HookClear now t1;
               t3 = t2\<lparr>t_detected_agent := None, t_fallback_state := Unknown, t_fallback_visible_blocker := False,
                     t_fallback_observed_at := None, t_hook_authority := None\<rparr>;
               t4 = (if \<not> foreign_identity then t3\<lparr>t_hook_identity := None\<rparr> else t3);
               t5 = (if \<not> foreign_session then t4\<lparr>t_persisted_session := None\<rparr> else t4);
               (mutation, t6) = finish_mutation H previous previous_session True now t5
           in (Some mutation, t6))"

section \<open>Respawn and restored presentation\<close>

definition clear_agent_runtime_identity_after_respawn :: "terminal_state \<Rightarrow> terminal_state" where
  "clear_agent_runtime_identity_after_respawn t =
     clear_agent_name (t\<lparr>t_detected_agent := None, t_fallback_state := Unknown, t_fallback_visible_blocker := False,
       t_fallback_observed_at := None, t_hook_authority := None, t_hook_identity := None, t_persisted_session := None,
       t_session_owner_epoch := None, t_agent_metadata := [], t_suppressed := [], t_stale := [], t_state := Unknown,
       t_last_change_seq := None, t_launch_argv := None, t_respawn_shell_on_exit := False, t_pending_resume_plan := None\<rparr>)"

definition seed_restored_agent_presentation :: "agent \<Rightarrow> terminal_state \<Rightarrow> terminal_state" where
  "seed_restored_agent_presentation agent t =
     t\<lparr>t_detected_agent := Some agent, t_fallback_state := Idle, t_fallback_visible_blocker := False,
       t_fallback_observed_at := None, t_state := Idle\<rparr>"

end
