(* ===== verification/Terminal_Agents.thy ===== *)
theory Terminal_Agents
  imports Terminal_Ops
begin

text \<open>
  Metadata reports of a terminal (\<open>terminal/metadata.rs\<close>) and managed agents, which the program
  launched itself and follows until they are ready or gone (\<open>terminal/state.rs\<close>).
\<close>

section \<open>Metadata reports\<close>

definition accept_metadata_report :: "ustr \<Rightarrow> u64 option \<Rightarrow> bool \<Rightarrow> terminal_state \<Rightarrow> (unit + bool) \<times> terminal_state" where
  "accept_metadata_report source seq includes_tokens t =
     (case seq of
        None \<Rightarrow> (Inr True, t)
      | Some q \<Rightarrow>
          (if \<not> sequence_is_fresh (t_metadata_sequences t) source (Some q) then (Inr False, t)
           else if includes_tokens \<and> source \<notin> set (t_metadata_token_sources t) \<and>
              length (t_metadata_token_sources t) \<ge> max_sequence_sources then (Inl (), t)
           else let t1 = t\<lparr>t_metadata_sequences := hput source q (t_metadata_sequences t)\<rparr>
                in (Inr True, if includes_tokens
                      then t1\<lparr>t_metadata_token_sources := List.insert source (t_metadata_token_sources t1)\<rparr> else t1)))"

definition new_metadata :: "agent_metadata_report \<Rightarrow> instant \<Rightarrow> agent_metadata" where
  "new_metadata report now =
     \<lparr>am_source = ar_source report, am_agent_label = ar_agent_label report, am_applies_to_source = ar_applies_to_source report,
      am_title = None, am_display_agent = None, am_state_labels = [], am_reported_at = now, am_title_reported_at = None,
      am_display_agent_reported_at = None, am_state_label_reported_at = [], am_ttl = ar_ttl report, am_expiry_event_pending = False\<rparr>"

definition patch_metadata :: "agent_metadata_report \<Rightarrow> bool \<Rightarrow> instant \<Rightarrow> agent_metadata \<Rightarrow> agent_metadata" where
  "patch_metadata report has_set_fields now m =
     (let m1 = (if ar_clear_title report then m\<lparr>am_title := None, am_title_reported_at := None\<rparr> else m);
          m2 = (if ar_clear_display_agent report then m1\<lparr>am_display_agent := None, am_display_agent_reported_at := None\<rparr> else m1);
          m3 = (if ar_clear_state_labels report then m2\<lparr>am_state_labels := [], am_state_label_reported_at := []\<rparr> else m2);
          m4 = (case ar_agent_label report of Some l \<Rightarrow> m3\<lparr>am_agent_label := Some l\<rparr> | None \<Rightarrow> m3);
          m5 = (case ar_applies_to_source report of Some s \<Rightarrow> m4\<lparr>am_applies_to_source := Some s\<rparr> | None \<Rightarrow> m4);
          m6 = (case ar_title report of Some x \<Rightarrow> m5\<lparr>am_title := Some x, am_title_reported_at := Some now\<rparr> | None \<Rightarrow> m5);
          m7 = (case ar_display_agent report of Some x \<Rightarrow> m6\<lparr>am_display_agent := Some x, am_display_agent_reported_at := Some now\<rparr> | None \<Rightarrow> m6);
          m8 = fold (\<lambda>(state, label) m. m\<lparr>am_state_labels := hput state label (am_state_labels m),
                 am_state_label_reported_at := hput state now (am_state_label_reported_at m)\<rparr>) (ar_state_labels report) m7
      in if has_set_fields \<or> ar_ttl report \<noteq> None
         then m8\<lparr>am_reported_at := now, am_ttl := ar_ttl report, am_expiry_event_pending := False\<rparr> else m8)"

definition fresh_metadata :: "agent_metadata_report \<Rightarrow> instant \<Rightarrow> agent_metadata" where
  "fresh_metadata report now =
     \<lparr>am_source = ar_source report, am_agent_label = ar_agent_label report, am_applies_to_source = ar_applies_to_source report,
      am_title = ar_title report, am_display_agent = ar_display_agent report, am_state_labels = ar_state_labels report,
      am_reported_at = now, am_title_reported_at = map_option (\<lambda>_. now) (ar_title report),
      am_display_agent_reported_at = map_option (\<lambda>_. now) (ar_display_agent report),
      am_state_label_reported_at = map (\<lambda>(state, _). (state, now)) (ar_state_labels report),
      am_ttl = ar_ttl report, am_expiry_event_pending = False\<rparr>"

definition set_agent_metadata ::
  "host \<Rightarrow> agent_metadata_report \<Rightarrow> instant \<Rightarrow> terminal_state \<Rightarrow> terminal_state_mutation option \<times> terminal_state" where
  "set_agent_metadata H report now t =
     (let (accepted, t1) = accept_metadata_report (ar_source report) (ar_seq report) False t
      in if accepted \<noteq> Inr True then (None, t1)
      else let source = ar_source report;
               t2 = (if some_and (\<lambda>m. agent_metadata_is_expired H m now) (hget (t_agent_metadata t1) source)
                     then t1\<lparr>t_agent_metadata := hdel source (t_agent_metadata t1)\<rparr> else t1);
               previous = effective_view_at H t2 now;
               has_set_fields = (ar_title report \<noteq> None \<or> ar_display_agent report \<noteq> None \<or> ar_state_labels report \<noteq> []);
               m = (if ar_clear_title report \<or> ar_clear_display_agent report \<or> ar_clear_state_labels report
                    then patch_metadata report has_set_fields now
                      (case hget (t_agent_metadata t2) source of Some m \<Rightarrow> m | None \<Rightarrow> new_metadata report now)
                    else fresh_metadata report now);
               t3 = t2\<lparr>t_agent_metadata := hput source m (t_agent_metadata t2)\<rparr>;
               t4 = (if ar_ttl report \<noteq> None \<and> some_and (agent_metadata_is_visible_ignoring_ttl t3) (hget (t_agent_metadata t3) source)
                     then t3\<lparr>t_agent_metadata := hput source (m\<lparr>am_expiry_event_pending := True\<rparr>) (t_agent_metadata t3)\<rparr> else t3);
               (change, t5) = recompute_effective_state H previous now t4;
               t6 = (if change \<noteq> None then clear_expiry_pending_for_hidden_metadata t5 else t5)
           in (Some \<lparr>tm_effective_state_change = change, tm_session_ref_changed = False, tm_agent_released = False\<rparr>, t6))"

definition next_agent_metadata_expiry :: "host \<Rightarrow> terminal_state \<Rightarrow> instant \<Rightarrow> instant option" where
  "next_agent_metadata_expiry H t now =
     (let ms = map snd (t_agent_metadata t)
      in min_by_key (\<lambda>x. x) (filter (\<lambda>deadline. now < deadline \<or>
           list_ex (\<lambda>m. am_expiry_event_pending m \<and> agent_metadata_matches_guards t m \<and> agent_metadata_expiry H m = Some deadline) ms)
         (List.map_filter (agent_metadata_expiry H) (filter (agent_metadata_matches_guards t) ms))))"

definition expire_agent_metadata_at ::
  "host \<Rightarrow> instant \<Rightarrow> instant \<Rightarrow> terminal_state \<Rightarrow> terminal_state_mutation option \<times> terminal_state" where
  "expire_agent_metadata_at H scheduled now t =
     (let due = List.map_filter (\<lambda>(source, m). case agent_metadata_expiry H m of
            Some deadline \<Rightarrow> if deadline \<le> now then Some (source, deadline) else None | None \<Rightarrow> None) (t_agent_metadata t);
          expired = map fst (filter (\<lambda>(_, deadline). scheduled \<le> deadline) due);
          stale = map fst (filter (\<lambda>(_, deadline). \<not> scheduled \<le> deadline) due);
          t1 = t\<lparr>t_agent_metadata := fold hdel stale (t_agent_metadata t)\<rparr>
      in if expired = [] then (None, t1)
      else let previous = (effective_view_at H t1 now)\<lparr>ev_presentation := effective_presentation_with_ttl H t1 now False\<rparr>;
               t2 = t1\<lparr>t_agent_metadata := fold hdel expired (t_agent_metadata t1)\<rparr>;
               (change, t3) = recompute_effective_state H previous now t2
           in (Some \<lparr>tm_effective_state_change = change, tm_session_ref_changed = False, tm_agent_released = False\<rparr>, t3))"

section \<open>Managed agents\<close>

definition begin_managed_agent :: "host \<Rightarrow> ustr \<Rightarrow> agent \<Rightarrow> instant \<Rightarrow> duration \<Rightarrow> duration \<Rightarrow> terminal_state \<Rightarrow> terminal_state" where
  "begin_managed_agent H name kind now settle_delay timeout t =
     (set_agent_name name t)\<lparr>t_managed_agent := Some \<lparr>ma_kind = kind, ma_observed_expected = False, ma_observation_floor = now,
       ma_phase = Pending (Some (case instant_checked_add H now settle_delay of Some x \<Rightarrow> x | None \<Rightarrow> now))
         (case instant_checked_add H now timeout of Some x \<Rightarrow> x | None \<Rightarrow> now)\<rparr>\<rparr>"

definition restore_managed_agent :: "ustr \<Rightarrow> agent \<Rightarrow> instant \<Rightarrow> terminal_state \<Rightarrow> terminal_state" where
  "restore_managed_agent name kind now t =
     (set_agent_name name t)\<lparr>t_managed_agent := Some \<lparr>ma_kind = kind, ma_observed_expected = True, ma_observation_floor = now, ma_phase = Active\<rparr>\<rparr>"

definition managed_agent_kind :: "terminal_state \<Rightarrow> agent option" where
  "managed_agent_kind t = map_option ma_kind (t_managed_agent t)"

definition is_pending :: "managed_agent_phase \<Rightarrow> bool" where
  "is_pending p = (case p of Pending _ _ \<Rightarrow> True | Active \<Rightarrow> False)"

definition managed_agent_launch_pending :: "terminal_state \<Rightarrow> bool" where
  "managed_agent_launch_pending t = some_and (\<lambda>m. is_pending (ma_phase m)) (t_managed_agent t)"

definition managed_known_observation_at :: "terminal_state \<Rightarrow> instant option" where
  "managed_known_observation_at t =
     (case t_hook_authority t of Some a \<Rightarrow> Some (ha_reported_at a) | None \<Rightarrow> t_fallback_observed_at t)"

definition managed_ready_observation :: "host \<Rightarrow> terminal_state \<Rightarrow> managed_agent \<Rightarrow> bool" where
  "managed_ready_observation H t m =
     (let state_at = (if visible_blocker_overrides_hook H t \<or> t_hook_authority t = None then t_fallback_observed_at t
            else map_option ha_reported_at (t_hook_authority t));
          ow = or_else (map_option (\<lambda>a. (ha_source a, ha_agent_label a)) (t_hook_authority t))
            (map_option (\<lambda>i. (hi_source i, hi_agent_label i)) (t_hook_identity t));
          provisional = some_and (\<lambda>(source, label). unanswered_exit_to_inherit t source label \<noteq> None \<or>
            some_and (\<lambda>(fenced, _). owner_matches fenced source label) (t_handoff_confirmation t)) ow
      in \<not> provisional \<and> some_and (\<lambda>at. ma_observation_floor m \<le> at) (managed_known_observation_at t) \<and>
         some_and (\<lambda>at. ma_observation_floor m \<le> at) state_at \<and>
         effective_known_agent H t = Some (ma_kind m) \<and> (t_state t = Idle \<or> t_state t = Blocked))"

definition managed_agent_interactive_ready :: "host \<Rightarrow> terminal_state \<Rightarrow> bool" where
  "managed_agent_interactive_ready H t =
     some_and (\<lambda>m. ma_phase m = Active \<and> managed_ready_observation H t m) (t_managed_agent t)"

definition next_managed_agent_deadline :: "terminal_state \<Rightarrow> instant option" where
  "next_managed_agent_deadline t =
     (case map_option ma_phase (t_managed_agent t) of
        Some (Pending ready_after deadline) \<Rightarrow> Some (min (case ready_after of Some x \<Rightarrow> x | None \<Rightarrow> deadline) deadline)
      | _ \<Rightarrow> None)"

definition reconcile_managed_agent_at :: "host \<Rightarrow> instant \<Rightarrow> instant option \<Rightarrow> terminal_state \<Rightarrow> bool \<times> terminal_state" where
  "reconcile_managed_agent_at H now exit_observed_at t =
     (case t_managed_agent t of
        None \<Rightarrow> (False, t)
      | Some m \<Rightarrow>
          (let known = effective_known_agent H t;
               fresh = some_and (\<lambda>at. ma_observation_floor m \<le> at) (managed_known_observation_at t)
           in if some_and (\<lambda>at. ma_observation_floor m \<le> at) exit_observed_at \<or>
                (fresh \<and> (some_and (\<lambda>a. a \<noteq> ma_kind m) known \<or>
                   (is_pending (ma_phase m) \<and> ma_observed_expected m \<and> known = None)))
              then (True, clear_agent_name t)
              else case ma_phase m of
                Active \<Rightarrow> (False, t\<lparr>t_managed_agent := Some m\<rparr>)
              | Pending ready_after deadline \<Rightarrow>
                  (if deadline \<le> now then (True, clear_agent_name t)
                   else let m1 = m\<lparr>ma_observed_expected := (ma_observed_expected m \<or> (fresh \<and> known = Some (ma_kind m)))\<rparr>;
                            m2 = (if none_or (\<lambda>at. at \<le> now) ready_after
                              then m1\<lparr>ma_phase := (if managed_ready_observation H t m1 then Active else Pending None deadline)\<rparr> else m1)
                        in (m2 \<noteq> m, t\<lparr>t_managed_agent := Some m2\<rparr>))))"

end
