(* ===== verification/Terminal_Handoff.thy ===== *)
theory Terminal_Handoff
  imports Terminal_Agents
begin

text \<open>
  What crosses a live handoff (\<open>terminal/state.rs\<close>, \<open>persist/restore.rs\<close>, \<open>persist/snapshot.rs\<close>): the
  retirement fences of a terminal, with every instant carried as an age in milliseconds and
  re-based on the clock of the importing server.
\<close>

record suppressed_snapshot =
  ss_source :: ustr
  ss_agent_label :: ustr
  ss_session_ref :: "agent_session_ref option"
  ss_reason :: hook_suppression_reason
  ss_observed_age_ms :: nat
  ss_last_loss_age_ms :: "nat option"

record stale_snapshot =
  sn_source :: ustr
  sn_agent_label :: ustr
  sn_session_ref :: agent_session_ref
  sn_retired_age_ms :: nat
  sn_last_loss_age_ms :: "nat option"
  sn_evidence_age_ms :: "nat option"

record identity_snapshot =
  is_source :: ustr
  is_agent_label :: ustr
  is_session_ref :: "agent_session_ref option"
  is_reported_age_ms :: nat
  is_unconfirmed_age_ms :: "nat option"

record unanswered_exit_snapshot =
  ux_source :: "ustr option"
  ux_agent_label :: ustr
  ux_age_ms :: nat

record retirement_snapshot =
  rs_sequences :: "(ustr \<times> u64) list"
  rs_metadata_sequences :: "(ustr \<times> u64) list"
  rs_metadata_token_sources :: "ustr list"
  rs_suppressed :: "suppressed_snapshot list"
  rs_stale :: "stale_snapshot list"
  rs_hook_identity :: "identity_snapshot option"
  rs_unanswered_exit :: "unanswered_exit_snapshot option"

definition age_ms :: "instant \<Rightarrow> instant \<Rightarrow> nat" where
  "age_ms now at = min (2 ^ 64 - 1) (nat (now - at) div 1000000)"

definition instant_from_age_ms :: "host \<Rightarrow> instant \<Rightarrow> nat \<Rightarrow> instant" where
  "instant_from_age_ms H now age = (case instant_checked_sub H now (age * 1000000) of Some at \<Rightarrow> at | None \<Rightarrow> now)"

definition suppressed_capture :: "instant \<Rightarrow> ustr \<times> suppressed_hook_report \<Rightarrow> suppressed_snapshot" where
  "suppressed_capture now = (\<lambda>(source, s).
     \<lparr>ss_source = source, ss_agent_label = su_agent_label s, ss_session_ref = su_session_ref s, ss_reason = su_reason s,
      ss_observed_age_ms = age_ms now (su_observed_at s), ss_last_loss_age_ms = map_option (age_ms now) (su_last_loss s)\<rparr>)"

definition stale_capture :: "instant \<Rightarrow> ustr \<Rightarrow> stale_hook_session \<Rightarrow> stale_snapshot" where
  "stale_capture now source x =
     \<lparr>sn_source = source, sn_agent_label = st_agent_label x, sn_session_ref = st_session_ref x,
      sn_retired_age_ms = age_ms now (st_retired_at x), sn_last_loss_age_ms = map_option (age_ms now) (st_last_loss x),
      sn_evidence_age_ms = map_option (age_ms now) (st_evidence x)\<rparr>"

definition export_hook_retirement :: "terminal_state \<Rightarrow> instant \<Rightarrow> retirement_snapshot option" where
  "export_hook_retirement t now =
     (let snap = \<lparr>rs_sequences = sort (t_hook_sequences t), rs_metadata_sequences = sort (t_metadata_sequences t),
            rs_metadata_token_sources = sort (t_metadata_token_sources t),
            rs_suppressed = sort_key (\<lambda>s. (ss_source s, ss_agent_label s)) (map (suppressed_capture now) (t_suppressed t)),
            rs_stale = sort_key (\<lambda>s. (sn_source s, sn_agent_label s, sr_value (sn_session_ref s)))
              (concat (map (\<lambda>(source, xs). map (stale_capture now source) xs) (t_stale t))),
            rs_hook_identity = map_option (\<lambda>i. \<lparr>is_source = hi_source i, is_agent_label = hi_agent_label i,
              is_session_ref = owned_session_ref t (hi_source i) (hi_agent_label i), is_reported_age_ms = age_ms now (hi_reported_at i),
              is_unconfirmed_age_ms = map_option (age_ms now) (hi_unconfirmed_since i)\<rparr>) (t_hook_identity t),
            rs_unanswered_exit = map_option (\<lambda>(ow, pending). \<lparr>ux_source = ow_source ow, ux_agent_label = ow_agent_label ow,
              ux_age_ms = age_ms now pending\<rparr>) (t_unanswered_exit t)\<rparr>
      in if rs_sequences snap = [] \<and> rs_metadata_sequences snap = [] \<and> rs_metadata_token_sources snap = [] \<and>
           rs_suppressed snap = [] \<and> rs_stale snap = [] \<and> rs_hook_identity snap = None \<and> rs_unanswered_exit snap = None
         then None else Some snap)"

definition restore_suppressed :: "host \<Rightarrow> instant \<Rightarrow> suppressed_snapshot \<Rightarrow> terminal_state \<Rightarrow> terminal_state" where
  "restore_suppressed H now s t =
     (let t1 = suppress_hook_report_with_session_ref (ss_source s) (ss_agent_label s) (ss_session_ref s) (ss_reason s)
            (instant_from_age_ms H now (ss_observed_age_ms s)) t
      in case (ss_last_loss_age_ms s, hget (t_suppressed t1) (ss_source s)) of
           (Some age, Some restored) \<Rightarrow>
             t1\<lparr>t_suppressed := hput (ss_source s) (suppressed_observe_process_loss (instant_from_age_ms H now age) restored) (t_suppressed t1)\<rparr>
         | _ \<Rightarrow> t1)"

definition restore_stale :: "host \<Rightarrow> instant \<Rightarrow> stale_snapshot \<Rightarrow> terminal_state \<Rightarrow> terminal_state" where
  "restore_stale H now s t =
     remember_stale_hook_session (sn_source s) (sn_agent_label s) (sn_session_ref s) (instant_from_age_ms H now (sn_retired_age_ms s))
       (map_option (instant_from_age_ms H now) (sn_evidence_age_ms s)) (map_option (instant_from_age_ms H now) (sn_last_loss_age_ms s)) t"

definition restore_identity :: "host \<Rightarrow> instant \<Rightarrow> identity_snapshot \<Rightarrow> terminal_state \<Rightarrow> terminal_state" where
  "restore_identity H now i t =
     (let t1 = (case (is_session_ref i, t_persisted_session t) of
            (Some r, None) \<Rightarrow> t\<lparr>t_persisted_session := Some \<lparr>ps_source = is_source i, ps_agent = is_agent_label i, ps_session_ref = r\<rparr>\<rparr>
          | _ \<Rightarrow> t)
      in t1\<lparr>t_hook_identity := Some \<lparr>hi_source = is_source i, hi_agent_label = is_agent_label i,
           hi_reported_at = instant_from_age_ms H now (is_reported_age_ms i),
           hi_unconfirmed_since = map_option (instant_from_age_ms H now) (is_unconfirmed_age_ms i)\<rparr>\<rparr>)"

definition restore_hook_retirement :: "host \<Rightarrow> retirement_snapshot \<Rightarrow> instant \<Rightarrow> terminal_state \<Rightarrow> terminal_state" where
  "restore_hook_retirement H snap now t =
     (let t1 = advance_session_owner_epoch now t;
          t2 = t1\<lparr>t_hook_sequences := fold (\<lambda>(s, q). hput s q) (rs_sequences snap) (t_hook_sequences t1),
                 t_metadata_sequences := fold (\<lambda>(s, q). hput s q) (rs_metadata_sequences snap) (t_metadata_sequences t1),
                 t_metadata_token_sources := fold List.insert (rs_metadata_token_sources snap) (t_metadata_token_sources t1)\<rparr>;
          t3 = fold (restore_suppressed H now) (rs_suppressed snap) t2;
          t4 = fold (restore_stale H now) (rs_stale snap) t3;
          t5 = (case rs_hook_identity snap of Some i \<Rightarrow> restore_identity H now i t4 | None \<Rightarrow> t4)
      in case rs_unanswered_exit snap of
           Some u \<Rightarrow> t5\<lparr>t_unanswered_exit := Some (\<lparr>ow_source = ux_source u, ow_agent_label = ux_agent_label u\<rparr>,
               instant_from_age_ms H now (ux_age_ms u))\<rparr>
         | None \<Rightarrow> t5)"

definition apply_handoff_hook_retirement :: "host \<Rightarrow> bool \<Rightarrow> retirement_snapshot option \<Rightarrow> instant \<Rightarrow> terminal_state \<Rightarrow> terminal_state" where
  "apply_handoff_hook_retirement H handoff retirement imported_at t =
     (case (if handoff then retirement else None) of
        Some snap \<Rightarrow> require_imported_hook_identity_confirmation imported_at (restore_hook_retirement H snap imported_at t)
      | None \<Rightarrow> t)"

text \<open>The export of a terminal with process exits the application has not handled yet.\<close>

definition export_with_pending_exits ::
  "host \<Rightarrow> (agent option \<times> instant) list \<Rightarrow> instant \<Rightarrow> terminal_state \<Rightarrow> retirement_snapshot option" where
  "export_with_pending_exits H pending now t =
     (if pending = [] then export_hook_retirement t now
      else export_hook_retirement (fold (\<lambda>(agent, at) u.
        snd (set_detected_state_with_screen_signals_at H agent Idle False True at u)) pending t) now)"

text \<open>
  The terminal the importing server builds for a pane: a new one with what the pane snapshot says,
  and then the fences.
\<close>

record pane_import =
  pi_id :: ustr
  pi_cwd :: ustr
  pi_launch_argv :: "ustr list option"
  pi_label :: "ustr option"
  pi_agent_name :: "ustr option"
  pi_managed_agent :: "agent option"
  pi_initial_agent :: "agent option"
  pi_session :: "persisted_agent_session option"

definition import_terminal :: "host \<Rightarrow> pane_import \<Rightarrow> retirement_snapshot option \<Rightarrow> instant \<Rightarrow> terminal_state" where
  "import_terminal H p retirement now =
     (let t0 = terminal_new (pi_id p) (pi_cwd p);
          t1 = (case pi_launch_argv p of Some argv \<Rightarrow> with_respawn_shell_on_exit (with_launch_argv argv t0) | None \<Rightarrow> t0);
          t2 = (case pi_label p of Some l \<Rightarrow> set_manual_label l t1 | None \<Rightarrow> t1);
          t3 = (case (pi_agent_name p, pi_managed_agent p) of
              (Some n, Some k) \<Rightarrow> restore_managed_agent n k now t2
            | (Some n, None) \<Rightarrow> set_agent_name n t2
            | (None, _) \<Rightarrow> t2);
          t4 = (case pi_initial_agent p of Some a \<Rightarrow> seed_restored_agent_presentation a t3 | None \<Rightarrow> t3);
          t5 = (case pi_session p of Some s \<Rightarrow> set_persisted_agent_session_at s now t4 | None \<Rightarrow> t4)
      in apply_handoff_hook_retirement H True retirement now t5)"

end
