(* ===== verification/Terminal_Frames.thy ===== *)
theory Terminal_Frames
  imports Terminal_Handoff
begin

text \<open>
  What the helpers of a terminal leave alone. The face of a terminal is what arbitration and the
  confirmation of owners read; the fences, sequences, sessions, metadata and managed agents are
  behind it.
\<close>

definition face :: "terminal_state \<Rightarrow> hook_authority option \<times> hook_identity option \<times> (hook_owner \<times> instant) option \<times>
    agent option \<times> agent_state \<times> bool \<times> instant option \<times> agent_state" where
  "face t = (t_hook_authority t, t_hook_identity t, t_unanswered_exit t, t_detected_agent t, t_fallback_state t,
     t_fallback_visible_blocker t, t_fallback_observed_at t, t_state t)"

lemma face_fold: "(\<And>x u. x \<in> set xs \<Longrightarrow> face (f x u) = face u) \<Longrightarrow> face (fold f xs t) = face t"
  by (induction xs arbitrary: t) auto

lemma remember_face: "face (remember_stale_hook_session source label r retired_at evidence last_loss t) = face t"
  by (simp add: remember_stale_hook_session_def face_def Let_def)

lemma forget_face: "face (forget_stale_hook_session source label r t) = face t"
  by (simp add: forget_stale_hook_session_def face_def Let_def split: option.splits)

lemma suppress_with_face: "face (suppress_hook_report_with_session_ref source label r reason at t) = face t"
  by (simp add: suppress_hook_report_with_session_ref_def face_def Let_def split: option.splits)

lemma suppress_face: "face (suppress_hook_report source label reason at t) = face t"
  by (simp add: suppress_hook_report_def suppress_with_face)

lemma suppress_current_face: "face (suppress_current_hook_authority reason at t) = face t"
  by (simp add: suppress_current_hook_authority_def suppress_with_face split: option.splits)

lemma commit_face: "face (commit_hook_report_admission source admission t) = face t"
  by (cases admission) (auto simp: face_def Let_def split: option.splits)

lemma retire_suppressed_face: "face (retire_suppressed_session_after_accepting source label accepted t) = face t"
  by (auto simp: retire_suppressed_session_after_accepting_def Let_def forget_face remember_face face_def [of "_\<lparr>t_suppressed := _\<rparr>"]
      face_def [of t] split: option.splits)

lemma clear_suppression_face: "face (clear_hook_suppression_for_detected_agent H detected at t) = face t"
proof (cases detected)
  case (Some d)
  have "face (fold (\<lambda>(source, s) u. case su_session_ref s of
      Some r \<Rightarrow> remember_stale_hook_session source (su_agent_label s) r (su_observed_at s) (Some at) (su_last_loss s) u
    | None \<Rightarrow> u) xs u) = face u" for xs u
    by (rule face_fold) (auto simp: remember_face split: option.splits)
  note f = this [unfolded face_def prod.inject]
  show ?thesis
    unfolding Some clear_hook_suppression_for_detected_agent_def option.case Let_def
    by (simp add: face_def f)
qed (simp add: clear_hook_suppression_for_detected_agent_def)

lemma observe_loss_face: "face (observe_process_loss_for_retired_owners H detected exited at t) = face t"
  by (simp add: observe_process_loss_for_retired_owners_def face_def Let_def)

lemma advance_epoch_face: "face (advance_session_owner_epoch now t) = face t"
  by (simp add: advance_session_owner_epoch_def face_def)

lemma clear_expiry_face: "face (clear_expiry_pending_for_hidden_metadata t) = face t"
  by (simp add: clear_expiry_pending_for_hidden_metadata_def face_def)

lemma accept_metadata_face: "face (snd (accept_metadata_report source seq tokens t)) = face t"
  by (simp add: accept_metadata_report_def face_def Let_def split: option.splits)

lemma clear_agent_name_face: "face (clear_agent_name t) = face t"
  by (simp add: clear_agent_name_def face_def)

lemma reconcile_face: "face (snd (reconcile_managed_agent_at H now exit t)) = face t"
  by (auto simp: reconcile_managed_agent_at_def Let_def clear_agent_name_face face_def [of "_\<lparr>t_managed_agent := _\<rparr>"] face_def [of t]
      split: option.splits managed_agent_phase.splits)

lemma drop_exited_face: "face (drop_exited_session H agent exited t) = face t"
  by (simp add: drop_exited_session_def face_def)

lemma restore_suppressed_face: "face (restore_suppressed H now s t) = face t"
proof -
  have "face (u\<lparr>t_suppressed := x\<rparr>) = face u" for u x by (simp add: face_def)
  then show ?thesis
    by (simp add: restore_suppressed_def Let_def suppress_with_face split: option.splits)
qed

lemma restore_stale_face: "face (restore_stale H now s t) = face t"
  by (simp add: restore_stale_def remember_face)

lemmas face_frames = remember_face forget_face suppress_with_face suppress_face suppress_current_face commit_face
  retire_suppressed_face clear_suppression_face observe_loss_face advance_epoch_face clear_expiry_face
  accept_metadata_face clear_agent_name_face reconcile_face drop_exited_face restore_suppressed_face restore_stale_face

lemmas face_fields [simp] = face_frames [unfolded face_def prod.inject]

text \<open>Arbitration reads only the face.\<close>

lemma arbitrated_face: "face t = face u \<Longrightarrow> arbitrated_state H t = arbitrated_state H u"
  by (simp add: face_def arbitrated_state_def visible_blocker_overrides_hook_def live_full_lifecycle_hook_authority_def
      fallback_not_older_than_hook_def cong: option.case_cong)

lemma recompute_fields:
  "t_hook_authority (snd (recompute_effective_state H previous now t)) = t_hook_authority t"
  "t_hook_identity (snd (recompute_effective_state H previous now t)) = t_hook_identity t"
  "t_unanswered_exit (snd (recompute_effective_state H previous now t)) = t_unanswered_exit t"
  "t_handoff_confirmation (snd (recompute_effective_state H previous now t)) = t_handoff_confirmation t"
  "t_suppressed (snd (recompute_effective_state H previous now t)) = t_suppressed t"
  "t_stale (snd (recompute_effective_state H previous now t)) = t_stale t"
  "t_hook_sequences (snd (recompute_effective_state H previous now t)) = t_hook_sequences t"
  "t_persisted_session (snd (recompute_effective_state H previous now t)) = t_persisted_session t"
  by (simp_all add: recompute_effective_state_def Let_def clear_expiry_pending_for_hidden_metadata_def)

text \<open>After a recomputation the state is the arbitrated one, if the caller compared with the current state.\<close>

lemma recompute_arbitrated:
  assumes "ev_state previous = t_state t"
  shows "t_state (snd (recompute_effective_state H previous now t)) = arbitrated_state H (snd (recompute_effective_state H previous now t))"
proof -
  let ?u = "clear_expiry_pending_for_hidden_metadata t"
  have a: "arbitrated_state H ?u = arbitrated_state H t" by (rule arbitrated_face) (rule clear_expiry_face)
  have s: "t_state ?u = t_state t" by simp
  have "arbitrated_state H (?u\<lparr>t_state := x\<rparr>) = arbitrated_state H ?u" for x
    by (simp add: arbitrated_state_def visible_blocker_overrides_hook_def live_full_lifecycle_hook_authority_def
      fallback_not_older_than_hook_def cong: option.case_cong)
  with a s assms show ?thesis by (auto simp: recompute_effective_state_def Let_def)
qed

lemma finish_fields:
  "t_hook_authority (snd (finish_mutation H previous ps released now t)) = t_hook_authority t"
  "t_hook_identity (snd (finish_mutation H previous ps released now t)) = t_hook_identity t"
  "t_unanswered_exit (snd (finish_mutation H previous ps released now t)) = t_unanswered_exit t"
  "t_handoff_confirmation (snd (finish_mutation H previous ps released now t)) = t_handoff_confirmation t"
  "t_suppressed (snd (finish_mutation H previous ps released now t)) = t_suppressed t"
  "t_stale (snd (finish_mutation H previous ps released now t)) = t_stale t"
  "t_hook_sequences (snd (finish_mutation H previous ps released now t)) = t_hook_sequences t"
  "t_persisted_session (snd (finish_mutation H previous ps released now t)) = t_persisted_session t"
  using recompute_fields [of H previous now t] by (simp_all add: finish_mutation_def case_prod_beta)

lemma finish_arbitrated:
  "ev_state previous = t_state t \<Longrightarrow>
   t_state (snd (finish_mutation H previous ps released now t)) = arbitrated_state H (snd (finish_mutation H previous ps released now t))"
  using recompute_arbitrated [of previous t H now] by (simp add: finish_mutation_def case_prod_beta)

lemmas finish_simps [simp] = finish_fields recompute_fields

lemma view_state [simp]: "ev_state (effective_view_at H t now) = t_state t"
  by (simp add: effective_view_at_def)

end
