(* ===== verification/Terminal_System.thy ===== *)
theory Terminal_System
  imports Terminal_Frames
begin

text \<open>
  One terminal over its whole life: the events the application dispatches to it
  (\<open>app/actions.rs\<close>), the live handoffs it survives, and the invariants of every reachable state.
\<close>

section \<open>Events\<close>

datatype terminal_event =
    StateChanged "agent option" agent_state bool bool instant instant
  | HookStateReported ustr ustr agent_state "ustr option" "agent_session_ref option" "u64 option" instant
  | AgentSessionReported ustr ustr "agent_session_ref option" "u64 option" "ustr option" "foreground_process_observation option" instant
  | HookMetadataReported agent_metadata_report instant
  | HookAuthorityCleared "ustr option" "u64 option" instant
  | HookAgentReleased ustr ustr "u64 option" instant
  | PaneProcessExit instant
  | MetadataExpired instant instant
  | ManagedReconciled instant
  | ManagedStarted ustr agent instant duration duration
  | TokensReported ustr "u64 option" "(ustr \<times> ustr option) list" "duration option" instant
  | TitleChanged "ustr option"
  | LabelSet ustr
  | LabelCleared
  | NameSet ustr
  | NameCleared
  | Respawned

text \<open>
  \<open>update_terminal_state_at\<close>, as far as the terminal is concerned: a dropped report changes nothing
  else, an accepted one also reconciles the managed agent and numbers a change of state. \<open>next_seq\<close>
  is the application's counter.
\<close>

definition update_terminal_state_at ::
  "host \<Rightarrow> u64 \<Rightarrow> instant \<Rightarrow> instant option \<Rightarrow> (terminal_state \<Rightarrow> terminal_state_mutation option \<times> terminal_state) \<Rightarrow> terminal_state \<Rightarrow> terminal_state" where
  "update_terminal_state_at H next_seq now exit_observed_at update t =
     (case update t of
        (None, t1) \<Rightarrow> t1
      | (Some mutation, t1) \<Rightarrow>
          (let t2 = snd (reconcile_managed_agent_at H now exit_observed_at t1);
               change = or_else (tm_effective_state_change mutation)
                 (if tm_agent_released mutation then Some (unchanged_effective_state_change_at H t2 now) else None)
           in case change of
                Some c \<Rightarrow> if ec_previous_state c \<noteq> ec_state c then t2\<lparr>t_last_change_seq := Some next_seq\<rparr> else t2
              | None \<Rightarrow> t2))"

definition publish_pane_process_exit_if_agent :: "host \<Rightarrow> instant \<Rightarrow> terminal_state \<Rightarrow> terminal_state_mutation option \<times> terminal_state" where
  "publish_pane_process_exit_if_agent H at t =
     (let agent = or_else (effective_known_agent H t) (t_detected_agent t)
      in if agent = None \<and> \<not> live_full_lifecycle_hook_authority t then (None, t)
         else let (m, t1) = set_detected_state_with_screen_signals_at H agent Idle False True at t in (Some m, t1))"

text \<open>The token part of a pane's metadata report, after its parameters were validated.\<close>

definition max_metadata_token_keys :: nat where "max_metadata_token_keys = 32"

definition report_pane_tokens ::
  "host \<Rightarrow> ustr \<Rightarrow> u64 option \<Rightarrow> (ustr \<times> ustr option) list \<Rightarrow> duration option \<Rightarrow> instant \<Rightarrow> terminal_state \<Rightarrow> terminal_state" where
  "report_pane_tokens H source seq patch ttl now t =
     (if \<not> sequence_is_fresh (t_metadata_sequences t) source seq then t
      else if key_count_after_patch patch (t_metadata_tokens t) > max_metadata_token_keys then t
      else let (accepted, t1) = accept_metadata_report source seq True t
      in if accepted \<noteq> Inr True then t1
      else let (changed, tokens) = patch_tokens H patch ttl now (t_metadata_tokens t1);
               t2 = t1\<lparr>t_metadata_tokens := tokens\<rparr>
           in if changed then t2\<lparr>t_revision := saturating_add (t_revision t2) 1\<rparr> else t2)"

text \<open>The expiry tick: agent metadata first, then the tokens.\<close>

definition expire_terminal_metadata :: "host \<Rightarrow> instant \<Rightarrow> instant \<Rightarrow> terminal_state \<Rightarrow> terminal_state" where
  "expire_terminal_metadata H scheduled now t =
     (let t1 = snd (expire_agent_metadata_at H scheduled now t);
          (changed, tokens) = expire_at now (t_metadata_tokens t1);
          t2 = t1\<lparr>t_metadata_tokens := tokens\<rparr>
      in if changed then t2\<lparr>t_revision := saturating_add (t_revision t2) 1\<rparr> else t2)"

definition handle_hook_state_reported ::
  "host \<Rightarrow> ustr \<Rightarrow> ustr \<Rightarrow> agent_state \<Rightarrow> ustr option \<Rightarrow> agent_session_ref option \<Rightarrow> u64 option \<Rightarrow> instant \<Rightarrow> terminal_state \<Rightarrow>
   terminal_state_mutation option \<times> terminal_state" where
  "handle_hook_state_reported H source label state message r seq now t =
     (if is_reserved_native_state_source source label then set_agent_session_ref H source label r seq now t
      else if session_identity_only_integration source label then record_identity_only_hook_report_at H source label r seq now t
      else set_hook_authority_at H source label state message r seq now t)"

fun handle_event :: "host \<Rightarrow> u64 \<Rightarrow> terminal_event \<Rightarrow> terminal_state \<Rightarrow> terminal_state" where
  "handle_event H n (StateChanged agent state blocker exited observed_at now) t =
     update_terminal_state_at H n now (if exited then Some observed_at else None)
       (\<lambda>t. map_prod Some id (set_detected_state_with_screen_signals_at H agent state blocker exited observed_at t)) t"
| "handle_event H n (HookStateReported source label state message r seq now) t =
     update_terminal_state_at H n now None (handle_hook_state_reported H source label state message r seq now) t"
| "handle_event H n (AgentSessionReported source label r seq reason observation now) t =
     update_terminal_state_at H n now None (set_agent_session_ref_for_session_start_at H source label r seq reason observation now) t"
| "handle_event H n (HookMetadataReported report now) t =
     update_terminal_state_at H n now None (set_agent_metadata H report now) t"
| "handle_event H n (HookAuthorityCleared source seq now) t =
     update_terminal_state_at H n now None (clear_hook_authority_with_mutation H source seq now) t"
| "handle_event H n (HookAgentReleased source label seq now) t =
     (if is_reserved_native_state_source source label then t
      else update_terminal_state_at H n now None (release_agent_with_mutation H source label seq now) t)"
| "handle_event H n (PaneProcessExit at) t =
     update_terminal_state_at H n at (Some at) (publish_pane_process_exit_if_agent H at) t"
| "handle_event H n (MetadataExpired scheduled now) t = expire_terminal_metadata H scheduled now t"
| "handle_event H n (ManagedReconciled now) t = snd (reconcile_managed_agent_at H now None t)"
| "handle_event H n (ManagedStarted name kind now settle_delay timeout) t = begin_managed_agent H name kind now settle_delay timeout t"
| "handle_event H n (TokensReported source seq patch ttl now) t = report_pane_tokens H source seq patch ttl now t"
| "handle_event H n (TitleChanged title) t = snd (set_terminal_title title t)"
| "handle_event H n (LabelSet label) t = set_manual_label label t"
| "handle_event H n LabelCleared t = clear_manual_label t"
| "handle_event H n (NameSet name) t = set_agent_name name t"
| "handle_event H n NameCleared t = clear_agent_name t"
| "handle_event H n Respawned t = clear_agent_runtime_identity_after_respawn t"

text \<open>A terminal is created new or imported; it then handles events and survives handoffs.\<close>

inductive terminal_step :: "host \<Rightarrow> terminal_state \<Rightarrow> terminal_state \<Rightarrow> bool" for H where
  event: "terminal_step H t (handle_event H n e t)"
| handoff: "terminal_step H t (import_terminal H p (export_with_pending_exits H pending captured_at t) imported_at)"

definition terminal_init :: "terminal_state \<Rightarrow> bool" where
  "terminal_init t \<longleftrightarrow> (\<exists>i cwd. t = terminal_new i cwd)"

section \<open>Owners and unanswered exits\<close>

text \<open>The exit this owner has to answer, as the terminal remembers it.\<close>

definition fence_of :: "terminal_state \<Rightarrow> ustr \<Rightarrow> ustr \<Rightarrow> instant option" where
  "fence_of t source label =
     (case t_unanswered_exit t of Some (ow, at) \<Rightarrow> if owner_matches ow source label then Some at else None | None \<Rightarrow> None)"

text \<open>
  Owners with lifecycle authority and owners with identity only are different, so at most one is
  installed, and its pending exit is the one the terminal remembers.
\<close>

definition owners_ok :: "terminal_state \<Rightarrow> bool" where
  "owners_ok t \<longleftrightarrow>
     (\<forall>a. t_hook_authority t = Some a \<longrightarrow> \<not> session_identity_only_integration (ha_source a) (ha_agent_label a) \<and>
        ha_unconfirmed_since a = fence_of t (ha_source a) (ha_agent_label a)) \<and>
     (\<forall>i. t_hook_identity t = Some i \<longrightarrow> session_identity_only_integration (hi_source i) (hi_agent_label i) \<and>
        hi_unconfirmed_since i = fence_of t (hi_source i) (hi_agent_label i)) \<and>
     (t_hook_authority t = None \<or> t_hook_identity t = None)"

lemma owners_ok_face: "face t = face u \<Longrightarrow> owners_ok t = owners_ok u"
  by (simp add: owners_ok_def fence_of_def face_def)

lemma owners_ok_fields:
  "t_hook_authority t = t_hook_authority u \<Longrightarrow> t_hook_identity t = t_hook_identity u \<Longrightarrow> t_unanswered_exit t = t_unanswered_exit u \<Longrightarrow>
   owners_ok t = owners_ok u"
  by (simp add: owners_ok_def fence_of_def)

lemma inherit_fence:
  assumes "owners_ok t"
  shows "unanswered_exit_to_inherit t source label = fence_of t source label"
proof -
  have a: "ha_unconfirmed_since a = fence_of t source label"
    if "t_hook_authority t = Some a" "ha_source a = source" "ha_agent_label a = label" for a
    using assms that by (auto simp: owners_ok_def)
  have i: "hi_unconfirmed_since i = fence_of t source label"
    if "t_hook_identity t = Some i" "hi_source i = source" "hi_agent_label i = label" for i
    using assms that by (auto simp: owners_ok_def)
  have f: "(case t_unanswered_exit t of Some (ow, at) \<Rightarrow> if owner_matches ow source label then Some at else None | None \<Rightarrow> None)
      = fence_of t source label" by (simp add: fence_of_def)
  show ?thesis
    unfolding unanswered_exit_to_inherit_def f
    by (cases "fence_of t source label"; cases "t_hook_authority t"; cases "t_hook_identity t") (auto simp: a i)
qed

lemma owners_ok_drop_authority:
  "owners_ok t \<Longrightarrow> t_hook_identity u = t_hook_identity t \<Longrightarrow> t_unanswered_exit u = t_unanswered_exit t \<Longrightarrow> t_hook_authority u = None \<Longrightarrow> owners_ok u"
  by (auto simp: owners_ok_def fence_of_def)

lemma owners_ok_drop_identity:
  "owners_ok t \<Longrightarrow> t_hook_authority u = t_hook_authority t \<Longrightarrow> t_unanswered_exit u = t_unanswered_exit t \<Longrightarrow> t_hook_identity u = None \<Longrightarrow> owners_ok u"
  by (auto simp: owners_ok_def fence_of_def)

lemma confirm_fields:
  "t_hook_authority (confirm_pending_hook_owner H (Some d) at t) =
     map_option (\<lambda>a. if confirms H d at (ha_agent_label a) (ha_unconfirmed_since a) then a\<lparr>ha_unconfirmed_since := None\<rparr> else a) (t_hook_authority t)"
  "t_hook_identity (confirm_pending_hook_owner H (Some d) at t) =
     map_option (\<lambda>i. if confirms H d at (hi_agent_label i) (hi_unconfirmed_since i) then i\<lparr>hi_unconfirmed_since := None\<rparr> else i) (t_hook_identity t)"
  "t_unanswered_exit (confirm_pending_hook_owner H (Some d) at t) =
     (if some_and (\<lambda>(ow, p). confirms H d at (ow_agent_label ow) (Some p)) (t_unanswered_exit t) then None else t_unanswered_exit t)"
  "confirm_pending_hook_owner H None at t = t"
  by (simp_all add: confirm_pending_hook_owner_def Let_def)

lemma fence_confirm:
  "fence_of (confirm_pending_hook_owner H (Some d) at t) source label =
     (if confirms H d at label (fence_of t source label) then None else fence_of t source label)"
  by (cases "t_unanswered_exit t") (auto simp: fence_of_def confirm_fields confirms_def owner_matches_def split: prod.splits)

lemma owners_okI:
  assumes "\<And>a. t_hook_authority t = Some a \<Longrightarrow> \<not> session_identity_only_integration (ha_source a) (ha_agent_label a)"
    and "\<And>a. t_hook_authority t = Some a \<Longrightarrow> ha_unconfirmed_since a = fence_of t (ha_source a) (ha_agent_label a)"
    and "\<And>i. t_hook_identity t = Some i \<Longrightarrow> session_identity_only_integration (hi_source i) (hi_agent_label i)"
    and "\<And>i. t_hook_identity t = Some i \<Longrightarrow> hi_unconfirmed_since i = fence_of t (hi_source i) (hi_agent_label i)"
    and "t_hook_authority t = None \<or> t_hook_identity t = None"
  shows "owners_ok t"
  using assms unfolding owners_ok_def by blast

lemma owners_okD:
  assumes "owners_ok t"
  shows "t_hook_authority t = Some a \<Longrightarrow> \<not> session_identity_only_integration (ha_source a) (ha_agent_label a)"
    and "t_hook_authority t = Some a \<Longrightarrow> ha_unconfirmed_since a = fence_of t (ha_source a) (ha_agent_label a)"
    and "t_hook_identity t = Some i \<Longrightarrow> session_identity_only_integration (hi_source i) (hi_agent_label i)"
    and "t_hook_identity t = Some i \<Longrightarrow> hi_unconfirmed_since i = fence_of t (hi_source i) (hi_agent_label i)"
    and "t_hook_authority t = None \<or> t_hook_identity t = None"
  using assms by (simp_all add: owners_ok_def)

lemma owners_ok_confirm:
  assumes "owners_ok t"
  shows "owners_ok (confirm_pending_hook_owner H detected at t)"
proof (cases detected)
  case (Some d)
  note ok = owners_okD [OF assms]
  show ?thesis
  proof (rule owners_okI)
    fix a' assume "t_hook_authority (confirm_pending_hook_owner H detected at t) = Some a'"
    then obtain a where a: "t_hook_authority t = Some a"
      "a' = (if confirms H d at (ha_agent_label a) (ha_unconfirmed_since a) then a\<lparr>ha_unconfirmed_since := None\<rparr> else a)"
      by (auto simp: Some confirm_fields(1))
    show "\<not> session_identity_only_integration (ha_source a') (ha_agent_label a')" using ok(1) [OF a(1)] a(2) by simp
    show "ha_unconfirmed_since a' = fence_of (confirm_pending_hook_owner H detected at t) (ha_source a') (ha_agent_label a')"
      using ok(2) [OF a(1)] a(2) by (simp add: Some fence_confirm)
  next
    fix i' assume "t_hook_identity (confirm_pending_hook_owner H detected at t) = Some i'"
    then obtain i where i: "t_hook_identity t = Some i"
      "i' = (if confirms H d at (hi_agent_label i) (hi_unconfirmed_since i) then i\<lparr>hi_unconfirmed_since := None\<rparr> else i)"
      by (auto simp: Some confirm_fields(2))
    show "session_identity_only_integration (hi_source i') (hi_agent_label i')" using ok(3) [OF i(1)] i(2) by simp
    show "hi_unconfirmed_since i' = fence_of (confirm_pending_hook_owner H detected at t) (hi_source i') (hi_agent_label i')"
      using ok(4) [OF i(1)] i(2) by (simp add: Some fence_confirm)
  next
    show "t_hook_authority (confirm_pending_hook_owner H detected at t) = None \<or> t_hook_identity (confirm_pending_hook_owner H detected at t) = None"
      using ok(5) by (auto simp: Some confirm_fields)
  qed
qed (simp add: confirm_fields assms)

lemma hold_fields:
  "t_hook_authority (hold_hook_owner_unconfirmed source label at t) =
     map_option (\<lambda>a. if ha_source a = source \<and> ha_agent_label a = label
       then a\<lparr>ha_unconfirmed_since := Some (earliest (ha_unconfirmed_since a) at)\<rparr> else a) (t_hook_authority t)"
  "t_hook_identity (hold_hook_owner_unconfirmed source label at t) =
     map_option (\<lambda>i. if hi_source i = source \<and> hi_agent_label i = label
       then i\<lparr>hi_unconfirmed_since := Some (earliest (hi_unconfirmed_since i) at)\<rparr> else i) (t_hook_identity t)"
  by (simp_all add: hold_hook_owner_unconfirmed_def Let_def)

lemma fence_hold:
  "fence_of (hold_hook_owner_unconfirmed source label at t) source label = Some (earliest (fence_of t source label) at)"
  by (cases "t_unanswered_exit t")
    (auto simp: fence_of_def hold_hook_owner_unconfirmed_def Let_def owner_matches_def owner_new_def earliest_def)

lemma owners_ok_hold:
  assumes "owners_ok t"
    and "(\<exists>a. t_hook_authority t = Some a \<and> ha_source a = source \<and> ha_agent_label a = label) \<or>
      (\<exists>i. t_hook_identity t = Some i \<and> hi_source i = source \<and> hi_agent_label i = label)"
  shows "owners_ok (hold_hook_owner_unconfirmed source label at t)"
  using assms(2)
proof
  assume "\<exists>a. t_hook_authority t = Some a \<and> ha_source a = source \<and> ha_agent_label a = label"
  then obtain a where "t_hook_authority t = Some a" "ha_source a = source" "ha_agent_label a = label" by blast
  with owners_okD [OF assms(1)] show ?thesis by (intro owners_okI) (auto simp: hold_fields fence_hold)
next
  assume "\<exists>i. t_hook_identity t = Some i \<and> hi_source i = source \<and> hi_agent_label i = label"
  then obtain i where "t_hook_identity t = Some i" "hi_source i = source" "hi_agent_label i = label" by blast
  with owners_okD [OF assms(1)] show ?thesis by (intro owners_okI) (auto simp: hold_fields fence_hold)
qed

lemma owners_ok_cong:
  "owners_ok u \<Longrightarrow> t_hook_authority t = t_hook_authority u \<Longrightarrow> t_hook_identity t = t_hook_identity u \<Longrightarrow>
   t_unanswered_exit t = t_unanswered_exit u \<Longrightarrow> owners_ok t"
  using owners_ok_fields by blast

lemma retire_identity_fields [simp]:
  "t_hook_authority (snd (retire_hook_identity reason at t)) = t_hook_authority t"
  "t_hook_identity (snd (retire_hook_identity reason at t)) = None"
  "t_unanswered_exit (snd (retire_hook_identity reason at t)) = t_unanswered_exit t"
  "t_detected_agent (snd (retire_hook_identity reason at t)) = t_detected_agent t"
  "t_fallback_state (snd (retire_hook_identity reason at t)) = t_fallback_state t"
  "t_fallback_visible_blocker (snd (retire_hook_identity reason at t)) = t_fallback_visible_blocker t"
  "t_fallback_observed_at (snd (retire_hook_identity reason at t)) = t_fallback_observed_at t"
  "t_state (snd (retire_hook_identity reason at t)) = t_state t"
  by (auto simp: retire_hook_identity_def Let_def split: option.splits)

lemma owners_ok_exit_authority:
  assumes "owners_ok t"
  shows "owners_ok (fst (exit_authority H agent exited now (t, released)))"
proof (cases "(if exited then t_hook_authority t else None)")
  case (Some a)
  then have a: "t_hook_authority t = Some a" by (auto split: if_splits)
  show ?thesis
  proof (cases "parse_label H (ha_agent_label a) = agent")
    case True
    show ?thesis
    proof (cases "hook_authority_not_newer_than t now \<or> hook_owner_has_unanswered_exit_older_than t (ha_source a) (ha_agent_label a) now")
      case True
      with Some \<open>parse_label H (ha_agent_label a) = agent\<close> show ?thesis
        by (intro owners_ok_drop_authority [OF assms]) (simp_all add: exit_authority_def Let_def)
    next
      case False
      with Some \<open>parse_label H (ha_agent_label a) = agent\<close> a show ?thesis
        by (simp add: exit_authority_def owners_ok_hold [OF assms])
    qed
  qed (simp add: exit_authority_def Some assms)
qed (simp add: exit_authority_def assms)

lemma owners_ok_exit_identity:
  assumes "owners_ok t"
  shows "owners_ok (fst (exit_identity H agent exited now (t, released)))"
proof (cases "(case (if exited then t_hook_identity t else None) of
     Some i \<Rightarrow> if parse_label H (hi_agent_label i) = agent then Some i else None | None \<Rightarrow> None)")
  case None
  have "owners_ok (snd (retire_hook_identity r now t))" for r
    by (rule owners_ok_drop_identity [OF assms]) simp_all
  with None show ?thesis by (simp add: exit_identity_def assms)
next
  case (Some i)
  then have i: "t_hook_identity t = Some i" by (auto split: option.splits if_splits)
  have "owners_ok (snd (retire_hook_identity ProcessExit now t))"
    by (rule owners_ok_drop_identity [OF assms]) simp_all
  with Some i show ?thesis by (simp add: exit_identity_def owners_ok_hold [OF assms])
qed

lemma owners_ok_drop_conflicting: "owners_ok t \<Longrightarrow> owners_ok (drop_conflicting_authority H agent previous now t)"
  unfolding drop_conflicting_authority_def Let_def
  by (auto intro: owners_ok_drop_authority)

lemma owners_ok_detected:
  assumes "owners_ok t"
  shows "owners_ok (snd (set_detected_state_with_screen_signals_at H agent fs vb exited now t))"
proof -
  define t1 where "t1 = (if \<not> exited then confirm_pending_hook_owner H agent now t else t)"
  have ok1: "owners_ok t1" using assms by (simp add: t1_def owners_ok_confirm)
  have fin: "owners_ok (snd (finish_mutation H previous ps released now u))" if "owners_ok u" for previous ps released u
    by (rule owners_ok_cong [OF that]) simp_all
  define t4 where "t4 = (let t2 = t1\<lparr>t_detected_agent := agent\<rparr>;
      t3 = (if \<not> exited then clear_hook_suppression_for_detected_agent H agent now t2 else t2)
    in t3\<lparr>t_fallback_state := fs, t_fallback_visible_blocker := (vb \<and> fs = Blocked), t_fallback_observed_at := Some now\<rparr>)"
  have ok4: "owners_ok t4" by (rule owners_ok_cong [OF ok1]) (simp_all add: t4_def Let_def)
  define u where "u = (\<lambda>released. fst (exit_identity H agent exited now (exit_authority H agent exited now (t4, released))))"
  have "owners_ok (u released)" for released
    using owners_ok_exit_identity [OF owners_ok_exit_authority [OF ok4], where H = H and agent = agent and exited = exited and now = now]
    by (simp add: u_def) (metis fst_conv prod.collapse)
  then have ok8: "owners_ok (drop_exited_session H agent exited (observe_process_loss_for_retired_owners H agent exited now (u released)))" for released
    by (rule owners_ok_cong) simp_all
  have ign: "owners_ok (if c then t1\<lparr>t_detected_agent := agent\<rparr> else t1)" for c
    by (rule owners_ok_cong [OF ok1]) simp_all
  show ?thesis
    unfolding set_detected_state_with_screen_signals_at_def t1_def [symmetric] Let_def
    using fin [OF ign] fin [OF ok1] fin [OF owners_ok_drop_conflicting [OF ok8]]
    by (auto simp: case_prod_beta u_def t4_def Let_def)
qed

text \<open>An owner that does not conflict is the installed one, in the representation its kind has.\<close>

lemma no_conflict_authority:
  "owners_ok t \<Longrightarrow> \<not> current_session_owner_conflicts t source label \<Longrightarrow> \<not> session_identity_only_integration source label \<Longrightarrow>
   t_hook_identity t = None \<and> (\<forall>a. t_hook_authority t = Some a \<longrightarrow> ha_source a = source \<and> ha_agent_label a = label)"
  by (cases "t_hook_authority t"; cases "t_hook_identity t") (auto simp: current_session_owner_conflicts_def dest: owners_okD)

lemma no_conflict_identity:
  "owners_ok t \<Longrightarrow> \<not> current_session_owner_conflicts t source label \<Longrightarrow> session_identity_only_integration source label \<Longrightarrow>
   t_hook_authority t = None \<and> (\<forall>i. t_hook_identity t = Some i \<longrightarrow> hi_source i = source \<and> hi_agent_label i = label)"
  by (cases "t_hook_authority t"; cases "t_hook_identity t") (auto simp: current_session_owner_conflicts_def dest: owners_okD)

lemma fence_cong: "t_unanswered_exit t = t_unanswered_exit u \<Longrightarrow> fence_of t = fence_of u"
  by (simp add: fence_of_def fun_eq_iff)

lemma inherit_cong:
  "t_hook_authority t = t_hook_authority u \<Longrightarrow> t_hook_identity t = t_hook_identity u \<Longrightarrow> t_unanswered_exit t = t_unanswered_exit u \<Longrightarrow>
   unanswered_exit_to_inherit t = unanswered_exit_to_inherit u"
  by (simp add: unanswered_exit_to_inherit_def fun_eq_iff)

lemma inherit_frames [simp]:
  "unanswered_exit_to_inherit (commit_hook_report_admission src adm t) = unanswered_exit_to_inherit t"
  "unanswered_exit_to_inherit (retire_suppressed_session_after_accepting src lab acc t) = unanswered_exit_to_inherit t"
  "unanswered_exit_to_inherit (remember_stale_hook_session src lab ref at ev loss t) = unanswered_exit_to_inherit t"
  "unanswered_exit_to_inherit (forget_stale_hook_session src lab ref t) = unanswered_exit_to_inherit t"
  "unanswered_exit_to_inherit (t\<lparr>t_persisted_session := ps\<rparr>) = unanswered_exit_to_inherit t"
  by (rule inherit_cong; simp)+

text \<open>Installing an owner with the exit it inherits.\<close>

lemma owners_ok_install_authority:
  assumes "owners_ok t" and "t_hook_identity t = None" and "\<not> session_identity_only_integration source label"
    and "t_hook_authority u = Some \<lparr>ha_source = source, ha_agent_label = label, ha_state = state, ha_message = message,
      ha_reported_at = now, ha_session_ref = session, ha_unconfirmed_since = unanswered_exit_to_inherit t source label\<rparr>"
    and "t_hook_identity u = None" "t_unanswered_exit u = t_unanswered_exit t"
  shows "owners_ok u"
  using assms inherit_fence [OF assms(1)] fence_cong [OF assms(6)] by (intro owners_okI) auto

lemma owners_ok_install_identity:
  assumes "owners_ok t" and "t_hook_authority t = None" and "session_identity_only_integration source label"
    and "t_hook_identity u = Some \<lparr>hi_source = source, hi_agent_label = label, hi_reported_at = now,
      hi_unconfirmed_since = unanswered_exit_to_inherit t source label\<rparr>"
    and "t_hook_authority u = None" "t_unanswered_exit u = t_unanswered_exit t"
  shows "owners_ok u"
  using assms inherit_fence [OF assms(1)] fence_cong [OF assms(6)] by (intro owners_okI) auto

lemma owners_ok_record_identity:
  assumes "owners_ok t" and "session_identity_only_integration source label"
  shows "owners_ok (snd (record_identity_only_hook_report_at H source label r seq now t))"
proof (cases "known_agent_label_conflicts_with_detected_agent H t label \<or> current_session_owner_conflicts t source label \<or>
    plan_hook_report_admission t source label r None seq True False = Refuse")
  case False
  then have nc: "t_hook_authority t = None" using no_conflict_identity [OF assms(1) _ assms(2)] by blast
  show ?thesis
    using False nc
    by (intro owners_ok_install_identity [OF assms(1) nc assms(2), where now = now])
      (simp_all add: record_identity_only_hook_report_at_def Let_def split: option.splits)
qed (auto simp: record_identity_only_hook_report_at_def assms)

lemma owners_ok_set_authority:
  assumes "owners_ok t"
  shows "owners_ok (snd (set_hook_authority_at H source label state message r seq now t))"
proof (cases "session_identity_only_integration source label")
  case True
  then show ?thesis using owners_ok_record_identity [OF assms] by (simp add: set_hook_authority_at_def)
next
  case ni: False
  show ?thesis
  proof (cases "opencode_state_report_is_cross_talk H t source label r \<or> known_agent_label_conflicts_with_detected_agent H t label \<or>
      current_session_owner_conflicts t source label \<or>
      live_full_lifecycle_hook_authority_conflicts_with_session t source label (clamp_session_ref t source label r) \<or>
      plan_hook_report_admission t source label r None seq True False = Refuse")
    case False
    then have nc: "t_hook_identity t = None" using no_conflict_authority [OF assms _ ni] by blast
    show ?thesis
      using False nc ni
      by (intro owners_ok_install_authority [OF assms nc ni, where now = now and state = state and message = message
          and session = "clamp_session_ref t source label r"])
        (simp_all add: set_hook_authority_at_def Let_def case_prod_beta)
  qed (auto simp: set_hook_authority_at_def Let_def ni assms)
qed

lemma owners_ok_session_start:
  assumes "owners_ok t"
  shows "owners_ok (snd (set_agent_session_ref_for_session_start_at H source label sr seq reason observation now t))"
proof (cases "snd (set_agent_session_ref_for_session_start_at H source label sr seq reason observation now t) = t")
  case False
  then obtain r where r: "sr = Some r" by (cases sr) (auto simp: set_agent_session_ref_for_session_start_at_def)
  let ?oc = "current_session_owner_conflicts t source label"
  have acc: "\<not> (?oc \<and> \<not> process_observation_allows_different_owner H t source label r reason observation now)"
    "\<not> known_agent_label_conflicts_with_detected_agent H t label"
    "\<not> (replaces_identity_only_session t source label r reason \<and> \<not> some_and (\<lambda>known. t_detected_agent t = Some known) (parse_label H label))"
    "conflicting_same_owner_session_ref t source label r reason = None"
    "\<not> (same_owner_full_lifecycle_hook_authority_session_ref t source label r \<noteq> None \<and> \<not> session_start_source_allows_session_replacement source label reason)"
    "plan_hook_report_admission t source label (Some r) reason seq (?oc \<or> session_identity_only_integration source label)
       (is_unsequenced_opencode_selection source label reason seq) \<noteq> Refuse"
    using False unfolding r set_agent_session_ref_for_session_start_at_def option.case Let_def
    by (auto simp: case_prod_beta split: if_splits)
  note run = set_agent_session_ref_for_session_start_at_def [of H source label "Some r" seq reason observation now t,
    unfolded option.case Let_def, simplified acc if_False simp_thms not_None_eq]
  show ?thesis
  proof (cases "session_identity_only_integration source label")
    case True
    have nc: "t_hook_authority t = None"
    proof (cases ?oc)
      case True
      with acc(1) show ?thesis by (auto simp: process_observation_allows_different_owner_def split: option.splits)
    next
      case False
      then show ?thesis using no_conflict_identity [OF assms _ \<open>session_identity_only_integration source label\<close>] by blast
    qed
    have "same_owner_full_lifecycle_hook_authority_session_ref t source label r = None"
      by (simp add: same_owner_full_lifecycle_hook_authority_session_ref_def nc)
    with acc nc True show ?thesis
      by (intro owners_ok_install_identity [OF assms nc True, where now = now])
        (simp_all add: r run case_prod_beta split: option.splits)
  next
    case False
    have "t_hook_identity (snd (set_agent_session_ref_for_session_start_at H source label sr seq reason observation now t)) = t_hook_identity t"
      "t_unanswered_exit (snd (set_agent_session_ref_for_session_start_at H source label sr seq reason observation now t)) = t_unanswered_exit t"
      "t_hook_authority (snd (set_agent_session_ref_for_session_start_at H source label sr seq reason observation now t)) \<in> {None, t_hook_authority t}"
      using acc False by (simp_all add: r run case_prod_beta split: option.splits)
    then show ?thesis using owners_ok_drop_authority [OF assms] owners_ok_cong [OF assms] by blast
  qed
qed (simp add: assms)

lemma owners_ok_sub:
  assumes "owners_ok t" and "t_hook_authority u \<in> {None, t_hook_authority t}" and "t_hook_identity u \<in> {None, t_hook_identity t}"
    and "t_unanswered_exit u = t_unanswered_exit t"
  shows "owners_ok u"
proof (rule owners_okI)
  note ok = owners_okD [OF assms(1)] and f = fence_cong [OF assms(4)]
  show "\<not> session_identity_only_integration (ha_source a) (ha_agent_label a)"
    "ha_unconfirmed_since a = fence_of u (ha_source a) (ha_agent_label a)" if "t_hook_authority u = Some a" for a
    using that assms(2) ok(1,2) [of a] f by auto
  show "session_identity_only_integration (hi_source i) (hi_agent_label i)"
    "hi_unconfirmed_since i = fence_of u (hi_source i) (hi_agent_label i)" if "t_hook_identity u = Some i" for i
    using that assms(3) ok(3,4) [of i] f by auto
  show "t_hook_authority u = None \<or> t_hook_identity u = None" using ok(5) assms(2,3) by auto
qed

lemma fold_commit_fields [simp]:
  "t_hook_authority (fold (\<lambda>s. commit_hook_report_admission s adm) ss t) = t_hook_authority t"
  "t_hook_identity (fold (\<lambda>s. commit_hook_report_admission s adm) ss t) = t_hook_identity t"
  "t_unanswered_exit (fold (\<lambda>s. commit_hook_report_admission s adm) ss t) = t_unanswered_exit t"
  "t_state (fold (\<lambda>s. commit_hook_report_admission s adm) ss t) = t_state t"
  using face_fold [of ss "\<lambda>s. commit_hook_report_admission s adm" t, OF commit_face] by (simp_all add: face_def)

lemma owners_ok_clear:
  assumes "owners_ok t"
  shows "owners_ok (snd (clear_hook_authority_with_mutation H source seq now t))"
  by (rule owners_ok_sub [OF assms]; simp add: clear_hook_authority_with_mutation_def Let_def case_prod_beta split: option.splits)

lemma owners_ok_release:
  assumes "owners_ok t"
  shows "owners_ok (snd (release_agent_with_mutation H source label seq now t))"
  by (rule owners_ok_sub [OF assms]; simp add: release_agent_with_mutation_def Let_def case_prod_beta)

lemma owners_ok_metadata: "owners_ok t \<Longrightarrow> owners_ok (snd (set_agent_metadata H report now t))"
proof (rule owners_ok_sub, assumption)
  let ?u = "snd (set_agent_metadata H report now t)"
  show "t_hook_authority ?u \<in> {None, t_hook_authority t}" "t_hook_identity ?u \<in> {None, t_hook_identity t}"
    "t_unanswered_exit ?u = t_unanswered_exit t"
    by (simp_all add: set_agent_metadata_def Let_def case_prod_beta)
qed

lemma owners_ok_expire: "owners_ok t \<Longrightarrow> owners_ok (snd (expire_agent_metadata_at H scheduled now t))"
  by (rule owners_ok_sub, assumption) (simp_all add: expire_agent_metadata_at_def Let_def case_prod_beta)

lemma owners_ok_expire_terminal: "owners_ok t \<Longrightarrow> owners_ok (expire_terminal_metadata H scheduled now t)"
  by (rule owners_ok_cong [OF owners_ok_expire]) (simp_all add: expire_terminal_metadata_def Let_def case_prod_beta)

lemma face_case: "face a = f \<Longrightarrow> face b = f \<Longrightarrow> face (case x of None \<Rightarrow> b | Some c \<Rightarrow> if P c then a else b) = f"
  by (cases x) auto

lemma update_face: "face (update_terminal_state_at H n now exit update t) = face (snd (update t))"
proof -
  obtain m t1 where u: "update t = (m, t1)" by (cases "update t")
  show ?thesis
  proof (cases m)
    case (Some m')
    define t2 where "t2 = snd (reconcile_managed_agent_at H now exit t1)"
    have t2: "face t2 = face t1" by (simp only: t2_def reconcile_face)
    have "face (t2\<lparr>t_last_change_seq := x\<rparr>) = face t1" for x by (subst t2 [symmetric]) (simp add: face_def)
    with t2 show ?thesis
      unfolding update_terminal_state_at_def u Some prod.case option.case Let_def t2_def [symmetric] snd_conv
      by (intro face_case)
  qed (simp add: update_terminal_state_at_def u)
qed

lemma owners_ok_update:
  "owners_ok (snd (update t)) \<Longrightarrow> owners_ok (update_terminal_state_at H n now exit update t)"
  using owners_ok_face [OF update_face] by blast

lemma owners_ok_event:
  assumes "owners_ok t"
  shows "owners_ok (handle_event H n e t)"
proof (cases e)
  case (StateChanged agent state blocker exited at now)
  then show ?thesis using owners_ok_detected [OF assms] by (auto intro!: owners_ok_update)
next
  case (HookStateReported source label state message r seq now)
  then show ?thesis
    using owners_ok_session_start [OF assms] owners_ok_record_identity [OF assms] owners_ok_set_authority [OF assms]
    by (auto intro!: owners_ok_update simp: handle_hook_state_reported_def set_agent_session_ref_def)
next
  case (AgentSessionReported source label r seq reason observation now)
  then show ?thesis using owners_ok_session_start [OF assms] by (auto intro!: owners_ok_update)
next
  case (HookMetadataReported report now)
  then show ?thesis using owners_ok_metadata [OF assms] by (auto intro!: owners_ok_update)
next
  case (HookAuthorityCleared source seq now)
  then show ?thesis using owners_ok_clear [OF assms] by (auto intro!: owners_ok_update)
next
  case (HookAgentReleased source label seq now)
  then show ?thesis using owners_ok_release [OF assms] assms by (auto intro!: owners_ok_update)
next
  case (PaneProcessExit at)
  have "owners_ok (snd (publish_pane_process_exit_if_agent H at t))"
    using assms owners_ok_detected [OF assms] by (simp add: publish_pane_process_exit_if_agent_def Let_def case_prod_beta)
  with PaneProcessExit show ?thesis by (auto intro!: owners_ok_update)
next
  case (TokensReported source seq patch ttl now)
  then show ?thesis
    by (intro owners_ok_sub [OF assms]) (simp_all add: report_pane_tokens_def Let_def case_prod_beta)
qed (use owners_ok_expire_terminal [OF assms] in \<open>auto intro!: owners_ok_sub [OF assms]
  simp: begin_managed_agent_def set_agent_name_def set_manual_label_def clear_manual_label_def set_terminal_title_def Let_def
    clear_agent_runtime_identity_after_respawn_def\<close>)

section \<open>Handoffs keep the owners\<close>

lemma require_imported_fields [simp]:
  "t_hook_authority (require_imported_hook_identity_confirmation now t) = t_hook_authority t"
  "t_hook_identity (require_imported_hook_identity_confirmation now t) = t_hook_identity t"
  "t_unanswered_exit (require_imported_hook_identity_confirmation now t) = t_unanswered_exit t"
  "t_suppressed (require_imported_hook_identity_confirmation now t) = t_suppressed t"
  "t_stale (require_imported_hook_identity_confirmation now t) = t_stale t"
  "t_hook_sequences (require_imported_hook_identity_confirmation now t) = t_hook_sequences t"
  by (simp_all add: require_imported_hook_identity_confirmation_def advance_session_owner_epoch_def Let_def)

definition import_base :: "pane_import \<Rightarrow> instant \<Rightarrow> terminal_state" where
  "import_base p now =
     (let t0 = terminal_new (pi_id p) (pi_cwd p);
          t1 = (case pi_launch_argv p of Some argv \<Rightarrow> with_respawn_shell_on_exit (with_launch_argv argv t0) | None \<Rightarrow> t0);
          t2 = (case pi_label p of Some l \<Rightarrow> set_manual_label l t1 | None \<Rightarrow> t1);
          t3 = (case (pi_agent_name p, pi_managed_agent p) of
              (Some n, Some k) \<Rightarrow> restore_managed_agent n k now t2
            | (Some n, None) \<Rightarrow> set_agent_name n t2
            | (None, _) \<Rightarrow> t2);
          t4 = (case pi_initial_agent p of Some a \<Rightarrow> seed_restored_agent_presentation a t3 | None \<Rightarrow> t3)
      in case pi_session p of Some s \<Rightarrow> set_persisted_agent_session_at s now t4 | None \<Rightarrow> t4)"

lemma import_terminal_eq: "import_terminal H p retirement now = apply_handoff_hook_retirement H True retirement now (import_base p now)"
  by (simp add: import_terminal_def import_base_def Let_def)

lemma import_base_fields [simp]:
  "t_hook_authority (import_base p now) = None" "t_hook_identity (import_base p now) = None" "t_unanswered_exit (import_base p now) = None"
  "t_suppressed (import_base p now) = []" "t_stale (import_base p now) = []" "t_hook_sequences (import_base p now) = []"
  "t_state (import_base p now) = t_fallback_state (import_base p now)"
  by (simp_all add: import_base_def Let_def terminal_new_def with_respawn_shell_on_exit_def with_launch_argv_def set_manual_label_def
      restore_managed_agent_def set_agent_name_def seed_restored_agent_presentation_def set_persisted_agent_session_at_def
      advance_session_owner_epoch_def split: option.splits)

lemma restore_fields:
  "t_hook_authority (restore_hook_retirement H snap now t) = t_hook_authority t"
  "t_hook_identity (restore_hook_retirement H snap now t) =
     (case rs_hook_identity snap of
        Some i \<Rightarrow> Some \<lparr>hi_source = is_source i, hi_agent_label = is_agent_label i, hi_reported_at = instant_from_age_ms H now (is_reported_age_ms i),
          hi_unconfirmed_since = map_option (instant_from_age_ms H now) (is_unconfirmed_age_ms i)\<rparr>
      | None \<Rightarrow> t_hook_identity t)"
  "t_unanswered_exit (restore_hook_retirement H snap now t) =
     (case rs_unanswered_exit snap of
        Some u \<Rightarrow> Some (\<lparr>ow_source = ux_source u, ow_agent_label = ux_agent_label u\<rparr>, instant_from_age_ms H now (ux_age_ms u))
      | None \<Rightarrow> t_unanswered_exit t)"
  "t_state (restore_hook_retirement H snap now t) = t_state t"
  "t_fallback_state (restore_hook_retirement H snap now t) = t_fallback_state t"
proof -
  have s: "face (fold (restore_suppressed H now) xs u) = face u" for xs u by (rule face_fold) (rule restore_suppressed_face)
  have l: "face (fold (restore_stale H now) xs u) = face u" for xs u by (rule face_fold) (rule restore_stale_face)
  note f = s [unfolded face_def prod.inject] l [unfolded face_def prod.inject]
  show "t_hook_authority (restore_hook_retirement H snap now t) = t_hook_authority t"
    "t_hook_identity (restore_hook_retirement H snap now t) =
     (case rs_hook_identity snap of
        Some i \<Rightarrow> Some \<lparr>hi_source = is_source i, hi_agent_label = is_agent_label i, hi_reported_at = instant_from_age_ms H now (is_reported_age_ms i),
          hi_unconfirmed_since = map_option (instant_from_age_ms H now) (is_unconfirmed_age_ms i)\<rparr>
      | None \<Rightarrow> t_hook_identity t)"
    "t_unanswered_exit (restore_hook_retirement H snap now t) =
     (case rs_unanswered_exit snap of
        Some u \<Rightarrow> Some (\<lparr>ow_source = ux_source u, ow_agent_label = ux_agent_label u\<rparr>, instant_from_age_ms H now (ux_age_ms u))
      | None \<Rightarrow> t_unanswered_exit t)"
    "t_state (restore_hook_retirement H snap now t) = t_state t"
    "t_fallback_state (restore_hook_retirement H snap now t) = t_fallback_state t"
    by (auto simp: restore_hook_retirement_def restore_identity_def Let_def f split: option.splits)
qed

lemma owners_ok_import:
  assumes "owners_ok t"
  shows "owners_ok (import_terminal H p (export_hook_retirement t captured) imported)"
proof (cases "export_hook_retirement t captured")
  case None
  then show ?thesis by (intro owners_okI) (simp_all add: import_terminal_eq apply_handoff_hook_retirement_def)
next
  case (Some snap)
  let ?u = "import_terminal H p (export_hook_retirement t captured) imported"
  have snap: "rs_hook_identity snap = map_option (\<lambda>i. \<lparr>is_source = hi_source i, is_agent_label = hi_agent_label i,
              is_session_ref = owned_session_ref t (hi_source i) (hi_agent_label i), is_reported_age_ms = age_ms captured (hi_reported_at i),
              is_unconfirmed_age_ms = map_option (age_ms captured) (hi_unconfirmed_since i)\<rparr>) (t_hook_identity t)"
    "rs_unanswered_exit snap = map_option (\<lambda>(ow, pending). \<lparr>ux_source = ow_source ow, ux_agent_label = ow_agent_label ow,
              ux_age_ms = age_ms captured pending\<rparr>) (t_unanswered_exit t)"
    using Some by (auto simp: export_hook_retirement_def Let_def split: if_splits)
  have u: "?u = require_imported_hook_identity_confirmation imported (restore_hook_retirement H snap imported (import_base p imported))"
    by (simp add: import_terminal_eq apply_handoff_hook_retirement_def Some)
  have fence: "fence_of ?u source label = map_option (\<lambda>at. instant_from_age_ms H imported (age_ms captured at)) (fence_of t source label)" for source label
    by (cases "t_unanswered_exit t") (auto simp: u fence_of_def restore_fields snap owner_matches_def)
  show ?thesis
  proof (rule owners_okI)
    fix i' assume "t_hook_identity ?u = Some i'"
    then obtain i where i: "t_hook_identity t = Some i" "hi_source i' = hi_source i" "hi_agent_label i' = hi_agent_label i"
      "hi_unconfirmed_since i' = map_option (\<lambda>at. instant_from_age_ms H imported (age_ms captured at)) (hi_unconfirmed_since i)"
      by (cases "t_hook_identity t") (auto simp: u restore_fields snap option.map_comp comp_def)
    show "session_identity_only_integration (hi_source i') (hi_agent_label i')" using owners_okD(3) [OF assms i(1)] i by simp
    show "hi_unconfirmed_since i' = fence_of ?u (hi_source i') (hi_agent_label i')" using owners_okD(4) [OF assms i(1)] i by (simp add: fence)
  qed (simp_all add: u restore_fields)
qed

lemma owners_ok_export_exits:
  assumes "owners_ok t"
  shows "owners_ok (import_terminal H p (export_with_pending_exits H pending captured t) imported)"
proof -
  have "owners_ok (fold (\<lambda>(agent, at) u. snd (set_detected_state_with_screen_signals_at H agent Idle False True at u)) xs u)"
    if "owners_ok u" for xs u
    using that by (induction xs arbitrary: u) (auto simp: owners_ok_detected)
  with assms show ?thesis by (simp add: export_with_pending_exits_def owners_ok_import)
qed

interpretation terminal_owners: inductive_system terminal_init "terminal_step H" owners_ok for H
proof
  show "owners_ok t" if "terminal_init t" for t
    using that by (intro owners_okI) (auto simp: terminal_init_def terminal_new_def)
  show "owners_ok u" if "terminal_step H t u" "owners_ok t" for t u
    using that by (cases rule: terminal_step.cases) (auto intro: owners_ok_event owners_ok_export_exits)
qed

end
