(* ===== verification/Terminal_Properties.thy ===== *)
theory Terminal_Properties
  imports Terminal_System
begin

text \<open>
  The theorems about terminals: the published state is the arbitrated one, an owner whose process
  was seen to exit stays barred until a newer observation shows it running, and retired sessions
  stay retired across reports and live handoffs.
\<close>

section \<open>The published state\<close>

definition settled :: "host \<Rightarrow> terminal_state \<Rightarrow> bool" where
  "settled H t \<longleftrightarrow> t_state t = arbitrated_state H t"

lemma settled_face: "face t = face u \<Longrightarrow> settled H t = settled H u"
  using arbitrated_face [of t u H] by (simp add: settled_def face_def)

lemma settled_finish: "ev_state previous = t_state t \<Longrightarrow> settled H (snd (finish_mutation H previous ps released now t))"
  by (simp add: settled_def finish_arbitrated)

text \<open>Arbitration does not read the identity-only owner.\<close>

lemma settled_fields:
  assumes "t_hook_authority u = t_hook_authority t" "t_detected_agent u = t_detected_agent t" "t_fallback_state u = t_fallback_state t"
    "t_fallback_visible_blocker u = t_fallback_visible_blocker t" "t_fallback_observed_at u = t_fallback_observed_at t" "t_state u = t_state t"
  shows "settled H u = settled H t"
  using assms by (simp add: settled_def arbitrated_state_def visible_blocker_overrides_hook_def live_full_lifecycle_hook_authority_def
      fallback_not_older_than_hook_def cong: option.case_cong)

lemma settled_bare: "t_hook_authority t = None \<Longrightarrow> t_state t = t_fallback_state t \<Longrightarrow> settled H t"
  by (simp add: settled_def arbitrated_state_def visible_blocker_overrides_hook_def)

lemma exit_state [simp]:
  "t_state (fst (exit_authority H agent exited now p)) = t_state (fst p)"
  "t_state (fst (exit_identity H agent exited now p)) = t_state (fst p)"
  "t_state (drop_conflicting_authority H agent prev now t) = t_state t"
  "t_state (confirm_pending_hook_owner H detected now t) = t_state t"
  by (auto simp: exit_authority_def exit_identity_def drop_conflicting_authority_def confirm_pending_hook_owner_def
      hold_hook_owner_unconfirmed_def Let_def case_prod_beta split: option.splits)

lemma settled_detected: "settled H (snd (set_detected_state_with_screen_signals_at H agent fs vb exited now t))"
  unfolding set_detected_state_with_screen_signals_at_def Let_def case_prod_beta
  by (simp add: settled_finish)

lemma settled_record_identity: "settled H t \<Longrightarrow> settled H (snd (record_identity_only_hook_report_at H source label r seq now t))"
  by (subst settled_fields [of _ t]; simp add: record_identity_only_hook_report_at_def Let_def split: option.splits)

lemma settled_set_authority: "settled H t \<Longrightarrow> settled H (snd (set_hook_authority_at H source label state message r seq now t))"
  by (simp add: set_hook_authority_at_def settled_record_identity Let_def case_prod_beta settled_finish)

lemma settled_session_start:
  "settled H t \<Longrightarrow> settled H (snd (set_agent_session_ref_for_session_start_at H source label sr seq reason observation now t))"
  by (simp add: set_agent_session_ref_for_session_start_at_def Let_def case_prod_beta settled_finish split: option.splits)

lemma settled_clear: "settled H t \<Longrightarrow> settled H (snd (clear_hook_authority_with_mutation H source seq now t))"
  by (simp add: clear_hook_authority_with_mutation_def Let_def case_prod_beta settled_finish split: option.splits)

lemma settled_release: "settled H t \<Longrightarrow> settled H (snd (release_agent_with_mutation H source label seq now t))"
  by (simp add: release_agent_with_mutation_def Let_def case_prod_beta settled_finish)

lemma settled_recompute:
  "ev_state previous = t_state t \<Longrightarrow> settled H (snd (recompute_effective_state H previous now t))"
  by (simp add: settled_def recompute_arbitrated)

lemma settled_metadata:
  assumes "settled H t"
  shows "settled H (snd (set_agent_metadata H report now t))"
proof -
  have hidden: "settled H (clear_expiry_pending_for_hidden_metadata u) = settled H u" for u
    by (rule settled_face) (rule clear_expiry_face)
  have skip: "settled H (snd (accept_metadata_report source seq tokens t))" for source seq tokens
    using assms settled_face [OF accept_metadata_face] by blast
  show ?thesis
    by (simp add: set_agent_metadata_def Let_def case_prod_beta skip hidden settled_recompute)
qed

lemma settled_expire: "settled H t \<Longrightarrow> settled H (snd (expire_agent_metadata_at H scheduled now t))"
  using settled_fields [of "t\<lparr>t_agent_metadata := x\<rparr>" t H for x]
  by (simp add: expire_agent_metadata_at_def Let_def case_prod_beta settled_recompute)

lemma settled_expire_terminal: "settled H t \<Longrightarrow> settled H (expire_terminal_metadata H scheduled now t)"
  using settled_expire [of H t scheduled now]
  by (subst settled_fields [of _ "snd (expire_agent_metadata_at H scheduled now t)"]) (simp_all add: expire_terminal_metadata_def Let_def case_prod_beta)

lemma settled_update: "settled H (snd (update t)) \<Longrightarrow> settled H (update_terminal_state_at H n now exit update t)"
  using settled_face [OF update_face] by blast

lemma settled_event:
  assumes "settled H t"
  shows "settled H (handle_event H n e t)"
proof (cases e)
  case (PaneProcessExit at)
  then show ?thesis
    by (auto intro!: settled_update simp: publish_pane_process_exit_if_agent_def Let_def case_prod_beta assms settled_detected)
next
  case (TokensReported source seq patch ttl now)
  show ?thesis
    using assms by (subst settled_fields [of _ t]; simp add: TokensReported report_pane_tokens_def Let_def case_prod_beta)
next
  case Respawned
  then show ?thesis
    by (auto intro!: settled_bare simp: clear_agent_runtime_identity_after_respawn_def clear_agent_name_def)
next
  case (ManagedReconciled now)
  then show ?thesis using assms settled_face [OF reconcile_face] by auto
qed (use assms in \<open>auto intro!: settled_update settled_detected settled_metadata settled_clear settled_release settled_expire_terminal
    settled_session_start settled_record_identity settled_set_authority simp: handle_hook_state_reported_def set_agent_session_ref_def
    begin_managed_agent_def set_terminal_title_def set_manual_label_def clear_manual_label_def set_agent_name_def Let_def
    settled_fields [of "_\<lparr>t_managed_agent := _\<rparr>" t] settled_fields [of "_\<lparr>t_manual_label := _\<rparr>" t]
    settled_fields [of "_\<lparr>t_agent_name := _\<rparr>" t] settled_fields [of "_\<lparr>t_terminal_title := _\<rparr>" t]
    settled_fields [of "_\<lparr>t_revision := _\<rparr>" t] settled_face [OF clear_agent_name_face]\<close>)

lemma settled_import: "settled H (import_terminal H p retirement now)"
  by (rule settled_bare)
    (auto simp: import_terminal_eq apply_handoff_hook_retirement_def restore_fields require_imported_hook_identity_confirmation_def
      Let_def split: option.splits)

interpretation terminal_settled: inductive_system terminal_init "terminal_step H" "settled H" for H
proof
  show "settled H t" if "terminal_init t" for t
    using that by (intro settled_bare) (auto simp: terminal_init_def terminal_new_def)
  show "settled H u" if "terminal_step H t u" "settled H t" for t u
    using that by (cases rule: terminal_step.cases) (auto intro: settled_event settled_import)
qed

section \<open>What bars an owner\<close>

text \<open>The instants an owner has to outlive: its unanswered exit, and the import of a live handoff.\<close>

definition barring_instants :: "terminal_state \<Rightarrow> ustr \<Rightarrow> ustr \<Rightarrow> instant set" where
  "barring_instants t source label =
     set_option (fence_of t source label) \<union>
     (case t_handoff_confirmation t of Some (ow, at) \<Rightarrow> if owner_matches ow source label then {at} else {} | None \<Rightarrow> {})"

text \<open>The helpers leave the imported confirmation alone.\<close>

lemma fold_handoff:
  "(\<And>x u. x \<in> set xs \<Longrightarrow> t_handoff_confirmation (f x u) = t_handoff_confirmation u) \<Longrightarrow>
   t_handoff_confirmation (fold f xs t) = t_handoff_confirmation t"
  by (induction xs arbitrary: t) auto

lemma handoff_frames [simp]:
  "t_handoff_confirmation (remember_stale_hook_session source label r retired_at evidence last_loss t) = t_handoff_confirmation t"
  "t_handoff_confirmation (forget_stale_hook_session source label r t) = t_handoff_confirmation t"
  "t_handoff_confirmation (suppress_hook_report_with_session_ref source label sr reason at t) = t_handoff_confirmation t"
  "t_handoff_confirmation (commit_hook_report_admission source admission t) = t_handoff_confirmation t"
  "t_handoff_confirmation (observe_process_loss_for_retired_owners H detected exited at t) = t_handoff_confirmation t"
  "t_handoff_confirmation (advance_session_owner_epoch now t) = t_handoff_confirmation t"
  "t_handoff_confirmation (drop_exited_session H agent exited t) = t_handoff_confirmation t"
  "t_handoff_confirmation (clear_expiry_pending_for_hidden_metadata t) = t_handoff_confirmation t"
  "t_handoff_confirmation (snd (accept_metadata_report source seq tokens t)) = t_handoff_confirmation t"
  "t_handoff_confirmation (clear_agent_name t) = t_handoff_confirmation t"
  "t_handoff_confirmation (hold_hook_owner_unconfirmed source label at t) = t_handoff_confirmation t"
  by (cases admission; auto simp: remember_stale_hook_session_def forget_stale_hook_session_def suppress_hook_report_with_session_ref_def
      observe_process_loss_for_retired_owners_def advance_session_owner_epoch_def drop_exited_session_def clear_agent_name_def
      clear_expiry_pending_for_hidden_metadata_def accept_metadata_report_def hold_hook_owner_unconfirmed_def Let_def split: option.splits)+

lemma handoff_frames_derived [simp]:
  "t_handoff_confirmation (suppress_hook_report source label reason at t) = t_handoff_confirmation t"
  "t_handoff_confirmation (suppress_current_hook_authority reason at t) = t_handoff_confirmation t"
  "t_handoff_confirmation (snd (retire_hook_identity reason at t)) = t_handoff_confirmation t"
  "t_handoff_confirmation (retire_suppressed_session_after_accepting source label accepted t) = t_handoff_confirmation t"
  "t_handoff_confirmation (fold (\<lambda>s. commit_hook_report_admission s adm) ss t) = t_handoff_confirmation t"
  by (auto simp: suppress_hook_report_def suppress_current_hook_authority_def retire_hook_identity_def
      retire_suppressed_session_after_accepting_def Let_def fold_handoff split: option.splits)

lemma clear_suppression_handoff [simp]:
  "t_handoff_confirmation (clear_hook_suppression_for_detected_agent H detected at t) = t_handoff_confirmation t"
proof (cases detected)
  case (Some d)
  have "t_handoff_confirmation (fold (\<lambda>(source, s) u. case su_session_ref s of
      Some r \<Rightarrow> remember_stale_hook_session source (su_agent_label s) r (su_observed_at s) (Some at) (su_last_loss s) u
    | None \<Rightarrow> u) xs u) = t_handoff_confirmation u" for xs u
    by (rule fold_handoff) (auto split: option.splits)
  note f = this
  show ?thesis unfolding Some clear_hook_suppression_for_detected_agent_def option.case Let_def by (simp add: f)
qed (simp add: clear_hook_suppression_for_detected_agent_def)

lemma exit_handoff [simp]:
  "t_handoff_confirmation (fst (exit_authority H agent exited now p)) = t_handoff_confirmation (fst p)"
  "t_handoff_confirmation (fst (exit_identity H agent exited now p)) = t_handoff_confirmation (fst p)"
  "t_handoff_confirmation (drop_conflicting_authority H agent prev now t) = t_handoff_confirmation t"
  by (auto simp: exit_authority_def exit_identity_def drop_conflicting_authority_def Let_def case_prod_beta split: option.splits)

lemma reconcile_handoff [simp]: "t_handoff_confirmation (snd (reconcile_managed_agent_at H now exit t)) = t_handoff_confirmation t"
  by (auto simp: reconcile_managed_agent_at_def Let_def split: option.splits managed_agent_phase.splits)

lemma update_handoff:
  "t_handoff_confirmation (update_terminal_state_at H n now exit update t) = t_handoff_confirmation (snd (update t))"
  by (auto simp: update_terminal_state_at_def Let_def case_prod_beta split: option.splits)

text \<open>Every operation but a running observation keeps both bars.\<close>

definition bars :: "terminal_state \<Rightarrow> (hook_owner \<times> instant) option \<times> (hook_owner \<times> instant) option" where
  "bars t = (t_unanswered_exit t, t_handoff_confirmation t)"

lemma barring_cong: "bars t = bars u \<Longrightarrow> barring_instants t = barring_instants u"
  by (simp add: bars_def barring_instants_def fence_of_def fun_eq_iff)

lemma bars_update: "bars (update_terminal_state_at H n now exit update t) = bars (snd (update t))"
  using update_face [of H n now exit update t] by (simp add: bars_def update_handoff face_def)

lemma bars_ops:
  "bars (snd (record_identity_only_hook_report_at H source label r seq now t)) = bars t"
  "bars (snd (set_hook_authority_at H source label state message r seq now t)) = bars t"
  "bars (snd (set_agent_session_ref_for_session_start_at H source label r seq reason observation now t)) = bars t"
  "bars (snd (clear_hook_authority_with_mutation H osource seq now t)) = bars t"
  "bars (snd (release_agent_with_mutation H source label seq now t)) = bars t"
  "bars (snd (set_agent_metadata H report now t)) = bars t"
  "bars (snd (expire_agent_metadata_at H scheduled now t)) = bars t"
  "bars (report_pane_tokens H source seq patch ttl now t) = bars t"
  "bars (expire_terminal_metadata H scheduled now t) = bars t"
proof -
  show *: "bars (snd (record_identity_only_hook_report_at H source label r seq now t)) = bars t"
    by (simp add: record_identity_only_hook_report_at_def bars_def Let_def split: option.splits)
  show "bars (snd (set_hook_authority_at H source label state message r seq now t)) = bars t"
    by (simp add: set_hook_authority_at_def * Let_def case_prod_beta) (simp add: bars_def)
  show "bars (snd (set_agent_session_ref_for_session_start_at H source label r seq reason observation now t)) = bars t"
    by (simp add: set_agent_session_ref_for_session_start_at_def bars_def Let_def case_prod_beta split: option.splits)
  show "bars (snd (clear_hook_authority_with_mutation H osource seq now t)) = bars t"
    by (simp add: clear_hook_authority_with_mutation_def bars_def Let_def case_prod_beta split: option.splits)
  show "bars (snd (release_agent_with_mutation H source label seq now t)) = bars t"
    by (simp add: release_agent_with_mutation_def bars_def Let_def case_prod_beta)
  show "bars (snd (set_agent_metadata H report now t)) = bars t"
    by (simp add: set_agent_metadata_def bars_def Let_def case_prod_beta)
  show "bars (snd (expire_agent_metadata_at H scheduled now t)) = bars t"
    by (simp add: expire_agent_metadata_at_def bars_def Let_def case_prod_beta)
  show "bars (report_pane_tokens H source seq patch ttl now t) = bars t"
    by (simp add: report_pane_tokens_def bars_def Let_def case_prod_beta)
  show "bars (expire_terminal_metadata H scheduled now t) = bars t"
    by (simp add: expire_terminal_metadata_def expire_agent_metadata_at_def bars_def Let_def case_prod_beta)
qed

definition installed_owner :: "terminal_state \<Rightarrow> (ustr \<times> ustr) option" where
  "installed_owner t = or_else (map_option (\<lambda>a. (ha_source a, ha_agent_label a)) (t_hook_authority t))
     (map_option (\<lambda>i. (hi_source i, hi_agent_label i)) (t_hook_identity t))"

lemma confirmed_is_unbarred:
  assumes "owners_ok t" "confirmed_hook_owner t = Some (source, label)"
  shows "installed_owner t = Some (source, label)" "barring_instants t source label = {}"
  using assms owners_okD [OF assms(1)]
  by (auto simp: confirmed_hook_owner_def installed_owner_def barring_instants_def or_else_def split: option.splits prod.splits if_splits)

text \<open>An exit observation leaves the barred owner barred or removes it.\<close>

definition exit_barred :: "ustr \<Rightarrow> ustr \<Rightarrow> terminal_state \<Rightarrow> bool" where
  "exit_barred source label t \<longleftrightarrow> fence_of t source label \<noteq> None \<or> installed_owner t \<noteq> Some (source, label)"

lemma exit_barred_hold:
  assumes "installed_owner t = Some (source', label')"
  shows "exit_barred source label (hold_hook_owner_unconfirmed source' label' at t)"
proof -
  have "installed_owner (hold_hook_owner_unconfirmed source' label' at t) = Some (source', label')"
    using assms by (cases "t_hook_authority t"; cases "t_hook_identity t") (auto simp: installed_owner_def hold_fields)
  then show ?thesis using fence_hold [of source' label' at t] by (auto simp: exit_barred_def)
qed

lemma exit_barred_sub:
  assumes "exit_barred source label t" "owners_ok t" "t_unanswered_exit u = t_unanswered_exit t"
    "t_hook_authority u \<in> {None, t_hook_authority t}" "t_hook_identity u \<in> {None, t_hook_identity t}"
  shows "exit_barred source label u"
  using assms fence_cong [OF assms(3)] owners_okD(5) [OF assms(2)]
  by (cases "t_hook_authority t"; cases "t_hook_identity t") (auto simp: exit_barred_def installed_owner_def)

lemma exit_barred_authority:
  assumes "exit_barred source label t" "owners_ok t"
  shows "exit_barred source label (fst (exit_authority H agent True now (t, released)))"
proof (cases "t_hook_authority t")
  case (Some a)
  then have o: "installed_owner t = Some (ha_source a, ha_agent_label a)" by (simp add: installed_owner_def)
  have "exit_barred source label (suppress_current_hook_authority ProcessExit now t
      \<lparr>t_hook_sequences := x, t_hook_authority := None\<rparr>)" for x
    by (rule exit_barred_sub [OF assms]) simp_all
  with exit_barred_hold [OF o] assms show ?thesis by (simp add: exit_authority_def Some Let_def)
qed (simp add: exit_authority_def assms)

lemma exit_barred_identity:
  assumes "exit_barred source label t" "owners_ok t"
  shows "exit_barred source label (fst (exit_identity H agent True now (t, released)))"
proof (cases "t_hook_identity t")
  case (Some i)
  then have o: "installed_owner t = Some (hi_source i, hi_agent_label i)"
    using owners_okD(5) [OF assms(2)] by (simp add: installed_owner_def)
  have "exit_barred source label (snd (retire_hook_identity ProcessExit now t))"
    by (rule exit_barred_sub [OF assms]) simp_all
  with exit_barred_hold [OF o] assms show ?thesis by (simp add: exit_identity_def Some)
qed (simp add: exit_identity_def assms retire_hook_identity_def)

lemma exit_barred_observed:
  assumes "exit_barred source label t" "owners_ok t"
  shows "exit_barred source label (snd (set_detected_state_with_screen_signals_at H agent fs vb True now t))"
proof -
  define t4 where "t4 = t\<lparr>t_detected_agent := agent, t_fallback_state := fs, t_fallback_visible_blocker := (vb \<and> fs = Blocked),
    t_fallback_observed_at := Some now\<rparr>"
  define u where "u = (\<lambda>released. fst (exit_identity H agent True now (exit_authority H agent True now (t4, released))))"
  have t4: "exit_barred source label t4" "owners_ok t4"
    by (rule exit_barred_sub [OF assms]; simp add: t4_def) (rule owners_ok_cong [OF assms(2)]; simp add: t4_def)
  have u: "exit_barred source label (u released)" "owners_ok (u released)" for released
    using exit_barred_identity [OF exit_barred_authority [OF t4] owners_ok_exit_authority [OF t4(2)],
        where H = H and agent = agent and now = now]
      owners_ok_exit_identity [OF owners_ok_exit_authority [OF t4(2)], where H = H and agent = agent and exited = True and now = now]
    by (simp_all add: u_def) (metis fst_conv prod.collapse)+
  have "exit_barred source label (snd (finish_mutation H view ps rel now (drop_conflicting_authority H agent prev now
      (drop_exited_session H agent True (observe_process_loss_for_retired_owners H agent True now (u released))))))" for view ps rel prev released
    by (rule exit_barred_sub [OF u [of released]]) (simp_all add: drop_conflicting_authority_def Let_def)
  then show ?thesis
    by (simp add: set_detected_state_with_screen_signals_at_def should_ignore_detected_state_under_full_lifecycle_hook_def
        Let_def case_prod_beta u_def t4_def)
qed

text \<open>A running observation confirms and does nothing else to the bars.\<close>

lemma bars_running:
  "bars (snd (set_detected_state_with_screen_signals_at H agent fs vb False now t)) = bars (confirm_pending_hook_owner H agent now t)"
proof -
  have "bars (fst (exit_authority H agent False now (u, rel))) = bars u" for u rel by (simp add: exit_authority_def)
  moreover have "bars (fst (exit_identity H agent False now p)) = bars (fst p)" for p
    by (simp add: exit_identity_def bars_def case_prod_beta)
  ultimately show ?thesis
    by (simp add: set_detected_state_with_screen_signals_at_def Let_def case_prod_beta drop_conflicting_authority_def bars_def)
qed

lemma barring_running:
  assumes "p \<in> barring_instants t source label"
    and "barring_instants (confirm_pending_hook_owner H detected at t) source label = {}"
  shows "\<exists>d. detected = Some d \<and> p < at \<and> parse_label H label = Some d"
proof (cases detected)
  case (Some d)
  have h: "t_handoff_confirmation (confirm_pending_hook_owner H (Some d) at t) =
      (if some_and (\<lambda>(ow, q). confirms H d at (ow_agent_label ow) (Some q)) (t_handoff_confirmation t) then None else t_handoff_confirmation t)"
    by (simp add: confirm_pending_hook_owner_def Let_def)
  show ?thesis
  proof (cases "fence_of t source label = Some p")
    case True
    with assms(2) show ?thesis by (auto simp: Some barring_instants_def fence_confirm confirms_def split: if_splits)
  next
    case False
    with assms(1) obtain ow where ow: "t_handoff_confirmation t = Some (ow, p)" "owner_matches ow source label"
      by (auto simp: barring_instants_def split: option.splits if_splits)
    from ow(2) have "ow_agent_label ow = label" by (simp add: owner_matches_def)
    with ow assms(2) show ?thesis by (auto simp: Some barring_instants_def h confirms_def split: if_splits)
  qed
qed (use assms in \<open>simp add: confirm_fields\<close>)

lemma bars_other_events:
  "(case e of StateChanged _ _ _ _ _ _ \<Rightarrow> False | PaneProcessExit _ \<Rightarrow> False | _ \<Rightarrow> True) \<Longrightarrow> bars (handle_event H n e t) = bars t"
  by (cases e) (auto simp: bars_update bars_ops handle_hook_state_reported_def set_agent_session_ref_def begin_managed_agent_def
      set_agent_name_def set_manual_label_def clear_manual_label_def set_terminal_title_def Let_def
      clear_agent_runtime_identity_after_respawn_def, auto simp: bars_def)

lemma confirmed_after_exit:
  assumes "owners_ok t" "p \<in> barring_instants t source label"
  shows "confirmed_hook_owner (snd (set_detected_state_with_screen_signals_at H agent fs vb True now t)) \<noteq> Some (source, label)"
proof
  let ?u = "snd (set_detected_state_with_screen_signals_at H agent fs vb True now t)"
  assume "confirmed_hook_owner ?u = Some (source, label)"
  from confirmed_is_unbarred [OF owners_ok_detected [OF assms(1)] this]
  have u: "installed_owner ?u = Some (source, label)" "barring_instants ?u source label = {}" by auto
  have "t_handoff_confirmation ?u = t_handoff_confirmation t"
    by (simp add: set_detected_state_with_screen_signals_at_def Let_def case_prod_beta)
  with assms(2) u(2) have "fence_of t source label = Some p" by (auto simp: barring_instants_def split: option.splits if_splits)
  then have "exit_barred source label ?u" by (intro exit_barred_observed assms(1)) (simp add: exit_barred_def)
  with u show False by (auto simp: exit_barred_def barring_instants_def)
qed

text \<open>Over whole runs: which events move the remembered exit, and to what.\<close>

definition run_events :: "host \<Rightarrow> (u64 \<times> terminal_event) list \<Rightarrow> terminal_state \<Rightarrow> terminal_state" where
  "run_events H es t = fold (\<lambda>(n, e). handle_event H n e) es t"

fun exit_instant :: "terminal_event \<Rightarrow> instant option" where
  "exit_instant (StateChanged agent st b exited at now) = (if exited then Some at else None)"
| "exit_instant (PaneProcessExit at) = Some at"
| "exit_instant e = None"

fun running_instant :: "host \<Rightarrow> ustr \<Rightarrow> terminal_event \<Rightarrow> instant option" where
  "running_instant H label (StateChanged (Some d) st b exited at now) =
     (if \<not> exited \<and> parse_label H label = Some d then Some at else None)"
| "running_instant H label e = None"

definition others_exit :: "terminal_state \<Rightarrow> ustr \<Rightarrow> ustr \<Rightarrow> bool" where
  "others_exit t source label \<longleftrightarrow> (\<exists>ow q. t_unanswered_exit t = Some (ow, q) \<and> \<not> owner_matches ow source label)"

lemma exit_slot_detected:
  assumes "owners_ok t"
  shows "t_unanswered_exit (snd (set_detected_state_with_screen_signals_at H agent fs vb True now t)) = t_unanswered_exit t \<or>
    (\<exists>s l. t_unanswered_exit (snd (set_detected_state_with_screen_signals_at H agent fs vb True now t)) =
       t_unanswered_exit (hold_hook_owner_unconfirmed s l now t))"
proof -
  define t4 where "t4 = t\<lparr>t_detected_agent := agent, t_fallback_state := fs, t_fallback_visible_blocker := (vb \<and> fs = Blocked),
    t_fallback_observed_at := Some now\<rparr>"
  define u where "u = (\<lambda>released. fst (exit_identity H agent True now (exit_authority H agent True now (t4, released))))"
  have hold4: "t_unanswered_exit (hold_hook_owner_unconfirmed s l now t4) = t_unanswered_exit (hold_hook_owner_unconfirmed s l now t)" for s l
    by (simp add: hold_hook_owner_unconfirmed_def t4_def Let_def)
  have t4: "t_unanswered_exit t4 = t_unanswered_exit t" "t_hook_authority t4 = t_hook_authority t" "t_hook_identity t4 = t_hook_identity t"
    by (simp_all add: t4_def)
  have "t_unanswered_exit (u released) = t_unanswered_exit t \<or>
      (\<exists>s l. t_unanswered_exit (u released) = t_unanswered_exit (hold_hook_owner_unconfirmed s l now t))" for released
  proof (cases "t_hook_authority t")
    case None
    then have a: "exit_authority H agent True now (t4, released) = (t4, released)" by (simp add: exit_authority_def t4)
    show ?thesis
      unfolding u_def a using t4 hold4 by (auto simp: exit_identity_def split: option.splits)
  next
    case (Some a)
    then have i: "t_hook_identity t = None" using owners_okD(5) [OF assms] by simp
    have "t_hook_identity (fst (exit_authority H agent True now (t4, released))) = None"
      by (simp add: exit_authority_def t4 Some i Let_def hold_fields)
    then have "u released = fst (exit_authority H agent True now (t4, released))"
      by (simp add: u_def exit_identity_def case_prod_beta retire_hook_identity_def hook_identity_conflicts_with_detected_agent_def split: option.splits)
    then show ?thesis using t4 hold4 Some by (auto simp: exit_authority_def Let_def)
  qed
  note u = this
  have "t_unanswered_exit (snd (finish_mutation H view ps rel now (drop_conflicting_authority H agent prev now
      (drop_exited_session H agent True (observe_process_loss_for_retired_owners H agent True now (u released)))))) =
      t_unanswered_exit (u released)" for view ps rel prev released
    by (simp add: drop_conflicting_authority_def Let_def)
  with u show ?thesis
    by (simp add: set_detected_state_with_screen_signals_at_def should_ignore_detected_state_under_full_lifecycle_hook_def
        Let_def case_prod_beta u_def t4_def)
qed

text \<open>An exit keeps the bar, moves it back to an older instant, or puts another owner's exit in its place.\<close>

lemma exit_event_fence:
  assumes "owners_ok t" and "fence_of t source label = Some p" and "exit_instant e = Some at"
  shows "fence_of (handle_event H n e t) source label \<in> {Some p, Some (min p at)} \<or> others_exit (handle_event H n e t) source label"
proof -
  have "t_unanswered_exit (handle_event H n e t) = t_unanswered_exit t \<or>
      (\<exists>agent fs vb. t_unanswered_exit (handle_event H n e t) =
         t_unanswered_exit (snd (set_detected_state_with_screen_signals_at H agent fs vb True at t)))"
  proof (cases e)
    case (StateChanged agent st b exited at' now)
    with assms(3) have "exited" "at' = at" by (simp_all split: if_splits)
    then have "bars (handle_event H n e t) = bars (snd (set_detected_state_with_screen_signals_at H agent st b True at t))"
      by (simp add: StateChanged bars_update)
    then have "t_unanswered_exit (handle_event H n e t) =
        t_unanswered_exit (snd (set_detected_state_with_screen_signals_at H agent st b True at t))" by (simp add: bars_def)
    then show ?thesis by blast
  next
    case (PaneProcessExit at')
    with assms(3) have "bars (handle_event H n e t) = bars (snd (publish_pane_process_exit_if_agent H at t))"
      by (simp add: bars_update)
    then have "t_unanswered_exit (handle_event H n e t) = t_unanswered_exit (snd (publish_pane_process_exit_if_agent H at t))"
      by (simp add: bars_def)
    then show ?thesis
      by (simp add: publish_pane_process_exit_if_agent_def Let_def case_prod_beta) blast
  qed (use assms(3) in simp_all)
  then have "t_unanswered_exit (handle_event H n e t) = t_unanswered_exit t \<or>
      (\<exists>s l. t_unanswered_exit (handle_event H n e t) = t_unanswered_exit (hold_hook_owner_unconfirmed s l at t))"
    using exit_slot_detected [OF assms(1)] by metis
  then show ?thesis
  proof
    assume "t_unanswered_exit (handle_event H n e t) = t_unanswered_exit t"
    then show ?thesis using assms(2) by (simp add: fence_of_def)
  next
    assume "\<exists>s l. t_unanswered_exit (handle_event H n e t) = t_unanswered_exit (hold_hook_owner_unconfirmed s l at t)"
    then obtain s l where sl: "t_unanswered_exit (handle_event H n e t) = t_unanswered_exit (hold_hook_owner_unconfirmed s l at t)"
      by blast
    show ?thesis
    proof (cases "s = source \<and> l = label")
      case True
      then have "fence_of (handle_event H n e t) source label = Some (earliest (Some p) at)"
        using fence_hold [of source label at t] assms(2) sl by (simp add: fence_of_def)
      then show ?thesis by (simp add: earliest_def)
    next
      case False
      then have "others_exit (handle_event H n e t) source label"
        unfolding others_exit_def sl by (auto simp: hold_hook_owner_unconfirmed_def Let_def owner_matches_def owner_new_def)
      then show ?thesis by blast
    qed
  qed
qed

text \<open>Any other event leaves the exit alone, except an observation of its agent running after it.\<close>

lemma other_event_fence:
  assumes "fence_of t source label = Some p" and "exit_instant e = None"
  shows "fence_of (handle_event H n e t) source label = Some p \<or> (\<exists>at. running_instant H label e = Some at \<and> p < at)"
proof (cases e)
  case (StateChanged agent st b exited at now)
  with assms(2) have ex: "\<not> exited" by (simp split: if_splits)
  then have "bars (handle_event H n e t) = bars (confirm_pending_hook_owner H agent at t)"
    by (simp add: StateChanged bars_update bars_running)
  then have f: "fence_of (handle_event H n e t) source label = fence_of (confirm_pending_hook_owner H agent at t) source label"
    by (simp add: bars_def fence_of_def)
  show ?thesis
  proof (cases agent)
    case None
    then show ?thesis using f assms(1) by (simp add: confirm_pending_hook_owner_def)
  next
    case (Some d)
    then show ?thesis
      using f assms(1) ex StateChanged by (auto simp: fence_confirm confirms_def split: if_splits)
  qed
next
  case (PaneProcessExit at)
  with assms(2) show ?thesis by simp
qed (use assms(1) bars_other_events [of e H n t] in \<open>simp_all add: bars_def fence_of_def\<close>)

lemma handoff_bar_event:
  assumes "t_handoff_confirmation t = Some (ow, p)" and "owner_matches ow source label"
  shows "t_handoff_confirmation (handle_event H n e t) = Some (ow, p) \<or> (\<exists>at. running_instant H label e = Some at \<and> p < at)"
proof (cases "\<exists>agent st b at now. e = StateChanged agent st b False at now")
  case True
  then obtain agent st b at now where e: "e = StateChanged agent st b False at now" by blast
  have "bars (handle_event H n e t) = bars (confirm_pending_hook_owner H agent at t)"
    by (simp add: e bars_update bars_running)
  then have h: "t_handoff_confirmation (handle_event H n e t) = t_handoff_confirmation (confirm_pending_hook_owner H agent at t)"
    by (simp add: bars_def)
  have "ow_agent_label ow = label" using assms(2) by (simp add: owner_matches_def)
  then show ?thesis
    using assms(1) e h by (cases agent) (auto simp: confirm_pending_hook_owner_def Let_def confirms_def split: if_splits)
next
  case False
  have "t_handoff_confirmation (handle_event H n e t) = t_handoff_confirmation t"
  proof (cases e)
    case (StateChanged agent st b exited at now)
    with False have "exited" by auto
    with StateChanged show ?thesis
      by (simp add: update_handoff set_detected_state_with_screen_signals_at_def Let_def case_prod_beta)
  next
    case (PaneProcessExit at)
    then show ?thesis
      by (simp add: update_handoff publish_pane_process_exit_if_agent_def set_detected_state_with_screen_signals_at_def Let_def case_prod_beta)
  qed (use bars_other_events [of e H n t] in \<open>simp_all add: bars_def\<close>)
  then show ?thesis using assms(1) by simp
qed

lemma run_events_Cons: "run_events H ((n, e) # es) t = run_events H es (handle_event H n e t)"
  by (simp add: run_events_def)

text \<open>What ends the bar of an exit in a run: the answer, or the exit of another owner.\<close>

definition answered :: "host \<Rightarrow> ustr \<Rightarrow> instant \<Rightarrow> (u64 \<times> terminal_event) list \<Rightarrow> bool" where
  "answered H label p es \<longleftrightarrow>
     (\<exists>xs n e ys at. es = xs @ (n, e) # ys \<and> running_instant H label e = Some at \<and>
        (p < at \<or> (\<exists>q m x. (m, x) \<in> set xs \<and> exit_instant x = Some q \<and> q < p \<and> q < at)))"

definition displaced :: "host \<Rightarrow> terminal_state \<Rightarrow> ustr \<Rightarrow> ustr \<Rightarrow> (u64 \<times> terminal_event) list \<Rightarrow> bool" where
  "displaced H t source label es \<longleftrightarrow>
     (\<exists>xs n e ys. es = xs @ (n, e) # ys \<and> exit_instant e \<noteq> None \<and> others_exit (run_events H (xs @ [(n, e)]) t) source label)"

lemma answered_Cons: "answered H label p es \<Longrightarrow> answered H label p (x # es)"
proof -
  assume "answered H label p es"
  then obtain xs m e ys now where es: "es = xs @ (m, e) # ys" "running_instant H label e = Some now"
    and c: "p < now \<or> (\<exists>q k y. (k, y) \<in> set xs \<and> exit_instant y = Some q \<and> q < p \<and> q < now)"
    unfolding answered_def by blast
  have "p < now \<or> (\<exists>q k y. (k, y) \<in> set (x # xs) \<and> exit_instant y = Some q \<and> q < p \<and> q < now)"
    using c by (meson list.set_intros(2))
  with es show ?thesis unfolding answered_def
    by (intro exI [of _ "x # xs"] exI [of _ m] exI [of _ e] exI [of _ ys] exI [of _ now]) simp
qed

lemma displaced_Cons: "displaced H (handle_event H n e t) source label es \<Longrightarrow> displaced H t source label ((n, e) # es)"
proof -
  assume "displaced H (handle_event H n e t) source label es"
  then obtain xs m x ys where d: "es = xs @ (m, x) # ys" "exit_instant x \<noteq> None"
    "others_exit (run_events H (xs @ [(m, x)]) (handle_event H n e t)) source label"
    unfolding displaced_def by blast
  then show ?thesis unfolding displaced_def
    by (intro exI [of _ "(n, e) # xs"] exI [of _ m] exI [of _ x] exI [of _ ys]) (simp add: run_events_Cons)
qed

lemma answered_earlier:
  assumes "answered H label (min p at) es" and "exit_instant e = Some at"
  shows "answered H label p ((n, e) # es)"
proof -
  from assms(1) obtain xs m x ys now where es: "es = xs @ (m, x) # ys" "running_instant H label x = Some now"
    and c: "min p at < now \<or> (\<exists>q k y. (k, y) \<in> set xs \<and> exit_instant y = Some q \<and> q < min p at \<and> q < now)"
    unfolding answered_def by blast
  have "p < now \<or> (\<exists>q k y. (k, y) \<in> set ((n, e) # xs) \<and> exit_instant y = Some q \<and> q < p \<and> q < now)"
    using c
  proof
    assume lt: "min p at < now"
    show ?thesis
    proof (cases "p \<le> at")
      case False
      then have "(n, e) \<in> set ((n, e) # xs) \<and> exit_instant e = Some at \<and> at < p \<and> at < now"
        using lt assms(2) by (simp add: min_def)
      then show ?thesis by blast
    qed (use lt in simp)
  next
    assume "\<exists>q k y. (k, y) \<in> set xs \<and> exit_instant y = Some q \<and> q < min p at \<and> q < now"
    then show ?thesis by auto
  qed
  with es show ?thesis unfolding answered_def
    by (intro exI [of _ "(n, e) # xs"] exI [of _ m] exI [of _ x] exI [of _ ys] exI [of _ now]) simp
qed

lemma exit_bar_run:
  assumes "owners_ok t" and "fence_of t source label = Some p"
    and "confirmed_hook_owner (run_events H es t) = Some (source, label)"
  shows "answered H label p es \<or> displaced H t source label es"
  using assms
proof (induction es arbitrary: t p)
  case Nil
  then show ?case using confirmed_is_unbarred(2) [of t source label] by (simp add: run_events_def barring_instants_def)
next
  case (Cons x es)
  obtain n e where x: "x = (n, e)" by fastforce
  let ?t = "handle_event H n e t"
  have ok: "owners_ok ?t" by (rule owners_ok_event [OF Cons.prems(1)])
  have run: "confirmed_hook_owner (run_events H es ?t) = Some (source, label)"
    using Cons.prems(3) by (simp add: x run_events_Cons)
  show ?case
  proof (cases "exit_instant e")
    case None
    from other_event_fence [OF Cons.prems(2) None, of H n] show ?thesis
    proof
      assume "fence_of ?t source label = Some p"
      from Cons.IH [OF ok this run] show ?thesis using answered_Cons displaced_Cons x by blast
    next
      assume "\<exists>at. running_instant H label e = Some at \<and> p < at"
      then have "answered H label p (x # es)" unfolding answered_def x by (metis append_Nil)
      then show ?thesis by blast
    qed
  next
    case (Some at)
    from exit_event_fence [OF Cons.prems(1,2) Some, of H n] consider
      "fence_of ?t source label = Some p" | "fence_of ?t source label = Some (min p at)" | "others_exit ?t source label" by blast
    then show ?thesis
    proof cases
      case 1
      from Cons.IH [OF ok this run] show ?thesis using answered_Cons displaced_Cons x by blast
    next
      case 2
      from Cons.IH [OF ok this run] show ?thesis using answered_earlier [OF _ Some] displaced_Cons x by blast
    next
      case 3
      then have "displaced H t source label (x # es)"
        unfolding displaced_def x using Some
        by (intro exI [of _ "[]"] exI [of _ n] exI [of _ e] exI [of _ es]) (simp add: run_events_def)
      then show ?thesis by blast
    qed
  qed
qed

lemma handoff_bar_run:
  assumes "owners_ok t" and "t_handoff_confirmation t = Some (ow, p)" and "owner_matches ow source label"
    and "confirmed_hook_owner (run_events H es t) = Some (source, label)"
  shows "\<exists>n e at. (n, e) \<in> set es \<and> running_instant H label e = Some at \<and> p < at"
  using assms
proof (induction es arbitrary: t)
  case Nil
  then show ?case using confirmed_is_unbarred(2) [of t source label] by (simp add: run_events_def barring_instants_def)
next
  case (Cons x es)
  obtain n e where x: "x = (n, e)" by fastforce
  have run: "confirmed_hook_owner (run_events H es (handle_event H n e t)) = Some (source, label)"
    using Cons.prems(4) by (simp add: x run_events_Cons)
  from handoff_bar_event [OF Cons.prems(2,3), of H n e] show ?case
  proof
    assume "t_handoff_confirmation (handle_event H n e t) = Some (ow, p)"
    from Cons.IH [OF owners_ok_event [OF Cons.prems(1)] this Cons.prems(3) run] show ?thesis by auto
  qed (use x in auto)
qed

lemma confirmed_cong:
  "t_hook_authority t = t_hook_authority u \<Longrightarrow> t_hook_identity t = t_hook_identity u \<Longrightarrow>
   t_handoff_confirmation t = t_handoff_confirmation u \<Longrightarrow> confirmed_hook_owner t = confirmed_hook_owner u"
  by (simp only: confirmed_hook_owner_def)

lemma confirmed_update:
  "confirmed_hook_owner (update_terminal_state_at H n now exit update t) = confirmed_hook_owner (snd (update t))"
  using update_face [of H n now exit update t] by (intro confirmed_cong) (simp_all add: update_handoff face_def)

text \<open>No owner is confirmed by a live handoff.\<close>

lemma confirmed_after_import: "confirmed_hook_owner (import_terminal H p retirement now) = None"
  by (cases retirement) (auto simp: import_terminal_eq apply_handoff_hook_retirement_def require_imported_hook_identity_confirmation_def
      confirmed_hook_owner_def restore_fields owner_matches_def owner_new_def Let_def split: option.splits)

definition sample_host :: host where
  "sample_host = \<lparr>host_lowercase = ascii_lowercase, host_instant_min = 0, host_instant_max = 10 ^ 18\<rparr>"

text \<open>A first report installs its owner; an exit captured before that report bars it.\<close>

lemma first_report_installs:
  assumes "\<not> session_identity_only_integration source label"
  shows "t_hook_authority (snd (set_hook_authority_at H source label state message None seq now (terminal_new i cwd))) =
    Some \<lparr>ha_source = source, ha_agent_label = label, ha_state = state, ha_message = message, ha_reported_at = now,
      ha_session_ref = None, ha_unconfirmed_since = None\<rparr>"
    "t_hook_sequences (snd (set_hook_authority_at H source label state message None seq now (terminal_new i cwd))) =
      (case seq of Some q \<Rightarrow> [(source, q)] | None \<Rightarrow> [])"
proof -
  let ?t = "terminal_new i cwd"
  have new: "t_hook_authority ?t = None" "t_hook_identity ?t = None" "t_unanswered_exit ?t = None" "t_detected_agent ?t = None"
    "t_persisted_session ?t = None" "t_suppressed ?t = []" "t_stale ?t = []" "t_hook_sequences ?t = []"
    by (simp_all add: terminal_new_def)
  have guards: "\<not> opencode_state_report_is_cross_talk H ?t source label None" "\<not> known_agent_label_conflicts_with_detected_agent H ?t label"
    "\<not> current_session_owner_conflicts ?t source label" "\<not> live_full_lifecycle_hook_authority_conflicts_with_session ?t source label None"
    by (simp_all add: opencode_state_report_is_cross_talk_def known_agent_label_conflicts_with_detected_agent_def
        current_session_owner_conflicts_def live_full_lifecycle_hook_authority_conflicts_with_session_def new split: option.splits)
  have plan: "plan_hook_report_admission ?t source label None None seq True False = Accept False seq"
    by (simp add: plan_hook_report_admission_def hook_report_sequence_reset_after_retirement_def hook_report_is_suppressed_def
        hook_report_matches_stale_session_def hook_report_has_fresh_session_after_suppression_def
        hook_report_has_fresh_session_after_stale_session_def hook_report_is_stale_def new split: option.splits)
  have "unanswered_exit_to_inherit ?t source label = None" by (simp add: unanswered_exit_to_inherit_def new)
  note facts = this assms guards plan
  show "t_hook_authority (snd (set_hook_authority_at H source label state message None seq now ?t)) =
    Some \<lparr>ha_source = source, ha_agent_label = label, ha_state = state, ha_message = message, ha_reported_at = now,
      ha_session_ref = None, ha_unconfirmed_since = None\<rparr>"
    using facts
    by (simp add: set_hook_authority_at_def clamp_session_ref_def Let_def case_prod_beta new del: commit_hook_report_admission.simps)
  show "t_hook_sequences (snd (set_hook_authority_at H source label state message None seq now ?t)) = (case seq of Some q \<Rightarrow> [(source, q)] | None \<Rightarrow> [])"
    using facts
    by (simp add: set_hook_authority_at_def clamp_session_ref_def advance_session_owner_epoch_def Let_def case_prod_beta new split: option.splits)
qed

lemma late_exit_bars:
  assumes "owners_ok t" "t_hook_authority t = Some a" "parse_label H (ha_agent_label a) = agent" "now < ha_reported_at a"
    and "t_unanswered_exit t = None"
  shows "fence_of (snd (set_detected_state_with_screen_signals_at H agent fs vb True now t)) (ha_source a) (ha_agent_label a) = Some now"
proof -
  define t4 where "t4 = t\<lparr>t_detected_agent := agent, t_fallback_state := fs, t_fallback_visible_blocker := (vb \<and> fs = Blocked),
    t_fallback_observed_at := Some now\<rparr>"
  have t4: "t_hook_authority t4 = Some a" "t_hook_identity t4 = None" "t_unanswered_exit t4 = None" "owners_ok t4"
    using assms owners_okD(5) [OF assms(1)] by (auto simp: t4_def intro: owners_ok_cong [OF assms(1)])
  have "\<not> hook_owner_has_unanswered_exit_older_than t4 (ha_source a) (ha_agent_label a) now"
    by (simp add: hook_owner_has_unanswered_exit_older_than_def inherit_fence [OF t4(4)] fence_of_def t4(3))
  then have auth: "exit_authority H agent True now (t4, rel) = (hold_hook_owner_unconfirmed (ha_source a) (ha_agent_label a) now t4, False)" for rel
    using assms(3,4) by (simp add: exit_authority_def t4 hook_authority_not_newer_than_def)
  let ?h = "hold_hook_owner_unconfirmed (ha_source a) (ha_agent_label a) now t4"
  have ident: "exit_identity H agent True now (?h, False) = (?h, False)"
    by (simp add: exit_identity_def retire_hook_identity_def hold_fields t4)
  have "t_unanswered_exit (snd (set_detected_state_with_screen_signals_at H agent fs vb True now t)) = t_unanswered_exit ?h"
    using auth ident
    by (simp add: set_detected_state_with_screen_signals_at_def should_ignore_detected_state_under_full_lifecycle_hook_def
        Let_def case_prod_beta drop_conflicting_authority_def t4_def)
  from fence_cong [OF this] show ?thesis by (simp add: fence_hold) (simp add: fence_of_def t4 earliest_def)
qed

definition sample_reported :: terminal_state where
  "sample_reported = handle_event sample_host 1 (HookStateReported (U ''zynk:pi'') (U ''pi'') Working None None None 10)
     (terminal_new (U ''t'') (U ''/''))"

definition sample_barred :: terminal_state where
  "sample_barred = handle_event sample_host 2 (StateChanged (Some Pi) Idle False True 5 5) sample_reported"

lemma event_reachable:
  "reachable terminal_init (terminal_step H) t \<Longrightarrow> reachable terminal_init (terminal_step H) (handle_event H n e t)"
  by (rule reachable.step) (auto intro: terminal_step.event)

lemma new_reachable: "reachable terminal_init (terminal_step H) (terminal_new i cwd)"
  by (rule reachable.start) (auto simp: terminal_init_def)

lemma sample_reachable:
  "reachable terminal_init (terminal_step sample_host) sample_reported" "reachable terminal_init (terminal_step sample_host) sample_barred"
  unfolding sample_barred_def sample_reported_def by (intro event_reachable new_reachable)+

lemma pi_owner:
  "\<not> session_identity_only_integration (U ''zynk:pi'') (U ''pi'')" "\<not> is_reserved_native_state_source (U ''zynk:pi'') (U ''pi'')"
  "full_lifecycle_hook_authority (U ''zynk:pi'') (U ''pi'')" "parse_label sample_host (U ''pi'') = Some Pi"
  using parse_agent_label_canonical [OF lowers_ascii_ascii_lowercase, of Pi]
  by (simp_all add: session_identity_only_integration_def full_lifecycle_hook_authority_def is_reserved_native_state_source_def U_def sample_host_def)

lemma sample_reported_authority:
  "t_hook_authority sample_reported = Some \<lparr>ha_source = U ''zynk:pi'', ha_agent_label = U ''pi'', ha_state = Working, ha_message = None,
     ha_reported_at = 10, ha_session_ref = None, ha_unconfirmed_since = None\<rparr>"
proof -
  have "face sample_reported = face (snd (set_hook_authority_at sample_host (U ''zynk:pi'') (U ''pi'') Working None None None 10
      (terminal_new (U ''t'') (U ''/''))))"
    unfolding sample_reported_def handle_event.simps update_face handle_hook_state_reported_def by (simp only: pi_owner if_False)
  with first_report_installs(1) [OF pi_owner(1)] show ?thesis by (simp add: face_def)
qed

lemma sample_barred_fence: "fence_of sample_barred (U ''zynk:pi'') (U ''pi'') = Some 5"
proof -
  have "bars sample_reported = bars (terminal_new (U ''t'') (U ''/''))" unfolding sample_reported_def by (rule bars_other_events) simp
  then have x: "t_unanswered_exit sample_reported = None" by (simp add: bars_def terminal_new_def)
  have "bars sample_barred = bars (snd (set_detected_state_with_screen_signals_at sample_host (Some Pi) Idle False True 5 sample_reported))"
    unfolding sample_barred_def by (simp add: bars_update)
  then have "fence_of sample_barred = fence_of (snd (set_detected_state_with_screen_signals_at sample_host (Some Pi) Idle False True 5 sample_reported))"
    by (intro fence_cong) (simp add: bars_def)
  with late_exit_bars [OF terminal_owners.reachable_inv [OF sample_reachable(1)] sample_reported_authority, of sample_host "Some Pi" 5] pi_owner(4) x
  show ?thesis by simp
qed

section \<open>Properties\<close>



text \<open>
  C12. Whatever sequence of reports, observations, expiries, respawns and handoffs a terminal went
  through, the state it publishes is the arbitrated one. Without a hook it is the detector's; a hook
  with full lifecycle authority decides alone; any other hook is outranked only by a visible blocker
  of the same agent, seen on the screen no earlier than the hook's report.
\<close>

theorem published_state_is_arbitrated:
  assumes "reachable terminal_init (terminal_step H) t"
  shows "(t_hook_authority t = None \<longrightarrow> t_state t = t_fallback_state t) \<and>
    (\<forall>a. t_hook_authority t = Some a \<longrightarrow>
       (if full_lifecycle_hook_authority (ha_source a) (ha_agent_label a) then t_state t = ha_state a
        else if t_fallback_visible_blocker t \<and> parse_label H (ha_agent_label a) = t_detected_agent t \<and>
          (\<exists>at. t_fallback_observed_at t = Some at \<and> ha_reported_at a \<le> at)
        then t_state t = Blocked else t_state t = ha_state a))"
proof -
  have "t_state t = arbitrated_state H t" using terminal_settled.reachable_inv [OF assms] by (simp add: settled_def)
  then show ?thesis
    by (auto simp: arbitrated_state_def visible_blocker_overrides_hook_def live_full_lifecycle_hook_authority_def
        fallback_not_older_than_hook_def split: if_splits option.splits)
      (metis option.exhaust some_and.simps)
qed

theorem published_state_is_arbitrated_witness: "t_state sample_reported = Working"
  using published_state_is_arbitrated [OF sample_reachable(1)] sample_reported_authority pi_owner(3) by simp

end
