(* ===== verification/Stale_Fences.thy ===== *)
theory Stale_Fences
  imports Terminal_Properties
begin

text \<open>
  Invariants of the stale sessions of a terminal. A locale states what an invariant of one fence must
  satisfy; its lemmas carry the invariant through every operation, event and handoff.
\<close>

lemma observe_keeps:
  "st_agent_label (observe_retirement at x) = st_agent_label x" "st_session_ref (observe_retirement at x) = st_session_ref x"
  "st_agent_label (observe_process_loss at x) = st_agent_label x" "st_session_ref (observe_process_loss at x) = st_session_ref x"
  "st_agent_label (record_fresh_process_evidence at x) = st_agent_label x"
  "st_session_ref (record_fresh_process_evidence at x) = st_session_ref x"
  by (auto simp: observe_retirement_def observe_process_loss_def record_fresh_process_evidence_def Let_def)

lemma observe_evidence:
  "st_evidence (observe_retirement at x) = Some e \<Longrightarrow> st_evidence x = Some e"
  "st_evidence (observe_process_loss at x) = Some e \<Longrightarrow> st_evidence x = Some e"
  "st_evidence (record_fresh_process_evidence at x) = Some e \<Longrightarrow> st_evidence x = Some e \<or> e = at"
  by (auto simp: observe_retirement_def observe_process_loss_def record_fresh_process_evidence_def Let_def split: if_splits option.splits)

section \<open>Invariants of the fences\<close>

definition stale_entries :: "terminal_state \<Rightarrow> (ustr \<times> stale_hook_session) set" where
  "stale_entries t = {(source, x). \<exists>xs. (source, xs) \<in> set (t_stale t) \<and> x \<in> set xs}"

definition all_stale :: "(ustr \<Rightarrow> stale_hook_session \<Rightarrow> bool) \<Rightarrow> terminal_state \<Rightarrow> bool" where
  "all_stale Q t \<longleftrightarrow> (\<forall>(source, x) \<in> stale_entries t. Q source x)"

lemma all_staleI: "(\<And>source xs x. (source, xs) \<in> set (t_stale t) \<Longrightarrow> x \<in> set xs \<Longrightarrow> Q source x) \<Longrightarrow> all_stale Q t"
  by (auto simp: all_stale_def stale_entries_def)

lemma all_staleD: "all_stale Q t \<Longrightarrow> (source, xs) \<in> set (t_stale t) \<Longrightarrow> x \<in> set xs \<Longrightarrow> Q source x"
  by (auto simp: all_stale_def stale_entries_def)

lemma all_stale_get: "all_stale Q t \<Longrightarrow> hget (t_stale t) source = Some xs \<Longrightarrow> x \<in> set xs \<Longrightarrow> Q source x"
  by (blast dest: map_of_SomeD all_staleD)

lemma all_stale_cong: "t_stale t = t_stale u \<Longrightarrow> all_stale Q t = all_stale Q u"
  by (simp add: all_stale_def stale_entries_def)

lemma all_stale_keep: "all_stale Q t \<Longrightarrow> t_stale u = t_stale t \<Longrightarrow> all_stale Q u"
  using all_stale_cong by blast

text \<open>The fences of an owner are a list under its source; updates replace one list.\<close>

lemma update_set: "(k', v') \<in> set (AList.update k v m) \<Longrightarrow> (k' = k \<and> v' = v) \<or> (k', v') \<in> set m"
  by (induction m) (auto split: if_splits)

lemma all_stale_put:
  assumes "all_stale Q t" and "\<And>x. x \<in> set xs \<Longrightarrow> Q source x"
  shows "all_stale Q (t\<lparr>t_stale := hput source xs (t_stale t)\<rparr>)"
proof (rule all_staleI)
  fix s ys x assume "(s, ys) \<in> set (t_stale (t\<lparr>t_stale := hput source xs (t_stale t)\<rparr>))" and x: "x \<in> set ys"
  then have "(s = source \<and> ys = xs) \<or> (s, ys) \<in> set (t_stale t)" using update_set [of s ys source xs "t_stale t"] by simp
  with x assms(2) all_staleD [OF assms(1)] show "Q s x" by blast
qed

lemma fold_all_stale:
  "all_stale Q t \<Longrightarrow> (\<And>x u. x \<in> set xs \<Longrightarrow> all_stale Q u \<Longrightarrow> all_stale Q (f x u)) \<Longrightarrow> all_stale Q (fold f xs t)"
  by (induction xs arbitrary: t) auto

lemma stale_frames [simp]:
  "t_stale (commit_hook_report_admission source admission t) = t_stale t"
  "t_stale (advance_session_owner_epoch now t) = t_stale t"
  "t_stale (drop_exited_session H agent exited t) = t_stale t"
  "t_stale (clear_expiry_pending_for_hidden_metadata t) = t_stale t"
  "t_stale (snd (accept_metadata_report source seq tokens t)) = t_stale t"
  "t_stale (clear_agent_name t) = t_stale t"
  "t_stale (hold_hook_owner_unconfirmed source label at t) = t_stale t"
  "t_stale (confirm_pending_hook_owner H detected at t) = t_stale t"
  "t_stale (snd (reconcile_managed_agent_at H now exit t)) = t_stale t"
  by (cases admission; auto simp: advance_session_owner_epoch_def drop_exited_session_def clear_agent_name_def
      clear_expiry_pending_for_hidden_metadata_def accept_metadata_report_def hold_hook_owner_unconfirmed_def confirm_pending_hook_owner_def
      reconcile_managed_agent_at_def Let_def split: option.splits managed_agent_phase.splits)+

lemma fold_commit_stale [simp]: "t_stale (fold (\<lambda>s. commit_hook_report_admission s adm) ss t) = t_stale t"
  by (induction ss arbitrary: t) auto

lemma update_stale: "t_stale (update_terminal_state_at H n now exit update t) = t_stale (snd (update t))"
  by (auto simp: update_terminal_state_at_def Let_def case_prod_beta split: option.splits)

lemma quiet_stale:
  "t_stale (snd (set_agent_metadata H report now t)) = t_stale t"
  "t_stale (snd (expire_agent_metadata_at H scheduled now t)) = t_stale t"
  "t_stale (report_pane_tokens H source seq patch ttl now t) = t_stale t"
  "t_stale (expire_terminal_metadata H scheduled now t) = t_stale t"
  by (simp_all add: expire_terminal_metadata_def set_agent_metadata_def expire_agent_metadata_at_def report_pane_tokens_def Let_def case_prod_beta)

text \<open>
  A predicate on fences that every retirement and every loss keeps, that a running observation keeps
  where \<open>runs\<close> allows it, and that holds of a fence without evidence, is kept by every operation.
\<close>

locale fence_invariant =
  fixes H :: host and Q :: "ustr \<Rightarrow> stale_hook_session \<Rightarrow> bool" and allowed :: "ustr \<Rightarrow> ustr \<Rightarrow> agent_session_ref \<Rightarrow> instant \<Rightarrow> bool"
  assumes blank: "st_evidence x = None \<Longrightarrow> Q source x"
    and retired: "Q source x \<Longrightarrow> Q source (observe_retirement at x)"
    and lost: "Q source x \<Longrightarrow> Q source (observe_process_loss at x)"
    and running: "Q source x \<Longrightarrow> allowed source (st_agent_label x) (st_session_ref x) at \<Longrightarrow> Q source (record_fresh_process_evidence at x)"
begin

lemma remember_inv:
  assumes "all_stale Q t" and "\<And>at. evidence = Some at \<Longrightarrow> allowed source label r at"
  shows "all_stale Q (remember_stale_hook_session source label r retired_at evidence last_loss t)"
  unfolding remember_stale_hook_session_def Let_def
proof (rule all_stale_put [OF assms(1)])
  let ?same = "\<lambda>x. st_agent_label x = label \<and> st_session_ref x = r"
  let ?old = "case hget (t_stale t) source of Some xs \<Rightarrow> xs | None \<Rightarrow> []"
  let ?new = "\<lparr>st_agent_label = label, st_session_ref = r, st_evidence = None, st_last_loss = None, st_retired_at = retired_at\<rparr>"
  let ?upd = "\<lambda>x. case evidence of None \<Rightarrow> (case last_loss of None \<Rightarrow> observe_retirement retired_at x
        | Some lost_at \<Rightarrow> observe_process_loss lost_at (observe_retirement retired_at x))
      | Some at \<Rightarrow> record_fresh_process_evidence at (case last_loss of None \<Rightarrow> observe_retirement retired_at x
        | Some lost_at \<Rightarrow> observe_process_loss lost_at (observe_retirement retired_at x))"
  fix y assume "y \<in> set (map (\<lambda>x. if ?same x then ?upd x else x) (if list_ex ?same ?old then ?old else ?old @ [?new]))"
  then obtain x where x0: "x \<in> set (if list_ex ?same ?old then ?old else ?old @ [?new])" and x2: "y = (if ?same x then ?upd x else x)"
    unfolding set_map by blast
  have "x \<in> set ?old \<or> x = ?new" using x0 by (cases "list_ex ?same ?old") auto
  then have "Q source x"
  proof
    assume "x \<in> set ?old"
    then show ?thesis using all_stale_get [OF assms(1)] by (cases "hget (t_stale t) source") auto
  qed (simp add: blank)
  then have "Q source (case last_loss of None \<Rightarrow> observe_retirement retired_at x
        | Some lost_at \<Rightarrow> observe_process_loss lost_at (observe_retirement retired_at x))"
    by (cases last_loss) (simp_all add: retired lost)
  with \<open>Q source x\<close> show "Q source y"
    using running [of source _] assms(2) x2 by (cases evidence; cases last_loss; cases "?same x") (simp_all add: observe_keeps)
qed

lemma remember_unseen_inv: "all_stale Q t \<Longrightarrow> all_stale Q (remember_stale_hook_session source label r retired_at None last_loss t)"
  by (rule remember_inv) simp_all

lemma forget_inv: "all_stale Q t \<Longrightarrow> all_stale Q (forget_stale_hook_session source label r t)"
proof (cases "hget (t_stale t) source")
  case (Some xs)
  assume ok: "all_stale Q t"
  then have "all_stale Q (t\<lparr>t_stale := hdel source (t_stale t)\<rparr>)"
    by (auto intro!: all_staleI simp: AList.delete_eq dest: all_staleD)
  moreover have "all_stale Q (t\<lparr>t_stale := hput source (filter P xs) (t_stale t)\<rparr>)" for P
    using all_stale_get [OF ok Some] by (intro all_stale_put [OF ok]) auto
  ultimately show ?thesis by (simp add: forget_stale_hook_session_def Some Let_def)
qed (simp add: forget_stale_hook_session_def)

lemma suppress_with_inv: "all_stale Q t \<Longrightarrow> all_stale Q (suppress_hook_report_with_session_ref source label r reason at t)"
proof (cases "hget (t_stale t) source")
  case (Some xs)
  assume ok: "all_stale Q t"
  have "all_stale Q (t\<lparr>t_stale := hput source (map (\<lambda>x. if st_agent_label x = label then observe_retirement at x else x) xs) (t_stale t)\<rparr>)"
    using all_stale_get [OF ok Some] by (intro all_stale_put [OF ok]) (auto simp: retired)
  then show ?thesis by (rule all_stale_keep) (simp add: suppress_hook_report_with_session_ref_def Some Let_def)
qed (rule all_stale_keep, assumption, simp add: suppress_hook_report_with_session_ref_def)

lemma suppress_inv: "all_stale Q t \<Longrightarrow> all_stale Q (suppress_hook_report source label reason at t)"
  by (simp add: suppress_hook_report_def suppress_with_inv)

lemma suppress_current_inv: "all_stale Q t \<Longrightarrow> all_stale Q (suppress_current_hook_authority reason at t)"
  by (simp add: suppress_current_hook_authority_def suppress_with_inv split: option.splits)

lemma retire_identity_inv: "all_stale Q t \<Longrightarrow> all_stale Q (snd (retire_hook_identity reason at t))"
proof (cases "t_hook_identity t")
  case (Some i)
  assume "all_stale Q t"
  then have "all_stale Q (t\<lparr>t_hook_identity := None\<rparr>)" "all_stale Q (t\<lparr>t_hook_identity := None, t_hook_sequences := x\<rparr>)" for x
    by (auto intro: all_stale_keep)
  then show ?thesis by (simp add: retire_hook_identity_def Some Let_def suppress_inv)
qed (simp add: retire_hook_identity_def)

lemma retire_suppressed_inv: "all_stale Q t \<Longrightarrow> all_stale Q (retire_suppressed_session_after_accepting source label accepted t)"
proof -
  assume "all_stale Q t"
  then have "all_stale Q (t\<lparr>t_suppressed := x\<rparr>)" for x by (auto intro: all_stale_keep)
  with \<open>all_stale Q t\<close> show ?thesis
    by (simp add: retire_suppressed_session_after_accepting_def Let_def forget_inv remember_unseen_inv split: option.splits)
qed

lemma map_inv:
  assumes "all_stale Q t" and "\<And>source x. Q source x \<Longrightarrow> Q source (f x)"
  shows "all_stale Q (t\<lparr>t_stale := map (\<lambda>(source, xs). (source, map f xs)) (t_stale t)\<rparr>)"
  by (rule all_staleI) (auto dest: all_staleD [OF assms(1)] intro!: assms(2))

lemma observe_loss_inv: "all_stale Q t \<Longrightarrow> all_stale Q (observe_process_loss_for_retired_owners H' detected exited at t)"
proof -
  assume "all_stale Q t"
  then have "all_stale Q (t\<lparr>t_suppressed := x\<rparr>)" for x by (auto intro: all_stale_keep)
  then show ?thesis unfolding observe_process_loss_for_retired_owners_def Let_def by (intro map_inv) (auto simp: lost)
qed

lemma clear_suppression_inv:
  assumes "all_stale Q t" and "\<And>d source label r. detected = Some d \<Longrightarrow> parse_label H label = Some d \<Longrightarrow> allowed source label r at"
  shows "all_stale Q (clear_hook_suppression_for_detected_agent H detected at t)"
proof (cases detected)
  case (Some d)
  let ?c = "\<lambda>s. parse_label H (su_agent_label s) = Some d \<and> su_observed_at s < at \<and> none_or (\<lambda>lost_at. lost_at < at) (su_last_loss s)"
  let ?f = "\<lambda>x. if parse_label H (st_agent_label x) = Some d then record_fresh_process_evidence at x else x"
  define t1 where "t1 = t\<lparr>t_suppressed := filter (\<lambda>(_, s). \<not> ?c s) (t_suppressed t)\<rparr>"
  define t2 where "t2 = fold (\<lambda>(source, s) u. case su_session_ref s of
      Some r \<Rightarrow> remember_stale_hook_session source (su_agent_label s) r (su_observed_at s) (Some at) (su_last_loss s) u
    | None \<Rightarrow> u) (filter (\<lambda>(_, s). ?c s) (t_suppressed t)) t1"
  have t1: "all_stale Q t1" by (rule all_stale_keep [OF assms(1)]) (simp add: t1_def)
  have "all_stale Q t2"
    unfolding t2_def
  proof (rule fold_all_stale [OF t1])
    fix x u assume x: "x \<in> set (filter (\<lambda>(_, s). ?c s) (t_suppressed t))" and u: "all_stale Q u"
    obtain source s where p: "x = (source, s)" by (cases x)
    with x have "parse_label H (su_agent_label s) = Some d" by simp
    then have "all_stale Q (remember_stale_hook_session source (su_agent_label s) r (su_observed_at s) (Some at) (su_last_loss s) u)" for r
      using assms(2) [OF Some] by (intro remember_inv [OF u]) auto
    with u show "all_stale Q ((case x of (source, s) \<Rightarrow> \<lambda>u. case su_session_ref s of
      Some r \<Rightarrow> remember_stale_hook_session source (su_agent_label s) r (su_observed_at s) (Some at) (su_last_loss s) u
    | None \<Rightarrow> u) u)" unfolding p prod.case by (cases "su_session_ref s") simp_all
  qed
  then have "all_stale Q (t2\<lparr>t_stale := map (\<lambda>(source, xs). (source, map ?f xs)) (t_stale t2)\<rparr>)"
    by (rule map_inv) (simp add: running assms(2) Some)
  then show ?thesis
    by (rule all_stale_keep)
      (unfold Some clear_hook_suppression_for_detected_agent_def option.case Let_def t1_def [symmetric] t2_def [symmetric], simp)
qed (simp add: clear_hook_suppression_for_detected_agent_def assms)

lemma exit_authority_inv: "all_stale Q (fst p) \<Longrightarrow> all_stale Q (fst (exit_authority H' agent exited now p))"
proof -
  obtain t rel where p: "p = (t, rel)" by (cases p)
  assume "all_stale Q (fst p)"
  then have t: "all_stale Q t" by (simp add: p)
  have "all_stale Q (suppress_current_hook_authority ProcessExit now t\<lparr>t_hook_sequences := x, t_hook_authority := None\<rparr>)" for x
    by (rule all_stale_keep [OF suppress_current_inv [OF t]]) simp
  moreover have "all_stale Q (hold_hook_owner_unconfirmed source label now t)" for source label by (rule all_stale_keep [OF t]) simp
  ultimately show ?thesis using t by (simp add: p exit_authority_def Let_def split: option.splits)
qed

lemma exit_identity_inv: "all_stale Q (fst p) \<Longrightarrow> all_stale Q (fst (exit_identity H' agent exited now p))"
proof -
  obtain t rel where p: "p = (t, rel)" by (cases p)
  assume "all_stale Q (fst p)"
  then have t: "all_stale Q t" by (simp add: p)
  have "all_stale Q (hold_hook_owner_unconfirmed source label now t)" for source label by (rule all_stale_keep [OF t]) simp
  then show ?thesis using t by (simp add: p exit_identity_def retire_identity_inv split: option.splits)
qed

lemma drop_conflicting_inv: "all_stale Q t \<Longrightarrow> all_stale Q (drop_conflicting_authority H' agent prev now t)"
proof -
  assume t: "all_stale Q t"
  have "all_stale Q (suppress_current_hook_authority HookClear now t\<lparr>t_hook_authority := None, t_persisted_session := x\<rparr>)" for x
    by (rule all_stale_keep [OF suppress_current_inv [OF t]]) simp
  with t show ?thesis by (simp add: drop_conflicting_authority_def Let_def)
qed

lemma detected_inv:
  assumes "all_stale Q t"
    and "\<And>d source label r. \<not> exited \<Longrightarrow> agent = Some d \<Longrightarrow> parse_label H label = Some d \<Longrightarrow> allowed source label r now"
  shows "all_stale Q (snd (set_detected_state_with_screen_signals_at H agent fs vb exited now t))"
proof -
  define t1 where "t1 = (if \<not> exited then confirm_pending_hook_owner H agent now t else t)"
  define t3 where "t3 = (if \<not> exited then clear_hook_suppression_for_detected_agent H agent now (t1\<lparr>t_detected_agent := agent\<rparr>) else t1\<lparr>t_detected_agent := agent\<rparr>)"
  define t4 where "t4 = t3\<lparr>t_fallback_state := fs, t_fallback_visible_blocker := (vb \<and> fs = Blocked), t_fallback_observed_at := Some now\<rparr>"
  have t1: "all_stale Q t1" "all_stale Q (t1\<lparr>t_detected_agent := agent\<rparr>)"
    by (rule all_stale_keep [OF assms(1)]; simp add: t1_def)+
  have "all_stale Q t3" using t1(2) assms(2) by (auto simp: t3_def intro: clear_suppression_inv)
  then have t4: "all_stale Q t4" by (rule all_stale_keep) (simp add: t4_def)
  have fin: "all_stale Q (snd (finish_mutation H view ps rel now u))" if "all_stale Q u" for view ps rel u
    by (rule all_stale_keep [OF that]) simp
  have drop: "all_stale Q (drop_exited_session H agent exited u)" if "all_stale Q u" for u by (rule all_stale_keep [OF that]) simp
  have rest: "all_stale Q (drop_conflicting_authority H agent prev now (drop_exited_session H agent exited
      (observe_process_loss_for_retired_owners H agent exited now (fst (exit_identity H agent exited now (exit_authority H agent exited now (t4, rel)))))))" for prev rel
    using t4 by (intro drop_conflicting_inv drop observe_loss_inv exit_identity_inv exit_authority_inv) simp
  show ?thesis
    unfolding set_detected_state_with_screen_signals_at_def Let_def t1_def [symmetric] t3_def [symmetric] t4_def [symmetric] case_prod_beta
    using rest t1 by (simp add: fin)
qed

lemma accepted_session_inv:
  assumes "all_stale Q t"
  shows "all_stale Q (if r \<noteq> None then retire_suppressed_session_after_accepting source label r (commit_hook_report_admission source adm t)
     else commit_hook_report_admission source adm t)"
  using retire_suppressed_inv all_stale_keep [OF assms, of "commit_hook_report_admission source adm t"] by simp

lemma record_identity_inv:
  assumes "all_stale Q t"
  shows "all_stale Q (snd (record_identity_only_hook_report_at H' source label r seq now t))"
proof -
  let ?adm = "plan_hook_report_admission t source label r None seq True False" and ?s = "clamp_session_ref t source label r"
  have "t_stale (snd (record_identity_only_hook_report_at H' source label r seq now t)) \<in> {t_stale t,
      t_stale (if ?s \<noteq> None then retire_suppressed_session_after_accepting source label ?s (commit_hook_report_admission source ?adm t)
     else commit_hook_report_admission source ?adm t)}"
    by (simp add: record_identity_only_hook_report_at_def Let_def split: option.splits)
  with accepted_session_inv [OF assms, of ?s source label ?adm] assms show ?thesis by (auto dest!: all_stale_cong)
qed

lemma set_authority_inv:
  assumes "all_stale Q t"
  shows "all_stale Q (snd (set_hook_authority_at H' source label state message r seq now t))"
proof (cases "session_identity_only_integration source label")
  case False
  let ?adm = "plan_hook_report_admission t source label r None seq True False" and ?s = "clamp_session_ref t source label r"
  have "t_stale (snd (set_hook_authority_at H' source label state message r seq now t)) \<in> {t_stale t,
      t_stale (if ?s \<noteq> None then retire_suppressed_session_after_accepting source label ?s (commit_hook_report_admission source ?adm t)
     else commit_hook_report_admission source ?adm t)}"
    using False by (simp add: set_hook_authority_at_def Let_def case_prod_beta)
  with accepted_session_inv [OF assms, of ?s source label ?adm] assms show ?thesis by (auto dest!: all_stale_cong)
qed (simp add: set_hook_authority_at_def record_identity_inv [OF assms])

lemma session_start_inv:
  assumes "all_stale Q t"
  shows "all_stale Q (snd (set_agent_session_ref_for_session_start_at H' source label sr seq reason observation now t))"
proof (cases "snd (set_agent_session_ref_for_session_start_at H' source label sr seq reason observation now t) = t")
  case False
  then obtain r where r: "sr = Some r" by (cases sr) (auto simp: set_agent_session_ref_for_session_start_at_def)
  let ?oc = "current_session_owner_conflicts t source label"
  let ?adm = "plan_hook_report_admission t source label (Some r) reason seq (?oc \<or> session_identity_only_integration source label)
       (is_unsequenced_opencode_selection source label reason seq)"
  define t1 where "t1 = commit_hook_report_admission source ?adm t"
  define t2 where "t2 = (if session_start_source_allows_session_replacement source label reason then forget_stale_hook_session source label r t1 else t1)"
  define t3 where "t3 = (case same_owner_full_lifecycle_hook_authority_session_ref t source label r of
      Some old \<Rightarrow> (remember_stale_hook_session source label old now None None t2)\<lparr>t_hook_authority := None\<rparr> | None \<Rightarrow> t2)"
  define t4 where "t4 = (case (if ?oc then t_persisted_session t3 else None) of
      Some old \<Rightarrow> remember_stale_hook_session (ps_source old) (ps_agent old) (ps_session_ref old) now None None t3 | None \<Rightarrow> t3)"
  define t5 where "t5 = (if session_identity_only_integration source label then retire_suppressed_session_after_accepting source label (Some r) t4 else t4)"
  have "all_stale Q t1" by (rule all_stale_keep [OF assms]) (simp add: t1_def)
  then have t2: "all_stale Q t2" by (simp add: t2_def forget_inv)
  have "all_stale Q (u\<lparr>t_hook_authority := None\<rparr>)" if "all_stale Q u" for u by (rule all_stale_keep [OF that]) simp
  then have "all_stale Q t3" using t2 by (simp add: t3_def remember_unseen_inv split: option.splits)
  then have "all_stale Q t4" by (simp add: t4_def remember_unseen_inv split: option.splits)
  then have t5: "all_stale Q t5" by (simp add: t5_def retire_suppressed_inv)
  have "t_stale (snd (set_agent_session_ref_for_session_start_at H' source label sr seq reason observation now t)) =
      t_stale (if session_identity_only_integration source label
        then (retire_suppressed_session_after_accepting source label (Some r) t4)\<lparr>t_hook_identity := Some \<lparr>hi_source = source, hi_agent_label = label,
          hi_reported_at = now, hi_unconfirmed_since = unanswered_exit_to_inherit (retire_suppressed_session_after_accepting source label (Some r) t4) source label\<rparr>\<rparr>
        else t4)"
    using False unfolding r set_agent_session_ref_for_session_start_at_def option.case Let_def
      t1_def [symmetric] t2_def [symmetric] t3_def [symmetric] t4_def [symmetric] case_prod_beta
    by (auto split: if_splits)
  then have "t_stale (snd (set_agent_session_ref_for_session_start_at H' source label sr seq reason observation now t)) = t_stale t5"
    by (simp add: t5_def)
  with t5 show ?thesis by (rule all_stale_keep)
qed (simp add: assms)

lemma clear_inv:
  assumes "all_stale Q t"
  shows "all_stale Q (snd (clear_hook_authority_with_mutation H' source seq now t))"
proof -
  define t1 where "t1 = fold (\<lambda>s. commit_hook_report_admission s (Accept False seq)) (clear_sequence_sources t source) t"
  define t2 where "t2 = (\<lambda>c :: bool. if c then suppress_current_hook_authority HookClear now t1 else t1)"
  have "all_stale Q t1" by (rule all_stale_keep [OF assms]) (simp add: t1_def)
  then have "all_stale Q (t2 c)" for c by (simp add: t2_def suppress_current_inv)
  then have e3: "all_stale Q (snd (if b then retire_hook_identity HookClear now (t2 c) else (None, t2 c)))" for b c
    by (simp add: retire_identity_inv)
  have "\<exists>b c. t_stale (snd (clear_hook_authority_with_mutation H' source seq now t)) \<in>
      {t_stale t, t_stale (snd (if b then retire_hook_identity HookClear now (t2 c) else (None, t2 c)))}"
    unfolding clear_hook_authority_with_mutation_def Let_def t1_def [symmetric] t2_def case_prod_beta
    by (auto split: option.splits)
  with e3 assms show ?thesis by (auto dest!: all_stale_cong)
qed

lemma release_inv:
  assumes "all_stale Q t"
  shows "all_stale Q (snd (release_agent_with_mutation H' source label seq now t))"
proof -
  let ?c = "commit_hook_report_admission source (plan_hook_report_admission t source label None None seq False False) t"
  have e: "all_stale Q (suppress_hook_report source label HookClear now ?c)"
    by (rule suppress_inv) (rule all_stale_keep [OF assms], simp)
  have "t_stale (snd (release_agent_with_mutation H' source label seq now t)) \<in> {t_stale t, t_stale (suppress_hook_report source label HookClear now ?c)}"
    by (simp add: release_agent_with_mutation_def Let_def case_prod_beta)
  with e assms show ?thesis by (auto dest!: all_stale_cong)
qed

lemma update_inv: "all_stale Q (snd (update t)) \<Longrightarrow> all_stale Q (update_terminal_state_at H' n now exit update t)"
  by (rule all_stale_keep) (auto simp: update_stale)

lemma event_inv:
  assumes ok: "all_stale Q t"
    and run: "\<And>d st b at now source label r. e = StateChanged (Some d) st b False at now \<Longrightarrow> parse_label H label = Some d \<Longrightarrow> allowed source label r at"
  shows "all_stale Q (handle_event H n e t)"
proof (cases e)
  case (StateChanged agent st b exited at now)
  show ?thesis
    unfolding StateChanged handle_event.simps using run StateChanged by (intro update_inv) (simp, intro detected_inv [OF ok], blast)
next
  case (HookStateReported source label state message r seq now)
  then show ?thesis
    using session_start_inv [OF ok] record_identity_inv [OF ok] set_authority_inv [OF ok]
    by (auto intro!: update_inv simp: handle_hook_state_reported_def set_agent_session_ref_def)
next
  case (AgentSessionReported source label r seq reason observation now)
  then show ?thesis using session_start_inv [OF ok] by (auto intro!: update_inv)
next
  case (HookAuthorityCleared source seq now)
  then show ?thesis using clear_inv [OF ok] by (auto intro!: update_inv)
next
  case (HookAgentReleased source label seq now)
  then show ?thesis using release_inv [OF ok] ok by (auto intro!: update_inv)
next
  case (PaneProcessExit at)
  have "all_stale Q (snd (publish_pane_process_exit_if_agent H at t))"
    using ok detected_inv [OF ok, of True] by (simp add: publish_pane_process_exit_if_agent_def Let_def case_prod_beta)
  with PaneProcessExit show ?thesis by (auto intro!: update_inv)
next
  case Respawned
  then show ?thesis by (auto intro!: all_staleI simp: clear_agent_runtime_identity_after_respawn_def clear_agent_name_def)
qed (auto intro!: all_stale_keep [OF ok] simp: update_stale quiet_stale begin_managed_agent_def set_terminal_title_def set_manual_label_def
    clear_manual_label_def set_agent_name_def Let_def)

text \<open>A live handoff replays the fences into a terminal that has none.\<close>

lemma restore_inv:
  assumes "all_stale Q t" and "\<And>s a. s \<in> set (rs_stale snap) \<Longrightarrow> sn_evidence_age_ms s = Some a \<Longrightarrow> allowed (sn_source s) (sn_agent_label s) (sn_session_ref s) (instant_from_age_ms H' now a)"
  shows "all_stale Q (restore_hook_retirement H' snap now t)"
proof -
  define t2 where "t2 = (let t1 = advance_session_owner_epoch now t in
     t1\<lparr>t_hook_sequences := fold (\<lambda>(s, q). hput s q) (rs_sequences snap) (t_hook_sequences t1),
        t_metadata_sequences := fold (\<lambda>(s, q). hput s q) (rs_metadata_sequences snap) (t_metadata_sequences t1),
        t_metadata_token_sources := fold List.insert (rs_metadata_token_sources snap) (t_metadata_token_sources t1)\<rparr>)"
  have "all_stale Q t2" by (rule all_stale_keep [OF assms(1)]) (simp add: t2_def Let_def)
  moreover have "all_stale Q (restore_suppressed H' now x u)" if "all_stale Q u" for x u
  proof -
    have "all_stale Q (v\<lparr>t_suppressed := y\<rparr>) = all_stale Q v" for v y by (rule all_stale_cong) simp
    with suppress_with_inv [OF that] show ?thesis by (simp add: restore_suppressed_def Let_def split: option.splits)
  qed
  ultimately have "all_stale Q (fold (restore_suppressed H' now) (rs_suppressed snap) t2)" by (intro fold_all_stale)
  then have t4: "all_stale Q (fold (restore_stale H' now) (rs_stale snap) (fold (restore_suppressed H' now) (rs_suppressed snap) t2))"
    by (rule fold_all_stale) (use assms(2) in \<open>auto simp: restore_stale_def intro!: remember_inv\<close>)
  have "t_stale (restore_hook_retirement H' snap now t) =
      t_stale (fold (restore_stale H' now) (rs_stale snap) (fold (restore_suppressed H' now) (rs_suppressed snap) t2))"
    by (simp add: restore_hook_retirement_def t2_def restore_identity_def Let_def split: option.splits)
  with t4 show ?thesis by (rule all_stale_keep)
qed

lemma import_inv:
  assumes "\<And>snap s a. retirement = Some snap \<Longrightarrow> s \<in> set (rs_stale snap) \<Longrightarrow> sn_evidence_age_ms s = Some a \<Longrightarrow> allowed (sn_source s) (sn_agent_label s) (sn_session_ref s) (instant_from_age_ms H' now a)"
  shows "all_stale Q (import_terminal H' p retirement now)"
proof -
  have base: "all_stale Q (import_base p now)" by (rule all_staleI) simp
  show ?thesis
  proof (cases retirement)
    case (Some snap)
    have "all_stale Q (restore_hook_retirement H' snap now (import_base p now))" using assms Some by (intro restore_inv [OF base]) blast
    then show ?thesis by (rule all_stale_keep) (simp add: import_terminal_eq apply_handoff_hook_retirement_def Some)
  qed (simp add: import_terminal_eq apply_handoff_hook_retirement_def base)
qed

end

section \<open>Held evidence is the newest\<close>

interpretation held: fence_invariant H "\<lambda>_. stale_ok" "\<lambda>_ _ _ _. True" for H
proof
  show "stale_ok x" if "st_evidence x = None" for x using that by (simp add: stale_ok_def)
  show "stale_ok (observe_retirement at x)" "stale_ok (observe_process_loss at x)" "stale_ok (record_fresh_process_evidence at x)"
    if "stale_ok x" for at x
    using that observe_ok [of x "Retired at"] observe_ok [of x "Lost at"] observe_ok [of x "Running at"] by simp_all
qed

interpretation terminal_fences: inductive_system terminal_init "terminal_step H" "all_stale (\<lambda>_. stale_ok)" for H
proof
  show "all_stale (\<lambda>_. stale_ok) t" if "terminal_init t" for t
    using that by (intro all_staleI) (auto simp: terminal_init_def terminal_new_def)
  show "all_stale (\<lambda>_. stale_ok) u" if "terminal_step H t u" "all_stale (\<lambda>_. stale_ok) t" for t u
    using that by (cases rule: terminal_step.cases) (auto intro!: held.event_inv held.import_inv)
qed

section \<open>Where evidence comes from\<close>

definition evidences :: "terminal_state \<Rightarrow> (ustr \<times> ustr \<times> agent_session_ref \<times> instant) set" where
  "evidences t = {(source, st_agent_label x, st_session_ref x, at) |source x at. (source, x) \<in> stale_entries t \<and> st_evidence x = Some at}"

definition backed :: "(ustr \<times> ustr \<times> agent_session_ref \<times> instant) set \<Rightarrow>
  (ustr \<Rightarrow> ustr \<Rightarrow> agent_session_ref \<Rightarrow> instant \<Rightarrow> bool) \<Rightarrow> ustr \<Rightarrow> stale_hook_session \<Rightarrow> bool" where
  "backed E allowed source x \<longleftrightarrow>
     (\<forall>at. st_evidence x = Some at \<longrightarrow> (source, st_agent_label x, st_session_ref x, at) \<in> E \<or>
       allowed source (st_agent_label x) (st_session_ref x) at)"

interpretation origin: fence_invariant H "backed E allowed" allowed for H E allowed
proof
  show "backed E allowed source x" if "st_evidence x = None" for source x using that by (simp add: backed_def)
  fix source x at assume b: "backed E allowed source x"
  then show "backed E allowed source (observe_retirement at x)" "backed E allowed source (observe_process_loss at x)"
    by (auto simp: backed_def observe_keeps dest!: observe_evidence)
  show "backed E allowed source (record_fresh_process_evidence at x)" if "allowed source (st_agent_label x) (st_session_ref x) at"
    using b that by (auto simp: backed_def observe_keeps dest!: observe_evidence(3))
qed

lemma all_backed_self: "all_stale (backed (evidences t) allowed) t"
  by (auto simp: all_stale_def backed_def evidences_def)

end
