(* ===== verification/Terminal_Retirement.thy ===== *)
theory Terminal_Retirement
  imports Stale_Fences
begin

text \<open>
  Retired sessions: what a report that names one can do, where the evidence that its process is
  alive again comes from, and the cases in which the code is weaker than its comments say.
\<close>

section \<open>Reports that name a retired session\<close>

text \<open>The evidence on which a retired session may be reclaimed: newer than its retirement and than every loss.\<close>

definition reclaimable :: "terminal_state \<Rightarrow> ustr \<Rightarrow> ustr \<Rightarrow> agent_session_ref \<Rightarrow> bool" where
  "reclaimable t source label r \<longleftrightarrow>
     (\<exists>x at. (source, x) \<in> stale_entries t \<and> st_agent_label x = label \<and> st_session_ref x = r \<and>
        st_evidence x = Some at \<and> st_retired_at x < at \<and> (\<forall>lost. st_last_loss x = Some lost \<longrightarrow> lost < at))"

lemma reclaim_needs_evidence:
  assumes "explicit_session_start_reclaims_stale_session t source label (Some r) reason"
  shows "session_start_source_allows_session_replacement source label reason \<and> reclaimable t source label r"
proof (cases "hget (t_stale t) source")
  case None
  with assms show ?thesis by (simp add: explicit_session_start_reclaims_stale_session_def split: if_splits)
next
  case (Some xs)
  with assms obtain x where x: "session_start_source_allows_session_replacement source label reason"
    "x \<in> set xs" "st_agent_label x = label" "st_session_ref x = r" "has_reclaimable_process_evidence x"
    by (auto simp: explicit_session_start_reclaims_stale_session_def list_ex_iff split: if_splits)
  from x(5) obtain at where "st_evidence x = Some at" "evidence_boundary x < at"
    by (auto simp: has_reclaimable_process_evidence_def split: option.splits)
  then have "st_evidence x = Some at \<and> st_retired_at x < at \<and> (\<forall>lost. st_last_loss x = Some lost \<longrightarrow> lost < at)"
    by (auto simp: evidence_boundary_def split: option.splits)
  with x map_of_SomeD [OF Some] show ?thesis unfolding reclaimable_def stale_entries_def by blast
qed

lemma retired_admission:
  assumes "hook_report_matches_stale_session t source label (Some r)"
    and "plan_hook_report_admission t source label (Some r) reason seq True exempt \<noteq> Refuse"
  shows "session_start_source_allows_session_replacement source label reason \<and> reclaimable t source label r"
  using assms reclaim_needs_evidence
  by (auto simp: plan_hook_report_admission_def hook_report_sequence_reset_after_retirement_def split: if_splits)

text \<open>Without a reason only one owner may repoint its session.\<close>

lemma reasonless_replacement:
  "session_start_source_allows_session_replacement source label None \<longleftrightarrow> source = U ''zynk:antigravity_cli'' \<and> label = U ''agy''"
  by (simp add: session_start_source_allows_session_replacement_def)

lemma retired_not_reserved: "hook_report_retirement_applies source label \<Longrightarrow> \<not> is_reserved_native_state_source source label"
  by (auto simp: hook_report_retirement_applies_def full_lifecycle_hook_authority_def session_identity_only_integration_def
      is_reserved_native_state_source_def U_def)

lemma refused_state_report:
  assumes "plan_hook_report_admission t source label r None seq True False = Refuse"
  shows "set_hook_authority_at H source label state message r seq now t = (None, t)"
    "record_identity_only_hook_report_at H source label r seq now t = (None, t)"
  using assms by (simp_all add: set_hook_authority_at_def record_identity_only_hook_report_at_def Let_def)

lemma update_refused: "update t = (None, t) \<Longrightarrow> update_terminal_state_at H n now exit update t = t"
  by (simp add: update_terminal_state_at_def)

lemma matches_applies: "hook_report_matches_stale_session t source label r \<Longrightarrow> hook_report_retirement_applies source label"
  by (simp add: hook_report_matches_stale_session_def split: if_splits)

lemma reconcile_fences [simp]:
  "t_hook_sequences (snd (reconcile_managed_agent_at H now exit t)) = t_hook_sequences t"
  "t_suppressed (snd (reconcile_managed_agent_at H now exit t)) = t_suppressed t"
  by (auto simp: reconcile_managed_agent_at_def clear_agent_name_def Let_def split: option.splits managed_agent_phase.splits)

lemma update_fences:
  "t_hook_sequences (update_terminal_state_at H n now exit update t) = t_hook_sequences (snd (update t))"
  "t_suppressed (update_terminal_state_at H n now exit update t) = t_suppressed (snd (update t))"
  by (auto simp: update_terminal_state_at_def Let_def case_prod_beta split: option.splits)

text \<open>A release of an owner that was already retired by its process exit replaces that retirement.\<close>

lemma release_admitted:
  assumes "t_hook_authority t = None" "t_hook_identity t = None" "effective_agent_label t = Some label" "hget (t_hook_sequences t) source = None"
  shows "t_suppressed (snd (release_agent_with_mutation H source label None now t)) = t_suppressed (suppress_hook_report source label HookClear now t) \<and>
    t_stale (snd (release_agent_with_mutation H source label None now t)) = t_stale (suppress_hook_report source label HookClear now t) \<and>
    t_hook_sequences (snd (release_agent_with_mutation H source label None now t)) = t_hook_sequences (suppress_hook_report source label HookClear now t)"
proof -
  have "plan_hook_report_admission t source label None None None False False = Accept False None"
    using assms(4) by (simp add: plan_hook_report_admission_def hook_report_is_stale_def)
  then show ?thesis using assms by (simp add: release_agent_with_mutation_def Let_def case_prod_beta)
qed

text \<open>
  The comment on the admission of identity-only reports says that a report without a session-start
  reason can never reclaim a retired session. One owner never sends a reason, and its plain reports do.
\<close>

lemma reasonless_callback_reclaims:
  assumes "hook_report_matches_stale_session t (U ''zynk:antigravity_cli'') (U ''agy'') (Some r)"
    and "\<not> hook_report_is_suppressed t (U ''zynk:antigravity_cli'') (U ''agy'') (Some r)"
    and "hget (t_stale t) (U ''zynk:antigravity_cli'') = Some xs" "x \<in> set xs" "st_agent_label x = U ''agy''" "st_session_ref x = r"
    and "has_reclaimable_process_evidence x"
  shows "plan_hook_report_admission t (U ''zynk:antigravity_cli'') (U ''agy'') (Some r) None seq True False = Accept True seq"
proof -
  have "explicit_session_start_reclaims_stale_session t (U ''zynk:antigravity_cli'') (U ''agy'') (Some r) None"
    using assms(3-7) by (auto simp: explicit_session_start_reclaims_stale_session_def reasonless_replacement list_ex_iff)
  with assms(1,2) show ?thesis
    by (simp add: plan_hook_report_admission_def hook_report_sequence_reset_after_retirement_def)
qed

section \<open>Properties\<close>

text \<open>
  A retired session of an owner in the stored fields, and the reasons with which an owner that has
  retirement fences may repoint its session.
\<close>

definition retired :: "terminal_state \<Rightarrow> ustr \<Rightarrow> ustr \<Rightarrow> agent_session_ref \<Rightarrow> bool" where
  "retired t source label r \<longleftrightarrow>
     (\<exists>xs x. hget (t_stale t) source = Some xs \<and> x \<in> set xs \<and> st_agent_label x = label \<and> st_session_ref x = r)"

definition repoint_reasons :: "(ustr \<times> ustr option) set" where
  "repoint_reasons =
     {(U ''zynk:hermes'', Some (U ''startup'')), (U ''zynk:hermes'', Some (U ''new'')), (U ''zynk:hermes'', Some (U ''resume'')),
      (U ''zynk:qwen'', Some (U ''startup'')), (U ''zynk:qwen'', Some (U ''clear'')), (U ''zynk:qwen'', Some (U ''resume'')),
      (U ''zynk:qwen'', Some (U ''compact'')), (U ''zynk:qwen'', Some (U ''branch'')), (U ''zynk:antigravity_cli'', None),
      (U ''zynk:pi'', Some (U ''new'')), (U ''zynk:pi'', Some (U ''resume'')), (U ''zynk:pi'', Some (U ''fork'')),
      (U ''zynk:omp'', Some (U ''startup'')), (U ''zynk:omp'', Some (U ''new'')), (U ''zynk:omp'', Some (U ''resume'')),
      (U ''zynk:omp'', Some (U ''fork'')), (U ''zynk:opencode'', Some (U ''select''))}"

lemma no_retirement_for_sessions_only:
  "\<not> hook_report_retirement_applies (U ''zynk:claude'') (U ''claude'')" "\<not> hook_report_retirement_applies (U ''zynk:codex'') (U ''codex'')"
  by code_simp+

lemma allows_replacement_reasons:
  assumes "hook_report_retirement_applies source label"
    and "session_start_source_allows_session_replacement source label reason"
  shows "(source, reason) \<in> repoint_reasons"
proof -
  have "source = U ''zynk:claude'' \<and> label = U ''claude'' \<or> source = U ''zynk:codex'' \<and> label = U ''codex'' \<or>
      (source, reason) \<in> repoint_reasons"
    using assms(2)
    unfolding session_start_source_allows_session_replacement_def list_ex_iff prod.case list.set bex_simps insert_iff empty_iff
    by (elim disjE conjE; simp only: repoint_reasons_def insert_iff prod.inject simp_thms)
  with assms(1) no_retirement_for_sessions_only show ?thesis by blast
qed

lemma retired_matches:
  assumes "retired t source label r" and "hook_report_retirement_applies source label"
  shows "hook_report_matches_stale_session t source label (Some r)"
  using assms by (auto simp: retired_def hook_report_matches_stale_session_def list_ex_iff)

lemma retired_cong: "t_stale u = t_stale t \<Longrightarrow> retired u source label r = retired t source label r"
  by (simp add: retired_def)

lemma retired_remember:
  assumes "retired t source label r"
  shows "retired (remember_stale_hook_session s l q at e lost t) source label r"
proof -
  from assms obtain xs x where x: "hget (t_stale t) source = Some xs" "x \<in> set xs" "st_agent_label x = label" "st_session_ref x = r"
    unfolding retired_def by blast
  define upd where "upd = (\<lambda>x :: stale_hook_session. let x1 = observe_retirement at x;
       x2 = (case lost of Some lost_at \<Rightarrow> observe_process_loss lost_at x1 | None \<Rightarrow> x1)
     in case e of Some at \<Rightarrow> record_fresh_process_evidence at x2 | None \<Rightarrow> x2)"
  have keeps: "st_agent_label (upd y) = st_agent_label y" "st_session_ref (upd y) = st_session_ref y" for y
    by (auto simp: upd_def Let_def observe_keeps split: option.splits)
  define same where "same = (\<lambda>x :: stale_hook_session. st_agent_label x = l \<and> st_session_ref x = q)"
  define mark where "mark = (\<lambda>y. if same y then upd y else y)"
  have m: "st_agent_label (mark y) = st_agent_label y" "st_session_ref (mark y) = st_session_ref y" for y
    by (simp_all add: mark_def keeps)
  define zs where "zs = (case hget (t_stale t) s of Some xs \<Rightarrow> xs | None \<Rightarrow> [])"
  define ys where "ys = (if list_ex same zs then zs
     else zs @ [\<lparr>st_agent_label = l, st_session_ref = q, st_evidence = None, st_last_loss = None, st_retired_at = at\<rparr>])"
  have ys: "t_stale (remember_stale_hook_session s l q at e lost t) = hput s (map mark ys) (t_stale t)"
    unfolding remember_stale_hook_session_def Let_def mark_def upd_def same_def ys_def zs_def by simp
  have sub: "set zs \<subseteq> set ys" by (auto simp: ys_def)
  show ?thesis
  proof (cases "s = source")
    case True
    then have "x \<in> set ys" using sub x(1,2) by (auto simp: zs_def)
    then have "mark x \<in> set (map mark ys)" by simp
    moreover have "hget (hput s (map mark ys) (t_stale t)) source = Some (map mark ys)" using True by (simp add: update_conv')
    ultimately show ?thesis unfolding retired_def ys using m [of x] x(3,4) by metis
  next
    case False
    with x show ?thesis unfolding retired_def ys by (simp add: update_conv') blast
  qed
qed

text \<open>A session start of a full-lifecycle owner without such a reason forgets no retirement.\<close>

lemma retired_session_start:
  assumes "retired t source label r" and "full_lifecycle_hook_authority source label"
    and "\<not> session_start_source_allows_session_replacement source label reason"
  shows "retired (snd (set_agent_session_ref_for_session_start_at H source label (Some r) seq reason observation now t)) source label r"
proof -
  let ?oc = "current_session_owner_conflicts t source label"
  let ?adm = "plan_hook_report_admission t source label (Some r) reason seq ?oc (is_unsequenced_opencode_selection source label reason seq)"
  let ?t1 = "commit_hook_report_admission source ?adm t"
  have no: "\<not> session_identity_only_integration source label" using assms(2) identity_only_not_full_lifecycle by blast
  have t1: "retired ?t1 source label r" using assms(1) by (simp add: retired_def)
  let ?keep = "\<lambda>old. remember_stale_hook_session (ps_source old) (ps_agent old) (ps_session_ref old) now None None ?t1"
  have "t_stale (snd (set_agent_session_ref_for_session_start_at H source label (Some r) seq reason observation now t)) \<in>
      {t_stale t, t_stale ?t1, (case t_persisted_session ?t1 of Some old \<Rightarrow> t_stale (?keep old) | None \<Rightarrow> t_stale t)}"
    using assms(3) no
    by (simp add: set_agent_session_ref_for_session_start_at_def Let_def case_prod_beta split: option.split)
  then have st: "t_stale (snd (set_agent_session_ref_for_session_start_at H source label (Some r) seq reason observation now t)) \<in>
      {t_stale t, (case t_persisted_session ?t1 of Some old \<Rightarrow> t_stale (?keep old) | None \<Rightarrow> t_stale t)}"
    by simp
  show ?thesis
  proof (cases "t_persisted_session ?t1")
    case None
    have "t_stale (snd (set_agent_session_ref_for_session_start_at H source label (Some r) seq reason observation now t)) = t_stale t"
      using st unfolding None option.case by blast
    from retired_cong [OF this] assms(1) show ?thesis by blast
  next
    case (Some old)
    have "t_stale (snd (set_agent_session_ref_for_session_start_at H source label (Some r) seq reason observation now t)) = t_stale t \<or>
        t_stale (snd (set_agent_session_ref_for_session_start_at H source label (Some r) seq reason observation now t)) = t_stale (?keep old)"
      using st unfolding Some option.case by blast
    then show ?thesis using retired_cong assms(1) retired_remember [OF t1] by metis
  qed
qed


definition sample_retired :: terminal_state where
  "sample_retired = (terminal_new (U ''t'') (U ''/''))\<lparr>t_stale := [(U ''zynk:hermes'', [sample_stale])]\<rparr>"


text \<open>
  C25. Evidence that the process of a retired session is alive arises from one event only: an
  observation of that owner's agent running, and it carries the instant of that observation. No
  report, clear, release, exit, expiry or respawn makes any.
\<close>

theorem evidence_from_running_observation:
  assumes "(source, label, r, at) \<in> evidences (handle_event H n e t)" and "(source, label, r, at) \<notin> evidences t"
  shows "\<exists>d st b now. e = StateChanged (Some d) st b False at now \<and> parse_label H label = Some d"
proof -
  define allowed where "allowed = (\<lambda>(source :: ustr) label (r :: agent_session_ref) at. \<exists>d st b now. e = StateChanged (Some d) st b False at now \<and> parse_label H label = Some d)"
  have "all_stale (backed (evidences t) allowed) (handle_event H n e t)"
    by (rule origin.event_inv [OF all_backed_self]) (auto simp: allowed_def)
  moreover obtain x where "(source, x) \<in> stale_entries (handle_event H n e t)" "st_agent_label x = label" "st_session_ref x = r" "st_evidence x = Some at"
    using assms(1) by (auto simp: evidences_def)
  ultimately have "(source, label, r, at) \<in> evidences t \<or> allowed source label r at" unfolding all_stale_def backed_def by blast
  with assms(2) have "allowed source label r at" by blast
  then show ?thesis by (simp add: allowed_def)
qed

theorem evidence_from_running_observation_witness:
  "\<exists>d st b now. StateChanged (Some Hermes) Idle False False 9 9 = StateChanged (Some d) st b False 9 now \<and> parse_label sample_host (U ''hermes'') = Some d"
proof -
  have p: "parse_label sample_host (U ''hermes'') = Some Hermes"
    using parse_agent_label_canonical [OF lowers_ascii_ascii_lowercase, of Hermes] by (simp add: sample_host_def)
  have f: "t_hook_authority sample_retired = None" "t_hook_identity sample_retired = None" "t_suppressed sample_retired = []"
    "t_unanswered_exit sample_retired = None" "t_stale sample_retired = [(U ''zynk:hermes'', [sample_stale])]" "t_handoff_confirmation sample_retired = None"
    by (simp_all add: sample_retired_def terminal_new_def)
  have c: "confirm_pending_hook_owner sample_host (Some Hermes) 9 sample_retired = sample_retired"
    by (simp add: confirm_pending_hook_owner_def f sample_retired_def terminal_new_def)
  have "t_stale (snd (set_detected_state_with_screen_signals_at sample_host (Some Hermes) Idle False False 9 sample_retired)) =
      [(U ''zynk:hermes'', [sample_stale\<lparr>st_evidence := Some 9\<rparr>])]"
    by (simp add: set_detected_state_with_screen_signals_at_def should_ignore_detected_state_under_full_lifecycle_hook_def
        live_full_lifecycle_hook_authority_def detected_state_observed_before_release_suppression_def clear_hook_suppression_for_detected_agent_def
        exit_authority_def exit_identity_def retire_hook_identity_def observe_process_loss_for_retired_owners_def shows_loss_of_def
        drop_conflicting_authority_def suppress_current_hook_authority_def Let_def case_prod_beta f c p sample_stale_def
        record_fresh_process_evidence_def evidence_boundary_def)
  then have "(U ''zynk:hermes'', U ''hermes'', \<lparr>sr_kind = Id, sr_value = U ''a''\<rparr>, 9) \<in>
      evidences (handle_event sample_host 1 (StateChanged (Some Hermes) Idle False False 9 9) sample_retired)"
    by (simp add: evidences_def stale_entries_def update_stale sample_stale_def)
  moreover have "(U ''zynk:hermes'', U ''hermes'', \<lparr>sr_kind = Id, sr_value = U ''a''\<rparr>, 9) \<notin> evidences sample_retired"
    by (simp add: evidences_def stale_entries_def f sample_stale_def)
  ultimately show ?thesis by (rule evidence_from_running_observation)
qed

text \<open>
  C26. The code forgets a retirement. An owner retired by the exit of its process refuses a late report
  of the session that died with it; if the same owner then sends its release, the retirement is
  replaced by one that names no session, and the late report is admitted, although no running
  process was observed in between.
\<close>

theorem release_forgets_process_exit:
  assumes "hget (t_suppressed t) source = Some \<lparr>su_agent_label = label, su_session_ref = Some r, su_observed_at = at, su_last_loss = Some at, su_reason = ProcessExit\<rparr>"
    and "hook_report_retirement_applies source label" "hget (t_stale t) source = None"
    and "t_hook_authority t = None" "t_hook_identity t = None" "t_persisted_session t = None" "hget (t_hook_sequences t) source = None"
    and "effective_agent_label t = Some label"
  shows "plan_hook_report_admission t source label (Some r) None seq True False = Refuse \<and>
    plan_hook_report_admission (handle_event H n (HookAgentReleased source label None now) t) source label (Some r) None seq True False \<noteq> Refuse"
proof -
  let ?u = "handle_event H n (HookAgentReleased source label None now) t"
  have own: "owned_session_ref t source label = None" using assms by (simp add: owned_session_ref_def)
  note rel = release_admitted [OF assms(4,5,8,7), of H now]
  have u: "hget (t_suppressed ?u) source = Some \<lparr>su_agent_label = label, su_session_ref = None, su_observed_at = now, su_last_loss = None, su_reason = HookClear\<rparr>"
    "hget (t_stale ?u) source = None" "hget (t_hook_sequences ?u) source = None"
    using assms(2,3,7) retired_not_reserved [OF assms(2)]
    by (simp_all add: update_fences update_stale rel suppress_hook_report_def own suppress_hook_report_with_session_ref_def update_conv')
  have "plan_hook_report_admission t source label (Some r) None seq True False = Refuse"
    using assms(1,2) by (simp add: plan_hook_report_admission_def hook_report_sequence_reset_after_retirement_def hook_report_is_suppressed_def)
  moreover have "\<not> hook_report_is_suppressed ?u source label (Some r)" "\<not> hook_report_matches_stale_session ?u source label (Some r)"
    "\<not> hook_report_is_stale ?u source seq"
    by (simp_all only: hook_report_is_suppressed_def hook_report_matches_stale_session_def hook_report_is_stale_def u) (simp_all split: option.split)
  then have "plan_hook_report_admission ?u source label (Some r) None seq True False \<noteq> Refuse"
    by (simp only: plan_hook_report_admission_def hook_report_sequence_reset_after_retirement_def if_True if_False option.case simp_thms hook_report_admission.distinct not_False_eq_True)
  ultimately show ?thesis by blast
qed

definition sample_exited :: terminal_state where
  "sample_exited = (terminal_new (U ''t'') (U ''/''))\<lparr>t_detected_agent := Some Hermes, t_suppressed := [(U ''zynk:hermes'',
     \<lparr>su_agent_label = U ''hermes'', su_session_ref = Some \<lparr>sr_kind = Id, sr_value = U ''a''\<rparr>, su_observed_at = 5, su_last_loss = Some 5,
      su_reason = ProcessExit\<rparr>)]\<rparr>"

theorem release_forgets_process_exit_witness:
  "plan_hook_report_admission (handle_event sample_host 1 (HookAgentReleased (U ''zynk:hermes'') (U ''hermes'') None 6) sample_exited)
     (U ''zynk:hermes'') (U ''hermes'') (Some \<lparr>sr_kind = Id, sr_value = U ''a''\<rparr>) None None True False \<noteq> Refuse"
proof -
  have "hook_report_retirement_applies (U ''zynk:hermes'') (U ''hermes'')"
    by (simp add: hook_report_retirement_applies_def session_identity_only_integration_def)
  moreover have "effective_agent_label sample_exited = Some (U ''hermes'')"
    by (simp add: effective_agent_label_def sample_exited_def terminal_new_def)
  ultimately show ?thesis
    using release_forgets_process_exit [of sample_exited "U ''zynk:hermes''" "U ''hermes''" "\<lparr>sr_kind = Id, sr_value = U ''a''\<rparr>" 5 None sample_host 1 6]
    by (simp add: sample_exited_def terminal_new_def del: handle_event.simps)
qed

end
