(* ===== verification/Handoff_Fences.thy ===== *)
theory Handoff_Fences
  imports Terminal_Retirement
begin

text \<open>
  The fences of a terminal across a live handoff: every instant is rounded to an age in milliseconds
  and re-based on another clock, and what is refused before the handoff is refused after it.
\<close>

section \<open>Keys are unique\<close>

definition keyed :: "terminal_state \<Rightarrow> bool" where
  "keyed t \<longleftrightarrow> distinct (map fst (t_suppressed t)) \<and> distinct (map fst (t_stale t)) \<and> distinct (map fst (t_hook_sequences t))"

lemma keyed_cong:
  "keyed t \<Longrightarrow> t_suppressed u = t_suppressed t \<Longrightarrow> t_stale u = t_stale t \<Longrightarrow> t_hook_sequences u = t_hook_sequences t \<Longrightarrow> keyed u"
  by (simp add: keyed_def)

lemma distinct_keys_filter: "distinct (map fst m) \<Longrightarrow> distinct (map fst (filter P m))"
  by (induction m) auto

lemma keys_map: "fst \<circ> (\<lambda>(k, v). (k, f k v)) = fst"
  by auto

lemma fold_keyed: "keyed t \<Longrightarrow> (\<And>x u. x \<in> set xs \<Longrightarrow> keyed u \<Longrightarrow> keyed (f x u)) \<Longrightarrow> keyed (fold f xs t)"
  by (induction xs arbitrary: t) auto

lemma keyed_helpers:
  assumes "keyed t"
  shows "keyed (remember_stale_hook_session source label r at evidence last_loss t)"
    "keyed (forget_stale_hook_session source label r t)"
    "keyed (suppress_hook_report_with_session_ref source label sr reason at t)"
    "keyed (commit_hook_report_admission source adm t)"
    "keyed (observe_process_loss_for_retired_owners H detected exited at t)"
proof -
  note d = assms [unfolded keyed_def]
  show "keyed (remember_stale_hook_session source label r at evidence last_loss t)"
    using d by (simp add: keyed_def remember_stale_hook_session_def Let_def distinct_update)
  show "keyed (forget_stale_hook_session source label r t)"
    using d by (simp add: keyed_def forget_stale_hook_session_def Let_def distinct_update distinct_delete split: option.splits)
  show "keyed (suppress_hook_report_with_session_ref source label sr reason at t)"
    using d by (simp add: keyed_def suppress_hook_report_with_session_ref_def Let_def distinct_update split: option.splits)
  show "keyed (commit_hook_report_admission source adm t)"
    using d by (cases adm) (simp_all add: keyed_def Let_def distinct_update distinct_delete split: option.splits)
  show "keyed (observe_process_loss_for_retired_owners H detected exited at t)"
    using d by (simp add: keyed_def observe_process_loss_for_retired_owners_def Let_def keys_map)
qed

lemma keyed_suppress:
  assumes "keyed t"
  shows "keyed (suppress_hook_report source label reason at t)" "keyed (suppress_current_hook_authority reason at t)"
    "keyed (snd (retire_hook_identity reason at t))" "keyed (retire_suppressed_session_after_accepting source label accepted t)"
proof -
  have s: "keyed (suppress_hook_report source label reason at t)" if "keyed t" for source label t
    using that by (simp add: suppress_hook_report_def keyed_helpers)
  then show "keyed (suppress_hook_report source label reason at t)" using assms .
  show "keyed (suppress_current_hook_authority reason at t)"
    using assms by (simp add: suppress_current_hook_authority_def keyed_helpers split: option.splits)
  have "keyed (t\<lparr>t_hook_identity := None\<rparr>)" "keyed (t\<lparr>t_hook_identity := None, t_hook_sequences := hdel k (t_hook_sequences t)\<rparr>)" for k
    using assms by (simp_all add: keyed_def distinct_delete)
  then show "keyed (snd (retire_hook_identity reason at t))" using assms s by (simp add: retire_hook_identity_def Let_def split: option.splits)
  have "keyed (t\<lparr>t_suppressed := hdel source (t_suppressed t)\<rparr>)" using assms by (simp add: keyed_def distinct_delete)
  then show "keyed (retire_suppressed_session_after_accepting source label accepted t)"
    using assms by (simp add: retire_suppressed_session_after_accepting_def Let_def keyed_helpers split: option.splits)
qed

lemma keyed_clear_suppression:
  assumes "keyed t"
  shows "keyed (clear_hook_suppression_for_detected_agent H detected at t)"
proof (cases detected)
  case (Some d)
  let ?c = "\<lambda>s. parse_label H (su_agent_label s) = Some d \<and> su_observed_at s < at \<and> none_or (\<lambda>lost_at. lost_at < at) (su_last_loss s)"
  define t2 where "t2 = fold (\<lambda>(source, s) u. case su_session_ref s of
      Some r \<Rightarrow> remember_stale_hook_session source (su_agent_label s) r (su_observed_at s) (Some at) (su_last_loss s) u
    | None \<Rightarrow> u) (filter (\<lambda>(_, s). ?c s) (t_suppressed t)) (t\<lparr>t_suppressed := filter (\<lambda>(_, s). \<not> ?c s) (t_suppressed t)\<rparr>)"
  have "keyed (t\<lparr>t_suppressed := filter (\<lambda>(_, s). \<not> ?c s) (t_suppressed t)\<rparr>)"
    using assms by (simp add: keyed_def distinct_keys_filter del: not_all de_Morgan_conj)
  then have "keyed t2" unfolding t2_def by (rule fold_keyed) (auto simp: keyed_helpers split: option.splits)
  then show ?thesis
    unfolding Some clear_hook_suppression_for_detected_agent_def option.case Let_def t2_def [symmetric]
    by (simp add: keyed_def keys_map distinct_keys_filter)
qed (simp add: clear_hook_suppression_for_detected_agent_def assms)

lemma keyed_exits:
  "keyed (fst p) \<Longrightarrow> keyed (fst (exit_authority H agent exited now p))"
  "keyed (fst p) \<Longrightarrow> keyed (fst (exit_identity H agent exited now p))"
  "keyed t \<Longrightarrow> keyed (drop_conflicting_authority H agent prev now t)"
proof -
  obtain t' rel where p: "p = (t', rel)" by (cases p)
  have hold: "keyed (hold_hook_owner_unconfirmed source label now u)" if "keyed u" for source label u
    by (rule keyed_cong [OF that]) (simp_all add: hold_hook_owner_unconfirmed_def Let_def)
  have cur: "keyed (suppress_current_hook_authority reason now u\<lparr>t_hook_sequences := hdel k (t_hook_sequences (suppress_current_hook_authority reason now u)),
      t_hook_authority := None\<rparr>)" if "keyed u" for reason u k
    using keyed_suppress(2) [OF that, of reason now] by (simp add: keyed_def distinct_delete)
  show "keyed (fst (exit_authority H agent exited now p))" if "keyed (fst p)"
    using that hold cur by (simp add: p exit_authority_def Let_def split: option.splits)
  show "keyed (fst (exit_identity H agent exited now p))" if "keyed (fst p)"
    using that hold keyed_suppress(3) by (simp add: p exit_identity_def split: option.splits)
  show "keyed (drop_conflicting_authority H agent prev now t)" if "keyed t"
    using that keyed_suppress(2) [OF that, of HookClear now] by (simp add: drop_conflicting_authority_def Let_def) (simp add: keyed_def)
qed

lemma keyed_detected:
  assumes "keyed t"
  shows "keyed (snd (set_detected_state_with_screen_signals_at H agent fs vb exited now t))"
proof -
  define t1 where "t1 = (if \<not> exited then confirm_pending_hook_owner H agent now t else t)"
  define t3 where "t3 = (if \<not> exited then clear_hook_suppression_for_detected_agent H agent now (t1\<lparr>t_detected_agent := agent\<rparr>) else t1\<lparr>t_detected_agent := agent\<rparr>)"
  define t4 where "t4 = t3\<lparr>t_fallback_state := fs, t_fallback_visible_blocker := (vb \<and> fs = Blocked), t_fallback_observed_at := Some now\<rparr>"
  have t1: "keyed t1" "keyed (t1\<lparr>t_detected_agent := agent\<rparr>)"
    by (rule keyed_cong [OF assms]; simp add: t1_def confirm_pending_hook_owner_def Let_def split: option.splits)+
  then have "keyed t3" by (simp add: t3_def keyed_clear_suppression)
  then have t4: "keyed t4" by (simp add: t4_def keyed_def)
  have fin: "keyed (snd (finish_mutation H view ps rel now u))" if "keyed u" for view ps rel u by (rule keyed_cong [OF that]) simp_all
  have drop: "keyed (drop_exited_session H agent exited u)" if "keyed u" for u
    by (rule keyed_cong [OF that]) (simp_all add: drop_exited_session_def)
  have rest: "keyed (drop_conflicting_authority H agent prev now (drop_exited_session H agent exited
      (observe_process_loss_for_retired_owners H agent exited now (fst (exit_identity H agent exited now (exit_authority H agent exited now (t4, rel)))))))" for prev rel
    using t4 by (intro keyed_exits drop keyed_helpers) simp
  show ?thesis
    unfolding set_detected_state_with_screen_signals_at_def Let_def t1_def [symmetric] t3_def [symmetric] t4_def [symmetric] case_prod_beta
    using rest t1 by (simp add: fin)
qed

text \<open>Whatever operation ran, the fences are those of one of a few intermediate states.\<close>

definition fences :: "terminal_state \<Rightarrow> suppressed_hook_report hmap \<times> stale_hook_session list hmap \<times> u64 hmap" where
  "fences t = (t_suppressed t, t_stale t, t_hook_sequences t)"

lemma keyed_fences: "keyed t \<Longrightarrow> fences u = fences t \<Longrightarrow> keyed u"
  by (simp add: keyed_def fences_def)

lemma keyed_among: "fences u \<in> set (map fences ts) \<Longrightarrow> list_all keyed ts \<Longrightarrow> keyed u"
  by (auto simp: list_all_iff intro: keyed_fences)

lemma fence_frames [simp]:
  "t_suppressed (advance_session_owner_epoch now t) = t_suppressed t" "t_hook_sequences (advance_session_owner_epoch now t) = t_hook_sequences t"
  "t_suppressed (clear_expiry_pending_for_hidden_metadata t) = t_suppressed t"
  "t_hook_sequences (clear_expiry_pending_for_hidden_metadata t) = t_hook_sequences t"
  "t_suppressed (snd (accept_metadata_report source seq tokens t)) = t_suppressed t"
  "t_hook_sequences (snd (accept_metadata_report source seq tokens t)) = t_hook_sequences t"
  "t_suppressed (clear_agent_name t) = t_suppressed t" "t_hook_sequences (clear_agent_name t) = t_hook_sequences t"
  by (auto simp: advance_session_owner_epoch_def clear_expiry_pending_for_hidden_metadata_def accept_metadata_report_def clear_agent_name_def
      Let_def split: option.splits)

lemma keyed_accepted:
  "keyed t \<Longrightarrow> keyed (if r \<noteq> None then retire_suppressed_session_after_accepting source label r (commit_hook_report_admission source adm t)
     else commit_hook_report_admission source adm t)"
  by (simp add: keyed_helpers keyed_suppress)

lemma keyed_record:
  assumes "keyed t"
  shows "keyed (snd (record_identity_only_hook_report_at H source label r seq now t))"
proof -
  let ?adm = "plan_hook_report_admission t source label r None seq True False" and ?s = "clamp_session_ref t source label r"
  let ?v = "if ?s \<noteq> None then retire_suppressed_session_after_accepting source label ?s (commit_hook_report_admission source ?adm t)
     else commit_hook_report_admission source ?adm t"
  show ?thesis
  proof (rule keyed_among [where ts = "[t, ?v]"])
    show "fences (snd (record_identity_only_hook_report_at H source label r seq now t)) \<in> set (map fences [t, ?v])"
      by (simp add: record_identity_only_hook_report_at_def fences_def Let_def split: option.splits)
  qed (use assms keyed_accepted [OF assms, of ?s source label ?adm] in simp)
qed

lemma keyed_set_authority:
  assumes "keyed t"
  shows "keyed (snd (set_hook_authority_at H source label state message r seq now t))"
proof (cases "session_identity_only_integration source label")
  case False
  let ?adm = "plan_hook_report_admission t source label r None seq True False" and ?s = "clamp_session_ref t source label r"
  let ?v = "if ?s \<noteq> None then retire_suppressed_session_after_accepting source label ?s (commit_hook_report_admission source ?adm t)
     else commit_hook_report_admission source ?adm t"
  show ?thesis
  proof (rule keyed_among [where ts = "[t, ?v]"])
    show "fences (snd (set_hook_authority_at H source label state message r seq now t)) \<in> set (map fences [t, ?v])"
      using False by (simp add: set_hook_authority_at_def fences_def Let_def case_prod_beta)
  qed (use assms keyed_accepted [OF assms, of ?s source label ?adm] in simp)
qed (simp add: set_hook_authority_at_def keyed_record [OF assms])

lemma keyed_session_start:
  assumes "keyed t"
  shows "keyed (snd (set_agent_session_ref_for_session_start_at H source label sr seq reason observation now t))"
proof (cases "snd (set_agent_session_ref_for_session_start_at H source label sr seq reason observation now t) = t")
  case False
  then obtain r where r: "sr = Some r" by (cases sr) (auto simp: set_agent_session_ref_for_session_start_at_def)
  let ?oc = "current_session_owner_conflicts t source label"
  let ?adm = "plan_hook_report_admission t source label (Some r) reason seq (?oc \<or> session_identity_only_integration source label)
       (is_unsequenced_opencode_selection source label reason seq)"
  define t1 where "t1 = commit_hook_report_admission source ?adm t"
  define t2 where "t2 = (if session_start_source_allows_session_replacement source label reason then forget_stale_hook_session source label r t1 else t1)"
  define t3 where "t3 = (case same_owner_full_lifecycle_hook_authority_session_ref t source label r of
      Some old \<Rightarrow> (remember_stale_hook_session source label old now None None t2)\<lparr>t_hook_authority := None\<rparr> | None \<Rightarrow> t2)"
  define t4 where "t4 = (case (if ?oc then t_persisted_session t3 else None) of
      Some old \<Rightarrow> remember_stale_hook_session (ps_source old) (ps_agent old) (ps_session_ref old) now None None t3 | None \<Rightarrow> t3)"
  define t5 where "t5 = retire_suppressed_session_after_accepting source label (Some r) t4"
  have "keyed t2" using assms by (simp add: t1_def t2_def keyed_helpers)
  moreover have "keyed (u\<lparr>t_hook_authority := None\<rparr>)" if "keyed u" for u using that by (simp add: keyed_def)
  ultimately have "keyed t3" by (simp add: t3_def keyed_helpers split: option.splits)
  then have t4: "keyed t4" by (simp add: t4_def keyed_helpers split: option.splits)
  then have t5: "keyed t5" by (simp add: t5_def keyed_suppress)
  have "fences (snd (set_agent_session_ref_for_session_start_at H source label sr seq reason observation now t)) =
      fences (if session_identity_only_integration source label
        then t5\<lparr>t_hook_identity := Some \<lparr>hi_source = source, hi_agent_label = label, hi_reported_at = now,
          hi_unconfirmed_since = unanswered_exit_to_inherit t5 source label\<rparr>\<rparr> else t4)"
    using False unfolding r set_agent_session_ref_for_session_start_at_def option.case Let_def
      t1_def [symmetric] t2_def [symmetric] t3_def [symmetric] t4_def [symmetric] t5_def [symmetric] case_prod_beta
    by (auto simp: fences_def split: if_splits)
  with t4 t5 show ?thesis by (intro keyed_among [where ts = "[t4, t5]"]) (simp_all add: fences_def)
qed (simp add: assms)

lemma keyed_clear:
  assumes "keyed t"
  shows "keyed (snd (clear_hook_authority_with_mutation H source seq now t))"
proof -
  define t1 where "t1 = fold (\<lambda>s. commit_hook_report_admission s (Accept False seq)) (clear_sequence_sources t source) t"
  define t2 where "t2 = (\<lambda>c :: bool. if c then suppress_current_hook_authority HookClear now t1 else t1)"
  define t3 where "t3 = (\<lambda>b c. snd (if b then retire_hook_identity HookClear now (t2 c) else (None, t2 c)))"
  have "keyed t1" unfolding t1_def by (rule fold_keyed [OF assms]) (rule keyed_helpers)
  then have t3: "keyed (t3 b c)" for b c by (simp add: t2_def t3_def keyed_suppress)
  have "\<exists>b c. fences (snd (clear_hook_authority_with_mutation H source seq now t)) \<in> {fences t, fences (t3 b c)}"
    unfolding clear_hook_authority_with_mutation_def Let_def t1_def [symmetric] t2_def t3_def case_prod_beta fences_def
    by (auto split: option.splits)
  with assms t3 show ?thesis by (auto intro: keyed_fences)
qed

lemma keyed_release:
  assumes "keyed t"
  shows "keyed (snd (release_agent_with_mutation H source label seq now t))"
proof (rule keyed_among [where ts = "[t, suppress_hook_report source label HookClear now
    (commit_hook_report_admission source (plan_hook_report_admission t source label None None seq False False) t)]"])
qed (use assms in \<open>simp_all add: release_agent_with_mutation_def fences_def Let_def case_prod_beta keyed_helpers keyed_suppress\<close>)

lemma keyed_update: "keyed (snd (update t)) \<Longrightarrow> keyed (update_terminal_state_at H n now exit update t)"
  by (rule keyed_cong) (auto simp: update_stale update_fences)

lemma keyed_event:
  assumes "keyed t"
  shows "keyed (handle_event H n e t)"
proof (cases e)
  case (HookStateReported source label state message r seq now)
  then show ?thesis
    using keyed_session_start [OF assms] keyed_record [OF assms] keyed_set_authority [OF assms]
    by (auto intro!: keyed_update simp: handle_hook_state_reported_def set_agent_session_ref_def)
next
  case (PaneProcessExit at)
  have "keyed (snd (publish_pane_process_exit_if_agent H at t))"
    using assms keyed_detected [OF assms] by (simp add: publish_pane_process_exit_if_agent_def Let_def case_prod_beta)
  with PaneProcessExit show ?thesis by (auto intro!: keyed_update)
next
  case (HookMetadataReported report now)
  have "keyed (snd (set_agent_metadata H report now t))"
    by (rule keyed_cong [OF assms]) (simp_all add: set_agent_metadata_def Let_def case_prod_beta)
  with HookMetadataReported show ?thesis by (auto intro!: keyed_update)
next
  case (MetadataExpired scheduled now)
  show ?thesis
    by (rule keyed_cong [OF assms]) (simp_all add: MetadataExpired expire_terminal_metadata_def expire_agent_metadata_at_def Let_def case_prod_beta)
next
  case (TokensReported source seq patch ttl now)
  show ?thesis
    by (rule keyed_cong [OF assms]) (simp_all add: TokensReported report_pane_tokens_def Let_def case_prod_beta)
next
  case (ManagedReconciled now)
  show ?thesis by (rule keyed_cong [OF assms]) (simp_all add: ManagedReconciled)
next
  case Respawned
  then show ?thesis using assms by (simp add: keyed_def clear_agent_runtime_identity_after_respawn_def)
qed (use assms keyed_detected [OF assms] keyed_session_start [OF assms] keyed_clear [OF assms] keyed_release [OF assms] in
    \<open>auto intro!: keyed_update simp: begin_managed_agent_def set_terminal_title_def set_manual_label_def clear_manual_label_def set_agent_name_def
      Let_def, auto simp: keyed_def\<close>)

lemma keyed_fold_put: "distinct (map fst m) \<Longrightarrow> distinct (map fst (fold (\<lambda>(k, v). AList.update k v) xs m))"
  by (induction xs arbitrary: m) (auto simp: distinct_update)

lemma keyed_import: "keyed (import_terminal H p retirement now)"
proof -
  have base: "keyed (import_base p now)" by (simp add: keyed_def)
  have sup: "keyed (restore_suppressed H now x u)" if "keyed u" for x u
    using keyed_helpers(3) [OF that, of "ss_source x" "ss_agent_label x" "ss_session_ref x" "ss_reason x"]
    by (simp add: restore_suppressed_def Let_def split: option.splits) (simp add: keyed_def distinct_update)
  have "keyed (restore_hook_retirement H snap now t)" if "keyed t" for snap t
  proof -
    define t2 where "t2 = (let t1 = advance_session_owner_epoch now t in
     t1\<lparr>t_hook_sequences := fold (\<lambda>(s, q). hput s q) (rs_sequences snap) (t_hook_sequences t1),
        t_metadata_sequences := fold (\<lambda>(s, q). hput s q) (rs_metadata_sequences snap) (t_metadata_sequences t1),
        t_metadata_token_sources := fold List.insert (rs_metadata_token_sources snap) (t_metadata_token_sources t1)\<rparr>)"
    have "keyed t2" using that by (simp add: t2_def keyed_def Let_def keyed_fold_put)
    then have "keyed (fold (restore_stale H now) (rs_stale snap) (fold (restore_suppressed H now) (rs_suppressed snap) t2))"
      by (intro fold_keyed) (auto simp: sup restore_stale_def keyed_helpers)
    then show ?thesis
      by (rule keyed_fences) (simp add: fences_def restore_hook_retirement_def t2_def restore_identity_def Let_def split: option.splits)
  qed
  note restored = this [OF base]
  have "keyed (require_imported_hook_identity_confirmation now (restore_hook_retirement H snap now (import_base p now)))" for snap
    by (rule keyed_cong [OF restored [of snap]]) simp_all
  with base show ?thesis by (cases retirement) (simp_all add: import_terminal_eq apply_handoff_hook_retirement_def)
qed

interpretation terminal_keys: inductive_system terminal_init "terminal_step H" keyed for H
proof
  show "keyed t" if "terminal_init t" for t using that by (auto simp: terminal_init_def terminal_new_def keyed_def)
  show "keyed u" if "terminal_step H t u" "keyed t" for t u
    using that by (cases rule: terminal_step.cases) (auto intro: keyed_event keyed_import)
qed

section \<open>What survives the handoff\<close>

text \<open>A map replayed entry by entry, in any order, is the map.\<close>

lemma map_of_fold_put:
  "distinct (map fst xs) \<Longrightarrow> map_of (fold (\<lambda>(k, v). AList.update k v) xs m) = map_of m ++ map_of xs"
proof (induction xs arbitrary: m)
  case (Cons x xs)
  obtain k v where x: "x = (k, v)" by (cases x)
  with Cons.prems have k: "map_of xs k = None" by (simp add: map_of_eq_None_iff)
  have "map_of (fold (\<lambda>(k, v). AList.update k v) (x # xs) m) = (map_of m)(k \<mapsto> v) ++ map_of xs"
    using Cons by (simp add: x update_conv')
  also have "\<dots> = map_of m ++ map_of (x # xs)" using k by (auto simp: x fun_eq_iff map_add_def split: option.splits)
  finally show ?case .
qed simp

lemma map_of_perm:
  assumes "distinct (map fst xs)" "mset ys = mset xs"
  shows "map_of ys = map_of xs"
proof -
  have "distinct (map fst ys)" using assms by (metis mset_map mset_eq_imp_distinct_iff)
  moreover have "set ys = set xs" using assms(2) by (rule mset_eq_setD)
  ultimately show ?thesis using assms(1) by (simp add: map_of_inject_set)
qed

text \<open>What admission reads of a suppressed owner, and of the stale sessions under a source.\<close>

definition core :: "suppressed_hook_report \<Rightarrow> ustr \<times> agent_session_ref option \<times> hook_suppression_reason" where
  "core s = (su_agent_label s, su_session_ref s, su_reason s)"

definition stale_keys :: "terminal_state \<Rightarrow> ustr \<Rightarrow> (ustr \<times> agent_session_ref) set" where
  "stale_keys t source = (case hget (t_stale t) source of Some xs \<Rightarrow> (\<lambda>x. (st_agent_label x, st_session_ref x)) ` set xs | None \<Rightarrow> {})"

lemma restore_suppressed_view:
  "map_option core (hget (t_suppressed (restore_suppressed H now s t)) k) =
     (if k = ss_source s then Some (ss_agent_label s, ss_session_ref s, ss_reason s) else map_option core (hget (t_suppressed t) k))"
proof -
  have sup: "hget (t_suppressed (suppress_hook_report_with_session_ref source label r reason at t)) k =
      (if k = source then Some \<lparr>su_agent_label = label, su_session_ref = r, su_observed_at = at,
         su_last_loss = (if reason = ProcessExit then Some at else None), su_reason = reason\<rparr> else hget (t_suppressed t) k)" for source label r reason at k
    by (simp add: suppress_hook_report_with_session_ref_def Let_def update_conv' split: option.splits)
  have "core (suppressed_observe_process_loss at x) = core x" for at x by (simp add: suppressed_observe_process_loss_def core_def)
  then show ?thesis
    by (auto simp: restore_suppressed_def Let_def sup update_conv' split: option.splits) (simp_all add: core_def)
qed

lemma fold_restore_suppressed_view:
  assumes "distinct (map ss_source xs)"
  shows "map_option core \<circ> hget (t_suppressed (fold (restore_suppressed H now) xs t)) =
    (map_option core \<circ> hget (t_suppressed t)) ++ map_of (map (\<lambda>s. (ss_source s, (ss_agent_label s, ss_session_ref s, ss_reason s))) xs)"
  using assms
proof (induction xs arbitrary: t)
  case (Cons x xs)
  let ?g = "\<lambda>s. (ss_source s, (ss_agent_label s, ss_session_ref s, ss_reason s))"
  have "map_of (map ?g xs) (ss_source x) = None" using Cons.prems by (auto simp: map_of_eq_None_iff)
  moreover have "map_option core \<circ> hget (t_suppressed (restore_suppressed H now x t)) =
      (map_option core \<circ> hget (t_suppressed t))(ss_source x \<mapsto> (ss_agent_label x, ss_session_ref x, ss_reason x))"
    by (auto simp: restore_suppressed_view)
  ultimately show ?case using Cons by (auto simp: fun_eq_iff map_add_def split: option.splits)
qed simp

lemma remember_stale_keys:
  "stale_keys (remember_stale_hook_session source label r retired_at evidence last_loss t) s =
     (if s = source then insert (label, r) (stale_keys t s) else stale_keys t s)"
proof -
  let ?same = "\<lambda>x. st_agent_label x = label \<and> st_session_ref x = r"
  let ?old = "case hget (t_stale t) source of Some xs \<Rightarrow> xs | None \<Rightarrow> []"
  let ?key = "\<lambda>x. (st_agent_label x, st_session_ref x)"
  let ?upd = "\<lambda>x. let x1 = observe_retirement retired_at x; x2 = (case last_loss of Some lost_at \<Rightarrow> observe_process_loss lost_at x1 | None \<Rightarrow> x1)
      in case evidence of Some at \<Rightarrow> record_fresh_process_evidence at x2 | None \<Rightarrow> x2"
  have key: "?key (if ?same x then ?upd x else x) = ?key x" for x
    by (cases evidence; cases last_loss) (simp_all add: Let_def observe_keeps)
  have old: "stale_keys t source = ?key ` set ?old" by (simp add: stale_keys_def split: option.splits)
  have "?key ` set (map (\<lambda>x. if ?same x then ?upd x else x) xs) = ?key ` set xs" for xs
    by (simp only: set_map image_image key)
  then have new: "stale_keys (remember_stale_hook_session source label r retired_at evidence last_loss t) source =
      ?key ` set (if list_ex ?same ?old then ?old else ?old @ [\<lparr>st_agent_label = label, st_session_ref = r, st_evidence = None, st_last_loss = None, st_retired_at = retired_at\<rparr>])"
    unfolding remember_stale_hook_session_def by (simp add: stale_keys_def update_conv' Let_def)
  have "stale_keys (remember_stale_hook_session source label r retired_at evidence last_loss t) s = stale_keys t s" if "s \<noteq> source"
    using that unfolding remember_stale_hook_session_def by (simp add: stale_keys_def update_conv' Let_def)
  moreover have "stale_keys (remember_stale_hook_session source label r retired_at evidence last_loss t) source = insert (label, r) (stale_keys t source)"
  proof (cases "list_ex ?same ?old")
    case True
    then have "(label, r) \<in> ?key ` set ?old" by (force simp: list_ex_iff)
    then have "insert (label, r) (stale_keys t source) = stale_keys t source" unfolding old by (rule insert_absorb)
    moreover have "stale_keys (remember_stale_hook_session source label r retired_at evidence last_loss t) source = stale_keys t source"
      unfolding new old by (simp only: True if_True)
    ultimately show ?thesis by simp
  next
    case False
    show ?thesis unfolding new old by (simp only: False if_False set_append image_Un list.set image_insert image_empty stale_hook_session.simps Un_insert_right Un_empty_right)
  qed
  ultimately show ?thesis by simp
qed

lemma fold_restore_stale_keys:
  "stale_keys (fold (restore_stale H now) xs t) s = stale_keys t s \<union> {(sn_agent_label n, sn_session_ref n) |n. n \<in> set xs \<and> sn_source n = s}"
proof (induction xs arbitrary: t)
  case (Cons x xs)
  have "stale_keys (restore_stale H now x t) s =
      (if s = sn_source x then insert (sn_agent_label x, sn_session_ref x) (stale_keys t s) else stale_keys t s)"
    by (simp add: restore_stale_def remember_stale_keys)
  then show ?case unfolding fold_simps comp_apply Cons.IH by auto
qed simp

lemma sort_key_Nil: "sort_key f xs = [] \<longleftrightarrow> xs = []"
  by (metis length_0_conv length_sort)

lemma exported_fences:
  assumes "export_hook_retirement t captured = Some snap" "keyed t"
  shows "map_of (rs_sequences snap) = hget (t_hook_sequences t)" "distinct (map fst (rs_sequences snap))"
    "map_of (map (\<lambda>s. (ss_source s, (ss_agent_label s, ss_session_ref s, ss_reason s))) (rs_suppressed snap)) = map_option core \<circ> hget (t_suppressed t)"
    "distinct (map ss_source (rs_suppressed snap))"
    "{(sn_agent_label n, sn_session_ref n) |n. n \<in> set (rs_stale snap) \<and> sn_source n = source} = stale_keys t source"
proof -
  have snap: "rs_sequences snap = sort (t_hook_sequences t)"
    "rs_suppressed snap = sort_key (\<lambda>s. (ss_source s, ss_agent_label s)) (map (suppressed_capture captured) (t_suppressed t))"
    "rs_stale snap = sort_key (\<lambda>s. (sn_source s, sn_agent_label s, sr_value (sn_session_ref s)))
      (concat (map (\<lambda>(source, xs). map (stale_capture captured source) xs) (t_stale t)))"
    using assms(1) by (auto simp: export_hook_retirement_def Let_def split: if_splits)
  have d: "distinct (map fst (t_hook_sequences t))" "distinct (map fst (t_suppressed t))" "distinct (map fst (t_stale t))"
    using assms(2) by (simp_all add: keyed_def)
  show "map_of (rs_sequences snap) = hget (t_hook_sequences t)" unfolding snap by (rule map_of_perm [OF d(1)]) simp
  show "distinct (map fst (rs_sequences snap))"
    unfolding snap using d(1) by (metis mset_map mset_sort mset_eq_imp_distinct_iff)
  let ?g = "\<lambda>s. (ss_source s, (ss_agent_label s, ss_session_ref s, ss_reason s))"
  have g: "map ?g (map (suppressed_capture captured) (t_suppressed t)) = map (\<lambda>(k, s). (k, core s)) (t_suppressed t)"
    by (auto simp: suppressed_capture_def core_def)
  have gd: "distinct (map fst (map (\<lambda>(k, s). (k, core s)) (t_suppressed t)))" using d(2) by (simp add: keys_map)
  have "mset (map ?g (rs_suppressed snap)) = mset (map (\<lambda>(k, s). (k, core s)) (t_suppressed t))"
    unfolding g [symmetric] snap by (simp only: mset_map mset_sort)
  from map_of_perm [OF gd this] show "map_of (map ?g (rs_suppressed snap)) = map_option core \<circ> hget (t_suppressed t)"
    by (simp add: map_of_map)
  have src: "map ss_source (map (suppressed_capture captured) (t_suppressed t)) = map fst (t_suppressed t)"
    by (auto simp: suppressed_capture_def)
  have "mset (map ss_source (rs_suppressed snap)) = mset (map fst (t_suppressed t))"
    unfolding snap src [symmetric] by (simp only: mset_map mset_sort)
  with d(2) show "distinct (map ss_source (rs_suppressed snap))" using mset_eq_imp_distinct_iff by blast
  have cap: "sn_source (stale_capture captured s x) = s" "sn_agent_label (stale_capture captured s x) = st_agent_label x"
    "sn_session_ref (stale_capture captured s x) = st_session_ref x" for s x by (simp_all add: stale_capture_def)
  show "{(sn_agent_label n, sn_session_ref n) |n. n \<in> set (rs_stale snap) \<and> sn_source n = source} = stale_keys t source" (is "?L = _")
  proof -
    have "?L = {(st_agent_label x, st_session_ref x) |x xs. (source, xs) \<in> set (t_stale t) \<and> x \<in> set xs}"
      unfolding snap set_sort by (force simp: cap)
    also have "\<dots> = stale_keys t source"
      unfolding map_of_eq_Some_iff [OF d(3), symmetric] by (cases "hget (t_stale t) source") (auto simp: stale_keys_def)
    finally show ?thesis .
  qed
qed

text \<open>The fences of the imported terminal, as admission reads them, are those of the exported one.\<close>

lemma imported_fences:
  fixes H p t captured imported
  defines "u \<equiv> import_terminal H p (export_hook_retirement t captured) imported"
  assumes "keyed t"
  shows "hget (t_hook_sequences u) = hget (t_hook_sequences t)"
    "map_option core \<circ> hget (t_suppressed u) = map_option core \<circ> hget (t_suppressed t)" "stale_keys u = stale_keys t"
proof -
  have *: "hget (t_hook_sequences u) = hget (t_hook_sequences t) \<and>
    map_option core \<circ> hget (t_suppressed u) = map_option core \<circ> hget (t_suppressed t) \<and> stale_keys u = stale_keys t"
  proof (cases "export_hook_retirement t captured")
    case None
    then have "t_hook_sequences t = []" "t_suppressed t = []" "concat (map (\<lambda>(source, xs). map (stale_capture captured source) xs) (t_stale t)) = []"
      by (simp_all add: export_hook_retirement_def Let_def sort_key_Nil split: if_splits)
    moreover from this(3) have "stale_keys t source = {}" for source
      by (cases "hget (t_stale t) source") (auto simp: stale_keys_def dest: map_of_SomeD)
    ultimately show ?thesis
      by (auto simp: u_def None import_terminal_eq apply_handoff_hook_retirement_def stale_keys_def fun_eq_iff)
  next
    case (Some snap)
    note ex = exported_fences [OF Some assms(2)]
    define t2 where "t2 = (let t1 = advance_session_owner_epoch imported (import_base p imported) in
     t1\<lparr>t_hook_sequences := fold (\<lambda>(s, q). hput s q) (rs_sequences snap) (t_hook_sequences t1),
        t_metadata_sequences := fold (\<lambda>(s, q). hput s q) (rs_metadata_sequences snap) (t_metadata_sequences t1),
        t_metadata_token_sources := fold List.insert (rs_metadata_token_sources snap) (t_metadata_token_sources t1)\<rparr>)"
    define t3 where "t3 = fold (restore_suppressed H imported) (rs_suppressed snap) t2"
    define t4 where "t4 = fold (restore_stale H imported) (rs_stale snap) t3"
    have u: "fences u = fences t4"
      by (simp add: u_def Some import_terminal_eq apply_handoff_hook_retirement_def fences_def restore_hook_retirement_def t4_def t3_def t2_def
          restore_identity_def Let_def split: option.splits)
    have stale: "t_suppressed (fold (restore_stale H imported) xs v) = t_suppressed v"
      "t_hook_sequences (fold (restore_stale H imported) xs v) = t_hook_sequences v" for xs v
      by (induction xs arbitrary: v) (simp_all add: restore_stale_def remember_stale_hook_session_def Let_def)
    have sup: "t_hook_sequences (fold (restore_suppressed H imported) xs v) = t_hook_sequences v"
      "t_stale v = [] \<Longrightarrow> t_stale (fold (restore_suppressed H imported) xs v) = []" for xs v
      by (induction xs arbitrary: v) (simp_all add: restore_suppressed_def suppress_hook_report_with_session_ref_def Let_def split: option.splits)
    have t2: "t_suppressed t2 = []" "t_stale t2 = []" "t_hook_sequences t2 = fold (\<lambda>(s, q). hput s q) (rs_sequences snap) []"
      by (simp_all add: t2_def Let_def)
    have "hget (t_hook_sequences u) = hget (t_hook_sequences t)"
      using u map_of_fold_put [OF ex(2), of "[]"] ex(1) by (simp add: fences_def t4_def t3_def stale sup t2)
    moreover have "map_option core \<circ> hget (t_suppressed u) = map_option core \<circ> hget (t_suppressed t)"
      using u fold_restore_suppressed_view [OF ex(4), of H imported t2] ex(3) by (simp add: fences_def t4_def t3_def stale t2 comp_def)
    moreover have "stale_keys u source = stale_keys t source" for source
    proof -
      have "stale_keys u source = stale_keys t4 source" using u by (simp add: fences_def stale_keys_def)
      also have "\<dots> = stale_keys t3 source \<union> stale_keys t source" unfolding t4_def fold_restore_stale_keys ex(5) ..
      also have "stale_keys t3 source = {}" using sup(2) [OF t2(2)] by (simp add: t3_def stale_keys_def)
      finally show ?thesis by simp
    qed
    ultimately show ?thesis by blast
  qed
  then show "hget (t_hook_sequences u) = hget (t_hook_sequences t)"
    "map_option core \<circ> hget (t_suppressed u) = map_option core \<circ> hget (t_suppressed t)" "stale_keys u = stale_keys t" by blast+
qed

text \<open>Admission reads the fences through these views, and a reclaim reads the evidence.\<close>

lemma suppression_views:
  "hook_report_is_suppressed t source label r \<longleftrightarrow> hook_report_retirement_applies source label \<and>
     some_and (\<lambda>(l, sref, reason). l = label \<and> (reason = ProcessExit \<or>
       (case (sref, r) of (Some x, Some y) \<Rightarrow> y = x | (Some _, None) \<Rightarrow> True | (None, Some _) \<Rightarrow> False | (None, None) \<Rightarrow> True)))
     (map_option core (hget (t_suppressed t) source))"
  "hook_report_has_fresh_session_after_suppression t source label r \<longleftrightarrow> hook_report_retirement_applies source label \<and>
     some_and (\<lambda>(l, sref, reason). l = label \<and> reason \<noteq> ProcessExit \<and> (case (sref, r) of (Some x, Some y) \<Rightarrow> y \<noteq> x | _ \<Rightarrow> False))
     (map_option core (hget (t_suppressed t) source))"
  by (cases "hget (t_suppressed t) source"; simp add: hook_report_is_suppressed_def hook_report_has_fresh_session_after_suppression_def core_def)+

lemma stale_views:
  "hook_report_matches_stale_session t source label r \<longleftrightarrow>
     hook_report_retirement_applies source label \<and> some_and (\<lambda>x. (label, x) \<in> stale_keys t source) r"
  "hook_report_has_fresh_session_after_stale_session t source label r \<longleftrightarrow>
     hook_report_retirement_applies source label \<and> label \<in> fst ` stale_keys t source \<and> some_and (\<lambda>x. (label, x) \<notin> stale_keys t source) r"
  by (cases "hget (t_stale t) source"; cases r; auto simp: hook_report_matches_stale_session_def
      hook_report_has_fresh_session_after_stale_session_def stale_keys_def list_ex_iff list_all_iff image_iff)+

lemma imported_evidence:
  assumes "keyed t" "all_stale (\<lambda>_. stale_ok) t"
    and "explicit_session_start_reclaims_stale_session (import_terminal H p (export_hook_retirement t captured) imported) source label r reason"
  shows "explicit_session_start_reclaims_stale_session t source label r reason"
proof -
  let ?u = "import_terminal H p (export_hook_retirement t captured) imported"
  define allowed where "allowed = (\<lambda>s l x (at :: instant). \<exists>y. (s, y) \<in> stale_entries t \<and> st_agent_label y = l \<and> st_session_ref y = x \<and> st_evidence y \<noteq> None)"
  have "all_stale (backed {} allowed) ?u"
  proof (rule origin.import_inv)
    fix snap n a assume "export_hook_retirement t captured = Some snap" "n \<in> set (rs_stale snap)" "sn_evidence_age_ms n = Some a"
    then obtain s xs x where "(s, xs) \<in> set (t_stale t)" "x \<in> set xs" "n = stale_capture captured s x" "st_evidence x \<noteq> None"
      by (auto simp: export_hook_retirement_def Let_def stale_capture_def split: if_splits)
    then show "allowed (sn_source n) (sn_agent_label n) (sn_session_ref n) (instant_from_age_ms H imported a)"
      by (auto simp: allowed_def stale_entries_def stale_capture_def)
  qed
  moreover from assms(3) obtain x xs y where r: "r = Some x" and ok: "session_start_source_allows_session_replacement source label reason"
    and y: "hget (t_stale ?u) source = Some xs" "y \<in> set xs" "st_agent_label y = label" "st_session_ref y = x" "has_reclaimable_process_evidence y"
    by (cases r; cases "hget (t_stale ?u) source") (auto simp: explicit_session_start_reclaims_stale_session_def list_ex_iff split: if_splits)
  ultimately have "backed {} allowed source y" by (blast intro: all_stale_get)
  then obtain z where z: "(source, z) \<in> stale_entries t" "st_agent_label z = label" "st_session_ref z = x" "st_evidence z \<noteq> None"
    using y by (auto simp: backed_def allowed_def has_reclaimable_process_evidence_def split: option.splits)
  then obtain zs where zs: "hget (t_stale t) source = Some zs" "z \<in> set zs"
    using assms(1) by (auto simp: stale_entries_def keyed_def)
  have "stale_ok z" using assms(2) z(1) by (auto simp: all_stale_def)
  with z(4) have "has_reclaimable_process_evidence z" by (auto simp: stale_ok_def has_reclaimable_process_evidence_def split: option.splits)
  with z zs ok show ?thesis by (auto simp: explicit_session_start_reclaims_stale_session_def r list_ex_iff)
qed

section \<open>Property\<close>

text \<open>
  C11. A live handoff opens no fence. Whatever report the terminal would have refused when its state
  was captured, for its retired owner, its stale session or its sequence number, the imported terminal
  refuses, whatever the clocks of the two servers and however the ages were rounded.
\<close>

theorem handoff_opens_no_fence:
  assumes "reachable terminal_init (terminal_step H) t"
    and "plan_hook_report_admission t source label r reason seq check_retirement sequence_exempt = Refuse"
  shows "plan_hook_report_admission (import_terminal H p (export_hook_retirement t captured) imported)
     source label r reason seq check_retirement sequence_exempt = Refuse"
proof -
  let ?u = "import_terminal H p (export_hook_retirement t captured) imported"
  have k: "keyed t" using terminal_keys.reachable_inv [OF assms(1)] .
  note f = imported_fences [OF k, of H p captured imported]
  have core: "map_option core (hget (t_suppressed ?u) source) = map_option core (hget (t_suppressed t) source)" using fun_cong [OF f(2), of source] by simp
  have eqs: "hook_report_is_suppressed ?u source label r = hook_report_is_suppressed t source label r"
    "hook_report_has_fresh_session_after_suppression ?u source label r = hook_report_has_fresh_session_after_suppression t source label r"
    "hook_report_matches_stale_session ?u source label r = hook_report_matches_stale_session t source label r"
    "hook_report_has_fresh_session_after_stale_session ?u source label r = hook_report_has_fresh_session_after_stale_session t source label r"
    "hook_report_is_stale ?u source seq = hook_report_is_stale t source seq"
    by (simp_all add: suppression_views stale_views core f hook_report_is_stale_def split: option.splits)
  have "explicit_session_start_reclaims_stale_session ?u source label r reason \<Longrightarrow> explicit_session_start_reclaims_stale_session t source label r reason"
    by (rule imported_evidence [OF k terminal_fences.reachable_inv [OF assms(1)]])
  with assms(2) show ?thesis
    by (auto simp: plan_hook_report_admission_def hook_report_sequence_reset_after_retirement_def eqs split: if_splits option.splits)
qed

definition sample_sequenced :: terminal_state where
  "sample_sequenced = handle_event sample_host 1 (HookStateReported (U ''zynk:pi'') (U ''pi'') Working None None (Some 5) 10)
     (terminal_new (U ''t'') (U ''/''))"

definition sample_pane :: pane_import where
  "sample_pane = \<lparr>pi_id = U ''t'', pi_cwd = U ''/'', pi_launch_argv = None, pi_label = None, pi_agent_name = None, pi_managed_agent = None,
     pi_initial_agent = None, pi_session = None\<rparr>"

theorem handoff_opens_no_fence_witness:
  "plan_hook_report_admission (import_terminal sample_host sample_pane (export_hook_retirement sample_sequenced 20) 30)
     (U ''zynk:pi'') (U ''pi'') None None (Some 5) False False = Refuse"
proof (rule handoff_opens_no_fence)
  show "reachable terminal_init (terminal_step sample_host) sample_sequenced"
    unfolding sample_sequenced_def by (intro event_reachable new_reachable)
  have "t_hook_sequences sample_sequenced = t_hook_sequences (snd (set_hook_authority_at sample_host (U ''zynk:pi'') (U ''pi'') Working None None (Some 5) 10
      (terminal_new (U ''t'') (U ''/''))))"
    unfolding sample_sequenced_def handle_event.simps update_fences handle_hook_state_reported_def by (simp only: pi_owner if_False)
  then have "hook_report_is_stale sample_sequenced (U ''zynk:pi'') (Some 5)"
    using first_report_installs(2) [OF pi_owner(1)] by (simp add: hook_report_is_stale_def)
  then show "plan_hook_report_admission sample_sequenced (U ''zynk:pi'') (U ''pi'') None None (Some 5) False False = Refuse"
    by (simp add: plan_hook_report_admission_def)
qed

end
