(* ===== verification/Terminal_Bounds.thy ===== *)
theory Terminal_Bounds
  imports Handoff_Fences
begin

text \<open>
  The shape of every reachable terminal: which owners it can hold, and that what hooks may make it
  remember is bounded.
\<close>

section \<open>Metadata tokens\<close>

lemma patch_entries_keys:
  "set (map fst (snd (patch_entries patch expires_at changed entries))) =
     fold (\<lambda>(key, value) keys. if value \<noteq> None then insert key keys else keys - {key}) patch (set (map fst entries))"
proof (induction patch expires_at changed entries rule: patch_entries.induct)
  case (2 key val rest expires_at changed entries)
  show ?case
  proof (cases val)
    case None
    have "fst ` set (hdel key entries) = fst ` set entries - {key}"
      using arg_cong [OF delete_keys [of key entries], of set] by simp
    with 2(1) [OF None] None show ?thesis by simp
  next
    case (Some v)
    let ?token = "\<lparr>mt_value = v, mt_expires_at = expires_at\<rparr>"
    have ins: "insert key (fst ` set entries) = fst ` set entries" if "hget entries key = Some ?token"
      using that by (intro insert_absorb) (force dest: map_of_SomeD)
    show ?thesis
    proof (cases "hget entries key = Some ?token")
      case True
      with 2(3) [OF Some refl] Some ins show ?thesis by simp
    next
      case False
      with 2(2) [OF Some refl] Some show ?thesis by (simp add: dom_update)
    qed
  qed
qed simp

lemma patch_entries_distinct:
  "distinct (map fst entries) \<Longrightarrow> distinct (map fst (snd (patch_entries patch expires_at changed entries)))"
  by (induction patch expires_at changed entries rule: patch_entries.induct)
    (simp_all add: Let_def distinct_update distinct_delete split: option.splits)

lemma patch_entries_length:
  "distinct (map fst entries) \<Longrightarrow> length (snd (patch_entries patch expires_at changed entries)) = key_count_after_patch patch entries"
  using patch_entries_keys [of patch expires_at changed entries] distinct_card [OF patch_entries_distinct, of entries patch expires_at changed]
  by (simp add: key_count_after_patch_def)

section \<open>What reports may fill\<close>

definition meta :: "terminal_state \<Rightarrow> metadata_tokens \<times> ustr list" where
  "meta t = (t_metadata_tokens t, t_metadata_token_sources t)"

definition bounded :: "terminal_state \<Rightarrow> bool" where
  "bounded t \<longleftrightarrow> distinct (map fst (t_metadata_tokens t)) \<and> length (t_metadata_tokens t) \<le> max_metadata_token_keys \<and>
     distinct (t_metadata_token_sources t) \<and> length (t_metadata_token_sources t) \<le> max_sequence_sources"

lemma bounded_meta: "bounded t \<Longrightarrow> meta u = meta t \<Longrightarrow> bounded u"
  by (simp add: bounded_def meta_def)

lemma meta_fold: "(\<And>x u. x \<in> set xs \<Longrightarrow> meta (f x u) = meta u) \<Longrightarrow> meta (fold f xs t) = meta t"
  by (induction xs arbitrary: t) auto

lemma meta_frames:
  "meta (remember_stale_hook_session source label r at evidence last_loss t) = meta t"
  "meta (forget_stale_hook_session source label r t) = meta t"
  "meta (suppress_hook_report_with_session_ref source label sr reason at t) = meta t"
  "meta (commit_hook_report_admission source adm t) = meta t"
  "meta (observe_process_loss_for_retired_owners H detected exited at t) = meta t"
  "meta (advance_session_owner_epoch now t) = meta t"
  "meta (drop_exited_session H agent exited t) = meta t"
  "meta (clear_expiry_pending_for_hidden_metadata t) = meta t"
  "meta (clear_agent_name t) = meta t"
  "meta (hold_hook_owner_unconfirmed source label at t) = meta t"
  "meta (confirm_pending_hook_owner H detected at t) = meta t"
  "meta (snd (reconcile_managed_agent_at H now exit t)) = meta t"
  "meta (snd (recompute_effective_state H previous now t)) = meta t"
  by (cases adm; auto simp: meta_def remember_stale_hook_session_def forget_stale_hook_session_def suppress_hook_report_with_session_ref_def
      observe_process_loss_for_retired_owners_def advance_session_owner_epoch_def drop_exited_session_def clear_agent_name_def
      clear_expiry_pending_for_hidden_metadata_def hold_hook_owner_unconfirmed_def confirm_pending_hook_owner_def
      reconcile_managed_agent_at_def recompute_effective_state_def Let_def split: option.splits managed_agent_phase.splits)+

lemmas meta_fields [simp] = meta_frames [unfolded meta_def prod.inject]

lemma meta_derived:
  "meta (suppress_hook_report source label reason at t) = meta t"
  "meta (suppress_current_hook_authority reason at t) = meta t"
  "meta (snd (retire_hook_identity reason at t)) = meta t"
  "meta (retire_suppressed_session_after_accepting source label accepted t) = meta t"
  "meta (fold (\<lambda>s. commit_hook_report_admission s adm) ss t) = meta t"
  "meta (snd (finish_mutation H previous ps released now t)) = meta t"
  by (auto simp: meta_fold meta_frames suppress_hook_report_def suppress_current_hook_authority_def retire_hook_identity_def
      retire_suppressed_session_after_accepting_def finish_mutation_def Let_def case_prod_beta meta_def [of "_\<lparr>t_suppressed := _\<rparr>"]
      meta_def [of "_\<lparr>t_hook_identity := _\<rparr>"] meta_def [of "_\<lparr>t_hook_sequences := _\<rparr>"] meta_def [of t] split: option.splits)

lemmas meta_derived_fields [simp] = meta_derived [unfolded meta_def prod.inject]

lemma meta_clear_suppression: "meta (clear_hook_suppression_for_detected_agent H detected at t) = meta t"
proof (cases detected)
  case (Some d)
  have f: "meta (fold (\<lambda>(source, s) u. case su_session_ref s of
      Some r \<Rightarrow> remember_stale_hook_session source (su_agent_label s) r (su_observed_at s) (Some at) (su_last_loss s) u
    | None \<Rightarrow> u) xs u) = meta u" for xs u
    by (rule meta_fold) (auto simp: meta_frames split: option.splits)
  show ?thesis
    unfolding Some clear_hook_suppression_for_detected_agent_def option.case Let_def
    by (simp add: meta_def f [unfolded meta_def prod.inject])
qed (simp add: clear_hook_suppression_for_detected_agent_def)

lemmas meta_clear_suppression_fields [simp] = meta_clear_suppression [unfolded meta_def prod.inject]

lemma meta_exits [simp]:
  "t_metadata_tokens (fst (exit_authority H agent exited now p)) = t_metadata_tokens (fst p)"
  "t_metadata_token_sources (fst (exit_authority H agent exited now p)) = t_metadata_token_sources (fst p)"
  "t_metadata_tokens (fst (exit_identity H agent exited now p)) = t_metadata_tokens (fst p)"
  "t_metadata_token_sources (fst (exit_identity H agent exited now p)) = t_metadata_token_sources (fst p)"
  "t_metadata_tokens (drop_conflicting_authority H agent prev now t) = t_metadata_tokens t"
  "t_metadata_token_sources (drop_conflicting_authority H agent prev now t) = t_metadata_token_sources t"
  by (auto simp: exit_authority_def exit_identity_def drop_conflicting_authority_def Let_def case_prod_beta split: option.splits)

lemma meta_ops:
  "meta (snd (set_detected_state_with_screen_signals_at H agent fs vb exited now t)) = meta t"
  "meta (snd (record_identity_only_hook_report_at H source label r seq now t)) = meta t"
  "meta (snd (set_agent_session_ref_for_session_start_at H source label r seq reason observation now t)) = meta t"
  "meta (snd (clear_hook_authority_with_mutation H osource seq now t)) = meta t"
  "meta (snd (release_agent_with_mutation H source label seq now t)) = meta t"
  "meta (snd (expire_agent_metadata_at H scheduled now t)) = meta t"
proof -
  show "meta (snd (set_detected_state_with_screen_signals_at H agent fs vb exited now t)) = meta t"
    by (simp add: set_detected_state_with_screen_signals_at_def meta_def Let_def case_prod_beta)
  show "meta (snd (record_identity_only_hook_report_at H source label r seq now t)) = meta t"
    by (simp add: record_identity_only_hook_report_at_def meta_def Let_def split: option.splits)
  show "meta (snd (set_agent_session_ref_for_session_start_at H source label r seq reason observation now t)) = meta t"
    by (simp add: set_agent_session_ref_for_session_start_at_def meta_def Let_def case_prod_beta split: option.splits)
  show "meta (snd (clear_hook_authority_with_mutation H osource seq now t)) = meta t"
    by (simp add: clear_hook_authority_with_mutation_def meta_def Let_def case_prod_beta split: option.splits)
  show "meta (snd (release_agent_with_mutation H source label seq now t)) = meta t"
    by (simp add: release_agent_with_mutation_def meta_def Let_def case_prod_beta)
  show "meta (snd (expire_agent_metadata_at H scheduled now t)) = meta t"
    by (simp add: expire_agent_metadata_at_def meta_def Let_def case_prod_beta)
qed

lemma meta_set_authority: "meta (snd (set_hook_authority_at H source label state message r seq now t)) = meta t"
  by (simp add: set_hook_authority_at_def meta_ops Let_def case_prod_beta) (simp add: meta_def)

lemma bounded_accept: "bounded t \<Longrightarrow> bounded (snd (accept_metadata_report source seq tokens t))"
  by (auto simp: accept_metadata_report_def bounded_def Let_def max_sequence_sources_def List.insert_def split: option.splits)

lemma accept_tokens: "t_metadata_tokens (snd (accept_metadata_report source seq tokens t)) = t_metadata_tokens t"
  by (auto simp: accept_metadata_report_def Let_def split: option.splits)

lemma bounded_set_metadata:
  assumes "bounded t"
  shows "bounded (snd (set_agent_metadata H report now t))"
  by (rule bounded_meta [OF bounded_accept [OF assms, of "ar_source report" "ar_seq report" False]])
    (simp add: set_agent_metadata_def meta_def Let_def case_prod_beta)

lemma bounded_report_tokens:
  assumes "bounded t"
  shows "bounded (report_pane_tokens H source seq patch ttl now t)"
proof (cases "key_count_after_patch patch (t_metadata_tokens t) \<le> max_metadata_token_keys")
  case True
  let ?t1 = "snd (accept_metadata_report source seq True t)"
  have t1: "bounded ?t1" using bounded_accept [OF assms] .
  have "bounded (?t1\<lparr>t_metadata_tokens := snd (patch_tokens H patch ttl now (t_metadata_tokens ?t1))\<rparr>)"
    using t1 True by (simp add: bounded_def patch_tokens_def patch_entries_distinct patch_entries_length accept_tokens)
  then have "bounded (?t1\<lparr>t_metadata_tokens := snd (patch_tokens H patch ttl now (t_metadata_tokens ?t1)), t_revision := x\<rparr>)" for x
    by (rule bounded_meta) (simp add: meta_def)
  with assms t1 \<open>bounded (?t1\<lparr>t_metadata_tokens := _\<rparr>)\<close> show ?thesis by (simp add: report_pane_tokens_def Let_def case_prod_beta)
qed (simp add: report_pane_tokens_def assms)

lemma meta_update: "meta (update_terminal_state_at H n now exit update t) = meta (snd (update t))"
  by (auto simp: meta_def update_terminal_state_at_def Let_def case_prod_beta split: option.splits)

lemma bounded_update: "bounded (snd (update t)) \<Longrightarrow> bounded (update_terminal_state_at H n now exit update t)"
  using bounded_meta [OF _ meta_update] .

lemma bounded_event:
  assumes "bounded t"
  shows "bounded (handle_event H n e t)"
proof (cases e)
  case (HookMetadataReported report now)
  then show ?thesis using bounded_set_metadata [OF assms] by (auto intro!: bounded_update)
next
  case (TokensReported source seq patch ttl now)
  then show ?thesis using bounded_report_tokens [OF assms] by simp
next
  case (MetadataExpired scheduled now)
  let ?t1 = "snd (expire_agent_metadata_at H scheduled now t)"
  have t1: "bounded ?t1" using bounded_meta [OF assms meta_ops(6)] .
  define t2 where "t2 = ?t1\<lparr>t_metadata_tokens := snd (expire_at now (t_metadata_tokens ?t1))\<rparr>"
  have "bounded t2"
    using t1 unfolding t2_def expire_at_def Let_def snd_conv bounded_def
    by (auto simp: distinct_keys_filter intro: order_trans [OF length_filter_le])
  then have "bounded (t2\<lparr>t_revision := x\<rparr>)" for x by (rule bounded_meta) (simp add: meta_def)
  with \<open>bounded t2\<close> show ?thesis by (simp add: MetadataExpired expire_terminal_metadata_def t2_def Let_def case_prod_beta)
next
  case (PaneProcessExit at)
  then show ?thesis
    using assms by (auto intro!: bounded_update intro: bounded_meta simp: publish_pane_process_exit_if_agent_def Let_def case_prod_beta meta_ops)
qed (use assms in \<open>auto intro!: bounded_update intro: bounded_meta simp: meta_ops meta_frames meta_set_authority handle_hook_state_reported_def
    set_agent_session_ref_def, auto intro!: bounded_meta [OF assms] simp: meta_def begin_managed_agent_def set_terminal_title_def set_manual_label_def
    clear_manual_label_def set_agent_name_def clear_agent_runtime_identity_after_respawn_def Let_def\<close>)

lemma import_base_tokens [simp]: "t_metadata_tokens (import_base p now) = []" "t_metadata_token_sources (import_base p now) = []"
  by (simp_all add: import_base_def Let_def terminal_new_def with_respawn_shell_on_exit_def with_launch_argv_def set_manual_label_def
      restore_managed_agent_def set_agent_name_def seed_restored_agent_presentation_def set_persisted_agent_session_at_def
      split: option.splits)

lemma fold_insert_set: "distinct m \<Longrightarrow> distinct (fold List.insert xs m) \<and> set (fold List.insert xs m) = set m \<union> set xs"
  by (induction xs arbitrary: m) auto

lemma bounded_import:
  assumes "bounded t"
  shows "bounded (import_terminal H p (export_hook_retirement t captured) imported)"
proof (cases "export_hook_retirement t captured")
  case None
  then show ?thesis by (simp add: import_terminal_eq apply_handoff_hook_retirement_def bounded_def)
next
  case (Some snap)
  then have snap: "rs_metadata_token_sources snap = sort (t_metadata_token_sources t)"
    by (auto simp: export_hook_retirement_def Let_def split: if_splits)
  have m: "meta (restore_suppressed H imported s u) = meta u" "meta (restore_stale H imported x u) = meta u" for s x u
    by (simp_all add: restore_suppressed_def restore_stale_def meta_def Let_def split: option.splits)
  have f: "meta (fold (restore_stale H imported) xs (fold (restore_suppressed H imported) ys u)) = meta u" for xs ys u
    using meta_fold [of xs "restore_stale H imported"] meta_fold [of ys "restore_suppressed H imported" u] m by simp
  have "meta (import_terminal H p (export_hook_retirement t captured) imported) = ([], fold List.insert (sort (t_metadata_token_sources t)) [])"
    by (simp add: Some import_terminal_eq apply_handoff_hook_retirement_def require_imported_hook_identity_confirmation_def
        restore_hook_retirement_def restore_identity_def meta_def f [unfolded meta_def prod.inject] snap Let_def split: option.splits)
  moreover have "length (fold List.insert (sort (t_metadata_token_sources t)) []) = length (t_metadata_token_sources t)"
    using fold_insert_set [of "[]" "sort (t_metadata_token_sources t)"] assms
    by (simp add: bounded_def) (metis distinct_card)
  ultimately show ?thesis
    using assms fold_insert_set [of "[]" "sort (t_metadata_token_sources t)"] by (simp add: bounded_def meta_def)
qed

interpretation terminal_bounds: inductive_system terminal_init "terminal_step H" bounded for H
proof
  show "bounded t" if "terminal_init t" for t using that by (auto simp: terminal_init_def terminal_new_def bounded_def)
  have exits: "bounded (fold (\<lambda>(agent, at) u. snd (set_detected_state_with_screen_signals_at H agent Idle False True at u)) xs u)"
    if "bounded u" for xs u
    using that by (induction xs arbitrary: u) (auto intro: bounded_meta [OF _ meta_ops(1)])
  show "bounded u" if "terminal_step H t u" "bounded t" for t u
    using that by (cases rule: terminal_step.cases) (auto simp: export_with_pending_exits_def intro: bounded_event bounded_import exits)
qed

section \<open>Property\<close>

text \<open>
  C19. Every reachable terminal is well-formed. It holds at most one hook owner; an owner with state is
  never one of the integrations that may only name themselves, and an owner with identity only is
  always one of these; every map of its fences has unique keys; and hooks can fill it with no more than
  32 metadata tokens and 32 sources of sequenced token reports.
\<close>

theorem terminal_well_formed:
  assumes "reachable terminal_init (terminal_step H) t"
  shows "(t_hook_authority t = None \<or> t_hook_identity t = None) \<and>
    (\<forall>a. t_hook_authority t = Some a \<longrightarrow> \<not> session_identity_only_integration (ha_source a) (ha_agent_label a)) \<and>
    (\<forall>i. t_hook_identity t = Some i \<longrightarrow> session_identity_only_integration (hi_source i) (hi_agent_label i)) \<and>
    distinct (map fst (t_suppressed t)) \<and> distinct (map fst (t_stale t)) \<and> distinct (map fst (t_hook_sequences t)) \<and>
    distinct (map fst (t_metadata_tokens t)) \<and> length (t_metadata_tokens t) \<le> 32 \<and> length (t_metadata_token_sources t) \<le> 32"
  using owners_okD [OF terminal_owners.reachable_inv [OF assms]] terminal_keys.reachable_inv [OF assms] terminal_bounds.reachable_inv [OF assms]
  by (simp add: keyed_def bounded_def max_metadata_token_keys_def max_sequence_sources_def)

theorem terminal_well_formed_witness: "t_hook_identity sample_reported = None \<and> length (t_metadata_tokens sample_reported) \<le> 32"
  using terminal_well_formed [OF sample_reachable(1)] sample_reported_authority by simp

end
