(* ===== verification/Recovery.thy ===== *)
theory Recovery
  imports Embedding Receipt
begin

text \<open>
  Recovery of orphaned messages at a cold server start, \<open>src/zynk/db.rs\<close>. A message is stored before
  its first delivery event; one that still has none when it is older than a grace period lost its
  sender and is recorded as failed. Servers share the database, so every orphan is claimed in a
  transaction of its own that rechecks the absence of events.
\<close>

section \<open>Statements\<close>

definition orphan_grace :: int where
  "orphan_grace = 300"

definition has_event :: "db \<Rightarrow> ustr \<Rightarrow> bool" where
  "has_event d mid \<longleftrightarrow> (\<exists>e \<in> set (delivery_events d). e_message e = mid)"

definition sql_claim_orphan :: "ustr \<Rightarrow> int option stmt" where
  "sql_claim_orphan mid d =
     (case find (\<lambda>m. m_id m = mid \<and> \<not> has_event d (m_id m)) (messages d) of
        None \<Rightarrow> Inr (d, None)
      | Some m \<Rightarrow>
          Inr (d\<lparr>messages := map (\<lambda>m. if m_id m = mid \<and> \<not> has_event d (m_id m)
                  then m\<lparr>m_delivery_seq := m_delivery_seq m + 1\<rparr> else m) (messages d)\<rparr>,
               Some (m_delivery_seq m + 1)))"

definition sql_select_orphans :: "ustr \<Rightarrow> ustr list stmt" where
  "sql_select_orphans cutoff d =
     Inr (d, map m_id (filter (\<lambda>m. m_created_at m < cutoff \<and> \<not> has_event d (m_id m)) (messages d)))"

section \<open>Operations\<close>

definition fail_orphan_in_transaction :: "env \<Rightarrow> ustr \<Rightarrow> bool dbm" where
  "fail_orphan_in_transaction E mid =
     dbind (exec E (sql_claim_orphan mid)) (\<lambda>claimed.
       case claimed of
         None \<Rightarrow> dreturn False
       | Some seq \<Rightarrow>
           dbind (draw_id E (U ''evt'')) (\<lambda>i.
           with_now E (\<lambda>now.
           dbind (exec E (sql_insert_event
             \<lparr>e_id = i, e_message = mid, e_type = U ''failed'', e_proof = U ''system.recovery'', e_seq = seq,
              e_timestamp = now, e_payload = U ''{\"recovery\":\"orphaned_message_without_event\"}''\<rparr>)) (\<lambda>_.
           dreturn True))))"

definition fail_orphan_message :: "env \<Rightarrow> ustr \<Rightarrow> bool dbm" where
  "fail_orphan_message E mid =
     dbind (begin_immediate E) (\<lambda>_ c.
       (case fail_orphan_in_transaction E mid c of
          (Inr True, c1) \<Rightarrow>
            (case commit E c1 of
               (Inr _, c2) \<Rightarrow> (Inr True, c2)
             | (Inl e, c2) \<Rightarrow> (Inl e, snd (rollback E c2)))
        | (Inr False, c1) \<Rightarrow> (Inr False, snd (rollback E c1))
        | (Inl e, c1) \<Rightarrow> (Inl e, snd (rollback E c1))))"

fun fail_orphans :: "env \<Rightarrow> ustr list \<Rightarrow> unit dbm" where
  "fail_orphans E [] = dreturn ()"
| "fail_orphans E (mid # rest) = dbind (fail_orphan_message E mid) (\<lambda>_. fail_orphans E rest)"

definition recovery_cutoff :: "env \<Rightarrow> int \<Rightarrow> conn \<Rightarrow> ustr" where
  "recovery_cutoff E grace c = rfc3339_utc (max 0 (unix_secs E (stmts c)) - grace)"

definition recover_orphan_messages_older_than :: "env \<Rightarrow> int \<Rightarrow> unit dbm" where
  "recover_orphan_messages_older_than E grace c =
     dbind (exec E (sql_select_orphans (recovery_cutoff E grace c))) (fail_orphans E) c"

definition recover_orphan_messages :: "env \<Rightarrow> unit dbm" where
  "recover_orphan_messages E = recover_orphan_messages_older_than E orphan_grace"

section \<open>One orphan\<close>

definition recovery_event :: "event_row \<Rightarrow> bool" where
  "recovery_event e \<longleftrightarrow> e_type e = U ''failed'' \<and> e_proof e = U ''system.recovery''"

text \<open>What the claimed transaction of one orphan leaves behind.\<close>

definition orphan_failed :: "ustr \<Rightarrow> db \<Rightarrow> db \<Rightarrow> bool" where
  "orphan_failed mid d0 d \<longleftrightarrow> store_inv d \<and> history d0 mid = [] \<and> mid \<in> m_id ` set (messages d0) \<and>
     (\<exists>e. d = add_event e d0 \<and> e_message e = mid \<and> recovery_event e)"

lemma has_event_history: "has_event d mid \<longleftrightarrow> history d mid \<noteq> []"
  by (auto simp: has_event_def history_def events_of_def filter_empty_conv)

lemma claim_orphan:
  assumes "sql_claim_orphan mid d = Inr (d', r)"
  shows "case r of
    None \<Rightarrow> d' = d \<and> (mid \<in> m_id ` set (messages d) \<longrightarrow> history d mid \<noteq> [])
  | Some k \<Rightarrow> history d mid = [] \<and> d' = d\<lparr>messages := map (bump_delivery mid) (messages d)\<rparr> \<and>
      (\<exists>m \<in> set (messages d). m_id m = mid \<and> k = m_delivery_seq m + 1)"
proof (cases "find (\<lambda>m. m_id m = mid \<and> \<not> has_event d (m_id m)) (messages d)")
  case None
  then have "\<forall>m \<in> set (messages d). m_id m = mid \<longrightarrow> history d mid \<noteq> []"
    by (auto simp: find_None_iff has_event_history)
  moreover have "d' = d" "r = None" using assms None by (simp_all add: sql_claim_orphan_def)
  ultimately show ?thesis by auto
next
  case (Some m)
  then have m: "m \<in> set (messages d)" "m_id m = mid" "history d mid = []"
    by (auto dest!: find_SomeD simp: has_event_history)
  have "(if m_id x = mid \<and> \<not> has_event d (m_id x) then x\<lparr>m_delivery_seq := m_delivery_seq x + 1\<rparr> else x) =
      bump_delivery mid x" for x
    using m(3) by (auto simp: bump_delivery_def has_event_history)
  with assms Some m show ?thesis by (auto simp: sql_claim_orphan_def)
qed

lemma triple_fail_orphan:
  "triple (\<lambda>d. d = d0 \<and> store_inv d) (fail_orphan_in_transaction E mid)
     (\<lambda>b d. if b then orphan_failed mid d0 d
            else d = d0 \<and> (mid \<in> m_id ` set (messages d0) \<longrightarrow> history d0 mid \<noteq> []))"
    (is "triple ?P _ ?Q")
proof -
  let ?claimed = "\<lambda>r d. store_inv d0 \<and> (case r of
      None \<Rightarrow> d = d0 \<and> (mid \<in> m_id ` set (messages d0) \<longrightarrow> history d0 mid \<noteq> [])
    | Some k \<Rightarrow> history d0 mid = [] \<and> d = d0\<lparr>messages := map (bump_delivery mid) (messages d0)\<rparr> \<and>
        (\<exists>m \<in> set (messages d0). m_id m = mid \<and> k = m_delivery_seq m + 1))"
  have claim: "triple ?P (exec E (sql_claim_orphan mid)) ?claimed"
    using claim_orphan [of mid d0] by (intro triple_exec) blast
  have ins: "triple (?claimed (Some k)) (exec E (sql_insert_event e)) (\<lambda>_. ?Q True)"
    if "e_message e = mid" "recovery_event e" "e_seq e = k" for k e
  proof (rule triple_exec)
    fix d d' x
    assume c: "?claimed (Some k) d" and i: "sql_insert_event e d = Inr (d', x)"
    then obtain m where m: "m \<in> set (messages d0)" "m_id m = mid" "k = m_delivery_seq m + 1" by auto
    have "d' = add_event e d0 \<and> store_inv d'"
    proof (rule insert_event_appends [OF _ that(1) m(1,2), of _ _ Failed])
      show "sql_insert_event e (d0\<lparr>messages := map (bump_delivery mid) (messages d0)\<rparr>) = Inr (d', x)"
        using c i by simp
      show "may_append (history d0 mid) Failed" using c by (simp add: may_append_def)
      show "e_proof e \<noteq> legacy_receipt_proof_source"
        using that(2) by (simp add: recovery_event_def legacy_receipt_proof_source_def U_def)
    qed (use that m c in \<open>simp_all add: recovery_event_def\<close>)
    moreover have "mid \<in> m_id ` set (messages d0)" using m by blast
    ultimately show "?Q True d'" using c that by (auto simp: orphan_failed_def)
  qed
  show ?thesis
    unfolding fail_orphan_in_transaction_def
  proof (rule triple_bind [OF claim], rule triple_option)
    fix r :: "int option"
    assume "r = None"
    then show "triple (?claimed r) (dreturn False) ?Q" by (intro triple_return) simp
  next
    fix r :: "int option" and k
    assume r: "r = Some k"
    show "triple (?claimed r) (dbind (draw_id E (U ''evt'')) (\<lambda>i. with_now E (\<lambda>now.
        dbind (exec E (sql_insert_event
             \<lparr>e_id = i, e_message = mid, e_type = U ''failed'', e_proof = U ''system.recovery'', e_seq = k,
              e_timestamp = now, e_payload = U ''{\"recovery\":\"orphaned_message_without_event\"}''\<rparr>)) (\<lambda>_.
        dreturn True)))) ?Q"
      unfolding r
      by (rule triple_bind [OF triple_draw_id [where Q = "\<lambda>_. ?claimed (Some k)"]], assumption, rule triple_with_now,
          rule triple_bind [OF ins]) (auto simp: recovery_event_def intro: triple_return)
  qed
qed

lemma fail_orphan_message_cases:
  assumes "txn c = None" and "store_inv (disk c)" and run: "fail_orphan_message E mid c = (r, c')"
  shows "if r = Inr True then txn c' = None \<and> orphan_failed mid (disk c) (disk c')
    else disk c' = disk c \<and> (r = Inr False \<longrightarrow> mid \<in> m_id ` set (messages (disk c)) \<longrightarrow> history (disk c) mid \<noteq> [])"
proof -
  obtain rb c0 where b: "begin_immediate E c = (rb, c0)" by fastforce
  note bc = begin_cases [OF b assms(1)]
  show ?thesis
  proof (cases rb)
    case (Inl e)
    with run b bc show ?thesis by (auto simp: fail_orphan_message_def dbind_def)
  next
    case (Inr u)
    then have c0: "txn c0 = Some (disk c)" "disk c0 = disk c" using bc by auto
    obtain rw c1 where w: "fail_orphan_in_transaction E mid c0 = (rw, c1)" by fastforce
    note wt = tripleD [OF triple_fail_orphan c0(1) conjI [OF refl assms(2)] w]
    consider e where "rw = Inl e" | "rw = Inr False" | "rw = Inr True" by (cases rw) auto
    then show ?thesis
    proof cases
      case 3
      with wt obtain d where d: "txn c1 = Some d" "orphan_failed mid (disk c) d" "disk c1 = disk c"
        using c0(2) by auto
      obtain rc c2 where cm: "commit E c1 = (rc, c2)" by fastforce
      from run have "(r, c') = (case rc of Inr _ \<Rightarrow> (Inr True, c2) | Inl e \<Rightarrow> (Inl e, snd (rollback E c2)))"
        using b Inr w 3 cm by (auto simp: fail_orphan_message_def dbind_def split: sum.splits)
      with commit_cases [OF cm d(1)] d show ?thesis by (cases rc) (auto simp: rollback_frame)
    next
      case 2
      then have "r = Inr False" "c' = snd (rollback E c1)"
        using run b Inr w by (simp_all add: fail_orphan_message_def dbind_def)
      with 2 wt c0(2) show ?thesis by (auto simp: rollback_frame)
    next
      case (1 e)
      then have "r = Inl e" "c' = snd (rollback E c1)"
        using run b Inr w by (simp_all add: fail_orphan_message_def dbind_def)
      with 1 wt c0(2) show ?thesis by (simp add: rollback_frame)
    qed
  qed
qed

section \<open>All orphans\<close>

definition recovered :: "ustr set \<Rightarrow> db \<Rightarrow> db \<Rightarrow> bool" where
  "recovered S d d' \<longleftrightarrow> store_inv d' \<and>
     (\<exists>es. d' = fold add_event es d \<and> distinct (map e_message es) \<and>
        (\<forall>e \<in> set es. recovery_event e \<and> e_message e \<in> S \<and> history d (e_message e) = []))"

lemma recovered_refl: "store_inv d \<Longrightarrow> recovered S d d"
  unfolding recovered_def by (intro conjI exI [of _ "[]"]) simp_all

lemma history_fold_events:
  "history (fold add_event es d) i = history d i @ map e_type (filter (\<lambda>e. e_message e = i) es)"
  by (induction es arbitrary: d) (simp_all add: history_add_event)

lemma message_ids_fold_events: "m_id ` set (messages (fold add_event es d)) = m_id ` set (messages d)"
  by (induction es arbitrary: d) (simp_all add: add_event_def image_image)

lemma recovered_step:
  assumes "orphan_failed mid d d1" and r: "recovered S d1 d2"
  shows "recovered (insert mid S) d d2"
proof -
  from assms(1) obtain e where e: "d1 = add_event e d" "e_message e = mid" "recovery_event e" "history d mid = []"
    unfolding orphan_failed_def by blast
  from r obtain es where es: "d2 = fold add_event es d1" "distinct (map e_message es)"
    "\<forall>x \<in> set es. recovery_event x \<and> e_message x \<in> S \<and> history d1 (e_message x) = []" "store_inv d2"
    unfolding recovered_def by blast
  have new: "e_message x \<noteq> mid \<and> history d (e_message x) = []" if "x \<in> set es" for x
    using es(3) that e(2) by (auto simp: e(1) history_add_event split: if_splits)
  have "d2 = fold add_event (e # es) d" by (simp add: es(1) e(1))
  moreover have "mid \<notin> e_message ` set es" using new by blast
  then have "distinct (map e_message (e # es))" using es(2) e(2) by simp
  moreover have "\<forall>x \<in> set (e # es). recovery_event x \<and> e_message x \<in> insert mid S \<and> history d (e_message x) = []"
    using new es(3) e by auto
  ultimately show ?thesis unfolding recovered_def using es(4) by blast
qed

lemma recovered_mono: "recovered S d d' \<Longrightarrow> S \<subseteq> T \<Longrightarrow> recovered T d d'"
  unfolding recovered_def by blast

text \<open>A message has its old history, or it was an orphan and is now failed, once.\<close>

lemma recovered_history:
  assumes "recovered S d d'"
  shows "history d' i = history d i \<or> i \<in> S \<and> history d i = [] \<and> history d' i = [U ''failed'']"
proof -
  from assms obtain es where es: "d' = fold add_event es d" "distinct (map e_message es)"
    "\<forall>x \<in> set es. recovery_event x \<and> e_message x \<in> S \<and> history d (e_message x) = []"
    unfolding recovered_def by blast
  show ?thesis
  proof (cases "i \<in> e_message ` set es")
    case True
    then obtain e where e: "e \<in> set es" "e_message e = i" by auto
    have "filter (\<lambda>x. e_message x = i) es = [e]"
      using es(2) e
    proof (induction es)
      case (Cons x xs)
      then show ?case
        by (cases "x = e") (auto simp: filter_empty_conv intro: rev_image_eqI)
    qed simp
    with es(3) e show ?thesis by (auto simp: es(1) history_fold_events recovery_event_def)
  next
    case False
    then have "filter (\<lambda>x. e_message x = i) es = []" by (auto simp: filter_empty_conv)
    then show ?thesis by (simp add: es(1) history_fold_events)
  qed
qed

lemma fail_orphan_message_open:
  assumes "txn c = Some d" and "fail_orphan_message E mid c = (r, c')"
  shows "(\<exists>e. r = Inl e) \<and> disk c' = disk c"
  using assms
  by (auto simp: fail_orphan_message_def dbind_def begin_immediate_def attempt_def Let_def
      split: option.splits if_splits)

lemma fail_orphans_cases:
  assumes "store_inv (disk c)" and "fail_orphans E ids c = (r, c')"
  shows "recovered (set ids) (disk c) (disk c') \<and>
    (r = Inr () \<longrightarrow> (\<forall>i \<in> set ids. i \<in> m_id ` set (messages (disk c)) \<longrightarrow> history (disk c') i \<noteq> []))"
  using assms
proof (induction ids arbitrary: c)
  case Nil
  then show ?case by (auto simp: dreturn_def recovered_refl)
next
  case (Cons mid rest)
  obtain r1 c1 where one: "fail_orphan_message E mid c = (r1, c1)" by fastforce
  show ?case
  proof (cases "r1 = Inr True")
    case True
    have none: "txn c = None" using fail_orphan_message_open [OF _ one] True by (cases "txn c") auto
    have f: "orphan_failed mid (disk c) (disk c1)"
      using fail_orphan_message_cases [OF none Cons.prems(1) one] True by simp
    then have inv1: "store_inv (disk c1)" and ids: "m_id ` set (messages (disk c1)) = m_id ` set (messages (disk c))"
      by (auto simp: orphan_failed_def add_event_def image_image)
    have "fail_orphans E rest c1 = (r, c')" using Cons.prems(2) one True by (simp add: dbind_def)
    note IH = Cons.IH [OF inv1 this]
    have "history (disk c1) mid \<noteq> []" using f by (auto simp: orphan_failed_def history_add_event)
    then have "history (disk c') mid \<noteq> []" using recovered_history [OF conjunct1 [OF IH], of mid] by auto
    with IH ids recovered_step [OF f conjunct1 [OF IH]] show ?thesis by auto
  next
    case False
    have same: "disk c1 = disk c" and
      old: "r1 = Inr False \<longrightarrow> mid \<in> m_id ` set (messages (disk c)) \<longrightarrow> history (disk c) mid \<noteq> []"
      using fail_orphan_message_cases [OF _ Cons.prems(1) one] fail_orphan_message_open [OF _ one] False
      by (cases "txn c"; auto)+
    show ?thesis
    proof (cases r1)
      case (Inl e)
      with Cons.prems one same show ?thesis by (auto simp: dbind_def recovered_refl)
    next
      case (Inr b)
      with False have b: "r1 = Inr False" by simp
      have "fail_orphans E rest c1 = (r, c')" using Cons.prems(2) one b by (simp add: dbind_def)
      from Cons.IH [OF _ this] Cons.prems(1) same
      have IH: "recovered (set rest) (disk c) (disk c')"
        "r = Inr () \<longrightarrow> (\<forall>i \<in> set rest. i \<in> m_id ` set (messages (disk c)) \<longrightarrow> history (disk c') i \<noteq> [])"
        by simp_all
      have "mid \<in> m_id ` set (messages (disk c)) \<longrightarrow> history (disk c') mid \<noteq> []"
        using old b recovered_history [OF IH(1), of mid] by auto
      with IH(2) recovered_mono [OF IH(1), of "set (mid # rest)"] show ?thesis by auto
    qed
  qed
qed

definition orphans :: "ustr \<Rightarrow> db \<Rightarrow> ustr set" where
  "orphans cutoff d = {m_id m |m. m \<in> set (messages d) \<and> m_created_at m < cutoff \<and> history d (m_id m) = []}"

lemma recover_orphans_cases:
  assumes "txn c = None" and "store_inv (disk c)" and run: "recover_orphan_messages_older_than E grace c = (r, c')"
  shows "recovered (orphans (recovery_cutoff E grace c) (disk c)) (disk c) (disk c') \<and>
    (r = Inr () \<longrightarrow> (\<forall>i \<in> orphans (recovery_cutoff E grace c) (disk c). history (disk c') i \<noteq> []))"
proof -
  let ?cut = "recovery_cutoff E grace c"
  obtain rs c1 where q: "exec E (sql_select_orphans ?cut) c = (rs, c1)" by fastforce
  have same: "disk c1 = disk c"
    and ids: "\<And>ids. rs = Inr ids \<Longrightarrow> set ids = orphans ?cut (disk c)"
    using q assms(1)
    by (auto simp: exec_def attempt_def Let_def visible_def store_def sql_select_orphans_def orphans_def
        has_event_history split: option.splits if_splits)
  show ?thesis
  proof (cases rs)
    case (Inl e)
    with run q same assms(2) show ?thesis
      by (auto simp: recover_orphan_messages_older_than_def dbind_def recovered_refl)
  next
    case (Inr l)
    then have "fail_orphans E l c1 = (r, c')"
      using run q by (simp add: recover_orphan_messages_older_than_def dbind_def)
    moreover have "i \<in> m_id ` set (messages (disk c))" if "i \<in> orphans ?cut (disk c)" for i
      using that by (auto simp: orphans_def)
    ultimately show ?thesis
      using fail_orphans_cases [of c1 E l r c'] assms(2) ids [OF Inr] by (simp add: same)
  qed
qed

section \<open>Properties\<close>

text \<open>
  C6. Orphan recovery fails a lost message once and leaves live ones alone. Whatever statements
  fail, every message keeps its delivery history, except that one without any event that was
  created before the cutoff may get the single event \<open>failed\<close>; all other columns and tables stay as
  they are, up to the counter of the events. A recovery that reports success has failed every such
  message. In particular a message stamped at most five minutes before the clock reading of the
  recovering server, such as one whose sender is still typing it, is never failed.
\<close>

theorem orphan_recovery_spares_live_messages:
  assumes "txn c = None" and "store_inv (disk c)" and "m \<in> set (messages (disk c))"
    and run: "recover_orphan_messages E c = (r, c')"
    and now: "unix_secs E (stmts c) = int now" "300 \<le> now" "now < 253402300800"
  shows "store_inv (disk c') \<and>
    (\<exists>es. disk c' = fold add_event es (disk c) \<and> (\<forall>e \<in> set es. e_type e = U ''failed'' \<and> e_proof e = U ''system.recovery'')) \<and>
    (history (disk c') (m_id m) = history (disk c) (m_id m) \<or>
       history (disk c) (m_id m) = [] \<and> m_created_at m < rfc3339_utc (int (now - 300)) \<and>
       history (disk c') (m_id m) = [U ''failed'']) \<and>
    (r = Inr () \<and> history (disk c) (m_id m) = [] \<and> m_created_at m < rfc3339_utc (int (now - 300)) \<longrightarrow>
       history (disk c') (m_id m) = [U ''failed'']) \<and>
    (m_created_at m = rfc3339_utc (int t) \<and> now - 300 \<le> t \<and> t < 253402300800 \<longrightarrow>
       history (disk c') (m_id m) = history (disk c) (m_id m))"
proof -
  have cut: "recovery_cutoff E orphan_grace c = rfc3339_utc (int (now - 300))"
    using now by (simp add: recovery_cutoff_def orphan_grace_def of_nat_diff)
  note rec = recover_orphans_cases [OF assms(1,2) run [unfolded recover_orphan_messages_def], unfolded cut]
  let ?S = "orphans (rfc3339_utc (int (now - 300))) (disk c)"
  have mS: "m_id m \<in> ?S \<longleftrightarrow> history (disk c) (m_id m) = [] \<and> m_created_at m < rfc3339_utc (int (now - 300))"
  proof -
    have "inj_on m_id (set (messages (disk c)))" using assms(2) by (simp add: store_inv_def msg_refs_def distinct_map)
    then show ?thesis using assms(3) by (auto simp: orphans_def dest: inj_onD)
  qed
  have h: "history (disk c') (m_id m) = history (disk c) (m_id m) \<or>
      m_id m \<in> ?S \<and> history (disk c) (m_id m) = [] \<and> history (disk c') (m_id m) = [U ''failed'']"
    by (rule recovered_history [OF conjunct1 [OF rec]])
  have "store_inv (disk c') \<and> (\<exists>es. disk c' = fold add_event es (disk c) \<and>
      (\<forall>e \<in> set es. e_type e = U ''failed'' \<and> e_proof e = U ''system.recovery''))"
    using rec unfolding recovered_def recovery_event_def by blast
  moreover have "history (disk c') (m_id m) \<noteq> []" if "r = Inr ()" "m_id m \<in> ?S" using rec that by blast
  moreover have "\<not> m_created_at m < rfc3339_utc (int (now - 300))"
    if "m_created_at m = rfc3339_utc (int t)" "now - 300 \<le> t" "t < 253402300800"
    using that rfc3339_utc_less [of t "now - 300"] now by simp
  ultimately show ?thesis using h mS by auto
qed

definition lost_message :: message_row where
  "lost_message = sample_message\<lparr>m_delivery_seq := 0, m_created_at := U ''1970-01-01T00:00:00Z''\<rparr>"

definition lost_db :: db where
  "lost_db = sample_db\<lparr>messages := [lost_message], delivery_events := []\<rparr>"

definition restart_env :: env where
  "restart_env = (sample_env (\<lambda>_. None))\<lparr>unix_secs := \<lambda>_. 301\<rparr>"

theorem orphan_recovery_spares_live_messages_witness:
  "history (disk (snd (recover_orphan_messages restart_env \<lparr>disk = lost_db, txn = None, stmts = 0, id_seq = 9\<rparr>))) (U ''m'')
     = [U ''failed'']"
proof -
  let ?c = "\<lparr>disk = lost_db, txn = None, stmts = 0, id_seq = 9\<rparr>"
  have "store_inv lost_db" unfolding store_inv_def by (intro conjI) (code_simp+)
  moreover have "fst (recover_orphan_messages restart_env ?c) = Inr ()" by code_simp
  then have "recover_orphan_messages restart_env ?c = (Inr (), snd (recover_orphan_messages restart_env ?c))"
    by (metis prod.collapse)
  moreover have "unix_secs restart_env (stmts ?c) = int 301" by (simp add: restart_env_def)
  moreover have "history lost_db (m_id lost_message) = []" "m_created_at lost_message < rfc3339_utc (int (301 - 300))"
    "m_id lost_message = U ''m''" "lost_message \<in> set (messages lost_db)"
    by code_simp+
  ultimately show ?thesis
    using orphan_recovery_spares_live_messages [of ?c lost_message restart_env "Inr ()" _ 301] by simp
qed

end
