(* ===== verification/Inbox.thy ===== *)
theory Inbox
  imports Recovery
begin

text \<open>
  The read-only queries on the message store, \<open>src/zynk/inbox.rs\<close>: the transcript of a conversation,
  the messages addressed to an agent, and the messages that share a trace id. Each is scoped to the
  socket of one runtime. Opening the database is process I/O: its outcome, an error or a connection
  that refuses writes, is an argument. SQLite leaves the order of rows with equal sort keys open;
  the model takes the order of insertion, which no theorem below depends on.
\<close>

section \<open>The projection of a message\<close>

record thread_message =
  tm_message_id :: ustr
  tm_conversation_id :: ustr
  tm_conversation_seq :: int
  tm_derived_parent_id :: "ustr option"
  tm_message_type :: "ustr option"
  tm_from :: ustr
  tm_to :: ustr
  tm_workspace_id :: ustr
  tm_tab_id :: ustr
  tm_branch :: "ustr option"
  tm_cwd :: "ustr option"
  tm_created_at :: ustr
  tm_body :: ustr
  tm_trace_id :: "ustr option"
  tm_delivery_status :: "ustr option"

type_synonym joined_row = "message_row \<times> participant_row \<times> participant_row"

definition message_join :: "db \<Rightarrow> joined_row list" where
  "message_join d =
     concat (map (\<lambda>m.
       concat (map (\<lambda>fp. map (\<lambda>tp. (m, fp, tp)) (filter (\<lambda>p. pt_id p = m_to m) (participants d)))
         (filter (\<lambda>p. pt_id p = m_from m) (participants d)))) (messages d))"

definition latest_delivery_status :: "db \<Rightarrow> ustr \<Rightarrow> ustr option" where
  "latest_delivery_status d mid = map_option e_type (max_by_key e_seq (events_of d mid))"

definition row_to_message :: "env \<Rightarrow> db \<Rightarrow> joined_row \<Rightarrow> thread_message" where
  "row_to_message E d r =
     (case r of (m, fp, tp) \<Rightarrow>
       \<lparr>tm_message_id = m_id m, tm_conversation_id = m_conversation m, tm_conversation_seq = m_seq m,
        tm_derived_parent_id = m_parent m, tm_message_type = m_type m, tm_from = pt_label fp,
        tm_to = pt_label tp, tm_workspace_id = m_workspace m, tm_tab_id = m_tab m, tm_branch = m_branch m,
        tm_cwd = m_cwd m, tm_created_at = m_created_at m, tm_body = m_body m,
        tm_trace_id = json_extract E (m_meta m) (U ''$.trace_id''),
        tm_delivery_status = latest_delivery_status d (m_id m)\<rparr>)"

section \<open>Responses\<close>

datatype read_status = ReadOk | ReadFailed

record thread_response =
  th_result :: read_status
  th_command :: ustr
  th_response_type :: "ustr option"
  th_conversation_id :: "ustr option"
  th_socket_namespace :: "ustr option"
  th_count :: "nat option"
  th_messages :: "thread_message list option"
  th_code :: "ustr option"
  th_message :: "ustr option"
  th_context :: "json option"
  th_next :: ustr

definition thread_command :: ustr where
  "thread_command = U ''zynk thread''"

definition thread_ok :: "ustr \<Rightarrow> ustr \<Rightarrow> thread_message list \<Rightarrow> thread_response" where
  "thread_ok conversation_id socket msgs =
     \<lparr>th_result = ReadOk, th_command = thread_command, th_response_type = Some (U ''zynk_thread_result''),
      th_conversation_id = Some conversation_id, th_socket_namespace = Some socket,
      th_count = Some (length msgs), th_messages = Some msgs, th_code = None, th_message = None,
      th_context = None,
      th_next = (if length msgs = 0 then U ''no messages in this conversation for the active runtime scope''
        else U ''ordered transcript (conversation_seq ascending; follow derived_parent_id)'')\<rparr>"

definition thread_failed :: "ustr \<Rightarrow> ustr \<Rightarrow> json \<Rightarrow> ustr \<Rightarrow> thread_response" where
  "thread_failed code message context hint =
     \<lparr>th_result = ReadFailed, th_command = thread_command, th_response_type = None, th_conversation_id = None,
      th_socket_namespace = None, th_count = None, th_messages = None, th_code = Some code,
      th_message = Some message, th_context = Some context, th_next = hint\<rparr>"

definition thread_missing_selector :: thread_response where
  "thread_missing_selector =
     thread_failed (U ''invalid_filter'') (U ''thread requires a <conversation_id> or <message_id>'') (JObj [])
       (U ''pass a conversation id or a message id'')"

definition thread_not_found :: "ustr \<Rightarrow> thread_response" where
  "thread_not_found selector =
     thread_failed (U ''thread_not_found'')
       (U ''no conversation or message '' @ [39] @ selector @ [39] @ U '' in the active runtime scope'')
       (JObj [(U ''selector'', JStr selector)])
       (U ''check the id, or that it belongs to this runtime (socket_namespace)'')"

text \<open>\<open>[39]\<close> is the apostrophe and \<open>[8594]\<close> the arrow of the human output.\<close>

definition message_line :: "thread_message \<Rightarrow> ustr" where
  "message_line m = tm_message_id m @ U ''  '' @ tm_from m @ [8594] @ tm_to m @ U ''  ['' @
     unwrap_or (tm_delivery_status m) (U ''?'') @ U '']  '' @ unwrap_or (tm_message_type m) (U ''-'') @
     [10] @ U ''    '' @ tm_body m @ [10]"

definition thread_to_human :: "thread_response \<Rightarrow> ustr" where
  "thread_to_human r =
     (if th_result r = ReadFailed
      then U ''thread failed ['' @ unwrap_or (th_code r) (U ''error'') @ U '']: '' @ unwrap_or (th_message r) []
      else let msgs = unwrap_or (th_messages r) []
           in U ''conversation '' @ unwrap_or (th_conversation_id r) (U ''?'') @ [10] @
              concat (map (\<lambda>m. U ''#'' @ dec_int (tm_conversation_seq m) @ U ''  '' @ message_line m) msgs) @
              dec (length msgs) @ U '' message(s)'')"

record inbox_response =
  ib_result :: read_status
  ib_command :: ustr
  ib_response_type :: "ustr option"
  ib_agent :: "ustr option"
  ib_socket_namespace :: "ustr option"
  ib_count :: "nat option"
  ib_messages :: "thread_message list option"
  ib_code :: "ustr option"
  ib_message :: "ustr option"
  ib_context :: "json option"
  ib_identity_verification :: "codex_hint_verification option"
  ib_next :: ustr

definition inbox_command :: ustr where
  "inbox_command = U ''zynk inbox''"

definition inbox_ok :: "ustr \<Rightarrow> ustr \<Rightarrow> thread_message list \<Rightarrow> inbox_response" where
  "inbox_ok agent socket msgs =
     \<lparr>ib_result = ReadOk, ib_command = inbox_command, ib_response_type = Some (U ''zynk_inbox_result''),
      ib_agent = Some agent, ib_socket_namespace = Some socket, ib_count = Some (length msgs),
      ib_messages = Some msgs, ib_code = None, ib_message = None, ib_context = None,
      ib_identity_verification = None,
      ib_next = (if length msgs = 0 then U ''no messages addressed to this agent in the active runtime scope''
        else U ''messages addressed to you (most recent first) with their honest delivery_status'')\<rparr>"

definition inbox_failed :: "ustr \<Rightarrow> ustr \<Rightarrow> json \<Rightarrow> ustr \<Rightarrow> inbox_response" where
  "inbox_failed code message context hint =
     \<lparr>ib_result = ReadFailed, ib_command = inbox_command, ib_response_type = None, ib_agent = None,
      ib_socket_namespace = None, ib_count = None, ib_messages = None, ib_code = Some code,
      ib_message = Some message, ib_context = Some context, ib_identity_verification = None, ib_next = hint\<rparr>"

definition inbox_unidentified_caller :: "ustr \<Rightarrow> inbox_response" where
  "inbox_unidentified_caller detail =
     inbox_failed (U ''caller_unidentified'') detail (JObj [])
       (U ''pass --agent <me>, or run from an agent pane so ZYNK_PANE_ID resolves your identity'')"

text \<open>The error response of the server is its code and message.\<close>

definition inbox_protocol_mismatch :: "ustr \<Rightarrow> ustr \<Rightarrow> json \<Rightarrow> inbox_response" where
  "inbox_protocol_mismatch code message context =
     inbox_failed code message context (U ''restart or upgrade zynk as directed by the protocol mismatch'')"

definition inbox_identity_conflict :: "caller_identity_conflict \<Rightarrow> inbox_response" where
  "inbox_identity_conflict conflict =
     inbox_failed (cic_code conflict) (cic_message conflict) (JObj [])
       (U ''run the command from the pane whose hook-authoritative Codex session matches the process hints'')"

definition with_identity_verification :: "inbox_response \<Rightarrow> codex_hint_verification \<Rightarrow> inbox_response" where
  "with_identity_verification r verification =
     (if verification \<noteq> NotPresent then r\<lparr>ib_identity_verification := Some verification\<rparr> else r)"

definition inbox_to_human :: "inbox_response \<Rightarrow> ustr" where
  "inbox_to_human r =
     (if ib_result r = ReadFailed
      then U ''inbox failed ['' @ unwrap_or (ib_code r) (U ''error'') @ U '']: '' @ unwrap_or (ib_message r) []
      else let msgs = unwrap_or (ib_messages r) []
           in U ''inbox for '' @ unwrap_or (ib_agent r) (U ''?'') @ [10] @ concat (map message_line msgs) @
              dec (length msgs) @ U '' message(s)'')"

record trace_response =
  tr_result :: read_status
  tr_command :: ustr
  tr_response_type :: "ustr option"
  tr_trace :: "ustr option"
  tr_socket_namespace :: "ustr option"
  tr_count :: "nat option"
  tr_messages :: "thread_message list option"
  tr_code :: "ustr option"
  tr_message :: "ustr option"
  tr_context :: "json option"
  tr_next :: ustr

definition trace_command :: ustr where
  "trace_command = U ''zynk trace''"

definition trace_ok :: "ustr \<Rightarrow> ustr \<Rightarrow> thread_message list \<Rightarrow> trace_response" where
  "trace_ok trace socket msgs =
     \<lparr>tr_result = ReadOk, tr_command = trace_command, tr_response_type = Some (U ''zynk_trace_result''),
      tr_trace = Some trace, tr_socket_namespace = Some socket, tr_count = Some (length msgs),
      tr_messages = Some msgs, tr_code = None, tr_message = None, tr_context = None,
      tr_next = (if length msgs = 0 then U ''no messages with this trace id in the active runtime scope''
        else U ''messages sharing this trace id across conversations (oldest first)'')\<rparr>"

definition trace_failed :: "ustr \<Rightarrow> ustr \<Rightarrow> json \<Rightarrow> ustr \<Rightarrow> trace_response" where
  "trace_failed code message context hint =
     \<lparr>tr_result = ReadFailed, tr_command = trace_command, tr_response_type = None, tr_trace = None,
      tr_socket_namespace = None, tr_count = None, tr_messages = None, tr_code = Some code,
      tr_message = Some message, tr_context = Some context, tr_next = hint\<rparr>"

definition trace_invalid :: "ustr \<Rightarrow> ustr \<Rightarrow> json \<Rightarrow> trace_response" where
  "trace_invalid code message context =
     trace_failed code message context (U ''pass a printable trace id (see `zynk send --trace`)'')"

definition trace_to_human :: "trace_response \<Rightarrow> ustr" where
  "trace_to_human r =
     (if tr_result r = ReadFailed
      then U ''trace failed ['' @ unwrap_or (tr_code r) (U ''error'') @ U '']: '' @ unwrap_or (tr_message r) []
      else let msgs = unwrap_or (tr_messages r) []
           in U ''trace '' @ unwrap_or (tr_trace r) (U ''?'') @ [10] @
              concat (map (\<lambda>m. tm_conversation_id m @ U ''#'' @ dec_int (tm_conversation_seq m) @ U ''  '' @
                message_line m) msgs) @
              dec (length msgs) @ U '' message(s)'')"

section \<open>Statements\<close>

definition sql_conversation_by_id :: "ustr \<Rightarrow> ustr \<Rightarrow> ustr option stmt" where
  "sql_conversation_by_id selector socket d =
     Inr (d, map_option c_id (find (\<lambda>c. c_id c = selector \<and> c_socket c = socket) (conversations d)))"

definition sql_conversation_of_message :: "ustr \<Rightarrow> ustr \<Rightarrow> ustr option stmt" where
  "sql_conversation_of_message selector socket d =
     Inr (d, map_option m_conversation (find (\<lambda>m. m_id m = selector \<and> m_socket m = socket) (messages d)))"

definition sql_thread :: "env \<Rightarrow> ustr \<Rightarrow> ustr \<Rightarrow> thread_message list stmt" where
  "sql_thread E conversation socket d =
     Inr (d, map (row_to_message E d) (sort_key (\<lambda>(m, _, _). m_seq m)
       (filter (\<lambda>(m, _, _). m_conversation m = conversation \<and> m_socket m = socket) (message_join d))))"

definition sql_inbox :: "env \<Rightarrow> ustr \<Rightarrow> ustr \<Rightarrow> nat \<Rightarrow> thread_message list stmt" where
  "sql_inbox E socket agent limit d =
     Inr (d, map (row_to_message E d) (take limit (rev (sort_key (\<lambda>(m, _, _). (m_created_at m, m_seq m))
       (filter (\<lambda>(m, _, tp). m_socket m = socket \<and> pt_label tp = agent) (message_join d))))))"

definition sql_trace :: "env \<Rightarrow> ustr \<Rightarrow> ustr \<Rightarrow> thread_message list stmt" where
  "sql_trace E socket trace_id d =
     Inr (d, map (row_to_message E d) (sort_key (\<lambda>(m, _, _). (m_created_at m, m_seq m))
       (filter (\<lambda>(m, _, _). m_socket m = socket \<and> json_extract E (m_meta m) (U ''$.trace_id'') = Some trace_id)
          (message_join d))))"

section \<open>Queries\<close>

text \<open>Running a reader on the outcome of opening the database.\<close>

definition read_with :: "db_error + conn \<Rightarrow> 'a dbm \<Rightarrow> db_error + 'a" where
  "read_with opened m = (case opened of Inl e \<Rightarrow> Inl e | Inr c \<Rightarrow> fst (m c))"

definition db_read_hint :: ustr where
  "db_read_hint = U ''the global DB could not be read; check the DB path/permissions''"

definition resolve_conversation_id :: "env \<Rightarrow> ustr \<Rightarrow> ustr \<Rightarrow> ustr option dbm" where
  "resolve_conversation_id E selector socket =
     dbind (exec E (sql_conversation_by_id selector socket)) (\<lambda>row.
       case row of
         Some i \<Rightarrow> dreturn (Some i)
       | None \<Rightarrow> exec E (sql_conversation_of_message selector socket))"

definition run_thread :: "env \<Rightarrow> ustr \<Rightarrow> db_error + conn \<Rightarrow> ustr \<Rightarrow> thread_response" where
  "run_thread E socket opened raw =
     (let selector = trim raw
      in if selector = [] then thread_missing_selector
         else case read_with opened
             (dbind (resolve_conversation_id E selector socket) (\<lambda>found.
                case found of
                  None \<Rightarrow> dreturn None
                | Some conversation \<Rightarrow>
                    dbind (exec E (sql_thread E conversation socket)) (\<lambda>msgs.
                    dreturn (Some (conversation, msgs))))) of
           Inr (Some (conversation, msgs)) \<Rightarrow> thread_ok conversation socket msgs
         | Inr None \<Rightarrow> thread_not_found selector
         | Inl err \<Rightarrow> thread_failed (de_code err) (de_message err) (JObj [(U ''selector'', JStr selector)]) db_read_hint)"

definition inbox_limit :: "nat \<Rightarrow> nat" where
  "inbox_limit limit = max 1 (min 500 limit)"

definition run_inbox :: "env \<Rightarrow> ustr \<Rightarrow> db_error + conn \<Rightarrow> ustr \<Rightarrow> nat \<Rightarrow> inbox_response" where
  "run_inbox E socket opened raw limit =
     (let agent = trim raw
      in if agent = [] then inbox_unidentified_caller (U ''the caller agent label is empty'')
         else case read_with opened (exec E (sql_inbox E socket agent (inbox_limit limit))) of
           Inr msgs \<Rightarrow> inbox_ok agent socket msgs
         | Inl err \<Rightarrow> inbox_failed (de_code err) (de_message err) (JObj [(U ''agent'', JStr agent)]) db_read_hint)"

definition run_trace :: "env \<Rightarrow> ustr \<Rightarrow> db_error + conn \<Rightarrow> ustr \<Rightarrow> trace_response" where
  "run_trace E socket opened raw =
     (case validate_trace_id raw of
        Inl (code, message) \<Rightarrow> trace_invalid code message (JObj [(U ''trace'', JStr raw)])
      | Inr trace_id \<Rightarrow>
          (case read_with opened (exec E (sql_trace E socket trace_id)) of
             Inr msgs \<Rightarrow> trace_ok trace_id socket msgs
           | Inl err \<Rightarrow> trace_failed (de_code err) (de_message err) (JObj [(U ''trace'', JStr trace_id)]) db_read_hint))"

section \<open>The join on a consistent store\<close>

definition participant_of :: "db \<Rightarrow> ustr \<Rightarrow> participant_row" where
  "participant_of d i = hd (filter (\<lambda>p. pt_id p = i) (participants d))"

lemma filter_key_unique:
  assumes "distinct (map f xs)" and "x \<in> set xs"
  shows "filter (\<lambda>y. f y = f x) xs = [x]"
  using assms
proof (induction xs)
  case (Cons y ys)
  then show ?case by (cases "y = x") (auto simp: filter_empty_conv intro: rev_image_eqI)
qed simp

lemma participant_of:
  assumes "part_inv d" and "i \<in> pt_id ` set (participants d)"
  shows "filter (\<lambda>p. pt_id p = i) (participants d) = [participant_of d i]"
  using assms filter_key_unique [of pt_id "participants d"] by (auto simp: part_inv_def participant_of_def)

lemma message_join_store:
  assumes "store_inv d"
  shows "message_join d = map (\<lambda>m. (m, participant_of d (m_from m), participant_of d (m_to m))) (messages d)"
proof -
  have p: "part_inv d" "msg_refs d" using assms by (simp_all add: store_inv_def)
  have one: "concat (map (\<lambda>fp. map (\<lambda>tp. (m, fp, tp)) (filter (\<lambda>p. pt_id p = m_to m) (participants d)))
      (filter (\<lambda>p. pt_id p = m_from m) (participants d))) = [(m, participant_of d (m_from m), participant_of d (m_to m))]"
    if "m \<in> set (messages d)" for m
    using p that by (simp add: msg_refs_def participant_of [OF p(1)])
  show ?thesis unfolding message_join_def by (simp add: one cong: map_cong)
qed

lemma delivery_status_last:
  "store_inv d \<Longrightarrow> latest_delivery_status d mid = (if history d mid = [] then None else Some (last (history d mid)))"
  unfolding latest_delivery_status_def by (rule latest_event_type) (simp add: store_inv_def)

lemma exec_read:
  assumes "no_faults E" and "f (visible c) = Inr (visible c, x)"
  obtains c' where "exec E f c = (Inr x, c')" "visible c' = visible c"
proof
  let ?c = "store (visible c) (c\<lparr>stmts := stmts c + 1\<rparr>)"
  show "exec E f c = (Inr x, ?c)"
    using assms by (cases "txn c") (simp_all add: exec_def attempt_no_fault visible_def)
  show "visible ?c = visible c" by (simp add: visible_def store_def split: option.split)
qed

text \<open>What a reader sees of a stored message: its own columns, the labels of its parties, its last event.\<close>

definition shown :: "env \<Rightarrow> db \<Rightarrow> message_row \<Rightarrow> thread_message" where
  "shown E d m = row_to_message E d (m, participant_of d (m_from m), participant_of d (m_to m))"

lemma shown_fields [simp]:
  "tm_message_id (shown E d m) = m_id m" "tm_body (shown E d m) = m_body m"
  "tm_conversation_seq (shown E d m) = m_seq m" "tm_conversation_id (shown E d m) = m_conversation m"
  "tm_to (shown E d m) = pt_label (participant_of d (m_to m))"
  "tm_from (shown E d m) = pt_label (participant_of d (m_from m))"
  "tm_delivery_status (shown E d m) = latest_delivery_status d (m_id m)" "tm_created_at (shown E d m) = m_created_at m"
  by (simp_all add: shown_def row_to_message_def)

lemma insort_key_map: "insort_key f (g x) (map g xs) = map g (insort_key (\<lambda>y. f (g y)) x xs)"
  by (induction xs) simp_all

lemma sort_key_map: "sort_key f (map g xs) = map g (sort_key (\<lambda>y. f (g y)) xs)"
  by (induction xs) (simp_all add: insort_key_map)

definition on_socket :: "db \<Rightarrow> ustr \<Rightarrow> ustr \<Rightarrow> message_row list" where
  "on_socket d conversation socket = filter (\<lambda>m. m_conversation m = conversation \<and> m_socket m = socket) (messages d)"

lemma on_socket_sorted:
  assumes "store_inv d"
  shows "sorted_wrt (<) (map m_seq (on_socket d conversation socket))"
proof (cases "conversation \<in> fst ` set (conv_seqs d)")
  case True
  then obtain n where "(conversation, n) \<in> set (conv_seqs d)" unfolding image_iff by force
  then have "seqs_of d conversation = [1..n]" using assms by (auto simp: store_inv_def seq_inv_def)
  then have "sorted_wrt (<) (map m_seq (filter (\<lambda>m. m_conversation m = conversation) (messages d)))"
    unfolding seqs_of_def by (simp add: strict_sorted_iff)
  then have "sorted_wrt (\<lambda>x y. m_seq x < m_seq y) (filter (\<lambda>m. m_conversation m = conversation) (messages d))"
    by (simp add: sorted_wrt_map)
  then have "sorted_wrt (\<lambda>x y. m_seq x < m_seq y)
      (filter (\<lambda>m. m_socket m = socket) (filter (\<lambda>m. m_conversation m = conversation) (messages d)))"
    by (rule sorted_wrt_filter)
  then show ?thesis by (simp add: on_socket_def sorted_wrt_map conj_commute)
next
  case False
  then have "on_socket d conversation socket = []"
    using assms by (auto simp: on_socket_def filter_empty_conv store_inv_def msg_refs_def)
  then show ?thesis by simp
qed

lemma sql_thread_store:
  assumes "store_inv d"
  shows "sql_thread E conversation socket d = Inr (d, map (shown E d) (on_socket d conversation socket))"
proof -
  have "sorted (map m_seq (on_socket d conversation socket))"
    using on_socket_sorted [OF assms] by (simp add: strict_sorted_iff)
  then show ?thesis
    by (simp add: sql_thread_def message_join_store [OF assms] filter_map o_def sort_key_map shown_def
        on_socket_def sort_key_id_if_sorted)
qed

definition addressed :: "db \<Rightarrow> ustr \<Rightarrow> ustr \<Rightarrow> message_row list" where
  "addressed d socket agent =
     filter (\<lambda>m. m_socket m = socket \<and> pt_label (participant_of d (m_to m)) = agent) (messages d)"

lemma sql_inbox_store:
  assumes "store_inv d"
  shows "sql_inbox E socket agent limit d =
    Inr (d, map (shown E d) (take limit (rev (sort_key (\<lambda>m. (m_created_at m, m_seq m)) (addressed d socket agent)))))"
  by (simp add: sql_inbox_def message_join_store [OF assms] filter_map o_def sort_key_map shown_def
      addressed_def rev_map take_map)

text \<open>A selector names a conversation of the socket, or else the conversation of a message of the socket.\<close>

definition selects :: "db \<Rightarrow> ustr \<Rightarrow> ustr \<Rightarrow> ustr \<Rightarrow> bool" where
  "selects d socket selector conversation \<longleftrightarrow>
     (if \<exists>k \<in> set (conversations d). c_id k = selector \<and> c_socket k = socket then conversation = selector
      else \<exists>m \<in> set (messages d). m_id m = selector \<and> m_socket m = socket \<and> conversation = m_conversation m)"

lemma resolve_store:
  assumes "no_faults E" and "store_inv (visible c)"
  obtains r c' where "resolve_conversation_id E selector socket c = (Inr r, c')" "visible c' = visible c"
    "\<And>i. r = Some i \<longleftrightarrow> selects (visible c) socket selector i"
proof (cases "find (\<lambda>k. c_id k = selector \<and> c_socket k = socket) (conversations (visible c))")
  case (Some k)
  have k: "k \<in> set (conversations (visible c))" "c_id k = selector" "c_socket k = socket"
    using Some by (auto dest!: find_SomeD)
  have "sql_conversation_by_id selector socket (visible c) = Inr (visible c, Some selector)"
    using Some k by (simp add: sql_conversation_by_id_def)
  from exec_read [where f = "sql_conversation_by_id selector socket", OF assms(1) this] obtain c' where c': "exec E (sql_conversation_by_id selector socket) c = (Inr (Some selector), c')"
    "visible c' = visible c" .
  then have "resolve_conversation_id E selector socket c = (Inr (Some selector), c')"
    by (simp add: resolve_conversation_id_def dbind_def dreturn_def)
  then show ?thesis by (rule that) (use c' k in \<open>auto simp: selects_def\<close>)
next
  case None
  let ?r = "map_option m_conversation (find (\<lambda>m. m_id m = selector \<and> m_socket m = socket) (messages (visible c)))"
  have none: "\<not> (\<exists>k \<in> set (conversations (visible c)). c_id k = selector \<and> c_socket k = socket)"
    using None by (auto simp: find_None_iff)
  have "sql_conversation_by_id selector socket (visible c) = Inr (visible c, None)"
    using None by (simp add: sql_conversation_by_id_def)
  from exec_read [where f = "sql_conversation_by_id selector socket", OF assms(1) this] obtain c1 where c1: "exec E (sql_conversation_by_id selector socket) c = (Inr None, c1)"
    "visible c1 = visible c" .
  have "sql_conversation_of_message selector socket (visible c1) = Inr (visible c1, ?r)"
    by (simp add: sql_conversation_of_message_def c1(2))
  from exec_read [where f = "sql_conversation_of_message selector socket", OF assms(1) this] obtain c2 where c2: "exec E (sql_conversation_of_message selector socket) c1 = (Inr ?r, c2)"
    "visible c2 = visible c1" .
  have run: "resolve_conversation_id E selector socket c = (Inr ?r, c2)"
    using c1(1) c2(1) by (simp add: resolve_conversation_id_def dbind_def)
  have inj: "inj_on m_id (set (messages (visible c)))"
    using assms(2) by (simp add: store_inv_def msg_refs_def distinct_map)
  have r: "?r = Some i \<longleftrightarrow> (\<exists>m \<in> set (messages (visible c)). m_id m = selector \<and> m_socket m = socket \<and> i = m_conversation m)" for i
    using inj by (cases "find (\<lambda>m. m_id m = selector \<and> m_socket m = socket) (messages (visible c))")
      (auto dest!: find_SomeD simp: find_None_iff dest: inj_onD)
  show ?thesis
    by (rule that [OF run]) (simp only: c2(2) c1(2), simp only: r selects_def none if_False)
qed

section \<open>Properties\<close>

text \<open>
  C20. A thread is the transcript. For a conversation of the socket, or for a message of the socket
  whose id is not also such a conversation, \<open>zynk thread\<close> answers exactly the stored messages of that
  conversation and socket, in strictly increasing sequence, with their bodies as stored and the
  type of their last delivery event; for any other selector it answers that nothing was found.
\<close>

theorem thread_is_transcript:
  assumes "no_faults E" and "txn c = None" and "store_inv (disk c)" and "trim raw \<noteq> []"
  shows "(selects (disk c) socket (trim raw) conversation \<longrightarrow>
     (let msgs = filter (\<lambda>m. m_conversation m = conversation \<and> m_socket m = socket) (messages (disk c))
      in run_thread E socket (Inr c) raw = thread_ok conversation socket (map (shown E (disk c)) msgs) \<and>
         sorted_wrt (<) (map m_seq msgs) \<and>
         map (\<lambda>m. (tm_message_id m, tm_body m, tm_delivery_status m)) (map (shown E (disk c)) msgs) =
           map (\<lambda>m. (m_id m, m_body m, if history (disk c) (m_id m) = [] then None
              else Some (last (history (disk c) (m_id m))))) msgs)) \<and>
    ((\<forall>i. \<not> selects (disk c) socket (trim raw) i) \<longrightarrow> run_thread E socket (Inr c) raw = thread_not_found (trim raw))"
proof -
  have v: "visible c = disk c" using assms(2) by (simp add: visible_def)
  obtain r c' where r: "resolve_conversation_id E (trim raw) socket c = (Inr r, c')" "visible c' = disk c"
    "\<And>i. r = Some i \<longleftrightarrow> selects (disk c) socket (trim raw) i"
    using resolve_store [OF assms(1), of c "trim raw" socket] assms(3) unfolding v by blast
  have q: "fst (exec E (sql_thread E i socket) c') = Inr (map (shown E (disk c)) (on_socket (disk c) i socket))" for i
  proof -
    have "sql_thread E i socket (visible c') = Inr (visible c', map (shown E (disk c)) (on_socket (disk c) i socket))"
      using sql_thread_store [OF assms(3)] by (simp add: r(2))
    from exec_read [where f = "sql_thread E i socket", OF assms(1) this] show ?thesis by (metis fst_conv)
  qed
  have run: "run_thread E socket (Inr c) raw = (case r of None \<Rightarrow> thread_not_found (trim raw)
      | Some i \<Rightarrow> thread_ok i socket (map (shown E (disk c)) (on_socket (disk c) i socket)))"
  proof (cases r)
    case (Some i)
    obtain c2 where "exec E (sql_thread E i socket) c' = (Inr (map (shown E (disk c)) (on_socket (disk c) i socket)), c2)"
      using q [of i] by (metis prod.collapse)
    with Some assms(4) r(1) show ?thesis by (simp add: run_thread_def Let_def read_with_def dbind_def dreturn_def)
  qed (use assms(4) r(1) in \<open>simp add: run_thread_def Let_def read_with_def dbind_def dreturn_def\<close>)
  let ?msgs = "on_socket (disk c) conversation socket"
  have shown: "map (\<lambda>m. (tm_message_id m, tm_body m, tm_delivery_status m)) (map (shown E (disk c)) ?msgs) =
      map (\<lambda>m. (m_id m, m_body m, if history (disk c) (m_id m) = [] then None
         else Some (last (history (disk c) (m_id m))))) ?msgs"
    by (simp add: delivery_status_last [OF assms(3)])
  have 1: "run_thread E socket (Inr c) raw = thread_ok conversation socket (map (shown E (disk c)) ?msgs)"
    if "selects (disk c) socket (trim raw) conversation"
    using run r(3) [of conversation] that by simp
  have 2: "run_thread E socket (Inr c) raw = thread_not_found (trim raw)"
    if "\<forall>i. \<not> selects (disk c) socket (trim raw) i"
    using run r(3) that by (cases r) auto
  show ?thesis
    unfolding Let_def on_socket_def [symmetric]
    using 1 2 shown on_socket_sorted [OF assms(3), of conversation socket] by blast
qed

lemma sample_read:
  "no_faults (sample_env (\<lambda>_. None))" "txn sample_conn = None" "store_inv (disk sample_conn)"
  using sample_store_inv by (simp_all add: no_faults_def sample_env_def sample_conn_def)

theorem thread_is_transcript_witness:
  "run_thread (sample_env (\<lambda>_. None)) (U ''s'') (Inr sample_conn) (U '' m '') =
     thread_ok (U ''c'') (U ''s'') (map (shown (sample_env (\<lambda>_. None)) sample_db) [sample_message])"
proof -
  have t: "trim (U '' m '') = U ''m''" "U ''m'' \<noteq> []" by (simp_all add: trim_def is_whitespace_def U_def)
  have d: "disk sample_conn = sample_db" "messages sample_db = [sample_message]"
    by (simp_all add: sample_conn_def sample_db_def)
  have m: "m_conversation sample_message = U ''c''" "m_socket sample_message = U ''s''" "m_id sample_message = U ''m''"
    by (simp_all add: sample_message_def)
  have "U ''c'' \<noteq> U ''m''" by (simp add: U_def)
  then have "selects sample_db (U ''s'') (U ''m'') (U ''c'')"
    using d m by (simp add: selects_def) (simp add: sample_db_def)
  note facts = this t d m
  show ?thesis
    using thread_is_transcript [OF sample_read, of "U '' m ''" "U ''s''" "U ''c''"] facts by simp
qed

text \<open>
  C30. The inbox holds the newest messages of its owner. \<open>zynk inbox\<close> answers, newest first, messages
  of the socket that are addressed to the agent, with their bodies as stored: as many as there
  are, but at most the limit, which is taken between 1 and 500; a message of the agent that is left
  out is not newer than any that is listed.
\<close>

theorem inbox_lists_newest:
  assumes "no_faults E" and "txn c = None" and "store_inv (disk c)" and "trim raw \<noteq> []"
  shows "\<exists>msgs. run_inbox E socket (Inr c) raw limit = inbox_ok (trim raw) socket (map (shown E (disk c)) msgs) \<and>
    set msgs \<subseteq> set (addressed (disk c) socket (trim raw)) \<and> distinct (map m_id msgs) \<and>
    length msgs = min (max 1 (min 500 limit)) (length (addressed (disk c) socket (trim raw))) \<and>
    sorted_wrt (\<lambda>x y. (m_created_at y, m_seq y) \<le> (m_created_at x, m_seq x)) msgs \<and>
    (\<forall>x \<in> set (addressed (disk c) socket (trim raw)) - set msgs. \<forall>y \<in> set msgs.
       (m_created_at x, m_seq x) \<le> (m_created_at y, m_seq y))"
proof -
  let ?key = "\<lambda>m. (m_created_at m, m_seq m)" and ?A = "addressed (disk c) socket (trim raw)"
  let ?n = "max 1 (min 500 limit)"
  define all where "all = rev (sort_key ?key ?A)"
  define msgs where "msgs = take ?n all"
  have v: "visible c = disk c" using assms(2) by (simp add: visible_def)
  have "fst (exec E (sql_inbox E socket (trim raw) ?n) c) = Inr (map (shown E (disk c)) msgs)"
  proof -
    have "sql_inbox E socket (trim raw) ?n (visible c) = Inr (visible c, map (shown E (disk c)) msgs)"
      using sql_inbox_store [OF assms(3), of E socket "trim raw" ?n] by (simp add: v msgs_def all_def)
    from exec_read [where f = "sql_inbox E socket (trim raw) ?n", OF assms(1) this] show ?thesis by (metis fst_conv)
  qed
  then have run: "run_inbox E socket (Inr c) raw limit = inbox_ok (trim raw) socket (map (shown E (disk c)) msgs)"
    using assms(4) by (simp add: run_inbox_def Let_def read_with_def inbox_limit_def)
  have set_all: "set all = set ?A" by (simp add: all_def)
  have desc: "sorted_wrt (\<lambda>x y. ?key y \<le> ?key x) all"
    using sorted_sort_key [of ?key ?A] by (simp add: all_def sorted_wrt_rev sorted_wrt_map)
  have split: "all = msgs @ drop ?n all" by (simp add: msgs_def)
  have "sorted_wrt (\<lambda>x y. ?key y \<le> ?key x) (msgs @ drop ?n all)" using desc by (simp only: split [symmetric])
  then have d: "sorted_wrt (\<lambda>x y. ?key y \<le> ?key x) msgs" "\<forall>y \<in> set msgs. \<forall>x \<in> set (drop ?n all). ?key x \<le> ?key y"
    unfolding sorted_wrt_append by blast+
  have "distinct (map m_id ?A)"
    using assms(3) by (simp add: addressed_def store_inv_def msg_refs_def distinct_map_filter)
  then have "distinct (map m_id all)" by (simp add: all_def distinct_map)
  then have "distinct (map m_id msgs)" by (simp add: msgs_def take_map [symmetric])
  moreover have "set msgs \<subseteq> set ?A" using set_take_subset [of ?n all] by (simp add: set_all msgs_def)
  moreover have "length msgs = min ?n (length ?A)" by (simp add: msgs_def all_def min.commute)
  moreover have "set ?A - set msgs \<subseteq> set (drop ?n all)"
  proof -
    have "set ?A = set msgs \<union> set (drop ?n all)" using split set_all by (metis set_append)
    then show ?thesis by blast
  qed
  ultimately show ?thesis using run d by blast
qed

theorem inbox_lists_newest_witness:
  "\<exists>msgs. run_inbox (sample_env (\<lambda>_. None)) (U ''s'') (Inr sample_conn) (U ''codex'') 0 =
      inbox_ok (U ''codex'') (U ''s'') (map (shown (sample_env (\<lambda>_. None)) sample_db) msgs) \<and> length msgs = 1"
proof -
  have "trim (U ''codex'') = U ''codex''" "U ''codex'' \<noteq> []" by (simp_all add: trim_def is_whitespace_def U_def)
  moreover have "length (addressed sample_db (U ''s'') (U ''codex'')) = 1"
    by (simp add: addressed_def participant_of_def sample_db_def sample_message_def sample_part_def U_def)
  moreover have "disk sample_conn = sample_db" by (simp add: sample_conn_def)
  ultimately show ?thesis using inbox_lists_newest [OF sample_read, of "U ''codex''" "U ''s''" 0] by auto
qed

end
