(* ===== verification/Float64.thy ===== *)
theory Float64
  imports Complex_Main Float32
begin

text \<open>
  IEEE 754 binary64 as far as the fusion of ranked lists uses it (\<open>src/zynk/retrieval/rrf.rs\<close>): addition,
  division, comparison and the conversion of an index. As in the theory of binary32 a finite value
  is \<open>Fin64 m e\<close>, the number \<open>m * 2 ^ e\<close>, the comparisons and not HOL equality compare values, and the
  sign of zero is not kept. Results are rounded to nearest, ties to even, to 53 significant bits
  with least exponent -1074. The quotient is computed with two extra bits and a sticky bit, which
  decide every rounding.
\<close>

section \<open>Operations\<close>

datatype f64 = NaN64 | Inf64 bool \<comment> \<open>true for the negative infinity\<close> | Fin64 int int

definition f64_round :: "int \<Rightarrow> int \<Rightarrow> f64" where
  "f64_round m e =
     (let s = max (int (bit_len (nat \<bar>m\<bar>)) - 53) (- 1074 - e);
          m' = (if s \<le> 0 then m else rne_div m (2 ^ nat s));
          e' = (if s \<le> 0 then e else e + s)
      in if int (bit_len (nat \<bar>m'\<bar>)) + e' > 1024 then Inf64 (m' < 0) else Fin64 m' e')"

fun f64_add :: "f64 \<Rightarrow> f64 \<Rightarrow> f64" where
  "f64_add (Fin64 m1 e1) (Fin64 m2 e2) =
     (let e = min e1 e2 in f64_round (m1 * 2 ^ nat (e1 - e) + m2 * 2 ^ nat (e2 - e)) e)"
| "f64_add (Inf64 s) (Fin64 _ _) = Inf64 s"
| "f64_add (Fin64 _ _) (Inf64 s) = Inf64 s"
| "f64_add (Inf64 s) (Inf64 t) = (if s = t then Inf64 s else NaN64)"
| "f64_add _ _ = NaN64"

definition div_round :: "int \<Rightarrow> int \<Rightarrow> int \<Rightarrow> f64" where
  "div_round p q e =
     (let s = 55 + bit_len (nat q) - bit_len (nat p);
          n = (p * 2 ^ s) div q;
          sticky = (if (p * 2 ^ s) mod q = 0 then 0 else 1)
      in f64_round (2 * n + sticky) (e - int s - 1))"

fun f64_neg :: "f64 \<Rightarrow> f64" where
  "f64_neg (Fin64 m e) = Fin64 (- m) e"
| "f64_neg (Inf64 s) = Inf64 (\<not> s)"
| "f64_neg NaN64 = NaN64"

fun f64_div :: "f64 \<Rightarrow> f64 \<Rightarrow> f64" where
  "f64_div (Fin64 m1 e1) (Fin64 m2 e2) =
     (if m2 = 0 then if m1 = 0 then NaN64 else Inf64 (m1 < 0)
      else let x = div_round \<bar>m1\<bar> \<bar>m2\<bar> (e1 - e2) in if (m1 < 0) = (m2 < 0) then x else f64_neg x)"
| "f64_div (Inf64 s) (Fin64 m e) = Inf64 (s \<noteq> (m < 0))"
| "f64_div (Fin64 _ _) (Inf64 _) = Fin64 0 0"
| "f64_div _ _ = NaN64"

fun f64_less :: "f64 \<Rightarrow> f64 \<Rightarrow> bool" where
  "f64_less (Fin64 m1 e1) (Fin64 m2 e2) =
     (let e = min e1 e2 in m1 * 2 ^ nat (e1 - e) < m2 * 2 ^ nat (e2 - e))"
| "f64_less (Inf64 s) (Fin64 _ _) = s"
| "f64_less (Fin64 _ _) (Inf64 s) = (\<not> s)"
| "f64_less (Inf64 s) (Inf64 t) = (s \<and> \<not> t)"
| "f64_less _ _ = False"

definition nat_as_f64 :: "nat \<Rightarrow> f64" where
  "nat_as_f64 n = f64_round (int n) 0"

section \<open>Numbers without NaN\<close>

fun f64_nonneg :: "f64 \<Rightarrow> bool" where
  "f64_nonneg (Fin64 m _) = (0 \<le> m)"
| "f64_nonneg (Inf64 s) = (\<not> s)"
| "f64_nonneg NaN64 = False"

lemma f64_nonneg_not_NaN: "f64_nonneg x \<Longrightarrow> x \<noteq> NaN64"
  by auto

lemma f64_round_nonneg: "0 \<le> m \<Longrightarrow> f64_nonneg (f64_round m e)"
proof -
  assume m: "0 \<le> m"
  define s where "s = max (int (bit_len (nat \<bar>m\<bar>)) - 53) (- 1074 - e)"
  have "0 \<le> (if s \<le> 0 then m else rne_div m (2 ^ nat s))" using m by (simp add: rne_div_nonneg)
  then show ?thesis unfolding f64_round_def Let_def s_def [symmetric] by auto
qed

lemma f64_add_nonneg: "f64_nonneg x \<Longrightarrow> f64_nonneg y \<Longrightarrow> f64_nonneg (f64_add x y)"
  by (cases "(x, y)" rule: f64_add.cases) (auto simp: Let_def f64_round_nonneg)

lemma bit_len_power: "0 < n \<Longrightarrow> 2 ^ (bit_len n - 1) \<le> n"
proof (induction n rule: bit_len.induct)
  case (1 n)
  show ?case
  proof (cases "n div 2 = 0")
    case True
    with 1(2) show ?thesis by (subst bit_len.simps) (simp add: bit_len.simps [of 0])
  next
    case False
    then have IH: "2 ^ (bit_len (n div 2) - 1) \<le> n div 2" using 1 by simp
    have "bit_len n = Suc (bit_len (n div 2))" "0 < bit_len (n div 2)"
      using 1(2) False by (subst bit_len.simps, simp)+
    then have "2 ^ (bit_len n - 1) = 2 * 2 ^ (bit_len (n div 2) - 1)"
      by (metis Suc_pred diff_Suc_1 power_Suc)
    also have "\<dots> \<le> 2 * (n div 2)" using IH by simp
    also have "\<dots> \<le> n" by simp
    finally show ?thesis .
  qed
qed

lemma rne_div_pos: "0 < q \<Longrightarrow> q \<le> p \<Longrightarrow> 0 < rne_div p q"
proof -
  assume q: "0 < q" "q \<le> p"
  then have "1 \<le> p div q" using zdiv_mono1 [of q p q] by simp
  then show ?thesis by (simp add: rne_div_def Let_def)
qed

text \<open>A positive number of normal range stays positive.\<close>

lemma f64_round_pos:
  assumes "0 < m" and "- 1074 \<le> e"
  shows "f64_round m e = Inf64 False \<or> (\<exists>m' e'. f64_round m e = Fin64 m' e' \<and> 0 < m' \<and> - 1074 \<le> e')"
proof -
  define s where "s = max (int (bit_len (nat \<bar>m\<bar>)) - 53) (- 1074 - e)"
  have pos: "0 < (if s \<le> 0 then m else rne_div m (2 ^ nat s))"
  proof (cases "s \<le> 0")
    case False
    then have s: "s = int (bit_len (nat m)) - 53" using assms by (simp add: s_def)
    have "(2::nat) ^ nat s \<le> 2 ^ (bit_len (nat m) - 1)" using s False by (intro power_increasing) auto
    also have "\<dots> \<le> nat m" using assms by (intro bit_len_power) simp
    finally have "(2::int) ^ nat s \<le> m" using assms by (simp add: le_nat_iff)
    with False show ?thesis by (simp add: rne_div_pos)
  qed (use assms in simp)
  have "- 1074 \<le> (if s \<le> 0 then e else e + s)" using assms by simp
  with pos show ?thesis unfolding f64_round_def Let_def s_def [symmetric] by auto
qed

lemma f64_div_nonneg:
  assumes "0 \<le> m1" and "d = Inf64 False \<or> (\<exists>m e. d = Fin64 m e \<and> 0 < m)"
  shows "f64_nonneg (f64_div (Fin64 m1 e1) d)"
  using assms
  by (auto simp: Let_def div_round_def intro!: f64_round_nonneg add_nonneg_nonneg simp: pos_imp_zdiv_nonneg_iff)

section \<open>The order\<close>

text \<open>Numbers other than NaN are ordered by class and value.\<close>

fun f64_key :: "f64 \<Rightarrow> int \<times> real" where
  "f64_key (Fin64 m e) = (0, real_of_int m * 2 powi e)"
| "f64_key (Inf64 s) = (if s then - 1 else 1, 0)"
| "f64_key NaN64 = (0, 0)"

lemma fin_less_iff:
  "m1 * 2 ^ nat (e1 - min e1 e2) < m2 * 2 ^ nat (e2 - min e1 e2) \<longleftrightarrow>
   real_of_int m1 * 2 powi e1 < real_of_int m2 * 2 powi e2"
proof -
  let ?e = "min e1 e2"
  have split: "real_of_int (m * 2 ^ nat (x - ?e)) * 2 powi ?e = real_of_int m * 2 powi x" if "?e \<le> x" for m x
  proof -
    have "(2::real) ^ nat (x - ?e) = 2 powi (x - ?e)" using that by (simp add: power_int_def)
    then have "(2::real) ^ nat (x - ?e) * 2 powi ?e = 2 powi x" by (simp add: power_int_add [symmetric])
    then show ?thesis by (simp add: mult.assoc)
  qed
  have "m1 * 2 ^ nat (e1 - ?e) < m2 * 2 ^ nat (e2 - ?e) \<longleftrightarrow>
      real_of_int (m1 * 2 ^ nat (e1 - ?e)) * 2 powi ?e < real_of_int (m2 * 2 ^ nat (e2 - ?e)) * 2 powi ?e"
    by (simp only: mult_less_cancel_right_pos [OF zero_less_power_int] of_int_less_iff)
  then show ?thesis by (simp only: split [OF min.cobounded1] split [OF min.cobounded2])
qed

lemma f64_less_key:
  "x \<noteq> NaN64 \<Longrightarrow> y \<noteq> NaN64 \<Longrightarrow> f64_less x y \<longleftrightarrow> f64_key x < f64_key y"
  by (cases "(x, y)" rule: f64_less.cases) (auto simp: Let_def fin_less_iff)

end
