(* ===== verification/Rank_Fusion.thy ===== *)
theory Rank_Fusion
  imports Float64 Agents "HOL-Library.Multiset"
begin

text \<open>
  Reciprocal rank fusion, \<open>src/zynk/retrieval/rrf.rs\<close>: several ranked lists of message ids become one,
  by summing for each id a weighted reciprocal of its rank in every list that has it. The order in
  which the hash map of the scores is iterated is an argument; the theorem shows that nothing
  depends on it.
\<close>

section \<open>Fusion\<close>

definition rrf_k :: f64 where
  "rrf_k = Fin64 60 0"

text \<open>One list: an id that was already seen in it counts at its first rank only.\<close>

fun fuse_list :: "f64 \<Rightarrow> f64 \<Rightarrow> nat \<Rightarrow> ustr list \<Rightarrow> ustr list \<Rightarrow> f64 hmap \<Rightarrow> f64 hmap" where
  "fuse_list weight k i seen [] scores = scores"
| "fuse_list weight k i seen (x # ids) scores =
     (if x \<in> set seen then fuse_list weight k (i + 1) seen ids scores
      else let contribution = f64_div weight (f64_add k (nat_as_f64 (i + 1)));
               old = (case hget scores x of Some s \<Rightarrow> s | None \<Rightarrow> Fin64 0 0)
           in fuse_list weight k (i + 1) (x # seen) ids (hput x (f64_add old contribution) scores))"

definition rrf_scores :: "(f64 \<times> ustr list) list \<Rightarrow> f64 \<Rightarrow> f64 hmap" where
  "rrf_scores ranked k = fold (\<lambda>(weight, ids). fuse_list weight k 0 [] ids) ranked []"

text \<open>\<open>slice::sort_by\<close> is a stable sort; \<open>le a b\<close> says that the comparison is not \<open>Greater\<close>.\<close>

fun insert_by :: "('a \<Rightarrow> 'a \<Rightarrow> bool) \<Rightarrow> 'a \<Rightarrow> 'a list \<Rightarrow> 'a list" where
  "insert_by le x [] = [x]"
| "insert_by le x (y # ys) = (if le x y then x # y # ys else y # insert_by le x ys)"

definition sort_by :: "('a \<Rightarrow> 'a \<Rightarrow> bool) \<Rightarrow> 'a list \<Rightarrow> 'a list" where
  "sort_by le xs = foldr (insert_by le) xs []"

text \<open>Higher score first; scores that are equal, or not comparable, are ordered by id.\<close>

definition rrf_before :: "ustr \<times> f64 \<Rightarrow> ustr \<times> f64 \<Rightarrow> bool" where
  "rrf_before a b \<longleftrightarrow>
     (if f64_less (snd b) (snd a) then True else if f64_less (snd a) (snd b) then False else fst a \<le> fst b)"

definition rrf_fuse ::
  "(f64 hmap \<Rightarrow> f64 hmap) \<Rightarrow> (f64 \<times> ustr list) list \<Rightarrow> f64 \<Rightarrow> (ustr \<times> f64) list" where
  "rrf_fuse iter ranked k = sort_by rrf_before (iter (rrf_scores ranked k))"

section \<open>The scores\<close>

text \<open>The specification: the rank of an id in a list, and the sum over the lists.\<close>

fun first_rank :: "nat \<Rightarrow> ustr list \<Rightarrow> ustr \<Rightarrow> nat option" where
  "first_rank i [] x = None"
| "first_rank i (y # ys) x = (if y = x then Some (i + 1) else first_rank (i + 1) ys x)"

definition add_rank :: "f64 \<Rightarrow> ustr \<Rightarrow> f64 \<times> ustr list \<Rightarrow> f64 option \<Rightarrow> f64 option" where
  "add_rank k x l acc =
     (case first_rank 0 (snd l) x of
        None \<Rightarrow> acc
      | Some r \<Rightarrow> Some (f64_add (case acc of Some s \<Rightarrow> s | None \<Rightarrow> Fin64 0 0)
                         (f64_div (fst l) (f64_add k (nat_as_f64 r)))))"

definition rrf_score :: "(f64 \<times> ustr list) list \<Rightarrow> f64 \<Rightarrow> ustr \<Rightarrow> f64 option" where
  "rrf_score ranked k x = fold (add_rank k x) ranked None"

lemma fuse_list_get:
  "hget (fuse_list w k i seen ids scores) x =
     (if x \<in> set seen then hget scores x
      else case first_rank i ids x of
        None \<Rightarrow> hget scores x
      | Some r \<Rightarrow> Some (f64_add (case hget scores x of Some s \<Rightarrow> s | None \<Rightarrow> Fin64 0 0)
                         (f64_div w (f64_add k (nat_as_f64 r)))))"
  by (induction ids arbitrary: i seen scores) (auto simp: Let_def update_conv' split: option.splits)

lemma rrf_scores_get: "hget (rrf_scores ranked k) x = rrf_score ranked k x"
proof -
  have "hget (fold (\<lambda>(w, ids). fuse_list w k 0 [] ids) ranked scores) x = fold (add_rank k x) ranked (hget scores x)" for scores
    by (induction ranked arbitrary: scores)
      (auto simp: fuse_list_get add_rank_def split: option.splits)
  then show ?thesis by (simp add: rrf_scores_def rrf_score_def)
qed

lemma distinct_fuse_list: "distinct (map fst scores) \<Longrightarrow> distinct (map fst (fuse_list w k i seen ids scores))"
  by (induction ids arbitrary: i seen scores) (simp_all add: Let_def distinct_update)

lemma distinct_rrf_scores: "distinct (map fst (rrf_scores ranked k))"
proof -
  have "distinct (map fst scores) \<Longrightarrow> distinct (map fst (fold (\<lambda>(w, ids). fuse_list w k 0 [] ids) ranked scores))" for scores
    by (induction ranked arbitrary: scores) (auto simp: distinct_fuse_list)
  then show ?thesis by (simp add: rrf_scores_def)
qed

lemma first_rank_None: "first_rank i ids x = None \<longleftrightarrow> x \<notin> set ids"
  by (induction ids arbitrary: i) auto

lemma first_rank_Some: "first_rank i ids x = Some r \<Longrightarrow> x \<in> set ids"
  using first_rank_None [of i ids x] by auto

lemma first_rank_pos: "first_rank i ids x = Some r \<Longrightarrow> i < r"
proof (induction ids arbitrary: i)
  case (Cons y ys)
  then show ?case by (cases "y = x") (auto dest: Cons.IH)
qed simp

lemma rrf_score_None: "rrf_score ranked k x = None \<longleftrightarrow> (\<forall>l \<in> set ranked. x \<notin> set (snd l))"
proof -
  have "fold (add_rank k x) ranked acc = None \<longleftrightarrow> acc = None \<and> (\<forall>l \<in> set ranked. x \<notin> set (snd l))" for acc
    by (induction ranked arbitrary: acc)
      (auto simp: add_rank_def first_rank_None split: option.splits dest: first_rank_Some)
  then show ?thesis by (simp add: rrf_score_def)
qed

section \<open>No score is a NaN\<close>

definition weights_ok :: "(f64 \<times> ustr list) list \<Rightarrow> bool" where
  "weights_ok ranked \<longleftrightarrow> list_all (\<lambda>l. case fst l of Fin64 m e \<Rightarrow> 0 \<le> m | _ \<Rightarrow> False) ranked"

fun k_ok :: "f64 \<Rightarrow> bool" where
  "k_ok (Fin64 m e) = (0 \<le> m \<and> - 1074 \<le> e)"
| "k_ok _ = False"

lemma divisor_pos:
  assumes "k_ok k" and "0 < r"
  shows "f64_add k (nat_as_f64 r) = Inf64 False \<or> (\<exists>m e. f64_add k (nat_as_f64 r) = Fin64 m e \<and> 0 < m)"
proof -
  obtain mk ek where k: "k = Fin64 mk ek" "0 \<le> mk" "- 1074 \<le> ek" using assms(1) by (cases k) auto
  consider "nat_as_f64 r = Inf64 False"
    | m e where "nat_as_f64 r = Fin64 m e" "0 < m" "- 1074 \<le> e"
    using f64_round_pos [of "int r" 0] assms(2) by (auto simp: nat_as_f64_def)
  then show ?thesis
  proof cases
    case (2 m e)
    have "0 < mk * 2 ^ nat (ek - min ek e) + m * 2 ^ nat (e - min ek e)"
      using k(2) 2(2) by (intro add_nonneg_pos) simp_all
    moreover have "- 1074 \<le> min ek e" using k(3) 2(3) by simp
    ultimately show ?thesis
      using f64_round_pos [of "mk * 2 ^ nat (ek - min ek e) + m * 2 ^ nat (e - min ek e)" "min ek e"]
      by (auto simp: k(1) 2(1) Let_def)
  qed (simp add: k(1))
qed

lemma rrf_score_nonneg:
  assumes "weights_ok ranked" and "k_ok k" and "rrf_score ranked k x = Some s"
  shows "f64_nonneg s"
proof -
  have step: "f64_nonneg t" if eq: "add_rank k x l acc = Some t" and w0: "case fst l of Fin64 m e \<Rightarrow> 0 \<le> m | _ \<Rightarrow> False"
    and old: "\<And>a. acc = Some a \<Longrightarrow> f64_nonneg a" for l acc t
  proof (cases "first_rank 0 (snd l) x")
    case None
    with eq show ?thesis using old by (simp add: add_rank_def)
  next
    case (Some r)
    obtain m e where w: "fst l = Fin64 m e" "0 \<le> m" using w0 by (cases "fst l") auto
    have "f64_nonneg (f64_div (fst l) (f64_add k (nat_as_f64 r)))"
      unfolding w(1) using w(2) divisor_pos [OF assms(2)] first_rank_pos [OF Some] by (intro f64_div_nonneg) simp_all
    moreover have "f64_nonneg (case acc of Some s \<Rightarrow> s | None \<Rightarrow> Fin64 0 0)" using old by (cases acc) auto
    ultimately show ?thesis using eq Some by (auto simp: add_rank_def intro: f64_add_nonneg)
  qed
  have "fold (add_rank k x) ranked acc = Some s \<Longrightarrow> (\<And>a. acc = Some a \<Longrightarrow> f64_nonneg a) \<Longrightarrow> f64_nonneg s" for acc
    using assms(1)
  proof (induction ranked arbitrary: acc)
    case (Cons l ls)
    show ?case
      by (rule Cons.IH [of "add_rank k x l acc"]) (use Cons.prems step [of l acc] in \<open>auto simp: weights_ok_def\<close>)
  qed simp
  from this [of None] show ?thesis using assms(3) by (simp add: rrf_score_def)
qed

section \<open>The order of the result\<close>

definition entry_key :: "ustr \<times> f64 \<Rightarrow> (int \<times> real) reverse \<times> ustr" where
  "entry_key a = (Reverse (f64_key (snd a)), fst a)"

lemma rrf_before_key:
  assumes "snd a \<noteq> NaN64" and "snd b \<noteq> NaN64"
  shows "rrf_before a b \<longleftrightarrow> entry_key a \<le> entry_key b"
  by (auto simp: rrf_before_def entry_key_def f64_less_key assms less_reverse_def less_eq_reverse_def)

lemma set_insert_by: "set (insert_by le x ys) = insert x (set ys)"
  by (induction ys) auto

lemma sort_by_key:
  assumes "\<And>a b. a \<in> set xs \<Longrightarrow> b \<in> set xs \<Longrightarrow> le a b \<longleftrightarrow> f a \<le> f b"
  shows "sort_by le xs = sort_key f xs"
proof -
  have ins: "insert_by le x ys = insort_key f x ys" if "\<And>b. b \<in> set ys \<Longrightarrow> le x b \<longleftrightarrow> f x \<le> f b" for x ys
    using that by (induction ys) auto
  show ?thesis using assms
  proof (induction xs)
    case (Cons x xs)
    then have "sort_by le xs = sort_key f xs" by simp
    then have "sort_by le (x # xs) = insert_by le x (sort_key f xs)" by (simp add: sort_by_def)
    also have "\<dots> = insort_key f x (sort_key f xs)" using Cons.prems by (intro ins) auto
    finally show ?case by simp
  qed (simp add: sort_by_def)
qed

lemma rrf_fuse_spec:
  assumes "\<And>xs. mset (iter xs) = mset xs" and "weights_ok ranked" and "k_ok k"
  shows "rrf_fuse iter ranked k = rrf_fuse id ranked k \<and>
    distinct (map fst (rrf_fuse iter ranked k)) \<and>
    fst ` set (rrf_fuse iter ranked k) = (\<Union>l \<in> set ranked. set (snd l)) \<and>
    (\<forall>(x, s) \<in> set (rrf_fuse iter ranked k). rrf_score ranked k x = Some s) \<and>
    sorted_wrt (\<lambda>a b. f64_less (snd b) (snd a) \<or> \<not> f64_less (snd a) (snd b) \<and> fst a < fst b) (rrf_fuse iter ranked k)"
proof -
  define S where "S = rrf_scores ranked k"
  have d: "distinct (map fst S)" unfolding S_def by (rule distinct_rrf_scores)
  have get: "(x, s) \<in> set S \<longleftrightarrow> rrf_score ranked k x = Some s" for x s
    using map_of_eq_Some_iff [OF d, of x s] rrf_scores_get [of ranked k x] by (simp add: S_def)
  have ok: "snd a \<noteq> NaN64" if "a \<in> set S" for a
  proof -
    have "rrf_score ranked k (fst a) = Some (snd a)" using that get [of "fst a" "snd a"] by simp
    from rrf_score_nonneg [OF assms(2,3) this] show ?thesis by auto
  qed
  have inj: "inj_on entry_key (set S)"
    using d by (auto simp: distinct_map inj_on_def entry_key_def)
  have sort: "sort_by rrf_before xs = sort_key entry_key S" if "mset xs = mset S" for xs
  proof -
    have set: "set xs = set S" using that by (metis set_mset_mset)
    have "sort_by rrf_before xs = sort_key entry_key xs"
      by (rule sort_by_key) (simp add: set ok rrf_before_key)
    also have "\<dots> = sort_key entry_key S"
      using that inj by (intro sort_key_eq_sort_key) (simp_all add: set)
    finally show ?thesis .
  qed
  have r: "rrf_fuse iter ranked k = sort_key entry_key S" "rrf_fuse id ranked k = sort_key entry_key S"
    unfolding rrf_fuse_def S_def [symmetric] by (rule sort, simp add: assms(1))+
  have "distinct (map fst (sort_key entry_key S))" using d by (simp add: distinct_map)
  moreover have "fst ` set S = (\<Union>l \<in> set ranked. set (snd l))"
  proof -
    have "x \<in> fst ` set S \<longleftrightarrow> rrf_score ranked k x \<noteq> None" for x using get by force
    then show ?thesis by (auto simp: rrf_score_None)
  qed
  moreover have "sorted_wrt (\<lambda>a b. f64_less (snd b) (snd a) \<or> \<not> f64_less (snd a) (snd b) \<and> fst a < fst b)
      (sort_key entry_key S)"
  proof -
    have "distinct (map entry_key (sort_key entry_key S))"
      using inj d by (simp add: distinct_map)
    then have "sorted_wrt (<) (map entry_key (sort_key entry_key S))" by (simp add: strict_sorted_iff)
    then have "sorted_wrt (\<lambda>a b. entry_key a < entry_key b) (sort_key entry_key S)" by (simp add: sorted_wrt_map)
    then show ?thesis
      by (rule sorted_wrt_mono_rel [rotated]) (auto simp: entry_key_def less_reverse_def less_eq_reverse_def f64_less_key ok)
  qed
  ultimately show ?thesis using get by (auto simp: r)
qed

section \<open>Properties\<close>

text \<open>
  C21. Fusion is deterministic and ranks as specified. For nonnegative finite weights and constant,
  whatever the iteration order of the hash map: the result is the same, each id of any list is in
  it exactly once and no other, its score is the sum, over the lists in order, of the weight
  divided by the constant plus the id's first rank in that list, in double precision, and of two
  entries the earlier one has the higher score, or an equal score and the smaller id.
\<close>

theorem rrf_fuse_deterministic:
  assumes "\<And>xs. mset (iter xs) = mset xs" and "weights_ok ranked" and "k_ok k"
  shows "rrf_fuse iter ranked k = rrf_fuse id ranked k \<and>
    distinct (map fst (rrf_fuse iter ranked k)) \<and>
    fst ` set (rrf_fuse iter ranked k) = (\<Union>l \<in> set ranked. set (snd l)) \<and>
    (\<forall>(x, s) \<in> set (rrf_fuse iter ranked k). rrf_score ranked k x = Some s) \<and>
    sorted_wrt (\<lambda>a b. f64_less (snd b) (snd a) \<or> \<not> f64_less (snd a) (snd b) \<and> fst a < fst b) (rrf_fuse iter ranked k)"
  using assms by (rule rrf_fuse_spec)

theorem rrf_fuse_deterministic_witness:
  "rrf_fuse rev [(Fin64 1 0, [U ''a'', U ''b'']), (Fin64 1 0, [U ''b''])] rrf_k =
   rrf_fuse id [(Fin64 1 0, [U ''a'', U ''b'']), (Fin64 1 0, [U ''b''])] rrf_k \<and>
   fst ` set (rrf_fuse rev [(Fin64 1 0, [U ''a'', U ''b'']), (Fin64 1 0, [U ''b''])] rrf_k) = {U ''a'', U ''b''}"
proof -
  have "weights_ok [(Fin64 1 0, [U ''a'', U ''b'']), (Fin64 1 0, [U ''b''])]" "k_ok rrf_k"
    by (simp_all add: weights_ok_def rrf_k_def)
  note fused = rrf_fuse_deterministic [where iter = rev, OF mset_rev this]
  have u: "(\<Union>l \<in> set [(Fin64 1 0, [U ''a'', U ''b'']), (Fin64 1 0, [U ''b''])]. set (snd l)) = {U ''a'', U ''b''}" by auto
  show ?thesis using fused unfolding u by blast
qed

end
