(* ===== verification/Retrieval.thy ===== *)
theory Retrieval
  imports Inbox Rank_Fusion
begin

text \<open>
  The hybrid search \<open>zynk query\<close>, \<open>src/zynk/retrieval/\<close>: a full-text leg, a vector leg that can only
  degrade, and their fusion. What SQLite's extensions compute is given by arguments: \<open>fts\<close> answers a
  MATCH expression over the index with an error or with the matching rows in the order of their
  score, \<open>knn\<close> answers the nearest stored vectors in the order of their distance; so are the outcome of
  opening the database, of building the embedder, and the iteration order of a hash map. Any
  statement may fail. The statements of one query see the same tables.
\<close>

section \<open>Filters and hits\<close>

record query_filters =
  qf_workspace :: "ustr option"
  qf_conversation :: "ustr option"
  qf_agent :: "ustr option"
  qf_since :: "ustr option"
  qf_message_type :: "ustr option"
  qf_branch :: "ustr option"
  qf_cwd :: "ustr option"
  qf_trace_id :: "ustr option"
  qf_limit :: nat
  qf_exact :: bool

definition default_filters :: query_filters where
  "default_filters = \<lparr>qf_workspace = None, qf_conversation = None, qf_agent = None, qf_since = None,
     qf_message_type = None, qf_branch = None, qf_cwd = None, qf_trace_id = None, qf_limit = 20, qf_exact = False\<rparr>"

definition max_limit :: nat where
  "max_limit = 200"

definition effective_limit :: "query_filters \<Rightarrow> nat" where
  "effective_limit f = max 1 (min max_limit (qf_limit f))"

definition filters_as_json :: "query_filters \<Rightarrow> json" where
  "filters_as_json f = JObj
     [(U ''workspace'', opt_str (qf_workspace f)), (U ''conversation'', opt_str (qf_conversation f)),
      (U ''agent'', opt_str (qf_agent f)), (U ''since'', opt_str (qf_since f)), (U ''type'', opt_str (qf_message_type f)),
      (U ''branch'', opt_str (qf_branch f)), (U ''cwd'', opt_str (qf_cwd f)), (U ''trace'', opt_str (qf_trace_id f)),
      (U ''limit'', JNum (int (effective_limit f))), (U ''exact'', JBool (qf_exact f))]"

record query_hit =
  qh_message_id :: ustr
  qh_conversation_id :: ustr
  qh_conversation_seq :: int
  qh_message_type :: "ustr option"
  qh_from :: ustr
  qh_to :: ustr
  qh_workspace_id :: ustr
  qh_tab_id :: ustr
  qh_branch :: "ustr option"
  qh_cwd :: "ustr option"
  qh_created_at :: ustr
  qh_trace_id :: "ustr option"
  qh_score :: f64
  qh_matched_modes :: "ustr list"
  qh_bm25_rank :: "nat option"
  qh_vector_rank :: "nat option"
  qh_snippet :: "ustr option"
  qh_delivery_status :: "ustr option"

text \<open>The condition \<open>? IS NULL OR column = ?\<close>, which a NULL column does not satisfy.\<close>

definition unset_or :: "'a option \<Rightarrow> ('a \<Rightarrow> bool) \<Rightarrow> bool" where
  "unset_or v P \<longleftrightarrow> (case v of None \<Rightarrow> True | Some x \<Rightarrow> P x)"

definition prefilter :: "env \<Rightarrow> query_filters \<Rightarrow> joined_row \<Rightarrow> bool" where
  "prefilter E f r \<longleftrightarrow>
     (case r of (m, fp, tp) \<Rightarrow>
       unset_or (qf_workspace f) (\<lambda>x. m_workspace m = x) \<and>
       unset_or (qf_conversation f) (\<lambda>x. m_conversation m = x) \<and>
       unset_or (qf_since f) (\<lambda>x. x \<le> m_created_at m) \<and>
       unset_or (qf_message_type f) (\<lambda>x. m_type m = Some x) \<and>
       unset_or (qf_branch f) (\<lambda>x. m_branch m = Some x) \<and>
       unset_or (qf_cwd f) (\<lambda>x. m_cwd m = Some x) \<and>
       unset_or (qf_agent f) (\<lambda>x. pt_label fp = x \<or> pt_label tp = x) \<and>
       unset_or (qf_trace_id f) (\<lambda>x. json_extract E (m_meta m) (U ''$.trace_id'') = Some x))"

definition build_hit :: "env \<Rightarrow> db \<Rightarrow> joined_row \<Rightarrow> f64 \<Rightarrow> ustr list \<Rightarrow> nat option \<Rightarrow> ustr option \<Rightarrow> query_hit" where
  "build_hit E d r score modes bm25_rank snippet =
     (case r of (m, fp, tp) \<Rightarrow>
       \<lparr>qh_message_id = m_id m, qh_conversation_id = m_conversation m, qh_conversation_seq = m_seq m,
        qh_message_type = m_type m, qh_from = pt_label fp, qh_to = pt_label tp, qh_workspace_id = m_workspace m,
        qh_tab_id = m_tab m, qh_branch = m_branch m, qh_cwd = m_cwd m, qh_created_at = m_created_at m,
        qh_trace_id = json_extract E (m_meta m) (U ''$.trace_id''), qh_score = score, qh_matched_modes = modes,
        qh_bm25_rank = bm25_rank, qh_vector_rank = None, qh_snippet = snippet,
        qh_delivery_status = latest_delivery_status d (m_id m)\<rparr>)"

section \<open>The full-text leg\<close>

type_synonym fts_engine = "ustr \<Rightarrow> fts_row list \<Rightarrow> (ustr option \<times> ustr) + (nat \<times> f64 \<times> ustr option) list"

definition classify_fts_error :: "ustr option \<Rightarrow> ustr \<Rightarrow> db_error" where
  "classify_fts_error code message =
     (if code = Some (U ''5'') then \<lparr>de_code = U ''persistence_busy'', de_message = message\<rparr>
      else if code = Some (U ''1'') then \<lparr>de_code = U ''fts_query_error'', de_message = message\<rparr>
      else \<lparr>de_code = U ''db_error'', de_message = message\<rparr>)"

definition match_expression :: "bool \<Rightarrow> ustr \<Rightarrow> ustr" where
  "match_expression exact query =
     (if exact then [34] @ concat (map (\<lambda>ch. if ch = 34 then [34, 34] else [ch]) query) @ [34] else query)"

definition sql_bm25 :: "env \<Rightarrow> fts_engine \<Rightarrow> ustr \<Rightarrow> query_filters \<Rightarrow> (joined_row \<times> f64 \<times> ustr option) list stmt" where
  "sql_bm25 E fts expression f d =
     (case fts expression (messages_fts d) of
        Inl (code, message) \<Rightarrow> Inl (classify_fts_error code message)
      | Inr found \<Rightarrow>
          Inr (d, take (effective_limit f)
            (concat (map (\<lambda>(rowid, score, snippet).
               map (\<lambda>r. (r, score, snippet))
                 (filter (\<lambda>r. m_rowid (fst r) = rowid \<and> prefilter E f r) (message_join d))) found))))"

definition number_hits :: "env \<Rightarrow> db \<Rightarrow> (joined_row \<times> f64 \<times> ustr option) list \<Rightarrow> query_hit list" where
  "number_hits E d rows =
     map (\<lambda>(i, r, score, snippet). build_hit E d r score [U ''bm25''] (Some (i + 1)) snippet)
       (zip [0..<length rows] rows)"

definition bm25_search :: "env \<Rightarrow> fts_engine \<Rightarrow> ustr \<Rightarrow> query_filters \<Rightarrow> query_hit list dbm" where
  "bm25_search E fts query f c =
     dbind (exec E (sql_bm25 E fts (match_expression (qf_exact f) query) f))
       (\<lambda>rows. dreturn (number_hits E (visible c) rows)) c"

section \<open>The vector leg\<close>

record vector_outcome =
  vo_hits :: "query_hit list"
  vo_functional :: bool
  vo_pending_jobs :: nat
  vo_model_id :: "ustr option"

definition degraded :: "nat \<Rightarrow> ustr option \<Rightarrow> vector_outcome" where
  "degraded pending_jobs model_id =
     \<lparr>vo_hits = [], vo_functional = False, vo_pending_jobs = pending_jobs, vo_model_id = model_id\<rparr>"

type_synonym knn_engine = "ustr \<Rightarrow> f32 list \<Rightarrow> nat \<Rightarrow> db \<Rightarrow> (nat \<times> f64) list"

definition sql_pending_jobs :: "ustr \<Rightarrow> nat stmt" where
  "sql_pending_jobs model_id d =
     Inr (d, length (filter (\<lambda>j. j_model j = model_id \<and> j_status j \<noteq> U ''done'') (embedding_jobs d)))"

definition sql_model :: "ustr \<Rightarrow> (ustr \<times> nat) option stmt" where
  "sql_model model_id d =
     Inr (d, map_option (\<lambda>r. (mo_vec_table r, mo_dim r)) (find (\<lambda>r. mo_id r = model_id) (embedding_models d)))"

definition sql_table_exists :: "ustr \<Rightarrow> bool stmt" where
  "sql_table_exists vec_table d = Inr (d, vec_table \<in> set (map fst (vec_tables d)))"

definition candidate_k :: "query_filters \<Rightarrow> nat" where
  "candidate_k f = max (effective_limit f) (min 512 (effective_limit f * 8))"

fun candidates :: "(nat \<times> f64) list \<Rightarrow> nat list \<Rightarrow> (nat \<times> f64) list \<Rightarrow> nat list \<times> (nat \<times> f64) list" where
  "candidates [] rowids distances = (rowids, distances)"
| "candidates ((rowid, distance) # rest) rowids distances =
     candidates rest (if map_of distances rowid = None then rowids @ [rowid] else rowids)
       (AList.update rowid distance distances)"

definition sql_provenance :: "env \<Rightarrow> nat list \<Rightarrow> query_filters \<Rightarrow> joined_row list stmt" where
  "sql_provenance E rowids f d =
     Inr (d, filter (\<lambda>r. m_rowid (fst r) \<in> set rowids \<and> prefilter E f r) (message_join d))"

definition hits_by_rowid :: "env \<Rightarrow> db \<Rightarrow> (nat \<times> f64) list \<Rightarrow> joined_row list \<Rightarrow> (nat \<times> query_hit) list" where
  "hits_by_rowid E d distances rows =
     fold (\<lambda>r. AList.update (m_rowid (fst r))
       (build_hit E d r (case map_of distances (m_rowid (fst r)) of Some x \<Rightarrow> x | None \<Rightarrow> Fin64 0 0)
          [U ''vector''] None None)) rows []"

fun walk_candidates :: "nat \<Rightarrow> nat list \<Rightarrow> (nat \<times> query_hit) list \<Rightarrow> query_hit list" where
  "walk_candidates rank [] by_rowid = []"
| "walk_candidates rank (rowid # rest) by_rowid =
     (case map_of by_rowid rowid of
        None \<Rightarrow> walk_candidates rank rest by_rowid
      | Some hit \<Rightarrow> hit\<lparr>qh_vector_rank := Some (rank + 1)\<rparr>
          # walk_candidates (rank + 1) rest (AList.delete rowid by_rowid))"

text \<open>The vector that the built embedder gives for the query, when it has the dimension of the table.\<close>

definition query_vector :: "embed_error + embedder \<Rightarrow> nat \<Rightarrow> ustr \<Rightarrow> f32 list option" where
  "query_vector built dimension query =
     (case built of
        Inl _ \<Rightarrow> None
      | Inr emb \<Rightarrow>
          (case emb query of
             Inr (v # _) \<Rightarrow> if length v = dimension then Some v else None
           | _ \<Rightarrow> None))"

definition knn_rows :: "env \<Rightarrow> knn_engine \<Rightarrow> ustr \<Rightarrow> f32 list \<Rightarrow> query_filters \<Rightarrow> query_hit list dbm" where
  "knn_rows E knn vec_table v f c =
     dbind (exec E (\<lambda>d. Inr (d, knn vec_table v (candidate_k f) d))) (\<lambda>found.
       if found = [] then dreturn []
       else let (rowids, distances) = candidates found [] []
            in dbind (exec E (sql_provenance E rowids f)) (\<lambda>rows.
               dreturn (walk_candidates 0 rowids (hits_by_rowid E (visible c) distances rows)))) c"

definition knn_search ::
  "env \<Rightarrow> ustr \<Rightarrow> embed_error + embedder \<Rightarrow> knn_engine \<Rightarrow> ustr \<Rightarrow> query_filters \<Rightarrow> conn \<Rightarrow> vector_outcome" where
  "knn_search E model_id built knn query f c =
     (if model_id = [] then degraded 0 None
      else case exec E (sql_pending_jobs model_id) c of
        (Inl _, _) \<Rightarrow> degraded 0 (Some model_id)
      | (Inr pending, c1) \<Rightarrow>
          (case exec E (sql_model model_id) c1 of
             (Inr (Some (vec_table, dimension)), c2) \<Rightarrow>
               (case exec E (sql_table_exists vec_table) c2 of
                  (Inr True, c3) \<Rightarrow>
                    (case query_vector built dimension query of
                       None \<Rightarrow> degraded pending (Some model_id)
                     | Some v \<Rightarrow>
                         (case knn_rows E knn vec_table v f c3 of
                            (Inl _, _) \<Rightarrow> degraded pending (Some model_id)
                          | (Inr hits, _) \<Rightarrow>
                              \<lparr>vo_hits = hits, vo_functional = True, vo_pending_jobs = pending,
                               vo_model_id = Some model_id\<rparr>))
                | _ \<Rightarrow> degraded pending (Some model_id))
           | _ \<Rightarrow> degraded pending (Some model_id)))"

section \<open>Fusion of the legs\<close>

text \<open>The positions of the ids of a list; of a repeated id the last one stays in the map.\<close>

definition id_positions :: "ustr list \<Rightarrow> ustr \<Rightarrow> nat option" where
  "id_positions ids = map_of (rev (zip ids [1..<length ids + 1]))"

definition provenance :: "query_hit list \<Rightarrow> query_hit list \<Rightarrow> query_hit hmap" where
  "provenance bm25_hits vec_hits =
     fold (\<lambda>h. hput (qh_message_id h) h) bm25_hits
       (fold (\<lambda>h m. if hget m (qh_message_id h) = None then hput (qh_message_id h) h m else m) vec_hits [])"

fun fused_hits ::
  "(ustr \<Rightarrow> nat option) \<Rightarrow> (ustr \<Rightarrow> nat option) \<Rightarrow> (ustr \<times> f64) list \<Rightarrow> query_hit hmap \<Rightarrow> query_hit list" where
  "fused_hits bm25_pos vec_pos [] prov = []"
| "fused_hits bm25_pos vec_pos ((i, fused_score) # rest) prov =
     (case hget prov i of
        None \<Rightarrow> fused_hits bm25_pos vec_pos rest prov
      | Some hit \<Rightarrow>
          hit\<lparr>qh_matched_modes := (if bm25_pos i \<noteq> None then [U ''bm25''] else []) @
                (if vec_pos i \<noteq> None then [U ''vector''] else []),
              qh_bm25_rank := bm25_pos i, qh_vector_rank := vec_pos i, qh_score := fused_score\<rparr>
          # fused_hits bm25_pos vec_pos rest (hdel i prov))"

definition vector_index :: "vector_outcome \<Rightarrow> json" where
  "vector_index v = JObj
     [(U ''ready'', JBool (vo_functional v \<and> vo_pending_jobs v = 0)),
      (U ''pending_jobs'', JNum (int (vo_pending_jobs v))), (U ''model_id'', opt_str (vo_model_id v))]"

definition fuse_results ::
  "(f64 hmap \<Rightarrow> f64 hmap) \<Rightarrow> query_hit list \<Rightarrow> vector_outcome \<Rightarrow> query_filters \<Rightarrow> query_hit list \<times> ustr \<times> json" where
  "fuse_results iter bm25_hits v f =
     (if \<not> vo_functional v \<or> vo_hits v = [] then (take (effective_limit f) bm25_hits, U ''bm25'', vector_index v)
      else
        let bm25_ids = map qh_message_id bm25_hits;
            vec_ids = map qh_message_id (vo_hits v);
            fused = rrf_fuse iter [(Fin64 1 0, bm25_ids), (Fin64 1 0, vec_ids)] rrf_k
        in (fused_hits (id_positions bm25_ids) (id_positions vec_ids) (take (effective_limit f) fused)
              (provenance bm25_hits (vo_hits v)), U ''rrf'', vector_index v))"

section \<open>Responses\<close>

datatype query_status = QueryOk | QueryFailed

record query_response =
  qr_result :: query_status
  qr_command :: ustr
  qr_response_type :: "ustr option"
  qr_query :: "ustr option"
  qr_filters :: "json option"
  qr_ranking :: "ustr option"
  qr_vector_index :: "json option"
  qr_count :: "nat option"
  qr_results :: "query_hit list option"
  qr_code :: "ustr option"
  qr_message :: "ustr option"
  qr_context :: "json option"
  qr_next :: ustr

definition query_command :: ustr where
  "query_command = U ''zynk query''"

text \<open>\<open>[8741]\<close>, \<open>[8594]\<close>, \<open>[8212]\<close> and \<open>[183]\<close> are the parallel sign, the arrow, the dash and the middle dot.\<close>

definition next_hint :: "ustr \<Rightarrow> bool \<Rightarrow> nat \<Rightarrow> ustr" where
  "next_hint ranking vector_ready hit_count =
     (if ranking = U ''rrf'' then
        U ''hybrid (BM25 '' @ [8741] @ U '' vector '' @ [8594] @ U '' RRF) results'' @
        (if vector_ready then []
         else U '' using the landed vectors; some embeddings are still pending '' @ [8212] @
           U '' re-run as they complete for fuller vector coverage'')
      else if hit_count = 0 then U ''no matches '' @ [8212] @ U '' broaden the query tokens or relax --filters''
      else if \<not> vector_ready then
        U ''vectors are still landing (or unavailable) '' @ [8212] @
        U '' results are BM25-only for now; re-run shortly for full hybrid (RRF) ranking''
      else U ''BM25-only results (vector index ready but no vector hits to fuse)'')"

definition json_ready :: "json \<Rightarrow> bool" where
  "json_ready j = (case json_get j (U ''ready'') of Some (JBool b) \<Rightarrow> b | _ \<Rightarrow> False)"

definition query_ok :: "ustr \<Rightarrow> query_filters \<Rightarrow> query_hit list \<Rightarrow> ustr \<Rightarrow> json \<Rightarrow> query_response" where
  "query_ok query f hits ranking index =
     \<lparr>qr_result = QueryOk, qr_command = query_command, qr_response_type = Some (U ''zynk_query_result''),
      qr_query = Some query, qr_filters = Some (filters_as_json f), qr_ranking = Some ranking,
      qr_vector_index = Some index, qr_count = Some (length hits), qr_results = Some hits, qr_code = None,
      qr_message = None, qr_context = None, qr_next = next_hint ranking (json_ready index) (length hits)\<rparr>"

definition query_failed :: "ustr \<Rightarrow> ustr \<Rightarrow> json \<Rightarrow> ustr \<Rightarrow> query_response" where
  "query_failed code message context hint =
     \<lparr>qr_result = QueryFailed, qr_command = query_command, qr_response_type = None, qr_query = None,
      qr_filters = None, qr_ranking = None, qr_vector_index = None, qr_count = None, qr_results = None,
      qr_code = Some code, qr_message = Some message, qr_context = Some context, qr_next = hint\<rparr>"

definition query_invalid_filter :: "ustr \<Rightarrow> json \<Rightarrow> query_response" where
  "query_invalid_filter message context =
     query_failed (U ''invalid_filter'') message context
       (U ''correct the filter value (--since must be RFC3339; --limit a non-negative integer)'')"

definition hit_line :: "nat \<Rightarrow> query_hit \<Rightarrow> ustr" where
  "hit_line i h =
     U ''#'' @ dec (i + 1) @ U ''  '' @ qh_message_id h @ U ''  '' @ qh_from h @ [8594] @ qh_to h @ U ''  '' @
     unwrap_or (qh_message_type h) (U ''-'') @ U ''  ['' @ unwrap_or (qh_delivery_status h) (U ''?'') @ U '']  '' @
     join (U '' '') ((case qh_bm25_rank h of Some r \<Rightarrow> [U ''bm25#'' @ dec r] | None \<Rightarrow> []) @
       (case qh_vector_rank h of Some r \<Rightarrow> [U ''vec#'' @ dec r] | None \<Rightarrow> [])) @ [10] @
     (case qh_snippet h of Some s \<Rightarrow> U ''    '' @ s @ [10] | None \<Rightarrow> []) @
     U ''    '' @ qh_conversation_id h @ U ''#'' @ dec_int (qh_conversation_seq h) @ U '' '' @ [183] @ U '' '' @
     unwrap_or (qh_branch h) (U ''-'') @ U '' '' @ [183] @ U '' '' @ qh_created_at h @ [10]"

definition query_to_human :: "env \<Rightarrow> query_response \<Rightarrow> ustr" where
  "query_to_human E r =
     (if qr_result r = QueryFailed
      then U ''query failed ['' @ unwrap_or (qr_code r) (U ''error'') @ U '']: '' @ unwrap_or (qr_message r) []
      else let hits = unwrap_or (qr_results r) []
           in if hits = [] then U ''0 results for '' @ debug_str E (unwrap_or (qr_query r) []) @ [10] @ qr_next r
              else concat (map (\<lambda>(i, h). hit_line i h) (zip [0..<length hits] hits)) @
                dec (length hits) @ U '' result(s)'')"

section \<open>The query\<close>

definition run_query ::
  "env \<Rightarrow> fts_engine \<Rightarrow> ustr \<Rightarrow> embed_error + embedder \<Rightarrow> knn_engine \<Rightarrow> (f64 hmap \<Rightarrow> f64 hmap) \<Rightarrow>
   db_error + conn \<Rightarrow> ustr \<Rightarrow> query_filters \<Rightarrow> query_response" where
  "run_query E fts model_id built knn iter opened text f =
     (let trimmed = trim text
      in if trimmed = [] then
           query_failed (U ''invalid_query'') (U ''query text is empty'') (JObj [(U ''query'', JStr text)])
             (U ''supply a non-empty query; quote a phrase for exact match'')
         else
           (case (case opened of
                    Inl err \<Rightarrow> Inl err
                  | Inr c \<Rightarrow>
                      (case bm25_search E fts trimmed f c of
                         (Inl err, _) \<Rightarrow> Inl err
                       | (Inr bm25_hits, c1) \<Rightarrow> Inr (bm25_hits, knn_search E model_id built knn trimmed f c1))) of
              Inr (bm25_hits, v) \<Rightarrow>
                (case fuse_results iter bm25_hits v f of
                   (hits, ranking, index) \<Rightarrow> query_ok trimmed f hits ranking index)
            | Inl err \<Rightarrow>
                (if de_code err = U ''fts_query_error'' then
                   query_failed (U ''invalid_query'')
                     (U ''malformed FTS5 query '' @ [8212] @ U '' balance quotes and check FTS5 operators'')
                     (JObj [(U ''query'', JStr trimmed), (U ''detail'', JStr (de_message err))])
                     (U ''fix the FTS5 syntax (balance quotes); or drop operators for a plain term search'')
                 else
                   query_failed (U ''db_unavailable'') (U ''the zynk database could not be opened or queried'')
                     (JObj [(U ''code'', JStr (de_code err)), (U ''detail'', JStr (de_message err))])
                     (U ''run `zynk db status` (the native database is ZYNK_HOME/zynk.db or ~/.zynk/zynk.db; ZYNK_SQLITE_HOME overrides the directory)''))))"

section \<open>Every hit is a stored message that passes the filters\<close>

text \<open>
  What it means for a stored message to satisfy the filters that are set, independently of the
  statement that selects it; \<open>agent\<close> is the label of its sender or of its target.
\<close>

definition passes :: "env \<Rightarrow> query_filters \<Rightarrow> db \<Rightarrow> message_row \<Rightarrow> bool" where
  "passes E f d m \<longleftrightarrow>
     (\<forall>x. qf_workspace f = Some x \<longrightarrow> m_workspace m = x) \<and>
     (\<forall>x. qf_conversation f = Some x \<longrightarrow> m_conversation m = x) \<and>
     (\<forall>x. qf_since f = Some x \<longrightarrow> x \<le> m_created_at m) \<and>
     (\<forall>x. qf_message_type f = Some x \<longrightarrow> m_type m = Some x) \<and>
     (\<forall>x. qf_branch f = Some x \<longrightarrow> m_branch m = Some x) \<and>
     (\<forall>x. qf_cwd f = Some x \<longrightarrow> m_cwd m = Some x) \<and>
     (\<forall>x. qf_agent f = Some x \<longrightarrow>
        (\<exists>p \<in> set (participants d). pt_label p = x \<and> (pt_id p = m_from m \<or> pt_id p = m_to m))) \<and>
     (\<forall>x. qf_trace_id f = Some x \<longrightarrow> json_extract E (m_meta m) (U ''$.trace_id'') = Some x)"

lemma participant_of_unique:
  assumes "store_inv d" and "m \<in> set (messages d)" and "i = m_from m \<or> i = m_to m"
  shows "p \<in> set (participants d) \<and> pt_id p = i \<longleftrightarrow> p = participant_of d i"
proof -
  have "i \<in> pt_id ` set (participants d)" "part_inv d"
    using assms by (auto simp: store_inv_def msg_refs_def)
  from arg_cong [OF participant_of [OF this(2,1)], of set] show ?thesis by auto
qed

lemma prefilter_passes:
  assumes "store_inv d" and "m \<in> set (messages d)"
  shows "prefilter E f (m, participant_of d (m_from m), participant_of d (m_to m)) \<longleftrightarrow> passes E f d m"
proof -
  have "(\<exists>p \<in> set (participants d). pt_label p = x \<and> (pt_id p = m_from m \<or> pt_id p = m_to m)) \<longleftrightarrow>
      pt_label (participant_of d (m_from m)) = x \<or> pt_label (participant_of d (m_to m)) = x" for x
    using participant_of_unique [OF assms disjI1 [OF refl]] participant_of_unique [OF assms disjI2 [OF refl]] by metis
  then show ?thesis
    by (simp add: prefilter_def passes_def unset_or_def split: option.splits)
qed

definition stored_hit :: "env \<Rightarrow> db \<Rightarrow> query_filters \<Rightarrow> query_hit \<Rightarrow> bool" where
  "stored_hit E d f h \<longleftrightarrow>
     (\<exists>r \<in> set (message_join d). prefilter E f r \<and> qh_message_id h = m_id (fst r) \<and>
        qh_from h = pt_label (fst (snd r)) \<and> qh_to h = pt_label (snd (snd r)) \<and>
        qh_delivery_status h = latest_delivery_status d (m_id (fst r)))"

lemma stored_hit_message:
  assumes "store_inv d" and "stored_hit E d f h"
  shows "\<exists>m \<in> set (messages d). qh_message_id h = m_id m \<and> passes E f d m \<and>
    (\<exists>p \<in> set (participants d). pt_id p = m_from m \<and> qh_from h = pt_label p) \<and>
    (\<exists>p \<in> set (participants d). pt_id p = m_to m \<and> qh_to h = pt_label p) \<and>
    qh_delivery_status h = (if history d (m_id m) = [] then None else Some (last (history d (m_id m))))"
proof -
  from assms(2) obtain m where m: "m \<in> set (messages d)"
    "prefilter E f (m, participant_of d (m_from m), participant_of d (m_to m))" "qh_message_id h = m_id m"
    "qh_from h = pt_label (participant_of d (m_from m))" "qh_to h = pt_label (participant_of d (m_to m))"
    "qh_delivery_status h = latest_delivery_status d (m_id m)"
    unfolding stored_hit_def message_join_store [OF assms(1)] by auto
  have "participant_of d (m_from m) \<in> set (participants d) \<and> pt_id (participant_of d (m_from m)) = m_from m"
    "participant_of d (m_to m) \<in> set (participants d) \<and> pt_id (participant_of d (m_to m)) = m_to m"
    using participant_of_unique [OF assms(1) m(1)] by blast+
  then show ?thesis
    using m prefilter_passes [OF assms(1) m(1)] delivery_status_last [OF assms(1), of "m_id m"]
    by (intro bexI [OF _ m(1)] conjI) (simp_all, blast+)
qed

lemma stored_hit_updates [simp]:
  "stored_hit E d f (h\<lparr>qh_vector_rank := v\<rparr>) = stored_hit E d f h"
  "stored_hit E d f (h\<lparr>qh_matched_modes := ms, qh_bm25_rank := b, qh_vector_rank := v, qh_score := s\<rparr>) = stored_hit E d f h"
  by (simp_all add: stored_hit_def)

lemma stored_build_hit:
  "r \<in> set (message_join d) \<Longrightarrow> prefilter E f r \<Longrightarrow> stored_hit E d f (build_hit E d r score modes b s)"
  by (cases r) (auto simp: stored_hit_def build_hit_def intro!: bexI [of _ r])

lemma build_hit_id [simp]: "qh_message_id (build_hit E d r score modes b s) = m_id (fst r)"
  by (cases r) (simp add: build_hit_def)

lemma number_hits_set:
  "h \<in> set (number_hits E d rows) \<Longrightarrow> \<exists>r score s b. (r, score, s) \<in> set rows \<and> h = build_hit E d r score [U ''bm25''] b s"
  unfolding number_hits_def by (auto dest!: set_zip_rightD) blast

lemma number_hits_ids: "map qh_message_id (number_hits E d rows) = map (\<lambda>r. m_id (fst (fst r))) rows"
  by (auto simp: number_hits_def o_def case_prod_beta map_zip_map2 intro!: nth_equalityI)

text \<open>A rowid selects at most one joined row.\<close>

lemma rowid_filter:
  assumes "store_inv d"
  shows "length (filter (\<lambda>r. m_rowid (fst r) = rowid \<and> P r) (message_join d)) \<le> 1" (is "length ?l \<le> 1")
proof -
  have "distinct (map (\<lambda>r. m_rowid (fst r)) (message_join d))"
    using assms by (simp add: message_join_store [OF assms] o_def store_inv_def idx_inv_def)
  then have 1: "distinct (map (\<lambda>r. m_rowid (fst r)) ?l)" by (rule distinct_map_filter)
  have "set (map (\<lambda>r. m_rowid (fst r)) ?l) \<subseteq> {rowid}" by auto
  then have "card (set (map (\<lambda>r. m_rowid (fst r)) ?l)) \<le> card {rowid}" by (intro card_mono) simp_all
  then show ?thesis using distinct_card [OF 1] by simp
qed

lemma concat_key_distinct:
  assumes "distinct (map key xs)" and "\<And>x. x \<in> set xs \<Longrightarrow> length (f x) \<le> 1"
    and "\<And>x y. x \<in> set xs \<Longrightarrow> y \<in> set (f x) \<Longrightarrow> g y = key x"
  shows "distinct (map g (concat (map f xs)))"
  using assms
proof (induction xs)
  case (Cons x xs)
  have IH: "distinct (map g (concat (map f xs)))" using Cons by simp
  have "g ` set (concat (map f xs)) \<subseteq> key ` set xs" using Cons.prems(3) by force
  moreover have "key x \<notin> key ` set xs" using Cons.prems(1) by simp
  ultimately have 1: "key x \<notin> g ` set (concat (map f xs))" by blast
  consider "f x = []" | y where "f x = [y]" "g y = key x"
    using Cons.prems(2) [of x] Cons.prems(3) [of x] by (cases "f x") auto
  then show ?case
  proof cases
    case (2 y)
    with IH 1 show ?thesis by simp
  qed (use IH in simp)
qed simp

text \<open>What is relied on of the full-text engine: it matches a row of the index at most once.\<close>

definition fts_ok :: "fts_engine \<Rightarrow> bool" where
  "fts_ok fts \<longleftrightarrow> (\<forall>q rows found. fts q rows = Inr found \<longrightarrow> distinct (map fst found))"

lemma bm25_rows:
  assumes "store_inv d" and "fts_ok fts"
    and run: "sql_bm25 E fts q f d = Inr (d', rows)"
  shows "d' = d \<and> length rows \<le> effective_limit f \<and> distinct (map (\<lambda>r. m_id (fst (fst r))) rows) \<and>
    (\<forall>r \<in> set rows. fst r \<in> set (message_join d) \<and> prefilter E f (fst r)) \<and>
    (\<exists>found. fts q (messages_fts d) = Inr found \<and> (length rows < effective_limit f \<longrightarrow>
       (\<forall>r \<in> set (message_join d). m_rowid (fst r) \<in> fst ` set found \<and> prefilter E f r \<longrightarrow> r \<in> fst ` set rows)))"
proof -
  obtain found where found: "fts q (messages_fts d) = Inr found"
    using run by (cases "fts q (messages_fts d)") (auto simp: sql_bm25_def)
  define one where "one = (\<lambda>(rowid, score, snippet). map (\<lambda>r. (r, score :: f64, snippet :: ustr option))
      (filter (\<lambda>r. m_rowid (fst r) = rowid \<and> prefilter E f r) (message_join d)))"
  let ?all = "concat (map one found)"
  have "d = d' \<and> take (effective_limit f) ?all = rows"
    using run unfolding sql_bm25_def found one_def sum.case sum.inject prod.inject .
  then have rows: "rows = take (effective_limit f) ?all" "d' = d" by simp_all
  have one: "length (one x) \<le> 1" "y \<in> set (one x) \<Longrightarrow> m_rowid (fst (fst y)) = fst x"
    "y \<in> set (one x) \<Longrightarrow> fst y \<in> set (message_join d) \<and> prefilter E f (fst y)" for x y
    by (cases x; auto simp: one_def rowid_filter [OF assms(1), simplified])+
  have in_join: "fst r \<in> set (message_join d) \<and> prefilter E f (fst r)" if "r \<in> set ?all" for r
  proof -
    from that obtain x where "r \<in> set (one x)" by (auto simp del: split_paired_Ex split_paired_All)
    then show ?thesis by (rule one(3))
  qed
  let ?ms = "map (\<lambda>r. fst (fst r)) ?all"
  have "distinct (map (\<lambda>r. m_rowid (fst (fst r))) ?all)"
    by (rule concat_key_distinct [OF assms(2) [unfolded fts_ok_def, rule_format, OF found] one(1) one(2)])
  then have "distinct (map m_rowid ?ms)" by (simp only: map_map o_def)
  then have dms: "distinct ?ms" unfolding distinct_map by blast
  have "fst (fst r) \<in> set (messages d)" if "r \<in> set ?all" for r
    using in_join [OF that] by (auto simp: message_join_store [OF assms(1)])
  then have "set ?ms \<subseteq> set (messages d)" unfolding set_map by blast
  moreover have "inj_on m_id (set (messages d))" using assms(1) by (simp add: store_inv_def msg_refs_def distinct_map)
  ultimately have "inj_on m_id (set ?ms)" by (rule inj_on_subset [rotated])
  with dms have "distinct (map m_id ?ms)" unfolding distinct_map by blast
  then have "distinct (map (\<lambda>r. m_id (fst (fst r))) ?all)" by (simp only: map_map o_def)
  then have "distinct (map (\<lambda>r. m_id (fst (fst r))) rows)" by (simp add: rows take_map [symmetric])
  moreover have "set rows \<subseteq> set ?all" unfolding rows by (rule set_take_subset)
  then have "\<forall>r \<in> set rows. fst r \<in> set (message_join d) \<and> prefilter E f (fst r)" using in_join by blast
  moreover have "length rows \<le> effective_limit f" by (simp add: rows(1))
  moreover have "r \<in> fst ` set rows"
    if "length rows < effective_limit f" "r \<in> set (message_join d)" "m_rowid (fst r) \<in> fst ` set found" "prefilter E f r" for r
  proof -
    have "rows = ?all" using that(1) unfolding rows(1) by (simp only: length_take min_less_iff_conj less_irrefl not_less [symmetric] take_all_iff)
    moreover from that(3) obtain x where "x \<in> set found" "fst x = m_rowid (fst r)" by auto
    obtain rowid score snippet where xs: "x = (rowid, score, snippet)" by (cases x)
    have "(r, score, snippet) \<in> set (one x)"
      using that(2,4) \<open>fst x = m_rowid (fst r)\<close> by (simp add: xs one_def)
    then have "(r, score, snippet) \<in> set ?all" using \<open>x \<in> set found\<close> by (simp only: set_concat set_map) blast
    ultimately show ?thesis by (metis fst_conv image_eqI)
  qed
  ultimately show ?thesis using rows(2) found by (intro conjI exI [of _ found] impI ballI) simp_all
qed

lemma bm25_hits:
  assumes "store_inv (visible c)" and "fts_ok fts"
    and run: "bm25_search E fts query f c = (Inr hits, c')"
  shows "visible c' = visible c \<and> length hits \<le> effective_limit f \<and> distinct (map qh_message_id hits) \<and>
    (\<forall>h \<in> set hits. stored_hit E (visible c) f h) \<and> stmts c' = Suc (stmts c) \<and>
    (\<exists>found. fts (match_expression (qf_exact f) query) (messages_fts (visible c)) = Inr found \<and>
       (length hits < effective_limit f \<longrightarrow>
         (\<forall>r \<in> set (message_join (visible c)). m_rowid (fst r) \<in> fst ` set found \<and> prefilter E f r \<longrightarrow>
            m_id (fst r) \<in> qh_message_id ` set hits)))"
proof -
  let ?q = "sql_bm25 E fts (match_expression (qf_exact f) query) f"
  obtain rows where x: "exec E ?q c = (Inr rows, c')" and hits: "hits = number_hits E (visible c) rows"
    using run by (auto simp: bm25_search_def dbind_def dreturn_def split: prod.splits sum.splits)
  from x have "fault E (stmts c) = None"
    by (auto simp: exec_def attempt_def Let_def split: option.splits prod.splits)
  have vis: "visible (c\<lparr>stmts := Suc (stmts c)\<rparr>) = visible c" by (cases "txn c") (simp_all add: visible_def)
  from x \<open>fault E (stmts c) = None\<close> obtain d' where q: "?q (visible c) = Inr (d', rows)"
    and c': "c' = store d' (c\<lparr>stmts := Suc (stmts c)\<rparr>)"
    by (auto simp: exec_def attempt_def Let_def vis split: sum.splits)
  note b = bm25_rows [OF assms(1,2) q]
  have "visible c' = visible c" using b c' by (cases "txn c") (simp_all add: visible_def store_def)
  moreover have "length hits = length rows" by (simp add: hits number_hits_def)
  moreover have "stored_hit E (visible c) f h" if "h \<in> set hits" for h
    using number_hits_set [of h E "visible c" rows] that b stored_build_hit by (fastforce simp: hits)
  moreover have "qh_message_id ` set hits = (\<lambda>r. m_id (fst r)) ` fst ` set rows"
    unfolding set_map [symmetric] hits number_hits_ids by (simp add: image_image)
  moreover have "stmts c' = Suc (stmts c)" using c' by (cases "txn c") (simp_all add: store_def)
  moreover have "distinct (map qh_message_id hits)" using b by (simp add: hits number_hits_ids)
  moreover obtain found where "fts (match_expression (qf_exact f) query) (messages_fts (visible c)) = Inr found"
    "length rows < effective_limit f \<longrightarrow> (\<forall>r \<in> set (message_join (visible c)).
       m_rowid (fst r) \<in> fst ` set found \<and> prefilter E f r \<longrightarrow> r \<in> fst ` set rows)"
    using b by blast
  ultimately show ?thesis
    using b by (intro conjI exI [of _ found]) (simp_all add: image_iff, blast)
qed

text \<open>Hash maps all of whose values are such hits.\<close>

definition stored_hits :: "env \<Rightarrow> db \<Rightarrow> query_filters \<Rightarrow> ('k \<times> query_hit) list \<Rightarrow> bool" where
  "stored_hits E d f m \<longleftrightarrow> (\<forall>i h. map_of m i = Some h \<longrightarrow> stored_hit E d f h)"

lemma stored_hits_update: "stored_hits E d f m \<Longrightarrow> stored_hit E d f h \<Longrightarrow> stored_hits E d f (AList.update i h m)"
  by (simp add: stored_hits_def update_conv')

lemma stored_hits_delete: "stored_hits E d f m \<Longrightarrow> stored_hits E d f (AList.delete i m)"
  by (simp add: stored_hits_def delete_conv')

lemma hits_by_rowid_stored:
  assumes "\<forall>r \<in> set rows. r \<in> set (message_join d) \<and> prefilter E f r"
  shows "stored_hits E d f (hits_by_rowid E d distances rows)"
proof -
  let ?put = "\<lambda>r. AList.update (m_rowid (fst r))
      (build_hit E d r (case map_of distances (m_rowid (fst r)) of Some x \<Rightarrow> x | None \<Rightarrow> Fin64 0 0) [U ''vector''] None None)"
  have "stored_hits E d f (fold ?put rs m)"
    if "\<forall>r \<in> set rs. r \<in> set (message_join d) \<and> prefilter E f r" "stored_hits E d f m" for rs m
    using that
    by (induction rs arbitrary: m) (simp_all add: stored_hits_update stored_build_hit)
  from this [OF assms, of "[]"] show ?thesis by (simp add: hits_by_rowid_def stored_hits_def)
qed

lemma walk_candidates_stored:
  assumes "stored_hits E d f m"
  shows "\<forall>h \<in> set (walk_candidates rank ids m). stored_hit E d f h"
  using assms
proof (induction ids arbitrary: rank m)
  case (Cons i ids)
  show ?case
  proof (cases "map_of m i")
    case None
    with Cons show ?thesis by simp
  next
    case (Some h)
    then have "stored_hit E d f h" using Cons.prems by (simp add: stored_hits_def)
    with Cons.IH [OF stored_hits_delete [OF Cons.prems]] Some show ?thesis by simp
  qed
qed simp

lemma exec_read_visible:
  assumes "exec E q c = (r, c')" and "\<And>d d' x. q d = Inr (d', x) \<Longrightarrow> d' = d"
  shows "txn c = None \<Longrightarrow> visible c' = visible c \<and> txn c' = None"
    and "r = Inr x \<Longrightarrow> q (visible c) = Inr (visible c, x)"
proof -
  have vis: "visible (c\<lparr>stmts := n\<rparr>) = visible c" for n by (cases "txn c") (simp_all add: visible_def)
  show "txn c = None \<Longrightarrow> visible c' = visible c \<and> txn c' = None"
    using assms
    by (auto simp: exec_def attempt_def Let_def visible_def store_def split: option.splits sum.splits if_splits)
  show "r = Inr x \<Longrightarrow> q (visible c) = Inr (visible c, x)"
    using assms
    by (auto simp: exec_def attempt_def Let_def vis split: option.splits sum.splits if_splits)
qed

lemma knn_rows_stored:
  assumes "txn c = None" and run: "knn_rows E knn vec_table v f c = (Inr hits, c')"
  shows "\<forall>h \<in> set hits. stored_hit E (visible c) f h"
proof -
  let ?knn = "\<lambda>d. Inr (d, knn vec_table v (candidate_k f) d)"
  obtain r1 c1 where x1: "exec E ?knn c = (r1, c1)" by fastforce
  note v1 = exec_read_visible(1) [OF x1 _ assms(1)]
  obtain found where f1: "r1 = Inr found" using run x1 by (cases r1) (auto simp: knn_rows_def dbind_def)
  show ?thesis
  proof (cases "found = []")
    case True
    with run x1 f1 show ?thesis by (simp add: knn_rows_def dbind_def dreturn_def)
  next
    case False
    obtain rowids distances where cd: "candidates found [] [] = (rowids, distances)" by fastforce
    obtain r2 c2 where x2: "exec E (sql_provenance E rowids f) c1 = (r2, c2)" by fastforce
    obtain rows where f2: "r2 = Inr rows"
      using run x1 f1 False cd x2 by (cases r2) (auto simp: knn_rows_def dbind_def)
    have hits: "hits = walk_candidates 0 rowids (hits_by_rowid E (visible c) distances rows)"
      using run x1 f1 False cd x2 f2 by (simp add: knn_rows_def dbind_def dreturn_def)
    have "sql_provenance E rowids f (visible c1) = Inr (visible c1, rows)"
      by (rule exec_read_visible(2) [OF x2 _ f2]) (simp add: sql_provenance_def)
    moreover have "visible c1 = visible c" using v1 by simp
    ultimately have "\<forall>r \<in> set rows. r \<in> set (message_join (visible c)) \<and> prefilter E f r"
      by (auto simp: sql_provenance_def)
    then show ?thesis unfolding hits by (intro walk_candidates_stored hits_by_rowid_stored)
  qed
qed

text \<open>The vector leg reports a usable index only when model, table, embedder and query vector all were there.\<close>

lemma knn_search_functional:
  assumes "txn c = None" and "vo_functional (knn_search E model_id built knn query f c)"
  obtains pending c1 vec_table dimension c2 c3 v hits c4 where
    "exec E (sql_pending_jobs model_id) c = (Inr pending, c1)"
    "exec E (sql_model model_id) c1 = (Inr (Some (vec_table, dimension)), c2)"
    "exec E (sql_table_exists vec_table) c2 = (Inr True, c3)"
    "query_vector built dimension query = Some v" "knn_rows E knn vec_table v f c3 = (Inr hits, c4)"
    "knn_search E model_id built knn query f c =
       \<lparr>vo_hits = hits, vo_functional = True, vo_pending_jobs = pending, vo_model_id = Some model_id\<rparr>"
  using assms(2)
  by (auto simp: knn_search_def degraded_def split: if_splits prod.splits sum.splits option.splits bool.splits)

lemma knn_search_degraded:
  "\<not> vo_functional (knn_search E model_id built knn query f c) \<Longrightarrow> vo_hits (knn_search E model_id built knn query f c) = []"
  by (auto simp: knn_search_def degraded_def split: if_splits prod.splits sum.splits option.splits bool.splits)

definition index_usable :: "db \<Rightarrow> ustr \<Rightarrow> embed_error + embedder \<Rightarrow> ustr \<Rightarrow> bool" where
  "index_usable d model_id built query \<longleftrightarrow>
     (\<exists>emb w rest m. built = Inr emb \<and> emb query = Inr (w # rest) \<and> m \<in> set (embedding_models d) \<and>
        mo_id m = model_id \<and> mo_vec_table m \<in> set (map fst (vec_tables d)) \<and> length w = mo_dim m)"

lemma knn_search_usable:
  assumes "txn c = None" and "vo_functional (knn_search E model_id built knn query f c)"
  shows "index_usable (visible c) model_id built query \<and>
    (\<forall>h \<in> set (vo_hits (knn_search E model_id built knn query f c)). stored_hit E (visible c) f h)"
proof -
  obtain pending c1 vec_table dimension c2 c3 v hits c4 where
    1: "exec E (sql_pending_jobs model_id) c = (Inr pending, c1)" and
    2: "exec E (sql_model model_id) c1 = (Inr (Some (vec_table, dimension)), c2)" and
    3: "exec E (sql_table_exists vec_table) c2 = (Inr True, c3)" and
    4: "query_vector built dimension query = Some v" and 5: "knn_rows E knn vec_table v f c3 = (Inr hits, c4)" and
    k: "knn_search E model_id built knn query f c =
       \<lparr>vo_hits = hits, vo_functional = True, vo_pending_jobs = pending, vo_model_id = Some model_id\<rparr>"
    by (rule knn_search_functional [OF assms])
  have v1: "visible c1 = visible c" "txn c1 = None"
    using exec_read_visible(1) [OF 1 _ assms(1)] by (simp_all add: sql_pending_jobs_def)
  have v2: "visible c2 = visible c" "txn c2 = None"
    using exec_read_visible(1) [OF 2 _ v1(2)] v1(1) by (simp_all add: sql_model_def)
  have v3: "visible c3 = visible c" "txn c3 = None"
    using exec_read_visible(1) [OF 3 _ v2(2)] v2(1) by (simp_all add: sql_table_exists_def)
  have "sql_model model_id (visible c1) = Inr (visible c1, Some (vec_table, dimension))"
    by (rule exec_read_visible(2) [OF 2 _ refl]) (simp add: sql_model_def)
  then obtain m where m: "m \<in> set (embedding_models (visible c))" "mo_id m = model_id" "mo_vec_table m = vec_table"
    "mo_dim m = dimension"
    by (auto simp: sql_model_def v1 dest!: find_SomeD)
  have "sql_table_exists vec_table (visible c2) = Inr (visible c2, True)"
    by (rule exec_read_visible(2) [OF 3 _ refl]) (simp add: sql_table_exists_def)
  then have t: "vec_table \<in> set (map fst (vec_tables (visible c)))" by (simp add: sql_table_exists_def v2)
  obtain emb w rest where "built = Inr emb" "emb query = Inr (w # rest)" "length w = dimension"
    using 4 by (auto simp: query_vector_def split: sum.splits list.splits if_splits)
  then have "index_usable (visible c) model_id built query" using m t unfolding index_usable_def
    by (intro exI [of _ emb] exI [of _ w] exI [of _ rest] exI [of _ m]) simp
  moreover have "\<forall>h \<in> set hits. stored_hit E (visible c) f h"
    using knn_rows_stored [OF v3(2) 5] by (simp add: v3)
  ultimately show ?thesis by (simp add: k)
qed

section \<open>Fused hits\<close>

definition keyed_hits :: "env \<Rightarrow> db \<Rightarrow> query_filters \<Rightarrow> query_hit hmap \<Rightarrow> bool" where
  "keyed_hits E d f m \<longleftrightarrow> (\<forall>i h. hget m i = Some h \<longrightarrow> stored_hit E d f h \<and> qh_message_id h = i)"

lemma keyed_hits_put: "keyed_hits E d f m \<Longrightarrow> stored_hit E d f h \<Longrightarrow> keyed_hits E d f (hput (qh_message_id h) h m)"
  by (simp add: keyed_hits_def update_conv')

lemma keyed_hits_del: "keyed_hits E d f m \<Longrightarrow> keyed_hits E d f (hdel i m)"
  by (simp add: keyed_hits_def delete_conv')

lemma provenance_keyed:
  assumes "\<forall>h \<in> set bm25_hits. stored_hit E d f h" and "\<forall>h \<in> set vec_hits. stored_hit E d f h"
  shows "keyed_hits E d f (provenance bm25_hits vec_hits)"
proof -
  have vec: "keyed_hits E d f (fold (\<lambda>h m. if hget m (qh_message_id h) = None then hput (qh_message_id h) h m else m) hs m)"
    if "\<forall>h \<in> set hs. stored_hit E d f h" "keyed_hits E d f m" for hs m
    using that by (induction hs arbitrary: m) (simp_all add: keyed_hits_put)
  have bm: "keyed_hits E d f (fold (\<lambda>h. hput (qh_message_id h) h) hs m)"
    if "\<forall>h \<in> set hs. stored_hit E d f h" "keyed_hits E d f m" for hs m
    using that by (induction hs arbitrary: m) (simp_all add: keyed_hits_put)
  show ?thesis
    unfolding provenance_def by (rule bm [OF assms(1)], rule vec [OF assms(2)]) (simp add: keyed_hits_def)
qed

lemma fused_hits_ids:
  assumes "keyed_hits E d f prov"
  shows "(\<forall>h \<in> set (fused_hits p q fused prov). stored_hit E d f h \<and> qh_message_id h \<in> fst ` set fused) \<and>
    length (fused_hits p q fused prov) \<le> length fused \<and>
    (distinct (map fst fused) \<longrightarrow> distinct (map qh_message_id (fused_hits p q fused prov)))"
  using assms
proof (induction fused arbitrary: prov)
  case (Cons x fused)
  obtain i s where x: "x = (i, s)" by fastforce
  show ?case
  proof (cases "hget prov i")
    case None
    with Cons.IH [OF Cons.prems] show ?thesis by (auto simp: x)
  next
    case (Some h)
    then have "stored_hit E d f h" "qh_message_id h = i" using Cons.prems by (simp_all add: keyed_hits_def)
    with Cons.IH [OF keyed_hits_del [OF Cons.prems, of i]] Some show ?thesis by (auto simp: x)
  qed
qed simp

lemma fuse_results_hits:
  assumes "\<forall>h \<in> set bm25_hits. stored_hit E d f h" and "distinct (map qh_message_id bm25_hits)"
    and "\<forall>h \<in> set (vo_hits v). stored_hit E d f h" and iter: "\<And>xs. mset (iter xs) = mset xs"
  shows "length (fst (fuse_results iter bm25_hits v f)) \<le> effective_limit f \<and>
    distinct (map qh_message_id (fst (fuse_results iter bm25_hits v f))) \<and>
    (\<forall>h \<in> set (fst (fuse_results iter bm25_hits v f)). stored_hit E d f h)"
proof (cases "\<not> vo_functional v \<or> vo_hits v = []")
  case True
  have "distinct (map qh_message_id (take (effective_limit f) bm25_hits))"
    using assms(2) by (simp add: take_map [symmetric])
  with True assms(1) show ?thesis by (auto simp: fuse_results_def dest: in_set_takeD)
next
  case False
  let ?a = "map qh_message_id bm25_hits" and ?b = "map qh_message_id (vo_hits v)"
  let ?fused = "rrf_fuse iter [(Fin64 1 0, ?a), (Fin64 1 0, ?b)] rrf_k"
  have "weights_ok [(Fin64 1 0, ?a), (Fin64 1 0, ?b)]" "k_ok rrf_k" by (simp_all add: weights_ok_def rrf_k_def)
  from rrf_fuse_spec [where iter = iter, OF iter this] have "distinct (map fst ?fused)" by blast
  then have "distinct (map fst (take (effective_limit f) ?fused))" by (simp add: take_map [symmetric])
  note ids = fused_hits_ids [OF provenance_keyed [OF assms(1,3)], of "id_positions ?a" "id_positions ?b" "take (effective_limit f) ?fused"]
  define out where
    "out = fused_hits (id_positions ?a) (id_positions ?b) (take (effective_limit f) ?fused) (provenance bm25_hits (vo_hits v))"
  have "fst (fuse_results iter bm25_hits v f) = out"
    using False by (simp add: fuse_results_def Let_def out_def)
  moreover have "length out \<le> effective_limit f"
    using ids by (auto simp: out_def [symmetric])
  ultimately show ?thesis using ids \<open>distinct (map fst (take (effective_limit f) ?fused))\<close>
    unfolding out_def [symmetric] by simp
qed

lemma fused_hits_all:
  assumes "keyed_hits E d f prov" and "distinct (map fst fused)" and "\<forall>i \<in> fst ` set fused. hget prov i \<noteq> None"
  shows "map qh_message_id (fused_hits p q fused prov) = map fst fused"
  using assms
proof (induction fused arbitrary: prov)
  case (Cons x fused)
  obtain i s where x: "x = (i, s)" by fastforce
  obtain h where h: "hget prov i = Some h" "qh_message_id h = i"
    using Cons.prems(1,3) by (auto simp: x keyed_hits_def)
  have "\<forall>k \<in> fst ` set fused. hget (hdel i prov) k \<noteq> None"
  proof
    fix k
    assume k: "k \<in> fst ` set fused"
    then have "k \<noteq> i" using Cons.prems(2) by (auto simp: x)
    moreover have "hget prov k \<noteq> None" using bspec [OF Cons.prems(3), of k] k by auto
    ultimately show "hget (hdel i prov) k \<noteq> None" by (simp add: delete_conv')
  qed
  with Cons.IH [OF keyed_hits_del [OF Cons.prems(1), of i]] Cons.prems(2) h show ?case by (simp add: x)
qed simp

lemma provenance_covers:
  assumes "i \<in> qh_message_id ` set bm25_hits \<union> qh_message_id ` set vec_hits"
  shows "hget (provenance bm25_hits vec_hits) i \<noteq> None"
proof -
  have vec: "hget (fold (\<lambda>h m. if hget m (qh_message_id h) = None then hput (qh_message_id h) h m else m) hs m) i \<noteq> None"
    if "i \<in> qh_message_id ` set hs \<or> hget m i \<noteq> None" for hs m
    using that by (induction hs arbitrary: m) (auto simp: update_conv')
  have bm: "hget (fold (\<lambda>h. hput (qh_message_id h) h) hs m) i \<noteq> None"
    if "i \<in> qh_message_id ` set hs \<or> hget m i \<noteq> None" for hs m
    using that by (induction hs arbitrary: m) (auto simp: update_conv')
  show ?thesis
    unfolding provenance_def by (rule bm) (use assms vec [of vec_hits "[]"] in auto)
qed

text \<open>A fused answer that is shorter than the limit lists every text hit.\<close>

lemma fuse_results_keeps_text:
  assumes "\<forall>h \<in> set bm25_hits. stored_hit E d f h" and "\<forall>h \<in> set (vo_hits v). stored_hit E d f h"
    and iter: "\<And>xs. mset (iter xs) = mset xs"
    and short: "length (fst (fuse_results iter bm25_hits v f)) < effective_limit f"
  shows "qh_message_id ` set bm25_hits \<subseteq> qh_message_id ` set (fst (fuse_results iter bm25_hits v f))"
proof (cases "\<not> vo_functional v \<or> vo_hits v = []")
  case True
  with short show ?thesis by (auto simp: fuse_results_def)
next
  case False
  let ?a = "map qh_message_id bm25_hits" and ?b = "map qh_message_id (vo_hits v)"
  define fused where "fused = rrf_fuse iter [(Fin64 1 0, ?a), (Fin64 1 0, ?b)] rrf_k"
  have "weights_ok [(Fin64 1 0, ?a), (Fin64 1 0, ?b)]" "k_ok rrf_k" by (simp_all add: weights_ok_def rrf_k_def)
  from rrf_fuse_spec [where iter = iter, OF iter this]
  have "distinct (map fst fused)" "fst ` set fused = (\<Union>l \<in> set [(Fin64 1 0 :: f64, ?a), (Fin64 1 0, ?b)]. set (snd l))"
    unfolding fused_def by blast+
  then have fused: "distinct (map fst fused)" "fst ` set fused = set ?a \<union> set ?b" by simp_all
  let ?t = "take (effective_limit f) fused"
  have "distinct (map fst ?t)" using fused(1) by (simp add: take_map [symmetric])
  moreover have "\<forall>i \<in> fst ` set ?t. hget (provenance bm25_hits (vo_hits v)) i \<noteq> None"
  proof
    fix i
    assume "i \<in> fst ` set ?t"
    then have "i \<in> fst ` set fused" using image_mono [OF set_take_subset [of "effective_limit f" fused], of fst] by blast
    then show "hget (provenance bm25_hits (vo_hits v)) i \<noteq> None" using fused(2) by (intro provenance_covers) simp
  qed
  ultimately have ids: "map qh_message_id (fused_hits (id_positions ?a) (id_positions ?b) ?t (provenance bm25_hits (vo_hits v)))
      = map fst ?t"
    by (rule fused_hits_all [OF provenance_keyed [OF assms(1,2)]])
  have out: "fst (fuse_results iter bm25_hits v f) =
      fused_hits (id_positions ?a) (id_positions ?b) ?t (provenance bm25_hits (vo_hits v))"
    using False by (simp add: fuse_results_def Let_def fused_def)
  have "length (fst (fuse_results iter bm25_hits v f)) = length ?t"
    unfolding out using arg_cong [OF ids, of length] by simp
  with short have "?t = fused" by simp
  with ids fused(2) show ?thesis
    unfolding out set_map [symmetric] by simp
qed

lemma run_query_found:
  assumes "trim raw \<noteq> []" and "bm25_search E fts (trim raw) f c = (Inr bm25_hits, c1)"
  shows "run_query E fts model_id built knn iter (Inr c) raw f =
    (case fuse_results iter bm25_hits (knn_search E model_id built knn (trim raw) f c1) f of
       (hits, ranking, index) \<Rightarrow> query_ok (trim raw) f hits ranking index)"
  using assms by (simp add: run_query_def Let_def)

lemma run_query_not_found:
  assumes "trim raw = [] \<or> opened = Inl err \<or> (opened = Inr c \<and> bm25_search E fts (trim raw) f c = (Inl err, c1))"
    and "answer = run_query E fts model_id built knn iter opened raw f"
  shows "qr_results answer = None \<and> qr_result answer = QueryFailed \<and>
    qr_code answer = Some (if trim raw = [] \<or> de_code err = U ''fts_query_error'' then U ''invalid_query'' else U ''db_unavailable'')"
  using assms by (auto simp: run_query_def Let_def query_failed_def)

lemma bm25_search_fails:
  assumes "txn c = None" and "bm25_search E fts query f c = (Inl err, c1)"
  shows "fault E (stmts c) \<noteq> None \<or>
    (\<exists>e. fts (match_expression (qf_exact f) query) (messages_fts (disk c)) = Inl e)"
  using assms
  by (auto simp: bm25_search_def dbind_def dreturn_def exec_def attempt_def visible_def sql_bm25_def Let_def
      split: option.splits sum.splits prod.splits)

lemma exec_keeps_none: "txn c = None \<Longrightarrow> txn (snd (exec E q c)) = None"
  by (auto simp: exec_def attempt_def Let_def store_def split: option.splits sum.splits prod.splits if_splits)

lemma bm25_search_txn: "txn c = None \<Longrightarrow> bm25_search E fts query f c = (r, c1) \<Longrightarrow> txn c1 = None"
  using exec_keeps_none [of c E "sql_bm25 E fts (match_expression (qf_exact f) query) f"]
  by (auto simp: bm25_search_def dbind_def dreturn_def split: prod.splits sum.splits)

section \<open>Properties\<close>


definition sample_fts :: fts_engine where
  "sample_fts q rows = Inr (map (\<lambda>i. (i, Fin64 (- 1) 0, None)) (remdups (map f_rowid rows)))"

lemma sample_fts_ok: "fts_ok sample_fts"
  by (auto simp: fts_ok_def sample_fts_def o_def)

lemma sample_query:
  obtains hits c1 where "bm25_search (sample_env (\<lambda>_. None)) sample_fts (U ''hi'') f sample_conn = (Inr hits, c1)"
  by (simp add: bm25_search_def dbind_def dreturn_def exec_def attempt_def sample_env_def sql_bm25_def sample_fts_def)

lemma sample_text: "trim (U ''hi'') = U ''hi''" "U ''hi'' \<noteq> []"
  by (simp_all add: trim_def is_whitespace_def U_def)


text \<open>
  The vectors the engine found: rows of stored messages that pass the filters among the answers of
  the engine are exactly what makes the vector leg find something.
\<close>

definition vector_match :: "env \<Rightarrow> query_filters \<Rightarrow> db \<Rightarrow> (nat \<times> f64) list \<Rightarrow> bool" where
  "vector_match E f d found \<longleftrightarrow> (\<exists>m \<in> set (messages d). m_rowid m \<in> fst ` set found \<and> passes E f d m)"

lemma candidates_rowids:
  assumes "dom (map_of distances) = set rowids"
  shows "set (fst (candidates found rowids distances)) = set rowids \<union> fst ` set found"
  using assms
proof (induction found arbitrary: rowids distances)
  case (Cons x found)
  obtain i d where x: "x = (i, d)" by fastforce
  have "dom (map_of (AList.update i d distances)) = set (if map_of distances i = None then rowids @ [i] else rowids)"
    using Cons.prems by (auto simp: update_conv' split: if_splits)
  from Cons.IH [OF this] Cons.prems show ?case by (auto simp: x)
qed simp

lemma hits_by_rowid_dom: "dom (map_of (hits_by_rowid E d distances rows)) = (\<lambda>r. m_rowid (fst r)) ` set rows"
proof -
  have "dom (map_of (fold (\<lambda>r. AList.update (m_rowid (fst r)) (h r)) rs m)) = (\<lambda>r. m_rowid (fst r)) ` set rs \<union> dom (map_of m)"
    for h :: "joined_row \<Rightarrow> query_hit" and rs m
    by (induction rs arbitrary: m) (auto simp: update_conv')
  then show ?thesis by (simp add: hits_by_rowid_def)
qed

lemma walk_candidates_nonempty: "walk_candidates rank ids m \<noteq> [] \<longleftrightarrow> (\<exists>i \<in> set ids. map_of m i \<noteq> None)"
proof (induction ids arbitrary: rank)
  case (Cons i ids)
  then show ?case by (cases "map_of m i") auto
qed simp

lemma knn_rows_found:
  assumes "txn c = None" and "store_inv (disk c)" and run: "knn_rows E knn vec_table v f c = (r, c')"
  shows "(\<forall>hits. r = Inr hits \<longrightarrow> (hits \<noteq> [] \<longleftrightarrow> vector_match E f (disk c) (knn vec_table v (candidate_k f) (disk c)))) \<and>
    (no_faults E \<longrightarrow> (\<exists>hits. r = Inr hits))"
proof -
  let ?knn = "\<lambda>d. Inr (d, knn vec_table v (candidate_k f) d)" and ?found = "knn vec_table v (candidate_k f) (disk c)"
  have vis: "visible c = disk c" using assms(1) by (simp add: visible_def)
  obtain r1 c1 where x1: "exec E ?knn c = (r1, c1)" by fastforce
  have v1: "visible c1 = disk c" "txn c1 = None" using exec_read_visible(1) [OF x1 _ assms(1)] vis by simp_all
  have n1: "\<exists>y. r1 = Inr y" if "no_faults E" using x1 that by (auto simp: exec_def attempt_no_fault)
  have f1: "y = ?found" if "r1 = Inr y" for y using exec_read_visible(2) [OF x1 _ that] vis by simp
  obtain rowids distances where cd: "candidates ?found [] [] = (rowids, distances)" by fastforce
  have ids: "set rowids = fst ` set ?found" using candidates_rowids [of "[]" "[]" ?found] cd by simp
  obtain r2 c2 where x2: "exec E (sql_provenance E rowids f) c1 = (r2, c2)" by fastforce
  have n2: "\<exists>y. r2 = Inr y" if "no_faults E"
    using x2 that by (auto simp: exec_def attempt_no_fault sql_provenance_def)
  have f2: "rows = filter (\<lambda>q. m_rowid (fst q) \<in> set rowids \<and> prefilter E f q) (message_join (disk c))" if "r2 = Inr rows" for rows
    using exec_read_visible(2) [OF x2 _ that] v1(1) by (simp add: sql_provenance_def)
  have r: "r = (case r1 of Inl e \<Rightarrow> Inl e | Inr _ \<Rightarrow> if ?found = [] then Inr [] else
      (case r2 of Inl e \<Rightarrow> Inl e | Inr rows \<Rightarrow> Inr (walk_candidates 0 rowids (hits_by_rowid E (disk c) distances rows))))"
    using run x1 x2 cd f1 by (auto simp: knn_rows_def dbind_def dreturn_def vis split: sum.splits if_splits)
  have iff: "walk_candidates 0 rowids (hits_by_rowid E (disk c) distances rows) \<noteq> [] \<longleftrightarrow> vector_match E f (disk c) ?found"
    if "r2 = Inr rows" for rows
  proof -
    have "walk_candidates 0 rowids (hits_by_rowid E (disk c) distances rows) \<noteq> [] \<longleftrightarrow>
        (\<exists>i \<in> set rowids. i \<in> (\<lambda>q. m_rowid (fst q)) ` set rows)"
      unfolding walk_candidates_nonempty hits_by_rowid_dom [symmetric, of _ E "disk c" distances] by (simp add: domIff)
    also have "\<dots> \<longleftrightarrow> (\<exists>m \<in> set (messages (disk c)). m_rowid m \<in> set rowids \<and>
        prefilter E f (m, participant_of (disk c) (m_from m), participant_of (disk c) (m_to m)))"
      unfolding f2 [OF that] message_join_store [OF assms(2)] by (force simp: image_iff)
    also have "\<dots> \<longleftrightarrow> vector_match E f (disk c) ?found"
      unfolding vector_match_def ids using prefilter_passes [OF assms(2)] by blast
    finally show ?thesis .
  qed
  have "\<not> vector_match E f (disk c) []" by (simp add: vector_match_def)
  then show ?thesis using r iff n1 n2 by (cases r1; cases r2; cases "?found = []") auto
qed

definition jobs_left :: "db \<Rightarrow> ustr \<Rightarrow> nat" where
  "jobs_left d model_id = length (filter (\<lambda>j. j_model j = model_id \<and> j_status j \<noteq> U ''done'') (embedding_jobs d))"

lemma jobs_left_zero: "jobs_left d model_id = 0 \<longleftrightarrow> (\<forall>j \<in> set (embedding_jobs d). j_model j = model_id \<longrightarrow> j_status j = U ''done'')"
  by (auto simp: jobs_left_def filter_empty_conv)

text \<open>The pending count is the count of the table wherever the counting statement ran.\<close>

lemma knn_search_pending:
  assumes "txn c = None" and "vo_functional (knn_search E model_id built knn query f c) \<or> model_id \<noteq> [] \<and> fault E (stmts c) = None"
  shows "vo_pending_jobs (knn_search E model_id built knn query f c) = jobs_left (disk c) model_id"
proof -
  have vis: "visible c = disk c" using assms(1) by (simp add: visible_def)
  obtain r1 c1 where x: "exec E (sql_pending_jobs model_id) c = (r1, c1)" by fastforce
  have "model_id \<noteq> [] \<and> (\<exists>n. r1 = Inr n)"
    using assms(2)
  proof
    assume "vo_functional (knn_search E model_id built knn query f c)"
    then show ?thesis using x by (cases r1) (auto simp: knn_search_def degraded_def split: if_splits)
  next
    assume "model_id \<noteq> [] \<and> fault E (stmts c) = None"
    with x show ?thesis by (auto simp: exec_def attempt_def sql_pending_jobs_def)
  qed
  then obtain n where n: "model_id \<noteq> []" "r1 = Inr n" by blast
  have "n = jobs_left (disk c) model_id"
    using exec_read_visible(2) [OF x _ n(2)] vis by (simp add: sql_pending_jobs_def jobs_left_def)
  moreover have "vo_pending_jobs (knn_search E model_id built knn query f c) = n"
    using x n by (auto simp: knn_search_def degraded_def split: prod.splits sum.splits option.splits bool.splits)
  ultimately show ?thesis by simp
qed

text \<open>The vectors the leg asks the engine for: the table of the model's row and the embedder's vector.\<close>

definition engine_answer ::
  "db \<Rightarrow> ustr \<Rightarrow> embed_error + embedder \<Rightarrow> knn_engine \<Rightarrow> ustr \<Rightarrow> query_filters \<Rightarrow> (nat \<times> f64) list option" where
  "engine_answer d model_id built knn query f =
     (case find (\<lambda>r. mo_id r = model_id) (embedding_models d) of
        None \<Rightarrow> None
      | Some row \<Rightarrow>
          if mo_vec_table row \<notin> set (map fst (vec_tables d)) then None
          else (case built of
             Inl _ \<Rightarrow> None
           | Inr emb \<Rightarrow>
               (case emb query of
                  Inr (w # _) \<Rightarrow> if length w = mo_dim row then Some (knn (mo_vec_table row) w (candidate_k f) d) else None
                | _ \<Rightarrow> None)))"

lemma knn_search_found:
  assumes "txn c = None" and "store_inv (disk c)" and "outcome = knn_search E model_id built knn query f c"
  shows "(vo_hits outcome \<noteq> [] \<longrightarrow> vo_functional outcome) \<and>
    (vo_functional outcome \<longrightarrow> (\<exists>found. engine_answer (disk c) model_id built knn query f = Some found \<and>
       (vo_hits outcome \<noteq> [] \<longleftrightarrow> vector_match E f (disk c) found))) \<and>
    (no_faults E \<and> model_id \<noteq> [] \<and> engine_answer (disk c) model_id built knn query f \<noteq> None \<longrightarrow> vo_functional outcome)"
proof -
  have vis: "visible c = disk c" using assms(1) by (simp add: visible_def)
  obtain r1 c1 where x1: "exec E (sql_pending_jobs model_id) c = (r1, c1)" by fastforce
  have v1: "visible c1 = disk c" "txn c1 = None"
    using exec_read_visible(1) [OF x1 _ assms(1)] vis by (simp_all add: sql_pending_jobs_def)
  obtain r2 c2 where x2: "exec E (sql_model model_id) c1 = (r2, c2)" by fastforce
  have v2: "visible c2 = disk c" "txn c2 = None"
    using exec_read_visible(1) [OF x2 _ v1(2)] v1(1) by (simp_all add: sql_model_def)
  have m2: "y = map_option (\<lambda>r. (mo_vec_table r, mo_dim r)) (find (\<lambda>r. mo_id r = model_id) (embedding_models (disk c)))"
    if "r2 = Inr y" for y
    using exec_read_visible(2) [OF x2 _ that] v1(1) by (simp add: sql_model_def)
  have e3: "r3 = Inr b \<Longrightarrow> b = (tbl \<in> set (map fst (vec_tables (disk c))))" "visible c3 = disk c \<and> txn c3 = None"
    "no_faults E \<Longrightarrow> \<exists>y. r3 = Inr y"
    if "exec E (sql_table_exists tbl) c2 = (r3, c3)" for tbl r3 c3 b
    using exec_read_visible(2) [OF that _, where x = b] exec_read_visible(1) [OF that _ v2(2)] v2(1) that
    by (simp_all add: sql_table_exists_def) (auto simp: exec_def attempt_no_fault sql_table_exists_def)
  have nf: "no_faults E \<Longrightarrow> (\<exists>y. r1 = Inr y) \<and> (\<exists>y. r2 = Inr y)"
    using x1 x2 by (auto simp: exec_def attempt_no_fault sql_pending_jobs_def sql_model_def)
  show ?thesis
  proof (cases "find (\<lambda>r. mo_id r = model_id) (embedding_models (disk c))")
    case None
    then show ?thesis
      using x1 x2 m2 assms(3)
      by (auto simp: knn_search_def degraded_def engine_answer_def split: if_splits sum.splits option.splits)
  next
    case (Some row)
    obtain r3 c3 where x3: "exec E (sql_table_exists (mo_vec_table row)) c2 = (r3, c3)" by fastforce
    have v3: "disk c3 = disk c" "txn c3 = None" using e3(2) [OF x3] by (auto simp: visible_def)
    have t3: "b = (mo_vec_table row \<in> set (map fst (vec_tables (disk c))))" if "r3 = Inr b" for b
      by (rule e3(1) [OF x3 that])
    have out: "outcome = (if model_id = [] then degraded 0 None else case r1 of
        Inl _ \<Rightarrow> degraded 0 (Some model_id)
      | Inr pending \<Rightarrow> (case r2 of Inl _ \<Rightarrow> degraded pending (Some model_id) | Inr _ \<Rightarrow>
          (case r3 of Inr True \<Rightarrow>
             (case query_vector built (mo_dim row) query of
                None \<Rightarrow> degraded pending (Some model_id)
              | Some v \<Rightarrow> (case fst (knn_rows E knn (mo_vec_table row) v f c3) of
                   Inl _ \<Rightarrow> degraded pending (Some model_id)
                 | Inr hits \<Rightarrow> \<lparr>vo_hits = hits, vo_functional = True, vo_pending_jobs = pending, vo_model_id = Some model_id\<rparr>))
           | _ \<Rightarrow> degraded pending (Some model_id))))"
      using x1 x2 x3 m2 Some assms(3)
      by (auto simp: knn_search_def split: sum.splits option.splits bool.splits prod.splits)
    have ans: "engine_answer (disk c) model_id built knn query f =
        (if mo_vec_table row \<notin> set (map fst (vec_tables (disk c))) then None
         else map_option (\<lambda>v. knn (mo_vec_table row) v (candidate_k f) (disk c)) (query_vector built (mo_dim row) query))"
      using Some by (auto simp: engine_answer_def query_vector_def split: sum.splits list.splits)
    have k: "(\<forall>hits. fst (knn_rows E knn (mo_vec_table row) v f c3) = Inr hits \<longrightarrow>
          (hits \<noteq> [] \<longleftrightarrow> vector_match E f (disk c) (knn (mo_vec_table row) v (candidate_k f) (disk c)))) \<and>
        (no_faults E \<longrightarrow> (\<exists>hits. fst (knn_rows E knn (mo_vec_table row) v f c3) = Inr hits))" for v
      using knn_rows_found [of c3 E knn "mo_vec_table row" v f "fst (knn_rows E knn (mo_vec_table row) v f c3)"
          "snd (knn_rows E knn (mo_vec_table row) v f c3)"] v3 assms(2) by simp
    show ?thesis
    proof (cases "query_vector built (mo_dim row) query")
      case None
      then show ?thesis unfolding out ans by (auto simp: degraded_def split: sum.splits bool.splits)
    next
      case v: (Some v)
      obtain rk ck where kr: "knn_rows E knn (mo_vec_table row) v f c3 = (rk, ck)" by fastforce
      note kv = k [of v, unfolded kr fst_conv]
      have n3: "\<exists>y. r3 = Inr y" if "no_faults E" by (rule e3(3) [OF x3 that])
      show ?thesis
      proof (cases "model_id \<noteq> [] \<and> (\<exists>p. r1 = Inr p) \<and> (\<exists>y. r2 = Inr y) \<and> r3 = Inr True")
        case True
        then obtain p y where ok: "model_id \<noteq> []" "r1 = Inr p" "r2 = Inr y" "r3 = Inr True" by blast
        have tab: "mo_vec_table row \<in> set (map fst (vec_tables (disk c)))" using t3 [OF ok(4)] by simp
        show ?thesis
          using kv tab ok unfolding out ans v by (cases rk) (simp_all add: degraded_def kr)
      next
        case False
        then have "outcome = degraded 0 None \<or> (\<exists>p. outcome = degraded p (Some model_id))"
          unfolding out by (auto split: sum.splits bool.splits)
        then have "\<not> vo_functional outcome" "vo_hits outcome = []" by (auto simp: degraded_def)
        moreover have "\<not> (no_faults E \<and> model_id \<noteq> [] \<and> mo_vec_table row \<in> set (map fst (vec_tables (disk c))))"
          using False nf n3 t3 by blast
        ultimately show ?thesis unfolding ans by auto
      qed
    qed
  qed
qed

text \<open>
  C31. The vector leg degrades honestly. Once the full-text leg has answered, the query succeeds. Its
  index is reported ready only if every embedding job of the model is done and model, table,
  embedder and a query vector of the right dimension are all there, and the reported count is the number
  of the model's jobs that are not done, unless no model is set or counting them failed. The ranking \<open>rrf\<close> is
  claimed only if the engine was asked with the model's table and the query's vector and its answer
  holds a stored message that passes the filters, and it is claimed then when no statement fails; every other
  answer is ranked \<open>bm25\<close> and lists what the same query without a model lists.
\<close>

theorem vector_leg_degrades_honestly:
  assumes "txn c = None" and "store_inv (disk c)" and "trim raw \<noteq> []" and "fts_ok fts"
    and bm: "bm25_search E fts (trim raw) f c = (Inr bm25_hits, c1)"
    and "answer = run_query E fts model_id built knn iter (Inr c) raw f"
    and found: "found = engine_answer (disk c) model_id built knn (trim raw) f"
  shows "qr_result answer = QueryOk \<and>
    (\<exists>index. qr_vector_index answer = Some index \<and>
       (json_ready index \<longrightarrow> found \<noteq> None \<and>
          (\<forall>j \<in> set (embedding_jobs (disk c)). j_model j = model_id \<longrightarrow> j_status j = U ''done'')) \<and>
       (model_id \<noteq> [] \<and> fault E (stmts c + 1) = None \<longrightarrow>
          json_get index (U ''pending_jobs'') = Some (JNum (int (length
            (filter (\<lambda>j. j_model j = model_id \<and> j_status j \<noteq> U ''done'') (embedding_jobs (disk c)))))))) \<and>
    (if qr_ranking answer = Some (U ''rrf'') then \<exists>xs. found = Some xs \<and> vector_match E f (disk c) xs
     else qr_ranking answer = Some (U ''bm25'') \<and>
       qr_results answer = qr_results (run_query E fts [] built knn iter (Inr c) raw f)) \<and>
    (no_faults E \<and> model_id \<noteq> [] \<and> (\<exists>xs. found = Some xs \<and> vector_match E f (disk c) xs) \<longrightarrow>
       qr_ranking answer = Some (U ''rrf''))"
proof -
  define out where "out = (\<lambda>model. knn_search E model built knn (trim raw) f c1)"
  have run: "run_query E fts model built knn iter (Inr c) raw f = (case fuse_results iter bm25_hits (out model) f of
      (hits, ranking, index) \<Rightarrow> query_ok (trim raw) f hits ranking index)" for model
    using run_query_found [OF assms(3) bm] by (simp add: out_def)
  have t1: "txn c1 = None" by (rule bm25_search_txn [OF assms(1) bm])
  have v: "visible c = disk c" using assms(1) by (simp add: visible_def)
  have c1: "disk c1 = disk c" "stmts c1 = stmts c + 1"
    using bm25_hits [OF _ assms(4) bm] assms(2) v t1 by (simp_all add: visible_def)
  have off: "out [] = degraded 0 None" by (simp add: out_def knn_search_def)
  have ready: "json_ready (vector_index o1) \<longleftrightarrow> vo_functional o1 \<and> vo_pending_jobs o1 = 0"
    "json_get (vector_index o1) (U ''pending_jobs'') = Some (JNum (int (vo_pending_jobs o1)))" for o1
    by (simp_all add: json_ready_def vector_index_def U_def)
  have om: "out model_id = knn_search E model_id built knn (trim raw) f c1" by (simp add: out_def)
  note k = knn_search_found [OF t1 _ om, unfolded c1(1), OF assms(2), folded found]
  have pend: "vo_pending_jobs (out model_id) = jobs_left (disk c) model_id"
    if "vo_functional (out model_id) \<or> model_id \<noteq> [] \<and> fault E (stmts c + 1) = None"
    using knn_search_pending [OF t1, of E model_id built knn "trim raw" f] that c1 by (simp add: out_def)
  have neq: "U ''bm25'' \<noteq> U ''rrf''" by (simp add: U_def)
  have index: "qr_vector_index answer = Some (vector_index (out model_id))" "qr_result answer = QueryOk"
    unfolding assms(6) run by (auto simp: fuse_results_def query_ok_def Let_def)
  have ranking: "qr_ranking answer = Some (if \<not> vo_functional (out model_id) \<or> vo_hits (out model_id) = [] then U ''bm25'' else U ''rrf'')"
    unfolding assms(6) run by (simp add: fuse_results_def query_ok_def Let_def)
  have same: "qr_results answer = qr_results (run_query E fts [] built knn iter (Inr c) raw f)"
    if "\<not> vo_functional (out model_id) \<or> vo_hits (out model_id) = []"
    using that unfolding assms(6) run off by (auto simp: fuse_results_def query_ok_def degraded_def)
  show ?thesis
  proof (intro conjI exI [of _ "vector_index (out model_id)"])
    show "json_ready (vector_index (out model_id)) \<longrightarrow> found \<noteq> None \<and>
        (\<forall>j \<in> set (embedding_jobs (disk c)). j_model j = model_id \<longrightarrow> j_status j = U ''done'')"
      using k pend jobs_left_zero [of "disk c" model_id] unfolding ready(1) by auto
    show "model_id \<noteq> [] \<and> fault E (stmts c + 1) = None \<longrightarrow>
        json_get (vector_index (out model_id)) (U ''pending_jobs'') = Some (JNum (int (length
          (filter (\<lambda>j. j_model j = model_id \<and> j_status j \<noteq> U ''done'') (embedding_jobs (disk c))))))"
      using pend unfolding ready(2) jobs_left_def by simp
    show "if qr_ranking answer = Some (U ''rrf'') then \<exists>xs. found = Some xs \<and> vector_match E f (disk c) xs
     else qr_ranking answer = Some (U ''bm25'') \<and>
       qr_results answer = qr_results (run_query E fts [] built knn iter (Inr c) raw f)"
      using k same neq unfolding ranking by (auto split: if_splits)
    show "no_faults E \<and> model_id \<noteq> [] \<and> (\<exists>xs. found = Some xs \<and> vector_match E f (disk c) xs) \<longrightarrow>
       qr_ranking answer = Some (U ''rrf'')"
      using k unfolding ranking by auto
  qed (use index in simp_all)
qed

theorem vector_leg_degrades_honestly_witness:
  "qr_ranking (run_query (sample_env (\<lambda>_. None)) sample_fts (U ''fake@1'') (Inl (ModelUnavailable []))
      (\<lambda>_ _ _ _. []) rev (Inr sample_conn) (U ''hi'') default_filters) = Some (U ''bm25'')"
proof -
  obtain hs c1 where b: "bm25_search (sample_env (\<lambda>_. None)) sample_fts (U ''hi'') default_filters sample_conn = (Inr hs, c1)"
    by (rule sample_query)
  have none: "engine_answer (disk sample_conn) (U ''fake@1'') (Inl (ModelUnavailable [])) (\<lambda>_ _ _ _. []) (U ''hi'') default_filters = None"
    by (simp add: engine_answer_def split: option.splits)
  show ?thesis
    using vector_leg_degrades_honestly [OF sample_read(2,3), where raw = "U ''hi''" and fts = sample_fts and
        E = "sample_env (\<lambda>_. None)" and f = default_filters and iter = rev, unfolded sample_text(1),
        OF sample_text(2) sample_fts_ok b refl refl, of "U ''fake@1''" "Inl (ModelUnavailable [])" "\<lambda>_ _ _ _. []", unfolded none]
    by (auto split: if_splits)
qed

end
