(* ===== verification/Agent_Processes.thy ===== *)
theory Agent_Processes
  imports Agent_Resume
begin

text \<open>
  Finding the agent in the foreground process group of a terminal (\<open>detect/mod.rs\<close>): the name of a
  process, looking through interpreters and shells at the script they run, the choice among the
  processes of a group, and the command line captured for resuming. The process table is the
  argument \<open>job\<close>; Unicode lower case and \<open>fs::canonicalize\<close> (\<open>None\<close> when it fails or its file name is not
  Unicode) are parameters. Paths are read as Unix paths.
\<close>

section \<open>Processes\<close>

record foreground_process =
  fg_pid :: u32
  fg_name :: ustr
  fg_argv0 :: "ustr option"
  fg_argv :: "ustr list option"
  fg_cmdline :: "ustr option"

record foreground_job =
  fg_process_group_id :: u32
  fg_processes :: "foreground_process list"

section \<open>Names from paths\<close>

text \<open>A \<open>matches!\<close> on string literals.\<close>

definition one_of :: "string list \<Rightarrow> ustr \<Rightarrow> bool" where
  "one_of names s \<longleftrightarrow> s \<in> set (map U names)"

definition is_separator :: "nat \<Rightarrow> bool" where
  "is_separator c \<longleftrightarrow> c = 47 \<or> c = 92"

definition trim_matches :: "(nat \<Rightarrow> bool) \<Rightarrow> ustr \<Rightarrow> ustr" where
  "trim_matches P s = rev (dropWhile P (rev (dropWhile P s)))"

definition path_basename :: "ustr \<Rightarrow> ustr" where
  "path_basename path =
     (case find (\<lambda>c. c \<noteq> []) (rev (split_by is_separator path [])) of Some c \<Rightarrow> c | None \<Rightarrow> path)"

definition agent_name_from_basename :: "(ustr \<Rightarrow> ustr) \<Rightarrow> ustr \<Rightarrow> ustr option" where
  "agent_name_from_basename lc basename = map_option agent_label (parse_agent_label lc basename)"

fun windows :: "nat \<Rightarrow> 'a list \<Rightarrow> 'a list list" where
  "windows n [] = []"
| "windows n (x # xs) = (if length (x # xs) < n then [] else take n (x # xs) # windows n xs)"

definition agent_name_from_known_package_path :: "(ustr \<Rightarrow> ustr) \<Rightarrow> ustr \<Rightarrow> ustr option" where
  "agent_name_from_known_package_path lc path =
     (let components = map (normalized_agent_lookup_name lc) (filter (\<lambda>c. c \<noteq> []) (split_by is_separator path []));
          pi = map U [''node_modules'', ''@earendil-works'', ''pi-coding-agent'', ''dist'', ''cli''];
          qwen = map U [''node_modules'', ''@qwen-code'', ''qwen-code'', ''dist'', ''index'']
      in case find (\<lambda>w. w = pi \<or> w = qwen) (windows 5 components) of
           Some w \<Rightarrow> Some (agent_label (if w = pi then Pi else Qwen))
         | None \<Rightarrow>
             if map U [''node_modules'', ''mastracode'', ''dist'', ''cli''] \<in> set (windows 4 components)
             then Some (agent_label Mastracode) else None)"

definition path_component_count :: "ustr \<Rightarrow> nat" where
  "path_component_count s =
     (let cs = path_components s []
      in (if prefixed [47] s then 1 else if hd cs = [46] then 1 else 0) + length (filter (\<lambda>c. c \<noteq> [] \<and> c \<noteq> [46]) cs))"

definition resolved_agent_name_from_path_token ::
  "(ustr \<Rightarrow> ustr) \<Rightarrow> (ustr \<Rightarrow> ustr option) \<Rightarrow> ustr \<Rightarrow> ustr option" where
  "resolved_agent_name_from_path_token lc canonicalize token =
     (if path_component_count token < 2 then None
      else canonicalize token \<bind> file_name \<bind> agent_name_from_basename lc)"

definition agent_name_from_path_token ::
  "(ustr \<Rightarrow> ustr) \<Rightarrow> (ustr \<Rightarrow> ustr option) \<Rightarrow> ustr \<Rightarrow> ustr option" where
  "agent_name_from_path_token lc canonicalize token =
     (let trimmed = trim_matches (\<lambda>c. c = 34 \<or> c = 39) token
      in if trimmed = [] \<or> prefixed (U ''-'') trimmed then None
         else or_else (agent_name_from_basename lc (path_basename trimmed))
                (or_else (agent_name_from_known_package_path lc trimmed)
                  (resolved_agent_name_from_path_token lc canonicalize trimmed)))"

section \<open>Runtimes and shells\<close>

definition is_python_runtime :: "ustr \<Rightarrow> bool" where
  "is_python_runtime name \<longleftrightarrow> name = U ''python'' \<or>
     some_and (\<lambda>version. version \<noteq> [] \<and>
       list_all (\<lambda>part. part \<noteq> [] \<and> list_all (\<lambda>ch. 48 \<le> ch \<and> ch \<le> 57) part) (split_by (\<lambda>c. c = 46) version []))
       (strip_prefix (U ''python'') name)"

definition is_generic_runtime_or_shell :: "(ustr \<Rightarrow> ustr) \<Rightarrow> ustr \<Rightarrow> bool" where
  "is_generic_runtime_or_shell lc raw =
     (let name = normalized_agent_lookup_name lc (path_basename raw)
      in is_python_runtime name \<or>
         one_of [''sh'', ''bash'', ''zsh'', ''fish'', ''tmux'', ''node'', ''bun'', ''cmd'', ''powershell'', ''pwsh''] name)"

definition short_flag_payload :: "ustr \<Rightarrow> ustr \<Rightarrow> bool" where
  "short_flag_payload arg flag \<longleftrightarrow>
     prefixed (U ''-'') flag \<and> \<not> prefixed (U ''--'') flag \<and> prefixed flag arg \<and> length flag < length arg"

definition long_flag_value :: "ustr \<Rightarrow> ustr \<Rightarrow> bool" where
  "long_flag_value arg flag \<longleftrightarrow> prefixed (U ''--'') flag \<and> some_and (prefixed (U ''='')) (strip_prefix flag arg)"

definition flag_matches :: "ustr \<Rightarrow> ustr list \<Rightarrow> bool" where
  "flag_matches arg flags \<longleftrightarrow>
     list_ex (\<lambda>flag. arg = flag \<or> short_flag_payload arg flag \<or> long_flag_value arg flag) flags"

definition option_takes_value :: "ustr \<Rightarrow> bool" where
  "option_takes_value arg \<longleftrightarrow> one_of [''-r'', ''--require'', ''--loader'', ''--import'',
     ''--experimental-loader'', ''--inspect-port'', ''-W'', ''-X'', ''-S'', ''-L'', ''-o''] arg"

fun script_args :: "(ustr \<Rightarrow> ustr option) \<Rightarrow> ustr list \<Rightarrow> ustr list \<Rightarrow> ustr list \<Rightarrow> ustr option" where
  "script_args name eval_flags module_flags [] = None"
| "script_args name eval_flags module_flags (arg # rest) =
     (if arg = U ''--'' then (case rest of [] \<Rightarrow> None | token # _ \<Rightarrow> name token)
      else if flag_matches arg eval_flags \<or> flag_matches arg module_flags then None
      else if prefixed (U ''-'') arg
      then script_args name eval_flags module_flags (if option_takes_value arg then tl rest else rest)
      else name arg)"

definition script_arg_agent_name ::
  "(ustr \<Rightarrow> ustr) \<Rightarrow> (ustr \<Rightarrow> ustr option) \<Rightarrow> ustr list \<Rightarrow> ustr list \<Rightarrow> ustr list \<Rightarrow> ustr option" where
  "script_arg_agent_name lc canonicalize argv eval_flags module_flags =
     script_args (agent_name_from_path_token lc canonicalize) eval_flags module_flags (tl argv)"

definition command_text_token :: "ustr \<Rightarrow> (ustr \<times> ustr) option" where
  "command_text_token raw =
     (case dropWhile is_whitespace raw of
        [] \<Rightarrow> None
      | first # rest \<Rightarrow>
          if first = 34 \<or> first = 39 then
            (if first \<in> set rest
             then Some (takeWhile (\<lambda>c. c \<noteq> first) rest, tl (dropWhile (\<lambda>c. c \<noteq> first) rest))
             else Some (rest, []))
          else Some (takeWhile (\<lambda>c. \<not> is_whitespace c) (first # rest), dropWhile (\<lambda>c. \<not> is_whitespace c) (first # rest)))"

lemma command_text_token_shorter:
  assumes "command_text_token s = Some (token, rest)"
  shows "length rest < length s"
proof -
  obtain first r where d: "dropWhile is_whitespace s = first # r"
    using assms by (cases "dropWhile is_whitespace s") (auto simp: command_text_token_def)
  have 1: "length (first # r) \<le> length s" using length_dropWhile_le [of is_whitespace s] by (simp add: d)
  have nw: "\<not> is_whitespace first" using d by (metis dropWhile_eq_Cons_conv)
  have "length rest \<le> length r"
    using assms nw length_dropWhile_le [of "\<lambda>c. c \<noteq> first" r] length_dropWhile_le [of "\<lambda>c. \<not> is_whitespace c" r]
    by (auto simp: command_text_token_def d split: if_splits)
  with 1 show ?thesis by simp
qed

function command_text_agent_name :: "(ustr \<Rightarrow> ustr) \<Rightarrow> (ustr \<Rightarrow> ustr option) \<Rightarrow> ustr \<Rightarrow> ustr option" where
  "command_text_agent_name lc canonicalize rest =
     (case command_text_token rest of
        None \<Rightarrow> None
      | Some (token, after) \<Rightarrow>
          if one_of [''&'', ''.'', ''call''] (ascii_lowercase (trim token))
          then command_text_agent_name lc canonicalize after
          else agent_name_from_path_token lc canonicalize (trim token))"
  by pat_completeness auto

termination
  by (relation "measure (\<lambda>(_, _, s). length s)") (auto dest: command_text_token_shorter)

declare command_text_agent_name.simps [simp del]

fun windows_cmd_args :: "(ustr \<Rightarrow> ustr) \<Rightarrow> (ustr \<Rightarrow> ustr option) \<Rightarrow> ustr list \<Rightarrow> ustr option" where
  "windows_cmd_args lc command [] = None"
| "windows_cmd_args lc command (arg # rest) =
     (if one_of [''/c'', ''/k''] (lc (trim_matches (\<lambda>c. c = 34) arg))
      then (case rest of [] \<Rightarrow> None | text # _ \<Rightarrow> command text)
      else windows_cmd_args lc command rest)"

definition windows_cmd_arg_agent_name ::
  "(ustr \<Rightarrow> ustr) \<Rightarrow> (ustr \<Rightarrow> ustr option) \<Rightarrow> ustr list \<Rightarrow> ustr option" where
  "windows_cmd_arg_agent_name lc canonicalize argv =
     windows_cmd_args lc (command_text_agent_name lc canonicalize) (tl argv)"

fun powershell_args ::
  "(ustr \<Rightarrow> ustr) \<Rightarrow> (ustr \<Rightarrow> ustr option) \<Rightarrow> (ustr \<Rightarrow> ustr option) \<Rightarrow> ustr list \<Rightarrow> ustr option" where
  "powershell_args lc name command [] = None"
| "powershell_args lc name command (arg # rest) =
     (let flag = lc (trim_matches (\<lambda>c. c = 34) arg)
      in if one_of [''-file'', ''-f'', ''/file''] flag then (case rest of [] \<Rightarrow> None | path # _ \<Rightarrow> name path)
         else if one_of [''-command'', ''-c'', ''/command'', ''/c''] flag
         then (case rest of [] \<Rightarrow> None | text # _ \<Rightarrow> command text)
         else if one_of [''-encodedcommand'', ''-enc'', ''/encodedcommand'', ''/enc''] flag then None
         else if one_of [''-configurationname'', ''-executionpolicy'', ''-outputformat'', ''-psconsolefile'',
                ''-version'', ''-windowstyle'', ''-workingdirectory''] flag
         then powershell_args lc name command (tl rest)
         else if prefixed (U ''-'') flag \<or> prefixed (U ''/'') flag then powershell_args lc name command rest
         else name arg)"

definition powershell_arg_agent_name ::
  "(ustr \<Rightarrow> ustr) \<Rightarrow> (ustr \<Rightarrow> ustr option) \<Rightarrow> ustr list \<Rightarrow> ustr option" where
  "powershell_arg_agent_name lc canonicalize argv =
     powershell_args lc (agent_name_from_path_token lc canonicalize) (command_text_agent_name lc canonicalize) (tl argv)"

definition wrapped_agent_name_from_runtime_argv ::
  "(ustr \<Rightarrow> ustr) \<Rightarrow> (ustr \<Rightarrow> ustr option) \<Rightarrow> ustr \<Rightarrow> ustr list option \<Rightarrow> ustr option" where
  "wrapped_agent_name_from_runtime_argv lc canonicalize runtime argv =
     (case argv of
        None \<Rightarrow> None
      | Some argv \<Rightarrow>
          (let runtime_name = normalized_agent_lookup_name lc (path_basename runtime)
           in if one_of [''node'', ''bun''] runtime_name
              then script_arg_agent_name lc canonicalize argv (map U [''-e'', ''--eval'', ''-p'', ''--print'']) []
              else if is_python_runtime runtime_name
              then script_arg_agent_name lc canonicalize argv [U ''-c''] [U ''-m'']
              else if one_of [''sh'', ''bash'', ''zsh'', ''fish''] runtime_name
              then script_arg_agent_name lc canonicalize argv [U ''-c''] []
              else if runtime_name = U ''cmd'' then windows_cmd_arg_agent_name lc canonicalize argv
              else if one_of [''powershell'', ''pwsh''] runtime_name then powershell_arg_agent_name lc canonicalize argv
              else None))"

section \<open>The name of a process\<close>

definition argv0_agent_name :: "(ustr \<Rightarrow> ustr) \<Rightarrow> (ustr \<Rightarrow> ustr option) \<Rightarrow> ustr list option \<Rightarrow> ustr option" where
  "argv0_agent_name lc canonicalize argv =
     (case argv of Some (first # _) \<Rightarrow> agent_name_from_path_token lc canonicalize first | _ \<Rightarrow> None)"

definition cmdline_argv0_agent_name :: "(ustr \<Rightarrow> ustr) \<Rightarrow> (ustr \<Rightarrow> ustr option) \<Rightarrow> ustr \<Rightarrow> ustr option" where
  "cmdline_argv0_agent_name lc canonicalize cmdline =
     (case dropWhile is_whitespace cmdline of
        [] \<Rightarrow> None
      | s \<Rightarrow> agent_name_from_path_token lc canonicalize (takeWhile (\<lambda>c. \<not> is_whitespace c) s))"

definition renamed_qwen :: "(ustr \<Rightarrow> ustr) \<Rightarrow> (ustr \<Rightarrow> ustr option) \<Rightarrow> ustr list option \<Rightarrow> ustr option" where
  "renamed_qwen lc canonicalize argv =
     (case argv of
        Some (runtime # _) \<Rightarrow>
          (if one_of [''node'', ''bun''] (normalized_agent_lookup_name lc (path_basename runtime))
           then (case wrapped_agent_name_from_runtime_argv lc canonicalize runtime argv of
                   Some wrapped \<Rightarrow> if parse_agent_label lc wrapped = Some Qwen then Some wrapped else None
                 | None \<Rightarrow> None)
           else None)
      | _ \<Rightarrow> None)"

definition normalized_process_name :: "(ustr \<Rightarrow> ustr) \<Rightarrow> (ustr \<Rightarrow> ustr option) \<Rightarrow> foreground_process \<Rightarrow> ustr" where
  "normalized_process_name lc canonicalize process =
     (let effective = (case fg_argv0 process of Some s \<Rightarrow> s | None \<Rightarrow> fg_name process);
          lower = lc effective;
          wrapped = (if is_generic_runtime_or_shell lc lower
            then wrapped_agent_name_from_runtime_argv lc canonicalize lower (fg_argv process) else None)
      in case wrapped of
           Some w \<Rightarrow> w
         | None \<Rightarrow>
             if parse_agent_label lc effective \<noteq> None then effective
             else case or_else (renamed_qwen lc canonicalize (fg_argv process))
                         (or_else (argv0_agent_name lc canonicalize (fg_argv process))
                           (cmdline_argv0_agent_name lc canonicalize
                             (case fg_cmdline process of Some s \<Rightarrow> s | None \<Rightarrow> []))) of
                    Some w \<Rightarrow> w
                  | None \<Rightarrow> effective)"

section \<open>The agent of a process group\<close>

record agent_selection =
  sel_agent :: agent
  sel_name :: ustr
  sel_process_index :: nat

definition process_priority :: "(ustr \<Rightarrow> ustr) \<Rightarrow> foreground_process \<Rightarrow> ustr \<Rightarrow> nat" where
  "process_priority lc process normalized_name =
     (let lower_name = lc normalized_name
      in if lower_name \<noteq> lc (fg_name process) then 3
         else if \<not> is_generic_runtime_or_shell lc lower_name then 2 else 1)"

text \<open>\<open>identify_agent\<close> of the normalized name of a process.\<close>

definition identify_process ::
  "(ustr \<Rightarrow> ustr) \<Rightarrow> (ustr \<Rightarrow> ustr option) \<Rightarrow> nat \<Rightarrow> foreground_process \<Rightarrow> agent_selection option" where
  "identify_process lc canonicalize i process =
     (let candidate = normalized_process_name lc canonicalize process
      in map_option (\<lambda>a. \<lparr>sel_agent = a, sel_name = candidate, sel_process_index = i\<rparr>) (parse_agent_label lc candidate))"

fun best_selection ::
  "(ustr \<Rightarrow> ustr) \<Rightarrow> (ustr \<Rightarrow> ustr option) \<Rightarrow> (nat \<times> foreground_process) list \<Rightarrow> (nat \<times> agent_selection) option \<Rightarrow>
   (nat \<times> agent_selection) option" where
  "best_selection lc canonicalize [] best = best"
| "best_selection lc canonicalize ((i, process) # rest) best =
     (case identify_process lc canonicalize i process of
        None \<Rightarrow> best_selection lc canonicalize rest best
      | Some sel \<Rightarrow>
          (let score = process_priority lc process (sel_name sel)
           in best_selection lc canonicalize rest
                (case best of
                   Some (best_score, _) \<Rightarrow> if score \<le> best_score then best else Some (score, sel)
                 | None \<Rightarrow> Some (score, sel))))"

definition select_agent_in_job ::
  "(ustr \<Rightarrow> ustr) \<Rightarrow> (ustr \<Rightarrow> ustr option) \<Rightarrow> foreground_job \<Rightarrow> agent_selection option" where
  "select_agent_in_job lc canonicalize job =
     (let indexed = zip [0..<length (fg_processes job)] (fg_processes job)
      in case find (\<lambda>(_, process). fg_pid process = fg_process_group_id job) indexed
               \<bind> (\<lambda>(i, process). identify_process lc canonicalize i process) of
           Some sel \<Rightarrow> Some sel
         | None \<Rightarrow> map_option snd (best_selection lc canonicalize indexed None))"

definition identify_agent_in_job ::
  "(ustr \<Rightarrow> ustr) \<Rightarrow> (ustr \<Rightarrow> ustr option) \<Rightarrow> foreground_job \<Rightarrow> (agent \<times> ustr) option" where
  "identify_agent_in_job lc canonicalize job =
     map_option (\<lambda>sel. (sel_agent sel, sel_name sel)) (select_agent_in_job lc canonicalize job)"

definition foreground_agent_argv_from_job ::
  "(ustr \<Rightarrow> ustr) \<Rightarrow> (ustr \<Rightarrow> ustr option) \<Rightarrow> foreground_job \<Rightarrow> ustr \<Rightarrow> ustr list option" where
  "foreground_agent_argv_from_job lc canonicalize job expected_agent =
     parse_agent_label lc expected_agent \<bind> (\<lambda>expected.
     select_agent_in_job lc canonicalize job \<bind> (\<lambda>sel.
       if sel_agent sel \<noteq> expected then None
       else if sel_process_index sel < length (fg_processes job) then fg_argv (fg_processes job ! sel_process_index sel)
       else None))"

definition foreground_agent_argv ::
  "(ustr \<Rightarrow> ustr) \<Rightarrow> (ustr \<Rightarrow> ustr option) \<Rightarrow> (u32 \<Rightarrow> foreground_job option) \<Rightarrow> u32 \<Rightarrow> ustr \<Rightarrow> ustr list option" where
  "foreground_agent_argv lc canonicalize foreground_job child_pid expected_agent =
     foreground_job child_pid \<bind> (\<lambda>job. foreground_agent_argv_from_job lc canonicalize job expected_agent)"

definition interactive_agent_executable :: "agent \<Rightarrow> ustr" where
  "interactive_agent_executable a =
     (case a of Cursor \<Rightarrow> U ''cursor-agent'' | Kiro \<Rightarrow> U ''kiro-cli'' | _ \<Rightarrow> agent_label a)"

section \<open>Correctness of the choice\<close>

definition recognised :: "(ustr \<Rightarrow> ustr) \<Rightarrow> (ustr \<Rightarrow> ustr option) \<Rightarrow> foreground_process \<Rightarrow> agent option" where
  "recognised lc canonicalize p = parse_agent_label lc (normalized_process_name lc canonicalize p)"

definition priority_of :: "(ustr \<Rightarrow> ustr) \<Rightarrow> (ustr \<Rightarrow> ustr option) \<Rightarrow> foreground_process \<Rightarrow> nat" where
  "priority_of lc canonicalize p = process_priority lc p (normalized_process_name lc canonicalize p)"

lemma identify_process_recognised:
  "identify_process lc canonicalize i p =
     map_option (\<lambda>a. \<lparr>sel_agent = a, sel_name = normalized_process_name lc canonicalize p, sel_process_index = i\<rparr>)
       (recognised lc canonicalize p)"
  by (simp add: identify_process_def recognised_def Let_def)

text \<open>The recognised processes with their priorities; the loop picks the first one of highest priority.\<close>

definition scored :: "(ustr \<Rightarrow> ustr) \<Rightarrow> (ustr \<Rightarrow> ustr option) \<Rightarrow> nat \<times> foreground_process \<Rightarrow> (nat \<times> agent_selection) option" where
  "scored lc canonicalize x =
     map_option (\<lambda>sel. (priority_of lc canonicalize (snd x), sel)) (identify_process lc canonicalize (fst x) (snd x))"

abbreviation worst_first :: "nat \<times> 'a \<Rightarrow> nat reverse" where
  "worst_first c \<equiv> Reverse (fst c)"

lemma best_selection_min:
  "best_selection lc canonicalize xs best =
     (case best of
        None \<Rightarrow> min_by_key worst_first (List.map_filter (scored lc canonicalize) xs)
      | Some b \<Rightarrow> Some (case min_by_key worst_first (List.map_filter (scored lc canonicalize) xs) of
          None \<Rightarrow> b | Some c \<Rightarrow> if fst c \<le> fst b then b else c))"
proof (induction xs arbitrary: best)
  case Nil
  show ?case by (cases best) (simp_all add: map_filter_simps)
next
  case (Cons x xs)
  obtain i p where x: "x = (i, p)" by fastforce
  show ?case
  proof (cases "identify_process lc canonicalize i p")
    case None
    then have "List.map_filter (scored lc canonicalize) (x # xs) = List.map_filter (scored lc canonicalize) xs"
      by (simp add: x map_filter_simps scored_def)
    moreover have "best_selection lc canonicalize (x # xs) best = best_selection lc canonicalize xs best" by (simp add: x None)
    ultimately show ?thesis using Cons.IH [of best] by (simp only:)
  next
    case (Some sel)
    then have n: "sel_name sel = normalized_process_name lc canonicalize p"
      by (auto simp: identify_process_recognised)
    let ?c = "(priority_of lc canonicalize p, sel)" and ?m = "min_by_key worst_first (List.map_filter (scored lc canonicalize) xs)"
    have "List.map_filter (scored lc canonicalize) (x # xs) = ?c # List.map_filter (scored lc canonicalize) xs"
      by (simp add: x map_filter_simps scored_def Some)
    then have m: "min_by_key worst_first (List.map_filter (scored lc canonicalize) (x # xs)) =
        Some (case ?m of None \<Rightarrow> ?c | Some y \<Rightarrow> if fst y \<le> fst ?c then ?c else y)"
      by (simp add: less_eq_reverse_def split: option.splits)
    have "best_selection lc canonicalize (x # xs) best = best_selection lc canonicalize xs
        (case best of Some (b, _) \<Rightarrow> if fst ?c \<le> b then best else Some ?c | None \<Rightarrow> Some ?c)"
      by (simp add: x Some Let_def n priority_of_def split: option.splits)
    then show ?thesis unfolding m Cons.IH
      by (auto split: option.splits prod.splits)
  qed
qed

lemma min_by_key_first:
  assumes "min_by_key f xs = Some x"
  obtains ys zs where "xs = ys @ x # zs" "\<forall>y \<in> set ys. f x < f y" "\<forall>z \<in> set zs. f x \<le> f z"
  using assms
proof (induction xs arbitrary: x thesis)
  case (Cons a xs)
  show ?case
  proof (cases "min_by_key f xs")
    case None
    with Cons.prems show ?thesis using Cons.prems(1) [of "[]" "[]"] by simp
  next
    case (Some y)
    show ?thesis
    proof (cases "f a \<le> f y")
      case True
      then have "x = a" using Cons.prems(2) Some by simp
      moreover have "\<forall>z \<in> set xs. f a \<le> f z" using min_by_key_Some [OF Some] True by force
      ultimately show ?thesis using Cons.prems(1) [of "[]" xs] by simp
    next
      case False
      then have xy: "x = y" using Cons.prems(2) Some by simp
      obtain ys zs where "xs = ys @ y # zs" "\<forall>u \<in> set ys. f y < f u" "\<forall>z \<in> set zs. f y \<le> f z"
        using Cons.IH [OF _ Some] by blast
      with False xy show ?thesis using Cons.prems(1) [of "a # ys" zs] by simp
    qed
  qed
qed simp

lemma indexed_split:
  assumes "zip [0..<length ps] ps = ys @ (i, p) # zs"
  shows "i = length ys \<and> ps = map snd ys @ p # map snd zs"
proof -
  have "map snd (zip [0..<length ps] ps) = ps" "map fst (zip [0..<length ps] ps) = [0..<length ps]" by simp_all
  then have ps: "ps = map snd ys @ p # map snd zs" and ix: "map fst ys @ i # map fst zs = [0..<length ps]"
    unfolding assms by simp_all
  have "length ys < length ps" by (subst ps) simp
  then have "[0..<length ps] ! length ys = length ys" by simp
  moreover have "(map fst ys @ i # map fst zs) ! length (map fst ys) = i" by (rule nth_append_length)
  ultimately have "i = length ys" unfolding ix by simp
  with ps show ?thesis by blast
qed

lemma find_split:
  assumes "find P xs = Some x"
  obtains ys zs where "xs = ys @ x # zs" "P x" "\<forall>y \<in> set ys. \<not> P y"
  using assms
proof (induction xs arbitrary: thesis)
  case (Cons a xs)
  show ?case
  proof (cases "P a")
    case True
    then show ?thesis using Cons.prems(1) [of "[]" xs] Cons.prems(2) by simp
  next
    case False
    then have "find P xs = Some x" using Cons.prems(2) by simp
    from Cons.IH [OF _ this] obtain ys zs where "xs = ys @ x # zs" "P x" "\<forall>y \<in> set ys. \<not> P y" by blast
    then show ?thesis using Cons.prems(1) [of "a # ys" zs] False by simp
  qed
qed simp

lemma map_filter_split:
  assumes "List.map_filter f xs = ys @ y # zs"
  obtains as a bs where "xs = as @ a # bs" "f a = Some y" "List.map_filter f as = ys" "List.map_filter f bs = zs"
  using assms
proof (induction xs arbitrary: ys thesis)
  case (Cons x xs)
  show ?case
  proof (cases "f x = None \<or> ys \<noteq> []")
    case True
    define ys' where "ys' = (if f x = None then ys else tl ys)"
    have eq: "List.map_filter f xs = ys' @ y # zs"
      using Cons.prems(2) True by (cases "f x"; cases ys) (auto simp: map_filter_simps ys'_def)
    obtain as a bs where "xs = as @ a # bs" "f a = Some y" "List.map_filter f as = ys'" "List.map_filter f bs = zs"
      using Cons.IH [OF _ eq] by blast
    moreover have "List.map_filter f (x # as) = ys" if "List.map_filter f as = ys'" for as
      using Cons.prems(2) True that by (cases "f x"; cases ys) (auto simp: map_filter_simps ys'_def)
    ultimately show ?thesis using Cons.prems(1) [of "x # as" a bs] by simp
  next
    case False
    then show ?thesis
      using Cons.prems(1) [of "[]" x xs] Cons.prems(2) by (auto simp: map_filter_simps)
  qed
qed (simp add: map_filter_simps)

lemma set_map_filter: "set (List.map_filter f xs) = {y. \<exists>x \<in> set xs. f x = Some y}"
  by (induction xs) (auto simp: map_filter_simps split: option.splits)

lemma scored_iff:
  "scored lc canonicalize (i, p) = Some (s, sel) \<longleftrightarrow> s = priority_of lc canonicalize p \<and>
     recognised lc canonicalize p = Some (sel_agent sel) \<and> sel_name sel = normalized_process_name lc canonicalize p \<and>
     sel_process_index sel = i"
  by (cases sel) (auto simp: scored_def identify_process_recognised)

definition numbered :: "foreground_job \<Rightarrow> (nat \<times> foreground_process) list" where
  "numbered job = zip [0..<length (fg_processes job)] (fg_processes job)"

definition leader :: "(ustr \<Rightarrow> ustr) \<Rightarrow> (ustr \<Rightarrow> ustr option) \<Rightarrow> foreground_job \<Rightarrow> agent_selection option" where
  "leader lc canonicalize job =
    (find (\<lambda>(_, q). fg_pid q = fg_process_group_id job) (numbered job) \<bind> (\<lambda>(i, q). identify_process lc canonicalize i q))"

lemma select_agent_leader:
  "select_agent_in_job lc canonicalize job = (case leader lc canonicalize job of Some sel \<Rightarrow> Some sel
     | None \<Rightarrow> map_option snd (min_by_key worst_first (List.map_filter (scored lc canonicalize) (numbered job))))"
  unfolding select_agent_in_job_def Let_def leader_def numbered_def best_selection_min option.case ..

lemma find_numbered: "find P (fg_processes job) = map_option snd (find (\<lambda>(_, q). P q) (numbered job))"
proof -
  have "find P (map snd xs) = map_option snd (find (\<lambda>(_, q). P q) xs)" for xs :: "(nat \<times> foreground_process) list"
    by (induction xs) auto
  from this [of "numbered job"] show ?thesis by (simp add: numbered_def)
qed

lemma leader_none:
  "leader lc canonicalize job = None \<Longrightarrow> find (\<lambda>q. fg_pid q = fg_process_group_id job) (fg_processes job) = Some l
    \<Longrightarrow> recognised lc canonicalize l = None"
  by (auto simp: find_numbered leader_def identify_process_recognised split: option.splits)

text \<open>
  The choice a group's report makes: the process \<open>p\<close> after the processes \<open>ys\<close> and before \<open>zs\<close>.
\<close>

definition chosen :: "(ustr \<Rightarrow> ustr) \<Rightarrow> (ustr \<Rightarrow> ustr option) \<Rightarrow> foreground_job
    \<Rightarrow> agent_selection \<Rightarrow> foreground_process list \<Rightarrow> foreground_process \<Rightarrow> foreground_process list \<Rightarrow> bool" where
  "chosen lc canonicalize job sel ys p zs \<longleftrightarrow>
     fg_processes job = ys @ p # zs \<and> sel_process_index sel = length ys \<and>
     recognised lc canonicalize p = Some (sel_agent sel) \<and> sel_name sel = normalized_process_name lc canonicalize p"

lemma leader_chosen:
  assumes "leader lc canonicalize job = Some sel"
  obtains ys p zs where "chosen lc canonicalize job sel ys p zs" "fg_pid p = fg_process_group_id job"
    "\<forall>q \<in> set ys. fg_pid q \<noteq> fg_process_group_id job"
    "find (\<lambda>q. fg_pid q = fg_process_group_id job) (fg_processes job) = Some p"
proof -
  obtain i p where f: "find (\<lambda>(_, q). fg_pid q = fg_process_group_id job) (numbered job) = Some (i, p)"
    "identify_process lc canonicalize i p = Some sel"
    using assms by (auto simp: leader_def bind_eq_Some_conv)
  obtain ys zs where s: "numbered job = ys @ (i, p) # zs" "fg_pid p = fg_process_group_id job"
    "\<forall>y \<in> set ys. fg_pid (snd y) \<noteq> fg_process_group_id job"
    by (rule find_split [OF f(1)]) (auto simp: case_prod_beta)
  have "i = length ys" "fg_processes job = map snd ys @ p # map snd zs"
    using indexed_split [of "fg_processes job" ys i p zs] s(1) by (simp_all add: numbered_def)
  then have "chosen lc canonicalize job sel (map snd ys) p (map snd zs)"
    using f(2) by (auto simp: chosen_def identify_process_recognised)
  moreover have "find (\<lambda>q. fg_pid q = fg_process_group_id job) (fg_processes job) = Some p"
    by (simp add: find_numbered f(1))
  ultimately show thesis using that s(2,3) by simp
qed

lemma best_chosen:
  assumes "min_by_key worst_first (List.map_filter (scored lc canonicalize) (numbered job)) = Some (s, sel)"
  obtains ys p zs where "chosen lc canonicalize job sel ys p zs"
    "\<And>q. q \<in> set ys \<Longrightarrow> recognised lc canonicalize q \<noteq> None \<Longrightarrow> priority_of lc canonicalize q < priority_of lc canonicalize p"
    "\<And>q. q \<in> set zs \<Longrightarrow> recognised lc canonicalize q \<noteq> None \<Longrightarrow> priority_of lc canonicalize q \<le> priority_of lc canonicalize p"
proof -
  obtain us vs where m: "List.map_filter (scored lc canonicalize) (numbered job) = us @ (s, sel) # vs"
    "\<forall>y \<in> set us. worst_first (s, sel) < worst_first y" "\<forall>z \<in> set vs. worst_first (s, sel) \<le> worst_first z"
    using min_by_key_first [OF assms] by blast
  obtain ys x zs where x: "numbered job = ys @ x # zs" "scored lc canonicalize x = Some (s, sel)"
    "List.map_filter (scored lc canonicalize) ys = us" "List.map_filter (scored lc canonicalize) zs = vs"
    using map_filter_split [OF m(1)] by blast
  obtain i p where xp: "x = (i, p)" by fastforce
  have i: "i = length ys" "fg_processes job = map snd ys @ p # map snd zs"
    using indexed_split [of "fg_processes job" ys i p zs] x(1) by (simp_all add: numbered_def xp)
  have r: "s = priority_of lc canonicalize p" using x(2) by (simp add: xp scored_iff)
  have score: "\<exists>sel'. scored lc canonicalize y = Some (priority_of lc canonicalize (snd y), sel')"
    if "recognised lc canonicalize (snd y) \<noteq> None" for y
    using that by (cases y) (auto simp: scored_def identify_process_recognised)
  have b: "priority_of lc canonicalize (snd y) < priority_of lc canonicalize p"
    if y: "y \<in> set ys" and rec: "recognised lc canonicalize (snd y) \<noteq> None" for y
  proof -
    obtain sel' where "scored lc canonicalize y = Some (priority_of lc canonicalize (snd y), sel')" using score rec by blast
    with y have "(priority_of lc canonicalize (snd y), sel') \<in> set us" by (auto simp: x(3) [symmetric] set_map_filter)
    with m(2) r show ?thesis by (auto simp: less_reverse_def less_eq_reverse_def)
  qed
  have a: "priority_of lc canonicalize (snd y) \<le> priority_of lc canonicalize p"
    if y: "y \<in> set zs" and rec: "recognised lc canonicalize (snd y) \<noteq> None" for y
  proof -
    obtain sel' where "scored lc canonicalize y = Some (priority_of lc canonicalize (snd y), sel')" using score rec by blast
    with y have "(priority_of lc canonicalize (snd y), sel') \<in> set vs" by (auto simp: x(4) [symmetric] set_map_filter)
    with m(3) r show ?thesis by (auto simp: less_reverse_def less_eq_reverse_def)
  qed
  have "chosen lc canonicalize job sel (map snd ys) p (map snd zs)" using i x(2) by (simp add: chosen_def xp scored_iff)
  then show thesis by (rule that) (use a b in auto)
qed

section \<open>Properties\<close>

text \<open>
  C23. The agent of a process group is the best recognised process. Nothing is reported exactly when no
  process of the group is recognised. Otherwise the report names a recognised process of the group
  with its agent: the group leader whenever that is recognised, and else the first one among those
  of highest priority.
\<close>

theorem job_agent_is_best:
  "case select_agent_in_job lc canonicalize job of
     None \<Rightarrow> \<forall>p \<in> set (fg_processes job). recognised lc canonicalize p = None
   | Some sel \<Rightarrow>
       (\<exists>ys p zs. fg_processes job = ys @ p # zs \<and> sel_process_index sel = length ys \<and>
          recognised lc canonicalize p = Some (sel_agent sel) \<and> sel_name sel = normalized_process_name lc canonicalize p \<and>
          (if \<exists>l. find (\<lambda>q. fg_pid q = fg_process_group_id job) (fg_processes job) = Some l \<and> recognised lc canonicalize l \<noteq> None
           then fg_pid p = fg_process_group_id job \<and> (\<forall>q \<in> set ys. fg_pid q \<noteq> fg_process_group_id job)
           else (\<forall>q \<in> set ys. recognised lc canonicalize q \<noteq> None \<longrightarrow> priority_of lc canonicalize q < priority_of lc canonicalize p) \<and>
             (\<forall>q \<in> set zs. recognised lc canonicalize q \<noteq> None \<longrightarrow> priority_of lc canonicalize q \<le> priority_of lc canonicalize p)))"
proof (cases "leader lc canonicalize job")
  case (Some sel)
  obtain ys p zs where c: "chosen lc canonicalize job sel ys p zs" "fg_pid p = fg_process_group_id job"
    "\<forall>q \<in> set ys. fg_pid q \<noteq> fg_process_group_id job"
    "find (\<lambda>q. fg_pid q = fg_process_group_id job) (fg_processes job) = Some p"
    by (rule leader_chosen [OF Some])
  show ?thesis
    unfolding select_agent_leader Some option.case using c unfolding chosen_def
    by (intro exI [of _ ys], intro exI [of _ p], intro exI [of _ zs]) simp
next
  case None
  note no_leader = leader_none [OF None]
  show ?thesis
  proof (cases "min_by_key worst_first (List.map_filter (scored lc canonicalize) (numbered job))")
    case nothing: None
    then have empty: "List.map_filter (scored lc canonicalize) (numbered job) = []" by simp
    then have "scored lc canonicalize x = None" if "x \<in> set (numbered job)" for x
      using set_map_filter [of "scored lc canonicalize" "numbered job"] that by (cases "scored lc canonicalize x") auto
    then have "\<forall>x \<in> set (numbered job). recognised lc canonicalize (snd x) = None"
      by (auto simp: scored_def identify_process_recognised)
    then have "\<forall>p \<in> set (map snd (numbered job)). recognised lc canonicalize p = None" by auto
    moreover have "select_agent_in_job lc canonicalize job = None"
      unfolding select_agent_leader None by (simp add: empty)
    ultimately show ?thesis by (simp add: numbered_def)
  next
    case (Some c)
    then obtain s sel where m: "min_by_key worst_first (List.map_filter (scored lc canonicalize) (numbered job)) = Some (s, sel)"
      by fastforce
    obtain ys p zs where c: "chosen lc canonicalize job sel ys p zs"
      "\<forall>q \<in> set ys. recognised lc canonicalize q \<noteq> None \<longrightarrow> priority_of lc canonicalize q < priority_of lc canonicalize p"
      "\<forall>q \<in> set zs. recognised lc canonicalize q \<noteq> None \<longrightarrow> priority_of lc canonicalize q \<le> priority_of lc canonicalize p"
      by (rule best_chosen [OF m]) blast
    have "select_agent_in_job lc canonicalize job = Some sel" using None m by (simp add: select_agent_leader)
    moreover have "\<not> (\<exists>l. find (\<lambda>q. fg_pid q = fg_process_group_id job) (fg_processes job) = Some l \<and>
        recognised lc canonicalize l \<noteq> None)" by (rule notI, elim exE conjE, drule no_leader) simp
    ultimately show ?thesis
      using c unfolding chosen_def
      by (simp only: option.case if_False) (rule exI [of _ ys], rule exI [of _ p], rule exI [of _ zs], iprover)
  qed
qed

definition sample_process :: "u32 \<Rightarrow> string \<Rightarrow> foreground_process" where
  "sample_process pid name =
     \<lparr>fg_pid = pid, fg_name = U name, fg_argv0 = None, fg_argv = None, fg_cmdline = None\<rparr>"

lemma sample_lookup:
  "normalized_agent_lookup_name ascii_lowercase (U ''claude'') = U ''claude''"
  "normalized_agent_lookup_name ascii_lowercase (U ''sleep'') = U ''sleep''"
  "normalized_agent_lookup_name ascii_lowercase (U ''bash'') = U ''bash''"
  by (simp_all add: normalized_agent_lookup_name_def ascii_lowercase_def trim_def is_whitespace_def ends_with_def U_def)

lemma sample_names:
  "parse_agent_label ascii_lowercase (U ''claude'') = Some Claude"
  "parse_agent_label ascii_lowercase (U ''sleep'') = None"
  "parse_agent_label ascii_lowercase (U ''bash'') = None"
  unfolding parse_agent_label_def sample_lookup Let_def parse_canonical_agent_label_def
  by (simp_all add: lookup_agent_def agent_names_def U_def)

lemma sample_basename:
  "path_basename (U ''claude'') = U ''claude''"
  "path_basename (U ''sleep'') = U ''sleep''"
  "path_basename (U ''bash'') = U ''bash''"
  by (simp_all add: path_basename_def is_separator_def U_def)

lemma sample_generic:
  "is_generic_runtime_or_shell ascii_lowercase (U ''claude'') = False"
  "is_generic_runtime_or_shell ascii_lowercase (U ''sleep'') = False"
  "is_generic_runtime_or_shell ascii_lowercase (U ''bash'') = True"
  unfolding is_generic_runtime_or_shell_def sample_basename sample_lookup Let_def
  by (simp_all add: is_python_runtime_def one_of_def some_and_def strip_prefix_def U_def)

lemma sample_normalized:
  "normalized_process_name ascii_lowercase (\<lambda>_. None) (sample_process 8 ''claude'') = U ''claude''"
  "normalized_process_name ascii_lowercase (\<lambda>_. None) (sample_process 9 ''sleep'') = U ''sleep''"
  "normalized_process_name ascii_lowercase (\<lambda>_. None) (sample_process 7 ''bash'') = U ''bash''"
proof -
  have low: "ascii_lowercase (U ''claude'') = U ''claude''" "ascii_lowercase (U ''sleep'') = U ''sleep''"
    "ascii_lowercase (U ''bash'') = U ''bash''" by (simp_all add: ascii_lowercase_def U_def)
  note s = normalized_process_name_def sample_process_def renamed_qwen_def argv0_agent_name_def
    cmdline_argv0_agent_name_def wrapped_agent_name_from_runtime_argv_def
  show "normalized_process_name ascii_lowercase (\<lambda>_. None) (sample_process 8 ''claude'') = U ''claude''"
    and "normalized_process_name ascii_lowercase (\<lambda>_. None) (sample_process 9 ''sleep'') = U ''sleep''"
    and "normalized_process_name ascii_lowercase (\<lambda>_. None) (sample_process 7 ''bash'') = U ''bash''"
    by (simp_all add: s low sample_generic sample_names)
qed

definition sample_job :: foreground_job where
  "sample_job = \<lparr>fg_process_group_id = 7,
     fg_processes = [sample_process 9 ''sleep'', sample_process 8 ''claude'', sample_process 7 ''bash'']\<rparr>"

lemma sample_selection:
  "select_agent_in_job ascii_lowercase (\<lambda>_. None) sample_job =
     Some \<lparr>sel_agent = Claude, sel_name = U ''claude'', sel_process_index = 1\<rparr>"
proof -
  have pids: "fg_pid (sample_process n s) = n" for n s by (simp add: sample_process_def)
  show ?thesis
    by (simp add: select_agent_in_job_def sample_job_def identify_process_def sample_normalized sample_names pids upt_rec Let_def)
qed

theorem job_agent_is_best_witness:
  "\<exists>ys p zs. fg_processes sample_job = ys @ p # zs \<and> length ys = 1 \<and>
     recognised ascii_lowercase (\<lambda>_. None) p = Some Claude"
proof -
  note job_agent_is_best [where lc = ascii_lowercase and canonicalize = "\<lambda>_. None" and job = sample_job, unfolded sample_selection option.case]
  then show ?thesis by (elim exE conjE) (intro exI conjI, assumption, simp, simp)
qed

section \<open>Launchers\<close>

text \<open>
  An interpreter that runs an agent's script counts as the agent, also where the command line is
  captured for resuming: \<open>node /opt/claude.js\<close> is captured as Claude's.
\<close>

definition launcher :: "u32 \<Rightarrow> foreground_job option" where
  "launcher pid = Some \<lparr>fg_process_group_id = 5, fg_processes =
     [\<lparr>fg_pid = 5, fg_name = U ''node'', fg_argv0 = None, fg_argv = Some [U ''node'', U ''/opt/claude.js''], fg_cmdline = None\<rparr>]\<rparr>"

lemma launcher_names:
  "normalized_agent_lookup_name ascii_lowercase (U ''node'') = U ''node''"
  "normalized_agent_lookup_name ascii_lowercase (U ''claude.js'') = U ''claude''"
  "path_basename (U ''node'') = U ''node''"
  "path_basename (U ''/opt/claude.js'') = U ''claude.js''"
  "ascii_lowercase (U ''node'') = U ''node''"
  by (simp_all add: normalized_agent_lookup_name_def ascii_lowercase_def trim_def is_whitespace_def ends_with_def
      path_basename_def is_separator_def U_def)

lemma launcher_token: "agent_name_from_path_token ascii_lowercase canonicalize (U ''/opt/claude.js'') = Some (U ''claude'')"
proof -
  have t: "trim_matches (\<lambda>c. c = 34 \<or> c = 39) (U ''/opt/claude.js'') = U ''/opt/claude.js''"
    "U ''/opt/claude.js'' \<noteq> []" "\<not> prefixed (U ''-'') (U ''/opt/claude.js'')"
    by (simp_all add: trim_matches_def prefixed_def U_def)
  have "parse_agent_label ascii_lowercase (U ''claude.js'') = Some Claude"
    using sample_names(1) unfolding parse_agent_label_def launcher_names sample_lookup .
  then show ?thesis using t by (simp add: agent_name_from_path_token_def agent_name_from_basename_def launcher_names Let_def)
qed

lemma wrapped_launcher_argv_captured:
  "foreground_agent_argv ascii_lowercase canonicalize launcher pid (U ''claude'') =
     Some [U ''node'', U ''/opt/claude.js'']"
proof -
  have flags: "U ''/opt/claude.js'' \<noteq> U ''--''" "\<not> prefixed (U ''-'') (U ''/opt/claude.js'')"
    "\<not> flag_matches (U ''/opt/claude.js'') (map U [''-e'', ''--eval'', ''-p'', ''--print''])"
    "\<not> flag_matches (U ''/opt/claude.js'') []"
    by (simp_all add: flag_matches_def short_flag_payload_def long_flag_value_def strip_prefix_def prefixed_def U_def)
  have script: "script_arg_agent_name ascii_lowercase canonicalize [U ''node'', U ''/opt/claude.js'']
      (map U [''-e'', ''--eval'', ''-p'', ''--print'']) [] = Some (U ''claude'')"
    unfolding script_arg_agent_name_def using flags by (simp add: launcher_token del: list.map)
  have node: "one_of [''node'', ''bun''] (U ''node'')" by (simp add: one_of_def)
  then have "wrapped_agent_name_from_runtime_argv ascii_lowercase canonicalize (U ''node'')
      (Some [U ''node'', U ''/opt/claude.js'']) = Some (U ''claude'')"
    unfolding wrapped_agent_name_from_runtime_argv_def option.case Let_def launcher_names using script by simp
  moreover have "is_generic_runtime_or_shell ascii_lowercase (U ''node'')"
    unfolding is_generic_runtime_or_shell_def launcher_names Let_def by (simp add: one_of_def)
  ultimately have "normalized_process_name ascii_lowercase canonicalize
      \<lparr>fg_pid = 5, fg_name = U ''node'', fg_argv0 = None, fg_argv = Some [U ''node'', U ''/opt/claude.js''], fg_cmdline = None\<rparr> =
      U ''claude''"
    by (simp add: normalized_process_name_def launcher_names Let_def)
  then show ?thesis
    by (simp add: foreground_agent_argv_def launcher_def foreground_agent_argv_from_job_def select_agent_in_job_def
        identify_process_def sample_names Let_def)
qed

end
