(* ===== verification/Utf8.thy ===== *)
theory Utf8
  imports Prelude
begin

text \<open>
  UTF-8 as \<open>std::str::from_utf8\<close> reads it: the shortest form only, no surrogates, nothing above
  \<open>10FFFF\<close>. A step reads one character, or finds the input too short, which is \<open>Utf8Error::error_len\<close>
  \<open>None\<close>, or malformed. Bytes of a literal are written \<open>B ''...''\<close>.
\<close>

definition B :: "string \<Rightarrow> u8 list" where
  "B s = map of_char s"

definition scalar :: "nat \<Rightarrow> bool" where
  "scalar c \<longleftrightarrow> c < 55296 \<or> 57344 \<le> c \<and> c < 1114112"

definition utf8_width :: "nat \<Rightarrow> nat" where
  "utf8_width b = (if b < 128 then 1 else if 194 \<le> b \<and> b < 224 then 2 else if 224 \<le> b \<and> b < 240 then 3
     else if 240 \<le> b \<and> b < 245 then 4 else 0)"

definition second_ok :: "nat \<Rightarrow> nat \<Rightarrow> bool" where
  "second_ok b c \<longleftrightarrow> (if b = 224 then 160 else if b = 240 then 144 else 128) \<le> c \<and>
     c < (if b = 237 then 160 else if b = 244 then 144 else 192)"

definition is_cont :: "nat \<Rightarrow> bool" where
  "is_cont c \<longleftrightarrow> 128 \<le> c \<and> c < 192"

datatype utf8_result = Utf8Char nat nat | Utf8Short | Utf8Bad

fun utf8_step :: "nat list \<Rightarrow> utf8_result" where
  "utf8_step [] = Utf8Short"
| "utf8_step (b # bs) =
     (if utf8_width b = 0 then Utf8Bad
      else if utf8_width b = 1 then Utf8Char b 1
      else (case bs of
         [] \<Rightarrow> Utf8Short
       | c # cs \<Rightarrow>
           if \<not> second_ok b c then Utf8Bad
           else if utf8_width b = 2 then Utf8Char ((b - 192) * 64 + (c - 128)) 2
           else (case cs of
              [] \<Rightarrow> Utf8Short
            | d # ds \<Rightarrow>
                if \<not> is_cont d then Utf8Bad
                else if utf8_width b = 3 then Utf8Char ((b - 224) * 4096 + (c - 128) * 64 + (d - 128)) 3
                else (case ds of
                   [] \<Rightarrow> Utf8Short
                 | e # _ \<Rightarrow>
                     if \<not> is_cont e then Utf8Bad
                     else Utf8Char ((b - 240) * 262144 + (c - 128) * 4096 + (d - 128) * 64 + (e - 128)) 4))))"

lemma utf8_step_bounds:
  "utf8_step bs = Utf8Char c n \<Longrightarrow> 0 < n \<and> n \<le> length bs \<and> n \<le> 4"
  by (cases bs) (auto split: if_splits list.splits)

lemma utf8_step_append:
  "utf8_step bs = Utf8Char c n \<Longrightarrow> utf8_step (bs @ cs) = Utf8Char c n"
  "utf8_step bs = Utf8Bad \<Longrightarrow> utf8_step (bs @ cs) = Utf8Bad"
  by (cases bs; auto split: if_splits list.splits)+

function from_utf8_nat :: "nat list \<Rightarrow> ustr option" where
  "from_utf8_nat bs =
     (if bs = [] then Some []
      else case utf8_step bs of
        Utf8Char c n \<Rightarrow> map_option ((#) c) (from_utf8_nat (drop n bs))
      | _ \<Rightarrow> None)"
  by pat_completeness auto

termination
  by (relation "measure length") (auto dest: utf8_step_bounds)

declare from_utf8_nat.simps [simp del]

definition from_utf8 :: "u8 list \<Rightarrow> ustr option" where
  "from_utf8 bs = from_utf8_nat (map unat bs)"

text \<open>\<open>valid_up_to() == 0 && error_len().is_none()\<close> of the error of \<open>from_utf8\<close>.\<close>

definition incomplete_at_start :: "u8 list \<Rightarrow> bool" where
  "incomplete_at_start bs \<longleftrightarrow> bs \<noteq> [] \<and> utf8_step (map unat bs) = Utf8Short"

section \<open>Decoding an encoding\<close>

lemma unat_byte: "n < 256 \<Longrightarrow> unat (of_nat n :: u8) = n"
  by (simp add: unat_of_nat)

lemma utf8_char_nat:
  assumes "scalar c"
  shows "map unat (utf8_char c) =
    (if c < 128 then [c]
     else if c < 2048 then [192 + c div 64, 128 + c mod 64]
     else if c < 65536 then [224 + c div 4096, 128 + c div 64 mod 64, 128 + c mod 64]
     else [240 + c div 262144, 128 + c div 4096 mod 64, 128 + c div 64 mod 64, 128 + c mod 64])"
proof -
  have m: "unat (of_nat (128 + x mod 64) :: u8) = 128 + x mod 64" for x
    by (rule unat_byte) (use mod_less_divisor [of 64 x] in linarith)
  consider "c < 128" | "128 \<le> c" "c < 2048" | "2048 \<le> c" "c < 65536" | "65536 \<le> c" by linarith
  then show ?thesis
  proof cases
    case 1
    then show ?thesis by (simp add: utf8_char_def unat_byte)
  next
    case 2
    then have "192 + c div 64 < 256" by (auto simp: less_mult_imp_div_less)
    then show ?thesis using 2 by (simp add: utf8_char_def unat_byte m del: of_nat_add of_nat_mod)
  next
    case 3
    then have "224 + c div 4096 < 256" by (auto simp: less_mult_imp_div_less)
    then show ?thesis using 3 by (simp add: utf8_char_def unat_byte m del: of_nat_add of_nat_mod)
  next
    case 4
    then have "240 + c div 262144 < 256" using assms by (auto simp: scalar_def less_mult_imp_div_less)
    then show ?thesis using 4 by (simp add: utf8_char_def unat_byte m del: of_nat_add of_nat_mod)
  qed
qed

lemma second_ok3:
  assumes "q < 16" "r < 64" "d = q * 64 + r" "32 \<le> d" "d < 864 \<or> 896 \<le> d"
  shows "second_ok (224 + q) (128 + r)"
  using assms by (auto simp: second_ok_def)

lemma second_ok4:
  assumes "q < 5" "r < 64" "d = q * 64 + r" "16 \<le> d" "d < 272"
  shows "second_ok (240 + q) (128 + r)"
  using assms by (auto simp: second_ok_def)

lemma recompose3: "d = q * 64 + r \<Longrightarrow> d * 64 + l = c \<Longrightarrow> q * 4096 + r * 64 + l = (c :: nat)"
  by simp

lemma recompose4: "e = q * 64 + r \<Longrightarrow> d = e * 64 + t \<Longrightarrow> d * 64 + l = c \<Longrightarrow> q * 262144 + r * 4096 + t * 64 + l = (c :: nat)"
  by simp

lemma utf8_step_char:
  assumes "scalar c"
  shows "utf8_step (map unat (utf8_char c)) = Utf8Char c (length (utf8_char c))"
proof -
  have cont: "is_cont (128 + x mod 64)" for x
    unfolding is_cont_def using mod_less_divisor [of 64 x] by linarith
  consider "c < 128" | "128 \<le> c" "c < 2048" | "2048 \<le> c" "c < 65536" | "65536 \<le> c" by linarith
  then show ?thesis
  proof cases
    case 1
    then show ?thesis by (simp add: utf8_char_nat [OF assms]) (simp add: utf8_char_def utf8_width_def)
  next
    case 2
    let ?b = "192 + c div 64" and ?c = "128 + c mod 64"
    have b: "2 \<le> c div 64" "c div 64 < 32" using 2 by (auto simp: less_mult_imp_div_less div_le_mono [of 128 c 64, simplified])
    have "second_ok ?b ?c" unfolding second_ok_def using b mod_less_divisor [of 64 c] by auto
    moreover have "utf8_width ?b = 2" using b by (simp add: utf8_width_def)
    moreover have "c div 64 * 64 + c mod 64 = c" by simp
    ultimately show ?thesis using 2 by (simp add: utf8_char_nat [OF assms]) (simp add: utf8_char_def)
  next
    case 3
    let ?b = "224 + c div 4096" and ?c = "128 + c div 64 mod 64"
    have b: "c div 4096 < 16" using 3 by (auto simp: less_mult_imp_div_less)
    have s: "c div 64 = c div 4096 * 64 + c div 64 mod 64" using div_mult_mod_eq [of "c div 64" 64] by (simp add: div_mult2_eq [symmetric])
    have lo: "32 \<le> c div 64" using 3 div_le_mono [of 2048 c 64] by simp
    have hi: "c < 55296 \<or> 57344 \<le> c" using assms by (auto simp: scalar_def)
    have sur: "c div 64 < 864 \<or> 896 \<le> c div 64"
      using hi div_le_mono [of 57344 c 64] less_mult_imp_div_less [of c 864 64] by auto
    have "second_ok ?b ?c"
      by (rule second_ok3 [OF b _ s lo sur]) simp
    moreover have "utf8_width ?b = 3" using b by (simp add: utf8_width_def)
    moreover have "c div 4096 * 4096 + c div 64 mod 64 * 64 + c mod 64 = c"
      by (rule recompose3 [OF s]) simp
    ultimately show ?thesis using 3 cont [of c] by (simp add: utf8_char_nat [OF assms]) (simp add: utf8_char_def)
  next
    case 4
    let ?b = "240 + c div 262144" and ?c = "128 + c div 4096 mod 64"
    have b: "c div 262144 < 5" using assms by (auto simp: scalar_def less_mult_imp_div_less)
    have s: "c div 4096 = c div 262144 * 64 + c div 4096 mod 64"
      using div_mult_mod_eq [of "c div 4096" 64] by (simp add: div_mult2_eq [symmetric])
    have s2: "c div 64 = c div 4096 * 64 + c div 64 mod 64"
      using div_mult_mod_eq [of "c div 64" 64] by (simp add: div_mult2_eq [symmetric])
    have lo: "16 \<le> c div 4096" using 4 div_le_mono [of 65536 c 4096] by simp
    have hi: "c div 4096 < 272" using assms by (auto simp: scalar_def less_mult_imp_div_less)
    have "second_ok ?b ?c"
      by (rule second_ok4 [OF b _ s lo hi]) simp
    moreover have "utf8_width ?b = 4" using b by (simp add: utf8_width_def)
    moreover have "c div 262144 * 262144 + c div 4096 mod 64 * 4096 + c div 64 mod 64 * 64 + c mod 64 = c"
      by (rule recompose4 [OF s s2]) simp
    ultimately show ?thesis using 4 cont [of c] cont [of "c div 64"]
      by (simp add: utf8_char_nat [OF assms]) (simp add: utf8_char_def)
  qed
qed

theorem from_utf8_as_bytes: "list_all scalar s \<Longrightarrow> from_utf8 (as_bytes s) = Some s"
proof (induction s)
  case Nil
  show ?case by (simp add: from_utf8_def as_bytes_def from_utf8_nat.simps)
next
  case (Cons c s)
  let ?bs = "map unat (utf8_char c)" and ?rest = "map unat (as_bytes s)"
  have "utf8_step (?bs @ ?rest) = Utf8Char c (length ?bs)"
    using utf8_step_append(1) [OF utf8_step_char] Cons.prems by simp
  moreover have "?bs \<noteq> []" by (simp add: utf8_char_def)
  ultimately have "from_utf8_nat (?bs @ ?rest) = map_option ((#) c) (from_utf8_nat ?rest)"
    by (subst from_utf8_nat.simps) simp
  with Cons show ?case by (simp add: from_utf8_def as_bytes_def)
qed

text \<open>ASCII bytes are their own characters.\<close>

definition ascii :: "u8 list \<Rightarrow> bool" where
  "ascii bs \<longleftrightarrow> list_all (\<lambda>b. b < 128) bs"

lemma from_utf8_ascii: "ascii bs \<Longrightarrow> from_utf8 bs = Some (map unat bs)"
proof (induction bs)
  case (Cons b bs)
  then have "unat b < 128" by (simp add: ascii_def word_less_nat_alt)
  with Cons show ?case by (simp add: from_utf8_def ascii_def from_utf8_nat.simps [of "unat b # _"] utf8_width_def)
qed (simp add: from_utf8_def from_utf8_nat.simps)

lemma as_bytes_ascii: "list_all (\<lambda>c. c < 128) s \<Longrightarrow> as_bytes s = map of_nat s"
  by (induction s) (simp_all add: as_bytes_def utf8_char_def)

end
