(* ===== verification/Key_Codec.thy ===== *)
theory Key_Codec
  imports Keys Utf8
begin

unbundle bit_operations_syntax

text \<open>
  Keys as terminal input: \<open>src/input/encode.rs\<close> writes a key for the program in a pane, in the
  legacy encoding or in the kitty keyboard protocol, and \<open>src/input/parse.rs\<close> reads a key from the
  text of one sequence of the host terminal. Numbers that the code holds in wide integers and only
  prints or compares are natural numbers; modifiers and protocol flags are words.
\<close>

section \<open>Encoding\<close>

definition contains :: "u8 \<Rightarrow> u8 \<Rightarrow> bool" where
  "contains mods flag \<longleftrightarrow> mods AND flag = flag"

definition kitty_flag_report_event_types :: u16 where
  "kitty_flag_report_event_types = 2"

definition kitty_flag_report_alternate_keys :: u16 where
  "kitty_flag_report_alternate_keys = 4"

definition kitty_flag_report_all_keys :: u16 where
  "kitty_flag_report_all_keys = 8"

definition kitty_flag_report_associated_text :: u16 where
  "kitty_flag_report_associated_text = 16"

definition is_ascii_uppercase :: "nat \<Rightarrow> bool" where
  "is_ascii_uppercase c \<longleftrightarrow> 65 \<le> c \<and> c \<le> 90"

definition is_ascii_lowercase :: "nat \<Rightarrow> bool" where
  "is_ascii_lowercase c \<longleftrightarrow> 97 \<le> c \<and> c \<le> 122"

definition to_ascii_uppercase :: "nat \<Rightarrow> nat" where
  "to_ascii_uppercase c = (if is_ascii_lowercase c then c - 32 else c)"

definition to_ascii_lowercase :: "nat \<Rightarrow> nat" where
  "to_ascii_lowercase c = (if is_ascii_uppercase c then c + 32 else c)"

definition char_from_u32 :: "nat \<Rightarrow> nat option" where
  "char_from_u32 c = (if scalar c then Some c else None)"

definition is_shifted_ascii_punctuation :: "nat \<Rightarrow> bool" where
  "is_shifted_ascii_punctuation c \<longleftrightarrow> c \<in> set (U ''!@#$%^&*()_+{}|:'' @ [34] @ U ''<>?~'')"

definition shifted_text_char :: "terminal_key \<Rightarrow> nat \<Rightarrow> nat option" where
  "shifted_text_char key ch =
     (case (case tk_shifted key of Some c \<Rightarrow> char_from_u32 (unat c) | None \<Rightarrow> None) of
        Some shifted \<Rightarrow> Some shifted
      | None \<Rightarrow>
          if is_ascii_uppercase ch then Some ch
          else if is_ascii_lowercase ch then Some (to_ascii_uppercase ch)
          else if is_shifted_ascii_punctuation ch then Some ch
          else None)"

definition text_char_for_key :: "terminal_key \<Rightarrow> nat option" where
  "text_char_for_key key =
     (if tk_kind key = Release then None
      else case tk_code key of
        KeyChar ch \<Rightarrow>
          if tk_modifiers key = 0 then Some ch
          else if tk_modifiers key = mod_shift then shifted_text_char key ch
          else None
      | _ \<Rightarrow> None)"

definition encode_text_input :: "terminal_key \<Rightarrow> u8 list option" where
  "encode_text_input key = map_option utf8_char (text_char_for_key key)"

definition text_codepoint_for_key :: "terminal_key \<Rightarrow> nat option" where
  "text_codepoint_for_key key =
     (case text_char_for_key key of Some ch \<Rightarrow> if is_control ch then None else Some ch | None \<Rightarrow> None)"

definition canonical_kitty_char :: "nat \<Rightarrow> u8 \<Rightarrow> nat" where
  "canonical_kitty_char ch mods =
     (if contains mods mod_shift \<and> is_ascii_uppercase ch then to_ascii_lowercase ch else ch)"

definition alternate_shifted_codepoint :: "terminal_key \<Rightarrow> u16 \<Rightarrow> nat option" where
  "alternate_shifted_codepoint key flags =
     (if flags AND kitty_flag_report_alternate_keys = 0 then None
      else case tk_shifted key of
        Some shifted \<Rightarrow> Some (unat shifted)
      | None \<Rightarrow>
          (case tk_code key of
             KeyChar ch \<Rightarrow> if contains (tk_modifiers key) mod_shift \<and> is_ascii_uppercase ch then Some ch else None
           | _ \<Rightarrow> None))"

definition kitty_event_suffix :: "terminal_key \<Rightarrow> u16 \<Rightarrow> nat option" where
  "kitty_event_suffix key flags =
     (if flags AND kitty_flag_report_event_types = 0 then None
      else Some (case tk_kind key of Press \<Rightarrow> 1 | Repeat \<Rightarrow> 2 | Release \<Rightarrow> 3))"

definition xterm_modifier :: "u8 \<Rightarrow> nat" where
  "xterm_modifier mods = 1 + (if contains mods mod_shift then 1 else 0) + (if contains mods mod_alt then 2 else 0) +
     (if contains mods mod_control then 4 else 0)"

definition kitty_modifier :: "u8 \<Rightarrow> nat" where
  "kitty_modifier mods = xterm_modifier mods + (if contains mods mod_super then 8 else 0) +
     (if contains mods mod_hyper then 16 else 0) + (if contains mods mod_meta then 32 else 0)"

text \<open>Keys that keep their legacy sequence in the kitty protocol.\<close>

fun legacy_special :: "key_code \<Rightarrow> bool" where
  "legacy_special (KeyF _) \<longleftrightarrow> True"
| "legacy_special c \<longleftrightarrow> c \<in> {KeyUp, KeyDown, KeyLeft, KeyRight, KeyHome, KeyEnd, KeyPageUp, KeyPageDown, KeyInsert, KeyDelete}"

definition kitty_codes :: "(key_code \<times> nat) list" where
  "kitty_codes = [(KeyEnter, 13), (KeyTab, 9), (KeyBackspace, 127), (KeyEsc, 27), (KeyLeft, 57417), (KeyRight, 57418),
     (KeyUp, 57419), (KeyDown, 57420), (KeyPageUp, 57421), (KeyPageDown, 57422), (KeyHome, 57423), (KeyEnd, 57424),
     (KeyInsert, 57425), (KeyDelete, 57426)]"

definition kitty_codepoint :: "terminal_key \<Rightarrow> u16 \<Rightarrow> (nat \<times> nat option) option" where
  "kitty_codepoint key flags =
     (case tk_code key of
        KeyChar c \<Rightarrow> Some (canonical_kitty_char c (tk_modifiers key), alternate_shifted_codepoint key flags)
      | code \<Rightarrow> map_option (\<lambda>n. (n, None)) (map_of kitty_codes code))"

definition prefixed_field :: "nat \<Rightarrow> nat option \<Rightarrow> ustr" where
  "prefixed_field sep n = (case n of Some n \<Rightarrow> sep # dec n | None \<Rightarrow> [])"

definition csi_u :: "nat \<Rightarrow> nat option \<Rightarrow> nat \<Rightarrow> nat option \<Rightarrow> nat option \<Rightarrow> ustr" where
  "csi_u codepoint shifted modifier event text_code =
     27 # 91 # dec codepoint @ prefixed_field 58 shifted @ 59 # dec modifier @ prefixed_field 58 event @
     prefixed_field 59 text_code @ [117]"

definition try_encode_csi_u :: "terminal_key \<Rightarrow> u16 \<Rightarrow> u8 list option" where
  "try_encode_csi_u key flags =
     (let mods = tk_modifiers key;
          event_suffix = kitty_event_suffix key flags;
          report_all_keys = flags AND kitty_flag_report_all_keys \<noteq> 0
      in if \<not> report_all_keys \<and> mods = 0 \<and> tk_code key \<in> {KeyEnter, KeyTab, KeyBackspace} then None
         else if mods = 0 \<and> event_suffix = None \<and> \<not> report_all_keys then None
         else if legacy_special (tk_code key) \<and> event_suffix = None \<and> \<not> report_all_keys then None
         else case kitty_codepoint key flags of
           None \<Rightarrow> None
         | Some (codepoint, alternate_shifted) \<Rightarrow>
             Some (as_bytes (csi_u codepoint alternate_shifted (kitty_modifier mods) event_suffix
               (if flags AND kitty_flag_report_associated_text \<noteq> 0 then text_codepoint_for_key key else None))))"

definition f_key_numbers :: "(nat \<times> nat) list" where
  "f_key_numbers = [(5, 15), (6, 17), (7, 18), (8, 19), (9, 20), (10, 21), (11, 23), (12, 24)]"

definition encode_modified_special :: "key_code \<Rightarrow> u8 \<Rightarrow> u8 list option" where
  "encode_modified_special code mods =
     (let modifier = xterm_modifier mods;
          letter = (\<lambda>c. Some (as_bytes (27 # U ''[1;'' @ dec modifier @ [c])));
          tilde = (\<lambda>n. Some (as_bytes (27 # 91 # dec n @ 59 # dec modifier @ [126])))
      in if modifier \<le> 1 then None
         else case code of
           KeyUp \<Rightarrow> letter 65 | KeyDown \<Rightarrow> letter 66 | KeyRight \<Rightarrow> letter 67 | KeyLeft \<Rightarrow> letter 68
         | KeyHome \<Rightarrow> letter 72 | KeyEnd \<Rightarrow> letter 70
         | KeyInsert \<Rightarrow> tilde 2 | KeyDelete \<Rightarrow> tilde 3 | KeyPageUp \<Rightarrow> tilde 5 | KeyPageDown \<Rightarrow> tilde 6
         | KeyF n \<Rightarrow> if 1 \<le> n \<and> n \<le> 4 then letter (79 + n)
             else (case map_of f_key_numbers n of Some m \<Rightarrow> tilde m | None \<Rightarrow> None)
         | _ \<Rightarrow> None)"

definition encode_f_key :: "nat \<Rightarrow> u8 list" where
  "encode_f_key n =
     (if 1 \<le> n \<and> n \<le> 4 then [27, 79, of_nat (79 + n)]
      else case map_of f_key_numbers n of Some m \<Rightarrow> as_bytes (27 # 91 # dec m @ [126]) | None \<Rightarrow> [])"

definition encode_control_char :: "nat \<Rightarrow> u8 list" where
  "encode_control_char ch =
     (let upper = to_ascii_uppercase ch
      in if 65 \<le> upper \<and> upper \<le> 90 then [of_nat (upper - 64)]
         else if upper \<in> set (U '' @2'') then [0]
         else if upper \<in> set (U ''[3'') then [27]
         else if upper \<in> set (92 # U ''4'') then [28]
         else if upper \<in> set (U '']5'') then [29]
         else if upper \<in> set (U ''^6'') then [30]
         else if upper \<in> set (U ''_/7-'') then [31]
         else [of_nat ch])"

definition encode_legacy_inner :: "terminal_key \<Rightarrow> u8 list" where
  "encode_legacy_inner key =
     (case tk_code key of
        KeyChar ch \<Rightarrow>
          if contains (tk_modifiers key) mod_control then encode_control_char ch
          else utf8_char (if tk_modifiers key = mod_shift
            then (case shifted_text_char key ch of Some c \<Rightarrow> c | None \<Rightarrow> ch) else ch)
      | KeyEnter \<Rightarrow> [13] | KeyBackspace \<Rightarrow> [127] | KeyTab \<Rightarrow> [9] | KeyBackTab \<Rightarrow> [27, 91, 90] | KeyEsc \<Rightarrow> [27]
      | KeyLeft \<Rightarrow> [27, 91, 68] | KeyRight \<Rightarrow> [27, 91, 67] | KeyUp \<Rightarrow> [27, 91, 65] | KeyDown \<Rightarrow> [27, 91, 66]
      | KeyHome \<Rightarrow> [27, 91, 72] | KeyEnd \<Rightarrow> [27, 91, 70]
      | KeyPageUp \<Rightarrow> [27, 91, 53, 126] | KeyPageDown \<Rightarrow> [27, 91, 54, 126]
      | KeyDelete \<Rightarrow> [27, 91, 51, 126] | KeyInsert \<Rightarrow> [27, 91, 50, 126]
      | KeyF n \<Rightarrow> encode_f_key n
      | _ \<Rightarrow> [])"

definition encode_legacy :: "terminal_key \<Rightarrow> u8 list" where
  "encode_legacy key =
     (let mods = tk_modifiers key
      in case (if mods \<noteq> 0 then encode_modified_special (tk_code key) mods else None) of
           Some bytes \<Rightarrow> bytes
         | None \<Rightarrow>
             if contains mods mod_alt then 27 # encode_legacy_inner (key\<lparr>tk_modifiers := mods AND NOT mod_alt\<rparr>)
             else encode_legacy_inner key)"

definition encode_terminal_key :: "terminal_key \<Rightarrow> keyboard_protocol \<Rightarrow> u8 list" where
  "encode_terminal_key key protocol =
     (case (if tk_kind key \<noteq> Release then tk_text key else None) of
        Some generated \<Rightarrow> as_bytes generated
      | None \<Rightarrow>
          if tk_kind key = Release \<and> \<not> reports_event_types protocol then []
          else
            (let kitty_first = (case protocol of Kitty flags \<Rightarrow> flags AND kitty_flag_report_all_keys \<noteq> 0 | Legacy \<Rightarrow> False) \<or>
                   tk_kind key = Release \<and> reports_event_types protocol;
                 csi = (case protocol of Kitty flags \<Rightarrow> try_encode_csi_u key flags | Legacy \<Rightarrow> None)
             in case (if kitty_first then csi else None) of
                  Some bytes \<Rightarrow> bytes
                | None \<Rightarrow>
                    (case encode_text_input key of
                       Some bytes \<Rightarrow> bytes
                     | None \<Rightarrow>
                         (case (if kitty_first then None else csi) of
                            Some bytes \<Rightarrow> bytes
                          | None \<Rightarrow>
                              if tk_kind key = Release \<and> reports_event_types protocol then [] else encode_legacy key))))"

definition encode_cursor_key :: "key_code \<Rightarrow> bool \<Rightarrow> u8 list" where
  "encode_cursor_key code application_cursor =
     (let introducer = (if application_cursor then 79 else 91)
      in case code of
           KeyUp \<Rightarrow> [27, introducer, 65] | KeyDown \<Rightarrow> [27, introducer, 66]
         | KeyRight \<Rightarrow> [27, introducer, 67] | KeyLeft \<Rightarrow> [27, introducer, 68]
         | _ \<Rightarrow> encode_legacy (key_new code 0))"

section \<open>Mouse reports\<close>

datatype mouse_button = MouseLeft | MouseRight | MouseMiddle

datatype mouse_kind = MouseDown mouse_button | MouseUp mouse_button | MouseDrag mouse_button | MouseMoved
  | ScrollDown | ScrollUp | ScrollLeft | ScrollRight

definition mouse_cb :: "nat \<Rightarrow> bool \<Rightarrow> u8 \<Rightarrow> mouse_protocol_encoding \<Rightarrow> nat" where
  "mouse_cb base_button release modifiers encoding =
     (if release \<and> encoding \<notin> {MouseSgr, MouseSgrPixels} then 3 else base_button) +
     (if contains modifiers mod_shift then 4 else 0) + (if contains modifiers mod_alt then 8 else 0) +
     (if contains modifiers mod_control then 16 else 0)"

definition encode_mouse_cb ::
  "nat \<Rightarrow> bool \<Rightarrow> u16 \<Rightarrow> u16 \<Rightarrow> u8 \<Rightarrow> mouse_protocol_encoding \<Rightarrow> u8 list option" where
  "encode_mouse_cb base_button release column row modifiers encoding =
     (let cb = mouse_cb base_button release modifiers encoding; column = unat column + 1; row = unat row + 1
      in case encoding of
           MouseDefault \<Rightarrow>
             if cb + 32 \<le> 255 \<and> column + 32 \<le> 255 \<and> row + 32 \<le> 255
             then Some [27, 91, 77, of_nat (cb + 32), of_nat (column + 32), of_nat (row + 32)] else None
         | MouseUtf8 \<Rightarrow>
             if scalar (cb + 32) \<and> scalar (column + 32) \<and> scalar (row + 32)
             then Some (27 # 91 # 77 # utf8_char (cb + 32) @ utf8_char (column + 32) @ utf8_char (row + 32)) else None
         | _ \<Rightarrow> Some (as_bytes (27 # U ''[<'' @ dec cb @ 59 # dec column @ 59 # dec row @ [if release then 109 else 77])))"

definition encode_mouse_scroll ::
  "mouse_kind \<Rightarrow> u16 \<Rightarrow> u16 \<Rightarrow> u8 \<Rightarrow> mouse_protocol_encoding \<Rightarrow> u8 list option" where
  "encode_mouse_scroll kind column row modifiers encoding =
     (case kind of
        ScrollUp \<Rightarrow> encode_mouse_cb 64 False column row modifiers encoding
      | ScrollDown \<Rightarrow> encode_mouse_cb 65 False column row modifiers encoding
      | ScrollLeft \<Rightarrow> encode_mouse_cb 66 False column row modifiers encoding
      | ScrollRight \<Rightarrow> encode_mouse_cb 67 False column row modifiers encoding
      | _ \<Rightarrow> None)"

fun button_number :: "mouse_button \<Rightarrow> nat" where
  "button_number MouseLeft = 0"
| "button_number MouseMiddle = 1"
| "button_number MouseRight = 2"

definition encode_mouse_button ::
  "mouse_kind \<Rightarrow> u16 \<Rightarrow> u16 \<Rightarrow> u8 \<Rightarrow> mouse_protocol_encoding \<Rightarrow> u8 list option" where
  "encode_mouse_button kind column row modifiers encoding =
     (case kind of
        MouseDown b \<Rightarrow> encode_mouse_cb (button_number b) False column row modifiers encoding
      | MouseUp b \<Rightarrow> encode_mouse_cb (button_number b) True column row modifiers encoding
      | MouseDrag b \<Rightarrow> encode_mouse_cb (32 + button_number b) False column row modifiers encoding
      | _ \<Rightarrow> None)"

section \<open>Parsing\<close>

definition split_once :: "nat \<Rightarrow> ustr \<Rightarrow> (ustr \<times> ustr) option" where
  "split_once c s =
     (if c \<in> set s then Some (takeWhile (\<lambda>x. x \<noteq> c) s, tl (dropWhile (\<lambda>x. x \<noteq> c) s)) else None)"

definition split_modifier_and_event :: "ustr \<Rightarrow> ustr \<times> ustr option" where
  "split_modifier_and_event s =
     (case split_once 58 s of
        Some (modifier, event) \<Rightarrow> if modifier \<noteq> [] then (modifier, Some event) else (s, None)
      | None \<Rightarrow> (s, None))"

definition parse_kitty_event_type :: "ustr option \<Rightarrow> key_kind option" where
  "parse_kitty_event_type v =
     (let s = (case v of Some s \<Rightarrow> s | None \<Rightarrow> U ''1'')
      in if s = U ''1'' then Some Press else if s = U ''2'' then Some Repeat
         else if s = U ''3'' then Some Release else None)"

definition is_kitty_functional_codepoint :: "nat \<Rightarrow> bool" where
  "is_kitty_functional_codepoint c \<longleftrightarrow> 57358 \<le> c \<and> c \<le> 57454"

definition kitty_keys :: "(nat \<times> key_code) list" where
  "kitty_keys =
     [
      (8, KeyBackspace), (127, KeyBackspace), (9, KeyTab), (13, KeyEnter), (57414, KeyEnter), (27, KeyEsc),
      (57358, KeyCapsLock), (57359, KeyScrollLock), (57360, KeyNumLock), (57361, KeyPrintScreen),
      (57362, KeyPause), (57363, KeyMenu), (57399, KeyChar 48), (57400, KeyChar 49), (57401, KeyChar 50),
      (57402, KeyChar 51), (57403, KeyChar 52), (57404, KeyChar 53), (57405, KeyChar 54), (57406, KeyChar 55),
      (57407, KeyChar 56), (57408, KeyChar 57), (57409, KeyChar 46), (57410, KeyChar 47), (57411, KeyChar 42),
      (57412, KeyChar 45), (57413, KeyChar 43), (57415, KeyChar 61), (57416, KeyChar 44), (57417, KeyLeft),
      (57418, KeyRight), (57419, KeyUp), (57420, KeyDown), (57421, KeyPageUp), (57422, KeyPageDown),
      (57423, KeyHome), (57424, KeyEnd), (57425, KeyInsert), (57426, KeyDelete), (57427, KeyKeypadBegin),
      (57428, KeyMedia MediaPlay), (57429, KeyMedia MediaPause), (57430, KeyMedia MediaPlayPause),
      (57431, KeyMedia MediaReverse), (57432, KeyMedia MediaStop), (57433, KeyMedia MediaFastForward),
      (57434, KeyMedia MediaRewind), (57435, KeyMedia MediaTrackNext), (57436, KeyMedia MediaTrackPrevious),
      (57437, KeyMedia MediaRecord), (57438, KeyMedia MediaLowerVolume), (57439, KeyMedia MediaRaiseVolume),
      (57440, KeyMedia MediaMuteVolume), (57441, KeyModifier LeftShift), (57442, KeyModifier LeftControl),
      (57443, KeyModifier LeftAlt), (57444, KeyModifier LeftSuper), (57445, KeyModifier LeftHyper),
      (57446, KeyModifier LeftMeta), (57447, KeyModifier RightShift), (57448, KeyModifier RightControl),
      (57449, KeyModifier RightAlt), (57450, KeyModifier RightSuper), (57451, KeyModifier RightHyper),
      (57452, KeyModifier RightMeta), (57453, KeyModifier IsoLevel3Shift), (57454, KeyModifier IsoLevel5Shift)]"

definition kitty_codepoint_to_keycode :: "nat \<Rightarrow> key_code option" where
  "kitty_codepoint_to_keycode c =
     (case map_of kitty_keys c of
        Some k \<Rightarrow> Some k
      | None \<Rightarrow>
          if 57376 \<le> c \<and> c \<le> 57398 then Some (KeyF (c - 57376 + 13))
          else if is_kitty_functional_codepoint c then None
          else map_option KeyChar (char_from_u32 c))"

definition key_modifiers_from_u8 :: "u8 \<Rightarrow> u8" where
  "key_modifiers_from_u8 modifier =
     (if modifier AND 1 \<noteq> 0 then mod_shift else 0) OR (if modifier AND 2 \<noteq> 0 then mod_alt else 0) OR
     (if modifier AND 4 \<noteq> 0 then mod_control else 0) OR (if modifier AND 8 \<noteq> 0 then mod_super else 0) OR
     (if modifier AND 16 \<noteq> 0 then mod_hyper else 0) OR (if modifier AND 32 \<noteq> 0 then mod_meta else 0)"

text \<open>\<open>text.parse::<u8>().ok()?.checked_sub(1)?\<close>\<close>

definition parse_modifier :: "ustr \<Rightarrow> u8 option" where
  "parse_modifier s =
     (case parse_uint 255 s of Some m \<Rightarrow> if m = 0 then None else Some (of_nat (m - 1)) | None \<Rightarrow> None)"

definition parse_kitty_codepoint :: "ustr \<Rightarrow> nat option" where
  "parse_kitty_codepoint s =
     (if \<not> list_all is_ascii_digit s then None
      else case parse_uint 4294967295 s of Some c \<Rightarrow> char_from_u32 c | None \<Rightarrow> None)"

fun parse_text_codepoints :: "ustr list \<Rightarrow> ustr option" where
  "parse_text_codepoints [] = Some []"
| "parse_text_codepoints (f # fs) =
     (case parse_uint 4294967295 f of
        None \<Rightarrow> None
      | Some c \<Rightarrow>
          if \<not> scalar c \<or> is_control c then None else map_option ((#) c) (parse_text_codepoints fs))"

definition parse_kitty_associated_text :: "ustr \<Rightarrow> ustr option" where
  "parse_kitty_associated_text s =
     (case parse_text_codepoints (split_by (\<lambda>c. c = 58) s []) of
        Some t \<Rightarrow> if t \<noteq> [] then Some t else None
      | None \<Rightarrow> None)"

text \<open>An optional field: absent or empty, read, or malformed.\<close>

definition optional_field :: "('a \<Rightarrow> 'b option) \<Rightarrow> 'a option \<Rightarrow> 'b option option" where
  "optional_field read v = (case v of None \<Rightarrow> Some None | Some x \<Rightarrow> map_option Some (read x))"

definition field_at :: "ustr list \<Rightarrow> nat \<Rightarrow> ustr option" where
  "field_at fs i = (if i < length fs \<and> fs ! i \<noteq> [] then Some (fs ! i) else None)"

definition kitty_key ::
  "nat \<Rightarrow> nat option \<Rightarrow> key_code \<Rightarrow> u8 \<Rightarrow> key_kind \<Rightarrow> ustr option \<Rightarrow> terminal_key" where
  "kitty_key codepoint shifted code modifier kind associated =
     (let implied_shift = (case code of KeyChar _ \<Rightarrow> True | _ \<Rightarrow> False) \<and>
            (case shifted of Some s \<Rightarrow> s \<noteq> codepoint \<and> scalar s | None \<Rightarrow> False);
          modifiers = key_modifiers_from_u8 modifier OR (if implied_shift then mod_shift else 0);
          key = with_kind kind (key_new code modifiers)
      in with_generated_text associated
           (case shifted of Some s \<Rightarrow> with_shifted_codepoint (of_nat s) key | None \<Rightarrow> key))"

definition parse_kitty_body :: "ustr \<Rightarrow> terminal_key option" where
  "parse_kitty_body body =
     (let fields = split_by (\<lambda>c. c = 59) body [];
          modifier_and_event = (case field_at fields 1 of Some f \<Rightarrow> f | None \<Rightarrow> U ''1'');
          key_fields = split_by (\<lambda>c. c = 58) (hd fields) []
      in case split_modifier_and_event modifier_and_event of (modifier_text, event_type) \<Rightarrow>
         (case (optional_field parse_kitty_associated_text (if 2 < length fields then Some (fields ! 2) else None),
                parse_modifier modifier_text, parse_kitty_codepoint (hd key_fields),
                optional_field parse_kitty_codepoint (field_at key_fields 1),
                optional_field parse_kitty_codepoint (field_at key_fields 2),
                parse_kitty_event_type event_type) of
            (Some associated, Some modifier, Some codepoint, Some shifted, Some _, Some kind) \<Rightarrow>
              if 3 < length fields \<or> 3 < length key_fields then None
              else map_option (\<lambda>code. kitty_key codepoint shifted code modifier kind associated)
                     (kitty_codepoint_to_keycode codepoint)
          | _ \<Rightarrow> None))"

definition parse_kitty_key_sequence :: "ustr \<Rightarrow> terminal_key option" where
  "parse_kitty_key_sequence data =
     (case strip_prefix (27 # U ''['') data of
        None \<Rightarrow> None
      | Some r \<Rightarrow> (case strip_suffix_char 117 r of None \<Rightarrow> None | Some body \<Rightarrow> parse_kitty_body body))"

definition parse_modify_other_keys_sequence :: "ustr \<Rightarrow> terminal_key option" where
  "parse_modify_other_keys_sequence data =
     (case strip_prefix (27 # U ''[27;'') data of
        None \<Rightarrow> None
      | Some r \<Rightarrow>
          (case strip_suffix_char 126 r of
             None \<Rightarrow> None
           | Some body \<Rightarrow>
               (case split_once 59 body of
                  None \<Rightarrow> None
                | Some (modifier_part, codepoint_part) \<Rightarrow>
                    (case (parse_modifier modifier_part, parse_uint 4294967295 codepoint_part) of
                       (Some modifier, Some codepoint) \<Rightarrow>
                         map_option (\<lambda>code. key_new code (key_modifiers_from_u8 modifier)) (kitty_codepoint_to_keycode codepoint)
                     | _ \<Rightarrow> None))))"

definition is_ascii_alphabetic :: "nat \<Rightarrow> bool" where
  "is_ascii_alphabetic c \<longleftrightarrow> is_ascii_uppercase c \<or> is_ascii_lowercase c"

definition xterm_key :: "key_code option \<Rightarrow> ustr \<Rightarrow> terminal_key option" where
  "xterm_key code modifier_and_event =
     (case split_modifier_and_event modifier_and_event of (modifier_text, event_type) \<Rightarrow>
       (case (parse_modifier modifier_text, code, parse_kitty_event_type event_type) of
          (Some m, Some c, Some kind) \<Rightarrow> Some (with_kind kind (key_new c (key_modifiers_from_u8 m)))
        | _ \<Rightarrow> None))"

definition letter_keys :: "(nat \<times> key_code) list" where
  "letter_keys = [(65, KeyUp), (66, KeyDown), (67, KeyRight), (68, KeyLeft), (72, KeyHome), (70, KeyEnd),
     (80, KeyF 1), (81, KeyF 2), (82, KeyF 3), (83, KeyF 4)]"

definition tilde_keys :: "(ustr \<times> key_code) list" where
  "tilde_keys = [(U ''2'', KeyInsert), (U ''3'', KeyDelete), (U ''5'', KeyPageUp), (U ''6'', KeyPageDown),
     (U ''15'', KeyF 5), (U ''17'', KeyF 6), (U ''18'', KeyF 7), (U ''19'', KeyF 8), (U ''20'', KeyF 9),
     (U ''21'', KeyF 10), (U ''23'', KeyF 11), (U ''24'', KeyF 12)]"

definition parse_tilde_sequence :: "ustr \<Rightarrow> terminal_key option" where
  "parse_tilde_sequence body =
     (case strip_suffix_char 126 body of
        None \<Rightarrow> None
      | Some tilde_body \<Rightarrow>
          (case split_once 59 tilde_body of
             None \<Rightarrow> None
           | Some (code_part, modifier_part) \<Rightarrow> xterm_key (map_of tilde_keys code_part) modifier_part))"

definition parse_xterm_modified_special_sequence :: "ustr \<Rightarrow> terminal_key option" where
  "parse_xterm_modified_special_sequence data =
     (case strip_prefix (27 # U ''['') data of
        None \<Rightarrow> None
      | Some body \<Rightarrow>
          (case strip_prefix (U ''1;'') body of
             Some rest \<Rightarrow>
               if rest = [] then None
               else if is_ascii_alphabetic (last rest) then xterm_key (map_of letter_keys (last rest)) (butlast rest)
               else parse_tilde_sequence body
           | None \<Rightarrow> parse_tilde_sequence body))"

definition special_sequences :: "(ustr \<times> key_code \<times> u8) list" where
  "special_sequences =
     [
      (27 # 27 # U ''[A'', KeyUp, mod_alt), (27 # 27 # U ''[B'', KeyDown, mod_alt),
      (27 # 27 # U ''[C'', KeyRight, mod_alt), (27 # 27 # U ''[D'', KeyLeft, mod_alt),
      (27 # U ''[A'', KeyUp, 0), (27 # U ''OA'', KeyUp, 0), (27 # U ''[B'', KeyDown, 0),
      (27 # U ''OB'', KeyDown, 0), (27 # U ''[C'', KeyRight, 0), (27 # U ''OC'', KeyRight, 0),
      (27 # U ''[D'', KeyLeft, 0), (27 # U ''OD'', KeyLeft, 0), (27 # U ''[H'', KeyHome, 0),
      (27 # U ''OH'', KeyHome, 0), (27 # U ''[1~'', KeyHome, 0), (27 # U ''[7~'', KeyHome, 0),
      (27 # U ''[F'', KeyEnd, 0), (27 # U ''OF'', KeyEnd, 0), (27 # U ''[4~'', KeyEnd, 0),
      (27 # U ''[8~'', KeyEnd, 0), (27 # U ''[5~'', KeyPageUp, 0), (27 # U ''[6~'', KeyPageDown, 0),
      (27 # U ''[2~'', KeyInsert, 0), (27 # U ''[3~'', KeyDelete, 0), (27 # U ''Op'', KeyChar 48, 0),
      (27 # U ''Oq'', KeyChar 49, 0), (27 # U ''Or'', KeyChar 50, 0), (27 # U ''Os'', KeyChar 51, 0),
      (27 # U ''Ot'', KeyChar 52, 0), (27 # U ''Ou'', KeyChar 53, 0), (27 # U ''Ov'', KeyChar 54, 0),
      (27 # U ''Ow'', KeyChar 55, 0), (27 # U ''Ox'', KeyChar 56, 0), (27 # U ''Oy'', KeyChar 57, 0),
      (27 # U ''On'', KeyChar 46, 0), (27 # U ''Ol'', KeyChar 44, 0), (27 # U ''Om'', KeyChar 45, 0), (27 # U ''Ok'', KeyChar 43, 0),
      (27 # U ''Oj'', KeyChar 42, 0), (27 # U ''Oo'', KeyChar 47, 0), (27 # U ''OM'', KeyEnter, 0),
      (27 # U ''OP'', KeyF 1, 0), (27 # U ''[11~'', KeyF 1, 0), (27 # U ''OQ'', KeyF 2, 0),
      (27 # U ''[12~'', KeyF 2, 0), (27 # U ''OR'', KeyF 3, 0), (27 # U ''[13~'', KeyF 3, 0),
      (27 # U ''OS'', KeyF 4, 0), (27 # U ''[14~'', KeyF 4, 0), (27 # U ''[15~'', KeyF 5, 0),
      (27 # U ''[17~'', KeyF 6, 0), (27 # U ''[18~'', KeyF 7, 0), (27 # U ''[19~'', KeyF 8, 0),
      (27 # U ''[20~'', KeyF 9, 0), (27 # U ''[21~'', KeyF 10, 0), (27 # U ''[23~'', KeyF 11, 0),
      (27 # U ''[24~'', KeyF 12, 0), (27 # U ''[Z'', KeyBackTab, mod_shift)]"

definition parse_legacy_special_sequence :: "ustr \<Rightarrow> terminal_key option" where
  "parse_legacy_special_sequence data =
     (case map_of special_sequences data of
        Some (code, mods) \<Rightarrow> Some (key_new code mods)
      | None \<Rightarrow> parse_xterm_modified_special_sequence data)"

definition parse_legacy_ctrl_char :: "nat \<Rightarrow> terminal_key option" where
  "parse_legacy_ctrl_char ch =
     (if ch = 0 then Some (key_new (KeyChar 32) mod_control)
      else if 1 \<le> ch \<and> ch \<le> 26 then Some (key_new (KeyChar (ch + 96)) mod_control)
      else if 27 \<le> ch \<and> ch \<le> 31 then Some (key_new (KeyChar (ch + 64)) mod_control)
      else None)"

definition parse_legacy_char :: "nat \<Rightarrow> terminal_key" where
  "parse_legacy_char ch =
     (case parse_legacy_ctrl_char ch of
        Some key \<Rightarrow> key
      | None \<Rightarrow> key_new (KeyChar ch) (if is_ascii_uppercase ch then mod_shift else 0))"

function parse_legacy_key_sequence :: "ustr \<Rightarrow> terminal_key option" where
  "parse_legacy_key_sequence data =
     (case parse_legacy_special_sequence data of
        Some key \<Rightarrow> Some key
      | None \<Rightarrow>
          if data = [13] then Some (key_new KeyEnter 0)
          else if data = [9] then Some (key_new KeyTab 0)
          else if data = [27] then Some (key_new KeyEsc 0)
          else if data = [27, 127] then Some (key_new KeyBackspace mod_alt)
          else if data = [127] then Some (key_new KeyBackspace 0)
          else if prefixed [27] data then
            (if length (tl data) = 1
             then map_option (\<lambda>key. key\<lparr>tk_modifiers := tk_modifiers key OR mod_alt\<rparr>) (parse_legacy_key_sequence (tl data))
             else None)
          else (case data of [ch] \<Rightarrow> Some (parse_legacy_char ch) | _ \<Rightarrow> None))"
  by pat_completeness auto

termination
  by (relation "measure length") auto

declare parse_legacy_key_sequence.simps [simp del]

definition parse_terminal_key_sequence :: "ustr \<Rightarrow> terminal_key option" where
  "parse_terminal_key_sequence data =
     (case parse_kitty_key_sequence data of
        Some key \<Rightarrow> Some key
      | None \<Rightarrow>
          (case parse_modify_other_keys_sequence data of
             Some key \<Rightarrow> Some key
           | None \<Rightarrow> parse_legacy_key_sequence data))"

section \<open>Fields\<close>

lemma split_by_last: "(\<And>x. x \<in> set xs \<Longrightarrow> \<not> P x) \<Longrightarrow> split_by P xs acc = [rev acc @ xs]"
  by (induction xs arbitrary: acc) simp_all

lemma split_by_field:
  "(\<And>x. x \<in> set xs \<Longrightarrow> \<not> P x) \<Longrightarrow> P c \<Longrightarrow> split_by P (xs @ c # ys) acc = (rev acc @ xs) # split_by P ys []"
  by (induction xs arbitrary: acc) simp_all

lemma split_once_first: "c \<notin> set xs \<Longrightarrow> split_once c (xs @ c # ys) = Some (xs, ys)"
  by (induction xs) (auto simp: split_once_def)

lemma strip_suffix_snoc: "strip_suffix_char c (xs @ [c]) = Some xs"
  by (simp add: strip_suffix_char_def)

lemma strip_csi: "strip_prefix (27 # U ''['') (27 # 91 # xs) = Some xs"
  by (simp add: strip_prefix_def prefixed_def U_def)

lemma split_once_none: "c \<notin> set xs \<Longrightarrow> split_once c xs = None"
  by (simp add: split_once_def)

lemma dec_digit: "x \<in> set (dec n) \<Longrightarrow> 48 \<le> x \<and> x \<le> 57"
  using dec_facts [of n] by (auto simp: list_all_iff is_ascii_digit_def)

lemma dec_nonempty [simp]: "dec n \<noteq> []"
  using dec_facts [of n] by simp

lemma dec_all_digits: "list_all is_ascii_digit (dec n)"
  using dec_facts [of n] by simp

lemma dec_ascii: "list_all (\<lambda>c. c < 128) (dec n)"
  using dec_digit [of _ n] by (fastforce simp: list_all_iff)

section \<open>Modifiers\<close>

lemma byte_below: "unat (b :: u8) < n \<Longrightarrow> b \<in> set (map of_nat [0..<n])"
  by (auto intro!: image_eqI [of _ _ "unat b"])

lemma modifier_roundtrip:
  assumes "mods < 64"
  shows "kitty_modifier mods \<le> 64 \<and> key_modifiers_from_u8 (of_nat (kitty_modifier mods - 1)) = mods"
proof -
  let ?P = "\<lambda>m. kitty_modifier m \<le> 64 \<and> key_modifiers_from_u8 (of_nat (kitty_modifier m - 1)) = m"
  have "mods \<in> set (map of_nat [0..<64])" using assms by (intro byte_below) (simp add: word_less_nat_alt)
  moreover have "list_all ?P (map of_nat [0..<64])"
    by (simp add: upt_rec kitty_modifier_def xterm_modifier_def key_modifiers_from_u8_def contains_def
        mod_shift_def mod_control_def mod_alt_def mod_super_def mod_hyper_def mod_meta_def)
  ultimately show ?thesis by (auto simp: list_all_iff)
qed

lemma parse_modifier_dec: "mods < 64 \<Longrightarrow> parse_modifier (dec (kitty_modifier mods)) = Some (of_nat (kitty_modifier mods - 1))"
  using modifier_roundtrip [of mods]
  by (simp add: parse_modifier_def parse_uint_dec kitty_modifier_def xterm_modifier_def)

section \<open>Reports of the kitty protocol\<close>

text \<open>
  The keys that the protocol can report without loss: a character that is not the number of
  another key, or a key with a number of its own; the six modifiers; a shifted character only
  together with Shift; and no generated text, which is sent instead of a report.
\<close>

definition plain_char :: "nat \<Rightarrow> bool" where
  "plain_char c \<longleftrightarrow> scalar c \<and> c \<notin> set (map fst kitty_keys) \<and> \<not> is_kitty_functional_codepoint c"

definition with_shift :: "terminal_key \<Rightarrow> bool" where
  "with_shift key \<longleftrightarrow> tk_modifiers key AND 1 = 1"

text \<open>The character on the key cap: of a capital letter typed with Shift, the small letter.\<close>

definition unshifted :: "terminal_key \<Rightarrow> nat \<Rightarrow> nat" where
  "unshifted key c = (if with_shift key \<and> c \<in> {65..90} then c + 32 else c)"

definition reportable :: "terminal_key \<Rightarrow> bool" where
  "reportable key \<longleftrightarrow> tk_text key = None \<and> tk_modifiers key < 64 \<and>
     (case tk_code key of
        KeyChar c \<Rightarrow> plain_char c \<and> plain_char (unshifted key c) \<and>
          (case tk_shifted key of Some s \<Rightarrow> scalar (unat s) \<and> with_shift key | None \<Rightarrow> True)
      | code \<Rightarrow> code \<in> set (map fst kitty_codes))"

text \<open>
  What a reader must learn, stated on the key and the bits of the flags. The shifted character is
  reported to a program that set bit 2: the one the key carries, or the capital letter itself. The
  text is reported to one that set bit 4, of a press or repeat: the character without modifiers, and with
  Shift alone the shifted character, where one is known for it; no control characters.
\<close>

definition expected_shifted :: "u16 \<Rightarrow> terminal_key \<Rightarrow> nat \<Rightarrow> u32 option" where
  "expected_shifted flags key c =
     (if flags AND 4 = 0 then None
      else if tk_shifted key \<noteq> None then tk_shifted key
      else if with_shift key \<and> c \<in> {65..90} then Some (of_nat c) else None)"

definition typed_char :: "terminal_key \<Rightarrow> nat \<Rightarrow> nat option" where
  "typed_char key c =
     (if tk_modifiers key = 0 then Some c
      else if tk_modifiers key \<noteq> 1 then None
      else if tk_shifted key \<noteq> None then map_option unat (tk_shifted key)
      else if c \<in> {65..90} then Some c
      else if c \<in> {97..122} then Some (c - 32)
      else if c \<in> {33, 34, 35, 36, 37, 38, 40, 41, 42, 43, 58, 60, 62, 63, 64, 94, 95, 123, 124, 125, 126} then Some c
      else None)"

definition expected_text :: "u16 \<Rightarrow> terminal_key \<Rightarrow> nat \<Rightarrow> ustr option" where
  "expected_text flags key c =
     (if flags AND 16 = 0 \<or> tk_kind key = Release then None
      else case typed_char key c of
        Some x \<Rightarrow> if x < 32 \<or> x \<in> {127..159} then None else Some [x]
      | None \<Rightarrow> None)"

definition reported :: "u16 \<Rightarrow> terminal_key \<Rightarrow> terminal_key" where
  "reported flags key =
     \<lparr>tk_code = (case tk_code key of KeyChar c \<Rightarrow> KeyChar (unshifted key c) | code \<Rightarrow> code),
      tk_modifiers = tk_modifiers key, tk_kind = tk_kind key, tk_repeat_count = 1,
      tk_shifted = (case tk_code key of KeyChar c \<Rightarrow> expected_shifted flags key c | _ \<Rightarrow> None),
      tk_text = (case tk_code key of KeyChar c \<Rightarrow> expected_text flags key c | _ \<Rightarrow> None),
      tk_source = Synthesized\<rparr>"

text \<open>The helpers of the encoder compute these values.\<close>

lemma with_shift_contains: "with_shift key \<longleftrightarrow> contains (tk_modifiers key) mod_shift"
  by (simp add: with_shift_def contains_def mod_shift_def)

lemma canonical_kitty_char_unshifted: "canonical_kitty_char c (tk_modifiers key) = unshifted key c"
  by (auto simp: canonical_kitty_char_def unshifted_def with_shift_contains is_ascii_uppercase_def to_ascii_lowercase_def)

lemma alternate_shifted_expected:
  "tk_code key = KeyChar c \<Longrightarrow> map_option of_nat (alternate_shifted_codepoint key flags) = expected_shifted flags key c"
  by (cases "tk_shifted key")
    (auto simp: alternate_shifted_codepoint_def expected_shifted_def with_shift_contains is_ascii_uppercase_def
      kitty_flag_report_alternate_keys_def)

lemma shifted_punctuation:
  "is_shifted_ascii_punctuation c \<longleftrightarrow>
     c \<in> {33, 34, 35, 36, 37, 38, 40, 41, 42, 43, 58, 60, 62, 63, 64, 94, 95, 123, 124, 125, 126}"
  by (simp add: is_shifted_ascii_punctuation_def U_def) blast

lemma text_char_typed:
  assumes "reportable key" and "tk_code key = KeyChar c"
  shows "text_char_for_key key = (if tk_kind key = Release then None else typed_char key c)"
proof -
  have "shifted_text_char key c =
      (if tk_shifted key \<noteq> None then map_option unat (tk_shifted key)
       else if c \<in> {65..90} then Some c else if c \<in> {97..122} then Some (c - 32)
       else if is_shifted_ascii_punctuation c then Some c else None)"
    using assms by (cases "tk_shifted key")
      (auto simp: shifted_text_char_def reportable_def char_from_u32_def is_ascii_uppercase_def is_ascii_lowercase_def
        to_ascii_uppercase_def)
  then show ?thesis
    using assms(2) by (simp add: text_char_for_key_def typed_char_def mod_shift_def shifted_punctuation)
qed

lemma text_codepoint_expected:
  assumes "reportable key"
  shows "(if flags AND kitty_flag_report_associated_text \<noteq> 0 then map_option (\<lambda>x. [x]) (text_codepoint_for_key key) else None) =
    (case tk_code key of KeyChar c \<Rightarrow> expected_text flags key c | _ \<Rightarrow> None)"
proof (cases "\<exists>c. tk_code key = KeyChar c")
  case True
  then obtain c where c: "tk_code key = KeyChar c" by blast
  show ?thesis
    unfolding text_codepoint_for_key_def text_char_typed [OF assms c] expected_text_def c key_code.case
    by (auto simp: kitty_flag_report_associated_text_def is_control_def split: option.splits)
qed (auto simp: text_codepoint_for_key_def text_char_for_key_def split: key_code.splits)

lemma reported_helpers:
  assumes "reportable key"
  shows "reported flags key =
     \<lparr>tk_code = (case tk_code key of KeyChar c \<Rightarrow> KeyChar (canonical_kitty_char c (tk_modifiers key)) | code \<Rightarrow> code),
      tk_modifiers = tk_modifiers key, tk_kind = tk_kind key, tk_repeat_count = 1,
      tk_shifted = (case tk_code key of KeyChar _ \<Rightarrow> map_option of_nat (alternate_shifted_codepoint key flags) | _ \<Rightarrow> None),
      tk_text = (if flags AND kitty_flag_report_associated_text \<noteq> 0
        then map_option (\<lambda>c. [c]) (text_codepoint_for_key key) else None),
      tk_source = Synthesized\<rparr>"
  unfolding text_codepoint_expected [OF assms] reported_def
  by (simp add: canonical_kitty_char_unshifted alternate_shifted_expected split: key_code.splits)

definition event_number :: "key_kind \<Rightarrow> nat" where
  "event_number kind = (case kind of Press \<Rightarrow> 1 | Repeat \<Rightarrow> 2 | Release \<Rightarrow> 3)"

lemma dec_digits: "dec 1 = U ''1''" "dec 2 = U ''2''" "dec 3 = U ''3''"
  by (simp_all add: dec_def radix_def digit_char_def U_def eval_nat_numeral)

lemma parse_event_number: "parse_kitty_event_type (Some (dec (event_number kind))) = Some kind"
  by (cases kind) (simp_all add: parse_kitty_event_type_def event_number_def dec_digits [simplified] U_def)

lemma parse_scalar_dec: "scalar c \<Longrightarrow> parse_uint 4294967295 (dec c) = Some c"
  by (rule parse_uint_dec) (auto simp: scalar_def)

lemma parse_codepoint_dec: "scalar c \<Longrightarrow> parse_kitty_codepoint (dec c) = Some c"
  by (simp add: parse_kitty_codepoint_def dec_all_digits parse_scalar_dec char_from_u32_def)

lemma parse_text_dec: "scalar c \<Longrightarrow> \<not> is_control c \<Longrightarrow> parse_kitty_associated_text (dec c) = Some [c]"
proof -
  assume c: "scalar c" "\<not> is_control c"
  have "split_by (\<lambda>c. c = 58) (dec c) [] = [dec c]" by (subst split_by_last) (auto dest: dec_digit)
  with c show ?thesis by (simp add: parse_kitty_associated_text_def parse_scalar_dec)
qed

text \<open>The sequence of a report, read field by field.\<close>

lemma parse_csi_u:
  assumes cp: "scalar cp" "kitty_codepoint_to_keycode cp = Some code"
    and sh: "\<And>x. sh = Some x \<Longrightarrow> scalar x"
    and mods: "mods < 64"
    and ev: "ev = None \<and> kind = Press \<or> ev = Some (event_number kind)"
    and t: "\<And>x. t = Some x \<Longrightarrow> scalar x \<and> \<not> is_control x"
  shows "parse_terminal_key_sequence (csi_u cp sh (kitty_modifier mods) ev t) =
    Some (kitty_key cp sh code (of_nat (kitty_modifier mods - 1)) kind (map_option (\<lambda>c. [c]) t))"
proof -
  let ?m = "dec (kitty_modifier mods)"
  define key_part where "key_part = dec cp @ prefixed_field 58 sh"
  define mod_part where "mod_part = ?m @ prefixed_field 58 ev"
  have no_semi: "x \<noteq> 59" "x \<noteq> 117" if "x \<in> set key_part \<or> x \<in> set mod_part" for x
    using that by (auto simp: key_part_def mod_part_def prefixed_field_def split: option.splits dest: dec_digit)
  define fields where "fields = key_part # mod_part # (case t of Some x \<Rightarrow> [dec x] | None \<Rightarrow> [])"
  have fs: "split_by (\<lambda>c. c = 59) (key_part @ 59 # mod_part @ prefixed_field 59 t) [] = fields"
  proof (cases t)
    case None
    have "split_by (\<lambda>c. c = 59) mod_part [] = [mod_part]" using split_by_last [of mod_part "\<lambda>c. c = 59" "[]"] no_semi by auto
    then show ?thesis
      using split_by_field [of key_part "\<lambda>c. c = 59" 59 mod_part "[]"] no_semi None by (auto simp: fields_def prefixed_field_def)
  next
    case (Some x)
    have "split_by (\<lambda>c. c = 59) (dec x) [] = [dec x]" by (subst split_by_last) (auto dest: dec_digit)
    then have "split_by (\<lambda>c. c = 59) (mod_part @ 59 # dec x) [] = [mod_part, dec x]"
      using split_by_field [of mod_part "\<lambda>c. c = 59" 59 "dec x" "[]"] no_semi by auto
    then show ?thesis
      using split_by_field [of key_part "\<lambda>c. c = 59" 59 "mod_part @ 59 # dec x" "[]"] no_semi Some
      by (auto simp: fields_def prefixed_field_def)
  qed
  have ks: "split_by (\<lambda>c. c = 58) key_part [] = dec cp # (case sh of Some x \<Rightarrow> [dec x] | None \<Rightarrow> [])"
  proof (cases sh)
    case None
    then show ?thesis unfolding key_part_def prefixed_field_def by (subst split_by_last) (auto dest: dec_digit)
  next
    case (Some x)
    have "split_by (\<lambda>c. c = 58) (dec x) [] = [dec x]" by (subst split_by_last) (auto dest: dec_digit)
    moreover have "\<And>y. y \<in> set (dec cp) \<Longrightarrow> y \<noteq> 58" by (auto dest: dec_digit)
    ultimately show ?thesis
      unfolding key_part_def prefixed_field_def using Some split_by_field [of "dec cp" "\<lambda>c. c = 58" 58 "dec x" "[]"]
      by simp
  qed
  have nc: "58 \<notin> set ?m" by (auto dest: dec_digit)
  have ms: "split_modifier_and_event mod_part = (?m, map_option dec ev)"
    unfolding split_modifier_and_event_def mod_part_def prefixed_field_def
    by (cases ev) (simp_all add: split_once_first [OF nc] split_once_none [OF nc])
  have kind: "parse_kitty_event_type (map_option dec ev) = Some kind"
    using ev parse_event_number [of kind] by (auto simp: parse_kitty_event_type_def)
  have shifted: "optional_field parse_kitty_codepoint (field_at (dec cp # (case sh of Some x \<Rightarrow> [dec x] | None \<Rightarrow> [])) 1) = Some sh"
    "optional_field parse_kitty_codepoint (field_at (dec cp # (case sh of Some x \<Rightarrow> [dec x] | None \<Rightarrow> [])) 2) = Some None"
    using sh by (auto simp: optional_field_def field_at_def parse_codepoint_dec split: option.splits)
  have assoc: "optional_field parse_kitty_associated_text (if 2 < length fields then Some (fields ! 2) else None) =
      Some (map_option (\<lambda>c. [c]) t)"
    using t by (auto simp: optional_field_def fields_def parse_text_dec split: option.splits)
  have mp: "mod_part \<noteq> []" by (simp add: mod_part_def)
  have body: "parse_kitty_body (key_part @ 59 # mod_part @ prefixed_field 59 t) =
      Some (kitty_key cp sh code (of_nat (kitty_modifier mods - 1)) kind (map_option (\<lambda>c. [c]) t))"
  proof -
    have l: "length fields \<le> 3" "length (dec cp # (case sh of Some x \<Rightarrow> [dec x] | None \<Rightarrow> [])) \<le> 3"
      by (auto simp: fields_def split: option.splits)
    have f1: "field_at fields 1 = Some mod_part" using mp by (simp add: field_at_def fields_def)
    have hd: "hd fields = key_part" by (simp add: fields_def)
    show ?thesis
      unfolding parse_kitty_body_def Let_def fs f1 hd ks assoc option.case ms
      using l cp kind shifted mods by (simp add: parse_modifier_dec parse_codepoint_dec not_less)
  qed
  define report where "report = key_part @ 59 # mod_part @ prefixed_field 59 t"
  have "csi_u cp sh (kitty_modifier mods) ev t = 27 # 91 # report @ [117]"
    by (simp add: csi_u_def report_def key_part_def mod_part_def)
  then have "parse_kitty_key_sequence (csi_u cp sh (kitty_modifier mods) ev t) =
      Some (kitty_key cp sh code (of_nat (kitty_modifier mods - 1)) kind (map_option (\<lambda>c. [c]) t))"
    unfolding parse_kitty_key_sequence_def using body [folded report_def] by (simp add: strip_suffix_snoc strip_csi)
  then show ?thesis by (simp add: parse_terminal_key_sequence_def)
qed

lemma plain_char_code: "plain_char c \<Longrightarrow> kitty_codepoint_to_keycode c = Some (KeyChar c)"
  using map_of_eq_None_iff [of kitty_keys c]
  by (auto simp: plain_char_def kitty_codepoint_to_keycode_def is_kitty_functional_codepoint_def char_from_u32_def)

lemma numbered_code: "code \<in> set (map fst kitty_codes) \<Longrightarrow>
    \<exists>n. map_of kitty_codes code = Some n \<and> scalar n \<and> kitty_codepoint_to_keycode n = Some code"
  by (auto simp: kitty_codes_def kitty_codepoint_to_keycode_def kitty_keys_def scalar_def)

lemma kitty_codepoint_reported:
  assumes "reportable key"
  shows "\<exists>cp sh code. kitty_codepoint key flags = Some (cp, sh) \<and> scalar cp \<and> kitty_codepoint_to_keycode cp = Some code \<and>
    (\<forall>x. sh = Some x \<longrightarrow> scalar x) \<and> code = tk_code (reported flags key) \<and>
    map_option of_nat sh = tk_shifted (reported flags key) \<and> (sh \<noteq> None \<longrightarrow> contains (tk_modifiers key) mod_shift)"
proof (cases "\<exists>c. tk_code key = KeyChar c")
  case True
  then obtain c where c: "tk_code key = KeyChar c" by blast
  let ?c = "canonical_kitty_char c (tk_modifiers key)"
  have p: "plain_char ?c" "plain_char c" using assms c by (simp_all add: reportable_def canonical_kitty_char_unshifted)
  have "scalar x \<and> contains (tk_modifiers key) mod_shift" if "alternate_shifted_codepoint key flags = Some x" for x
    using that assms c p(2)
    by (auto simp: alternate_shifted_codepoint_def reportable_def plain_char_def with_shift_contains
        split: if_splits option.splits)
  with c p plain_char_code [OF p(1)] show ?thesis
    by (auto simp: kitty_codepoint_def reported_helpers [OF assms] plain_char_def)
next
  case False
  then have code: "tk_code key \<in> set (map fst kitty_codes)" using assms by (auto simp: reportable_def split: key_code.splits)
  from numbered_code [OF this] obtain n where
    n: "map_of kitty_codes (tk_code key) = Some n" "scalar n" "kitty_codepoint_to_keycode n = Some (tk_code key)" by blast
  have "kitty_codepoint key flags = Some (n, None)"
    using False n(1) unfolding kitty_codepoint_def by (cases "tk_code key") simp_all
  moreover have "tk_code (reported flags key) = tk_code key" "tk_shifted (reported flags key) = None"
    using False by (auto simp: reported_def split: key_code.splits)
  ultimately show ?thesis using n by simp
qed

lemma kitty_key_reported:
  assumes "reportable key" "code = tk_code (reported flags key)" "map_option of_nat sh = tk_shifted (reported flags key)"
    and "sh \<noteq> None \<Longrightarrow> contains (tk_modifiers key) mod_shift"
    and "key_modifiers_from_u8 m = tk_modifiers key"
    and "assoc = (if flags AND kitty_flag_report_associated_text \<noteq> 0 then text_codepoint_for_key key else None)"
  shows "kitty_key cp sh code m (tk_kind key) (map_option (\<lambda>c. [c]) assoc) = reported flags key"
proof -
  have shift: "tk_modifiers key OR mod_shift = tk_modifiers key" if "sh \<noteq> None"
    using assms(4) [OF that] unfolding contains_def by (metis or.commute or.right_idem word_ao_absorbs(2) word_bw_comms(1))
  have release: "text_codepoint_for_key key = None" if "tk_kind key = Release"
    using that by (simp add: text_codepoint_for_key_def text_char_for_key_def)
  define K where "K = key_new code (tk_modifiers key)"
  have "kitty_key cp sh code m (tk_kind key) (map_option (\<lambda>c. [c]) assoc) =
      with_generated_text (map_option (\<lambda>c. [c]) assoc)
        (case sh of Some s \<Rightarrow> with_shifted_codepoint (of_nat s) (with_kind (tk_kind key) K) | None \<Rightarrow> with_kind (tk_kind key) K)"
    unfolding kitty_key_def Let_def assms(5) K_def using shift by (cases sh) (auto split: key_code.splits)
  also have "\<dots> = reported flags key"
    using assms(2,3,6) release
    by (cases sh) (auto simp: K_def reported_helpers [OF assms(1)] key_new_def with_kind_def with_shifted_codepoint_def
        with_generated_text_def)
  finally show ?thesis .
qed

lemma csi_u_ascii: "list_all (\<lambda>c. c < 128) (csi_u cp sh m ev t)"
  by (simp add: csi_u_def prefixed_field_def dec_ascii split: option.splits)

lemma from_utf8_as_bytes_ascii: "list_all (\<lambda>c. c < 128) s \<Longrightarrow> from_utf8 (as_bytes s) = Some s"
  by (rule from_utf8_as_bytes) (auto simp: list_all_iff scalar_def)

lemma text_codepoint_scalar:
  assumes "reportable key" "text_codepoint_for_key key = Some c"
  shows "scalar c \<and> \<not> is_control c"
proof -
  obtain ch where ch: "tk_code key = KeyChar ch" "text_char_for_key key = Some c" "\<not> is_control c"
    using assms(2)
    by (auto simp: text_codepoint_for_key_def text_char_for_key_def split: option.splits if_splits key_code.splits)
  have "scalar ch" using assms(1) ch(1) by (simp add: reportable_def plain_char_def)
  then have "scalar c"
    using ch(1,2) by (auto simp: text_char_for_key_def shifted_text_char_def char_from_u32_def to_ascii_uppercase_def
        scalar_def is_ascii_lowercase_def split: option.splits if_splits)
  with ch(3) show ?thesis by simp
qed

section \<open>Properties\<close>


definition sample_key :: terminal_key where
  "sample_key = with_kind Repeat (key_new (KeyChar 65) (mod_shift OR mod_alt))"

lemma sample_reportable: "reportable sample_key"
  by (simp add: sample_key_def reportable_def with_kind_def key_new_def plain_char_def scalar_def kitty_keys_def
      is_kitty_functional_codepoint_def unshifted_def with_shift_def mod_shift_def mod_alt_def)


section \<open>Legacy sequences\<close>

definition special_codes :: "key_code list" where
  "special_codes = [KeyUp, KeyDown, KeyRight, KeyLeft, KeyHome, KeyEnd, KeyInsert, KeyDelete, KeyPageUp, KeyPageDown] @
     map KeyF [1..<13]"

lemma special_no_semicolon: "59 \<in> set s \<Longrightarrow> map_of special_sequences s = None"
proof -
  have "list_all (\<lambda>e. 59 \<notin> set (fst e)) special_sequences" by (simp add: special_sequences_def U_def)
  then show "59 \<in> set s \<Longrightarrow> map_of special_sequences s = None" by (auto simp: map_of_eq_None_iff list_all_iff)
qed

lemma xterm_key_dec:
  assumes "mods < 8"
  shows "xterm_key (Some code) (dec (xterm_modifier mods)) = Some (key_new code mods)"
proof -
  have "mods \<in> set (map of_nat [0..<8])" using assms by (intro byte_below) (simp add: word_less_nat_alt)
  then have m: "kitty_modifier mods = xterm_modifier mods"
    by (auto simp: upt_rec kitty_modifier_def contains_def mod_super_def mod_hyper_def mod_meta_def)
  have lt: "mods < 64" using assms by (simp add: word_less_nat_alt)
  have "58 \<notin> set (dec (xterm_modifier mods))" by (auto dest: dec_digit)
  then show ?thesis
    using parse_modifier_dec [OF lt] modifier_roundtrip [OF lt]
    by (simp add: m xterm_key_def split_modifier_and_event_def split_once_none parse_kitty_event_type_def with_kind_def key_new_def)
qed

lemma not_a_report:
  assumes "last s \<noteq> 117" "\<not> prefixed (27 # U ''[27;'') s" "map_of special_sequences s = None \<or> map_of special_sequences s = Some (c, m)"
  shows "parse_terminal_key_sequence s =
    (case map_of special_sequences s of Some (c, m) \<Rightarrow> Some (key_new c m) | None \<Rightarrow> parse_legacy_key_sequence s)"
proof -
  have "strip_suffix_char 117 r = None" if "s = 27 # 91 # r" for r
    using assms(1) that by (auto simp: strip_suffix_char_def)
  then have "parse_kitty_key_sequence s = None"
    by (auto simp: parse_kitty_key_sequence_def strip_prefix_iff U_def split: option.splits)
  moreover have "parse_modify_other_keys_sequence s = None"
    using assms(2) by (simp add: parse_modify_other_keys_sequence_def strip_prefix_def)
  moreover have "parse_legacy_key_sequence s = Some (key_new c m)" if "map_of special_sequences s = Some (c, m)"
    using that by (simp add: parse_legacy_key_sequence.simps [of s] parse_legacy_special_sequence_def)
  ultimately show ?thesis using assms(3) by (auto simp: parse_terminal_key_sequence_def)
qed

lemma parse_letter_sequence:
  assumes "mods < 8" "map_of letter_keys c = Some code" "is_ascii_alphabetic c" "c \<noteq> 117"
  shows "parse_terminal_key_sequence (27 # U ''[1;'' @ dec (xterm_modifier mods) @ [c]) = Some (key_new code mods)"
proof -
  let ?s = "27 # U ''[1;'' @ dec (xterm_modifier mods) @ [c]"
  have no: "map_of special_sequences ?s = None" by (rule special_no_semicolon) (simp add: U_def)
  have "parse_xterm_modified_special_sequence ?s = xterm_key (Some code) (dec (xterm_modifier mods))"
    using assms(2,3) by (simp add: parse_xterm_modified_special_sequence_def strip_prefix_def prefixed_def U_def)
  then have "parse_legacy_key_sequence ?s = Some (key_new code mods)"
    using no xterm_key_dec [OF assms(1)] by (simp add: parse_legacy_key_sequence.simps [of ?s] parse_legacy_special_sequence_def)
  moreover have "parse_terminal_key_sequence ?s = parse_legacy_key_sequence ?s"
    using not_a_report [of ?s] no assms(4) by (simp add: U_def prefixed_def)
  ultimately show ?thesis by simp
qed

lemma parse_tilde_sequence_dec:
  assumes "mods < 8" "map_of tilde_keys n = Some code" "59 \<notin> set n" "n \<noteq> U ''1''" "n \<noteq> U ''27''"
  shows "parse_terminal_key_sequence (27 # 91 # n @ 59 # dec (xterm_modifier mods) @ [126]) = Some (key_new code mods)"
proof -
  let ?s = "27 # 91 # n @ 59 # dec (xterm_modifier mods) @ [126]"
  have no: "map_of special_sequences ?s = None" by (rule special_no_semicolon) simp
  have not_27: "\<not> prefixed (27 # U ''[27;'') ?s"
  proof
    assume "prefixed (27 # U ''[27;'') ?s"
    then obtain r where "n @ 59 # dec (xterm_modifier mods) @ [126] = U ''27'' @ 59 # r"
      using strip_prefix_iff [of "27 # U ''[27;''" ?s] by (auto simp: strip_prefix_def U_def)
    then have "split_once 59 (n @ 59 # dec (xterm_modifier mods) @ [126]) = split_once 59 (U ''27'' @ 59 # r)" by simp
    then have "n = U ''27''" using split_once_first [OF assms(3)] split_once_first [of 59 "U ''27''" r] by (simp add: U_def)
    with assms(5) show False by simp
  qed
  have "parse_tilde_sequence (n @ 59 # dec (xterm_modifier mods) @ [126]) = xterm_key (Some code) (dec (xterm_modifier mods))"
    using strip_suffix_snoc [of 126 "n @ 59 # dec (xterm_modifier mods)"] assms(2,3)
    by (simp add: parse_tilde_sequence_def split_once_first)
  moreover have "strip_prefix (U ''1;'') (n @ 59 # dec (xterm_modifier mods) @ [126]) = None"
    using assms(3,4) by (cases n; cases "tl n") (auto simp: strip_prefix_def prefixed_def U_def)
  ultimately have "parse_legacy_key_sequence ?s = Some (key_new code mods)"
    using no xterm_key_dec [OF assms(1)]
    by (simp add: parse_legacy_key_sequence.simps [of ?s] parse_legacy_special_sequence_def
        parse_xterm_modified_special_sequence_def strip_csi)
  moreover have "parse_terminal_key_sequence ?s = parse_legacy_key_sequence ?s"
    using not_a_report [of ?s] no not_27 by simp
  ultimately show ?thesis by simp
qed

lemma dec_tilde_numbers:
  "dec 2 = U ''2''" "dec 3 = U ''3''" "dec 5 = U ''5''" "dec 6 = U ''6''" "dec 15 = U ''15''" "dec 17 = U ''17''"
  "dec 18 = U ''18''" "dec 19 = U ''19''" "dec 20 = U ''20''" "dec 21 = U ''21''" "dec 23 = U ''23''" "dec 24 = U ''24''"
  by (simp_all add: dec_rec [of "numeral _"] dec_rec [of "Suc 0"] U_def)

text \<open>The two shapes of a modified special key.\<close>

lemma modified_special_letter:
  assumes "1 < xterm_modifier mods"
  shows "list_all (\<lambda>(c, code). encode_modified_special code mods = Some (as_bytes (27 # U ''[1;'' @ dec (xterm_modifier mods) @ [c])) \<and>
      map_of letter_keys c = Some code \<and> is_ascii_uppercase c) letter_keys"
  using assms by (simp add: encode_modified_special_def letter_keys_def is_ascii_uppercase_def Let_def)

lemma modified_special_tilde:
  assumes "1 < xterm_modifier mods"
  shows "list_all (\<lambda>(n, code). encode_modified_special code mods = Some (as_bytes (27 # 91 # n @ 59 # dec (xterm_modifier mods) @ [126])) \<and>
      map_of tilde_keys n = Some code \<and> list_all is_ascii_digit n \<and> n \<noteq> U ''1'' \<and> n \<noteq> U ''27'') tilde_keys"
  using assms by (simp add: encode_modified_special_def tilde_keys_def f_key_numbers_def Let_def dec_tilde_numbers U_def is_ascii_digit_def)

lemma special_codes_cases:
  "code \<in> set special_codes \<Longrightarrow> code \<in> set (map snd letter_keys) \<or> code \<in> set (map snd tilde_keys)"
  by (auto simp: special_codes_def letter_keys_def tilde_keys_def upt_rec)

lemma modified_special_parsed:
  assumes "code \<in> set special_codes" "mods < 8" "1 < xterm_modifier mods"
  shows "\<exists>s. encode_modified_special code mods = Some (as_bytes s) \<and> list_all (\<lambda>c. c < 128) s \<and>
    parse_terminal_key_sequence s = Some (key_new code mods)"
  using special_codes_cases [OF assms(1)]
proof
  assume "code \<in> set (map snd letter_keys)"
  then obtain c where c: "(c, code) \<in> set letter_keys" by auto
  let ?s = "27 # U ''[1;'' @ dec (xterm_modifier mods) @ [c]"
  have f: "encode_modified_special code mods = Some (as_bytes ?s)" "map_of letter_keys c = Some code" "is_ascii_uppercase c"
    using modified_special_letter [OF assms(3)] c by (auto simp: list_all_iff)
  have "parse_terminal_key_sequence ?s = Some (key_new code mods)"
    by (rule parse_letter_sequence [OF assms(2) f(2)]) (use f(3) in \<open>simp_all add: is_ascii_alphabetic_def is_ascii_uppercase_def\<close>)
  with f(1,3) show ?thesis
    by (intro exI [of _ ?s]) (simp add: dec_ascii is_ascii_uppercase_def U_def)
next
  assume "code \<in> set (map snd tilde_keys)"
  then obtain n where n: "(n, code) \<in> set tilde_keys" by auto
  let ?s = "27 # 91 # n @ 59 # dec (xterm_modifier mods) @ [126]"
  have f: "encode_modified_special code mods = Some (as_bytes ?s)" "map_of tilde_keys n = Some code"
    "list_all is_ascii_digit n" "n \<noteq> U ''1''" "n \<noteq> U ''27''"
    using modified_special_tilde [OF assms(3)] n by (auto simp: list_all_iff)
  have "59 \<notin> set n" using f(3) by (auto simp: list_all_iff is_ascii_digit_def)
  then have "parse_terminal_key_sequence ?s = Some (key_new code mods)"
    using parse_tilde_sequence_dec [OF assms(2) f(2) _ f(4,5)] by simp
  moreover have "list_all (\<lambda>c. c < 128) n" using f(3) by (auto simp: list_all_iff is_ascii_digit_def)
  ultimately show ?thesis using f(1) by (intro exI [of _ ?s]) (simp add: dec_ascii)
qed

lemma unmodified_special:
  "list_all (\<lambda>code. let bs = encode_legacy (key_new code 0); s = map unat bs in ascii bs \<and>
      map_of special_sequences s = Some (code, 0) \<and> last s \<noteq> 117 \<and> \<not> prefixed (27 # U ''[27;'') s) special_codes"
  by (simp add: special_codes_def upt_rec encode_legacy_def encode_legacy_inner_def encode_f_key_def f_key_numbers_def key_new_def
      contains_def mod_alt_def ascii_def special_sequences_def prefixed_def dec_tilde_numbers as_bytes_ascii U_def Let_def)

text \<open>
  Special keys survive the legacy encoding. An arrow, navigation or function key F1 to F12 with
  any combination of Shift, Alt and Control is written as a sequence that the parser reads as
  the same key with the same modifiers.
\<close>

theorem special_key_roundtrip:
  assumes "code \<in> set special_codes" and "mods < 8"
  shows "Option.bind (from_utf8 (encode_terminal_key (key_new code mods) Legacy)) parse_terminal_key_sequence = Some (key_new code mods)"
proof -
  let ?k = "key_new code mods"
  have "text_char_for_key ?k = None" using assms(1) by (auto simp: text_char_for_key_def special_codes_def key_new_def)
  then have enc: "encode_terminal_key ?k Legacy = encode_legacy ?k"
    by (simp add: encode_terminal_key_def encode_text_input_def key_new_def)
  show ?thesis
  proof (cases "mods = 0")
    case True
    define s where "s = map unat (encode_legacy ?k)"
    have "from_utf8 (encode_legacy ?k) = Some s" "map_of special_sequences s = Some (code, 0)" "last s \<noteq> 117"
      "\<not> prefixed (27 # U ''[27;'') s"
      using unmodified_special assms(1) True by (auto simp: list_all_iff Let_def s_def from_utf8_ascii)
    then show ?thesis using not_a_report [of s code 0] enc True by simp
  next
    case False
    have "mods \<in> set (map of_nat [0..<8])" using assms(2) by (intro byte_below) (simp add: word_less_nat_alt)
    then have m: "1 < xterm_modifier mods"
      using False by (auto simp: upt_rec xterm_modifier_def contains_def mod_shift_def mod_alt_def mod_control_def)
    obtain s where "encode_modified_special code mods = Some (as_bytes s)" "list_all (\<lambda>c. c < 128) s"
      "parse_terminal_key_sequence s = Some ?k"
      using modified_special_parsed [OF assms m] by blast
    then show ?thesis using enc False by (simp add: encode_legacy_def key_new_def from_utf8_as_bytes_ascii)
  qed
qed

theorem special_key_roundtrip_witness:
  "Option.bind (from_utf8 (encode_terminal_key (key_new (KeyF 5) (mod_control OR mod_alt)) Legacy)) parse_terminal_key_sequence =
     Some (key_new (KeyF 5) (mod_control OR mod_alt))"
  using special_key_roundtrip [of "KeyF 5" "mod_control OR mod_alt"]
  by (simp add: special_codes_def upt_rec mod_control_def mod_alt_def)

section \<open>Keys the legacy encoding cannot carry\<close>

text \<open>A release is silent unless the program asked for event types.\<close>

lemma release_silent: "tk_kind key = Release \<Longrightarrow> \<not> reports_event_types protocol \<Longrightarrow> encode_terminal_key key protocol = []"
  by (simp add: encode_terminal_key_def)

text \<open>
  Control with a character outside ASCII is cut to the low byte of the character, so Control with
  U+0142 types the letter \<open>B\<close>.
\<close>

lemma control_truncates_character:
  "encode_terminal_key (key_new (KeyChar 322) mod_control) Legacy = encode_terminal_key (key_new (KeyChar 66) 0) Legacy"
  by (simp add: encode_terminal_key_def encode_text_input_def text_char_for_key_def key_new_def mod_control_def mod_shift_def
      encode_legacy_def encode_modified_special_def xterm_modifier_def contains_def mod_alt_def encode_legacy_inner_def
      encode_control_char_def to_ascii_uppercase_def is_ascii_lowercase_def utf8_char_def U_def Let_def)

end
