(* ===== verification/Raw_Input.thy ===== *)
theory Raw_Input
  imports Key_Codec "HOL-Library.Sublist"
begin

unbundle bit_operations_syntax

text \<open>
  The input of the host terminal: \<open>src/raw_input.rs\<close> splits the byte stream into chunks, one per
  event, and parses them; the colour replies are read by \<open>src/terminal_theme.rs\<close>. The framer keeps
  what is incomplete until more bytes or an idle timeout arrive. Slicing a string at a byte that
  is not the start of a character panics in Rust: such a result is \<open>None\<close> in the functions that
  slice, \<open>Panicked\<close> for an event and \<open>None\<close> for the framer. The Unicode property \<open>char::is_uppercase\<close> is the
  parameter \<open>upper\<close>. \<open>usize\<close> counters are natural numbers.
\<close>

section \<open>Colours of the host terminal\<close>

record rgb_color =
  rgb_r :: u8
  rgb_g :: u8
  rgb_b :: u8

datatype host_appearance = Dark | Light

datatype default_color_kind = Foreground | Background

definition hex_value :: "u8 \<Rightarrow> nat option" where
  "hex_value b =
     (if 48 \<le> b \<and> b \<le> 57 then Some (unat b - 48) else if 97 \<le> b \<and> b \<le> 102 then Some (unat b - 87)
      else if 65 \<le> b \<and> b \<le> 70 then Some (unat b - 55) else None)"

definition parse_hex_component :: "u8 list \<Rightarrow> u8 option" where
  "parse_hex_component component =
     (if component = [] \<or> 4 < length component \<or> \<not> list_all (\<lambda>b. hex_value b \<noteq> None) component then None
      else
        (let v = foldl (\<lambda>n b. n * 16 + the (hex_value b)) 0 component; mx = 2 ^ (length component * 4) - 1
         in Some (of_nat ((v * 255 + mx div 2) div mx))))"

definition rgb_of :: "u8 option \<Rightarrow> u8 option \<Rightarrow> u8 option \<Rightarrow> rgb_color option" where
  "rgb_of r g b = (case (r, g, b) of (Some r, Some g, Some b) \<Rightarrow> Some \<lparr>rgb_r = r, rgb_g = g, rgb_b = b\<rparr> | _ \<Rightarrow> None)"

definition is_char_boundary :: "u8 list \<Rightarrow> nat \<Rightarrow> bool" where
  "is_char_boundary bs i \<longleftrightarrow> i = 0 \<or> i = length bs \<or> i < length bs \<and> \<not> is_cont (unat (bs ! i))"

definition parse_hash_color :: "u8 list \<Rightarrow> rgb_color option option" where
  "parse_hash_color hex =
     (let digits = length hex div 3
      in if \<not> (1 \<le> digits \<and> digits \<le> 4) \<or> length hex \<noteq> digits * 3 then Some None
         else if \<not> is_char_boundary hex digits then None
         else case parse_hex_component (take digits hex) of
           None \<Rightarrow> Some None
         | Some r \<Rightarrow>
             if \<not> is_char_boundary hex (2 * digits) then None
             else Some (rgb_of (Some r) (parse_hex_component (take digits (drop digits hex)))
               (parse_hex_component (drop (2 * digits) hex))))"

definition parse_rgb_color :: "ustr \<Rightarrow> rgb_color option option" where
  "parse_rgb_color v =
     (case strip_prefix (U ''rgb:'') v of
        Some rgb \<Rightarrow>
          (case split_by (\<lambda>c. c = 47) rgb [] of
             [r, g, b] \<Rightarrow> Some (rgb_of (parse_hex_component (as_bytes r)) (parse_hex_component (as_bytes g))
               (parse_hex_component (as_bytes b)))
           | _ \<Rightarrow> Some None)
      | None \<Rightarrow>
          (case strip_prefix (U ''#'') v of
             Some hex \<Rightarrow> parse_hash_color (as_bytes hex)
           | None \<Rightarrow> Some None))"

definition strip_string_terminator :: "ustr \<Rightarrow> ustr option" where
  "strip_string_terminator s =
     (if 2 \<le> length s \<and> drop (length s - 2) s = [27, 92] then Some (take (length s - 2) s) else strip_suffix_char 7 s)"

definition osc_body :: "ustr \<Rightarrow> ustr \<Rightarrow> (ustr \<times> ustr) option" where
  "osc_body introducer s =
     Option.bind (strip_prefix introducer s) (\<lambda>r. Option.bind (strip_string_terminator r) (split_once 59))"

definition parse_default_color_response :: "ustr \<Rightarrow> (default_color_kind \<times> rgb_color) option option" where
  "parse_default_color_response s =
     (case osc_body (27 # U '']'') s of
        None \<Rightarrow> Some None
      | Some (command, v) \<Rightarrow>
          (case (if command = U ''10'' then Some Foreground else if command = U ''11'' then Some Background else None) of
             None \<Rightarrow> Some None
           | Some kind \<Rightarrow> map_option (map_option (Pair kind)) (parse_rgb_color v)))"

definition parse_palette_color_response :: "ustr \<Rightarrow> (nat \<times> rgb_color) option option" where
  "parse_palette_color_response s =
     (case osc_body (27 # U '']4;'') s of
        None \<Rightarrow> Some None
      | Some (index, v) \<Rightarrow>
          (case parse_uint 255 index of
             None \<Rightarrow> Some None
           | Some i \<Rightarrow> map_option (map_option (Pair i)) (parse_rgb_color v)))"

section \<open>Mouse reports and other replies\<close>

record mouse_event =
  me_kind :: mouse_kind
  me_column :: u16
  me_row :: u16
  me_modifiers :: u8

definition mouse_kinds :: "((nat \<times> bool) \<times> mouse_kind) list" where
  "mouse_kinds = [((0, False), MouseDown MouseLeft), ((1, False), MouseDown MouseMiddle), ((2, False), MouseDown MouseRight),
     ((0, True), MouseDrag MouseLeft), ((1, True), MouseDrag MouseMiddle), ((2, True), MouseDrag MouseRight),
     ((3, False), MouseUp MouseLeft), ((3, True), MouseMoved), ((4, True), MouseMoved), ((5, True), MouseMoved),
     ((8, True), MouseMoved), ((9, True), MouseMoved), ((4, False), ScrollUp), ((5, False), ScrollDown),
     ((6, False), ScrollLeft), ((7, False), ScrollRight)]"

definition parse_mouse_cb :: "u8 \<Rightarrow> (mouse_kind \<times> u8) option" where
  "parse_mouse_cb cb =
     (let button_number = (cb AND 3) OR drop_bit 4 (cb AND 192);
          dragging = (cb AND 32 = 32);
          modifiers = (if cb AND 4 \<noteq> 0 then mod_shift else 0) OR (if cb AND 8 \<noteq> 0 then mod_alt else 0) OR
            (if cb AND 16 \<noteq> 0 then mod_control else 0)
      in map_option (\<lambda>kind. (kind, modifiers)) (map_of mouse_kinds (unat button_number, dragging)))"

definition parse_default_mouse :: "u8 list \<Rightarrow> mouse_event option" where
  "parse_default_mouse bytes =
     (case bytes of
        [e, l, m, cb, column, row] \<Rightarrow>
          if (e, l, m) = (27, 91, 77) \<and> 32 \<le> cb \<and> 33 \<le> column \<and> 33 \<le> row
          then map_option (\<lambda>(kind, modifiers). \<lparr>me_kind = kind, me_column = ucast column - 33, me_row = ucast row - 33,
                 me_modifiers = modifiers\<rparr>) (parse_mouse_cb (cb - 32))
          else None
      | _ \<Rightarrow> None)"

definition parse_coordinate :: "ustr \<Rightarrow> u16 option" where
  "parse_coordinate s = (case parse_uint 65535 s of Some n \<Rightarrow> if n = 0 then None else Some (of_nat (n - 1)) | None \<Rightarrow> None)"

definition released :: "mouse_kind \<Rightarrow> mouse_kind" where
  "released kind = (case kind of MouseDown b \<Rightarrow> MouseUp b | k \<Rightarrow> k)"

definition parse_sgr_mouse :: "ustr \<Rightarrow> mouse_event option" where
  "parse_sgr_mouse s =
     (case strip_prefix (27 # U ''[<'') s of
        None \<Rightarrow> None
      | Some body \<Rightarrow>
          if body = [] \<or> last body \<noteq> 77 \<and> last body \<noteq> 109 then None
          else (case split_by (\<lambda>c. c = 59) (butlast body) [] of
             [cb, column, row] \<Rightarrow>
               (case (parse_uint 255 cb, parse_coordinate column, parse_coordinate row) of
                  (Some cb, Some column, Some row) \<Rightarrow>
                    map_option (\<lambda>(kind, modifiers). \<lparr>me_kind = (if last body = 109 then released kind else kind),
                        me_column = column, me_row = row, me_modifiers = modifiers\<rparr>) (parse_mouse_cb (of_nat cb))
                | _ \<Rightarrow> None)
           | _ \<Rightarrow> None))"

definition ghostty_color_scheme_dark_report :: "u8 list" where
  "ghostty_color_scheme_dark_report = 27 # B ''[?997;1n''"

definition ghostty_color_scheme_light_report :: "u8 list" where
  "ghostty_color_scheme_light_report = 27 # B ''[?997;2n''"

definition bracketed_paste_start :: "u8 list" where
  "bracketed_paste_start = 27 # B ''[200~''"

definition bracketed_paste_end :: "u8 list" where
  "bracketed_paste_end = 27 # B ''[201~''"

definition parse_host_color_scheme_report :: "u8 list \<Rightarrow> host_appearance option" where
  "parse_host_color_scheme_report buffer =
     (if buffer = ghostty_color_scheme_dark_report then Some Dark
      else if buffer = ghostty_color_scheme_light_report then Some Light else None)"

definition parse_host_cell_size_report :: "ustr \<Rightarrow> (nat \<times> nat) option" where
  "parse_host_cell_size_report s =
     (case Option.bind (strip_prefix (27 # U ''['') s) (strip_suffix_char 116) of
        None \<Rightarrow> None
      | Some body \<Rightarrow>
          (case split_by (\<lambda>c. c = 59) body [] of
             [six, height, width] \<Rightarrow>
               (case (parse_uint 4294967295 height, parse_uint 4294967295 width) of
                  (Some h, Some w) \<Rightarrow> if six = U ''6'' \<and> w \<noteq> 0 \<and> h \<noteq> 0 then Some (w, h) else None
                | _ \<Rightarrow> None)
           | _ \<Rightarrow> None))"

section \<open>Sequences\<close>

datatype control_string_family = Osc | StTerminated | HostReplyCsi | OrphanedSgrMouseTail

datatype control_string_state = Complete nat control_string_family | Incomplete control_string_family

fun find_subsequence :: "u8 list \<Rightarrow> u8 list \<Rightarrow> nat option" where
  "find_subsequence [] needle = (if needle = [] then Some 0 else None)"
| "find_subsequence (b # bs) needle =
     (if prefix needle (b # bs) then Some 0 else map_option Suc (find_subsequence bs needle))"

definition st_string_terminator :: "u8 list \<Rightarrow> nat option" where
  "st_string_terminator buffer = map_option (\<lambda>i. i + 2) (find_subsequence buffer [27, 92])"

definition osc_string_terminator :: "u8 list \<Rightarrow> nat option" where
  "osc_string_terminator buffer =
     (case (st_string_terminator buffer, map_option (\<lambda>i. i + 1) (position (\<lambda>b. b = 7) buffer)) of
        (Some st, Some bel) \<Rightarrow> Some (min st bel)
      | (Some st, None) \<Rightarrow> Some st
      | (None, bel) \<Rightarrow> bel)"

definition control_string_terminator_for_family :: "u8 list \<Rightarrow> control_string_family \<Rightarrow> nat option" where
  "control_string_terminator_for_family buffer family =
     (case family of Osc \<Rightarrow> osc_string_terminator buffer | StTerminated \<Rightarrow> st_string_terminator buffer | _ \<Rightarrow> None)"

definition control_string :: "u8 list \<Rightarrow> control_string_state option" where
  "control_string buffer =
     map_option (\<lambda>family. case control_string_terminator_for_family buffer family of
        Some len \<Rightarrow> Complete len family | None \<Rightarrow> Incomplete family)
       (case buffer of
          a # b # _ \<Rightarrow>
            if a \<noteq> 27 then None
            else if b = 93 then Some Osc else if b \<in> {80, 95, 94, 88} then Some StTerminated else None
        | _ \<Rightarrow> None)"

definition find_csi_final :: "u8 list \<Rightarrow> (u8 \<Rightarrow> bool) \<Rightarrow> nat option" where
  "find_csi_final buffer finals = map_option (\<lambda>i. i + 3) (position finals (drop 2 buffer))"

definition csi_final :: "u8 \<Rightarrow> bool" where
  "csi_final b \<longleftrightarrow> 64 \<le> b \<and> b \<le> 126"

definition mouse_final :: "u8 \<Rightarrow> bool" where
  "mouse_final b \<longleftrightarrow> b = 77 \<or> b = 109"

definition utf8_char_width :: "u8 \<Rightarrow> nat option" where
  "utf8_char_width first =
     (if first < 128 then Some 1 else if first AND 224 = 192 then Some 2 else if first AND 240 = 224 then Some 3
      else if first AND 248 = 240 then Some 4 else None)"

definition first_complete_utf8_char_len :: "u8 list \<Rightarrow> nat option" where
  "first_complete_utf8_char_len buffer =
     (case buffer of
        [] \<Rightarrow> None
      | b # _ \<Rightarrow>
          (case utf8_char_width b of
             None \<Rightarrow> None
           | Some width \<Rightarrow>
               if length buffer < width \<or> from_utf8 (take width buffer) = None then None else Some width))"

text \<open>An escape character in front of a mouse report is a key of its own.\<close>

definition doubled_mouse :: "u8 list \<Rightarrow> bool option" where
  "doubled_mouse buffer =
     (case (if prefix [27, 27, 91, 60] buffer then find_csi_final (tl buffer) mouse_final else None) of
        Some n \<Rightarrow> map_option (\<lambda>s. parse_sgr_mouse s \<noteq> None) (from_utf8 (take n (tl buffer)))
      | None \<Rightarrow> Some False)"

function complete_escape_sequence_len :: "u8 list \<Rightarrow> nat option" where
  "complete_escape_sequence_len buffer =
     (if length buffer \<le> 1 then None
      else case doubled_mouse buffer of
        None \<Rightarrow> None
      | Some mouse \<Rightarrow>
          if mouse then Some 1
          else if 7 \<le> length buffer \<and> prefix [27, 27, 91, 77] buffer \<and> parse_default_mouse (take 6 (tl buffer)) \<noteq> None then Some 1
          else if prefix [27, 27] buffer then map_option Suc (complete_escape_sequence_len (tl buffer))
          else if prefix [27, 91] buffer then
            (if prefix [27, 91, 60] buffer then find_csi_final buffer mouse_final
             else if prefix [27, 91, 77] buffer then (if 6 \<le> length buffer then Some 6 else None)
             else find_csi_final buffer csi_final)
          else case control_string buffer of
            Some (Complete len _) \<Rightarrow> Some len
          | Some (Incomplete _) \<Rightarrow> None
          | None \<Rightarrow>
              if prefix [27, 79] buffer then (if 3 \<le> length buffer then Some 3 else None)
              else map_option Suc (first_complete_utf8_char_len (tl buffer)))"
  by pat_completeness auto

termination
  by (relation "measure length") auto

declare complete_escape_sequence_len.simps [simp del]

section \<open>Events\<close>

datatype raw_input_event =
    RawKey terminal_key
  | RawText ustr
  | RawPaste ustr
  | RawMouse mouse_event
  | OuterFocusGained
  | OuterFocusLost
  | HostDefaultColor default_color_kind rgb_color
  | HostPaletteColors "(nat \<times> rgb_color) list"
  | HostColorSchemeChanged host_appearance
  | HostCellSizeReport nat nat
  | Unsupported

datatype extracted = Panicked | Pending | Event raw_input_event nat

definition classify_sequence :: "u8 list \<Rightarrow> ustr \<Rightarrow> raw_input_event option" where
  "classify_sequence bytes s =
     (case parse_default_color_response s of
        None \<Rightarrow> None
      | Some (Some (kind, color)) \<Rightarrow> Some (HostDefaultColor kind color)
      | Some None \<Rightarrow>
          (case parse_palette_color_response s of
             None \<Rightarrow> None
           | Some (Some c) \<Rightarrow> Some (HostPaletteColors [c])
           | Some None \<Rightarrow> Some
               (if s = 27 # U ''[I'' then OuterFocusGained
                else if s = 27 # U ''[O'' then OuterFocusLost
                else case parse_host_color_scheme_report bytes of
                  Some appearance \<Rightarrow> HostColorSchemeChanged appearance
                | None \<Rightarrow>
                    (case parse_host_cell_size_report s of
                       Some (w, h) \<Rightarrow> HostCellSizeReport w h
                     | None \<Rightarrow>
                         (case parse_sgr_mouse s of
                            Some mouse \<Rightarrow> RawMouse mouse
                          | None \<Rightarrow>
                              (case parse_terminal_key_sequence s of
                                 Some key \<Rightarrow> RawKey (with_vt_bytes bytes key)
                               | None \<Rightarrow> Unsupported))))))"

definition extract_one_event :: "(nat \<Rightarrow> bool) \<Rightarrow> u8 list \<Rightarrow> extracted" where
  "extract_one_event upper buffer =
     (if buffer = [] then Pending
      else if prefix bracketed_paste_start buffer then
        (case find_subsequence buffer bracketed_paste_end of
           None \<Rightarrow> Pending
         | Some e \<Rightarrow>
             (case from_utf8 (take (e - 6) (drop 6 buffer)) of
                None \<Rightarrow> Pending
              | Some content \<Rightarrow> Event (RawPaste content) (e + 6)))
      else if hd buffer = 27 then
        (case complete_escape_sequence_len buffer of
           None \<Rightarrow> Pending
         | Some n \<Rightarrow>
             (let sq = take n buffer
              in if prefix [27, 91, 77] sq
                 then Event (case parse_default_mouse sq of Some mouse \<Rightarrow> RawMouse mouse | None \<Rightarrow> Unsupported) n
                 else case from_utf8 sq of None \<Rightarrow> Pending | Some s \<Rightarrow>
                   (case classify_sequence sq s of None \<Rightarrow> Panicked | Some event \<Rightarrow> Event event n)))
      else
        (case first_complete_utf8_char_len buffer of
           None \<Rightarrow> Pending
         | Some n \<Rightarrow>
             (case Option.bind (from_utf8 (take n buffer)) parse_terminal_key_sequence of
                None \<Rightarrow> Pending
              | Some key \<Rightarrow> Event (RawKey (with_vt_bytes (take n buffer) (with_text_commit upper key))) n)))"

section \<open>Extraction is decided by the bytes it consumes\<close>

lemma position_append: "position P xs = Some i \<Longrightarrow> position P (xs @ ys) = Some i"
  by (induction xs arbitrary: i) auto

lemma prefix_more: "length p \<le> length xs \<Longrightarrow> prefix p (xs @ ys) \<longleftrightarrow> prefix p xs"
  by (metis prefixI prefix_length_prefix prefix_order.trans)

lemma find_subsequence_append:
  "find_subsequence xs n = Some i \<Longrightarrow> find_subsequence (xs @ ys) n = Some i \<and> i + length n \<le> length xs"
proof (induction xs arbitrary: i)
  case Nil
  then show ?case by (cases ys) (auto split: if_splits)
next
  case (Cons x xs)
  show ?case
  proof (cases "prefix n (x # xs)")
    case True
    then show ?thesis using Cons.prems prefix_more [of n "x # xs" ys] prefix_length_le [OF True] by simp
  next
    case False
    then obtain j where j: "i = Suc j" "find_subsequence xs n = Some j" using Cons.prems by auto
    from Cons.IH [OF j(2)] show ?thesis using False j(1) prefix_more [of n "x # xs" ys] by simp
  qed
qed

lemma find_subsequence_none_append:
  assumes "find_subsequence xs [27, 92] = None" "find_subsequence (xs @ ys) [27, 92] = Some i"
  shows "length xs < i + 2"
  using assms
proof (induction xs arbitrary: i)
  case (Cons x xs)
  show ?case
  proof (cases "prefix [27, 92] (x # xs @ ys)")
    case True
    then have "i = 0" using Cons.prems(2) by simp
    moreover have "xs = []" using True Cons.prems(1) by (cases xs) (auto split: if_splits)
    ultimately show ?thesis by simp
  next
    case False
    then obtain j where "i = Suc j" "find_subsequence (xs @ ys) [27, 92] = Some j" using Cons.prems(2) by auto
    with Cons show ?thesis by (auto split: if_splits)
  qed
qed simp

lemma terminator_append:
  assumes "control_string_terminator_for_family xs family = Some n"
  shows "control_string_terminator_for_family (xs @ ys) family = Some n \<and> 0 < n \<and> n \<le> length xs"
proof -
  have st: "st_string_terminator (xs @ ys) = Some n \<and> 0 < n \<and> n \<le> length xs" if "st_string_terminator xs = Some n" for n
    using that find_subsequence_append [of xs "[27, 92]" _ ys] by (auto simp: st_string_terminator_def)
  have bel: "position (\<lambda>b. b = 7) (xs @ ys) = Some i \<and> i < length xs" if "position (\<lambda>b. b = 7) xs = Some i" for i
    using that position_append position_Some by blast
  have late: "length xs < m" if "st_string_terminator xs = None" "st_string_terminator (xs @ ys) = Some m" for m
    using that find_subsequence_none_append [of xs ys] by (auto simp: st_string_terminator_def)
  have late_bel: "length xs \<le> i" if "position (\<lambda>b. b = 7) xs = None" "position (\<lambda>b. b = 7) (xs @ ys) = Some i" for i
  proof (rule ccontr)
    assume "\<not> length xs \<le> i"
    then have "(xs @ ys) ! i \<in> set xs" by (simp add: nth_append)
    moreover have "(xs @ ys) ! i = 7" using position_Some [OF that(2)] by simp
    ultimately show False using that(1) by (auto simp: position_None)
  qed
  show ?thesis
  proof (cases family)
    case Osc
    have a: "osc_string_terminator xs = Some n" using assms Osc by (simp add: control_string_terminator_for_family_def)
    have "osc_string_terminator (xs @ ys) = Some n \<and> 0 < n \<and> n \<le> length xs"
    proof (cases "st_string_terminator xs")
      case None
      then obtain i where i: "position (\<lambda>b. b = 7) xs = Some i" "n = i + 1"
        using a by (auto simp: osc_string_terminator_def split: option.splits)
      then show ?thesis
        using bel [OF i(1)] late [OF None] by (fastforce simp: osc_string_terminator_def min_def split: option.splits)
    next
      case (Some k)
      note k = st [OF Some]
      show ?thesis
      proof (cases "position (\<lambda>b. b = 7) xs")
        case None
        then have "n = k" using a Some by (simp add: osc_string_terminator_def)
        then show ?thesis
          using k late_bel [OF None] by (fastforce simp: osc_string_terminator_def min_def split: option.splits)
      next
        case (Some i)
        then show ?thesis using a k bel [OF Some] \<open>st_string_terminator xs = Some k\<close>
          by (auto simp: osc_string_terminator_def)
      qed
    qed
    with Osc show ?thesis by (simp add: control_string_terminator_for_family_def)
  next
    case StTerminated
    with assms st show ?thesis by (simp add: control_string_terminator_for_family_def)
  qed (use assms in \<open>simp_all add: control_string_terminator_for_family_def\<close>)
qed

lemma first_char_append:
  assumes "first_complete_utf8_char_len xs = Some n"
  shows "first_complete_utf8_char_len (xs @ ys) = Some n \<and> 0 < n \<and> n \<le> length xs"
proof -
  obtain b r where x: "xs = b # r" using assms by (cases xs) (auto simp: first_complete_utf8_char_len_def)
  have w: "utf8_char_width b = Some n" "n \<le> length xs" "from_utf8 (take n xs) \<noteq> None"
    using assms by (auto simp: first_complete_utf8_char_len_def x split: option.splits if_splits)
  have "0 < n" using w(1) by (auto simp: utf8_char_width_def split: if_splits)
  moreover have "take n (xs @ ys) = take n xs" using w(2) by simp
  ultimately show ?thesis using w by (simp add: first_complete_utf8_char_len_def x)
qed

lemma csi_final_append:
  "find_csi_final xs P = Some n \<Longrightarrow> find_csi_final (xs @ ys) P = Some n \<and> 2 < n \<and> n \<le> length xs"
proof -
  assume "find_csi_final xs P = Some n"
  then obtain i where i: "position P (drop 2 xs) = Some i" "n = i + 3" by (auto simp: find_csi_final_def)
  then have "i < length (drop 2 xs)" using position_Some by blast
  moreover from this have "drop 2 (xs @ ys) = drop 2 xs @ ys" by simp
  ultimately show ?thesis using i position_append [OF i(1), of ys] by (simp add: find_csi_final_def)
qed

text \<open>
  A complete escape sequence has its length whatever follows. The cases follow the first bytes; a
  buffer that is still a proper prefix of one of the longer introducers is never complete.
\<close>

definition doubled_default_mouse :: "u8 list \<Rightarrow> bool" where
  "doubled_default_mouse buffer \<longleftrightarrow>
     7 \<le> length buffer \<and> prefix [27, 27, 91, 77] buffer \<and> parse_default_mouse (take 6 (tl buffer)) \<noteq> None"

lemma complete_double:
  "complete_escape_sequence_len (27 # 27 # r) =
     (case doubled_mouse (27 # 27 # r) of
        None \<Rightarrow> None
      | Some mouse \<Rightarrow>
          if mouse \<or> doubled_default_mouse (27 # 27 # r) then Some 1
          else map_option Suc (complete_escape_sequence_len (27 # r)))"
  by (subst complete_escape_sequence_len.simps) (auto simp: doubled_default_mouse_def split: option.splits)

lemma complete_csi:
  "complete_escape_sequence_len (27 # 91 # r) =
     (case r of
        [] \<Rightarrow> None
      | x # _ \<Rightarrow>
          if x = 60 then find_csi_final (27 # 91 # r) mouse_final
          else if x = 77 then (if 4 \<le> length r then Some 6 else None)
          else find_csi_final (27 # 91 # r) csi_final)"
  by (subst complete_escape_sequence_len.simps)
    (auto simp: doubled_mouse_def find_csi_final_def split: list.splits)

lemma complete_other:
  "b \<noteq> 27 \<Longrightarrow> b \<noteq> 91 \<Longrightarrow> complete_escape_sequence_len (27 # b # r) =
     (case control_string (27 # b # r) of
        Some (Complete len _) \<Rightarrow> Some len
      | Some (Incomplete _) \<Rightarrow> None
      | None \<Rightarrow> if b = 79 then (if r = [] then None else Some 3) else map_option Suc (first_complete_utf8_char_len (b # r)))"
  by (subst complete_escape_sequence_len.simps)
    (cases r; auto simp: doubled_mouse_def split: option.splits control_string_state.splits)

lemma complete_short: "complete_escape_sequence_len [] = None" "complete_escape_sequence_len [b] = None"
  by (simp_all add: complete_escape_sequence_len.simps)

lemma complete_csi_append:
  assumes "complete_escape_sequence_len (27 # 91 # r) = Some n"
  shows "complete_escape_sequence_len (27 # 91 # r @ ys) = Some n \<and> 2 < n \<and> n \<le> length r + 2"
proof -
  obtain x t where r: "r = x # t" using assms by (cases r) (auto simp: complete_csi)
  show ?thesis
    using assms csi_final_append [of "27 # 91 # r" mouse_final n ys] csi_final_append [of "27 # 91 # r" csi_final n ys]
    unfolding complete_csi r by (auto split: if_splits)
qed

lemma complete_other_append:
  assumes "b \<noteq> 27" "b \<noteq> 91" "complete_escape_sequence_len (27 # b # r) = Some n"
  shows "complete_escape_sequence_len (27 # b # r @ ys) = Some n \<and> 0 < n \<and> n \<le> length r + 2"
proof (cases "control_string (27 # b # r)")
  case None
  then have "control_string (27 # b # r @ ys) = None" by (auto simp: control_string_def split: if_splits)
  then show ?thesis
    using assms None first_char_append [of "b # r" _ ys]
    by (auto simp: complete_other [OF assms(1,2)] Suc_le_eq split: if_splits)
next
  case (Some cs)
  then obtain family where f: "cs = Complete n family" "control_string_terminator_for_family (27 # b # r) family = Some n"
    using assms by (auto simp: complete_other [OF assms(1,2)] control_string_def split: control_string_state.splits option.splits if_splits)
  have t: "control_string_terminator_for_family (27 # b # r @ ys) family = Some n" "0 < n" "n \<le> length r + 2"
    using terminator_append [OF f(2), of ys] by simp_all
  have "control_string (27 # b # r @ ys) = Some (Complete n family)"
    using Some f t(1) by (auto simp: control_string_def split: if_splits option.splits)
  then show ?thesis using t by (simp add: complete_other [OF assms(1,2)])
qed

text \<open>Two escapes: the tests for a mouse report do not change once the rest is complete.\<close>

lemma doubled_mouse_append:
  assumes "doubled_mouse (27 # 27 # r) = Some m" "m \<or> complete_escape_sequence_len (27 # r) \<noteq> None"
  shows "doubled_mouse (27 # 27 # r @ ys) = Some m"
proof (cases "prefix [27, 27, 91, 60] (27 # 27 # r)")
  case True
  then obtain t where r: "r = 91 # 60 # t" by (auto simp: prefix_def)
  obtain n where n: "find_csi_final (27 # r) mouse_final = Some n"
    using assms by (cases "find_csi_final (27 # r) mouse_final") (auto simp: doubled_mouse_def r complete_csi)
  have f: "find_csi_final (27 # r @ ys) mouse_final = Some n" "n \<le> length (27 # r)"
    using csi_final_append [OF n, of ys] by simp_all
  have "take n (27 # r @ ys) = take n (27 # r)" using f(2) by (cases n) simp_all
  then show ?thesis using assms(1) n f(1) r by (simp add: doubled_mouse_def)
next
  case False
  then have m: "\<not> m" using assms(1) by (auto simp: doubled_mouse_def)
  have "\<not> prefix [27, 27, 91, 60] (27 # 27 # r @ ys)"
  proof
    assume p: "prefix [27, 27, 91, 60] (27 # 27 # r @ ys)"
    show False
    proof (cases r)
      case (Cons x t)
      then have "x = 91" "t = []" using p False by (cases t; auto)+
      then show ?thesis using assms(2) m Cons by (simp add: complete_csi find_csi_final_def)
    qed (use assms(2) m in \<open>simp add: complete_short\<close>)
  qed
  with m show ?thesis by (simp add: doubled_mouse_def)
qed

lemma doubled_default_mouse_append:
  assumes "doubled_default_mouse (27 # 27 # r) \<or> complete_escape_sequence_len (27 # r) \<noteq> None"
  shows "doubled_default_mouse (27 # 27 # r @ ys) = doubled_default_mouse (27 # 27 # r)"
proof (cases "5 \<le> length r")
  case True
  then have "take 6 (27 # r @ ys) = take 6 (27 # r)" by (simp add: take_Cons')
  moreover have "prefix [27, 27, 91, 77] (27 # 27 # r @ ys) = prefix [27, 27, 91, 77] (27 # 27 # r)"
    using prefix_more [of "[27, 27, 91, 77]" "27 # 27 # r" ys] True by simp
  ultimately show ?thesis using True by (simp add: doubled_default_mouse_def)
next
  case False
  then have c: "complete_escape_sequence_len (27 # r) \<noteq> None" "\<not> doubled_default_mouse (27 # 27 # r)"
    using assms by (auto simp: doubled_default_mouse_def)
  have "\<not> prefix [27, 27, 91, 77] (27 # 27 # r @ ys)"
  proof
    assume p: "prefix [27, 27, 91, 77] (27 # 27 # r @ ys)"
    then consider "r = []" | "r = [91]" | t where "r = 91 # 77 # t" by (cases r; cases "tl r") auto
    then show False using c(1) False by cases (auto simp: complete_short complete_csi find_csi_final_def)
  qed
  with c(2) show ?thesis by (simp add: doubled_default_mouse_def)
qed

lemma complete_escape_append:
  "complete_escape_sequence_len (27 # r) = Some n \<Longrightarrow>
     complete_escape_sequence_len (27 # r @ ys) = Some n \<and> 0 < n \<and> n \<le> length r + 1"
proof (induction r arbitrary: n)
  case Nil
  then show ?case by (simp add: complete_short)
next
  case (Cons b r)
  consider "b = 27" | "b = 91" | "b \<noteq> 27" "b \<noteq> 91" by blast
  then show ?case
  proof cases
    case 1
    obtain m where m: "doubled_mouse (27 # 27 # r) = Some m"
      using Cons.prems 1 by (auto simp: complete_double split: option.splits)
    show ?thesis
    proof (cases "m \<or> doubled_default_mouse (27 # 27 # r)")
      case True
      then have "n = 1" using Cons.prems 1 m by (simp add: complete_double)
      show ?thesis
      proof (cases m)
        case True
        then show ?thesis using doubled_mouse_append [OF m, of ys] 1 \<open>n = 1\<close> by (simp add: complete_double)
      next
        case False
        then have d: "doubled_default_mouse (27 # 27 # r)" using True by simp
        then have "\<not> prefix [27, 27, 91, 60] (27 # 27 # r @ ys)" by (auto simp: doubled_default_mouse_def prefix_def)
        then have "doubled_mouse (27 # 27 # r @ ys) = Some False" by (simp add: doubled_mouse_def)
        then show ?thesis using doubled_default_mouse_append [of r ys] d 1 \<open>n = 1\<close> by (simp add: complete_double)
      qed
    next
      case False
      then obtain k where k: "complete_escape_sequence_len (27 # r) = Some k" "n = Suc k"
        using Cons.prems 1 m by (auto simp: complete_double)
      have c: "complete_escape_sequence_len (27 # r) \<noteq> None" using k by simp
      show ?thesis
        using Cons.IH [OF k(1)] False 1 k doubled_mouse_append [OF m disjI2 [OF c], of ys]
          doubled_default_mouse_append [OF disjI2 [OF c], of ys]
        by (simp add: complete_double)
    qed
  next
    case 2
    then show ?thesis using Cons.prems complete_csi_append [of r n ys] by simp
  next
    case 3
    then show ?thesis using Cons.prems complete_other_append [of b r n ys] by simp
  qed
qed

lemma paste_prefix_incomplete:
  assumes "k < 6"
  shows "complete_escape_sequence_len (take k bracketed_paste_start) = None"
proof -
  have "k \<in> set [0..<6]" using assms by simp
  then show ?thesis
    by (auto simp: upt_rec bracketed_paste_start_def B_def complete_short complete_csi find_csi_final_def csi_final_def)
qed

lemma not_paste_append:
  assumes "\<not> prefix bracketed_paste_start xs" "complete_escape_sequence_len xs = Some n"
  shows "\<not> prefix bracketed_paste_start (xs @ ys)"
proof
  assume p: "prefix bracketed_paste_start (xs @ ys)"
  have len: "length bracketed_paste_start = 6" by (simp add: bracketed_paste_start_def B_def)
  have short: "length xs < 6" using prefix_more [of bracketed_paste_start xs ys] p assms(1) len by (cases "6 \<le> length xs") simp_all
  then have "xs = take (length xs) bracketed_paste_start" using p len by (auto simp: prefix_def append_eq_append_conv_if)
  with paste_prefix_incomplete [OF short] assms(2) show False by simp
qed

lemma extract_bounds: "extract_one_event upper xs = Event e n \<Longrightarrow> 0 < n \<and> n \<le> length xs"
proof -
  assume e: "extract_one_event upper xs = Event e n"
  have ne: "xs \<noteq> []" using e by (auto simp: extract_one_event_def)
  consider "prefix bracketed_paste_start xs" | "\<not> prefix bracketed_paste_start xs" "hd xs = 27"
    | "\<not> prefix bracketed_paste_start xs" "hd xs \<noteq> 27" by blast
  then show ?thesis
  proof cases
    case 1
    then obtain i where "find_subsequence xs bracketed_paste_end = Some i" "n = i + 6"
      using e ne by (auto simp: extract_one_event_def split: option.splits)
    then show ?thesis using find_subsequence_append [of xs bracketed_paste_end i "[]"] by (simp add: bracketed_paste_end_def B_def)
  next
    case 2
    then obtain r where r: "xs = 27 # r" using ne by (cases xs) auto
    obtain k where k: "complete_escape_sequence_len xs = Some k"
      using e 2 ne by (auto simp: extract_one_event_def split: option.splits)
    have b: "0 < k" "k \<le> length xs" using complete_escape_append [of r k "[]"] k r by simp_all
    have "n = k"
      using e 2 k ne by (auto simp: extract_one_event_def Let_def split: option.splits if_splits)
    with b show ?thesis by simp
  next
    case 3
    then obtain k where k: "first_complete_utf8_char_len xs = Some k" "n = k"
      using e ne by (auto simp: extract_one_event_def split: option.splits)
    then show ?thesis using first_char_append [OF k(1), of "[]"] by simp
  qed
qed

lemma extract_append:
  assumes "extract_one_event upper xs \<noteq> Pending"
  shows "extract_one_event upper (xs @ ys) = extract_one_event upper xs"
proof -
  have ne: "xs \<noteq> []" using assms by (auto simp: extract_one_event_def)
  consider "prefix bracketed_paste_start xs" | "\<not> prefix bracketed_paste_start xs" "hd xs = 27"
    | "\<not> prefix bracketed_paste_start xs" "hd xs \<noteq> 27" by blast
  then show ?thesis
  proof cases
    case 1
    then obtain i where i: "find_subsequence xs bracketed_paste_end = Some i"
      using assms ne by (auto simp: extract_one_event_def split: option.splits)
    have f: "find_subsequence (xs @ ys) bracketed_paste_end = Some i" "i + 6 \<le> length xs"
      using find_subsequence_append [OF i, of ys] by (simp_all add: bracketed_paste_end_def B_def)
    have "take (i - 6) (drop 6 (xs @ ys)) = take (i - 6) (drop 6 xs)" using f(2) by simp
    moreover have "prefix bracketed_paste_start (xs @ ys)" using 1 by (rule prefix_prefix)
    ultimately show ?thesis using 1 i f(1) ne by (simp add: extract_one_event_def del: take_append drop_append)
  next
    case 2
    then obtain r where r: "xs = 27 # r" using ne by (cases xs) auto
    obtain k where k: "complete_escape_sequence_len xs = Some k"
      using assms 2 ne by (auto simp: extract_one_event_def split: option.splits)
    have c: "complete_escape_sequence_len (xs @ ys) = Some k" "k \<le> length xs"
      using complete_escape_append [of r k ys] k r by simp_all
    have "take k (xs @ ys) = take k xs" using c(2) by simp
    then show ?thesis using 2 ne k c(1) not_paste_append [OF 2(1) k, of ys]
      by (simp add: extract_one_event_def Let_def del: take_append)
  next
    case 3
    have "\<not> prefix bracketed_paste_start (xs @ ys)" using 3 ne by (cases xs) (auto simp: bracketed_paste_start_def)
    moreover obtain k where k: "first_complete_utf8_char_len xs = Some k"
      using assms 3 ne by (auto simp: extract_one_event_def split: option.splits)
    moreover have "first_complete_utf8_char_len (xs @ ys) = Some k" "take k (xs @ ys) = take k xs"
      using first_char_append [OF k, of ys] by simp_all
    ultimately show ?thesis using 3 ne by (simp add: extract_one_event_def del: take_append cong: option.case_cong)
  qed
qed

section \<open>The framer\<close>

record raw_input_byte_framer =
  fr_buffer :: "u8 list"
  fr_discard_until :: "control_string_family option"
  fr_discarded_tail_bytes :: nat
  fr_lone_escape_recently_flushed :: bool
  fr_host_color_replies_awaited :: nat
  fr_host_cell_size_replies_awaited :: nat
  fr_host_appearance_reply_awaited :: bool
  fr_held_pending_host_reply_esc :: bool
  fr_host_color_scheme_change_tracking :: bool
  fr_host_appearance_query_on_focus :: bool
  fr_split_coalesced_escape :: bool

definition default_framer :: raw_input_byte_framer where
  "default_framer = \<lparr>fr_buffer = [], fr_discard_until = None, fr_discarded_tail_bytes = 0,
     fr_lone_escape_recently_flushed = False, fr_host_color_replies_awaited = 0, fr_host_cell_size_replies_awaited = 0,
     fr_host_appearance_reply_awaited = False, fr_held_pending_host_reply_esc = False,
     fr_host_color_scheme_change_tracking = False, fr_host_appearance_query_on_focus = False,
     fr_split_coalesced_escape = False\<rparr>"

definition with_host_input_policy :: "bool \<Rightarrow> raw_input_byte_framer" where
  "with_host_input_policy preserve_legacy_doubled_escape_input =
     default_framer\<lparr>fr_split_coalesced_escape := \<not> preserve_legacy_doubled_escape_input\<rparr>"

definition for_host_input :: raw_input_byte_framer where
  "for_host_input = with_host_input_policy False"

definition host_color_query_sent :: "raw_input_byte_framer \<Rightarrow> raw_input_byte_framer" where
  "host_color_query_sent s = s\<lparr>fr_host_color_replies_awaited := 258, fr_held_pending_host_reply_esc := False\<rparr>"

definition host_appearance_query_sent :: "raw_input_byte_framer \<Rightarrow> raw_input_byte_framer" where
  "host_appearance_query_sent s = s\<lparr>fr_host_appearance_reply_awaited := True, fr_held_pending_host_reply_esc := False\<rparr>"

definition host_cell_size_query_sent :: "raw_input_byte_framer \<Rightarrow> raw_input_byte_framer" where
  "host_cell_size_query_sent s = s\<lparr>fr_host_cell_size_replies_awaited := 1, fr_held_pending_host_reply_esc := False\<rparr>"

definition enable_host_color_scheme_change_tracking :: "raw_input_byte_framer \<Rightarrow> raw_input_byte_framer" where
  "enable_host_color_scheme_change_tracking s = s\<lparr>fr_host_color_scheme_change_tracking := True\<rparr>"

definition enable_host_appearance_query_on_focus :: "raw_input_byte_framer \<Rightarrow> raw_input_byte_framer" where
  "enable_host_appearance_query_on_focus s = s\<lparr>fr_host_appearance_query_on_focus := True\<rparr>"

definition awaiting_host_reply :: "raw_input_byte_framer \<Rightarrow> bool" where
  "awaiting_host_reply s \<longleftrightarrow> 0 < fr_host_color_replies_awaited s \<or> 0 < fr_host_cell_size_replies_awaited s \<or>
     fr_host_appearance_reply_awaited s"

definition has_pending_input :: "raw_input_byte_framer \<Rightarrow> bool" where
  "has_pending_input s \<longleftrightarrow> fr_buffer s \<noteq> []"

definition has_pending_lone_escape :: "raw_input_byte_framer \<Rightarrow> bool" where
  "has_pending_lone_escape s \<longleftrightarrow> fr_buffer s = [27]"

definition digit_or_semicolon :: "u8 \<Rightarrow> bool" where
  "digit_or_semicolon b \<longleftrightarrow> 48 \<le> b \<and> b \<le> 57 \<or> b = 59"

definition starts_with_incomplete_sgr_mouse_sequence :: "u8 list \<Rightarrow> bool" where
  "starts_with_incomplete_sgr_mouse_sequence buffer \<longleftrightarrow>
     prefix (27 # B ''[<'') buffer \<and> list_all digit_or_semicolon (drop 3 buffer)"

definition starts_with_incomplete_default_mouse_sequence :: "u8 list \<Rightarrow> bool" where
  "starts_with_incomplete_default_mouse_sequence buffer \<longleftrightarrow> prefix (27 # B ''[M'') buffer \<and> length buffer < 6"

definition has_pending_incomplete_mouse_sequence :: "raw_input_byte_framer \<Rightarrow> bool" where
  "has_pending_incomplete_mouse_sequence s \<longleftrightarrow> fr_discard_until s = None \<and>
     (starts_with_incomplete_sgr_mouse_sequence (fr_buffer s) \<or> starts_with_incomplete_default_mouse_sequence (fr_buffer s))"

definition input_flush_timeout_ms :: "raw_input_byte_framer \<Rightarrow> nat" where
  "input_flush_timeout_ms s = (if has_pending_incomplete_mouse_sequence s then 150 else 10)"

text \<open>The tail of a mouse report whose escape character was already passed on.\<close>

definition max_orphaned_sgr_mouse_tail_bytes :: nat where
  "max_orphaned_sgr_mouse_tail_bytes = 32"

definition starts_with_incomplete_orphaned_sgr_mouse_tail :: "u8 list \<Rightarrow> bool" where
  "starts_with_incomplete_orphaned_sgr_mouse_tail buffer \<longleftrightarrow>
     length buffer \<le> max_orphaned_sgr_mouse_tail_bytes \<and>
     (length buffer < 3 \<and> prefix buffer (B ''[<'') \<or> prefix (B ''[<'') buffer \<and> list_all digit_or_semicolon (drop 2 buffer))"

definition discard_complete_orphaned_sgr_mouse_tail :: "u8 list \<Rightarrow> u8 list option" where
  "discard_complete_orphaned_sgr_mouse_tail buffer =
     (if \<not> prefix (B ''[<'') buffer then None
      else case position mouse_final (take max_orphaned_sgr_mouse_tail_bytes buffer) of
        None \<Rightarrow> None
      | Some e \<Rightarrow>
          (case Option.bind (from_utf8 (27 # take (e + 1) buffer)) parse_sgr_mouse of
             None \<Rightarrow> None
           | Some _ \<Rightarrow> Some (drop (e + 1) buffer)))"

definition max_discarded_control_tail_bytes :: nat where
  "max_discarded_control_tail_bytes = 128"

text \<open>
  A tail that is thrown away: bytes that belong to it are skipped, up to a bound. \<open>Inl\<close> is the
  buffer after the end of the tail, \<open>Inr\<close> the buffer and the count when the tail may go on.
\<close>

definition discard_tail :: "(u8 \<Rightarrow> bool) \<Rightarrow> (u8 \<Rightarrow> bool) \<Rightarrow> u8 list \<Rightarrow> nat \<Rightarrow> u8 list + u8 list \<times> nat" where
  "discard_tail keep final buffer discarded =
     (let inspected = min (length buffer) (max_discarded_control_tail_bytes - discarded)
      in case position (\<lambda>b. \<not> keep b) (take inspected buffer) of
           Some i \<Rightarrow> Inl (drop (if final (buffer ! i) then i + 1 else i) buffer)
         | None \<Rightarrow>
             if max_discarded_control_tail_bytes \<le> discarded + inspected then Inl (drop inspected buffer)
             else Inr (drop inspected buffer, discarded + inspected))"

definition discard_orphaned_sgr_mouse_tail :: "u8 list \<Rightarrow> nat \<Rightarrow> u8 list + u8 list \<times> nat" where
  "discard_orphaned_sgr_mouse_tail = discard_tail digit_or_semicolon mouse_final"

definition discard_host_reply_csi_tail :: "u8 list \<Rightarrow> nat \<Rightarrow> u8 list + u8 list \<times> nat" where
  "discard_host_reply_csi_tail = discard_tail (\<lambda>b. 32 \<le> b \<and> b \<le> 63) csi_final"

definition note_event :: "raw_input_event \<Rightarrow> raw_input_byte_framer \<Rightarrow> raw_input_byte_framer" where
  "note_event event s =
     (case event of
        HostDefaultColor _ _ \<Rightarrow> s\<lparr>fr_host_color_replies_awaited := fr_host_color_replies_awaited s - 1\<rparr>
      | HostPaletteColors _ \<Rightarrow> s\<lparr>fr_host_color_replies_awaited := fr_host_color_replies_awaited s - 1\<rparr>
      | HostCellSizeReport _ _ \<Rightarrow> s\<lparr>fr_host_cell_size_replies_awaited := fr_host_cell_size_replies_awaited s - 1\<rparr>
      | OuterFocusGained \<Rightarrow> if fr_host_appearance_query_on_focus s then host_appearance_query_sent s else s
      | HostColorSchemeChanged _ \<Rightarrow>
          (let s1 = s\<lparr>fr_host_appearance_reply_awaited := False\<rparr>
           in if fr_host_color_scheme_change_tracking s then host_color_query_sent s1 else s1)
      | _ \<Rightarrow> s)\<lparr>fr_held_pending_host_reply_esc := False\<rparr>"

datatype drain_result = StepPanic | Stop raw_input_byte_framer | Continue "u8 list list" raw_input_byte_framer

definition end_discard :: "u8 list \<Rightarrow> raw_input_byte_framer \<Rightarrow> raw_input_byte_framer" where
  "end_discard rest s = s\<lparr>fr_buffer := rest, fr_discard_until := None, fr_discarded_tail_bytes := 0\<rparr>"

definition discard_step :: "u8 list + u8 list \<times> nat \<Rightarrow> raw_input_byte_framer \<Rightarrow> drain_result" where
  "discard_step result s =
     (case result of
        Inl rest \<Rightarrow> Continue [] (end_discard rest s)
      | Inr (rest, n) \<Rightarrow> Stop (s\<lparr>fr_buffer := rest, fr_discarded_tail_bytes := n\<rparr>))"

definition drain_body :: "(nat \<Rightarrow> bool) \<Rightarrow> raw_input_byte_framer \<Rightarrow> drain_result" where
  "drain_body upper s =
     (let buffer = fr_buffer s
      in case fr_discard_until s of
        Some family \<Rightarrow>
          if family = OrphanedSgrMouseTail then discard_step (discard_orphaned_sgr_mouse_tail buffer (fr_discarded_tail_bytes s)) s
          else if family = HostReplyCsi then discard_step (discard_host_reply_csi_tail buffer (fr_discarded_tail_bytes s)) s
          else (case control_string_terminator_for_family buffer family of
             None \<Rightarrow> Stop s
           | Some n \<Rightarrow> Continue [] (end_discard (drop n buffer) s))
      | None \<Rightarrow>
          if fr_split_coalesced_escape s \<and> prefix [27, 27] buffer then Continue [[27]] (s\<lparr>fr_buffer := tl buffer\<rparr>)
          else (case extract_one_event upper buffer of
             Panicked \<Rightarrow> StepPanic
           | Pending \<Rightarrow> Stop s
           | Event event n \<Rightarrow> Continue [take n buffer] ((note_event event s)\<lparr>fr_buffer := drop n buffer\<rparr>)))"

definition drain_step :: "(nat \<Rightarrow> bool) \<Rightarrow> raw_input_byte_framer \<Rightarrow> drain_result" where
  "drain_step upper s =
     (if fr_lone_escape_recently_flushed s then
        if starts_with_incomplete_orphaned_sgr_mouse_tail (fr_buffer s) then Stop s
        else (case discard_complete_orphaned_sgr_mouse_tail (fr_buffer s) of
           Some rest \<Rightarrow> Continue [] (s\<lparr>fr_buffer := rest, fr_lone_escape_recently_flushed := False\<rparr>)
         | None \<Rightarrow> drain_body upper (s\<lparr>fr_lone_escape_recently_flushed := False\<rparr>))
      else drain_body upper s)"

definition drain_size :: "raw_input_byte_framer \<Rightarrow> nat" where
  "drain_size s = 2 * length (fr_buffer s) + (if fr_discard_until s = None then 0 else 1)"

lemma note_event_fields [simp]:
  "fr_discard_until (note_event e s) = fr_discard_until s" "fr_buffer (note_event e s) = fr_buffer s"
  "fr_discarded_tail_bytes (note_event e s) = fr_discarded_tail_bytes s"
  "fr_split_coalesced_escape (note_event e s) = fr_split_coalesced_escape s"
  "fr_lone_escape_recently_flushed (note_event e s) = fr_lone_escape_recently_flushed s"
  by (simp_all add: note_event_def host_appearance_query_sent_def host_color_query_sent_def Let_def split: raw_input_event.splits)

lemma discard_tail_shorter: "discard_tail keep final b n = Inl rest \<Longrightarrow> length rest \<le> length b"
  by (auto simp: discard_tail_def Let_def split: option.splits if_splits)

lemma drain_body_shrinks: "drain_body upper s = Continue c s' \<Longrightarrow> drain_size s' < drain_size s"
proof -
  assume a: "drain_body upper s = Continue c s'"
  show ?thesis
  proof (cases "fr_discard_until s")
    case None
    show ?thesis
    proof (cases "fr_split_coalesced_escape s \<and> prefix [27, 27] (fr_buffer s)")
      case True
      then have "fr_buffer s \<noteq> []" by auto
      then show ?thesis using a None True by (auto simp: drain_body_def drain_size_def)
    next
      case False
      then obtain e n where e: "extract_one_event upper (fr_buffer s) = Event e n"
        "s' = (note_event e s)\<lparr>fr_buffer := drop n (fr_buffer s)\<rparr>"
        using a None by (auto simp: drain_body_def Let_def split: extracted.splits)
      then show ?thesis using extract_bounds [OF e(1)] None by (simp add: drain_size_def) linarith
    qed
  next
    case (Some family)
    then obtain rest where "s' = end_discard rest s" "length rest \<le> length (fr_buffer s)"
      using a
      by (auto simp: drain_body_def discard_step_def Let_def discard_orphaned_sgr_mouse_tail_def discard_host_reply_csi_tail_def
          split: if_splits sum.splits option.splits dest: discard_tail_shorter)
    then show ?thesis using Some by (simp add: drain_size_def end_discard_def)
  qed
qed

lemma drain_step_shrinks: "drain_step upper s = Continue c s' \<Longrightarrow> drain_size s' < drain_size s"
proof -
  assume a: "drain_step upper s = Continue c s'"
  consider "drain_body upper (s\<lparr>fr_lone_escape_recently_flushed := False\<rparr>) = Continue c s'" | "drain_body upper s = Continue c s'"
    | rest where "discard_complete_orphaned_sgr_mouse_tail (fr_buffer s) = Some rest"
        "s' = s\<lparr>fr_buffer := rest, fr_lone_escape_recently_flushed := False\<rparr>"
    using a by (auto simp: drain_step_def split: if_splits option.splits)
  then show ?thesis
  proof cases
    case 1
    then show ?thesis using drain_body_shrinks [OF 1] by (simp add: drain_size_def)
  next
    case 3
    then have "length rest < length (fr_buffer s)"
      by (auto simp: discard_complete_orphaned_sgr_mouse_tail_def prefix_def B_def split: if_splits option.splits)
    then show ?thesis using 3(2) by (simp add: drain_size_def)
  qed (use drain_body_shrinks in blast)
qed

function drain_available_chunks ::
  "(nat \<Rightarrow> bool) \<Rightarrow> raw_input_byte_framer \<Rightarrow> (u8 list list \<times> raw_input_byte_framer) option" where
  "drain_available_chunks upper s =
     (case drain_step upper s of
        StepPanic \<Rightarrow> None
      | Stop s' \<Rightarrow> Some ([], s')
      | Continue chunks s' \<Rightarrow> map_option (\<lambda>(rest, t). (chunks @ rest, t)) (drain_available_chunks upper s'))"
  by pat_completeness auto

termination
  by (relation "measure (\<lambda>(_, s). drain_size s)") (auto dest: drain_step_shrinks)

declare drain_available_chunks.simps [simp del]

definition push_bytes ::
  "(nat \<Rightarrow> bool) \<Rightarrow> u8 list \<Rightarrow> raw_input_byte_framer \<Rightarrow> (u8 list list \<times> raw_input_byte_framer) option" where
  "push_bytes upper data s = drain_available_chunks upper (s\<lparr>fr_buffer := fr_buffer s @ data\<rparr>)"

section \<open>Framing does not depend on how the input is split\<close>

lemma position_append_none: "position P xs = None \<Longrightarrow> position P (xs @ ys) = map_option (\<lambda>i. length xs + i) (position P ys)"
  by (cases "position P ys"; induction xs) (auto split: if_splits)

lemma discard_tail_done_append:
  assumes "discard_tail keep final a n = Inl rest"
  shows "discard_tail keep final (a @ b) n = Inl (rest @ b)"
proof -
  let ?R = "max_discarded_control_tail_bytes - n"
  let ?i = "min (length a) ?R" and ?j = "min (length (a @ b)) ?R"
  have t: "take ?j (a @ b) = take ?i a @ take (?j - length a) b" by (cases "length a \<le> ?R") auto
  show ?thesis
  proof (cases "position (\<lambda>b. \<not> keep b) (take ?i a)")
    case (Some k)
    have "position (\<lambda>b. \<not> keep b) (take ?j (a @ b)) = Some k" unfolding t by (rule position_append [OF Some])
    moreover have "k < length a" using position_Some [OF Some] by simp
    ultimately show ?thesis using assms Some by (auto simp: discard_tail_def Let_def nth_append)
  next
    case None
    then have r: "max_discarded_control_tail_bytes \<le> n + ?i" "rest = drop ?i a"
      using assms by (auto simp: discard_tail_def Let_def split: if_splits)
    then have "?R \<le> length a" by (auto simp: min_def split: if_splits)
    then have e: "?j = ?i" "take ?j (a @ b) = take ?i a" "drop ?j (a @ b) = drop ?i a @ b" by auto
    show ?thesis unfolding discard_tail_def Let_def e using None r by simp
  qed
qed

lemma discard_tail_more_append:
  assumes "discard_tail keep final a n = Inr (rest, m)"
  shows "rest = [] \<and> discard_tail keep final (a @ b) n = discard_tail keep final b m"
proof -
  let ?R = "max_discarded_control_tail_bytes - n"
  have p: "position (\<lambda>b. \<not> keep b) (take (min (length a) ?R) a) = None" and small: "n + min (length a) ?R < max_discarded_control_tail_bytes"
    and rest: "rest = drop (min (length a) ?R) a" and m: "m = n + min (length a) ?R"
    using assms by (auto simp: discard_tail_def Let_def split: option.splits if_splits)
  have len: "min (length a) ?R = length a" "m = n + length a" "length a < ?R" using small m by (auto simp: min_def split: if_splits)
  define k where "k = min (length b) (max_discarded_control_tail_bytes - m)"
  have j: "min (length (a @ b)) ?R = length a + k" using len by (auto simp: k_def min_def)
  have "position (\<lambda>b. \<not> keep b) (take (length a + k) (a @ b)) = map_option (\<lambda>i. length a + i) (position (\<lambda>b. \<not> keep b) (take k b))"
    using position_append_none [of "\<lambda>b. \<not> keep b" a "take k b"] p len(1) by simp
  then have "discard_tail keep final (a @ b) n = discard_tail keep final b m"
    unfolding discard_tail_def Let_def j k_def [symmetric] using len(2)
    by (auto simp: nth_append add.assoc split: option.splits)
  with rest len(1) show ?thesis by simp
qed

definition more_input :: "u8 list \<Rightarrow> raw_input_byte_framer \<Rightarrow> raw_input_byte_framer" where
  "more_input ys s = s\<lparr>fr_buffer := fr_buffer s @ ys\<rparr>"

lemma more_input_fields [simp]:
  "fr_buffer (more_input ys s) = fr_buffer s @ ys" "fr_discard_until (more_input ys s) = fr_discard_until s"
  "fr_discarded_tail_bytes (more_input ys s) = fr_discarded_tail_bytes s"
  "fr_split_coalesced_escape (more_input ys s) = fr_split_coalesced_escape s"
  "fr_lone_escape_recently_flushed (more_input ys s) = fr_lone_escape_recently_flushed s"
  by (simp_all add: more_input_def)

lemma note_event_more: "note_event e (more_input ys s) = more_input ys (note_event e s)"
  by (cases e) (simp_all add: note_event_def more_input_def host_appearance_query_sent_def host_color_query_sent_def Let_def)

lemma more_input_set [simp]: "(more_input ys s)\<lparr>fr_buffer := b\<rparr> = s\<lparr>fr_buffer := b\<rparr>"
  "more_input ys (s\<lparr>fr_buffer := b\<rparr>) = s\<lparr>fr_buffer := b @ ys\<rparr>"
  by (simp_all add: more_input_def)

lemma end_discard_more: "end_discard rest (more_input ys s) = end_discard rest s" "more_input ys (end_discard rest s) = end_discard (rest @ ys) s"
  by (simp_all add: end_discard_def more_input_def)

lemma no_split_append:
  assumes "\<not> (split \<and> prefix [27, 27] b)" "extract_one_event upper b \<noteq> Pending"
  shows "\<not> (split \<and> prefix [27, 27] (b @ ys))"
proof (cases "2 \<le> length b")
  case True
  then show ?thesis using assms(1) prefix_more [of "[27, 27]" b ys] by simp
next
  case False
  have "b \<noteq> []" using assms(2) by (auto simp: extract_one_event_def)
  with False obtain x where b: "b = [x]" by (cases b; cases "tl b") auto
  have "x \<noteq> 27"
    using assms(2) by (auto simp: b extract_one_event_def complete_short bracketed_paste_start_def B_def)
  with b show ?thesis by simp
qed

lemma discard_step_append:
  "case discard_step (discard_tail keep final (fr_buffer s) (fr_discarded_tail_bytes s)) s of
     StepPanic \<Rightarrow> False
   | Continue c s' \<Rightarrow>
       discard_step (discard_tail keep final (fr_buffer s @ ys) (fr_discarded_tail_bytes s)) (more_input ys s) = Continue c (more_input ys s')
   | Stop s' \<Rightarrow>
       fr_discard_until s' = fr_discard_until s \<and>
       discard_step (discard_tail keep final (fr_buffer s @ ys) (fr_discarded_tail_bytes s)) (more_input ys s) =
       discard_step (discard_tail keep final (fr_buffer s' @ ys) (fr_discarded_tail_bytes s')) (more_input ys s')"
proof (cases "discard_tail keep final (fr_buffer s) (fr_discarded_tail_bytes s)")
  case (Inl rest)
  then show ?thesis using discard_tail_done_append [OF Inl, of ys] by (simp add: discard_step_def end_discard_more)
next
  case (Inr rm)
  obtain rest m where rm: "rm = (rest, m)" by fastforce
  note r = discard_tail_more_append [OF Inr [unfolded rm], of ys]
  have stop: "discard_step (discard_tail keep final (fr_buffer s) (fr_discarded_tail_bytes s)) s =
      Stop (s\<lparr>fr_buffer := [], fr_discarded_tail_bytes := m\<rparr>)"
    using Inr rm r by (simp add: discard_step_def)
  have "discard_step res (more_input ys s) = discard_step res (more_input ys (s\<lparr>fr_buffer := [], fr_discarded_tail_bytes := m\<rparr>))" for res
    by (cases res) (auto simp: discard_step_def end_discard_def more_input_def)
  then show ?thesis unfolding stop drain_result.case using r by simp
qed

lemma drain_body_discards:
  assumes "\<And>t. fr_discard_until t = Some family \<Longrightarrow>
      drain_body upper t = discard_step (discard_tail keep final (fr_buffer t) (fr_discarded_tail_bytes t)) t"
    and f: "fr_discard_until s = Some family"
  shows "case drain_body upper s of
     StepPanic \<Rightarrow> drain_body upper (more_input ys s) = StepPanic
   | Continue c s' \<Rightarrow> drain_body upper (more_input ys s) = Continue c (more_input ys s')
   | Stop s' \<Rightarrow> drain_body upper (more_input ys s) = drain_body upper (more_input ys s')"
  using discard_step_append [where keep = keep and final = final and s = s and ys = ys] assms(1) [of s] assms(1) [of "more_input ys _"] f
  by (auto split: drain_result.splits)

lemma drain_body_append:
  "case drain_body upper s of
     StepPanic \<Rightarrow> drain_body upper (more_input ys s) = StepPanic
   | Continue c s' \<Rightarrow> drain_body upper (more_input ys s) = Continue c (more_input ys s')
   | Stop s' \<Rightarrow> drain_body upper (more_input ys s) = drain_body upper (more_input ys s')"
proof (cases "fr_discard_until s")
  case None
  show ?thesis
  proof (cases "fr_split_coalesced_escape s \<and> prefix [27, 27] (fr_buffer s)")
    case True
    then obtain r where "fr_buffer s = 27 # 27 # r" by (auto simp: prefix_def)
    with True None show ?thesis by (simp add: drain_body_def)
  next
    case False
    show ?thesis
    proof (cases "extract_one_event upper (fr_buffer s) = Pending")
      case True
      then show ?thesis using None False by (auto simp: drain_body_def Let_def)
    next
      case ev: False
      have same: "extract_one_event upper (fr_buffer s @ ys) = extract_one_event upper (fr_buffer s)" by (rule extract_append [OF ev])
      have "\<not> (fr_split_coalesced_escape s \<and> prefix [27, 27] (fr_buffer s @ ys))"
        using False ev by (rule no_split_append)
      then show ?thesis
        using None False ev same extract_bounds [of upper "fr_buffer s"]
        by (cases "extract_one_event upper (fr_buffer s)") (auto simp: drain_body_def Let_def note_event_more)
    qed
  qed
next
  case (Some family)
  show ?thesis
  proof (cases family)
    case Osc
    then show ?thesis
      using Some terminator_append [of "fr_buffer s" Osc _ ys]
      by (cases "control_string_terminator_for_family (fr_buffer s) Osc") (auto simp: drain_body_def Let_def end_discard_more)
  next
    case StTerminated
    then show ?thesis
      using Some terminator_append [of "fr_buffer s" StTerminated _ ys]
      by (cases "control_string_terminator_for_family (fr_buffer s) StTerminated") (auto simp: drain_body_def Let_def end_discard_more)
  next
    case HostReplyCsi
    then show ?thesis
      using Some by (intro drain_body_discards [of HostReplyCsi upper "\<lambda>b. 32 \<le> b \<and> b \<le> 63" csi_final])
        (simp_all add: drain_body_def discard_host_reply_csi_tail_def)
  next
    case OrphanedSgrMouseTail
    then show ?thesis
      using Some by (intro drain_body_discards [of OrphanedSgrMouseTail upper digit_or_semicolon mouse_final])
        (simp_all add: drain_body_def discard_orphaned_sgr_mouse_tail_def)
  qed
qed

lemma drain_step_plain: "\<not> fr_lone_escape_recently_flushed s \<Longrightarrow> drain_step upper s = drain_body upper s"
  by (simp add: drain_step_def)

lemma discard_step_keeps:
  "discard_step r s = Continue c s' \<Longrightarrow> fr_lone_escape_recently_flushed s' = fr_lone_escape_recently_flushed s"
  "discard_step r s = Stop s' \<Longrightarrow> fr_lone_escape_recently_flushed s' = fr_lone_escape_recently_flushed s"
  by (cases r; auto simp: discard_step_def end_discard_def)+

lemma drain_body_keeps:
  "drain_body upper s = Continue c s' \<Longrightarrow> fr_lone_escape_recently_flushed s' = fr_lone_escape_recently_flushed s"
  "drain_body upper s = Stop s' \<Longrightarrow> fr_lone_escape_recently_flushed s' = fr_lone_escape_recently_flushed s"
  by (auto simp: drain_body_def Let_def end_discard_def split: option.splits if_splits extracted.splits dest: discard_step_keeps)

lemma drain_keeps:
  "\<not> fr_lone_escape_recently_flushed s \<Longrightarrow> drain_available_chunks upper s = Some (c, s') \<Longrightarrow> \<not> fr_lone_escape_recently_flushed s'"
proof (induction upper s arbitrary: c rule: drain_available_chunks.induct)
  case (1 upper s)
  note p = drain_step_plain [OF "1.prems"(1), of upper]
  show ?case
  proof (cases "drain_step upper s")
    case (Stop t)
    then have "s' = t" using "1.prems"(2) by (simp add: drain_available_chunks.simps [of upper s])
    then show ?thesis using drain_body_keeps(2) [of upper s t] Stop p "1.prems"(1) by simp
  next
    case (Continue d t)
    then obtain c' where "drain_available_chunks upper t = Some (c', s')"
      using "1.prems"(2) by (auto simp: drain_available_chunks.simps [of upper s])
    moreover have "\<not> fr_lone_escape_recently_flushed t" using drain_body_keeps(1) [of upper s d t] Continue p "1.prems"(1) by simp
    ultimately show ?thesis using "1.IH" [OF Continue] by blast
  qed (use "1.prems"(2) in \<open>simp add: drain_available_chunks.simps [of upper s]\<close>)
qed

lemma drain_append:
  "\<not> fr_lone_escape_recently_flushed s \<Longrightarrow>
   drain_available_chunks upper (more_input ys s) =
     (case drain_available_chunks upper s of
        None \<Rightarrow> None
      | Some (c, t) \<Rightarrow> map_option (\<lambda>(d, u). (c @ d, u)) (drain_available_chunks upper (more_input ys t)))"
proof (induction upper s rule: drain_available_chunks.induct)
  case (1 upper s)
  note p = drain_step_plain [OF "1.prems", of upper] drain_step_plain [of "more_input ys s" upper]
  note a = drain_body_append [where upper = upper and s = s and ys = ys]
  show ?case
  proof (cases "drain_step upper s")
    case StepPanic
    then show ?thesis using a p "1.prems" by (simp add: drain_available_chunks.simps)
  next
    case (Stop t)
    then have t: "\<not> fr_lone_escape_recently_flushed t" using drain_body_keeps(2) [of upper s t] p "1.prems" by simp
    have "drain_step upper (more_input ys s) = drain_step upper (more_input ys t)"
      using a Stop p "1.prems" t drain_step_plain [of "more_input ys t" upper] by simp
    then have "drain_available_chunks upper (more_input ys s) = drain_available_chunks upper (more_input ys t)"
      by (simp add: drain_available_chunks.simps [of upper "more_input ys _"])
    then show ?thesis using Stop by (simp add: drain_available_chunks.simps [of upper s] case_prod_beta option.map_id)
  next
    case (Continue c t)
    then have t: "\<not> fr_lone_escape_recently_flushed t" using drain_body_keeps(1) [of upper s c t] p "1.prems" by simp
    have "drain_step upper (more_input ys s) = Continue c (more_input ys t)" using a Continue p "1.prems" by simp
    then have "drain_available_chunks upper (more_input ys s) =
        map_option (\<lambda>(d, u). (c @ d, u)) (drain_available_chunks upper (more_input ys t))"
      by (simp add: drain_available_chunks.simps [of upper "more_input ys s"])
    then show ?thesis
      unfolding "1.IH" [OF Continue t] using Continue
      by (cases "drain_available_chunks upper t")
        (auto simp: drain_available_chunks.simps [of upper s] option.map_comp comp_def case_prod_unfold)
  qed
qed

text \<open>Without a tail to throw away the chunks and the rest are the input.\<close>

lemma drain_conserves:
  "\<not> fr_lone_escape_recently_flushed s \<Longrightarrow> fr_discard_until s = None \<Longrightarrow> drain_available_chunks upper s = Some (c, t) \<Longrightarrow>
   fr_discard_until t = None \<and> concat c @ fr_buffer t = fr_buffer s \<and> [] \<notin> set c"
proof (induction upper s arbitrary: c rule: drain_available_chunks.induct)
  case (1 upper s)
  note p = drain_step_plain [OF "1.prems"(1), of upper]
  show ?case
  proof (cases "drain_step upper s")
    case StepPanic
    then show ?thesis using "1.prems"(3) by (simp add: drain_available_chunks.simps [of upper s])
  next
    case (Stop u)
    then have "u = s" using p "1.prems"(2) by (auto simp: drain_body_def Let_def split: if_splits extracted.splits)
    then show ?thesis using "1.prems"(2,3) Stop by (simp add: drain_available_chunks.simps [of upper s])
  next
    case (Continue d u)
    then obtain c' where c: "drain_available_chunks upper u = Some (c', t)" "c = d @ c'"
      using "1.prems"(3) by (auto simp: drain_available_chunks.simps [of upper s])
    have u: "\<not> fr_lone_escape_recently_flushed u" using drain_body_keeps(1) [of upper s d u] Continue p "1.prems"(1) by simp
    have "fr_discard_until u = None \<and> concat d @ fr_buffer u = fr_buffer s \<and> [] \<notin> set d"
      using Continue p "1.prems"(2) extract_bounds [of upper "fr_buffer s"]
      by (auto simp: drain_body_def Let_def prefix_def split: if_splits extracted.splits)
    with "1.IH" [OF Continue u _ c(1)] c(2) show ?thesis by auto
  qed
qed

lemma push_more: "push_bytes upper d s = drain_available_chunks upper (more_input d s)"
  by (simp add: push_bytes_def more_input_def)

section \<open>Properties of framing\<close>

text \<open>
  C16. How reads split the input does not matter. Unless a lone escape was just passed on, pushing two
  pieces one after the other gives the same chunks, the same final state and panics in the same
  cases as pushing them together, in every state of the framer, also while it throws away the
  tail of a reply.
\<close>

theorem framing_split_invariant:
  assumes "\<not> fr_lone_escape_recently_flushed s"
  shows "push_bytes upper (a @ b) s =
    (case push_bytes upper a s of
       None \<Rightarrow> None
     | Some (c, s1) \<Rightarrow> map_option (\<lambda>(d, s2). (c @ d, s2)) (push_bytes upper b s1))"
proof -
  have "push_bytes upper (a @ b) s = drain_available_chunks upper (more_input b (more_input a s))"
    by (simp add: push_bytes_def more_input_def)
  moreover have "\<not> fr_lone_escape_recently_flushed (more_input a s)" using assms by (simp add: more_input_def)
  ultimately show ?thesis unfolding push_more [of upper a s] push_more [of upper b] by (simp add: drain_append)
qed

theorem framing_split_invariant_witness:
  "push_bytes (\<lambda>_. False) [27] default_framer = Some ([], default_framer\<lparr>fr_buffer := [27]\<rparr>) \<and>
   push_bytes (\<lambda>_. False) [27, 91, 65] default_framer =
     map_option (\<lambda>(d, s2). (d, s2)) (push_bytes (\<lambda>_. False) [91, 65] (default_framer\<lparr>fr_buffer := [27]\<rparr>))"
proof
  show a: "push_bytes (\<lambda>_. False) [27] default_framer = Some ([], default_framer\<lparr>fr_buffer := [27]\<rparr>)"
    by code_simp
  show "push_bytes (\<lambda>_. False) [27, 91, 65] default_framer =
      map_option (\<lambda>(d, s2). (d, s2)) (push_bytes (\<lambda>_. False) [91, 65] (default_framer\<lparr>fr_buffer := [27]\<rparr>))"
    using framing_split_invariant [of default_framer "\<lambda>_. False" "[27]" "[91, 65]"] by (simp add: a) (simp add: default_framer_def)
qed

text \<open>
  The framer neither loses nor invents input. While it has no tail to throw away, the chunks of a
  push and the bytes it keeps are, in order, the bytes it had kept and the new ones, and no
  chunk is empty.
\<close>

theorem framing_conserves_bytes:
  assumes "\<not> fr_lone_escape_recently_flushed s" and "fr_discard_until s = None"
    and "push_bytes upper data s = Some (chunks, s')"
  shows "concat chunks @ fr_buffer s' = fr_buffer s @ data \<and> [] \<notin> set chunks \<and> fr_discard_until s' = None"
  using drain_conserves [of "more_input data s" upper chunks s'] assms by (simp add: push_bytes_def more_input_def)

theorem framing_conserves_bytes_witness:
  "push_bytes (\<lambda>_. False) [97, 27] default_framer = Some ([[97]], default_framer\<lparr>fr_buffer := [27]\<rparr>) \<and>
   concat [[97]] @ [27] = [97, 27 :: u8]"
proof
  show a: "push_bytes (\<lambda>_. False) [97, 27] default_framer = Some ([[97]], default_framer\<lparr>fr_buffer := [27]\<rparr>)"
    by code_simp
  show "concat [[97]] @ [27] = [97, 27 :: u8]"
    using framing_conserves_bytes [OF _ _ a] by (simp add: default_framer_def)
qed

end
