(* ===== verification/Input_Flush.thy ===== *)
theory Input_Flush
  imports Raw_Input
begin

unbundle bit_operations_syntax

text \<open>
  What the framer of \<open>src/raw_input.rs\<close> does when no further byte arrives in time, the events that are
  made of its chunks, and what the chunks are worth to a second framer: the client frames the
  input of the host terminal and the server frames the chunks it is sent once more.
\<close>

section \<open>Idle timeouts\<close>

definition plausible_control_string_tail :: "control_string_family \<Rightarrow> u8 list \<Rightarrow> bool" where
  "plausible_control_string_tail family buffer =
     (case family of
        Osc \<Rightarrow> list_all (\<lambda>b. 48 \<le> b \<and> b \<le> 57 \<or> b \<in> set (27 # B '';:/#?._-+rgbRGB'')) buffer
      | StTerminated \<Rightarrow> buffer \<noteq> [] \<and> last buffer = 27
      | _ \<Rightarrow> False)"

definition starts_with_incomplete_default_color_response :: "u8 list \<Rightarrow> bool" where
  "starts_with_incomplete_default_color_response buffer \<longleftrightarrow>
     control_string buffer = Some (Incomplete Osc) \<and> (prefix (27 # B '']10;'') buffer \<or> prefix (27 # B '']11;'') buffer)"

definition starts_with_incomplete_host_color_scheme_report :: "u8 list \<Rightarrow> bool" where
  "starts_with_incomplete_host_color_scheme_report buffer \<longleftrightarrow>
     prefix (27 # B ''[?'') buffer \<and>
     (prefix buffer ghostty_color_scheme_dark_report \<or> prefix buffer ghostty_color_scheme_light_report) \<and>
     length buffer < length ghostty_color_scheme_dark_report"

definition starts_with_incomplete_host_cell_size_report :: "u8 list \<Rightarrow> bool" where
  "starts_with_incomplete_host_cell_size_report buffer =
     (if \<not> prefix (27 # B ''['') buffer then False
      else
        (let body = drop 2 buffer
         in if body = [] \<or> last body = 116 then False
            else case split_by (\<lambda>b. b = 59) (map unat body) [] of
              [six] \<Rightarrow> six = U ''6''
            | [six, height] \<Rightarrow> six = U ''6'' \<and> list_all is_ascii_digit height
            | [six, height, width] \<Rightarrow>
                six = U ''6'' \<and> list_all is_ascii_digit height \<and> list_all is_ascii_digit width \<and> height \<noteq> []
            | _ \<Rightarrow> False))"

definition starts_with_incomplete_utf8_char :: "u8 list \<Rightarrow> bool" where
  "starts_with_incomplete_utf8_char buffer = incomplete_at_start buffer"

definition flush_discarding :: "control_string_family \<Rightarrow> raw_input_byte_framer \<Rightarrow> raw_input_byte_framer" where
  "flush_discarding family s =
     (if family = HostReplyCsi then s
      else if family = OrphanedSgrMouseTail then end_discard [] s
      else
        (let n = fr_discarded_tail_bytes s + length (fr_buffer s)
         in if plausible_control_string_tail family (fr_buffer s) \<and> n \<le> max_discarded_control_tail_bytes
            then s\<lparr>fr_buffer := (if fr_buffer s \<noteq> [] \<and> last (fr_buffer s) = 27 then [27] else []), fr_discarded_tail_bytes := n\<rparr>
            else end_discard [] s))"

definition begin_discard :: "control_string_family \<Rightarrow> raw_input_byte_framer \<Rightarrow> raw_input_byte_framer" where
  "begin_discard family s = s\<lparr>fr_discard_until := Some family, fr_discarded_tail_bytes := 0, fr_buffer := []\<rparr>"

definition flush_lone_escape :: "raw_input_byte_framer \<Rightarrow> u8 list list \<times> raw_input_byte_framer" where
  "flush_lone_escape s =
     (if awaiting_host_reply s \<and> \<not> fr_held_pending_host_reply_esc s then ([], s\<lparr>fr_held_pending_host_reply_esc := True\<rparr>)
      else ([fr_buffer s], s\<lparr>fr_host_color_replies_awaited := 0, fr_host_cell_size_replies_awaited := 0,
          fr_host_appearance_reply_awaited := False, fr_held_pending_host_reply_esc := False,
          fr_lone_escape_recently_flushed := True, fr_buffer := []\<rparr>))"

definition flush_key :: "raw_input_byte_framer \<Rightarrow> u8 list list \<times> raw_input_byte_framer" where
  "flush_key s =
     (let buffer = fr_buffer s
      in if Option.bind (from_utf8 buffer) parse_terminal_key_sequence \<noteq> None
         then ([buffer], s\<lparr>fr_lone_escape_recently_flushed := False, fr_buffer := []\<rparr>)
         else if starts_with_incomplete_utf8_char buffer then ([], s)
         else if buffer \<noteq> [] \<and> hd buffer = 27 \<and> starts_with_incomplete_utf8_char (tl buffer) then ([], s)
         else ([], s\<lparr>fr_lone_escape_recently_flushed := False, fr_buffer := []\<rparr>))"

definition flush_reply :: "raw_input_byte_framer \<Rightarrow> u8 list list \<times> raw_input_byte_framer" where
  "flush_reply s =
     (let buffer = fr_buffer s
      in if 0 < fr_host_cell_size_replies_awaited s \<and> starts_with_incomplete_host_cell_size_report buffer then
           ([], begin_discard HostReplyCsi (s\<lparr>fr_host_cell_size_replies_awaited := 0, fr_held_pending_host_reply_esc := False\<rparr>))
         else if starts_with_incomplete_default_color_response buffer then ([], s)
         else if starts_with_incomplete_host_color_scheme_report buffer then
           (if fr_host_appearance_reply_awaited s \<and> \<not> fr_held_pending_host_reply_esc s
            then ([], s\<lparr>fr_held_pending_host_reply_esc := True\<rparr>)
            else ([], begin_discard HostReplyCsi (s\<lparr>fr_host_appearance_reply_awaited := False, fr_held_pending_host_reply_esc := False\<rparr>)))
         else case control_string buffer of
           Some (Incomplete family) \<Rightarrow> ([], begin_discard family s)
         | _ \<Rightarrow> if buffer = [27] then flush_lone_escape s else flush_key s)"

definition flush_pending :: "raw_input_byte_framer \<Rightarrow> u8 list list \<times> raw_input_byte_framer" where
  "flush_pending s =
     (let buffer = fr_buffer s;
          held_csi = ((fr_host_appearance_reply_awaited s \<or> 0 < fr_host_cell_size_replies_awaited s) \<and> buffer = 27 # B ''['')
      in if buffer = [] then ([], s)
         else if fr_lone_escape_recently_flushed s \<and> prefix (B ''[<'') buffer then
           ([], (begin_discard OrphanedSgrMouseTail s)\<lparr>fr_lone_escape_recently_flushed := False\<rparr>)
         else if starts_with_incomplete_sgr_mouse_sequence buffer then
           ([], s\<lparr>fr_discarded_tail_bytes := length buffer,
              fr_discard_until := (if length buffer \<le> max_discarded_control_tail_bytes then Some OrphanedSgrMouseTail else None),
              fr_buffer := [], fr_held_pending_host_reply_esc := False\<rparr>)
         else if prefix bracketed_paste_start buffer \<and> find_subsequence buffer bracketed_paste_end = None then ([], s)
         else if held_csi \<and> \<not> fr_held_pending_host_reply_esc s then ([], s\<lparr>fr_held_pending_host_reply_esc := True\<rparr>)
         else flush_reply (if held_csi
           then s\<lparr>fr_host_appearance_reply_awaited := False, fr_host_cell_size_replies_awaited := 0,
             fr_held_pending_host_reply_esc := False\<rparr>
           else s))"

definition flush_timeout :: "(nat \<Rightarrow> bool) \<Rightarrow> raw_input_byte_framer \<Rightarrow> (u8 list list \<times> raw_input_byte_framer) option" where
  "flush_timeout upper s =
     map_option (\<lambda>(chunks, t). case fr_discard_until t of
         Some family \<Rightarrow> (chunks, flush_discarding family t)
       | None \<Rightarrow> (let (more, u) = flush_pending t in (chunks @ more, u))) (drain_available_chunks upper s)"

section \<open>Events\<close>

definition chunk_event :: "(nat \<Rightarrow> bool) \<Rightarrow> u8 list \<Rightarrow> raw_input_event list option" where
  "chunk_event upper chunk =
     (if chunk = [27] then Some [RawKey (with_vt_bytes chunk (key_new KeyEsc 0))]
      else case extract_one_event upper chunk of
        Panicked \<Rightarrow> None
      | Pending \<Rightarrow> Some []
      | Event event _ \<Rightarrow> Some [event])"

primrec events_from_chunks :: "(nat \<Rightarrow> bool) \<Rightarrow> u8 list list \<Rightarrow> raw_input_event list option" where
  "events_from_chunks upper [] = Some []"
| "events_from_chunks upper (chunk # chunks) =
     Option.bind (chunk_event upper chunk) (\<lambda>e. map_option ((@) e) (events_from_chunks upper chunks))"

definition framer_events ::
  "(nat \<Rightarrow> bool) \<Rightarrow> (u8 list list \<times> raw_input_byte_framer) option \<Rightarrow> (raw_input_event list \<times> raw_input_byte_framer) option" where
  "framer_events upper r = Option.bind r (\<lambda>(chunks, s). map_option (\<lambda>events. (events, s)) (events_from_chunks upper chunks))"

definition framer_push :: "(nat \<Rightarrow> bool) \<Rightarrow> u8 list \<Rightarrow> raw_input_byte_framer \<Rightarrow> (raw_input_event list \<times> raw_input_byte_framer) option" where
  "framer_push upper data s = framer_events upper (push_bytes upper data s)"

definition framer_flush_timeout :: "(nat \<Rightarrow> bool) \<Rightarrow> raw_input_byte_framer \<Rightarrow> (raw_input_event list \<times> raw_input_byte_framer) option" where
  "framer_flush_timeout upper s = framer_events upper (flush_timeout upper s)"

definition parse_raw_input_bytes_sync :: "(nat \<Rightarrow> bool) \<Rightarrow> u8 list \<Rightarrow> raw_input_event list option" where
  "parse_raw_input_bytes_sync upper data =
     Option.bind (framer_push upper data default_framer) (\<lambda>(events, s).
       map_option (\<lambda>(more, _). events @ more) (framer_flush_timeout upper s))"

definition is_complete_text_bracketed_paste :: "u8 list \<Rightarrow> bool" where
  "is_complete_text_bracketed_paste data \<longleftrightarrow> prefix bracketed_paste_start data \<and>
     (case find_subsequence data bracketed_paste_end of
        None \<Rightarrow> False
      | Some e \<Rightarrow> e + length bracketed_paste_end = length data \<and> from_utf8 (take (e - 6) (drop 6 data)) \<noteq> None)"

definition is_focus_gained :: "raw_input_event \<Rightarrow> bool" where
  "is_focus_gained event \<longleftrightarrow> event = OuterFocusGained"

definition events_require_host_surface_redraw :: "raw_input_event list \<Rightarrow> bool \<Rightarrow> bool" where
  "events_require_host_surface_redraw events redraw_on_focus_gained \<longleftrightarrow> redraw_on_focus_gained \<and> list_ex is_focus_gained events"

definition events_require_host_terminal_appearance_query :: "raw_input_event list \<Rightarrow> bool" where
  "events_require_host_terminal_appearance_query events = list_ex is_focus_gained events"

definition events_require_host_terminal_theme_query :: "raw_input_event list \<Rightarrow> bool" where
  "events_require_host_terminal_theme_query events =
     list_ex (\<lambda>event. case event of HostColorSchemeChanged _ \<Rightarrow> True | _ \<Rightarrow> False) events"

text \<open>Palette replies are collected; the state is what was sent and the colours not sent yet.\<close>

definition flush_host_palette_events ::
  "raw_input_event list \<times> (nat \<times> rgb_color) list \<Rightarrow> raw_input_event list \<times> (nat \<times> rgb_color) list" where
  "flush_host_palette_events = (\<lambda>(sent, pending). if pending = [] then (sent, pending) else (sent @ [HostPaletteColors pending], []))"

definition send_raw_input_event ::
  "raw_input_event \<Rightarrow> raw_input_event list \<times> (nat \<times> rgb_color) list \<Rightarrow> raw_input_event list \<times> (nat \<times> rgb_color) list" where
  "send_raw_input_event event st =
     (case event of
        HostPaletteColors colors \<Rightarrow>
          (let pending = snd st @ colors
           in if length pending = 256 then flush_host_palette_events (fst st, pending) else (fst st, pending))
      | HostDefaultColor _ _ \<Rightarrow> (fst st @ [event], snd st)
      | _ \<Rightarrow> (let st' = flush_host_palette_events st in (fst st' @ [event], snd st')))"

definition send_raw_input_events ::
  "raw_input_event list \<Rightarrow> raw_input_event list \<times> (nat \<times> rgb_color) list \<Rightarrow> raw_input_event list \<times> (nat \<times> rgb_color) list" where
  "send_raw_input_events = fold send_raw_input_event"

text \<open>The server's part, in \<open>src/server/headless.rs\<close>: the client sends a lone escape only after its own timeout.\<close>

definition client_input :: "(nat \<Rightarrow> bool) \<Rightarrow> u8 list \<Rightarrow> raw_input_byte_framer \<Rightarrow> (raw_input_event list \<times> raw_input_byte_framer) option" where
  "client_input upper data s =
     Option.bind (framer_push upper data s) (\<lambda>(events, t).
       if data = [27] then map_option (\<lambda>(more, u). (events @ more, u)) (framer_flush_timeout upper t) else Some (events, t))"

primrec client_inputs ::
  "(nat \<Rightarrow> bool) \<Rightarrow> u8 list list \<Rightarrow> raw_input_byte_framer \<Rightarrow> (raw_input_event list list \<times> raw_input_byte_framer) option" where
  "client_inputs upper [] s = Some ([], s)"
| "client_inputs upper (data # rest) s =
     Option.bind (client_input upper data s) (\<lambda>(events, t). map_option (\<lambda>(es, u). (events # es, u)) (client_inputs upper rest t))"

section \<open>A chunk holds its event\<close>

lemma extend_take: "xs = take n xs @ drop n xs"
  by simp

lemma position_take: "position P xs = Some i \<Longrightarrow> i < n \<Longrightarrow> position P (take n xs) = Some i"
  by (induction xs arbitrary: i n) (auto simp: take_Cons' split: if_splits)

lemma find_subsequence_take:
  "find_subsequence xs p = Some i \<Longrightarrow> i + length p \<le> n \<Longrightarrow> find_subsequence (take n xs) p = Some i"
proof (induction xs arbitrary: i n)
  case (Cons x xs)
  show ?case
  proof (cases "prefix p (x # xs)")
    case True
    then have "prefix p (take n (x # xs))" using Cons.prems
      by (auto simp: prefix_def)
    then show ?thesis using True Cons.prems by (cases n) (auto split: if_splits)
  next
    case False
    then obtain j where j: "i = Suc j" "find_subsequence xs p = Some j" using Cons.prems by auto
    obtain m where m: "n = Suc m" using j(1) Cons.prems(2) by (cases n) auto
    have "\<not> prefix p (x # take m xs)" using False by (metis append_Cons append_take_drop_id prefix_prefix)
    then show ?thesis using Cons.IH [OF j(2), of m] Cons.prems(2) j(1) m by simp
  qed
qed simp

lemma terminator_take:
  assumes "control_string_terminator_for_family xs family = Some n"
  shows "control_string_terminator_for_family (take n xs) family = Some n"
proof -
  have st: "st_string_terminator (take n xs) = Some n" if "st_string_terminator xs = Some n"
    using that find_subsequence_take [of xs "[27, 92]" _ n] by (auto simp: st_string_terminator_def)
  have bel: "position (\<lambda>b. b = 7) (take n xs) = Some i" if "position (\<lambda>b. b = 7) xs = Some i" "n = i + 1" for i
    using position_take [OF that(1), of n] that(2) by simp
  have "control_string_terminator_for_family (take n xs) family \<noteq> None"
    using assms st bel
    by (cases family)
      (auto simp: control_string_terminator_for_family_def osc_string_terminator_def min_def split: option.splits if_splits)
  then show ?thesis
    using assms terminator_append [of "take n xs" family _ "drop n xs"] by auto
qed

lemma csi_final_take:
  assumes "find_csi_final xs finals = Some n"
  shows "find_csi_final (take n xs) finals = Some n"
  using assms position_take [of finals "drop 2 xs" _ "n - 2"] by (auto simp: find_csi_final_def drop_take)

lemma first_char_take:
  assumes "first_complete_utf8_char_len xs = Some n"
  shows "first_complete_utf8_char_len (take n xs) = Some n"
proof -
  obtain b r where xs: "xs = b # r" using assms by (cases xs) (auto simp: first_complete_utf8_char_len_def)
  have w: "utf8_char_width b = Some n" "n \<le> length xs" "from_utf8 (take n xs) \<noteq> None"
    using assms by (auto simp: first_complete_utf8_char_len_def xs split: option.splits if_splits)
  obtain j where j: "n = Suc j" using w(1) by (cases n) (auto simp: utf8_char_width_def split: if_splits)
  show ?thesis using w by (simp add: first_complete_utf8_char_len_def xs j)
qed

lemma complete_csi_take:
  assumes "complete_escape_sequence_len (27 # 91 # r) = Some n"
  shows "complete_escape_sequence_len (take n (27 # 91 # r)) = Some n"
proof -
  obtain x t where r: "r = x # t" using assms by (cases r) (auto simp: complete_csi)
  have "2 < n" using complete_csi_append [OF assms, of "[]"] by simp
  then obtain m where m: "n = Suc (Suc (Suc m))" by (metis add_2_eq_Suc less_iff_Suc_add add_Suc)
  consider "x = 60" "find_csi_final (27 # 91 # r) mouse_final = Some n" | "x = 77" "n = 6" "4 \<le> length r"
    | "x \<noteq> 60" "x \<noteq> 77" "find_csi_final (27 # 91 # r) csi_final = Some n"
    using assms by (auto simp: complete_csi r split: if_splits)
  then show ?thesis
  proof cases
    case 1
    then show ?thesis using csi_final_take [OF 1(2)] by (simp add: complete_csi r m)
  next
    case 2
    then show ?thesis by (simp add: complete_csi r take_Cons')
  next
    case 3
    then show ?thesis using csi_final_take [OF 3(3)] by (simp add: complete_csi r m)
  qed
qed

lemma complete_other_take:
  assumes "b \<noteq> 27" "b \<noteq> 91" "complete_escape_sequence_len (27 # b # r) = Some n"
  shows "complete_escape_sequence_len (take n (27 # b # r)) = Some n"
proof (cases "control_string (27 # b # r)")
  case None
  then have c: "control_string (27 # b # take k r) = None" for k by (auto simp: control_string_def split: if_splits)
  show ?thesis
  proof (cases "b = 79")
    case True
    then show ?thesis using assms None c [of 1] by (auto simp: complete_other take_Cons' split: if_splits)
  next
    case False
    then obtain k where k: "first_complete_utf8_char_len (b # r) = Some k" "n = Suc k"
      using assms None by (auto simp: complete_other)
    obtain j where j: "k = Suc j" using k(1) by (cases k) (auto simp: first_complete_utf8_char_len_def utf8_char_width_def split: if_splits)
    show ?thesis using first_char_take [OF k(1)] assms(1,2) False c [of j] k(2) j by (simp add: complete_other)
  qed
next
  case (Some c)
  then obtain family where c: "c = Complete n family" "control_string_terminator_for_family (27 # b # r) family = Some n"
    using assms by (auto simp: complete_other control_string_def split: option.splits if_splits control_string_state.splits)
  have f: "control_string_terminator_for_family (take n (27 # b # r)) family = Some n" by (rule terminator_take [OF c(2)])
  have "n \<noteq> 0" using terminator_append [OF c(2), of "[]"] by simp
  moreover have "n \<noteq> 1"
    using f by (cases family) (auto simp: control_string_terminator_for_family_def osc_string_terminator_def st_string_terminator_def)
  ultimately obtain m where m: "n = Suc (Suc m)" by (metis One_nat_def not0_implies_Suc)
  have "control_string (27 # b # take m r) = Some (Complete n family)"
    using Some c f m by (auto simp: control_string_def split: if_splits option.splits)
  then show ?thesis using assms(1,2) m by (simp add: complete_other)
qed

lemma complete_escape_take:
  assumes "complete_escape_sequence_len (27 # r) = Some n" "\<not> prefix [27, 27] (27 # r)"
  shows "complete_escape_sequence_len (take n (27 # r)) = Some n"
proof (cases r)
  case Nil
  then show ?thesis using assms(1) by (simp add: complete_short)
next
  case (Cons b t)
  then show ?thesis using assms complete_csi_take [of t n] complete_other_take [of b t n] by (cases "b = 91") auto
qed

text \<open>The bytes of an event, without what came after them, are read as the same event.\<close>

lemma extract_take:
  assumes e: "extract_one_event upper xs = Event ev n" and d: "\<not> prefix [27, 27] xs"
  shows "extract_one_event upper (take n xs) = Event ev n"
proof -
  have n: "0 < n" "n \<le> length xs" using extract_bounds [OF e] by simp_all
  then have ne: "xs \<noteq> []" "take n xs \<noteq> []" "hd (take n xs) = hd xs" by (auto simp: hd_take)
  consider "prefix bracketed_paste_start xs" | "\<not> prefix bracketed_paste_start xs" "hd xs = 27"
    | "\<not> prefix bracketed_paste_start xs" "hd xs \<noteq> 27" by blast
  then show ?thesis
  proof cases
    case 1
    obtain i where i: "find_subsequence xs bracketed_paste_end = Some i" "n = i + 6"
      using e 1 ne by (auto simp: extract_one_event_def split: option.splits)
    have f: "find_subsequence (take n xs) bracketed_paste_end = Some i"
      using find_subsequence_take [OF i(1), of n] i(2) by (simp add: bracketed_paste_end_def B_def)
    have "prefix bracketed_paste_start (take n xs)"
      using prefix_more [of bracketed_paste_start "take n xs" "drop n xs"] 1 n i(2) by (simp add: bracketed_paste_start_def B_def)
    moreover have "take (i - 6) (drop 6 (take n xs)) = take (i - 6) (drop 6 xs)" using i(2) by (simp add: drop_take)
    ultimately show ?thesis using e 1 ne i(1) f by (simp add: extract_one_event_def split: option.splits)
  next
    case 2
    then obtain r where r: "xs = 27 # r" using ne by (cases xs) auto
    have k: "complete_escape_sequence_len xs = Some n"
      using e 2 ne by (auto simp: extract_one_event_def Let_def split: option.splits if_splits)
    have "complete_escape_sequence_len (take n xs) = Some n" using complete_escape_take [of r n] k d r by simp
    moreover have "\<not> prefix bracketed_paste_start (take n xs)" using 2(1) by (metis append_take_drop_id prefix_prefix)
    ultimately show ?thesis using e 2 ne k by (simp add: extract_one_event_def Let_def cong: option.case_cong split: if_splits)
  next
    case 3
    have k: "first_complete_utf8_char_len xs = Some n"
      using e 3 ne by (auto simp: extract_one_event_def split: option.splits)
    moreover have "\<not> prefix bracketed_paste_start (take n xs)" using 3(1) by (metis append_take_drop_id prefix_prefix)
    ultimately show ?thesis using e 3 ne first_char_take [OF k] by (simp add: extract_one_event_def cong: option.case_cong)
  qed
qed

definition self_contained :: "(nat \<Rightarrow> bool) \<Rightarrow> u8 list \<Rightarrow> bool" where
  "self_contained upper c \<longleftrightarrow> \<not> prefix [27, 27] c \<and> (\<exists>e. extract_one_event upper c = Event e (length c))"

lemma drain_body_chunks:
  assumes "drain_body upper s = Continue c t" "fr_split_coalesced_escape s"
  shows "fr_split_coalesced_escape t \<and> (\<forall>x \<in> set c. x = [27] \<or> self_contained upper x)"
proof (cases "fr_discard_until s = None \<and> \<not> prefix [27, 27] (fr_buffer s)")
  case True
  then obtain e n where e: "extract_one_event upper (fr_buffer s) = Event e n" "c = [take n (fr_buffer s)]"
      "t = (note_event e s)\<lparr>fr_buffer := drop n (fr_buffer s)\<rparr>"
    using assms by (auto simp: drain_body_def Let_def split: extracted.splits)
  have "\<not> prefix [27, 27] (take n (fr_buffer s))" using True by (metis append_take_drop_id prefix_prefix)
  then show ?thesis using e extract_take [OF e(1)] extract_bounds [OF e(1)] True assms(2) by (simp add: self_contained_def)
next
  case False
  then show ?thesis
    using assms
    by (auto simp: drain_body_def discard_step_def end_discard_def Let_def split: option.splits if_splits sum.splits)
qed

lemma drain_step_chunks:
  assumes "drain_step upper s = Continue c t" "fr_split_coalesced_escape s"
  shows "fr_split_coalesced_escape t \<and> (\<forall>x \<in> set c. x = [27] \<or> self_contained upper x)"
  using assms drain_body_chunks [of upper s c t] drain_body_chunks [of upper "s\<lparr>fr_lone_escape_recently_flushed := False\<rparr>" c t]
  by (auto simp: drain_step_def split: if_splits option.splits)

lemma drain_chunks:
  "drain_available_chunks upper s = Some (c, t) \<Longrightarrow> fr_split_coalesced_escape s \<Longrightarrow> x \<in> set c \<Longrightarrow> x = [27] \<or> self_contained upper x"
proof (induction upper s arbitrary: c rule: drain_available_chunks.induct)
  case (1 upper s)
  show ?case
  proof (cases "drain_step upper s")
    case (Continue d u)
    then obtain c' where c: "drain_available_chunks upper u = Some (c', t)" "c = d @ c'"
      using "1.prems"(1) by (auto simp: drain_available_chunks.simps [of upper s])
    note d = drain_step_chunks [OF Continue "1.prems"(2)]
    show ?thesis using "1.IH" [OF Continue c(1)] d c(2) "1.prems"(3) by auto
  qed (use "1.prems" in \<open>auto simp: drain_available_chunks.simps [of upper s]\<close>)
qed

section \<open>Framing twice\<close>

definition framer_idle :: "raw_input_byte_framer \<Rightarrow> bool" where
  "framer_idle s \<longleftrightarrow> fr_buffer s = [] \<and> fr_discard_until s = None \<and> \<not> fr_lone_escape_recently_flushed s"

lemma framer_idle_drain: "framer_idle s \<Longrightarrow> drain_available_chunks upper s = Some ([], s)"
  by (simp add: drain_available_chunks.simps [of upper s] drain_step_def drain_body_def framer_idle_def extract_one_event_def)

lemma note_event_idle: "framer_idle s \<Longrightarrow> framer_idle ((note_event e s)\<lparr>fr_buffer := []\<rparr>)"
  by (simp add: framer_idle_def)

lemma self_contained_push:
  assumes "extract_one_event upper c = Event e (length c)" "\<not> prefix [27, 27] c" "framer_idle s"
  shows "push_bytes upper c s = Some ([c], (note_event e s)\<lparr>fr_buffer := []\<rparr>)"
proof -
  have "drain_step upper (s\<lparr>fr_buffer := c\<rparr>) = Continue [c] ((note_event e (s\<lparr>fr_buffer := c\<rparr>))\<lparr>fr_buffer := []\<rparr>)"
    using assms by (auto simp: drain_step_def drain_body_def framer_idle_def)
  moreover have "(note_event e (s\<lparr>fr_buffer := c\<rparr>))\<lparr>fr_buffer := []\<rparr> = (note_event e s)\<lparr>fr_buffer := []\<rparr>"
    by (cases e) (simp_all add: note_event_def host_appearance_query_sent_def host_color_query_sent_def Let_def)
  ultimately show ?thesis
    using assms(3) framer_idle_drain [OF note_event_idle [OF assms(3), of e]]
    by (simp add: push_bytes_def drain_available_chunks.simps [of upper "s\<lparr>fr_buffer := _\<rparr>"] framer_idle_def)
qed

lemma client_inputs_self_contained:
  "\<forall>c \<in> set cs. self_contained upper c \<and> c \<noteq> [27] \<Longrightarrow> framer_idle t \<Longrightarrow>
   \<exists>es t'. client_inputs upper cs t = Some (map (\<lambda>e. [e]) es, t') \<and> framer_idle t' \<and>
     list_all2 (\<lambda>c e. extract_one_event upper c = Event e (length c)) cs es"
proof (induction cs arbitrary: t)
  case (Cons c cs)
  then obtain e where e: "extract_one_event upper c = Event e (length c)" "\<not> prefix [27, 27] c" "c \<noteq> [27]"
    by (auto simp: self_contained_def)
  let ?u = "(note_event e t)\<lparr>fr_buffer := []\<rparr>"
  have p: "client_input upper c t = Some ([e], ?u)"
    using self_contained_push [OF e(1,2) Cons.prems(2)] e(1,3)
    by (simp add: client_input_def framer_push_def framer_events_def chunk_event_def)
  obtain es t' where "client_inputs upper cs ?u = Some (map (\<lambda>e. [e]) es, t')" "framer_idle t'"
      "list_all2 (\<lambda>c e. extract_one_event upper c = Event e (length c)) cs es"
    using Cons.IH [of ?u] Cons.prems note_event_idle [of t e] by auto
  then show ?case using p e(1) by (intro exI [of _ "e # es"] exI [of _ t']) simp
qed simp

lemma discard_tail_dropped:
  assumes "discard_tail keep final a n = Inl rest"
  shows "\<exists>k \<le> max_discarded_control_tail_bytes - n. rest = drop k a"
proof -
  let ?i = "min (length a) (max_discarded_control_tail_bytes - n)"
  show ?thesis
  proof (cases "position (\<lambda>b. \<not> keep b) (take ?i a)")
    case None
    then show ?thesis using assms by (intro exI [of _ ?i]) (auto simp: discard_tail_def Let_def split: if_splits)
  next
    case (Some j)
    have "j < ?i" using position_Some [OF Some] by simp
    then show ?thesis
      using assms Some by (intro exI [of _ "if final (a ! j) then j + 1 else j"]) (auto simp: discard_tail_def Let_def)
  qed
qed

lemma discard_tail_goes_on:
  assumes "discard_tail keep final a n = Inr (rest, m)"
  shows "rest = [] \<and> m = n + length a \<and> m < max_discarded_control_tail_bytes"
  using assms by (auto simp: discard_tail_def Let_def min_def split: option.splits if_splits)

section \<open>Properties of chunks and timeouts\<close>



text \<open>
  C18. A typed Escape arrives. When the framer holds just an escape character and no tail is being thrown
  away, the Escape key is reported by the first idle timeout or, if a reply of the host terminal
  may begin with it, by the second, and then nothing is pending.
\<close>

theorem lone_escape_delivered:
  assumes "fr_buffer s = [27]" and "fr_discard_until s = None"
  shows "(\<exists>t. framer_flush_timeout upper s = Some ([RawKey (with_vt_bytes [27] (key_new KeyEsc 0))], t) \<and> \<not> has_pending_input t) \<or>
    (\<exists>t u. framer_flush_timeout upper s = Some ([], t) \<and>
      framer_flush_timeout upper t = Some ([RawKey (with_vt_bytes [27] (key_new KeyEsc 0))], u) \<and> \<not> has_pending_input u)"
proof -
  have drain: "drain_available_chunks upper t = Some ([], t\<lparr>fr_lone_escape_recently_flushed := False\<rparr>)"
    if "fr_buffer t = [27]" "fr_discard_until t = None" for t
  proof -
    have "extract_one_event upper [27] = Pending" by (simp add: extract_one_event_def bracketed_paste_start_def B_def complete_short)
    then show ?thesis
      using that
      by (simp add: drain_available_chunks.simps [of upper t] drain_step_def drain_body_def
          starts_with_incomplete_orphaned_sgr_mouse_tail_def discard_complete_orphaned_sgr_mouse_tail_def B_def)
  qed
  have flush: "flush_pending t = flush_lone_escape t" if "fr_buffer t = [27]" "\<not> fr_lone_escape_recently_flushed t" for t
    using that
    by (simp add: flush_pending_def flush_reply_def Let_def starts_with_incomplete_sgr_mouse_sequence_def bracketed_paste_start_def
        starts_with_incomplete_host_cell_size_report_def starts_with_incomplete_default_color_response_def
        starts_with_incomplete_host_color_scheme_report_def control_string_def B_def)
  let ?s = "s\<lparr>fr_lone_escape_recently_flushed := False\<rparr>"
  let ?t = "?s\<lparr>fr_held_pending_host_reply_esc := True\<rparr>"
  have f: "flush_timeout upper t = Some (flush_lone_escape (t\<lparr>fr_lone_escape_recently_flushed := False\<rparr>))"
    if "fr_buffer t = [27]" "fr_discard_until t = None" for t
    using drain [OF that] flush [of "t\<lparr>fr_lone_escape_recently_flushed := False\<rparr>"] that by (simp add: flush_timeout_def)
  show ?thesis
  proof (cases "awaiting_host_reply ?s \<and> \<not> fr_held_pending_host_reply_esc ?s")
    case True
    then show ?thesis
      using f [OF assms] f [of ?t] assms
      by (intro disjI2) (simp add: framer_flush_timeout_def framer_events_def flush_lone_escape_def chunk_event_def has_pending_input_def)
  next
    case False
    then show ?thesis
      using f [OF assms] assms
      by (intro disjI1) (auto simp: framer_flush_timeout_def framer_events_def flush_lone_escape_def chunk_event_def has_pending_input_def)
  qed
qed

theorem lone_escape_delivered_witness:
  "\<exists>t. framer_flush_timeout (\<lambda>_. False) (default_framer\<lparr>fr_buffer := [27]\<rparr>) =
     Some ([RawKey (with_vt_bytes [27] (key_new KeyEsc 0))], t) \<and> \<not> has_pending_input t"
proof -
  have "map_option fst (framer_flush_timeout (\<lambda>_. False) (default_framer\<lparr>fr_buffer := [27]\<rparr>)) =
      Some [RawKey (with_vt_bytes [27] (key_new KeyEsc 0))]"
    by code_simp
  then show ?thesis
    using lone_escape_delivered [of "default_framer\<lparr>fr_buffer := [27]\<rparr>" "\<lambda>_. False"] by (auto simp: default_framer_def)
qed



text \<open>
  Three flaws. A colour reply whose hash value is not hexadecimal can be cut within a character, which
  panics. The client passes on Alt and an opening bracket by its timeout, but the server, which
  only flushes for an escape character, keeps both bytes and reads the next key as an arrow. After
  an Escape the server keeps an opening bracket back until another key.
\<close>

lemma color_reply_panics: "push_bytes (\<lambda>_. False) (27 # B '']11;#'' @ [195, 169, 97, 7]) default_framer = None"
  by code_simp

lemma alt_bracket_merges_with_next_key:
  "flush_timeout (\<lambda>_. False) (for_host_input\<lparr>fr_buffer := [27, 91]\<rparr>) = Some ([[27, 91]], for_host_input)"
  "client_inputs (\<lambda>_. False) [[27, 91], [65]] default_framer =
     Some ([[], [RawKey (with_vt_bytes [27, 91, 65] (key_new KeyUp 0))]], default_framer)"
  by code_simp+

lemma bracket_after_escape_kept_back:
  "map_option (\<lambda>(es, t). (es, fr_buffer t)) (client_inputs (\<lambda>_. False) [[27], [91]] default_framer) =
     Some ([[RawKey (with_vt_bytes [27] (key_new KeyEsc 0))], []], [91])"
  by code_simp

end
