(* ===== verification/Host_Reports.thy ===== *)
theory Host_Reports
  imports Raw_Input
begin

unbundle bit_operations_syntax

text \<open>
  Reports that are written and read: the colours of \<open>src/terminal_theme.rs\<close>, with the theme that collects
  them, and the mouse reports that \<open>encode_mouse_button\<close> and \<open>encode_mouse_scroll\<close> of \<open>src/input/encode.rs\<close> write in
  the SGR format and \<open>src/raw_input.rs\<close> reads.
\<close>

section \<open>The theme of the host terminal\<close>

record host_theme =
  th_foreground :: "rgb_color option"
  th_background :: "rgb_color option"
  th_palette :: "rgb_color option list"

definition default_theme :: host_theme where
  "default_theme = \<lparr>th_foreground = None, th_background = None, th_palette = replicate 256 None\<rparr>"

definition color_scheme_report :: "host_appearance \<Rightarrow> u8 list" where
  "color_scheme_report a = (case a of Dark \<Rightarrow> 27 # B ''[?997;1n'' | Light \<Rightarrow> 27 # B ''[?997;2n'')"

definition inferred_appearance :: "rgb_color \<Rightarrow> host_appearance" where
  "inferred_appearance c =
     (if 128000 \<le> unat (rgb_r c) * 299 + unat (rgb_g c) * 587 + unat (rgb_b c) * 114 then Light else Dark)"

definition with_color :: "default_color_kind \<Rightarrow> rgb_color \<Rightarrow> host_theme \<Rightarrow> host_theme" where
  "with_color kind color t =
     (case kind of Foreground \<Rightarrow> t\<lparr>th_foreground := Some color\<rparr> | Background \<Rightarrow> t\<lparr>th_background := Some color\<rparr>)"

definition with_palette_color :: "u8 \<Rightarrow> rgb_color \<Rightarrow> host_theme \<Rightarrow> host_theme" where
  "with_palette_color index color t = t\<lparr>th_palette := (th_palette t)[unat index := Some color]\<rparr>"

definition theme_is_empty :: "host_theme \<Rightarrow> bool" where
  "theme_is_empty t \<longleftrightarrow> th_foreground t = None \<and> th_background t = None"

definition host_terminal_theme_query_sequence :: "bool \<Rightarrow> ustr" where
  "host_terminal_theme_query_sequence include_palette =
     27 # U '']10;?'' @ [27, 92, 27] @ U '']11;?'' @ [27, 92] @
     (if include_palette then concat (map (\<lambda>i. 27 # U '']4;'' @ dec i @ U '';?'' @ [27, 92]) [0..<256]) else [])"

definition hex_digit :: "nat \<Rightarrow> nat" where
  "hex_digit n = (if n < 10 then 48 + n else 87 + n)"

definition hex2 :: "u8 \<Rightarrow> ustr" where
  "hex2 b = [hex_digit (unat b div 16), hex_digit (unat b mod 16)]"

definition osc_set_default_color_sequence :: "default_color_kind \<Rightarrow> rgb_color \<Rightarrow> ustr" where
  "osc_set_default_color_sequence kind color =
     27 # 93 # (case kind of Foreground \<Rightarrow> U ''10'' | Background \<Rightarrow> U ''11'') @ U '';rgb:'' @
     hex2 (rgb_r color) @ U ''/'' @ hex2 (rgb_g color) @ U ''/'' @ hex2 (rgb_b color) @ [27, 92]"

definition osc_reset_default_color_sequence :: "default_color_kind \<Rightarrow> ustr" where
  "osc_reset_default_color_sequence kind = 27 # U (case kind of Foreground \<Rightarrow> '']110'' | Background \<Rightarrow> '']111'') @ [27, 92]"

lemma hex_digit_table:
  "list_all (\<lambda>n. hex_value (of_nat (hex_digit n)) = Some n \<and> hex_digit n \<noteq> 47 \<and> hex_digit n < 128) [0..<16]"
  by code_simp

lemma hex_digit_read:
  assumes "n < 16"
  shows "hex_value (of_nat (hex_digit n)) = Some n" "hex_digit n \<noteq> 47" "hex_digit n < 128"
  using hex_digit_table assms by (auto simp: list_all_iff simp del: upt_Suc)

lemma hex2_read: "parse_hex_component (as_bytes (hex2 b)) = Some b" "47 \<notin> set (hex2 b)"
proof -
  let ?h = "unat b div 16" and ?l = "unat b mod 16"
  have "unat b < 256" using unsigned_less [of b, where 'a = nat] by simp
  then have h: "?h < 16" "?l < 16" by (auto simp: less_mult_imp_div_less)
  note d = hex_digit_read [OF h(1)] hex_digit_read [OF h(2)]
  have "as_bytes (hex2 b) = [of_nat (hex_digit ?h), of_nat (hex_digit ?l)]" using d by (simp add: hex2_def as_bytes_ascii)
  moreover have "(unat b * 255 + 127) div 255 = unat b" by simp
  ultimately show "parse_hex_component (as_bytes (hex2 b)) = Some b"
    using d by (simp add: parse_hex_component_def)
  show "47 \<notin> set (hex2 b)" using d by (auto simp: hex2_def)
qed

text \<open>A colour that is set is the colour that is reported.\<close>

theorem default_color_roundtrip:
  "parse_default_color_response (osc_set_default_color_sequence kind color) = Some (Some (kind, color))"
proof -
  let ?b = "hex2 (rgb_r color) @ 47 # hex2 (rgb_g color) @ 47 # hex2 (rgb_b color)"
  have "split_by (\<lambda>c. c = 47) ?b [] = [hex2 (rgb_r color), hex2 (rgb_g color), hex2 (rgb_b color)]"
    using hex2_read(2) by (simp add: hex2_def)
  then have rgb: "parse_rgb_color (U ''rgb:'' @ ?b) = Some (Some color)"
    by (simp add: parse_rgb_color_def strip_prefix_def prefixed_def hex2_read(1) rgb_of_def U_def)
  have o: "osc_body (27 # U '']'') (osc_set_default_color_sequence kind color) =
      Some (case kind of Foreground \<Rightarrow> U ''10'' | Background \<Rightarrow> U ''11'', U ''rgb:'' @ ?b)"
    by (cases kind) (simp_all add: osc_body_def osc_set_default_color_sequence_def strip_prefix_def prefixed_def U_def
        strip_string_terminator_def split_once_def hex2_def)
  have "U ''11'' \<noteq> U ''10''" by (simp add: U_def)
  then show ?thesis unfolding parse_default_color_response_def o by (cases kind) (simp_all add: rgb)
qed

lemma color_scheme_report_read: "parse_host_color_scheme_report (color_scheme_report a) = Some a"
  by (cases a) (simp_all add: parse_host_color_scheme_report_def color_scheme_report_def B_def
      ghostty_color_scheme_dark_report_def ghostty_color_scheme_light_report_def)

section \<open>Mouse reports\<close>

definition sgr_buttons :: "(mouse_kind \<times> nat \<times> bool) list" where
  "sgr_buttons = [(MouseDown MouseLeft, 0, False), (MouseDown MouseMiddle, 1, False), (MouseDown MouseRight, 2, False),
     (MouseUp MouseLeft, 0, True), (MouseUp MouseMiddle, 1, True), (MouseUp MouseRight, 2, True),
     (MouseDrag MouseLeft, 32, False), (MouseDrag MouseMiddle, 33, False), (MouseDrag MouseRight, 34, False),
     (ScrollUp, 64, False), (ScrollDown, 65, False), (ScrollLeft, 66, False), (ScrollRight, 67, False)]"

definition sgr_report :: "nat \<Rightarrow> nat \<Rightarrow> nat \<Rightarrow> bool \<Rightarrow> ustr" where
  "sgr_report cb column row release = 27 # U ''[<'' @ dec cb @ 59 # dec column @ 59 # dec row @ [if release then 109 else 77]"

lemma encode_mouse_sgr:
  assumes "encode_mouse_button kind column row modifiers MouseSgr = Some bytes \<or>
    encode_mouse_scroll kind column row modifiers MouseSgr = Some bytes"
  shows "\<exists>base release. (kind, base, release) \<in> set sgr_buttons \<and>
    bytes = as_bytes (sgr_report (mouse_cb base release modifiers MouseSgr) (Suc (unat column)) (Suc (unat row)) release)"
  using assms
  by (cases kind; cases "case kind of MouseDown b \<Rightarrow> b | MouseUp b \<Rightarrow> b | MouseDrag b \<Rightarrow> b | _ \<Rightarrow> MouseLeft")
    (auto simp: encode_mouse_button_def encode_mouse_scroll_def encode_mouse_cb_def sgr_buttons_def sgr_report_def Let_def)

lemma mouse_cb_table:
  "list_all (\<lambda>((kind, base, release), m). let cb = mouse_cb base release (of_nat m) MouseSgr in
      cb \<le> 255 \<and>
      map_option (\<lambda>(k, mods). (if release then released k else k, mods)) (parse_mouse_cb (of_nat cb)) =
        Some (kind, of_nat m AND 7))
     (List.product sgr_buttons [0..<8])"
  by code_simp

lemma mouse_cb_low_bits: "mouse_cb base release m MouseSgr = mouse_cb base release (m AND 7) MouseSgr"
proof -
  have "(m AND 7) AND 1 = m AND 1" "(m AND 7) AND 2 = m AND 2" "(m AND 7) AND 4 = m AND 4" by (simp_all add: and.assoc)
  then show ?thesis by (simp add: mouse_cb_def contains_def mod_shift_def mod_control_def mod_alt_def)
qed

lemma mouse_cb_read:
  assumes "(kind, base, release) \<in> set sgr_buttons"
  shows "mouse_cb base release m MouseSgr \<le> 255 \<and>
    map_option (\<lambda>(k, mods). (if release then released k else k, mods)) (parse_mouse_cb (of_nat (mouse_cb base release m MouseSgr))) =
      Some (kind, m AND 7)"
proof -
  have lt: "unat (m AND 7) < 8"
  proof -
    have "m AND 7 \<le> 7" by (rule word_and_le1)
    then show ?thesis by (simp add: word_le_nat_alt)
  qed
  then have "((kind, base, release), unat (m AND 7)) \<in> set (List.product sgr_buttons [0..<8])" using assms by simp
  then show ?thesis
    using mouse_cb_table unfolding list_all_iff mouse_cb_low_bits [of base release m]
    by (auto simp: Let_def and.assoc dest!: bspec)
qed

lemma parse_coordinate_dec: "n < 65535 \<Longrightarrow> parse_coordinate (dec (Suc n)) = Some (of_nat n)"
  by (simp add: parse_coordinate_def parse_uint_dec)

lemma digit_no_separator: "x \<in> set (dec n) \<Longrightarrow> x \<noteq> 59 \<and> x \<noteq> 77 \<and> x \<noteq> 109 \<and> x < 128"
  using dec_digit [of x n] by auto

lemma parse_sgr_report:
  assumes "cb \<le> 255" "column < 65535" "row < 65535"
  shows "parse_sgr_mouse (sgr_report cb (Suc column) (Suc row) release) =
    map_option (\<lambda>(kind, mods). \<lparr>me_kind = (if release then released kind else kind), me_column = of_nat column,
      me_row = of_nat row, me_modifiers = mods\<rparr>) (parse_mouse_cb (of_nat cb))"
proof -
  let ?p = "dec cb @ 59 # dec (Suc column) @ 59 # dec (Suc row)"
  have b: "strip_prefix (27 # U ''[<'') (sgr_report cb (Suc column) (Suc row) release) = Some (?p @ [if release then 109 else 77])"
    by (simp add: strip_prefix_def prefixed_def sgr_report_def U_def)
  have "split_by (\<lambda>c. c = 59) ?p [] = [dec cb, dec (Suc column), dec (Suc row)]"
    using digit_no_separator by (simp add: split_by_field split_by_last)
  then show ?thesis
    using assms by (simp add: parse_sgr_mouse_def b parse_uint_dec parse_coordinate_dec butlast_append)
qed

lemma sgr_report_ascii: "list_all (\<lambda>c. c < 128) (sgr_report cb column row release)"
  using digit_no_separator by (auto simp: sgr_report_def U_def list_all_iff)

lemma sgr_report_bytes:
  "as_bytes (sgr_report cb column row release) = map of_nat (sgr_report cb column row release)"
  "from_utf8 (as_bytes (sgr_report cb column row release)) = Some (sgr_report cb column row release)"
proof -
  show a: "as_bytes (sgr_report cb column row release) = map of_nat (sgr_report cb column row release)"
    by (rule as_bytes_ascii [OF sgr_report_ascii])
  have "map unat (map of_nat (sgr_report cb column row release) :: u8 list) = sgr_report cb column row release"
    using sgr_report_ascii [of cb column row release] by (auto simp: list_all_iff unat_byte intro!: map_idI)
  moreover have "ascii (map of_nat (sgr_report cb column row release))"
    using sgr_report_ascii [of cb column row release] by (auto simp: ascii_def list_all_iff word_less_nat_alt unat_byte)
  ultimately show "from_utf8 (as_bytes (sgr_report cb column row release)) = Some (sgr_report cb column row release)"
    by (simp add: a from_utf8_ascii)
qed

lemma digit_not_final: "x \<in> set (dec n) \<Longrightarrow> \<not> mouse_final (of_nat x)"
  using digit_no_separator [of x n] unat_byte [of x] by (auto simp: mouse_final_def)

lemma position_last: "(\<And>x. x \<in> set xs \<Longrightarrow> \<not> P x) \<Longrightarrow> P y \<Longrightarrow> position P (xs @ [y]) = Some (length xs)"
  by (induction xs) auto

lemma sgr_report_complete:
  "complete_escape_sequence_len (as_bytes (sgr_report cb column row release)) = Some (length (sgr_report cb column row release))"
proof -
  let ?p = "60 # map of_nat (dec cb @ 59 # dec column @ 59 # dec row) :: u8 list"
  let ?f = "if release then 109 else 77 :: u8"
  have b: "as_bytes (sgr_report cb column row release) = 27 # 91 # ?p @ [?f]"
    by (simp add: sgr_report_bytes(1)) (simp add: sgr_report_def U_def)
  have no: "\<not> mouse_final x" if "x \<in> set ?p" for x
    using that digit_not_final by (auto simp: mouse_final_def [of 59] mouse_final_def [of 60])
  have "position mouse_final (?p @ [?f]) = Some (length ?p)"
    by (rule position_last [OF no]) (auto simp: mouse_final_def)
  then show ?thesis unfolding b by (simp add: complete_csi find_csi_final_def) (simp add: sgr_report_def U_def)
qed

lemma sgr_report_extracted:
  assumes "parse_sgr_mouse (sgr_report cb column row release) = Some mouse"
  shows "extract_one_event upper (as_bytes (sgr_report cb column row release)) =
    Event (RawMouse mouse) (length (as_bytes (sgr_report cb column row release)))"
proof -
  let ?s = "sgr_report cb column row release"
  have shape: "?s = 27 # 91 # 60 # drop 3 ?s" "last ?s \<noteq> 116" by (auto simp: sgr_report_def U_def)
  have bs: "as_bytes ?s = 27 # 91 # 60 # map of_nat (drop 3 ?s)" "length (as_bytes ?s) = length ?s"
    by (simp_all add: sgr_report_bytes(1)) (subst shape(1), simp)
  have c: "classify_sequence (as_bytes ?s) ?s = Some (RawMouse mouse)"
  proof -
    have "osc_body (27 # U '']'') ?s = None" "osc_body (27 # U '']4;'') ?s = None"
      by (subst shape(1), simp add: osc_body_def strip_prefix_def prefixed_def U_def)+
    moreover have "parse_host_color_scheme_report (as_bytes ?s) = None"
      unfolding bs(1) by (simp add: parse_host_color_scheme_report_def ghostty_color_scheme_dark_report_def
          ghostty_color_scheme_light_report_def B_def)
    moreover have "strip_prefix (27 # U ''['') ?s = Some (60 # drop 3 ?s)"
      by (subst shape(1), simp add: strip_prefix_def prefixed_def U_def)
    then have "parse_host_cell_size_report ?s = None"
      using shape by (simp add: parse_host_cell_size_report_def strip_suffix_char_def)
    moreover have "?s \<noteq> 27 # U ''[I''" "?s \<noteq> 27 # U ''[O''" by (subst shape(1), simp add: U_def)+
    ultimately show ?thesis
      using assms by (simp add: classify_sequence_def parse_default_color_response_def parse_palette_color_response_def)
  qed
  have "\<not> prefix bracketed_paste_start (as_bytes ?s)" "\<not> prefix [27, 91, 77] (as_bytes ?s)" "hd (as_bytes ?s) = 27" "as_bytes ?s \<noteq> []"
    unfolding bs(1) by (simp_all add: bracketed_paste_start_def B_def)
  then show ?thesis
    using c sgr_report_complete [of cb column row release] sgr_report_bytes(2) [of cb column row release] bs(2)
    by (simp add: extract_one_event_def Let_def)
qed

text \<open>
  C38. A mouse report means what was done. A press, release, drag or turn of the wheel, written in the SGR
  format for the program in a pane, is framed as one report and read as the same action at the same
  cell with the same Shift, Alt and Control keys; the column and row 65535, which the format
  would number 65536, are the only ones that are not read back.
\<close>

theorem sgr_mouse_roundtrip:
  assumes "encode_mouse_button kind column row modifiers MouseSgr = Some bytes \<or>
      encode_mouse_scroll kind column row modifiers MouseSgr = Some bytes"
    and "column \<noteq> 65535" and "row \<noteq> 65535"
  shows "extract_one_event upper bytes =
    Event (RawMouse \<lparr>me_kind = kind, me_column = column, me_row = row,
      me_modifiers = modifiers AND (mod_shift OR mod_control OR mod_alt)\<rparr>) (length bytes)"
proof -
  obtain base release where k: "(kind, base, release) \<in> set sgr_buttons"
      "bytes = as_bytes (sgr_report (mouse_cb base release modifiers MouseSgr) (Suc (unat column)) (Suc (unat row)) release)"
    using encode_mouse_sgr [OF assms(1)] by blast
  have small: "unat c < 65535" if "c \<noteq> 65535" for c :: u16
    using that unsigned_less [of c, where 'a = nat] word_unat_eq_iff [of c 65535] by simp
  note m = mouse_cb_read [OF k(1), of modifiers]
  have "parse_sgr_mouse (sgr_report (mouse_cb base release modifiers MouseSgr) (Suc (unat column)) (Suc (unat row)) release) =
      Some \<lparr>me_kind = kind, me_column = column, me_row = row, me_modifiers = modifiers AND 7\<rparr>"
    using parse_sgr_report [OF conjunct1 [OF m] small [OF assms(2)] small [OF assms(3)], of release] conjunct2 [OF m] by auto
  then show ?thesis
    unfolding k(2) by (simp add: sgr_report_extracted mod_shift_def mod_control_def mod_alt_def)
qed

theorem sgr_mouse_roundtrip_witness:
  "encode_mouse_button (MouseUp MouseRight) 9 4 mod_alt MouseSgr = Some (27 # B ''[<10;10;5m'') \<and>
   extract_one_event (\<lambda>_. False) (27 # B ''[<10;10;5m'') =
     Event (RawMouse \<lparr>me_kind = MouseUp MouseRight, me_column = 9, me_row = 4, me_modifiers = mod_alt\<rparr>) 11"
proof
  show a: "encode_mouse_button (MouseUp MouseRight) 9 4 mod_alt MouseSgr = Some (27 # B ''[<10;10;5m'')"
    by code_simp
  show "extract_one_event (\<lambda>_. False) (27 # B ''[<10;10;5m'') =
     Event (RawMouse \<lparr>me_kind = MouseUp MouseRight, me_column = 9, me_row = 4, me_modifiers = mod_alt\<rparr>) 11"
    using sgr_mouse_roundtrip [OF disjI1 [OF a]] by (simp add: mod_alt_def mod_shift_def mod_control_def B_def)
qed

end
