(* ===== verification/Spec2Isabelle.thy ===== *)
theory Spec2Isabelle
  imports Layout_Geometry Embedding_Workers Worker_Pause Header Input_Lease Render_Signal Selection Popup Terminal_Bounds
    Retrieval Agent_Processes Input_Flush Host_Reports
begin

text \<open>
  \<^bold>\<open>Zynk: a terminal workspace manager for coding agents.\<close>
  The program runs a server that owns terminals, shows them in a tiling layout, finds out which
  coding agent runs in each of them and in which state it is, and carries messages between agents
  through a durable SQLite store. This development models the logic of these parts as executable
  functions and proves the theorems their correctness rests on. Paths below are relative to
  \<open>src/src/\<close>; a definition has the name of the Rust item it translates wherever HOL allows it.

  \<^bold>\<open>How the parts interact.\<close>
  A sender (\<open>zynk/message.rs\<close>) resolves its own identity and the target, persists the message and the
  first delivery event (\<open>zynk/persistence.rs\<close>), types the header box (\<open>zynk/header.rs\<close>) and the body into
  the target's terminal and appends the outcome. The recipient acknowledges through the server,
  whose receipt worker (\<open>zynk/receipt_worker.rs\<close>) validates and records the receipt
  (\<open>zynk/receipt.rs\<close>). Every message queues an embedding job that embedding workers
  (\<open>zynk/embedding_worker.rs\<close>) claim and complete. Messages whose sender died are failed when the store is
  opened (\<open>zynk/db.rs\<close>), and agents read the store as inbox, thread and trace (\<open>zynk/inbox.rs\<close>) and search it
  (\<open>zynk/retrieval/\<close>). A live handoff to a new server first pauses both workers
  (\<open>zynk/worker_pause.rs\<close>), then exports each terminal's agent bookkeeping, which the new server
  imports. In the terminals, hook reports and screen detection compete for the published agent
  state (\<open>terminal/state.rs\<close>); the fences that keep late reports of dead sessions out must survive the
  handoff. Key presses reach terminals through leases (\<open>app/input/lease.rs\<close>), and panes are placed by the
  layout tree (\<open>layout.rs\<close>).

  \<^bold>\<open>The theories.\<close>
  \<^item> \<open>Prelude\<close>: saturating machine arithmetic, Rust strings as lists of Unicode scalar values, JSON values,
    iterator functions, reachability and the locale \<open>inductive_system\<close> in which every state machine
    proves its invariant. \<open>Float32\<close>: binary32 arithmetic as far as the layout uses it, exact.
  \<^item> \<open>Layout\<close>, \<open>Layout_Invariants\<close>, \<open>Layout_Geometry\<close> (\<open>layout.rs\<close>): the BSP tree with its
    focus history and every edit. Identifiers stay distinct and focus stays in the tree in every
    reachable state; panes tile the area exactly; a split that is closed again restores the layout;
    navigation finds a touching pane.
  \<^item> \<open>Timestamp\<close>, \<open>Message\<close>, \<open>Header\<close> (\<open>zynk/message.rs\<close>, \<open>zynk/identity.rs\<close>, \<open>zynk/header.rs\<close>,
    \<open>config/model.rs\<close>): clock strings are the Gregorian calendar and order like the times they
    denote; the command line options round trip; header and body can be split again; the box is
    aligned for texts of additive width and not for an emoji presentation sequence.
  \<^item> \<open>Sqlite\<close>, \<open>Store\<close>, \<open>Store_Invariants\<close>, \<open>Receipt\<close> (\<open>zynk/persistence.rs\<close>, \<open>zynk/receipt.rs\<close>, the
    migrations): tables as lists of rows with their constraints, statements any of which may fail,
    transactions. The locale \<open>transaction\<close> turns a triple of a body into all-or-nothing on disk; it is
    interpreted for sends, events and receipts. Sends and events are atomic, receipts are accepted
    from the addressee only and are idempotent, and a failed commit leaves the receipt connection
    stuck, which is a defect.
  \<^item> \<open>Embedding\<close>, \<open>Embedding_Workers\<close> (\<open>zynk/embedding_worker.rs\<close>, \<open>zynk/embed/\<close>): claims fenced by an
    attempt counter, recovery, backfill; any number of workers in any interleaving complete a job
    at most once; a claim that lost its job is inert; the backfill loop ends.
  \<^item> \<open>Recovery\<close> (\<open>zynk/db.rs\<close>): a message without any event past its grace period is failed once, and no
    other message is touched. \<open>Inbox\<close> (\<open>zynk/inbox.rs\<close>): a thread is the transcript and the inbox holds the newest
    messages. \<open>Float64\<close>, \<open>Rank_Fusion\<close>, \<open>Retrieval\<close> (\<open>zynk/retrieval/\<close>): double arithmetic with its rounding;
    rank fusion does not depend on the iteration order of a hash map; a query answers stored
    messages that pass the filters and is honest about its vector leg.
  \<^item> \<open>Worker_Pause\<close> (\<open>zynk/worker_pause.rs\<close>, \<open>zynk/receipt_worker.rs\<close>, the pause in
    \<open>server/headless.rs\<close>): critical sections as steps of threads. The locale \<open>pausable_worker\<close> extends
    \<open>inductive_system\<close> and is interpreted for both workers; after the acknowledgements no database
    work is outstanding.
  \<^item> \<open>Keys\<close>, \<open>Utf8\<close>, \<open>Key_Codec\<close> (\<open>input/model.rs\<close>, \<open>input/encode.rs\<close>, \<open>input/parse.rs\<close>): keys, their legacy and
    kitty encodings and the parser; a reported key and every special key are read back.
  \<^item> \<open>Raw_Input\<close>, \<open>Input_Flush\<close>, \<open>Host_Reports\<close> (\<open>raw_input.rs\<close>, \<open>terminal_theme.rs\<close>, the client input of
    \<open>server/headless.rs\<close>): the framer that cuts the input of the host terminal into events, with its
    timeouts and the tails it throws away. Framing does not depend on how reads split the input,
    loses no byte, and holds an Escape for two timeouts at most; a chunk of the client is one event
    of the server; a lost tail costs at most 128 bytes; mouse and colour reports are read back.
  \<^item> \<open>Input_Lease\<close> (\<open>input/\<close>, \<open>app/input/\<close>), \<open>Render_Signal\<close>, \<open>Selection\<close>, \<open>Popup\<close>: key routing, the
    coalesced render request, selections and popup sizes at their machine widths.
  \<^item> \<open>Agents\<close> and \<open>Agent_Processes\<close> (\<open>detect/mod.rs\<close>): agents, labels, and the search of a foreground
    process group for an agent, which finds the leader or the first process of highest priority. \<open>Agent_Resume\<close> (\<open>agent_resume.rs\<close>): the command that resumes an agent
    session; the locale \<open>resume_adapter\<close> is interpreted for each adapter.
  \<^item> \<open>Metadata_Tokens\<close>, \<open>Hook_Fence\<close>, \<open>Terminal_State\<close>, \<open>Hook_Arbitration\<close>, \<open>Terminal_Ops\<close>,
    \<open>Terminal_Agents\<close>, \<open>Terminal_Handoff\<close> (\<open>metadata_tokens.rs\<close>, \<open>terminal/\<close>): the record of a terminal and
    every operation on it. \<open>Terminal_Frames\<close>: what the operations leave alone. \<open>Terminal_System\<close>: the events
    \<open>app/actions.rs\<close> dispatches and the handoff, as one step relation. \<open>Terminal_Properties\<close>,
    \<open>Stale_Fences\<close> (the locale \<open>fence_invariant\<close>), \<open>Terminal_Retirement\<close>, \<open>Handoff_Fences\<close>,
    \<open>Terminal_Bounds\<close>: arbitration, the bar on owners whose process exited, retired sessions,
    the refinement of fences by a handoff, and bounds.
  \<^item> This theory: the consistency of the store under all its clients together.

  \<^bold>\<open>Parameters.\<close> Code outside the repository is an argument of the definitions that use it, and what is
  relied on is a hypothesis of the theorem: ratatui's \<open>Rect::new\<close> (\<open>rect_new_ok\<close>), display width
  (\<open>width_model\<close>), Unicode lower case (\<open>lowers_ascii\<close>) and upper case of a character, SHA-256, the embedding provider, the
  environment of a connection (clock, random identifiers, which statements fail), the full-text
  engine (\<open>fts_ok\<close>: a row matches once) and the vector engine, the iteration order of hash maps, the
  range of the platform's instants, the process table and the file system where a process name is
  resolved. Each hypothesis has an instance in the witness of the theorem that assumes it.

  \<^bold>\<open>Bounds and fuel.\<close> Only the digit loops of number printing use fuel, with the number itself as the bound
  (each step divides it). The receipt queue has the code's capacity of 64; its counter cannot wrap
  because at most \<open>2 ^ 32\<close> threads submit at a time, a guard of the admission step. The backfill loop is a \<open>partial_function\<close> whose
  termination is a theorem. Everything else is total by a measure or by structure.

  \<^bold>\<open>Findings.\<close> \<open>receipt_connection_stuck\<close>, \<open>header_misaligned_on_presentation_sequence\<close>,
  \<open>release_forgets_process_exit\<close> and \<open>reasonless_callback_reclaims\<close> prove where the code differs from its
  documentation or from what it means to do; \<open>wrapped_launcher_argv_captured\<close> shows that a launcher is captured
  where the documentation says it is not, and \<open>control_truncates_character\<close> that a control chord loses the
  high bits of its character. \<open>color_reply_panics\<close>, \<open>alt_bracket_merges_with_next_key\<close> and
  \<open>bracket_after_escape_kept_back\<close> are inputs that panic the framer or that the server reads wrongly or late.

  \<^bold>\<open>Not modelled.\<close> Process I/O (PTYs, sockets, descriptors, the event loop of \<open>server/\<close>, \<open>client/\<close>,
  \<open>remote/\<close>, \<open>ipc.rs\<close>), rendering (\<open>ui/\<close>, \<open>kitty_graphics.rs\<close>, \<open>pane/terminal.rs\<close>), the bindings to the
  terminal emulator (\<open>ghostty/\<close>), platform code, the command line front end, configuration files,
  updates, plugins and integration installers, git worktrees, the screen detection manifests
  (regular expressions over screens), database opening, migration and cut-over, and the workspace
  and tab actions of the application: they are glue over operating system services or drawing,
  with little state of their own, or their behaviour is decided by libraries that are not
  in the repository.
\<close>

section \<open>The clients of the message store\<close>

text \<open>
  The store is shared by command line senders, the server's receipt worker, any number of embedding
  workers and every process that opens it and fails the orphans of dead senders. Each has its own
  connection. SQLite serialises transactions and single statements, so those are the atomic steps
  of the relation below; in each of them any statement may fail. An operation that runs several of
  them is not a step: between two of them every other client may run. The recovery of orphans
  (\<open>recover_orphan_messages\<close>) selects the candidates in one statement and then fails each in a
  transaction of its own, the backfill (\<open>backfill_missing\<close>) selects in one statement and inserts
  each job in another, and \<open>ensure_model_and_vec0\<close> is two statements. What a process has selected
  and not yet dealt with is part of the state; a process that dies takes no further step.
\<close>

record store_state =
  st_db :: db
  st_orphans :: "nat \<Rightarrow> ustr list" \<comment> \<open>per process, the orphans it selected and has not failed yet\<close>
  st_backfill :: "nat \<Rightarrow> (ustr \<times> ustr) \<times> ustr list" \<comment> \<open>per process, model, time and messages left to queue\<close>

definition store_init :: store_state where
  "store_init = \<lparr>st_db = empty_db, st_orphans = (\<lambda>_. []), st_backfill = (\<lambda>_. (([], []), []))\<rparr>"

text \<open>A connection without an open transaction, looking at the published tables.\<close>

definition connected :: "conn \<Rightarrow> store_state \<Rightarrow> bool" where
  "connected c s \<longleftrightarrow> txn c = None \<and> disk c = st_db s"

inductive store_step :: "store_state \<Rightarrow> store_state \<Rightarrow> bool" where
  send: "connected c s \<Longrightarrow>
    store_step s (s\<lparr>st_db := disk (snd (begin_send_attempt_async E model inp runtime socket c))\<rparr>)"
| event: "connected c s \<Longrightarrow> store_step s (s\<lparr>st_db := disk (snd (append_delivery_event_async E ev c))\<rparr>)"
| receipt: "connected c s \<Longrightarrow>
    store_step s (s\<lparr>st_db := disk (snd (append_received_event E rq r socket runtime now c))\<rparr>)"
| model: "connected c s \<Longrightarrow> store_step s (s\<lparr>st_db := disk (snd (exec E (sql_insert_or_ignore_model row) c))\<rparr>)"
| vec_table: "connected c s \<Longrightarrow> store_step s (s\<lparr>st_db := disk (snd (ensure_vec0_table E name n c))\<rparr>)"
| claim: "connected c s \<Longrightarrow>
    store_step s (s\<lparr>st_db := disk (snd (with_now E (\<lambda>now. exec E (sql_claim now job_id)) c))\<rparr>)"
| embed_write: "connected c s \<Longrightarrow>
    store_step s (s\<lparr>st_db := disk (snd (write_embedding_txn E vec_table rowid v mid model_id body cl c))\<rparr>)"
| embed_failed: "connected c s \<Longrightarrow> store_step s (s\<lparr>st_db := disk (mark_job_failed E cl e c)\<rparr>)"
| recover: "connected c s \<Longrightarrow> store_step s (s\<lparr>st_db := disk (snd (recover_running_jobs E model_id c))\<rparr>)"
| orphans_selected: "connected c s \<Longrightarrow>
    exec E (sql_select_orphans (recovery_cutoff E orphan_grace c)) c = (Inr ids, c') \<Longrightarrow>
    store_step s (s\<lparr>st_orphans := (st_orphans s)(p := ids)\<rparr>)"
| orphan_handled: "connected c s \<Longrightarrow> st_orphans s p = mid # rest \<Longrightarrow> fail_orphan_message E mid c = (r, c') \<Longrightarrow>
    store_step s (s\<lparr>st_db := disk c', st_orphans := (st_orphans s)(p := if isl r then [] else rest)\<rparr>)"
| backfill_selected: "connected c s \<Longrightarrow> exec E (sql_select_missing model_id limit) c = (Inr rows, c') \<Longrightarrow>
    store_step s (s\<lparr>st_backfill := (st_backfill s)(p := ((model_id, now_rfc3339 E c'), rows))\<rparr>)"
| backfill_row: "connected c s \<Longrightarrow> st_backfill s p = ((model_id, now), mid # rest) \<Longrightarrow>
    backfill_rows E model_id now 0 [mid] c = (r, c') \<Longrightarrow>
    store_step s (s\<lparr>st_db := disk c',
      st_backfill := (st_backfill s)(p := ((model_id, now), if isl r then [] else rest))\<rparr>)"

lemma store_inv_send:
  "txn c = None \<Longrightarrow> store_inv (disk c) \<Longrightarrow> store_inv (disk (snd (begin_send_attempt_async E model inp runtime socket c)))"
  unfolding begin_send_attempt_async_def
  by (rule send_tx.keeps, assumption, rule conjI, rule refl, assumption, simp add: sent_def)

lemma store_inv_event:
  "txn c = None \<Longrightarrow> store_inv (disk c) \<Longrightarrow> store_inv (disk (snd (append_delivery_event_async E ev c)))"
  unfolding append_delivery_event_async_def
  by (rule event_tx.keeps, assumption, rule conjI, rule refl, assumption, simp add: appended_def)

lemma store_inv_receipt:
  "txn c = None \<Longrightarrow> store_inv (disk c) \<Longrightarrow> store_inv (disk (snd (append_received_event E rq r socket runtime now c)))"
  unfolding append_received_event_def
proof (cases "rq_socket_namespace rq = socket")
  case True
  assume c: "txn c = None" "store_inv (disk c)"
  have "store_inv (disk (snd (with_transaction E (append_received_event_in_tx E rq r runtime now) c)))"
    by (rule receipt_tx.keeps [OF c(1) conjI [OF refl c(2)]]) (simp_all add: receipt_done_def c(2))
  with True show "store_inv (disk (snd ((if rq_socket_namespace rq \<noteq> socket
      then dfail (U ''socket_namespace_mismatch'') (U ''receipt socket namespace '' @ rq_socket_namespace rq
         @ U '' does not match the current server socket '' @ socket)
      else with_transaction E (append_received_event_in_tx E rq r runtime now)) c)))" by simp
qed (simp add: dfail_def)

lemma store_inv_view:
  "message_view d' = message_view d \<Longrightarrow> embedding_jobs d' = embedding_jobs d \<Longrightarrow> store_inv d \<Longrightarrow> store_inv d'"
  by (rule store_inv_jobs) simp_all

lemma store_inv_model:
  assumes "txn c = None" and "store_inv (disk c)"
  shows "store_inv (disk (snd (exec E (sql_insert_or_ignore_model row) c)))"
    and "store_inv (disk (snd (ensure_vec0_table E name n c)))"
proof -
  let ?R = "\<lambda>d d'. message_view d' = message_view d \<and> embedding_jobs d' = embedding_jobs d"
  have "?R (disk c) (disk (snd (exec E (sql_insert_or_ignore_model row) c)))"
    by (rule conjunct2, rule exec_auto_disk [OF assms(1)])
      (auto simp: sql_insert_or_ignore_model_def message_view_def split: if_splits)
  then show "store_inv (disk (snd (exec E (sql_insert_or_ignore_model row) c)))"
    using assms(2) by (blast intro: store_inv_view)
  have "?R (disk c) (disk (snd (exec E (sql_create_vec0 name n) c)))"
    by (rule conjunct2, rule exec_auto_disk [OF assms(1)])
      (auto simp: sql_create_vec0_def message_view_def split: if_splits)
  then show "store_inv (disk (snd (ensure_vec0_table E name n c)))"
    using assms(2) by (auto simp: ensure_vec0_table_def dfail_def intro: store_inv_view)
qed

lemma store_inv_write:
  assumes "txn c = None" and "store_inv (disk c)"
  shows "store_inv (disk (snd (write_embedding_txn E vec_table rowid v mid model_id body cl c)))"
proof (cases "write_embedding_txn E vec_table rowid v mid model_id body cl c")
  case (Pair r c')
  note w = write_embedding_txn_cases [OF assms(1) Pair]
  show ?thesis
  proof (cases "r = Inr Written")
    case True
    with w obtain now where v: "message_view (disk c') = message_view (disk c)"
      and j: "embedding_jobs (disk c') = map (mark_done now cl) (embedding_jobs (disk c))"
      by (auto simp: embedding_written_def)
    have "j_message (mark_done now cl j) = j_message j" for j by (simp add: mark_done_def)
    then have "j_message ` set (embedding_jobs (disk c)) \<subseteq> j_message ` set (embedding_jobs (disk c'))"
      by (simp add: j image_image)
    from store_inv_jobs [OF v this assms(2)] show ?thesis using Pair by simp
  qed (use w Pair assms in \<open>simp\<close>)
qed

lemma store_inv_orphan:
  assumes "txn c = None" and "store_inv (disk c)" and "fail_orphan_message E mid c = (r, c')"
  shows "store_inv (disk c')"
  using fail_orphan_message_cases [OF assms] assms(2) by (auto simp: orphan_failed_def split: if_splits)

lemma store_inv_backfill_row:
  assumes "txn c = None" and "store_inv (disk c)" and "backfill_rows E model_id now 0 [mid] c = (r, c')"
  shows "store_inv (disk c')"
  using backfill_rows_evolves [OF assms(1), of E model_id now 0 "[mid]"] assms(2,3) evolves_store_inv by auto

lemma store_step_inv: "store_step s t \<Longrightarrow> store_inv (st_db s) \<Longrightarrow> store_inv (st_db t)"
proof (induction rule: store_step.induct)
  case (claim c s E job_id)
  then have c: "txn c = None" "disk c = st_db s" by (simp_all add: connected_def)
  have "evolves (disk c) (disk (snd (with_now E (\<lambda>now. exec E (sql_claim now job_id)) c)))"
    unfolding with_now_def by (rule conjunct2, rule exec_auto_disk [OF c(1)]) (erule evolves_claim, simp)
  with claim c show ?case using evolves_store_inv by simp
next
  case (embed_failed c s E cl e)
  then show ?case using evolves_store_inv [OF mark_failed_evolves] by (simp add: connected_def)
next
  case (recover c s E model_id)
  then show ?case using evolves_store_inv [OF recover_evolves] by (simp add: connected_def)
next
  case (orphan_handled c s p mid rest E r c')
  then show ?case using store_inv_orphan [of c E mid r c'] by (simp add: connected_def)
next
  case (backfill_row c s p model_id now mid rest E r c')
  then show ?case using store_inv_backfill_row [of c E model_id now mid r c'] by (simp add: connected_def)
qed (simp_all add: connected_def store_inv_send store_inv_event store_inv_receipt store_inv_model store_inv_write)

interpretation store_system: inductive_system "\<lambda>s. s = store_init" store_step "\<lambda>s. store_inv (st_db s)"
  by unfold_locales (auto simp: store_init_def store_inv_empty intro: store_step_inv)

text \<open>
  The steps are the pieces of the code's own loops: a recovery and a backfill that nobody
  interrupts are runs of the relation.
\<close>

lemma fail_orphans_open:
  assumes "txn c = Some d"
  shows "disk (snd (fail_orphans E ids c)) = disk c"
proof (cases ids)
  case (Cons mid rest)
  obtain r c1 where "fail_orphan_message E mid c = (r, c1)" by fastforce
  with fail_orphan_message_open [OF assms this] Cons show ?thesis by (auto simp: dbind_def)
qed (simp add: dreturn_def)

lemma fail_orphans_steps:
  assumes "connected c s" and "store_inv (st_db s)" and "st_orphans s p = ids"
  shows "\<exists>ps. store_step\<^sup>*\<^sup>* s (s\<lparr>st_db := disk (snd (fail_orphans E ids c)), st_orphans := (st_orphans s)(p := ps)\<rparr>)"
  using assms
proof (induction ids arbitrary: c s)
  case Nil
  then have "s\<lparr>st_db := disk (snd (fail_orphans E [] c)), st_orphans := (st_orphans s)(p := [])\<rparr> = s"
    by (simp add: dreturn_def connected_def fun_upd_idem)
  then show ?case by (metis rtranclp.rtrancl_refl)
next
  case (Cons mid rest)
  obtain r c1 where one: "fail_orphan_message E mid c = (r, c1)" by fastforce
  let ?ps = "if isl r then [] else rest"
  let ?t = "s\<lparr>st_db := disk c1, st_orphans := (st_orphans s)(p := ?ps)\<rparr>"
  have first: "store_step s ?t" by (rule store_step.orphan_handled [OF Cons.prems(1,3) one])
  show ?case
  proof (cases "isl r \<or> txn c1 \<noteq> None")
    case True
    have "disk (snd (fail_orphans E (mid # rest) c)) = disk c1"
    proof (cases r)
      case (Inr b)
      with True fail_orphans_open [of c1 _ E rest] one show ?thesis by (auto simp: dbind_def)
    qed (simp add: one dbind_def)
    then show ?thesis using r_into_rtranclp [of store_step, OF first] by metis
  next
    case False
    then obtain b where b: "r = Inr b" by (cases r) auto
    have inv: "store_inv (st_db ?t)" by (rule store_step_inv [OF first Cons.prems(2)])
    have "connected c1 ?t" "st_orphans ?t p = rest" using False by (simp_all add: connected_def)
    from Cons.IH [OF this(1) inv this(2)] obtain ps where
      "store_step\<^sup>*\<^sup>* ?t (?t\<lparr>st_db := disk (snd (fail_orphans E rest c1)), st_orphans := (st_orphans ?t)(p := ps)\<rparr>)"
      by blast
    moreover have "?t\<lparr>st_db := disk (snd (fail_orphans E rest c1)), st_orphans := (st_orphans ?t)(p := ps)\<rparr> =
        s\<lparr>st_db := disk (snd (fail_orphans E (mid # rest) c)), st_orphans := (st_orphans s)(p := ps)\<rparr>"
      by (simp add: b one dbind_def)
    ultimately show ?thesis using converse_rtranclp_into_rtranclp [of store_step, OF first] by metis
  qed
qed

lemma recover_orphan_messages_steps:
  assumes "connected c s" and "store_inv (st_db s)"
  shows "\<exists>ps. store_step\<^sup>*\<^sup>* s (s\<lparr>st_db := disk (snd (recover_orphan_messages E c)), st_orphans := (st_orphans s)(p := ps)\<rparr>)"
proof -
  obtain r c1 where sel: "exec E (sql_select_orphans (recovery_cutoff E orphan_grace c)) c = (r, c1)" by fastforce
  have c1: "txn c1 = None" "disk c1 = disk c"
    using exec_auto [OF sel] assms(1) by (auto simp: connected_def sql_select_orphans_def)
  show ?thesis
  proof (cases r)
    case (Inl e)
    then have "s\<lparr>st_db := disk (snd (recover_orphan_messages E c)), st_orphans := (st_orphans s)(p := st_orphans s p)\<rparr> = s"
      using sel c1 assms(1)
      by (simp add: recover_orphan_messages_def recover_orphan_messages_older_than_def dbind_def connected_def)
    then show ?thesis by (metis rtranclp.rtrancl_refl)
  next
    case (Inr ids)
    let ?t = "s\<lparr>st_orphans := (st_orphans s)(p := ids)\<rparr>"
    have first: "store_step s ?t" using assms(1) sel [unfolded Inr] by (rule store_step.orphans_selected)
    have "connected c1 ?t" using assms(1) c1 by (simp add: connected_def)
    from fail_orphans_steps [OF this, of p ids E] assms(2) obtain ps where
      "store_step\<^sup>*\<^sup>* ?t (?t\<lparr>st_db := disk (snd (fail_orphans E ids c1)), st_orphans := (st_orphans ?t)(p := ps)\<rparr>)"
      by auto
    moreover have "?t\<lparr>st_db := disk (snd (fail_orphans E ids c1)), st_orphans := (st_orphans ?t)(p := ps)\<rparr> =
        s\<lparr>st_db := disk (snd (recover_orphan_messages E c)), st_orphans := (st_orphans s)(p := ps)\<rparr>"
      by (simp add: recover_orphan_messages_def recover_orphan_messages_older_than_def dbind_def sel Inr)
    ultimately show ?thesis using converse_rtranclp_into_rtranclp [of store_step, OF first] by metis
  qed
qed

section \<open>Properties\<close>

text \<open>
  C1. In every database that the clients can produce from an empty one, with the transactions and
  statements of all of them interleaved in any order (those inside one recovery of orphans and
  one backfill too) and with any statement failures: the messages of a conversation are numbered
  1, 2, ... without gap up to the conversation's counter, a socket, workspace and tab has at most
  one active conversation, the delivery events of a message are numbered without gap and form one
  of the six legal histories, and every message is in the text index with its own body and has an
  embedding job.
\<close>

theorem message_store_consistent:
  assumes "reachable (\<lambda>s. s = store_init) store_step s" and "d = st_db s"
  shows "(c \<in> set (conversations d) \<longrightarrow>
      map m_seq (filter (\<lambda>m. m_conversation m = c_id c) (messages d)) = [1..c_seq c]) \<and>
    (c \<in> set (conversations d) \<and> c' \<in> set (conversations d) \<and> c_status c = U ''active'' \<and> c_status c' = U ''active'' \<and>
      c_socket c' = c_socket c \<and> c_workspace c' = c_workspace c \<and> c_tab c' = c_tab c \<longrightarrow> c_id c = c_id c') \<and>
    (m \<in> set (messages d) \<longrightarrow>
      map e_seq (events_of d (m_id m)) = [1..m_delivery_seq m] \<and> history d (m_id m) \<in> legal_histories \<and>
      (\<exists>f \<in> set (messages_fts d). f_rowid f = m_rowid m \<and> f_body f = m_body m) \<and>
      (\<exists>j \<in> set (embedding_jobs d). j_message j = m_id m))"
proof -
  have i: "store_inv d" using store_system.reachable_inv [OF assms(1)] assms(2) by simp
  have "map m_seq (filter (\<lambda>m. m_conversation m = c_id c) (messages d)) = [1..c_seq c]" if "c \<in> set (conversations d)"
    using i that by (auto simp: store_inv_def seq_inv_def conv_seqs_def seqs_of_def)
  moreover have "c_id c = c_id c'" if "c \<in> set (conversations d)" "c' \<in> set (conversations d)"
    "c_status c = U ''active''" "c_status c' = U ''active''" "c_socket c' = c_socket c"
    "c_workspace c' = c_workspace c" "c_tab c' = c_tab c"
    using i that unfolding store_inv_def conv_inv_def in_scope_def by blast
  moreover have "map e_seq (events_of d (m_id m)) = [1..m_delivery_seq m] \<and> history d (m_id m) \<in> legal_histories"
    if "m \<in> set (messages d)"
    using i that by (auto simp: store_inv_def evt_inv_def delivery_seqs_def)
  moreover have "(\<exists>f \<in> set (messages_fts d). f_rowid f = m_rowid m \<and> f_body f = m_body m) \<and>
      (\<exists>j \<in> set (embedding_jobs d). j_message j = m_id m)" if "m \<in> set (messages d)"
    using i that unfolding store_inv_def idx_inv_def by blast
  ultimately show ?thesis by blast
qed

text \<open>
  A message is stored, a recovery with a clock ahead selects the orphans, and the sender then records
  the submission while the recovery still has its selection.
\<close>

definition late_env :: env where
  "late_env = (sample_env (\<lambda>_. None))\<lparr>unix_secs := \<lambda>_. 1000\<rparr>"

definition at_db :: "db \<Rightarrow> conn" where
  "at_db d = \<lparr>disk = d, txn = None, stmts = 0, id_seq = 9\<rparr>"

definition sent_db :: db where
  "sent_db = disk (snd (begin_send_attempt_async late_env (U ''fake'')
     (sample_send\<lparr>sa_created_at := U ''1970-01-01T00:00:00Z''\<rparr>) (U ''rt'') (U ''s'') (at_db empty_db)))"

definition late_orphans :: "ustr list" where
  "late_orphans = map m_id (filter (\<lambda>m. m_created_at m < recovery_cutoff late_env orphan_grace (at_db sent_db) \<and>
     \<not> has_event sent_db (m_id m)) (messages sent_db))"

definition submitted_db :: db where
  "submitted_db = disk (snd (append_delivery_event_async late_env
     \<lparr>de_message_id = U ''m'', de_event_type = Submitted, de_proof_source = U ''pane.send_input'',
      de_timestamp = U ''t'', de_payload = JNull\<rparr> (at_db sent_db)))"

theorem message_store_consistent_witness:
  "list_all (\<lambda>c. map m_seq (filter (\<lambda>m. m_conversation m = c_id c) (messages submitted_db)) = [1..c_seq c]) (conversations submitted_db) \<and>
   list_all (\<lambda>m. history submitted_db (m_id m) \<in> legal_histories) (messages submitted_db)"
proof -
  let ?s1 = "store_init\<lparr>st_db := sent_db\<rparr>"
  let ?s2 = "?s1\<lparr>st_orphans := (st_orphans ?s1)(0 := late_orphans)\<rparr>"
  let ?s3 = "?s2\<lparr>st_db := submitted_db\<rparr>"
  have conn: "connected (at_db (st_db s)) s" for s by (simp add: connected_def at_db_def)
  have 1: "store_step store_init ?s1"
    unfolding sent_db_def using store_step.send [OF conn, of store_init] by (simp add: store_init_def)
  have 2: "store_step ?s1 ?s2"
    by (rule store_step.orphans_selected [OF conn, where E = late_env])
      (simp add: exec_def attempt_def late_env_def sample_env_def sql_select_orphans_def late_orphans_def
        at_db_def visible_def)
  have 3: "store_step ?s2 ?s3"
    using store_step.event [OF conn, of ?s2] by (simp add: submitted_db_def)
  have "reachable (\<lambda>s. s = store_init) store_step store_init" by (rule reachable.start) (rule refl)
  from reachable.step [OF reachable.step [OF reachable.step [OF this 1] 2] 3]
  have "reachable (\<lambda>s. s = store_init) store_step ?s3" .
  then show ?thesis using message_store_consistent [of ?s3 submitted_db] by (simp add: list_all_iff)
qed

end
